(* ===== verification/Prelude.thy ===== *)
theory Prelude
  imports Complex_Main "HOL-Library.Word" "HOL-Library.Multiset"
begin

section \<open>Shared vocabulary of the development\<close>

text \<open>
  The types and generic lemmas every component uses: the fixed-width integers of the C++
  sources, the ordered associative container \<^verbatim>\<open>std::map\<close> as a strictly sorted association
  list, and the interface the component proofs rely on when they look keys up, write them
  and erase them.
\<close>

type_synonym u8 = "8 word"
type_synonym u16 = "16 word"
type_synonym u32 = "32 word"
type_synonym u64 = "64 word"

text \<open>
  Collections: \<open>word_nat\<close> moves unsigned comparisons and non-wrapping arithmetic of words to
  \<^typ>\<open>nat\<close>; \<open>omap_split\<close> evaluates the map operations at a known position of the sorted list.
\<close>

named_theorems word_nat \<open>unsigned word facts stated over nat\<close>
named_theorems omap_split \<open>map operations at a known position of a sorted list\<close>

lemmas [word_nat] = word_le_nat_alt word_less_nat_alt

lemma unat_add_no_wrap [word_nat]:
  "unat (a::'a::len word) + unat b < 2 ^ LENGTH('a) \<Longrightarrow> unat (a + b) = unat a + unat b"
  by (simp add: unat_add_lem)

lemma unat_diff_no_wrap [word_nat]:
  "unat (b::'a::len word) \<le> unat a \<Longrightarrow> unat (a - b) = unat a - unat b"
  by (simp add: unat_sub word_le_nat_alt)

lemma unat_of_nat_small: "n < 2 ^ LENGTH('a) \<Longrightarrow> unat (of_nat n :: 'a::len word) = n"
  by (simp add: unsigned_of_nat take_bit_nat_eq_self)

lemma sint_of_nat_small: "n < 2 ^ (LENGTH('a) - 1) \<Longrightarrow> sint (of_nat n :: 'a::len word) = int n"
proof -
  assume "n < 2 ^ (LENGTH('a) - 1)"
  then have "int n < 2 ^ (LENGTH('a) - 1)" by (metis of_nat_less_iff of_nat_numeral of_nat_power)
  moreover have "- (2 ^ (LENGTH('a) - 1)) \<le> int n" by (rule order_trans [of _ 0]) simp_all
  ultimately show ?thesis by (simp add: signed_of_nat signed_take_bit_int_eq_self)
qed

lemma unat_less_2p64 [simp]: "unat (x::u64) < 18446744073709551616"
  using unsigned_less [of x, where ?'a = nat] by simp

lemma unat_less_2p32 [simp]: "unat (x::u32) < 4294967296"
  using unsigned_less [of x, where ?'a = nat] by simp

subsection \<open>Ordered maps\<close>

text \<open>
  \<^verbatim>\<open>std::map<K, V>\<close> keeps its entries sorted by key, and iteration visits them in that order.
  The model is the list of entries in iteration order; lookup is \<^const>\<open>map_of\<close>.
\<close>

type_synonym ('k, 'v) omap = "('k \<times> 'v) list"

definition m_ok :: "('k::linorder, 'v) omap \<Rightarrow> bool" where
  "m_ok m \<longleftrightarrow> sorted_wrt (<) (map fst m)"

text \<open>\<open>m[k] = v\<close>: overwrite the entry of \<open>k\<close>, or insert it at its place in the order.\<close>

fun m_put :: "'k::linorder \<Rightarrow> 'v \<Rightarrow> ('k, 'v) omap \<Rightarrow> ('k, 'v) omap" where
  "m_put k v [] = [(k, v)]"
| "m_put k v ((a, b) # m) =
     (if k < a then (k, v) # (a, b) # m
      else if k = a then (k, v) # m
      else (a, b) # m_put k v m)"

definition m_erase :: "'k \<Rightarrow> ('k, 'v) omap \<Rightarrow> ('k, 'v) omap" where
  "m_erase k m = filter (\<lambda>p. fst p \<noteq> k) m"

text \<open>\<open>std::prev(it)\<close> and \<open>std::next(it)\<close> for the iterator at key \<open>k\<close>; None is "no such entry".\<close>

definition m_prev :: "'k::linorder \<Rightarrow> ('k, 'v) omap \<Rightarrow> ('k \<times> 'v) option" where
  "m_prev k m = (case filter (\<lambda>p. fst p < k) m of [] \<Rightarrow> None | ps \<Rightarrow> Some (last ps))"

definition m_next :: "'k::linorder \<Rightarrow> ('k, 'v) omap \<Rightarrow> ('k \<times> 'v) option" where
  "m_next k m = (case filter (\<lambda>p. k < fst p) m of [] \<Rightarrow> None | p # _ \<Rightarrow> Some p)"

lemma m_ok_Nil [simp]: "m_ok []"
  by (simp add: m_ok_def)

lemma m_ok_Cons: "m_ok ((k, v) # m) \<longleftrightarrow> (\<forall>p \<in> set m. k < fst p) \<and> m_ok m"
  by (auto simp: m_ok_def)

lemma m_ok_append:
  "m_ok (xs @ ys) \<longleftrightarrow> m_ok xs \<and> m_ok ys \<and> (\<forall>p \<in> set xs. \<forall>q \<in> set ys. fst p < fst q)"
  by (auto simp: m_ok_def sorted_wrt_append)

lemma m_ok_split:
  "m_ok (xs @ (k, v) # ys) \<longleftrightarrow>
     m_ok xs \<and> m_ok ys \<and> (\<forall>p \<in> set xs. fst p < k) \<and> (\<forall>q \<in> set ys. k < fst q)"
  by (auto simp: m_ok_append m_ok_Cons) (metis fst_conv order.strict_trans)

lemma map_of_m_put [simp]: "map_of (m_put k v m) = (map_of m)(k \<mapsto> v)"
  by (induction k v m rule: m_put.induct) (auto simp: fun_eq_iff)

lemma map_of_m_erase [simp]: "map_of (m_erase k m) = (map_of m)(k := None)"
  unfolding m_erase_def by (induction m) (auto simp: fun_eq_iff)

lemma set_m_put_subset: "set (m_put k v m) \<subseteq> insert (k, v) (set m)"
  by (induction k v m rule: m_put.induct) auto

lemma m_ok_m_put [simp, intro]: "m_ok m \<Longrightarrow> m_ok (m_put k v m)"
proof (induction k v m rule: m_put.induct)
  case (2 k v a b m)
  then show ?case using set_m_put_subset [of k v m] by (fastforce simp: m_ok_Cons)
qed (simp add: m_ok_Cons)

lemma m_ok_m_erase [simp, intro]: "m_ok m \<Longrightarrow> m_ok (m_erase k m)"
  unfolding m_erase_def m_ok_def by (induction m) auto

lemma m_ok_distinct: "m_ok m \<Longrightarrow> distinct (map fst m)"
  unfolding m_ok_def by (induction m) auto

lemma length_m_put: "length (m_put k v m) \<le> Suc (length m)"
  by (induction k v m rule: m_put.induct) auto

lemma m_ok_map_of_iff: "m_ok m \<Longrightarrow> map_of m k = Some v \<longleftrightarrow> (k, v) \<in> set m"
  using m_ok_distinct by (fastforce intro: map_of_SomeD)

lemma m_find_split:
  "map_of m k = Some v \<Longrightarrow> \<exists>xs ys. m = xs @ (k, v) # ys \<and> k \<notin> fst ` set xs"
proof (induction m)
  case (Cons p m)
  show ?case
  proof (cases "fst p = k")
    case True
    with Cons.prems have "p # m = [] @ (k, v) # m" by (cases p) auto
    then show ?thesis by (metis empty_iff image_is_empty list.set(1))
  next
    case False
    with Cons obtain xs ys where "m = xs @ (k, v) # ys" "k \<notin> fst ` set xs" by (cases p) auto
    with False have "p # m = (p # xs) @ (k, v) # ys \<and> k \<notin> fst ` set (p # xs)" by auto
    then show ?thesis by blast
  qed
qed simp

text \<open>The operations at a known position of a sorted list.\<close>

lemma map_of_at [omap_split]: "m_ok (xs @ (k, v) # ys) \<Longrightarrow> map_of (xs @ (k, v) # ys) k = Some v"
  by (subst m_ok_map_of_iff) auto

lemma m_put_at [omap_split]: "m_ok (xs @ (k, v) # ys) \<Longrightarrow> m_put k w (xs @ (k, v) # ys) = xs @ (k, w) # ys"
  by (induction xs) (auto simp: m_ok_Cons)

lemma m_put_after [omap_split]:
  "m_ok (xs @ (k, v) # ys) \<Longrightarrow> k < j \<Longrightarrow> (\<forall>q \<in> set ys. j < fst q)
   \<Longrightarrow> m_put j w (xs @ (k, v) # ys) = xs @ (k, v) # (j, w) # ys"
proof (induction xs)
  case Nil
  then show ?case by (cases ys) auto
next
  case (Cons p xs)
  then show ?case by (cases p) (auto simp: m_ok_Cons)
qed

lemma m_put_between:
  "m_ok (xs @ ys) \<Longrightarrow> (\<forall>p \<in> set xs. fst p < j) \<Longrightarrow> (\<forall>q \<in> set ys. j < fst q)
   \<Longrightarrow> m_put j w (xs @ ys) = xs @ (j, w) # ys"
proof (induction xs)
  case Nil
  then show ?case by (cases ys) auto
next
  case (Cons p xs)
  then show ?case by (cases p) (auto simp: m_ok_Cons)
qed

lemma m_erase_at [omap_split]: "m_ok (xs @ (k, v) # ys) \<Longrightarrow> m_erase k (xs @ (k, v) # ys) = xs @ ys"
  by (auto simp: m_erase_def m_ok_split intro!: arg_cong2 [of _ _ _ _ append] iffD2 [OF filter_id_conv])

lemma filter_less_at: "m_ok (xs @ (k, v) # ys) \<Longrightarrow> filter (\<lambda>p. fst p < k) (xs @ (k, v) # ys) = xs"
  by (auto simp: m_ok_split filter_id_conv filter_empty_conv dest: less_not_sym)

lemma filter_greater_at: "m_ok (xs @ (k, v) # ys) \<Longrightarrow> filter (\<lambda>p. k < fst p) (xs @ (k, v) # ys) = ys"
  by (auto simp: m_ok_split filter_id_conv filter_empty_conv dest: less_not_sym)

lemma m_prev_at [omap_split]:
  "m_ok (xs @ (k, v) # ys) \<Longrightarrow> m_prev k (xs @ (k, v) # ys) = (if xs = [] then None else Some (last xs))"
  unfolding m_prev_def by (simp only: filter_less_at) (simp split: list.splits)

lemma m_next_at [omap_split]:
  "m_ok (xs @ (k, v) # ys) \<Longrightarrow> m_next k (xs @ (k, v) # ys) = (case ys of [] \<Rightarrow> None | p # _ \<Rightarrow> Some p)"
  unfolding m_next_def by (simp only: filter_greater_at)

text \<open>Erasing two distinct present keys and writing one back shortens the list.\<close>

lemma m_erase2_length:
  assumes "(j, v) \<in> set m" "(k, w) \<in> set m" "j \<noteq> k"
  shows "Suc (Suc (length (m_erase k (m_erase j m)))) \<le> length m"
proof -
  have "m_erase k (m_erase j m) = filter (\<lambda>p. fst p \<noteq> j \<and> fst p \<noteq> k) m"
    by (simp add: m_erase_def conj_commute)
  moreover have "{(j, v), (k, w)} \<subseteq> set (filter (\<lambda>p. \<not> (fst p \<noteq> j \<and> fst p \<noteq> k)) m)"
    using assms by auto
  then have "card {(j, v), (k, w)} \<le> length (filter (\<lambda>p. \<not> (fst p \<noteq> j \<and> fst p \<noteq> k)) m)"
    by (metis (no_types, lifting) List.finite_set card_length card_mono order_trans)
  ultimately show ?thesis
    using sum_length_filter_compl [of "\<lambda>p. fst p \<noteq> j \<and> fst p \<noteq> k" m] assms(3)
    by simp
qed

lemma m_prev_less: "m_prev k m = Some (j, v) \<Longrightarrow> j < k \<and> (j, v) \<in> set m"
proof -
  assume a: "m_prev k m = Some (j, v)"
  then have "filter (\<lambda>p. fst p < k) m \<noteq> []" and "last (filter (\<lambda>p. fst p < k) m) = (j, v)"
    by (auto simp: m_prev_def split: list.splits)
  then have "(j, v) \<in> set (filter (\<lambda>p. fst p < k) m)" by (metis last_in_set)
  then show ?thesis by simp
qed

lemma m_next_greater: "m_next k m = Some (j, v) \<Longrightarrow> k < j \<and> (j, v) \<in> set m"
proof -
  assume a: "m_next k m = Some (j, v)"
  then obtain r where "filter (\<lambda>p. k < fst p) m = (j, v) # r"
    by (auto simp: m_next_def split: list.splits)
  then have "(j, v) \<in> set (filter (\<lambda>p. k < fst p) m)" by simp
  then show ?thesis by simp
qed

text \<open>
  \<open>m[k]\<close> of a map whose values are containers: an absent key reads as the empty container
  (the default value \<^verbatim>\<open>operator[]\<close> would create).
\<close>

definition list_at :: "('k, 'v list) omap \<Rightarrow> 'k \<Rightarrow> 'v list" where
  "list_at m k = (case map_of m k of None \<Rightarrow> [] | Some v \<Rightarrow> v)"

lemma list_at_simps [simp]:
  "list_at [] k = []"
  "list_at (m_put k v m) j = (if j = k then v else list_at m j)"
  "list_at (m_erase k m) j = (if j = k then [] else list_at m j)"
  by (auto simp: list_at_def)

lemma list_at_Cons: "list_at ((k, v) # m) j = (if j = k then v else list_at m j)"
  by (auto simp: list_at_def)

lemma list_at_append: "list_at (xs @ ys) k = (if k \<in> fst ` set xs then list_at xs k else list_at ys k)"
proof (induction xs)
  case (Cons p xs)
  then show ?case by (cases p) (auto simp: list_at_Cons)
qed simp

lemma list_at_absent: "k \<notin> fst ` set m \<Longrightarrow> list_at m k = []"
  by (simp add: list_at_def map_of_eq_None_iff [THEN iffD2])

text \<open>An ordered map is determined by its lookups.\<close>

lemma m_ok_keys: "m_ok m \<Longrightarrow> m = map (\<lambda>k. (k, the (map_of m k))) (map fst m)"
proof (rule nth_equalityI)
  fix i assume ok: "m_ok m" and i: "i < length m"
  then have "map_of m (fst (m ! i)) = Some (snd (m ! i))" by (simp add: m_ok_map_of_iff)
  with i show "m ! i = map (\<lambda>k. (k, the (map_of m k))) (map fst m) ! i" by (simp add: prod_eq_iff)
qed simp

lemma m_ok_ext:
  assumes "m_ok xs" "m_ok ys" "map_of xs = map_of ys"
  shows "xs = ys"
proof -
  have "set (map fst xs) = set (map fst ys)" using assms(3) by (metis dom_map_of_conv_image_fst set_map)
  then have "map fst xs = map fst ys" using assms(1,2) unfolding m_ok_def by (intro strict_sorted_equal) auto
  with m_ok_keys [OF assms(1)] m_ok_keys [OF assms(2)] assms(3) show ?thesis by metis
qed

text \<open>How changing one element changes the number of elements with a property.\<close>

lemma length_filter_update:
  assumes "i < length xs"
  shows "length (filter P (xs[i := x])) + of_bool (P (xs ! i)) = length (filter P xs) + of_bool (P x)"
  using assms
proof (induction xs arbitrary: i)
  case (Cons y ys)
  then show ?case by (cases i) auto
qed simp

lemma length_filter_pos: "i < length xs \<Longrightarrow> P (xs ! i) \<Longrightarrow> 0 < length (filter P xs)"
  by (metis filter_empty_conv length_greater_0_conv nth_mem)

lemma length_filter_all: "length (filter P xs) = length xs \<Longrightarrow> i < length xs \<Longrightarrow> P (xs ! i)"
  by (metis filter_True length_filter_less nth_mem less_irrefl)

subsection \<open>The dictionary interface\<close>

text \<open>
  What a client may assume of a keyed container, whatever its representation: a lookup after
  a write returns the written value at that key and is unchanged elsewhere, and a lookup
  after an erase finds nothing at that key.
\<close>

locale dictionary =
  fixes lookup :: "'m \<Rightarrow> 'k \<Rightarrow> 'v option"
    and put :: "'k \<Rightarrow> 'v \<Rightarrow> 'm \<Rightarrow> 'm"
    and erase :: "'k \<Rightarrow> 'm \<Rightarrow> 'm"
    and ok :: "'m \<Rightarrow> bool"
  assumes lookup_put: "lookup (put k v m) = (lookup m)(k \<mapsto> v)"
    and lookup_erase: "lookup (erase k m) = (lookup m)(k := None)"
    and ok_put: "ok m \<Longrightarrow> ok (put k v m)"
    and ok_erase: "ok m \<Longrightarrow> ok (erase k m)"
begin

lemma lookup_put_same: "lookup (put k v m) k = Some v"
  by (simp add: lookup_put)

lemma lookup_put_other: "j \<noteq> k \<Longrightarrow> lookup (put k v m) j = lookup m j"
  by (simp add: lookup_put)

lemma lookup_erase_same: "lookup (erase k m) k = None"
  by (simp add: lookup_erase)

lemma lookup_erase_other: "j \<noteq> k \<Longrightarrow> lookup (erase k m) j = lookup m j"
  by (simp add: lookup_erase)

lemma dom_put: "dom (lookup (put k v m)) = insert k (dom (lookup m))"
  by (simp add: lookup_put)

lemma dom_erase: "dom (lookup (erase k m)) = dom (lookup m) - {k}"
  by (simp add: lookup_erase)

end

interpretation omap: dictionary map_of m_put m_erase m_ok
  by unfold_locales auto

end
