(* ===== verification/Npu_Memory.thy ===== *)
theory Npu_Memory
  imports Prelude
begin

unbundle bit_operations_syntax

section \<open>The NPU memory allocator\<close>

text \<open>
  The best-fit allocator of \<^verbatim>\<open>src/lib/memory.cpp\<close>: \<open>Memory\<close> keeps an address-ordered map of
  blocks (\<open>_pool\<close>) that covers the device memory, each block free (status 0) or busy
  (status 1). The model keeps the 64-bit integers as words, so every sum and difference
  wraps as in the source. A return value of \<open>-1\<close> (the failed allocation) is the word of all
  ones. The mutex makes each operation atomic; the model has one function per operation.
  The fragmentation ratio is a \<^verbatim>\<open>double\<close> in the source and the exact quotient here; they
  agree on every comparison with the thresholds for memories smaller than 2^53 bytes.
\<close>

record MemoryNode =
  node_addr :: u64
  node_size :: u64
  node_status :: int

type_synonym pool = "(u64, MemoryNode) omap"

record Memory =
  mem_pool :: pool
  mem_start :: u64
  mem_cur :: u64
  mem_end :: u64
  mem_size :: u64
  mem_data :: u64
  mem_dataEnd :: u64
  mem_used_size :: u64

record MemoryFragmentationInfo =
  total_free_size :: u64
  largest_free_block :: u64
  smallest_free_block :: u64
  free_block_count :: u64
  fragmentation_ratio :: real

definition MEMORY_ALIGNMENT :: u64 where "MEMORY_ALIGNMENT = 4096"
definition LARGE_ALLOCATION_THRESHOLD :: u64 where "LARGE_ALLOCATION_THRESHOLD = 100 * 1024 * 1024"
definition MEDIUM_FRAGMENTATION_THRESHOLD :: real where "MEDIUM_FRAGMENTATION_THRESHOLD = 1 / 2"
definition LOW_FRAGMENTATION_THRESHOLD :: real where "LOW_FRAGMENTATION_THRESHOLD = 3 / 10"

definition mk_node :: "u64 \<Rightarrow> u64 \<Rightarrow> int \<Rightarrow> MemoryNode" where
  "mk_node a s st = \<lparr>node_addr = a, node_size = s, node_status = st\<rparr>"

text \<open>The constructor, on the \<open>mem_addr\<close> and \<open>mem_size\<close> of the device information.\<close>

definition Memory_new :: "u64 \<Rightarrow> u64 \<Rightarrow> u64 \<Rightarrow> Memory" where
  "Memory_new mem_addr msize dptr =
     \<lparr>mem_pool = [(0, mk_node 0 msize 0)],
      mem_start = mem_addr, mem_cur = mem_addr, mem_end = mem_addr + msize, mem_size = msize,
      mem_data = dptr, mem_dataEnd = dptr + msize, mem_used_size = 0\<rparr>"

definition AlignSize :: "u64 \<Rightarrow> u64" where
  "AlignSize s = (s + MEMORY_ALIGNMENT - 1) AND NOT (MEMORY_ALIGNMENT - 1)"

text \<open>
  The scan shared by \<open>FindBestFit\<close> (over the pool in order) and \<open>BackwardAllocate\<close> (over the
  pool in reverse): the accumulator is the iterator \<open>best_it\<close> (as a key) and \<open>best_size\<close>.
\<close>

fun best_fit_loop :: "u64 \<Rightarrow> pool \<Rightarrow> u64 option \<times> u64 \<Rightarrow> u64 option \<times> u64" where
  "best_fit_loop required [] acc = acc"
| "best_fit_loop required ((k, node) # p) (best_it, best_size) =
     best_fit_loop required p
       (if node_status node = 0 \<and> required \<le> node_size node \<and> node_size node < best_size
        then (Some k, node_size node) else (best_it, best_size))"

definition FindBestFit :: "u64 \<Rightarrow> pool \<Rightarrow> u64 option" where
  "FindBestFit required p = fst (best_fit_loop required p (None, -1))"

fun frag_loop :: "pool \<Rightarrow> MemoryFragmentationInfo \<Rightarrow> MemoryFragmentationInfo" where
  "frag_loop [] info = info"
| "frag_loop ((k, node) # p) info =
     frag_loop p
       (if node_status node = 0 then
          info\<lparr>total_free_size := total_free_size info + node_size node,
               free_block_count := free_block_count info + 1,
               largest_free_block :=
                 (if largest_free_block info < node_size node then node_size node
                  else largest_free_block info),
               smallest_free_block :=
                 (if node_size node < smallest_free_block info then node_size node
                  else smallest_free_block info)\<rparr>
        else info)"

definition GetFragmentationInfoNoLock :: "Memory \<Rightarrow> MemoryFragmentationInfo" where
  "GetFragmentationInfoNoLock m =
     (let info = frag_loop (mem_pool m)
        \<lparr>total_free_size = 0, largest_free_block = 0, smallest_free_block = -1,
         free_block_count = 0, fragmentation_ratio = 0\<rparr>
      in if free_block_count info = 0
         then info\<lparr>smallest_free_block := 0, fragmentation_ratio := 0\<rparr>
         else if 0 < total_free_size info
         then info\<lparr>fragmentation_ratio :=
                real (unat (total_free_size info - largest_free_block info))
                / real (unat (total_free_size info))\<rparr>
         else info\<lparr>fragmentation_ratio := 0\<rparr>)"

definition GetFragmentationInfo :: "Memory \<Rightarrow> MemoryFragmentationInfo" where
  "GetFragmentationInfo m = GetFragmentationInfoNoLock m"

definition CanAllocateContiguous :: "u64 \<Rightarrow> Memory \<Rightarrow> bool" where
  "CanAllocateContiguous required m =
     list_ex (\<lambda>(k, node). node_status node = 0 \<and> required \<le> node_size node) (mem_pool m)"

fun largest_loop :: "pool \<Rightarrow> u64 \<Rightarrow> u64" where
  "largest_loop [] largest = largest"
| "largest_loop ((k, node) # p) largest =
     largest_loop p
       (if node_status node = 0 \<and> largest < node_size node then node_size node else largest)"

definition GetLargestFreeBlock :: "Memory \<Rightarrow> u64" where
  "GetLargestFreeBlock m = largest_loop (mem_pool m) 0"

text \<open>
  One scan of \<open>MergeAllAdjacentFreeBlocks\<close>: the first pair of neighbouring free blocks that
  are physically adjacent. The loop merges it and scans again until no pair is found.
\<close>

fun find_mergeable :: "pool \<Rightarrow> ((u64 \<times> MemoryNode) \<times> (u64 \<times> MemoryNode)) option" where
  "find_mergeable ((k1, n1) # (k2, n2) # p) =
     (if node_status n1 = 0 \<and> node_status n2 = 0 \<and> k1 + node_size n1 = k2
      then Some ((k1, n1), (k2, n2)) else find_mergeable ((k2, n2) # p))"
| "find_mergeable [x] = None"
| "find_mergeable [] = None"

lemma find_mergeable_SomeD:
  "find_mergeable p = Some (x, y) \<Longrightarrow> \<exists>xs ys. p = xs @ x # y # ys"
proof (induction p rule: find_mergeable.induct)
  case (1 k1 n1 k2 n2 p)
  show ?case
  proof (cases "node_status n1 = 0 \<and> node_status n2 = 0 \<and> k1 + node_size n1 = k2")
    case True
    with "1.prems" have "(k1, n1) # (k2, n2) # p = [] @ x # y # p" by auto
    then show ?thesis by blast
  next
    case False
    with "1.prems" have "find_mergeable ((k2, n2) # p) = Some (x, y)" by auto
    with "1.IH" False obtain xs ys where "(k2, n2) # p = xs @ x # y # ys" by blast
    then have "(k1, n1) # (k2, n2) # p = ((k1, n1) # xs) @ x # y # ys" by simp
    then show ?thesis by blast
  qed
qed auto

lemma erase_two_shortens:
  "length (m_put k v (m_erase b (m_erase a (xs @ (a, n1) # (b, n2) # ys))))
     < length (xs @ (a, n1) # (b, n2) # ys)"
proof -
  have "length (m_erase b (m_erase a (xs @ (a, n1) # (b, n2) # ys))) \<le> length xs + length ys"
    by (auto simp: m_erase_def intro!: add_mono length_filter_le)
  then show ?thesis
    using length_m_put [of k v "m_erase b (m_erase a (xs @ (a, n1) # (b, n2) # ys))"] by simp
qed

function MergeAllAdjacentFreeBlocks :: "pool \<Rightarrow> pool" where
  "MergeAllAdjacentFreeBlocks p =
     (case find_mergeable p of
        None \<Rightarrow> p
      | Some ((k1, n1), (k2, n2)) \<Rightarrow>
          MergeAllAdjacentFreeBlocks
            (m_put k1 (mk_node k1 (node_size n1 + node_size n2) 0) (m_erase k2 (m_erase k1 p))))"
  by pat_completeness auto
termination
  by (relation "measure length") (auto dest!: find_mergeable_SomeD simp: erase_two_shortens simp del: length_append)

declare MergeAllAdjacentFreeBlocks.simps [simp del]

definition TryDefragmentation :: "u64 \<Rightarrow> Memory \<Rightarrow> bool \<times> Memory" where
  "TryDefragmentation required_size m =
     (let m' = m\<lparr>mem_pool := MergeAllAdjacentFreeBlocks (mem_pool m)\<rparr>
      in (required_size \<le> GetLargestFreeBlock m', m'))"

definition CompactMemory :: "Memory \<Rightarrow> Memory" where
  "CompactMemory m = m\<lparr>mem_pool := MergeAllAdjacentFreeBlocks (mem_pool m)\<rparr>"

text \<open>
  \<open>Allocate(uint64_t)\<close>. The reference \<open>node\<close> of the source aliases the entry of \<open>best_it\<close>; it
  is read before that entry is written (the entry at \<open>addr + required\<close> is another one unless
  \<open>required\<close> wrapped to 0, where the same values are written twice).
\<close>

definition Allocate :: "u64 \<Rightarrow> Memory \<Rightarrow> u64 \<times> Memory" where
  "Allocate required0 m =
     (let required = AlignSize (if required0 = 0 then 64 else required0);
          first = FindBestFit required (mem_pool m);
          (best_it, m1) =
            (if first = None \<and> LARGE_ALLOCATION_THRESHOLD \<le> required
                \<and> MEDIUM_FRAGMENTATION_THRESHOLD < fragmentation_ratio (GetFragmentationInfoNoLock m)
             then (let (defragged, m') = TryDefragmentation required m
                   in (if defragged then FindBestFit required (mem_pool m') else None, m'))
             else (first, m))
      in case best_it of
           None \<Rightarrow> (-1, m1)
         | Some addr \<Rightarrow>
             (case map_of (mem_pool m1) addr of
                None \<Rightarrow> (-1, m1)
              | Some node \<Rightarrow>
                  (let p1 = (if required < node_size node
                             then m_put (addr + required)
                                    (mk_node (addr + required) (node_size node - required) 0) (mem_pool m1)
                             else mem_pool m1);
                       p2 = m_put addr (mk_node addr required 1) p1
                   in (addr, m1\<lparr>mem_pool := p2, mem_used_size := mem_used_size m1 + required\<rparr>))))"

text \<open>\<open>BackwardAllocate\<close>: no zero-size guard, the scan runs from the last block.\<close>

definition BackwardAllocate :: "u64 \<Rightarrow> Memory \<Rightarrow> u64 \<times> Memory" where
  "BackwardAllocate required0 m =
     (let required = AlignSize required0;
          (first, best_size) = best_fit_loop required (rev (mem_pool m)) (None, -1);
          (best_it, m1) =
            (if first = None \<and> LARGE_ALLOCATION_THRESHOLD \<le> required
                \<and> MEDIUM_FRAGMENTATION_THRESHOLD < fragmentation_ratio (GetFragmentationInfoNoLock m)
             then (let (defragged, m') = TryDefragmentation required m
                   in (if defragged
                       then fst (best_fit_loop required (rev (mem_pool m')) (None, best_size))
                       else None, m'))
             else (first, m))
      in case best_it of
           None \<Rightarrow> (-1, m1)
         | Some addr \<Rightarrow>
             (case map_of (mem_pool m1) addr of
                None \<Rightarrow> (-1, m1)
              | Some node \<Rightarrow>
                  (let remain = node_size node - required;
                       p1 = (if required < node_size node
                             then m_put addr (mk_node addr remain 0) (mem_pool m1)
                             else mem_pool m1);
                       addr' = (if required < node_size node then addr + remain else addr);
                       p2 = m_put addr' (mk_node addr' required 1) p1
                   in (addr', m1\<lparr>mem_pool := p2, mem_used_size := mem_used_size m1 + required\<rparr>))))"

definition free_entry :: "(u64 \<times> MemoryNode) option \<Rightarrow> (u64 \<times> MemoryNode) option" where
  "free_entry e = (case e of Some (k, n) \<Rightarrow> if node_status n = 0 then Some (k, n) else None | None \<Rightarrow> None)"

lemma free_entry_eq [simp]: "free_entry e = Some (k, n) \<longleftrightarrow> e = Some (k, n) \<and> node_status n = 0"
  by (auto simp: free_entry_def split: option.splits prod.splits)

lemma free_entry_None [simp]: "free_entry None = None"
  by (simp add: free_entry_def)

lemma merge_shortens:
  assumes "(a, n1) \<in> set p" "(b, n2) \<in> set p" "a \<noteq> b"
  shows "length (m_put k v (m_erase b (m_erase a p))) < length p"
  using m_erase2_length [OF assms] length_m_put [of k v "m_erase b (m_erase a p)"] by linarith

text \<open>
  \<open>MergeAdjacentNodes(it)\<close> for the iterator at key \<open>k\<close>: a free predecessor absorbs the node and
  the merge goes on from there, otherwise a free successor is absorbed.
\<close>

function MergeAdjacentNodes :: "pool \<Rightarrow> u64 \<Rightarrow> pool" where
  "MergeAdjacentNodes p k =
     (case map_of p k of
        None \<Rightarrow> p
      | Some n \<Rightarrow>
          (case free_entry (m_prev k p) of
             Some (pk, pn) \<Rightarrow>
               MergeAdjacentNodes
                 (m_put pk (mk_node pk (node_size pn + node_size n) 0) (m_erase k (m_erase pk p))) pk
           | None \<Rightarrow>
               (case free_entry (m_next k p) of
                  Some (nk, nn) \<Rightarrow>
                    MergeAdjacentNodes
                      (m_put k (mk_node k (node_size n + node_size nn) 0) (m_erase nk (m_erase k p))) k
                | None \<Rightarrow> p)))"
  by pat_completeness auto
termination
  by (relation "measure (length \<circ> fst)")
     (auto dest!: m_prev_less m_next_greater map_of_SomeD intro!: merge_shortens)

declare MergeAdjacentNodes.simps [simp del]

definition Deallocate :: "u64 \<Rightarrow> Memory \<Rightarrow> Memory" where
  "Deallocate addr m =
     (case map_of (mem_pool m) addr of
        None \<Rightarrow> m
      | Some n \<Rightarrow>
          m\<lparr>mem_used_size := mem_used_size m - node_size n,
            mem_pool := MergeAdjacentNodes (m_put addr (n\<lparr>node_status := 0\<rparr>) (mem_pool m)) addr\<rparr>)"

definition ResetBuffer :: "Memory \<Rightarrow> Memory" where
  "ResetBuffer m = m\<lparr>mem_cur := mem_start m\<rparr>"

definition free_size :: "Memory \<Rightarrow> u64" where
  "free_size m = mem_size m - mem_used_size m"

definition used_size :: "Memory \<Rightarrow> u64" where
  "used_size m = mem_used_size m"

subsection \<open>The overloads on request descriptors\<close>

record meminfo =
  mi_data :: u64
  mi_base :: u64
  mi_offset :: u32
  mi_size :: u32

definition Allocate_meminfo :: "meminfo \<Rightarrow> Memory \<Rightarrow> meminfo \<times> Memory" where
  "Allocate_meminfo mi m =
     (if mi_data mi = 0 then
        (let (a, m') = Allocate (ucast (mi_size mi)) m;
             off = (ucast a :: u32)
         in (mi\<lparr>mi_base := mem_start m, mi_offset := off, mi_data := mem_data m + ucast off\<rparr>, m'))
      else if mi_data mi < mem_data m \<or> mem_dataEnd m < mi_data mi then
        (let (a, m') = Allocate (ucast (mi_size mi)) m
         in (mi\<lparr>mi_base := (if mi_base mi = 0 then mem_start m else mi_base mi),
                mi_offset := ucast a\<rparr>, m'))
      else (mi\<lparr>mi_base := mem_start m, mi_offset := ucast (mi_data mi - mem_data m)\<rparr>, m))"

definition Deallocate_meminfo :: "meminfo \<Rightarrow> Memory \<Rightarrow> Memory" where
  "Deallocate_meminfo mi m =
     (if mi_base mi = mem_start m then Deallocate (ucast (mi_offset mi)) m else m)"

definition Allocate_request :: "meminfo \<times> meminfo \<Rightarrow> Memory \<Rightarrow> (meminfo \<times> meminfo) \<times> Memory" where
  "Allocate_request io m =
     (let (i, m1) = Allocate_meminfo (fst io) m; (ou, m2) = Allocate_meminfo (snd io) m1
      in ((i, ou), m2))"

definition Deallocate_request :: "meminfo \<times> meminfo \<Rightarrow> Memory \<Rightarrow> Memory" where
  "Deallocate_request io m = Deallocate_meminfo (snd io) (Deallocate_meminfo (fst io) m)"

end
