(* ===== verification/Npu_Memory_Correct.thy ===== *)
theory Npu_Memory_Correct
  imports Npu_Memory
begin

unbundle bit_operations_syntax

section \<open>Correctness of the allocator\<close>

text \<open>
  The invariant of the allocator: the blocks tile the device memory without gaps or overlaps,
  no two neighbouring blocks are both free, and the used-bytes counter is the sum of the busy
  blocks. A pool in that form is determined by its busy blocks (\<open>tiles_unique\<close>), so the
  operations are specified by what they do to the set of busy blocks.
\<close>

definition is_free :: "u64 \<times> MemoryNode \<Rightarrow> bool" where
  "is_free q \<longleftrightarrow> node_status (snd q) = 0"

fun tiles :: "nat \<Rightarrow> pool \<Rightarrow> nat \<Rightarrow> bool" where
  "tiles a [] e \<longleftrightarrow> a = e"
| "tiles a ((k, n) # p) e \<longleftrightarrow>
     unat k = a \<and> node_addr n = k \<and> 0 < unat (node_size n) \<and> node_status n \<in> {0, 1}
     \<and> tiles (a + unat (node_size n)) p e"

definition coalesced :: "pool \<Rightarrow> bool" where
  "coalesced p \<longleftrightarrow> successively (\<lambda>x y. \<not> (is_free x \<and> is_free y)) p"

definition used_blocks :: "pool \<Rightarrow> pool" where
  "used_blocks p = filter (\<lambda>q. \<not> is_free q) p"

definition block_bytes :: "pool \<Rightarrow> nat" where
  "block_bytes p = sum_list (map (\<lambda>q. unat (node_size (snd q))) p)"

definition mem_inv :: "Memory \<Rightarrow> bool" where
  "mem_inv m \<longleftrightarrow>
     tiles 0 (mem_pool m) (unat (mem_size m)) \<and> coalesced (mem_pool m)
     \<and> unat (mem_used_size m) = block_bytes (used_blocks (mem_pool m))
     \<and> unat (mem_size m) < 2 ^ 64 - 1"

subsection \<open>Tilings\<close>

lemma is_free_simps [simp]:
  "is_free (k, mk_node a s st) \<longleftrightarrow> st = 0"
  "is_free (k, n\<lparr>node_status := st\<rparr>) \<longleftrightarrow> st = 0"
  by (auto simp: is_free_def mk_node_def)

lemma mk_node_sel [simp]:
  "node_addr (mk_node a s st) = a" "node_size (mk_node a s st) = s" "node_status (mk_node a s st) = st"
  by (auto simp: mk_node_def)

lemma tiles_append: "tiles a (xs @ ys) e \<longleftrightarrow> (\<exists>b. tiles a xs b \<and> tiles b ys e)"
  by (induction xs arbitrary: a) auto

lemma tiles_le: "tiles a p e \<Longrightarrow> a \<le> e"
  by (induction p arbitrary: a) fastforce+

lemma tiles_bounds:
  "tiles a p e \<Longrightarrow> (k, n) \<in> set p \<Longrightarrow> a \<le> unat k \<and> unat k + unat (node_size n) \<le> e"
  by (induction p arbitrary: a) (fastforce dest: tiles_le)+

lemma tiles_m_ok: "tiles a p e \<Longrightarrow> m_ok p"
proof (induction p arbitrary: a)
  case (Cons q p)
  obtain k n where q: "q = (k, n)" by (cases q)
  with Cons.prems have t: "unat k = a" "0 < unat (node_size n)"
    and rest: "tiles (a + unat (node_size n)) p e" by auto
  then have "\<forall>q \<in> set p. k < fst q"
    using tiles_bounds [OF rest] by (fastforce simp: word_less_nat_alt)
  with Cons.IH [OF rest] q show ?case by (simp add: m_ok_Cons)
qed simp

lemma tiles_empty: "tiles a p a \<Longrightarrow> p = []"
  by (cases p) (fastforce dest: tiles_le)+

lemma tiles_total: "tiles a p e \<Longrightarrow> a + block_bytes p = e"
  by (induction p arbitrary: a) (fastforce simp: block_bytes_def)+

lemma block_bytes_simps [simp]:
  "block_bytes [] = 0"
  "block_bytes (q # p) = unat (node_size (snd q)) + block_bytes p"
  "block_bytes (xs @ ys) = block_bytes xs + block_bytes ys"
  by (auto simp: block_bytes_def)

lemma used_blocks_simps [simp]:
  "used_blocks [] = []"
  "used_blocks (q # p) = (if is_free q then used_blocks p else q # used_blocks p)"
  "used_blocks (xs @ ys) = used_blocks xs @ used_blocks ys"
  by (auto simp: used_blocks_def)

lemma set_used_blocks: "set (used_blocks p) = {q \<in> set p. \<not> is_free q}"
  by (simp add: used_blocks_def)

lemma block_bytes_used_le: "block_bytes (used_blocks p) \<le> block_bytes p"
  by (induction p) auto

lemma coalesced_simps [simp]:
  "coalesced []"
  "coalesced [q]"
  "coalesced (x # y # p) \<longleftrightarrow> \<not> (is_free x \<and> is_free y) \<and> coalesced (y # p)"
  by (auto simp: coalesced_def)

lemma coalesced_append:
  "coalesced (xs @ ys) \<longleftrightarrow>
     coalesced xs \<and> coalesced ys \<and> (xs = [] \<or> ys = [] \<or> \<not> (is_free (last xs) \<and> is_free (hd ys)))"
  unfolding coalesced_def by (auto simp: successively_append_iff)

lemma coalesced_Cons:
  "coalesced (x # p) \<longleftrightarrow> coalesced p \<and> (p = [] \<or> \<not> (is_free x \<and> is_free (hd p)))"
  by (cases p) auto

text \<open>A coalesced tiling is determined by its busy blocks.\<close>

lemma tiles_free_node: "tiles a ((k, n) # p) e \<Longrightarrow> is_free (k, n) \<Longrightarrow> n = mk_node k (node_size n) 0"
  by (auto simp: is_free_def mk_node_def)

lemma tiles_used_head:
  assumes "tiles a q e" "used_blocks q = (k, n) # r" "unat k = a"
  shows "q \<noteq> [] \<and> hd q = (k, n)"
proof (cases q)
  case (Cons x q')
  show ?thesis
  proof (cases "is_free x")
    case True
    then have "(k, n) \<in> set (used_blocks q')" using assms(2) Cons by simp
    then have "(k, n) \<in> set q'" by (simp add: set_used_blocks)
    with assms(1,3) Cons show ?thesis by (cases x) (fastforce dest: tiles_bounds)
  next
    case False
    with assms Cons show ?thesis by auto
  qed
qed (use assms in auto)

lemma tiles_free_extent:
  assumes "tiles a ((k, n) # p) e" "is_free (k, n)" "coalesced ((k, n) # p)"
  shows "unat (node_size n) = (case used_blocks p of [] \<Rightarrow> e | (j, _) # _ \<Rightarrow> unat j) - a"
proof (cases p)
  case Nil
  with assms show ?thesis by auto
next
  case (Cons x p')
  obtain j n' where x: "x = (j, n')" by (cases x)
  with assms Cons have "\<not> is_free (j, n')" by auto
  with assms Cons x show ?thesis by auto
qed

lemma tiles_unique:
  assumes "tiles a p e" "coalesced p" "tiles a q e" "coalesced q" "used_blocks p = used_blocks q"
  shows "p = q"
  using assms
proof (induction p arbitrary: a q)
  case Nil
  then show ?case using tiles_empty by force
next
  case (Cons x p)
  obtain k n where x: "x = (k, n)" by (cases x)
  from Cons.prems(1) x have "a < e" using tiles_le by fastforce
  with Cons.prems(3) obtain y q' where q: "q = y # q'" by (cases q) auto
  obtain j n' where y: "y = (j, n')" by (cases y)
  have kj: "j = k" using Cons.prems(1,3) x q y by (metis tiles.simps(2) word_unat_eq_iff)
  have "y = x"
  proof (cases "is_free x")
    case False
    then have "used_blocks q = (k, n) # used_blocks p" using Cons.prems(5) x by simp
    with Cons.prems(1,3) x have "hd q = (k, n)" using tiles_used_head by (metis tiles.simps(2))
    with q x show ?thesis by simp
  next
    case True
    have fy: "is_free y"
    proof (rule ccontr)
      assume "\<not> is_free y"
      then have "used_blocks (x # p) = (j, n') # used_blocks q'" using Cons.prems(5) q y by simp
      then have "hd (x # p) = (j, n')" using Cons.prems(1) x kj tiles_used_head by (metis tiles.simps(2))
      with y True \<open>\<not> is_free y\<close> show False by simp
    qed
    then have "used_blocks p = used_blocks q'" using Cons.prems(5) True q by simp
    then have "unat (node_size n) = unat (node_size n')"
      using tiles_free_extent [of a k n p e] tiles_free_extent [of a j n' q' e]
        Cons.prems x y q True fy by simp
    then have "node_size n = node_size n'" by (simp add: word_unat_eq_iff)
    then show ?thesis
      using tiles_free_node [of a k n p e] tiles_free_node [of a j n' q' e] Cons.prems(1,3) x y q True fy kj
      by metis
  qed
  moreover have "p = q'"
    using Cons.IH [of "a + unat (node_size n)" q'] Cons.prems q x \<open>y = x\<close>
    by (auto simp: coalesced_Cons split: if_splits)
  ultimately show ?case using q by simp
qed


subsection \<open>Size alignment\<close>

definition align_nat :: "nat \<Rightarrow> nat" where
  "align_nat s = (s + 4095) div 4096 * 4096"

lemma AlignSize_drop: "AlignSize s = push_bit 12 (drop_bit 12 (s + 4095))"
proof -
  have mask: "(4095::u64) = mask 12" by (simp add: mask_eq_exp_minus_1)
  show ?thesis
    unfolding AlignSize_def MEMORY_ALIGNMENT_def
    by (rule bit_word_eqI) (auto simp: mask bit_simps algebra_simps)
qed

lemma unat_AlignSize_raw: "unat (AlignSize s) = unat (s + 4095) div 4096 * 4096"
proof -
  have "unat (AlignSize s) = take_bit 64 (unat (s + 4095) div 4096 * 4096)"
    unfolding AlignSize_drop unsigned_push_bit_eq unat_drop_bit_eq
    by (simp add: drop_bit_eq_div push_bit_eq_mult)
  also have "\<dots> = unat (s + 4095) div 4096 * 4096"
  proof (rule take_bit_nat_eq_self)
    have "unat (s + 4095) < 2 ^ 64" by simp
    then show "unat (s + 4095) div 4096 * 4096 < 2 ^ 64"
      by (rule le_less_trans [OF div_times_less_eq_dividend])
  qed
  finally show ?thesis .
qed

lemma unat_AlignSize: "unat s + 4095 < 2 ^ 64 \<Longrightarrow> unat (AlignSize s) = align_nat (unat s)"
  by (simp add: unat_AlignSize_raw align_nat_def unat_add_no_wrap)

lemma AlignSize_wraps:
  assumes "2 ^ 64 \<le> unat s + 4095"
  shows "AlignSize s = 0"
proof -
  have "unat (s + 4095) = unat s + 4095 - 18446744073709551616"
    using assms unat_less_2p64 [of s] by (simp add: unat_plus_if')
  then have "unat (s + 4095) < 4096" using unat_less_2p64 [of s] by linarith
  then show ?thesis by (simp add: word_unat_eq_iff unat_AlignSize_raw)
qed

lemma align_nat_bounds:
  "4096 dvd align_nat s" "s \<le> align_nat s" "align_nat s < s + 4096" "align_nat s = 0 \<longleftrightarrow> s = 0"
  by (auto simp: align_nat_def)

lemma align_nat_fix: "4096 dvd s \<Longrightarrow> align_nat s = s"
  by (auto simp: align_nat_def)

subsection \<open>The best-fit scan\<close>

definition fits :: "u64 \<Rightarrow> u64 \<times> MemoryNode \<Rightarrow> bool" where
  "fits r q \<longleftrightarrow> is_free q \<and> r \<le> node_size (snd q)"

lemma best_fit_loop_cases:
  "best_fit_loop r p (b, s) = (b', s') \<Longrightarrow>
     (b' = b \<and> s' = s \<and> (\<forall>q \<in> set p. fits r q \<longrightarrow> s \<le> node_size (snd q)))
   \<or> (\<exists>xs k n ys. p = xs @ (k, n) # ys \<and> fits r (k, n) \<and> node_size n < s \<and> b' = Some k \<and> s' = node_size n
        \<and> (\<forall>q \<in> set xs. fits r q \<longrightarrow> node_size n < node_size (snd q))
        \<and> (\<forall>q \<in> set ys. fits r q \<longrightarrow> node_size n \<le> node_size (snd q)))"
proof (induction p arbitrary: b s)
  case (Cons x p)
  obtain k n where x: "x = (k, n)" by (cases x)
  let ?take = "fits r (k, n) \<and> node_size n < s"
  have step: "best_fit_loop r p (if ?take then (Some k, node_size n) else (b, s)) = (b', s')"
    using Cons.prems x by (auto simp: fits_def is_free_def)
  show ?case
  proof (cases ?take)
    case True
    with step have "best_fit_loop r p (Some k, node_size n) = (b', s')" by simp
    from Cons.IH [OF this] show ?thesis
    proof (elim disjE exE conjE)
      assume "b' = Some k" "s' = node_size n" "\<forall>q \<in> set p. fits r q \<longrightarrow> node_size n \<le> node_size (snd q)"
      then have "x # p = [] @ (k, n) # p \<and> fits r (k, n) \<and> node_size n < s \<and> b' = Some k \<and> s' = node_size n
          \<and> (\<forall>q \<in> set []. fits r q \<longrightarrow> node_size n < node_size (snd q))
          \<and> (\<forall>q \<in> set p. fits r q \<longrightarrow> node_size n \<le> node_size (snd q))"
        using True x by simp
      then show ?thesis by blast
    next
      fix xs j n' ys
      assume a: "p = xs @ (j, n') # ys" "fits r (j, n')" "node_size n' < node_size n" "b' = Some j"
        "s' = node_size n'" "\<forall>q \<in> set xs. fits r q \<longrightarrow> node_size n' < node_size (snd q)"
        "\<forall>q \<in> set ys. fits r q \<longrightarrow> node_size n' \<le> node_size (snd q)"
      then have "x # p = (x # xs) @ (j, n') # ys \<and> fits r (j, n') \<and> node_size n' < s \<and> b' = Some j
          \<and> s' = node_size n' \<and> (\<forall>q \<in> set (x # xs). fits r q \<longrightarrow> node_size n' < node_size (snd q))
          \<and> (\<forall>q \<in> set ys. fits r q \<longrightarrow> node_size n' \<le> node_size (snd q))"
        using True x by auto
      then show ?thesis by blast
    qed
  next
    case False
    with step have "best_fit_loop r p (b, s) = (b', s')" by (simp split: if_splits)
    from Cons.IH [OF this] show ?thesis
    proof (elim disjE exE conjE)
      assume "b' = b" "s' = s" "\<forall>q \<in> set p. fits r q \<longrightarrow> s \<le> node_size (snd q)"
      with False x show ?thesis by auto
    next
      fix xs j n' ys
      assume a: "p = xs @ (j, n') # ys" "fits r (j, n')" "node_size n' < s" "b' = Some j"
        "s' = node_size n'" "\<forall>q \<in> set xs. fits r q \<longrightarrow> node_size n' < node_size (snd q)"
        "\<forall>q \<in> set ys. fits r q \<longrightarrow> node_size n' \<le> node_size (snd q)"
      then have "x # p = (x # xs) @ (j, n') # ys \<and> fits r (j, n') \<and> node_size n' < s \<and> b' = Some j
          \<and> s' = node_size n' \<and> (\<forall>q \<in> set (x # xs). fits r q \<longrightarrow> node_size n' < node_size (snd q))
          \<and> (\<forall>q \<in> set ys. fits r q \<longrightarrow> node_size n' \<le> node_size (snd q))"
        using False x by auto
      then show ?thesis by blast
    qed
  qed
qed simp

text \<open>With all block sizes below the initial \<open>best_size\<close>, the scan fails only if nothing fits.\<close>

lemma best_fit_None:
  assumes "fst (best_fit_loop r p (None, -1)) = None" "\<forall>q \<in> set p. unat (node_size (snd q)) < 2 ^ 64 - 1"
  shows "\<forall>q \<in> set p. \<not> fits r q" "best_fit_loop r p (None, -1) = (None, -1)"
proof -
  obtain b s where bs: "best_fit_loop r p (None, -1) = (b, s)" by (cases "best_fit_loop r p (None, -1)")
  with assms(1) have "b = None" by simp
  have small: "node_size (snd q) < -1" if "q \<in> set p" for q
  proof -
    have "unat (-1 :: u64) = 2 ^ 64 - 1" by (simp add: unsigned_minus_1_eq_mask mask_eq_exp_minus_1)
    with assms(2) that show ?thesis unfolding word_less_nat_alt by (metis)
  qed
  from best_fit_loop_cases [OF bs] \<open>b = None\<close>
  have *: "b = None \<and> s = -1 \<and> (\<forall>q \<in> set p. fits r q \<longrightarrow> -1 \<le> node_size (snd q))" by auto
  with small show "\<forall>q \<in> set p. \<not> fits r q" by (meson leD)
  from * bs show "best_fit_loop r p (None, -1) = (None, -1)" by simp
qed

lemma best_fit_Some:
  assumes "fst (best_fit_loop r p (None, -1)) = Some k"
  obtains xs n ys where "p = xs @ (k, n) # ys" "fits r (k, n)"
    "\<forall>q \<in> set xs. fits r q \<longrightarrow> node_size n < node_size (snd q)"
    "\<forall>q \<in> set ys. fits r q \<longrightarrow> node_size n \<le> node_size (snd q)"
proof -
  obtain b s where bs: "best_fit_loop r p (None, -1) = (b, s)" by (cases "best_fit_loop r p (None, -1)")
  with assms have "b = Some k" by simp
  with best_fit_loop_cases [OF bs] that show ?thesis by auto
qed


subsection \<open>Defragmentation on a coalesced pool\<close>

lemma find_mergeable_coalesced: "coalesced p \<Longrightarrow> find_mergeable p = None"
  by (induction p rule: find_mergeable.induct) (auto simp: is_free_def)

lemma MergeAll_coalesced [simp]: "coalesced p \<Longrightarrow> MergeAllAdjacentFreeBlocks p = p"
  by (subst MergeAllAdjacentFreeBlocks.simps) (simp add: find_mergeable_coalesced)

subsection \<open>Carving a block out of a free one\<close>

lemma mem_inv_nodes:
  assumes "mem_inv m"
  shows "m_ok (mem_pool m)" "\<forall>q \<in> set (mem_pool m). unat (node_size (snd q)) < 2 ^ 64 - 1"
proof -
  show "m_ok (mem_pool m)" using assms tiles_m_ok by (auto simp: mem_inv_def)
  show "\<forall>q \<in> set (mem_pool m). unat (node_size (snd q)) < 2 ^ 64 - 1"
  proof
    fix q assume "q \<in> set (mem_pool m)"
    then have "unat (fst q) + unat (node_size (snd q)) \<le> unat (mem_size m)"
      using assms tiles_bounds [of 0 "mem_pool m" "unat (mem_size m)" "fst q" "snd q"]
      by (simp add: mem_inv_def)
    then show "unat (node_size (snd q)) < 2 ^ 64 - 1" using assms by (simp add: mem_inv_def)
  qed
qed

lemma tiles_at:
  assumes "tiles a (xs @ (k, n) # ys) e"
  shows "tiles a xs (unat k)" "node_addr n = k" "0 < unat (node_size n)"
    "tiles (unat k + unat (node_size n)) ys e" "unat k + unat (node_size n) \<le> e"
  using assms by (auto simp: tiles_append dest: tiles_le)

definition front_carved :: "pool \<Rightarrow> u64 \<Rightarrow> MemoryNode \<Rightarrow> pool \<Rightarrow> u64 \<Rightarrow> pool" where
  "front_carved xs k n ys r =
     xs @ (k, mk_node k r 1) #
       (if r < node_size n then [(k + r, mk_node (k + r) (node_size n - r) 0)] else []) @ ys"

definition back_carved :: "pool \<Rightarrow> u64 \<Rightarrow> MemoryNode \<Rightarrow> pool \<Rightarrow> u64 \<Rightarrow> pool" where
  "back_carved xs k n ys r =
     (let b = k + (node_size n - r)
      in xs @ (if r < node_size n then [(k, mk_node k (node_size n - r) 0)] else [])
         @ (b, mk_node b r 1) # ys)"

lemma carve_arith:
  assumes "tiles 0 (xs @ (k, n) # ys) e" "e < 2 ^ 64" "fits r (k, n)"
  shows "unat r \<le> unat (node_size n)" "unat (k + r) = unat k + unat r"
    "unat (node_size n - r) = unat (node_size n) - unat r"
    "unat (k + (node_size n - r)) = unat k + (unat (node_size n) - unat r)"
proof -
  note t = tiles_at [OF assms(1)]
  show r: "unat r \<le> unat (node_size n)" using assms(3) by (simp add: fits_def word_le_nat_alt)
  with t(5) assms(2) show "unat (k + r) = unat k + unat r" by (simp add: unat_add_no_wrap)
  from r show d: "unat (node_size n - r) = unat (node_size n) - unat r" by (rule unat_diff_no_wrap)
  with t(5) assms(2) show "unat (k + (node_size n - r)) = unat k + (unat (node_size n) - unat r)"
    by (simp add: unat_add_no_wrap)
qed

lemma tiles_later:
  "tiles a ys e \<Longrightarrow> unat j < a \<Longrightarrow> \<forall>q \<in> set ys. j < fst q"
  by (auto simp: word_less_nat_alt dest: tiles_bounds)

lemma front_carved_puts:
  assumes "tiles 0 (xs @ (k, n) # ys) e" "e < 2 ^ 64" "fits r (k, n)" "0 < unat r"
  shows "m_put k (mk_node k r 1)
           (if r < node_size n then m_put (k + r) (mk_node (k + r) (node_size n - r) 0) (xs @ (k, n) # ys)
            else xs @ (k, n) # ys) = front_carved xs k n ys r"
proof -
  note t = tiles_at [OF assms(1)] and a = carve_arith [OF assms(1-3)]
  have ok: "m_ok (xs @ (k, n) # ys)" using assms(1) by (rule tiles_m_ok)
  show ?thesis
  proof (cases "r < node_size n")
    case True
    have lt: "k < k + r" using a(2) assms(4) by (simp add: word_less_nat_alt)
    have later: "\<forall>q \<in> set ys. k + r < fst q"
      using True a(2) by (intro tiles_later [OF t(4)]) (simp add: word_less_nat_alt)
    have put: "m_put (k + r) (mk_node (k + r) (node_size n - r) 0) (xs @ (k, n) # ys)
      = xs @ (k, n) # (k + r, mk_node (k + r) (node_size n - r) 0) # ys"
      using m_put_after [OF ok lt later] .
    then have "m_ok (xs @ (k, n) # (k + r, mk_node (k + r) (node_size n - r) 0) # ys)"
      using ok by (metis m_ok_m_put)
    with put True show ?thesis by (simp add: front_carved_def m_put_at)
  qed (use ok in \<open>simp add: front_carved_def m_put_at\<close>)
qed

lemma back_carved_puts:
  assumes "tiles 0 (xs @ (k, n) # ys) e" "e < 2 ^ 64" "fits r (k, n)" "0 < unat r"
  shows "(let addr = (if r < node_size n then k + (node_size n - r) else k)
          in m_put addr (mk_node addr r 1)
               (if r < node_size n then m_put k (mk_node k (node_size n - r) 0) (xs @ (k, n) # ys)
                else xs @ (k, n) # ys)) = back_carved xs k n ys r"
proof -
  note t = tiles_at [OF assms(1)] and a = carve_arith [OF assms(1-3)]
  have ok: "m_ok (xs @ (k, n) # ys)" using assms(1) by (rule tiles_m_ok)
  show ?thesis
  proof (cases "r < node_size n")
    case True
    let ?f = "mk_node k (node_size n - r) 0"
    have put: "m_put k ?f (xs @ (k, n) # ys) = xs @ (k, ?f) # ys" using ok by (rule m_put_at)
    then have ok': "m_ok (xs @ (k, ?f) # ys)" using ok by (metis m_ok_m_put)
    have lt: "k < k + (node_size n - r)" using a True by (simp add: word_less_nat_alt)
    have later: "\<forall>q \<in> set ys. k + (node_size n - r) < fst q"
      using a t assms(4) by (intro tiles_later [OF t(4)]) simp
    show ?thesis
      using put m_put_after [OF ok' lt later] True by (simp add: back_carved_def Let_def)
  next
    case False
    then have "node_size n = r" using a(1) by (simp add: word_less_nat_alt word_unat_eq_iff)
    with ok show ?thesis by (simp add: back_carved_def m_put_at)
  qed
qed

lemma front_carved_props:
  assumes "tiles 0 (xs @ (k, n) # ys) e" "e < 2 ^ 64" "fits r (k, n)" "0 < unat r"
    "coalesced (xs @ (k, n) # ys)"
  shows "tiles 0 (front_carved xs k n ys r) e" "coalesced (front_carved xs k n ys r)"
    "used_blocks (front_carved xs k n ys r) = used_blocks xs @ (k, mk_node k r 1) # used_blocks ys"
proof -
  note t = tiles_at [OF assms(1)] and a = carve_arith [OF assms(1-3)]
  show "tiles 0 (front_carved xs k n ys r) e"
    using t a assms(4) by (auto simp: front_carved_def tiles_append word_less_nat_alt)
  show "coalesced (front_carved xs k n ys r)"
    using assms(3,5) by (auto simp: front_carved_def coalesced_append coalesced_Cons fits_def)
  show "used_blocks (front_carved xs k n ys r) = used_blocks xs @ (k, mk_node k r 1) # used_blocks ys"
    by (simp add: front_carved_def)
qed

lemma back_carved_props:
  assumes "tiles 0 (xs @ (k, n) # ys) e" "e < 2 ^ 64" "fits r (k, n)" "0 < unat r"
    "coalesced (xs @ (k, n) # ys)"
  shows "tiles 0 (back_carved xs k n ys r) e" "coalesced (back_carved xs k n ys r)"
    "used_blocks (back_carved xs k n ys r) =
       used_blocks xs @ (k + (node_size n - r), mk_node (k + (node_size n - r)) r 1) # used_blocks ys"
proof -
  note t = tiles_at [OF assms(1)] and a = carve_arith [OF assms(1-3)]
  show "tiles 0 (back_carved xs k n ys r) e"
    using t a assms(4) by (auto simp: back_carved_def tiles_append word_less_nat_alt Let_def)
  show "coalesced (back_carved xs k n ys r)"
    using assms(3,5) by (auto simp: back_carved_def coalesced_append coalesced_Cons fits_def Let_def)
  show "used_blocks (back_carved xs k n ys r) =
      used_blocks xs @ (k + (node_size n - r), mk_node (k + (node_size n - r)) r 1) # used_blocks ys"
    by (simp add: back_carved_def Let_def)
qed


subsection \<open>Allocation\<close>

definition request_size :: "u64 \<Rightarrow> u64" where
  "request_size required = AlignSize (if required = 0 then 64 else required)"

text \<open>The busy blocks by address: what the clients of the allocator see of it.\<close>

definition live :: "Memory \<Rightarrow> u64 \<Rightarrow> u64 option" where
  "live m a = map_option node_size (map_of (used_blocks (mem_pool m)) a)"

lemma Allocate_fails:
  assumes "mem_inv m" "FindBestFit (request_size required) (mem_pool m) = None"
  shows "Allocate required m = (-1, m)" "\<forall>q \<in> set (mem_pool m). \<not> fits (request_size required) q"
proof -
  show "Allocate required m = (-1, m)"
    using assms by (auto simp: Allocate_def request_size_def TryDefragmentation_def mem_inv_def Let_def)
  show "\<forall>q \<in> set (mem_pool m). \<not> fits (request_size required) q"
    using best_fit_None(1) assms(2) mem_inv_nodes(2) [OF assms(1)] by (simp add: FindBestFit_def)
qed

lemma Allocate_at:
  assumes "mem_inv m" "FindBestFit (request_size required) (mem_pool m) = Some k"
    "mem_pool m = xs @ (k, n) # ys" "fits (request_size required) (k, n)" "0 < unat (request_size required)"
  shows "Allocate required m =
    (k, m\<lparr>mem_pool := front_carved xs k n ys (request_size required),
          mem_used_size := mem_used_size m + request_size required\<rparr>)"
proof -
  have t: "tiles 0 (xs @ (k, n) # ys) (unat (mem_size m))" "unat (mem_size m) < 2 ^ 64"
    using assms(1,3) by (auto simp: mem_inv_def)
  have "map_of (mem_pool m) k = Some n"
    using mem_inv_nodes(1) [OF assms(1)] unfolding assms(3) by (rule map_of_at)
  then show ?thesis
    using front_carved_puts [OF t assms(4,5)] assms(2,3)
    by (auto simp: Allocate_def request_size_def Let_def)
qed

lemma Backward_fails:
  assumes "mem_inv m" "fst (best_fit_loop (AlignSize required) (rev (mem_pool m)) (None, -1)) = None"
  shows "BackwardAllocate required m = (-1, m)" "\<forall>q \<in> set (mem_pool m). \<not> fits (AlignSize required) q"
proof -
  note none = best_fit_None [OF assms(2)] mem_inv_nodes(2) [OF assms(1)]
  show "BackwardAllocate required m = (-1, m)"
    using assms none by (auto simp: BackwardAllocate_def TryDefragmentation_def mem_inv_def Let_def)
  show "\<forall>q \<in> set (mem_pool m). \<not> fits (AlignSize required) q" using none by simp
qed

lemma Backward_at:
  assumes "mem_inv m" "fst (best_fit_loop (AlignSize required) (rev (mem_pool m)) (None, -1)) = Some k"
    "mem_pool m = xs @ (k, n) # ys" "fits (AlignSize required) (k, n)" "0 < unat (AlignSize required)"
  shows "BackwardAllocate required m =
    (k + (node_size n - AlignSize required),
     m\<lparr>mem_pool := back_carved xs k n ys (AlignSize required),
       mem_used_size := mem_used_size m + AlignSize required\<rparr>)"
proof -
  have t: "tiles 0 (xs @ (k, n) # ys) (unat (mem_size m))" "unat (mem_size m) < 2 ^ 64"
    using assms(1,3) by (auto simp: mem_inv_def)
  have found: "map_of (mem_pool m) k = Some n"
    using mem_inv_nodes(1) [OF assms(1)] unfolding assms(3) by (rule map_of_at)
  have full: "node_size n = AlignSize required" if "\<not> AlignSize required < node_size n"
    using that assms(4) by (simp add: fits_def)
  obtain s where "best_fit_loop (AlignSize required) (rev (mem_pool m)) (None, -1) = (Some k, s)"
    using assms(2) by (cases "best_fit_loop (AlignSize required) (rev (mem_pool m)) (None, -1)") auto
  then show ?thesis
    using back_carved_puts [OF t assms(4,5)] assms(3) found full
    by (auto simp: BackwardAllocate_def Let_def)
qed

lemma used_size_grows:
  assumes "mem_inv m" "tiles 0 p (unat (mem_size m))" "coalesced p"
    "block_bytes (used_blocks p) = block_bytes (used_blocks (mem_pool m)) + unat r"
  shows "mem_inv (m\<lparr>mem_pool := p, mem_used_size := mem_used_size m + r\<rparr>)"
proof -
  have "unat (mem_used_size m) + unat r \<le> unat (mem_size m)"
    using assms tiles_total [OF assms(2)] block_bytes_used_le [of p] by (simp add: mem_inv_def)
  then have "unat (mem_used_size m) + unat r < 18446744073709551616"
    using unat_less_2p64 by (rule le_less_trans)
  then have "unat (mem_used_size m + r) = unat (mem_used_size m) + unat r"
    by (simp add: unat_add_no_wrap)
  with assms show ?thesis by (simp add: mem_inv_def)
qed

lemma map_of_mid: "k \<notin> fst ` set xs \<Longrightarrow> map_of (xs @ (k, v) # ys) = (map_of (xs @ ys))(k \<mapsto> v)"
  by (induction xs) (auto simp: fun_eq_iff)

lemma used_keys: "fst ` set (used_blocks p) \<subseteq> fst ` set p"
  by (auto simp: set_used_blocks)

lemma live_mid:
  assumes "used_blocks (mem_pool m') = used_blocks xs @ (k, n) # used_blocks ys"
    "used_blocks (mem_pool m) = used_blocks xs @ used_blocks ys" "k \<notin> fst ` set xs"
  shows "live m' = (live m)(k \<mapsto> node_size n)"
proof -
  have "k \<notin> fst ` set (used_blocks xs)" using assms(3) used_keys by blast
  then show ?thesis using assms by (auto simp: live_def map_of_mid fun_eq_iff simp del: map_of_append)
qed

lemma live_None:
  "m_ok (mem_pool m) \<Longrightarrow> \<forall>q \<in> set (mem_pool m). fst q = a \<longrightarrow> is_free q \<Longrightarrow> live m a = None"
  by (auto simp: live_def map_of_eq_None_iff set_used_blocks)


lemma carved_result:
  assumes "mem_inv m" "mem_pool m = xs @ (k, n) # ys" "is_free (k, n)"
    and "tiles 0 p (unat (mem_size m))" "coalesced p"
    and "used_blocks p = used_blocks xs @ (b, mk_node b r 1) # used_blocks ys"
    and "unat k \<le> unat b" "unat b < unat k + unat (node_size n)"
  shows "mem_inv (m\<lparr>mem_pool := p, mem_used_size := mem_used_size m + r\<rparr>)"
    and "live (m\<lparr>mem_pool := p, mem_used_size := mem_used_size m + r\<rparr>) = (live m)(b \<mapsto> r)"
    and "live m b = None" "b \<noteq> -1"
proof -
  have tm: "tiles 0 (xs @ (k, n) # ys) (unat (mem_size m))" using assms(1,2) by (simp add: mem_inv_def)
  note t = tiles_at [OF tm]
  have "\<forall>q \<in> set xs. fst q < k" using tiles_m_ok [OF tm] by (simp add: m_ok_split)
  then have notin: "b \<notin> fst ` set xs" using assms(7) by (force simp: word_less_nat_alt)
  have notin2: "b \<notin> fst ` set ys" using tiles_bounds [OF t(4)] assms(8) by fastforce
  show "mem_inv (m\<lparr>mem_pool := p, mem_used_size := mem_used_size m + r\<rparr>)"
    using assms(2,3,6) by (intro used_size_grows [OF assms(1,4,5)]) simp
  show "live (m\<lparr>mem_pool := p, mem_used_size := mem_used_size m + r\<rparr>) = (live m)(b \<mapsto> r)"
    using live_mid [of "m\<lparr>mem_pool := p, mem_used_size := mem_used_size m + r\<rparr>" xs b "mk_node b r 1" ys m]
      assms(2,3,6) notin by simp
  show "live m b = None"
    using assms(2,3) notin notin2 mem_inv_nodes(1) [OF assms(1)] by (intro live_None) force+
  have "unat b < 2 ^ 64 - 1" using assms(1,8) t(5) by (simp add: mem_inv_def)
  then show "b \<noteq> -1" by (auto simp: unsigned_minus_1_eq_mask mask_eq_exp_minus_1)
qed

lemma Allocate_success:
  assumes "mem_inv m" "0 < unat (request_size required)" "Allocate required m = (a, m')" "a \<noteq> -1"
  shows "mem_inv m'" "live m a = None" "live m' = (live m)(a \<mapsto> request_size required)"
    "\<exists>xs n ys. mem_pool m = xs @ (a, n) # ys \<and> fits (request_size required) (a, n)
       \<and> (\<forall>q \<in> set xs. fits (request_size required) q \<longrightarrow> node_size n < node_size (snd q))
       \<and> (\<forall>q \<in> set ys. fits (request_size required) q \<longrightarrow> node_size n \<le> node_size (snd q))"
proof -
  let ?r = "request_size required"
  obtain k where k: "FindBestFit ?r (mem_pool m) = Some k"
    using Allocate_fails(1) [OF assms(1), of required] assms(3,4) by fastforce
  then obtain xs n ys where s: "mem_pool m = xs @ (k, n) # ys" "fits ?r (k, n)"
    "\<forall>q \<in> set xs. fits ?r q \<longrightarrow> node_size n < node_size (snd q)"
    "\<forall>q \<in> set ys. fits ?r q \<longrightarrow> node_size n \<le> node_size (snd q)"
    unfolding FindBestFit_def by (rule best_fit_Some)
  have t: "tiles 0 (xs @ (k, n) # ys) (unat (mem_size m))" "unat (mem_size m) < 2 ^ 64"
    "coalesced (xs @ (k, n) # ys)" using assms(1) s(1) by (auto simp: mem_inv_def)
  note eq = Allocate_at [OF assms(1) k s(1,2) assms(2)]
  note front = front_carved_props [OF t(1,2) s(2) assms(2) t(3)]
  have "is_free (k, n)" "unat k < unat k + unat (node_size n)"
    using s(2) tiles_at(3) [OF t(1)] by (auto simp: fits_def)
  note res = carved_result [OF assms(1) s(1) this(1) front order_refl this(2)]
  from eq assms(3) res show "mem_inv m'" "live m a = None" "live m' = (live m)(a \<mapsto> ?r)" by auto
  from eq assms(3) s show "\<exists>xs n ys. mem_pool m = xs @ (a, n) # ys \<and> fits ?r (a, n)
       \<and> (\<forall>q \<in> set xs. fits ?r q \<longrightarrow> node_size n < node_size (snd q))
       \<and> (\<forall>q \<in> set ys. fits ?r q \<longrightarrow> node_size n \<le> node_size (snd q))" by auto
qed

lemma Allocate_failure:
  assumes "mem_inv m" "0 < unat (request_size required)" "Allocate required m = (-1, m')"
  shows "m' = m" "\<forall>q \<in> set (mem_pool m). \<not> fits (request_size required) q"
proof -
  let ?r = "request_size required"
  have none: "FindBestFit ?r (mem_pool m) = None"
  proof (rule ccontr)
    assume "FindBestFit ?r (mem_pool m) \<noteq> None"
    then obtain k where k: "FindBestFit ?r (mem_pool m) = Some k" by auto
    then obtain xs n ys where s: "mem_pool m = xs @ (k, n) # ys" "fits ?r (k, n)"
      unfolding FindBestFit_def by (rule best_fit_Some)
    have "k = -1" using Allocate_at [OF assms(1) k s assms(2)] assms(3) by simp
    moreover have "unat k < 2 ^ 64 - 1"
      using assms(1) s(1) tiles_at(5) [of 0 xs k n ys "unat (mem_size m)"] by (auto simp: mem_inv_def)
    ultimately show False by (simp add: unsigned_minus_1_eq_mask mask_eq_exp_minus_1)
  qed
  from Allocate_fails [OF assms(1) none] assms(3)
  show "m' = m" "\<forall>q \<in> set (mem_pool m). \<not> fits ?r q" by auto
qed

lemma Backward_success:
  assumes "mem_inv m" "0 < unat (AlignSize required)" "BackwardAllocate required m = (a, m')" "a \<noteq> -1"
  shows "mem_inv m'" "live m a = None" "live m' = (live m)(a \<mapsto> AlignSize required)"
    "\<exists>xs k n ys. mem_pool m = xs @ (k, n) # ys \<and> fits (AlignSize required) (k, n)
       \<and> a = k + (node_size n - AlignSize required)
       \<and> (\<forall>q \<in> set xs. fits (AlignSize required) q \<longrightarrow> node_size n \<le> node_size (snd q))
       \<and> (\<forall>q \<in> set ys. fits (AlignSize required) q \<longrightarrow> node_size n < node_size (snd q))"
proof -
  let ?r = "AlignSize required"
  obtain k where k: "fst (best_fit_loop ?r (rev (mem_pool m)) (None, -1)) = Some k"
    using Backward_fails(1) [OF assms(1), of required] assms(3,4) by fastforce
  then obtain zs n ys where rs: "rev (mem_pool m) = zs @ (k, n) # ys" "fits ?r (k, n)"
    "\<forall>q \<in> set zs. fits ?r q \<longrightarrow> node_size n < node_size (snd q)"
    "\<forall>q \<in> set ys. fits ?r q \<longrightarrow> node_size n \<le> node_size (snd q)"
    by (rule best_fit_Some)
  then have s: "mem_pool m = rev ys @ (k, n) # rev zs" by (simp add: rev_swap)
  have t: "tiles 0 (rev ys @ (k, n) # rev zs) (unat (mem_size m))" "unat (mem_size m) < 2 ^ 64"
    "coalesced (rev ys @ (k, n) # rev zs)" using assms(1) s by (auto simp: mem_inv_def)
  note eq = Backward_at [OF assms(1) k s rs(2) assms(2)]
  note bc = back_carved_props [OF t(1,2) rs(2) assms(2) t(3)]
  note a = carve_arith [OF t(1,2) rs(2)]
  have "is_free (k, n)" using rs(2) by (auto simp: fits_def)
  moreover have "unat k \<le> unat (k + (node_size n - ?r))"
    "unat (k + (node_size n - ?r)) < unat k + unat (node_size n)" using a assms(2) by auto
  ultimately have res: "mem_inv m'" "live m' = (live m)(a \<mapsto> ?r)" "live m a = None"
    using carved_result [OF assms(1) s _ bc] eq assms(3) by auto
  from res show "mem_inv m'" "live m a = None" "live m' = (live m)(a \<mapsto> ?r)" by auto
  show "\<exists>xs k n ys. mem_pool m = xs @ (k, n) # ys \<and> fits ?r (k, n) \<and> a = k + (node_size n - ?r)
       \<and> (\<forall>q \<in> set xs. fits ?r q \<longrightarrow> node_size n \<le> node_size (snd q))
       \<and> (\<forall>q \<in> set ys. fits ?r q \<longrightarrow> node_size n < node_size (snd q))"
    using s rs eq assms(3)
    by (intro exI [of _ "rev ys"] exI [of _ k] exI [of _ n] exI [of _ "rev zs"]) auto
qed

lemma Backward_failure:
  assumes "mem_inv m" "0 < unat (AlignSize required)" "BackwardAllocate required m = (-1, m')"
  shows "m' = m" "\<forall>q \<in> set (mem_pool m). \<not> fits (AlignSize required) q"
proof -
  let ?r = "AlignSize required"
  have none: "fst (best_fit_loop ?r (rev (mem_pool m)) (None, -1)) = None"
  proof (rule ccontr)
    assume "fst (best_fit_loop ?r (rev (mem_pool m)) (None, -1)) \<noteq> None"
    then obtain k where k: "fst (best_fit_loop ?r (rev (mem_pool m)) (None, -1)) = Some k" by auto
    then obtain zs n ys where rs: "rev (mem_pool m) = zs @ (k, n) # ys" "fits ?r (k, n)"
      by (rule best_fit_Some)
    then have s: "mem_pool m = rev ys @ (k, n) # rev zs" by (simp add: rev_swap)
    have t: "tiles 0 (rev ys @ (k, n) # rev zs) (unat (mem_size m))" "unat (mem_size m) < 2 ^ 64"
      using assms(1) s by (auto simp: mem_inv_def)
    have "k + (node_size n - ?r) = -1" using Backward_at [OF assms(1) k s rs(2) assms(2)] assms(3) by simp
    moreover have "unat (k + (node_size n - ?r)) < 2 ^ 64 - 1"
      using carve_arith [OF t rs(2)] tiles_at(5) [OF t(1)] assms(1) by (auto simp: mem_inv_def)
    ultimately show False by (simp add: unsigned_minus_1_eq_mask mask_eq_exp_minus_1)
  qed
  from Backward_fails [OF assms(1) none] assms(3)
  show "m' = m" "\<forall>q \<in> set (mem_pool m). \<not> fits ?r q" by auto
qed


subsection \<open>Deallocation\<close>

lemma merge_pair_at:
  assumes "m_ok (xs @ (a, x) # (b, y) # ys)"
  shows "m_put a v (m_erase b (m_erase a (xs @ (a, x) # (b, y) # ys))) = xs @ (a, v) # ys"
proof -
  have ok: "m_ok (xs @ (b, y) # ys)"
    using assms m_ok_m_erase [OF assms, of a] m_erase_at [OF assms] by metis
  then have "m_erase b (m_erase a (xs @ (a, x) # (b, y) # ys)) = xs @ ys"
    using m_erase_at [OF assms] m_erase_at [OF ok] by simp
  moreover have "m_ok (xs @ ys)" using ok m_ok_m_erase m_erase_at by metis
  ultimately show ?thesis
    using assms by (simp add: m_ok_split m_ok_Cons m_put_between)
qed

lemma tiles_merge_pair:
  assumes "tiles 0 (xs @ (a, x) # (b, y) # ys) e" "e < 2 ^ 64"
  shows "tiles 0 (xs @ (a, mk_node a (node_size x + node_size y) 0) # ys) e"
proof -
  note t = tiles_at [OF assms(1)]
  have "unat b = unat a + unat (node_size x)" "0 < unat (node_size y)"
    "unat b + unat (node_size y) \<le> e"
    using t(4) tiles_at(5) [of "unat a + unat (node_size x)" "[]" b y ys e] by auto
  moreover from this assms(2) have "unat (node_size x + node_size y) = unat (node_size x) + unat (node_size y)"
    by (simp add: unat_add_no_wrap)
  ultimately show ?thesis using t by (auto simp: tiles_append add.assoc)
qed

text \<open>
  Merging at a free block restores the normal form and keeps the busy blocks: by induction on
  the number of blocks, which every merge decreases.
\<close>

lemma MergeAdjacentNodes_spec:
  assumes "p = xs @ (k, n) # ys" "tiles 0 p e" "e < 2 ^ 64" "is_free (k, n)" "coalesced xs" "coalesced ys"
  shows "tiles 0 (MergeAdjacentNodes p k) e \<and> coalesced (MergeAdjacentNodes p k)
    \<and> used_blocks (MergeAdjacentNodes p k) = used_blocks p"
  using assms
proof (induction "length p" arbitrary: p xs k n ys rule: less_induct)
  case less
  have ok: "m_ok (xs @ (k, n) # ys)" using less.prems(1,2) tiles_m_ok by simp
  have find: "map_of p k = Some n" using less.prems(1) map_of_at [OF ok] by simp
  consider (prev) xs' pk pn where "xs = xs' @ [(pk, pn)]" "is_free (pk, pn)"
    | (succ) ys' nk nn where "xs = [] \<or> \<not> is_free (last xs)" "ys = (nk, nn) # ys'" "is_free (nk, nn)"
    | (stop) "xs = [] \<or> \<not> is_free (last xs)" "ys = [] \<or> \<not> is_free (hd ys)"
    by (metis append_butlast_last_id eq_fst_iff list.collapse)
  then show ?case
  proof cases
    case prev
    let ?q = "xs' @ (pk, mk_node pk (node_size pn + node_size n) 0) # ys"
    have p: "p = xs' @ (pk, pn) # (k, n) # ys" using prev less.prems(1) by simp
    have "free_entry (m_prev k p) = Some (pk, pn)"
      using m_prev_at [OF ok] less.prems(1) prev by (simp add: is_free_def)
    then have "MergeAdjacentNodes p k = MergeAdjacentNodes ?q pk"
      using find merge_pair_at [of xs' pk pn k n ys] ok prev(1) p
      by (subst MergeAdjacentNodes.simps) (simp del: free_entry_eq map_of_append)
    moreover have "tiles 0 ?q e" using tiles_merge_pair less.prems(2,3) p by blast
    ultimately show ?thesis
      using less.hyps [of ?q xs' pk "mk_node pk (node_size pn + node_size n) 0" ys] less.prems prev p
      by (simp add: coalesced_append)
  next
    case succ
    let ?q = "xs @ (k, mk_node k (node_size n + node_size nn) 0) # ys'"
    have p: "p = xs @ (k, n) # (nk, nn) # ys'" using succ less.prems(1) by simp
    have "free_entry (m_prev k p) = None"
      using m_prev_at [OF ok] less.prems(1) succ(1)
      by (auto simp: free_entry_def is_free_def split: prod.splits)
    then have "MergeAdjacentNodes p k = MergeAdjacentNodes ?q k"
      using succ find m_next_at [OF ok] less.prems(1) p merge_pair_at [of xs k n nk nn ys'] ok
      by (subst MergeAdjacentNodes.simps) (simp add: free_entry_def is_free_def)
    moreover have "tiles 0 ?q e" using tiles_merge_pair less.prems(2,3) p by blast
    ultimately show ?thesis
      using less.hyps [of ?q xs k "mk_node k (node_size n + node_size nn) 0" ys'] less.prems succ p
      by (simp add: coalesced_Cons)
  next
    case stop
    have "free_entry (m_prev k p) = None" "free_entry (m_next k p) = None"
      using m_prev_at [OF ok] m_next_at [OF ok] less.prems(1) stop
      by (auto simp: free_entry_def is_free_def split: prod.splits list.splits)
    then have "MergeAdjacentNodes p k = p" by (subst MergeAdjacentNodes.simps) (simp add: find)
    with less.prems stop show ?thesis by (auto simp: coalesced_append coalesced_Cons)
  qed
qed

lemma live_Some_split:
  assumes "mem_inv m" "live m a = Some s"
  obtains xs n ys where "mem_pool m = xs @ (a, n) # ys" "\<not> is_free (a, n)" "node_size n = s"
proof -
  from assms(2) obtain n where n: "map_of (used_blocks (mem_pool m)) a = Some n" "node_size n = s"
    by (auto simp: live_def)
  then have "(a, n) \<in> set (used_blocks (mem_pool m))" by (metis map_of_SomeD)
  then have "(a, n) \<in> set (mem_pool m)" "\<not> is_free (a, n)" by (auto simp: set_used_blocks)
  with n(2) that show ?thesis by (metis in_set_conv_decomp)
qed

lemma Deallocate_live:
  assumes "mem_inv m" "live m a = Some s"
  shows "mem_inv (Deallocate a m)" "live (Deallocate a m) = (live m)(a := None)"
    "mem_size (Deallocate a m) = mem_size m"
proof -
  obtain xs n ys where p: "mem_pool m = xs @ (a, n) # ys" "\<not> is_free (a, n)" "node_size n = s"
    using live_Some_split [OF assms] .
  let ?n = "n\<lparr>node_status := 0\<rparr>"
  let ?p = "xs @ (a, ?n) # ys"
  have inv: "tiles 0 (xs @ (a, n) # ys) (unat (mem_size m))" "coalesced (xs @ (a, n) # ys)"
    using assms(1) p(1) by (auto simp: mem_inv_def)
  have ok: "m_ok (xs @ (a, n) # ys)" using inv(1) by (rule tiles_m_ok)
  have t: "tiles 0 ?p (unat (mem_size m))" using inv(1) by (auto simp: tiles_append)
  have c: "coalesced xs" "coalesced ys" using inv(2) by (auto simp: coalesced_append coalesced_Cons)
  have eq: "Deallocate a m = m\<lparr>mem_used_size := mem_used_size m - s, mem_pool := MergeAdjacentNodes ?p a\<rparr>"
    using map_of_at [OF ok] m_put_at [OF ok] p by (simp add: Deallocate_def del: map_of_append)
  note spec = MergeAdjacentNodes_spec [OF refl t _ _ c, simplified]
  have used: "block_bytes (used_blocks (mem_pool m)) = block_bytes (used_blocks xs) + unat s + block_bytes (used_blocks ys)"
    using p by simp
  then have "unat (mem_used_size m - s) = unat (mem_used_size m) - unat s"
    using assms(1) by (intro unat_diff_no_wrap) (simp add: mem_inv_def)
  then show "mem_inv (Deallocate a m)" using eq spec assms(1) used by (simp add: mem_inv_def)
  have "a \<notin> fst ` set xs" "a \<notin> fst ` set ys" using ok by (auto simp: m_ok_split)
  then have "a \<notin> fst ` set (used_blocks xs)" "a \<notin> fst ` set (used_blocks ys)" using used_keys by blast+
  then show "live (Deallocate a m) = (live m)(a := None)"
    using eq spec p by (auto simp: live_def fun_eq_iff map_of_mid map_of_eq_None_iff simp del: map_of_append)
  show "mem_size (Deallocate a m) = mem_size m" using eq by simp
qed

lemma Deallocate_used:
  assumes "mem_inv m" "mem_pool m = xs @ (a, n) # ys" "\<not> is_free (a, n)"
  shows "used_blocks (mem_pool (Deallocate a m)) = used_blocks xs @ used_blocks ys"
proof -
  have t: "tiles 0 (xs @ (a, n) # ys) (unat (mem_size m))" "coalesced (xs @ (a, n) # ys)"
    using assms(1,2) by (auto simp: mem_inv_def)
  have ok: "m_ok (xs @ (a, n) # ys)" using t(1) by (rule tiles_m_ok)
  let ?p = "xs @ (a, n\<lparr>node_status := 0\<rparr>) # ys"
  have "mem_pool (Deallocate a m) = MergeAdjacentNodes ?p a"
    using map_of_at [OF ok] m_put_at [OF ok] assms(2) by (simp add: Deallocate_def del: map_of_append)
  moreover have "tiles 0 ?p (unat (mem_size m))" using t(1) by (auto simp: tiles_append)
  ultimately show ?thesis
    using MergeAdjacentNodes_spec [of ?p xs a "n\<lparr>node_status := 0\<rparr>" ys "unat (mem_size m)"] t(2)
    by (auto simp: coalesced_append coalesced_Cons)
qed

text \<open>A pool in normal form is determined by its busy blocks.\<close>

lemma live_determines_pool:
  assumes "mem_inv m" "mem_inv m'" "mem_size m' = mem_size m"
    "used_blocks (mem_pool m') = used_blocks (mem_pool m)"
  shows "mem_pool m' = mem_pool m" "mem_used_size m' = mem_used_size m"
proof -
  show "mem_pool m' = mem_pool m" using assms tiles_unique unfolding mem_inv_def by metis
  then show "mem_used_size m' = mem_used_size m" using assms unfolding mem_inv_def
    by (metis word_unat_eq_iff)
qed

text \<open>So it is determined by its live addresses with their sizes.\<close>

lemma used_node:
  assumes "tiles a p e" "(k, n) \<in> set (used_blocks p)"
  shows "n = mk_node k (node_size n) 1"
  using assms by (induction a p e rule: tiles.induct) (auto simp: used_blocks_def is_free_def mk_node_def split: if_splits)

lemma live_determines_used:
  assumes "mem_inv m" "mem_inv m'" "live m' = live m"
  shows "used_blocks (mem_pool m') = used_blocks (mem_pool m)"
proof (rule m_ok_ext)
  have t: "tiles 0 (mem_pool m) (unat (mem_size m))" "tiles 0 (mem_pool m') (unat (mem_size m'))"
    using assms(1,2) by (auto simp: mem_inv_def)
  show ok: "m_ok (used_blocks (mem_pool m'))" "m_ok (used_blocks (mem_pool m))"
    using t [THEN tiles_m_ok] by (auto simp: used_blocks_def m_ok_def sorted_wrt_map intro: sorted_wrt_filter)
  show "map_of (used_blocks (mem_pool m')) = map_of (used_blocks (mem_pool m))"
  proof
    fix a
    have l: "map_option node_size (map_of (used_blocks (mem_pool m')) a) = map_option node_size (map_of (used_blocks (mem_pool m)) a)"
      using assms(3) by (metis live_def)
    show "map_of (used_blocks (mem_pool m')) a = map_of (used_blocks (mem_pool m)) a"
    proof (cases "map_of (used_blocks (mem_pool m')) a")
      case None
      with l show ?thesis by simp
    next
      case (Some n')
      with l obtain n where n: "map_of (used_blocks (mem_pool m)) a = Some n" "node_size n = node_size n'" by (auto simp: map_option_case split: option.splits)
      have "n' = mk_node a (node_size n') 1" "n = mk_node a (node_size n) 1"
        using used_node [OF t(2) map_of_SomeD [OF Some]] used_node [OF t(1) map_of_SomeD [OF n(1)]] .
      with n Some show ?thesis by metis
    qed
  qed
qed

lemma Memory_new_inv:
  assumes "msize \<noteq> 0" "unat msize < 2 ^ 64 - 1"
  shows "mem_inv (Memory_new base msize ptr)" "live (Memory_new base msize ptr) = Map.empty"
  using assms by (auto simp: mem_inv_def Memory_new_def live_def fun_eq_iff unat_gt_0)


subsection \<open>The allocator interface\<close>

text \<open>
  What \<open>MemoryService\<close> relies on: allocations return addresses that are not live, a failed
  allocation changes nothing, and releasing a live address removes exactly that address.
  \<open>apre\<close> and \<open>bpre\<close> are the request sizes for which the two allocation functions promise it.
\<close>

locale block_allocator =
  fixes inv :: "'m \<Rightarrow> bool"
    and live_of :: "'m \<Rightarrow> u64 \<Rightarrow> u64 option"
    and apre bpre :: "u64 \<Rightarrow> bool"
    and alloc balloc :: "u64 \<Rightarrow> 'm \<Rightarrow> u64 \<times> 'm"
    and release :: "u64 \<Rightarrow> 'm \<Rightarrow> 'm"
  assumes alloc_ok: "inv m \<Longrightarrow> apre r \<Longrightarrow> alloc r m = (a, m') \<Longrightarrow> a \<noteq> -1 \<Longrightarrow>
      inv m' \<and> live_of m a = None \<and> (\<exists>s. live_of m' = (live_of m)(a \<mapsto> s))"
    and alloc_fail: "inv m \<Longrightarrow> apre r \<Longrightarrow> alloc r m = (-1, m') \<Longrightarrow> m' = m"
    and balloc_ok: "inv m \<Longrightarrow> bpre r \<Longrightarrow> balloc r m = (a, m') \<Longrightarrow> a \<noteq> -1 \<Longrightarrow>
      inv m' \<and> live_of m a = None \<and> (\<exists>s. live_of m' = (live_of m)(a \<mapsto> s))"
    and balloc_fail: "inv m \<Longrightarrow> bpre r \<Longrightarrow> balloc r m = (-1, m') \<Longrightarrow> m' = m"
    and release_live: "inv m \<Longrightarrow> live_of m a = Some s \<Longrightarrow>
      inv (release a m) \<and> live_of (release a m) = (live_of m)(a := None)"
begin

text \<open>Releasing a list of distinct live addresses, in order.\<close>

lemma release_list:
  assumes "inv m" "distinct as" "set as \<subseteq> dom (live_of m)"
  shows "inv (fold release as m) \<and> live_of (fold release as m) = live_of m |` (- set as)"
  using assms
proof (induction as arbitrary: m)
  case (Cons a as)
  then obtain s where "live_of m a = Some s" by auto
  with Cons.prems have step: "inv (release a m)" "live_of (release a m) = (live_of m)(a := None)"
    using release_live by auto
  then have "inv (fold release as (release a m))
      \<and> live_of (fold release as (release a m)) = live_of (release a m) |` (- set as)"
    using Cons by (intro Cons.IH) auto
  with step show ?case by (auto simp: restrict_map_def fun_eq_iff)
qed (simp add: restrict_map_def)

lemma alloc_dom:
  "inv m \<Longrightarrow> apre r \<Longrightarrow> alloc r m = (a, m') \<Longrightarrow> a \<noteq> -1 \<Longrightarrow> dom (live_of m') = insert a (dom (live_of m))"
  using alloc_ok by force

lemma balloc_dom:
  "inv m \<Longrightarrow> bpre r \<Longrightarrow> balloc r m = (a, m') \<Longrightarrow> a \<noteq> -1 \<Longrightarrow> dom (live_of m') = insert a (dom (live_of m))"
  using balloc_ok by force

end

definition alloc_pre :: "u64 \<Rightarrow> bool" where
  "alloc_pre r \<longleftrightarrow> unat r + 4095 < 2 ^ 64"

definition balloc_pre :: "u64 \<Rightarrow> bool" where
  "balloc_pre r \<longleftrightarrow> r \<noteq> 0 \<and> unat r + 4095 < 2 ^ 64"

lemma alloc_pre_pos: "alloc_pre r \<Longrightarrow> 0 < unat (request_size r)"
proof (cases "r = 0")
  case True
  then show ?thesis by (simp add: request_size_def unat_AlignSize align_nat_def)
next
  case False
  assume "alloc_pre r"
  with False have "unat (request_size r) = align_nat (unat r)" "unat r \<noteq> 0"
    by (auto simp: alloc_pre_def request_size_def unat_AlignSize unat_eq_0)
  then show ?thesis using align_nat_bounds(2) [of "unat r"] by simp
qed

lemma balloc_pre_pos: "balloc_pre r \<Longrightarrow> 0 < unat (AlignSize r)"
  using align_nat_bounds(4) [of "unat r"] by (simp add: balloc_pre_def unat_AlignSize unat_eq_0)

text \<open>Releasing what was just allocated restores every field.\<close>

lemma release_restores:
  assumes "mem_inv m" "mem_inv m'" "live m a = None" "live m' = (live m)(a \<mapsto> sz)"
    and "m' = m\<lparr>mem_pool := mem_pool m', mem_used_size := mem_used_size m'\<rparr>"
  shows "Deallocate a m' = m"
proof -
  have "live m' a = Some sz" using assms(4) by simp
  note rel = Deallocate_live [OF assms(2) this]
  have "live (Deallocate a m') = live m" using rel(2) assms(3,4) by auto
  moreover have "mem_size m' = mem_size m" by (subst assms(5)) simp
  then have "mem_size (Deallocate a m') = mem_size m" using rel(3) by simp
  ultimately have same: "mem_pool (Deallocate a m') = mem_pool m" "mem_used_size (Deallocate a m') = mem_used_size m"
    using live_determines_pool [OF assms(1) rel(1)] live_determines_used [OF assms(1) rel(1)] by auto
  have "Deallocate a m' = m'\<lparr>mem_pool := mem_pool (Deallocate a m'), mem_used_size := mem_used_size (Deallocate a m')\<rparr>"
    by (simp add: Deallocate_def split: option.split)
  also have "\<dots> = m'\<lparr>mem_pool := mem_pool m, mem_used_size := mem_used_size m\<rparr>" by (simp only: same)
  also have "\<dots> = m" by (subst assms(5)) simp
  finally show ?thesis .
qed

lemma alloc_release_same:
  assumes "mem_inv m" "unat r + 4095 < 2 ^ 64" "Allocate r m = (a, m')" "a \<noteq> -1"
  shows "Deallocate a m' = m"
proof -
  have pre: "0 < unat (request_size r)" using assms(2) by (intro alloc_pre_pos) (simp add: alloc_pre_def)
  note ok = Allocate_success [OF assms(1) pre assms(3,4)]
  obtain k where k: "FindBestFit (request_size r) (mem_pool m) = Some k"
    using Allocate_fails(1) [OF assms(1), of r] assms(3,4) by fastforce
  then obtain xs n ys where s: "mem_pool m = xs @ (k, n) # ys" "fits (request_size r) (k, n)"
    unfolding FindBestFit_def by (rule best_fit_Some)
  have "m' = m\<lparr>mem_pool := mem_pool m', mem_used_size := mem_used_size m'\<rparr>"
    using Allocate_at [OF assms(1) k s pre] assms(3) by auto
  then show ?thesis using release_restores [OF assms(1) ok(1)] ok(2,3) by blast
qed

lemma balloc_release_same:
  assumes "mem_inv m" "r \<noteq> 0" "unat r + 4095 < 2 ^ 64" "BackwardAllocate r m = (a, m')" "a \<noteq> -1"
  shows "Deallocate a m' = m"
proof -
  have pre: "0 < unat (AlignSize r)" using assms(2,3) by (intro balloc_pre_pos) (simp add: balloc_pre_def)
  note ok = Backward_success [OF assms(1) pre assms(4,5)]
  obtain k where k: "fst (best_fit_loop (AlignSize r) (rev (mem_pool m)) (None, -1)) = Some k"
    using Backward_fails(1) [OF assms(1), of r] assms(4,5) by fastforce
  then obtain zs n ys where s: "rev (mem_pool m) = zs @ (k, n) # ys" "fits (AlignSize r) (k, n)" by (rule best_fit_Some)
  then have "mem_pool m = rev ys @ (k, n) # rev zs" by (simp add: rev_swap)
  from Backward_at [OF assms(1) k this s(2) pre] have "m' = m\<lparr>mem_pool := mem_pool m', mem_used_size := mem_used_size m'\<rparr>"
    using assms(4) by auto
  then show ?thesis using release_restores [OF assms(1) ok(1)] ok(2,3) by blast
qed

interpretation npu: block_allocator mem_inv live alloc_pre balloc_pre Allocate BackwardAllocate Deallocate
proof (unfold_locales, goal_cases)
  case (1 m r a m') then show ?case using Allocate_success(1-3) [OF _ alloc_pre_pos, of m r a m'] by auto
next
  case (2 m r m') then show ?case using Allocate_failure(1) alloc_pre_pos by blast
next
  case (3 m r a m') then show ?case using Backward_success(1-3) [OF _ balloc_pre_pos, of m r a m'] by auto
next
  case (4 m r m') then show ?case using Backward_failure(1) balloc_pre_pos by blast
next
  case (5 m a s) then show ?case using Deallocate_live by blast
qed

subsection \<open>Reachable memories\<close>

text \<open>
  The states a client reaches that asks for representable sizes, does not ask
  \<open>BackwardAllocate\<close> for zero bytes and releases only live addresses.
\<close>

inductive mem_step :: "Memory \<Rightarrow> Memory \<Rightarrow> bool" where
  step_alloc: "alloc_pre r \<Longrightarrow> mem_step m (snd (Allocate r m))"
| step_back: "balloc_pre r \<Longrightarrow> mem_step m (snd (BackwardAllocate r m))"
| step_release: "live m a \<noteq> None \<Longrightarrow> mem_step m (Deallocate a m)"
| step_compact: "mem_step m (CompactMemory m)"
| step_reset: "mem_step m (ResetBuffer m)"

inductive mem_reachable :: "u64 \<Rightarrow> Memory \<Rightarrow> bool" for msize :: u64 where
  start: "mem_reachable msize (Memory_new base msize ptr)"
| step: "mem_reachable msize m \<Longrightarrow> mem_step m m' \<Longrightarrow> mem_reachable msize m'"

lemma mem_inv_simps [simp]:
  "mem_inv m \<Longrightarrow> CompactMemory m = m"
  "mem_inv (ResetBuffer m) = mem_inv m"
  "live (ResetBuffer m) = live m"
  by (auto simp: mem_inv_def CompactMemory_def ResetBuffer_def live_def fun_eq_iff)

lemma mem_step_inv: "mem_step m m' \<Longrightarrow> mem_inv m \<Longrightarrow> mem_inv m'"
proof (induction rule: mem_step.induct)
  case (step_alloc r m)
  then show ?case using npu.alloc_ok npu.alloc_fail by (metis prod.collapse)
next
  case (step_back r m)
  then show ?case using npu.balloc_ok npu.balloc_fail by (metis prod.collapse)
next
  case (step_release m a)
  then show ?case using npu.release_live by auto
qed auto

lemma mem_reachable_inv:
  assumes "mem_reachable msize m" "msize \<noteq> 0" "unat msize < 2 ^ 64 - 1"
  shows "mem_inv m"
  using assms by (induction rule: mem_reachable.induct) (auto intro: Memory_new_inv mem_step_inv)


subsection \<open>Alignment, accounting and fragmentation\<close>

definition aligned_pool :: "pool \<Rightarrow> bool" where
  "aligned_pool p \<longleftrightarrow> (\<forall>q \<in> set p. 4096 dvd unat (fst q) \<and> 4096 dvd unat (node_size (snd q)))"

lemma request_aligned: "4096 dvd unat (AlignSize r)"
  by (simp add: unat_AlignSize_raw)

lemma aligned_from_used:
  assumes "tiles a p e" "coalesced p" "4096 dvd a" "4096 dvd e"
    "\<forall>q \<in> set (used_blocks p). 4096 dvd unat (fst q) \<and> 4096 dvd unat (node_size (snd q))"
  shows "aligned_pool p"
  using assms
proof (induction p arbitrary: a)
  case (Cons x p)
  obtain k n where x: "x = (k, n)" by (cases x)
  have "4096 dvd unat (node_size n)"
  proof (cases "is_free x")
    case False
    with Cons.prems(5) x show ?thesis by simp
  next
    case True
    let ?next = "case used_blocks p of [] \<Rightarrow> e | (j, _) # _ \<Rightarrow> unat j"
    have "4096 dvd ?next" using Cons.prems(4,5) True by (auto split: list.splits)
    then have "4096 dvd ?next - a" using Cons.prems(3) by (rule dvd_diff_nat)
    then show ?thesis using tiles_free_extent [of a k n p e] Cons.prems(1,2) True x by simp
  qed
  moreover have "aligned_pool p"
    using Cons.prems x calculation by (intro Cons.IH [of "a + unat (node_size n)"])
      (auto simp: coalesced_Cons split: if_splits)
  ultimately show ?case using Cons.prems x by (auto simp: aligned_pool_def)
qed (simp add: aligned_pool_def)

lemma live_aligned_iff:
  "m_ok (mem_pool m) \<Longrightarrow>
   (\<forall>q \<in> set (used_blocks (mem_pool m)). 4096 dvd unat (fst q) \<and> 4096 dvd unat (node_size (snd q)))
   \<longleftrightarrow> (\<forall>a s. live m a = Some s \<longrightarrow> 4096 dvd unat a \<and> 4096 dvd unat s)"
proof -
  assume "m_ok (mem_pool m)"
  then have "m_ok (used_blocks (mem_pool m))" unfolding used_blocks_def m_ok_def
    by (induction "mem_pool m") (auto simp: sorted_wrt_map sorted_wrt_filter)
  then show ?thesis by (force simp: live_def m_ok_map_of_iff)
qed

definition mem_aligned :: "Memory \<Rightarrow> bool" where
  "mem_aligned m \<longleftrightarrow> mem_inv m \<and> 4096 dvd unat (mem_size m)
     \<and> (\<forall>a s. live m a = Some s \<longrightarrow> 4096 dvd unat a \<and> 4096 dvd unat s)"

lemma mem_aligned_pool: "mem_aligned m \<Longrightarrow> aligned_pool (mem_pool m)"
  unfolding mem_aligned_def mem_inv_def
  using live_aligned_iff tiles_m_ok by (blast intro: aligned_from_used [of 0])

lemma Allocate_size [simp]: "mem_size (snd (Allocate r m)) = mem_size m"
  by (auto simp: Allocate_def TryDefragmentation_def Let_def split: option.splits)

lemma Backward_size [simp]: "mem_size (snd (BackwardAllocate r m)) = mem_size m"
  by (auto simp: BackwardAllocate_def TryDefragmentation_def Let_def split: option.splits prod.splits)

lemma Allocate_aligned:
  assumes "mem_aligned m" "alloc_pre r"
  shows "mem_aligned (snd (Allocate r m))"
proof -
  obtain a m' where eq: "Allocate r m = (a, m')" by (cases "Allocate r m")
  have inv: "mem_inv m" using assms by (simp add: mem_aligned_def)
  show ?thesis
  proof (cases "a = -1")
    case True
    then show ?thesis using npu.alloc_fail [OF inv assms(2)] eq assms(1) by auto
  next
    case False
    note ok = Allocate_success [OF inv alloc_pre_pos [OF assms(2)] eq False]
    then have "4096 dvd unat a"
      using mem_aligned_pool [OF assms(1)] by (auto simp: aligned_pool_def)
    with ok assms(1) eq Allocate_size [of r m] show ?thesis
      by (auto simp: mem_aligned_def request_size_def request_aligned)
  qed
qed

lemma Backward_aligned:
  assumes "mem_aligned m" "balloc_pre r"
  shows "mem_aligned (snd (BackwardAllocate r m))"
proof -
  obtain a m' where eq: "BackwardAllocate r m = (a, m')" by (cases "BackwardAllocate r m")
  have inv: "mem_inv m" using assms by (simp add: mem_aligned_def)
  show ?thesis
  proof (cases "a = -1")
    case True
    then show ?thesis using npu.balloc_fail [OF inv assms(2)] eq assms(1) by auto
  next
    case False
    note ok = Backward_success [OF inv balloc_pre_pos [OF assms(2)] eq False]
    then obtain xs k n ys where p: "mem_pool m = xs @ (k, n) # ys" "fits (AlignSize r) (k, n)"
      "a = k + (node_size n - AlignSize r)" by blast
    have t: "tiles 0 (xs @ (k, n) # ys) (unat (mem_size m))" "unat (mem_size m) < 2 ^ 64"
      using inv p(1) by (auto simp: mem_inv_def)
    have "4096 dvd unat k" "4096 dvd unat (node_size n)"
      using mem_aligned_pool [OF assms(1)] p(1) by (auto simp: aligned_pool_def)
    then have "4096 dvd unat a"
      using carve_arith(4) [OF t p(2)] p(3) request_aligned by (simp add: dvd_diff_nat)
    with ok assms(1) eq Backward_size [of r m] show ?thesis
      by (auto simp: mem_aligned_def request_aligned)
  qed
qed

lemma mem_reachable_aligned:
  assumes "mem_reachable msize m" "msize \<noteq> 0" "unat msize < 2 ^ 64 - 1" "4096 dvd unat msize"
  shows "mem_aligned m"
  using assms
proof (induction rule: mem_reachable.induct)
  case (start base ptr)
  then show ?case using Memory_new_inv [of msize base ptr] by (simp add: mem_aligned_def Memory_new_def)
next
  case (step m m')
  then have a: "mem_aligned m" by blast
  from step.hyps(2) a show ?case
  proof (induction rule: mem_step.induct)
    case (step_release m b)
    then show ?case using Deallocate_live [of m b] by (auto simp: mem_aligned_def split: if_splits)
  next
    case (step_compact m)
    then show ?case by (simp add: mem_aligned_def)
  next
    case (step_reset m)
    then show ?case by (simp add: mem_aligned_def ResetBuffer_def live_def mem_inv_def)
  qed (auto intro: Allocate_aligned Backward_aligned)
qed

lemma frag_total:
  "unat (total_free_size info) + block_bytes (filter is_free p) < 2 ^ 64 \<Longrightarrow>
   unat (total_free_size (frag_loop p info)) = unat (total_free_size info) + block_bytes (filter is_free p)"
proof (induction p arbitrary: info)
  case (Cons x p)
  obtain k n where x: "x = (k, n)" by (cases x)
  show ?case
  proof (cases "node_status n = 0")
    case True
    with Cons.prems x have "unat (total_free_size info + node_size n) = unat (total_free_size info) + unat (node_size n)"
      by (simp add: is_free_def unat_add_no_wrap)
    with Cons True x show ?thesis by (simp add: is_free_def)
  qed (use Cons x in \<open>simp add: is_free_def\<close>)
qed simp

lemma frag_largest: "largest_free_block (frag_loop p info) = largest_loop p (largest_free_block info)"
  by (induction p arbitrary: info) (auto split: if_splits)

lemma largest_loop_ge: "r \<le> largest_loop p l \<longleftrightarrow> r \<le> l \<or> (\<exists>q \<in> set p. fits r q)"
proof (induction p arbitrary: l)
  case (Cons x p)
  show ?case by (cases x) (auto simp: Cons.IH fits_def is_free_def)
qed simp

lemma free_plus_used: "block_bytes (filter is_free p) + block_bytes (used_blocks p) = block_bytes p"
  by (induction p) auto

lemma frag_info_sels:
  "total_free_size (GetFragmentationInfo m) = total_free_size (frag_loop (mem_pool m)
     \<lparr>total_free_size = 0, largest_free_block = 0, smallest_free_block = -1,
      free_block_count = 0, fragmentation_ratio = 0\<rparr>)"
  "largest_free_block (GetFragmentationInfo m) = GetLargestFreeBlock m"
  by (auto simp: GetFragmentationInfo_def GetFragmentationInfoNoLock_def Let_def frag_largest GetLargestFreeBlock_def)

lemma mem_inv_accounting:
  assumes "mem_inv m"
  shows "unat (used_size m) + unat (total_free_size (GetFragmentationInfo m)) = unat (mem_size m)"
    "total_free_size (GetFragmentationInfo m) = free_size m"
proof -
  have sum: "block_bytes (filter is_free (mem_pool m)) + unat (mem_used_size m) = unat (mem_size m)"
    using assms tiles_total [of 0 "mem_pool m"] free_plus_used [of "mem_pool m"] by (simp add: mem_inv_def)
  have "block_bytes (filter is_free (mem_pool m)) < 18446744073709551616"
    using sum unat_less_2p64 [of "mem_size m"] by linarith
  then have tot: "unat (total_free_size (GetFragmentationInfo m)) = block_bytes (filter is_free (mem_pool m))"
    unfolding frag_info_sels(1) by (subst frag_total) auto
  with sum show "unat (used_size m) + unat (total_free_size (GetFragmentationInfo m)) = unat (mem_size m)"
    by (simp add: used_size_def)
  have "unat (free_size m) = unat (mem_size m) - unat (mem_used_size m)"
    unfolding free_size_def using sum by (intro unat_diff_no_wrap) linarith
  with tot sum show "total_free_size (GetFragmentationInfo m) = free_size m"
    by (simp add: word_unat_eq_iff)
qed

lemma find_mergeable_free: "find_mergeable p = Some (x, y) \<Longrightarrow> is_free x \<and> is_free y"
  by (induction p rule: find_mergeable.induct) (auto simp: is_free_def split: if_splits)

lemma find_mergeable_tiles: "tiles a p e \<Longrightarrow> e < 2 ^ 64 \<Longrightarrow> find_mergeable p = None \<Longrightarrow> coalesced p"
proof (induction p arbitrary: a rule: find_mergeable.induct)
  case (1 k1 n1 k2 n2 p)
  have "unat k1 + unat (node_size n1) < 2 ^ 64" using "1.prems" tiles_le by fastforce
  then have "k1 + node_size n1 = k2" using "1.prems"(1) by (simp add: word_unat_eq_iff unat_add_no_wrap)
  with "1.prems"(3) have "\<not> (is_free (k1, n1) \<and> is_free (k2, n2))" by (auto simp: is_free_def)
  moreover have "coalesced ((k2, n2) # p)"
    using 1 calculation by (auto simp: is_free_def split: if_splits)
  ultimately show ?case by simp
qed auto

lemma MergeAll_tiles:
  "tiles 0 p e \<Longrightarrow> e < 2 ^ 64 \<Longrightarrow>
   tiles 0 (MergeAllAdjacentFreeBlocks p) e \<and> coalesced (MergeAllAdjacentFreeBlocks p)
   \<and> used_blocks (MergeAllAdjacentFreeBlocks p) = used_blocks p"
proof (induction p rule: MergeAllAdjacentFreeBlocks.induct)
  case (1 p)
  show ?case
  proof (cases "find_mergeable p")
    case None
    then have "MergeAllAdjacentFreeBlocks p = p" by (subst MergeAllAdjacentFreeBlocks.simps) simp
    with find_mergeable_tiles [OF "1.prems" None] "1.prems" show ?thesis by simp
  next
    case (Some xy)
    obtain k1 n1 k2 n2 where xy: "xy = ((k1, n1), (k2, n2))" by (metis surj_pair)
    then obtain xs ys where p: "p = xs @ (k1, n1) # (k2, n2) # ys" using Some find_mergeable_SomeD by blast
    let ?q = "m_put k1 (mk_node k1 (node_size n1 + node_size n2) 0) (m_erase k2 (m_erase k1 p))"
    have q: "?q = xs @ (k1, mk_node k1 (node_size n1 + node_size n2) 0) # ys"
      using merge_pair_at tiles_m_ok "1.prems"(1) p by metis
    have free: "is_free (k1, n1)" "is_free (k2, n2)" using find_mergeable_free Some xy by auto
    have "tiles 0 ?q e" using tiles_merge_pair "1.prems" p q by metis
    then have "tiles 0 (MergeAllAdjacentFreeBlocks ?q) e \<and> coalesced (MergeAllAdjacentFreeBlocks ?q)
        \<and> used_blocks (MergeAllAdjacentFreeBlocks ?q) = used_blocks ?q"
      using "1.IH" [OF Some xy [symmetric] refl refl] "1.prems"(2) by blast
    moreover have "used_blocks ?q = used_blocks p" using free q p by simp
    moreover have "MergeAllAdjacentFreeBlocks p = MergeAllAdjacentFreeBlocks ?q"
      by (subst MergeAllAdjacentFreeBlocks.simps) (simp add: Some xy)
    ultimately show ?thesis by simp
  qed
qed


subsection \<open>Properties\<close>

lemma fits_iff: "fits r (k, n) \<longleftrightarrow> node_status n = 0 \<and> r \<le> node_size n"
  by (simp add: fits_def is_free_def)

lemma request_size_ge: "alloc_pre r \<Longrightarrow> unat r \<le> unat (request_size r)"
  using align_nat_bounds(2) [of "unat r"]
  by (cases "r = 0") (auto simp: alloc_pre_def request_size_def unat_AlignSize)

lemma sorted_before: "m_ok (xs @ (a, n) # ys) \<Longrightarrow> (k, n') \<in> set ys \<Longrightarrow> a < k"
  and sorted_after: "m_ok (xs @ (a, n) # ys) \<Longrightarrow> (k, n') \<in> set xs \<Longrightarrow> k < a"
  by (force simp: m_ok_split)+

text \<open>
  Claim C3. \<open>Memory::Allocate\<close> on a memory that satisfies the allocator invariant, for a size whose
  rounding up does not wrap: either it returns -1, changes nothing, and no free block is large
  enough; or it returns the address of the smallest free block that is large enough (the lowest
  such address), the invariant still holds, the address was not live before, and afterwards the
  live blocks are the old ones and the new one of the rounded-up size, at least the request.
\<close>
theorem allocate_correct:
  assumes "mem_inv m" and "unat required + 4095 < 2 ^ 64"
  shows "case Allocate required m of (a, m') \<Rightarrow>
     (if a = -1
      then m' = m \<and> (\<forall>(k, n) \<in> set (mem_pool m). node_status n = 0 \<longrightarrow> node_size n < request_size required)
      else mem_inv m' \<and> live m a = None \<and> live m' = (live m)(a \<mapsto> request_size required)
        \<and> unat required \<le> unat (request_size required)
        \<and> (\<exists>n. (a, n) \<in> set (mem_pool m) \<and> node_status n = 0 \<and> request_size required \<le> node_size n
             \<and> (\<forall>(k, n') \<in> set (mem_pool m). node_status n' = 0 \<and> request_size required \<le> node_size n'
                  \<longrightarrow> node_size n < node_size n' \<or> node_size n = node_size n' \<and> a \<le> k)))"
proof -
  obtain a m' where eq: "Allocate required m = (a, m')" by (cases "Allocate required m")
  have pre: "alloc_pre required" using assms(2) by (simp add: alloc_pre_def)
  show ?thesis
  proof (cases "a = -1")
    case True
    then show ?thesis using Allocate_failure [OF assms(1) alloc_pre_pos [OF pre]] eq
      by (auto simp: fits_iff not_le)
  next
    case False
    note ok = Allocate_success [OF assms(1) alloc_pre_pos [OF pre] eq False]
    then obtain xs n ys where p: "mem_pool m = xs @ (a, n) # ys" "fits (request_size required) (a, n)"
      and xs: "\<And>q. q \<in> set xs \<Longrightarrow> fits (request_size required) q \<Longrightarrow> node_size n < node_size (snd q)"
      and ys: "\<And>q. q \<in> set ys \<Longrightarrow> fits (request_size required) q \<Longrightarrow> node_size n \<le> node_size (snd q)" by blast
    have "m_ok (xs @ (a, n) # ys)" using mem_inv_nodes(1) [OF assms(1)] p(1) by simp
    note before = sorted_before [OF this]
    have best: "node_size n < node_size n' \<or> node_size n = node_size n' \<and> a \<le> k"
      if "(k, n') \<in> set (mem_pool m)" "node_status n' = 0" "request_size required \<le> node_size n'" for k n'
      using that xs [of "(k, n')"] ys [of "(k, n')"] before p by (fastforce simp: fits_iff)
    show ?thesis using ok(1-3) False eq request_size_ge [OF pre] p best by (auto simp: fits_iff)
  qed
qed

theorem allocate_correct_witness:
  "mem_inv (Memory_new 0 8192 0) \<and> unat (100::u64) + 4095 < 2 ^ 64
   \<and> fst (Allocate 100 (Memory_new 0 8192 0)) = 0
   \<and> live (snd (Allocate 100 (Memory_new 0 8192 0))) = [0 \<mapsto> 4096]"
proof -
  have inv: "mem_inv (Memory_new 0 8192 0)" by (rule Memory_new_inv) simp_all
  have a: "fst (Allocate 100 (Memory_new 0 8192 0)) = 0" "request_size 100 = 4096" by code_simp+
  have pre: "unat (100::u64) + 4095 < 2 ^ 64" by simp
  show ?thesis
    using allocate_correct [OF inv pre] a inv Memory_new_inv(2) [of 8192 0 0]
    by (auto simp: case_prod_beta)
qed

text \<open>
  \<open>Memory::BackwardAllocate\<close>, for a non-zero size whose rounding up does not wrap: either
  it returns -1, changes nothing, and no free block is large enough; or it carves the new block
  from the end of the smallest free block that is large enough (the highest such address), the
  invariant still holds, and the live blocks are the old ones and the new one.
\<close>
theorem backward_allocate_correct:
  assumes "mem_inv m" and "required \<noteq> 0" and "unat required + 4095 < 2 ^ 64"
  shows "case BackwardAllocate required m of (a, m') \<Rightarrow>
     (if a = -1
      then m' = m \<and> (\<forall>(k, n) \<in> set (mem_pool m). node_status n = 0 \<longrightarrow> node_size n < AlignSize required)
      else mem_inv m' \<and> live m a = None \<and> live m' = (live m)(a \<mapsto> AlignSize required)
        \<and> (\<exists>k n. (k, n) \<in> set (mem_pool m) \<and> node_status n = 0 \<and> AlignSize required \<le> node_size n
             \<and> a + AlignSize required = k + node_size n
             \<and> (\<forall>(j, n') \<in> set (mem_pool m). node_status n' = 0 \<and> AlignSize required \<le> node_size n'
                  \<longrightarrow> node_size n < node_size n' \<or> node_size n = node_size n' \<and> j \<le> k)))"
proof -
  obtain a m' where eq: "BackwardAllocate required m = (a, m')" by (cases "BackwardAllocate required m")
  have pre: "balloc_pre required" using assms(2,3) by (simp add: balloc_pre_def)
  show ?thesis
  proof (cases "a = -1")
    case True
    then show ?thesis using Backward_failure [OF assms(1) balloc_pre_pos [OF pre]] eq
      by (auto simp: fits_iff not_le)
  next
    case False
    note ok = Backward_success [OF assms(1) balloc_pre_pos [OF pre] eq False]
    then obtain xs k n ys where p: "mem_pool m = xs @ (k, n) # ys" "fits (AlignSize required) (k, n)"
      "a = k + (node_size n - AlignSize required)"
      and xs: "\<And>q. q \<in> set xs \<Longrightarrow> fits (AlignSize required) q \<Longrightarrow> node_size n \<le> node_size (snd q)"
      and ys: "\<And>q. q \<in> set ys \<Longrightarrow> fits (AlignSize required) q \<Longrightarrow> node_size n < node_size (snd q)" by blast
    have "m_ok (xs @ (k, n) # ys)" using mem_inv_nodes(1) [OF assms(1)] p(1) by simp
    note after = sorted_after [OF this]
    have best: "node_size n < node_size n' \<or> node_size n = node_size n' \<and> j \<le> k"
      if "(j, n') \<in> set (mem_pool m)" "node_status n' = 0" "AlignSize required \<le> node_size n'" for j n'
      using that xs [of "(j, n')"] ys [of "(j, n')"] after p by (fastforce simp: fits_iff)
    have "(k, n) \<in> set (mem_pool m) \<and> node_status n = 0 \<and> AlignSize required \<le> node_size n
        \<and> a + AlignSize required = k + node_size n"
      using p by (auto simp: fits_iff)
    with best ok(1-3) False eq show ?thesis by auto
  qed
qed

lemma tiles_pair_disjoint:
  assumes "tiles c p e" "(a, x) \<in> set p" "(b, y) \<in> set p" "a \<noteq> b"
  shows "unat a + unat (node_size x) \<le> unat b \<or> unat b + unat (node_size y) \<le> unat a"
  using assms
proof (induction p arbitrary: c)
  case (Cons q p)
  obtain k n where q: "q = (k, n)" by (cases q)
  then have rest: "tiles (c + unat (node_size n)) p e" "unat k = c" using Cons.prems(1) by auto
  then show ?case
    using Cons.IH [OF rest(1)] Cons.prems q tiles_bounds [OF rest(1)] by fastforce
qed simp

text \<open>
  Claim C5. In every memory a client can reach from a fresh one of positive size (with representable
  request sizes, no zero-size backward allocation, and releases of live addresses only), the
  allocator invariant holds, two live blocks never overlap, every live block lies inside the
  device memory, used and free bytes add up to its size, and, if that size is a multiple of
  4096, every live address and size is a multiple of 4096.
\<close>
theorem reachable_memory_sound:
  assumes "mem_reachable msize m" and "msize \<noteq> 0" and "unat msize < 2 ^ 64 - 1"
  shows "mem_inv m
    \<and> (\<forall>a s b t. live m a = Some s \<and> live m b = Some t \<and> a \<noteq> b
         \<longrightarrow> unat a + unat s \<le> unat b \<or> unat b + unat t \<le> unat a)
    \<and> (\<forall>a s. live m a = Some s \<longrightarrow> unat a + unat s \<le> unat (mem_size m))
    \<and> unat (used_size m) + unat (total_free_size (GetFragmentationInfo m)) = unat (mem_size m)
    \<and> (4096 dvd unat msize \<longrightarrow> (\<forall>a s. live m a = Some s \<longrightarrow> 4096 dvd unat a \<and> 4096 dvd unat s))"
proof -
  have inv: "mem_inv m" using assms by (rule mem_reachable_inv)
  then have t: "tiles 0 (mem_pool m) (unat (mem_size m))" by (simp add: mem_inv_def)
  have node: "\<exists>n. (c, n) \<in> set (mem_pool m) \<and> node_size n = u" if "live m c = Some u" for c u
    using live_Some_split [OF inv that] by (metis in_set_conv_decomp)
  have disj: "unat a + unat s \<le> unat b \<or> unat b + unat t \<le> unat a"
    if "live m a = Some s" "live m b = Some t" "a \<noteq> b" for a s b t
    using node [OF that(1)] node [OF that(2)] tiles_pair_disjoint [OF t _ _ that(3)] by blast
  have inside: "unat a + unat s \<le> unat (mem_size m)" if "live m a = Some s" for a s
    using node [OF that] tiles_bounds [OF t] by blast
  have al: "4096 dvd unat a \<and> 4096 dvd unat s" if "4096 dvd unat msize" "live m a = Some s" for a s
    using mem_reachable_aligned [OF assms that(1)] that(2) by (simp add: mem_aligned_def)
  show ?thesis
    by (intro conjI allI impI; (elim conjE)?)
      (use inv disj inside al mem_inv_accounting(1) [OF inv] in \<open>blast+\<close>)
qed

theorem reachable_memory_sound_witness:
  "mem_reachable 8192 (snd (Allocate 100 (Memory_new 0 8192 0))) \<and> (8192::u64) \<noteq> 0
   \<and> unat (8192::u64) < 2 ^ 64 - 1 \<and> mem_inv (snd (Allocate 100 (Memory_new 0 8192 0)))"
proof -
  have r: "mem_reachable 8192 (snd (Allocate 100 (Memory_new 0 8192 0)))"
    by (rule mem_reachable.step [OF mem_reachable.start], rule mem_step.step_alloc) (simp add: alloc_pre_def)
  show ?thesis using r reachable_memory_sound [OF r] by simp
qed

text \<open>
  Releasing an address right after it was allocated restores the memory exactly: the block
  map (with its free blocks merged again), the used-bytes counter and every other field.
\<close>
theorem allocate_deallocate_roundtrip:
  assumes "mem_inv m" and "unat required + 4095 < 2 ^ 64"
    and "Allocate required m = (a, m')" and "a \<noteq> -1"
  shows "Deallocate a m' = m"
  using assms by (rule alloc_release_same)

text \<open>
  \<open>Memory::Deallocate\<close> of a live address removes exactly that address from the live blocks
  and keeps the invariant (free neighbours merged, counter reduced); of an address that is the
  start of no block it does nothing.
\<close>
theorem deallocate_correct:
  assumes "mem_inv m"
  shows "(live m a \<noteq> None \<longrightarrow> mem_inv (Deallocate a m) \<and> live (Deallocate a m) = (live m)(a := None))
       \<and> (map_of (mem_pool m) a = None \<longrightarrow> Deallocate a m = m)"
  using assms Deallocate_live [of m a] by (auto simp: Deallocate_def)

text \<open>
  \<open>MergeAllAdjacentFreeBlocks\<close> terminates on every block map (it is a total function) and,
  on a map whose blocks tile the memory, leaves a tiling of the same memory with no two
  adjacent free blocks and exactly the same busy blocks.
\<close>
theorem defragmentation_normalises:
  assumes "tiles 0 p e" and "e < 2 ^ 64"
  shows "tiles 0 (MergeAllAdjacentFreeBlocks p) e \<and> coalesced (MergeAllAdjacentFreeBlocks p)
         \<and> used_blocks (MergeAllAdjacentFreeBlocks p) = used_blocks p"
  using assms by (rule MergeAll_tiles)

theorem defragmentation_normalises_witness:
  "MergeAllAdjacentFreeBlocks [(0, mk_node 0 4096 0), (4096, mk_node 4096 4096 0), (8192, mk_node 8192 64 1)]
     = [(0, mk_node 0 8192 0), (8192, mk_node 8192 64 1)]
   \<and> coalesced (MergeAllAdjacentFreeBlocks
       [(0, mk_node 0 4096 0), (4096, mk_node 4096 4096 0), (8192, mk_node 8192 64 1)])"
proof -
  have t: "tiles 0 [(0, mk_node 0 4096 0), (4096, mk_node 4096 4096 0), (8192, mk_node 8192 64 1)] 8256"
    by simp
  have c: "MergeAllAdjacentFreeBlocks [(0, mk_node 0 4096 0), (4096, mk_node 4096 4096 0), (8192, mk_node 8192 64 1)]
     = [(0, mk_node 0 8192 0), (8192, mk_node 8192 64 1)]"
    by code_simp
  show ?thesis using c defragmentation_normalises [OF t] by simp
qed

text \<open>
  \<open>AlignSize\<close> rounds up to the next multiple of 4096 (the least multiple that is not
  smaller) exactly when the addition does not leave 64 bits; every larger size, the last 4095
  representable ones, is rounded to 0.
\<close>
theorem align_size_exact:
  "unat (AlignSize s) =
     (if unat s + 4095 < 2 ^ 64 then (LEAST n. 4096 dvd n \<and> unat s \<le> n) else 0)"
proof (cases "unat s + 4095 < 2 ^ 64")
  case True
  have "(LEAST n. 4096 dvd n \<and> unat s \<le> n) = align_nat (unat s)"
  proof (rule Least_equality)
    show "4096 dvd align_nat (unat s) \<and> unat s \<le> align_nat (unat s)" using align_nat_bounds by blast
    fix n :: nat assume n: "4096 dvd n \<and> unat s \<le> n"
    then have "align_nat (unat s) < n + 4096" using align_nat_bounds(3) [of "unat s"] by linarith
    with n align_nat_bounds(1) [of "unat s"] show "align_nat (unat s) \<le> n" by (auto elim!: dvdE)
  qed
  with True show ?thesis by (simp add: unat_AlignSize)
qed (simp add: AlignSize_wraps)

text \<open>
  \<open>CanAllocateContiguous\<close> answers exactly whether the request is at most the largest free
  block that \<open>GetFragmentationInfo\<close> and \<open>GetLargestFreeBlock\<close> report (for a non-zero request).
\<close>
theorem contiguous_check_exact:
  assumes "r \<noteq> 0"
  shows "CanAllocateContiguous r m \<longleftrightarrow> r \<le> largest_free_block (GetFragmentationInfo m)"
    (is "?L \<longleftrightarrow> ?R")
proof -
  have "?L \<longleftrightarrow> (\<exists>q \<in> set (mem_pool m). fits r q)"
    by (force simp: CanAllocateContiguous_def list_ex_iff fits_def is_free_def)
  moreover have "\<not> r \<le> 0" using assms by simp
  ultimately show ?thesis by (simp add: frag_info_sels GetLargestFreeBlock_def largest_loop_ge)
qed

text \<open>
  \<open>BackwardAllocate\<close> has no guard for a request of zero bytes: on a memory where a live
  block of 4096 bytes follows a free block, \<open>BackwardAllocate(0)\<close> returns the address of that
  live block and shrinks its entry to zero bytes, so the invariant is lost.
\<close>
theorem backward_zero_overwrites_live_block:
  "let m = snd (BackwardAllocate 4096 (Memory_new 0 8192 0)) in
     mem_reachable 8192 m \<and> live m 4096 = Some 4096
     \<and> fst (BackwardAllocate 0 m) = 4096 \<and> live (snd (BackwardAllocate 0 m)) 4096 = Some 0
     \<and> \<not> mem_inv (snd (BackwardAllocate 0 m))"
proof -
  let ?m = "snd (BackwardAllocate 4096 (Memory_new 0 8192 0))"
  have r: "mem_reachable 8192 ?m"
    by (rule mem_reachable.step [OF mem_reachable.start], rule mem_step.step_back) (simp add: balloc_pre_def)
  have e: "live ?m 4096 = Some 4096" "fst (BackwardAllocate 0 ?m) = 4096"
    "live (snd (BackwardAllocate 0 ?m)) 4096 = Some 0"
    "mem_pool (snd (BackwardAllocate 0 ?m)) = [(0, mk_node 0 4096 0), (4096, mk_node 4096 0 1)]"
    by code_simp+
  then have "\<not> mem_inv (snd (BackwardAllocate 0 ?m))" by (simp add: mem_inv_def)
  with r e show ?thesis by (simp add: Let_def)
qed

text \<open>
  \<open>Deallocate\<close> does not check that the block is busy: releasing the start of a free block
  leaves the live blocks as they are but subtracts its size from the used-bytes counter, which
  no longer satisfies the invariant.
\<close>
theorem double_release_breaks_accounting:
  assumes "mem_inv m" and "map_of (mem_pool m) a = Some n" and "node_status n = 0"
  shows "mem_pool (Deallocate a m) = mem_pool m \<and> used_size (Deallocate a m) = used_size m - node_size n
    \<and> \<not> mem_inv (Deallocate a m)"
proof -
  obtain xs ys where p: "mem_pool m = xs @ (a, n) # ys"
    using assms(2) m_find_split by metis
  have inv: "tiles 0 (xs @ (a, n) # ys) (unat (mem_size m))" "coalesced (xs @ (a, n) # ys)"
    using assms(1) p by (auto simp: mem_inv_def)
  have ok: "m_ok (xs @ (a, n) # ys)" using inv(1) by (rule tiles_m_ok)
  have n: "n\<lparr>node_status := 0\<rparr> = n" using assms(3) by simp
  have same: "m_put a n (mem_pool m) = mem_pool m" using m_put_at [OF ok] p by simp
  have free: "is_free (a, n)" using assms(3) by (simp add: is_free_def)
  have c: "coalesced xs" "coalesced ys" using inv(2) by (auto simp: coalesced_append coalesced_Cons)
  have lt: "unat (mem_size m) < 2 ^ 64" by simp
  note spec = MergeAdjacentNodes_spec [OF refl inv(1) lt free c]
  have merge: "MergeAdjacentNodes (mem_pool m) a = mem_pool m"
    using tiles_unique [of 0 _ "unat (mem_size m)"] spec inv p by metis
  have eq: "Deallocate a m = m\<lparr>mem_used_size := mem_used_size m - node_size n\<rparr>"
    using assms(2) n same merge by (simp add: Deallocate_def)
  have "node_size n \<noteq> 0" using tiles_at(3) [OF inv(1)] by auto
  then have "mem_used_size m - node_size n \<noteq> mem_used_size m" by simp
  then have "unat (mem_used_size m - node_size n) \<noteq> unat (mem_used_size m)"
    by (simp add: word_unat_eq_iff)
  then have "\<not> mem_inv (Deallocate a m)" using eq assms(1) by (simp add: mem_inv_def)
  with eq show ?thesis by (simp add: used_size_def)
qed

theorem double_release_breaks_accounting_witness:
  "used_size (Deallocate 0 (Memory_new 0 8192 0)) = - 8192
   \<and> \<not> mem_inv (Deallocate 0 (Memory_new 0 8192 0))"
proof -
  have inv: "mem_inv (Memory_new 0 8192 0)" by (rule Memory_new_inv) simp_all
  have n: "map_of (mem_pool (Memory_new 0 8192 0)) 0 = Some (mk_node 0 8192 0)"
    "node_status (mk_node 0 8192 0) = 0" by (simp_all add: Memory_new_def)
  show ?thesis using double_release_breaks_accounting [OF inv n]
    by (simp add: used_size_def Memory_new_def)
qed

end
