(* ===== verification/Memory_Service.thy ===== *)
theory Memory_Service
  imports Npu_Memory_Correct
begin

section \<open>The memory service\<close>

text \<open>
  \<^verbatim>\<open>src/lib/dxrt_service/memory_service.cpp\<close>: the service process owns one allocator per device
  and records, for every block it hands out, the process (\<open>_legacyAllocInfo\<close>) or the process
  and task (\<open>_taskAllocInfo\<close>) that asked for it, so that it can release the blocks of a task or
  of a process that dies. A \<^verbatim>\<open>std::set\<close> is its sorted list of elements, a \<^verbatim>\<open>std::map\<close> an ordered
  map of the prelude. Every operation takes the lock of the service, so the model has one
  function per operation. Log output is left out.

  The lemmas show that the records and the allocator agree in every reachable state (each
  live block has exactly one owner), so that no operation of the service releases a block
  twice or leaks one, and that an operation on behalf of a process never touches a block of
  another.
\<close>

type_synonym pid = int
type_synonym task_map = "(int, u64 list) omap"

record MemoryService =
  ms_mem :: Memory
  legacyAllocInfo :: "(pid, u64 list) omap"
  taskAllocInfo :: "(pid, task_map) omap"
  ms_deviceId :: int

subsection \<open>Operations\<close>

definition MemoryService_new :: "u64 \<Rightarrow> u64 \<Rightarrow> MemoryService" where
  "MemoryService_new start msize =
     \<lparr>ms_mem = Memory_new start msize 0, legacyAllocInfo = [], taskAllocInfo = [], ms_deviceId = 0\<rparr>"

text \<open>
  \<open>getInstance\<close>: the device list is what \<open>ServiceDevice::CheckServiceDevices\<close> returns, each
  device as (id, mem_addr, mem_size). The result is the index of the instance (None is
  \<^verbatim>\<open>nullptr\<close>) and the instances; an assertion failure is \<open>Inl\<close>.
\<close>

datatype service_error = DeviceMemorySizeError int u64

type_synonym device_info = "int \<times> u64 \<times> u64"

fun create_instances :: "device_info list \<Rightarrow> MemoryService list \<Rightarrow> service_error + MemoryService list" where
  "create_instances [] insts = Inr insts"
| "create_instances ((did, maddr, msize) # ds) insts =
     (if msize < 1024 * 1024 then Inl (DeviceMemorySizeError did msize)
      else create_instances ds (insts @ [(MemoryService_new maddr msize)\<lparr>ms_deviceId := did\<rparr>]))"

definition MemoryService_getInstance ::
  "device_info list \<Rightarrow> MemoryService list \<Rightarrow> int \<Rightarrow> service_error + (nat option \<times> MemoryService list)" where
  "MemoryService_getInstance device_list insts deviceId =
     (case (if insts = [] then create_instances device_list [] else Inr insts) of
        Inl e \<Rightarrow> Inl e
      | Inr insts' \<Rightarrow>
          Inr (if deviceId < 0 \<or> length insts' \<le> nat deviceId then None else Some (nat deviceId), insts'))"

definition track_legacy :: "pid \<Rightarrow> u64 \<Rightarrow> MemoryService \<Rightarrow> MemoryService" where
  "track_legacy p addr s =
     s\<lparr>legacyAllocInfo := m_put p (insort_insert addr (list_at (legacyAllocInfo s) p)) (legacyAllocInfo s)\<rparr>"

definition track_task :: "pid \<Rightarrow> int \<Rightarrow> u64 \<Rightarrow> MemoryService \<Rightarrow> MemoryService" where
  "track_task p t addr s =
     (let tm = list_at (taskAllocInfo s) p
      in s\<lparr>taskAllocInfo := m_put p (m_put t (insort_insert addr (list_at tm t)) tm) (taskAllocInfo s)\<rparr>)"

definition precheck_fails :: "u64 \<Rightarrow> MemoryService \<Rightarrow> bool" where
  "precheck_fails sz s \<longleftrightarrow>
     LARGE_ALLOCATION_THRESHOLD < sz \<and> \<not> CanAllocateContiguous sz (ms_mem s)"

definition MemoryService_Allocate :: "u64 \<Rightarrow> pid \<Rightarrow> MemoryService \<Rightarrow> u64 \<times> MemoryService" where
  "MemoryService_Allocate sz p s =
     (if precheck_fails sz s then (-1, s)
      else case Allocate sz (ms_mem s) of (addr, mem') \<Rightarrow>
        let s' = s\<lparr>ms_mem := mem'\<rparr>
        in (addr, if addr \<noteq> -1 then track_legacy p addr s' else s'))"

definition MemoryService_BackwardAllocate :: "u64 \<Rightarrow> pid \<Rightarrow> MemoryService \<Rightarrow> u64 \<times> MemoryService" where
  "MemoryService_BackwardAllocate sz p s =
     (if precheck_fails sz s then (-1, s)
      else case BackwardAllocate sz (ms_mem s) of (addr, mem') \<Rightarrow>
        let s' = s\<lparr>ms_mem := mem'\<rparr>
        in (addr, if addr \<noteq> -1 then track_legacy p addr s' else s'))"

definition AllocateForTask :: "u64 \<Rightarrow> pid \<Rightarrow> int \<Rightarrow> MemoryService \<Rightarrow> u64 \<times> MemoryService" where
  "AllocateForTask sz p t s =
     (if precheck_fails sz s then (-1, s)
      else case Allocate sz (ms_mem s) of (addr, mem') \<Rightarrow>
        let s' = s\<lparr>ms_mem := mem'\<rparr>
        in (addr, if addr \<noteq> -1 then track_task p t addr s' else s'))"

definition BackwardAllocateForTask :: "u64 \<Rightarrow> pid \<Rightarrow> int \<Rightarrow> MemoryService \<Rightarrow> u64 \<times> MemoryService" where
  "BackwardAllocateForTask sz p t s =
     (if precheck_fails sz s then (-1, s)
      else case BackwardAllocate sz (ms_mem s) of (addr, mem') \<Rightarrow>
        let s' = s\<lparr>ms_mem := mem'\<rparr>
        in (addr, if addr \<noteq> -1 then track_task p t addr s' else s'))"

text \<open>The loop of \<open>DeallocateAddress\<close> over the tasks of a process: the first task whose set holds the address.\<close>

fun find_task :: "u64 \<Rightarrow> task_map \<Rightarrow> int option" where
  "find_task addr [] = None"
| "find_task addr ((t, addrSet) # tm) = (if addr \<in> set addrSet then Some t else find_task addr tm)"

text \<open>Write a task map back, dropping the entry of a process without tasks.\<close>

definition put_tasks :: "pid \<Rightarrow> task_map \<Rightarrow> MemoryService \<Rightarrow> MemoryService" where
  "put_tasks p tm s =
     s\<lparr>taskAllocInfo := (if tm = [] then m_erase p (taskAllocInfo s) else m_put p tm (taskAllocInfo s))\<rparr>"

definition DeallocateAddress :: "u64 \<Rightarrow> pid \<Rightarrow> MemoryService \<Rightarrow> bool \<times> MemoryService" where
  "DeallocateAddress addr p s =
     (if addr \<in> set (list_at (legacyAllocInfo s) p) then
        (True, s\<lparr>legacyAllocInfo := m_put p (remove1 addr (list_at (legacyAllocInfo s) p)) (legacyAllocInfo s),
                 ms_mem := Deallocate addr (ms_mem s)\<rparr>)
      else case map_of (taskAllocInfo s) p of
        None \<Rightarrow> (False, s)
      | Some tm \<Rightarrow>
          (case find_task addr tm of
             None \<Rightarrow> (False, s)
           | Some t \<Rightarrow>
               let addrSet = remove1 addr (list_at tm t);
                   tm' = (if addrSet = [] then m_erase t tm else m_put t addrSet tm)
               in (True, put_tasks p tm' (s\<lparr>ms_mem := Deallocate addr (ms_mem s)\<rparr>))))"

definition MemoryService_Deallocate :: "u64 \<Rightarrow> pid \<Rightarrow> MemoryService \<Rightarrow> bool \<times> MemoryService" where
  "MemoryService_Deallocate addr p s = DeallocateAddress addr p s"

text \<open>
  The two halves of the process clean-up: the blocks of all tasks in map order, then the
  legacy blocks. \<open>DeallocateAll\<close> and \<open>DeallocateAllForProcess\<close> run both, the second also
  reports whether the process had an entry.
\<close>

definition release_tasks :: "pid \<Rightarrow> MemoryService \<Rightarrow> bool \<times> MemoryService" where
  "release_tasks p s =
     (case map_of (taskAllocInfo s) p of
        None \<Rightarrow> (False, s)
      | Some tm \<Rightarrow> (True, s\<lparr>ms_mem := fold Deallocate (concat (map snd tm)) (ms_mem s),
                            taskAllocInfo := m_erase p (taskAllocInfo s)\<rparr>))"

definition release_legacy :: "pid \<Rightarrow> MemoryService \<Rightarrow> bool \<times> MemoryService" where
  "release_legacy p s =
     (case map_of (legacyAllocInfo s) p of
        None \<Rightarrow> (False, s)
      | Some as \<Rightarrow> (True, s\<lparr>ms_mem := fold Deallocate as (ms_mem s),
                            legacyAllocInfo := m_erase p (legacyAllocInfo s)\<rparr>))"

definition DeallocateAll :: "pid \<Rightarrow> MemoryService \<Rightarrow> MemoryService" where
  "DeallocateAll p s = snd (release_legacy p (snd (release_tasks p s)))"

definition DeallocateAllForProcess :: "pid \<Rightarrow> MemoryService \<Rightarrow> bool \<times> MemoryService" where
  "DeallocateAllForProcess p s =
     (let (taskMemoryFound, s1) = release_tasks p s;
          (legacyMemoryFound, s2) = release_legacy p s1
      in (taskMemoryFound \<or> legacyMemoryFound, s2))"

definition DeallocateAllTasks :: "pid \<Rightarrow> MemoryService \<Rightarrow> MemoryService" where
  "DeallocateAllTasks p s = snd (release_tasks p s)"

definition DeallocateAllDevice :: "pid \<Rightarrow> MemoryService list \<Rightarrow> MemoryService list" where
  "DeallocateAllDevice p insts = map (DeallocateAll p) insts"

definition MemoryService_free_size :: "MemoryService \<Rightarrow> u64" where
  "MemoryService_free_size s = free_size (ms_mem s)"

definition MemoryService_used_size :: "MemoryService \<Rightarrow> u64" where
  "MemoryService_used_size s = used_size (ms_mem s)"

definition DeallocateTask :: "pid \<Rightarrow> int \<Rightarrow> MemoryService \<Rightarrow> bool \<times> MemoryService" where
  "DeallocateTask p t s =
     (case map_of (taskAllocInfo s) p of
        None \<Rightarrow> (False, s)
      | Some tm \<Rightarrow>
          (case map_of tm t of
             None \<Rightarrow> (False, s)
           | Some addrs \<Rightarrow>
               if addrs = [] then (True, put_tasks p (m_erase t tm) s)
               else (True, put_tasks p (m_erase t tm)
                      (s\<lparr>ms_mem := fold (\<lambda>a m. if a \<noteq> -1 then Deallocate a m else m) addrs (ms_mem s)\<rparr>))))"

definition IsTaskValid :: "pid \<Rightarrow> int \<Rightarrow> MemoryService \<Rightarrow> bool" where
  "IsTaskValid p t s =
     (case map_of (taskAllocInfo s) p of
        None \<Rightarrow> False
      | Some tm \<Rightarrow> True)"

definition OptimizeMemory :: "MemoryService \<Rightarrow> MemoryService" where
  "OptimizeMemory s =
     (if LOW_FRAGMENTATION_THRESHOLD < fragmentation_ratio (GetFragmentationInfo (ms_mem s))
      then s\<lparr>ms_mem := CompactMemory (ms_mem s)\<rparr> else s)"

subsection \<open>Ownership\<close>

text \<open>
  A slot is one set of addresses the service keeps: the legacy set of a process, or the set
  of one task of a process. The abstract state of the service is the relation between slots
  and addresses.
\<close>

datatype slot = Legacy pid | Task pid int

fun slot_pid :: "slot \<Rightarrow> pid" where
  "slot_pid (Legacy p) = p"
| "slot_pid (Task p t) = p"

fun slot_addrs :: "MemoryService \<Rightarrow> slot \<Rightarrow> u64 list" where
  "slot_addrs s (Legacy p) = list_at (legacyAllocInfo s) p"
| "slot_addrs s (Task p t) = list_at (list_at (taskAllocInfo s) p) t"

declare slot_addrs.simps [simp del]

lemmas slot_unfold = slot_addrs.simps

definition owned :: "MemoryService \<Rightarrow> (slot \<times> u64) set" where
  "owned s = {(sl, a). a \<in> set (slot_addrs s sl)}"

definition slots_ok :: "MemoryService \<Rightarrow> bool" where
  "slots_ok s \<longleftrightarrow> m_ok (legacyAllocInfo s) \<and> m_ok (taskAllocInfo s)
     \<and> (\<forall>p. m_ok (list_at (taskAllocInfo s) p))
     \<and> (\<forall>sl. sorted (slot_addrs s sl) \<and> distinct (slot_addrs s sl))
     \<and> inj_on snd (owned s)"

definition ms_inv :: "MemoryService \<Rightarrow> bool" where
  "ms_inv s \<longleftrightarrow> slots_ok s \<and> snd ` owned s = dom (live (ms_mem s))
     \<and> mem_inv (ms_mem s) \<and> unat (mem_size (ms_mem s)) + 4095 < 2 ^ 64"

lemma slot_addrs_mem [simp]: "slot_addrs (s\<lparr>ms_mem := m\<rparr>) sl = slot_addrs s sl"
  by (cases sl) (auto simp: slot_unfold)

lemma owned_mem [simp]: "owned (s\<lparr>ms_mem := m\<rparr>) = owned s"
  by (simp add: owned_def)

lemma slots_ok_mem [simp]: "slots_ok (s\<lparr>ms_mem := m\<rparr>) = slots_ok s"
  by (simp add: slots_ok_def)

text \<open>The effect of the three ways the records change: a new address, one address less, one slot or process less.\<close>

lemma slot_addrs_track [simp]:
  "slot_addrs (track_legacy p a s) sl
     = (if sl = Legacy p then insort_insert a (slot_addrs s sl) else slot_addrs s sl)"
  "slot_addrs (track_task p t a s) sl
     = (if sl = Task p t then insort_insert a (slot_addrs s sl) else slot_addrs s sl)"
  by (cases sl; simp add: slot_unfold track_legacy_def track_task_def Let_def)+

lemma owned_track:
  "owned (track_legacy p a s) = insert (Legacy p, a) (owned s)"
  "owned (track_task p t a s) = insert (Task p t, a) (owned s)"
  by (auto simp: owned_def set_insort_insert split: if_splits)

lemma inj_on_insert_fresh:
  "inj_on snd r \<Longrightarrow> a \<notin> snd ` r \<Longrightarrow> inj_on snd (insert (sl, a) r)"
  by (auto simp: inj_on_def)

lemma slots_ok_track:
  assumes "slots_ok s" "a \<notin> snd ` owned s"
  shows "slots_ok (track_legacy p a s)" "slots_ok (track_task p t a s)"
proof -
  have *: "\<forall>sl. sorted (slot_addrs (track_legacy p a s) sl) \<and> distinct (slot_addrs (track_legacy p a s) sl)"
    "\<forall>sl. sorted (slot_addrs (track_task p t a s) sl) \<and> distinct (slot_addrs (track_task p t a s) sl)"
    using assms(1) by (auto simp: slots_ok_def sorted_insort_insert distinct_insort_insert)
  show "slots_ok (track_legacy p a s)"
    using assms * by (auto simp: slots_ok_def owned_track inj_on_insert_fresh) (auto simp: track_legacy_def)
  show "slots_ok (track_task p t a s)"
    using assms * by (auto simp: slots_ok_def owned_track inj_on_insert_fresh) (auto simp: track_task_def Let_def)
qed

lemma track_mem [simp]: "ms_mem (track_legacy p a s) = ms_mem s" "ms_mem (track_task p t a s) = ms_mem s"
  by (simp_all add: track_legacy_def track_task_def Let_def)

text \<open>An operation that only shrinks slots keeps the records well formed.\<close>

lemma slots_ok_sub:
  assumes "slots_ok s" "owned s' \<subseteq> owned s"
    and "m_ok (legacyAllocInfo s')" "m_ok (taskAllocInfo s')" "\<And>p. m_ok (list_at (taskAllocInfo s') p)"
    and "\<And>sl. sorted (slot_addrs s' sl) \<and> distinct (slot_addrs s' sl)"
  shows "slots_ok s'"
  using assms by (auto simp: slots_ok_def intro: inj_on_subset)

lemma slots_okD:
  assumes "slots_ok s"
  shows "m_ok (legacyAllocInfo s)" "m_ok (taskAllocInfo s)" "m_ok (list_at (taskAllocInfo s) p)"
    "sorted (slot_addrs s sl)" "distinct (slot_addrs s sl)"
    "a \<in> set (slot_addrs s sl) \<Longrightarrow> a \<in> set (slot_addrs s sl') \<Longrightarrow> sl' = sl"
  using assms by (auto simp: slots_ok_def owned_def inj_on_def)

lemma slot_addrs_put_tasks:
  "slot_addrs (put_tasks p tm s) sl = (case sl of Task q t \<Rightarrow> if q = p then list_at tm t else slot_addrs s sl | _ \<Rightarrow> slot_addrs s sl)"
  by (cases sl) (auto simp: slot_unfold put_tasks_def)

lemma put_tasks_sel [simp]:
  "ms_mem (put_tasks p tm s) = ms_mem s" "legacyAllocInfo (put_tasks p tm s) = legacyAllocInfo s"
  "list_at (taskAllocInfo (put_tasks p tm s)) q = (if q = p then tm else list_at (taskAllocInfo s) q)"
  "m_ok (taskAllocInfo s) \<Longrightarrow> m_ok (taskAllocInfo (put_tasks p tm s))"
  by (auto simp: put_tasks_def)

text \<open>The addresses of all tasks of a process, as the clean-up collects them.\<close>

lemma set_concat_tasks: "m_ok tm \<Longrightarrow> set (concat (map snd tm)) = (\<Union>t. set (list_at tm t))"
proof (induction tm)
  case (Cons q tm)
  obtain k v where q: "q = (k, v)" by (cases q)
  have "k \<notin> fst ` set tm" using Cons.prems q by (auto simp: m_ok_Cons)
  then have "list_at tm k = []" by (rule list_at_absent)
  then have "(\<Union>t. set (list_at (q # tm) t)) = set v \<union> (\<Union>t. set (list_at tm t))"
    by (fastforce simp: q list_at_Cons split: if_splits)
  with Cons q show ?case by (auto simp: m_ok_Cons)
qed simp

lemma distinct_concat_tasks:
  "m_ok tm \<Longrightarrow> (\<And>t. distinct (list_at tm t)) \<Longrightarrow>
   (\<And>t t' a. a \<in> set (list_at tm t) \<Longrightarrow> a \<in> set (list_at tm t') \<Longrightarrow> t = t') \<Longrightarrow> distinct (concat (map snd tm))"
proof (induction tm)
  case (Cons q tm)
  obtain k v where q: "q = (k, v)" by (cases q)
  have ok: "m_ok tm" and k: "k \<notin> fst ` set tm" using Cons.prems(1) q by (auto simp: m_ok_Cons)
  have at: "list_at (q # tm) k = v" "\<And>t. t \<noteq> k \<Longrightarrow> list_at (q # tm) t = list_at tm t" "list_at tm k = []"
    using list_at_absent [OF k] by (auto simp: q list_at_Cons)
  have sub: "list_at tm t = list_at (q # tm) t \<or> list_at tm t = []" for t
    using at by (cases "t = k") auto
  have d: "distinct (concat (map snd tm))"
  proof (rule Cons.IH [OF ok])
    show "distinct (list_at tm t)" for t using sub [of t] Cons.prems(2) [of t] by auto
    show "a \<in> set (list_at tm t) \<Longrightarrow> a \<in> set (list_at tm t') \<Longrightarrow> t = t'" for a t t'
      using sub [of t] sub [of t'] Cons.prems(3) [of a t t'] by auto
  qed
  have "set v \<inter> set (list_at tm t) = {}" for t
    using at Cons.prems(3) [of _ k t] by (cases "t = k") auto
  then have "set v \<inter> set (concat (map snd tm)) = {}" unfolding set_concat_tasks [OF ok] by blast
  with d Cons.prems(2) [of k] at(1) q show ?case by simp
qed simp

subsection \<open>Allocation and release keep the invariant\<close>

lemma Deallocate_mem_size [simp]: "mem_size (Deallocate a m) = mem_size m"
  by (simp add: Deallocate_def split: option.splits)

lemma fold_Deallocate_mem_size [simp]: "mem_size (fold Deallocate as m) = mem_size m"
  by (induction as arbitrary: m) auto

text \<open>
  A request that passes the pre-check never makes \<open>AlignSize\<close> wrap: it is at most 100 MB, or
  there is a free block at least that large.
\<close>

lemma precheck_pre:
  assumes "ms_inv s" "\<not> precheck_fails sz s"
  shows "alloc_pre sz"
proof (cases "LARGE_ALLOCATION_THRESHOLD < sz")
  case False
  then have "unat sz \<le> 104857600" by (simp add: LARGE_ALLOCATION_THRESHOLD_def word_le_nat_alt not_less)
  then show ?thesis by (simp add: alloc_pre_def)
next
  case True
  with assms(2) obtain k n where n: "(k, n) \<in> set (mem_pool (ms_mem s))" "sz \<le> node_size n"
    by (auto simp: precheck_fails_def CanAllocateContiguous_def list_ex_iff)
  have "tiles 0 (mem_pool (ms_mem s)) (unat (mem_size (ms_mem s)))"
    using assms(1) by (simp add: ms_inv_def mem_inv_def)
  from tiles_bounds [OF this n(1)] have "unat (node_size n) \<le> unat (mem_size (ms_mem s))" by auto
  with n(2) assms(1) show ?thesis by (simp add: alloc_pre_def ms_inv_def word_le_nat_alt)
qed

lemma tracked_inv:
  assumes "ms_inv s" "mem_inv m'" "live (ms_mem s) a = None" "live m' = (live (ms_mem s))(a \<mapsto> x)"
    and "mem_size m' = mem_size (ms_mem s)"
  shows "ms_inv (track_legacy p a (s\<lparr>ms_mem := m'\<rparr>))" "ms_inv (track_task p t a (s\<lparr>ms_mem := m'\<rparr>))"
proof -
  have "a \<notin> snd ` owned s" using assms(1,3) by (auto simp: ms_inv_def)
  then show "ms_inv (track_legacy p a (s\<lparr>ms_mem := m'\<rparr>))" "ms_inv (track_task p t a (s\<lparr>ms_mem := m'\<rparr>))"
    using assms slots_ok_track [of "s\<lparr>ms_mem := m'\<rparr>" a] by (auto simp: ms_inv_def owned_track)
qed

lemma released_inv:
  assumes "ms_inv s" "slots_ok s'" "distinct as" "set as \<subseteq> snd ` owned s"
    and "owned s' = {q \<in> owned s. snd q \<notin> set as}" "ms_mem s' = fold Deallocate as (ms_mem s)"
  shows "ms_inv s' \<and> live (ms_mem s') = live (ms_mem s) |` (- set as)"
proof -
  have "mem_inv (ms_mem s)" "set as \<subseteq> dom (live (ms_mem s))" using assms(1,4) by (auto simp: ms_inv_def)
  from npu.release_list [OF this(1) assms(3) this(2)]
  have r: "mem_inv (ms_mem s')" "live (ms_mem s') = live (ms_mem s) |` (- set as)"
    by (simp_all add: assms(6))
  moreover have "snd ` owned s' = snd ` owned s - set as" using assms(5) by auto
  ultimately show ?thesis using assms(1,2,6) by (auto simp: ms_inv_def)
qed

text \<open>Every allocation of the service, in one lemma over the four entry points.\<close>

lemma service_alloc_cases:
  assumes "ms_inv s" "\<not> precheck_fails sz s" "Allocate sz (ms_mem s) = (a, m')"
  shows "a = -1 \<Longrightarrow> m' = ms_mem s"
    "a \<noteq> -1 \<Longrightarrow> mem_inv m' \<and> live (ms_mem s) a = None \<and> mem_size m' = mem_size (ms_mem s)
      \<and> live m' = (live (ms_mem s))(a \<mapsto> request_size sz)"
proof -
  have m: "mem_inv (ms_mem s)" "alloc_pre sz" using assms(1) precheck_pre [OF assms(1,2)] by (auto simp: ms_inv_def)
  show "a = -1 \<Longrightarrow> m' = ms_mem s" using npu.alloc_fail [OF m] assms(3) by simp
  have "mem_size m' = mem_size (ms_mem s)" using Allocate_size [of sz "ms_mem s"] assms(3) by simp
  then show "a \<noteq> -1 \<Longrightarrow> mem_inv m' \<and> live (ms_mem s) a = None \<and> mem_size m' = mem_size (ms_mem s)
      \<and> live m' = (live (ms_mem s))(a \<mapsto> request_size sz)"
    using Allocate_success(1-3) [OF m(1) alloc_pre_pos [OF m(2)] assms(3)] by auto
qed

lemma service_balloc_cases:
  assumes "ms_inv s" "sz \<noteq> 0" "\<not> precheck_fails sz s" "BackwardAllocate sz (ms_mem s) = (a, m')"
  shows "a = -1 \<Longrightarrow> m' = ms_mem s"
    "a \<noteq> -1 \<Longrightarrow> mem_inv m' \<and> live (ms_mem s) a = None \<and> mem_size m' = mem_size (ms_mem s)
      \<and> live m' = (live (ms_mem s))(a \<mapsto> AlignSize sz)"
proof -
  have m: "mem_inv (ms_mem s)" "balloc_pre sz" using assms(1,2) precheck_pre [OF assms(1,3)]
    by (auto simp: ms_inv_def alloc_pre_def balloc_pre_def)
  show "a = -1 \<Longrightarrow> m' = ms_mem s" using npu.balloc_fail [OF m] assms(4) by simp
  have "mem_size m' = mem_size (ms_mem s)" using Backward_size [of sz "ms_mem s"] assms(4) by simp
  then show "a \<noteq> -1 \<Longrightarrow> mem_inv m' \<and> live (ms_mem s) a = None \<and> mem_size m' = mem_size (ms_mem s)
      \<and> live m' = (live (ms_mem s))(a \<mapsto> AlignSize sz)"
    using Backward_success(1-3) [OF m(1) balloc_pre_pos [OF m(2)] assms(4)] by auto
qed

text \<open>What an allocation promises, as a relation between the state before, the result and the state after.\<close>

definition alloc_outcome :: "slot \<Rightarrow> u64 \<Rightarrow> MemoryService \<Rightarrow> u64 \<Rightarrow> MemoryService \<Rightarrow> bool" where
  "alloc_outcome sl n s a s' \<longleftrightarrow> ms_inv s' \<and>
     (if a = -1 then s' = s
      else live (ms_mem s) a = None \<and> live (ms_mem s') = (live (ms_mem s))(a \<mapsto> n)
         \<and> owned s' = insert (sl, a) (owned s))"

lemma service_alloc_outcome:
  assumes "ms_inv s"
  shows "alloc_outcome (Legacy p) (request_size sz) s (fst (MemoryService_Allocate sz p s)) (snd (MemoryService_Allocate sz p s))"
    "alloc_outcome (Task p t) (request_size sz) s (fst (AllocateForTask sz p t s)) (snd (AllocateForTask sz p t s))"
proof -
  obtain a m' where A: "Allocate sz (ms_mem s) = (a, m')" by (cases "Allocate sz (ms_mem s)")
  note c = service_alloc_cases [OF assms _ A] and t = tracked_inv [OF assms, of m' a "request_size sz"]
  show "alloc_outcome (Legacy p) (request_size sz) s (fst (MemoryService_Allocate sz p s)) (snd (MemoryService_Allocate sz p s))"
    using c t assms by (auto simp: alloc_outcome_def MemoryService_Allocate_def A owned_track Let_def)
  show "alloc_outcome (Task p t) (request_size sz) s (fst (AllocateForTask sz p t s)) (snd (AllocateForTask sz p t s))"
    using c t assms by (auto simp: alloc_outcome_def AllocateForTask_def A owned_track Let_def)
qed

lemma service_balloc_outcome:
  assumes "ms_inv s" "sz \<noteq> 0"
  shows "alloc_outcome (Legacy p) (AlignSize sz) s (fst (MemoryService_BackwardAllocate sz p s)) (snd (MemoryService_BackwardAllocate sz p s))"
    "alloc_outcome (Task p t) (AlignSize sz) s (fst (BackwardAllocateForTask sz p t s)) (snd (BackwardAllocateForTask sz p t s))"
proof -
  obtain a m' where A: "BackwardAllocate sz (ms_mem s) = (a, m')" by (cases "BackwardAllocate sz (ms_mem s)")
  note c = service_balloc_cases [OF assms _ A] and t = tracked_inv [OF assms(1), of m' a "AlignSize sz"]
  show "alloc_outcome (Legacy p) (AlignSize sz) s (fst (MemoryService_BackwardAllocate sz p s)) (snd (MemoryService_BackwardAllocate sz p s))"
    using c t assms by (auto simp: alloc_outcome_def MemoryService_BackwardAllocate_def A owned_track Let_def)
  show "alloc_outcome (Task p t) (AlignSize sz) s (fst (BackwardAllocateForTask sz p t s)) (snd (BackwardAllocateForTask sz p t s))"
    using c t assms by (auto simp: alloc_outcome_def BackwardAllocateForTask_def A owned_track Let_def)
qed

text \<open>Releases: the loop of \<open>DeallocateAddress\<close> finds the one task that holds the address.\<close>

lemma find_task_Some: "m_ok tm \<Longrightarrow> find_task a tm = Some t \<Longrightarrow> a \<in> set (list_at tm t)"
proof (induction tm)
  case (Cons q tm)
  obtain k v where q: "q = (k, v)" by (cases q)
  have k: "list_at tm k = []" "m_ok tm"
    using Cons.prems(1) list_at_absent [of k tm] by (force simp: q m_ok_Cons)+
  from Cons.prems(2) Cons.IH [OF k(2)] k(1) show ?case
    by (auto simp: q list_at_Cons split: if_splits)
qed simp

lemma find_task_None: "find_task a tm = None \<Longrightarrow> a \<notin> set (list_at tm t)"
  by (induction a tm rule: find_task.induct) (auto simp: list_at_Cons split: if_splits)

lemma live_not_minus1: "mem_inv m \<Longrightarrow> live m (-1) = None"
proof (rule ccontr)
  assume m: "mem_inv m" and "live m (-1) \<noteq> None"
  then obtain xs n ys where p: "mem_pool m = xs @ (-1, n) # ys"
    using live_Some_split by blast
  have "tiles 0 (xs @ (-1, n) # ys) (unat (mem_size m))" using m p by (simp add: mem_inv_def)
  from tiles_at(3,5) [OF this] have "unat (-1 :: u64) < unat (mem_size m)" by linarith
  then show False by (simp add: not_less [symmetric, THEN iffD2] word_less_nat_alt [symmetric])
qed

lemma slot_of_absent: "map_of (taskAllocInfo s) p = None \<Longrightarrow> slot_addrs s (Task p t) = []"
  "map_of (taskAllocInfo s) p = Some tm \<Longrightarrow> slot_addrs s (Task p t) = list_at tm t"
  "map_of (legacyAllocInfo s) p = None \<Longrightarrow> slot_addrs s (Legacy p) = []"
  "map_of (legacyAllocInfo s) p = Some as \<Longrightarrow> slot_addrs s (Legacy p) = as"
  "map_of (taskAllocInfo s) p = Some tm \<Longrightarrow> list_at (taskAllocInfo s) p = tm"
  by (simp_all add: slot_unfold list_at_def)

lemma owned_only:
  "slots_ok s \<Longrightarrow> (sl, a) \<in> owned s \<Longrightarrow> {q \<in> owned s. snd q \<notin> {a}} = owned s - {(sl, a)}"
  unfolding slots_ok_def inj_on_def by (fastforce dest: bspec)

lemma sorted_distinct_remove1: "sorted xs \<and> distinct xs \<Longrightarrow> sorted (remove1 a xs) \<and> distinct (remove1 a xs)"
  by (simp add: sorted_remove1)

lemma shrink_slot:
  assumes "ms_inv s" "(sl, a) \<in> owned s" "slots_ok s'"
    and "\<And>k. slot_addrs s' k = (if k = sl then remove1 a (slot_addrs s sl) else slot_addrs s k)"
    and "ms_mem s' = Deallocate a (ms_mem s)"
  shows "ms_inv s' \<and> live (ms_mem s') = (live (ms_mem s))(a := None) \<and> owned s' = owned s - {(sl, a)}"
proof -
  have ok: "slots_ok s" using assms(1) by (simp add: ms_inv_def)
  have "owned s' = owned s - {(sl, a)}"
    using assms(2) slots_okD(5) [OF ok, of sl] by (auto simp: owned_def assms(4) split: if_splits)
  moreover then have "ms_inv s' \<and> live (ms_mem s') = live (ms_mem s) |` (- set [a])"
    using assms owned_only [OF ok assms(2)] by (intro released_inv) force+
  moreover have "live (ms_mem s) |` (- set [a]) = (live (ms_mem s))(a := None)"
    by (auto simp: restrict_map_def)
  ultimately show ?thesis by simp
qed

lemma DeallocateAddress_owned:
  assumes "ms_inv s" "(sl, a) \<in> owned s" "slot_pid sl = p"
  shows "fst (DeallocateAddress a p s) \<and> ms_inv (snd (DeallocateAddress a p s))
    \<and> live (ms_mem (snd (DeallocateAddress a p s))) = (live (ms_mem s))(a := None)
    \<and> owned (snd (DeallocateAddress a p s)) = owned s - {(sl, a)}"
proof -
  have ok: "slots_ok s" using assms(1) by (simp add: ms_inv_def)
  note d = slots_okD [OF ok]
  have mem: "a \<in> set (slot_addrs s sl)" using assms(2) by (simp add: owned_def)
  show ?thesis
  proof (cases sl)
    case (Legacy q)
    with assms(3) have sl: "sl = Legacy p" by simp
    define s' where "s' = s\<lparr>legacyAllocInfo := m_put p (remove1 a (list_at (legacyAllocInfo s) p)) (legacyAllocInfo s),
        ms_mem := Deallocate a (ms_mem s)\<rparr>"
    have at: "slot_addrs s' k = (if k = sl then remove1 a (slot_addrs s sl) else slot_addrs s k)" for k
      by (cases k) (auto simp: slot_unfold s'_def sl)
    have own: "owned s' \<subseteq> owned s"
      using set_remove1_subset by (fastforce simp: owned_def at split: if_splits)
    have "slots_ok s'"
      by (rule slots_ok_sub [OF ok own]) (use d in \<open>auto simp: at sorted_remove1\<close>, auto simp: s'_def d)
    from shrink_slot [OF assms(1,2) this at] have "ms_inv s' \<and> live (ms_mem s') = (live (ms_mem s))(a := None)
        \<and> owned s' = owned s - {(sl, a)}" by (simp add: s'_def)
    moreover have "DeallocateAddress a p s = (True, s')"
      using mem by (simp add: DeallocateAddress_def s'_def sl slot_unfold)
    ultimately show ?thesis by simp
  next
    case (Task q t)
    with assms(3) have sl: "sl = Task p t" by simp
    define tm where "tm = list_at (taskAllocInfo s) p"
    have at_t: "a \<in> set (list_at tm t)" using mem by (simp add: sl slot_unfold tm_def)
    have tm: "map_of (taskAllocInfo s) p = Some tm"
      using at_t by (cases "map_of (taskAllocInfo s) p") (auto simp: tm_def list_at_def)
    have "m_ok tm" using d(3) by (simp add: tm_def)
    have leg: "a \<notin> set (list_at (legacyAllocInfo s) p)"
      using d(6) [OF mem, of "Legacy p"] by (auto simp: sl slot_unfold)
    obtain t' where t': "find_task a tm = Some t'" using at_t find_task_None by fastforce
    with find_task_Some [OF \<open>m_ok tm\<close>] have "a \<in> set (slot_addrs s (Task p t'))"
      by (simp add: slot_unfold tm_def)
    with d(6) [OF mem] have [simp]: "t' = t" by (force simp: sl)
    define tm' where "tm' = (if remove1 a (list_at tm t) = [] then m_erase t tm else m_put t (remove1 a (list_at tm t)) tm)"
    define s' where "s' = put_tasks p tm' (s\<lparr>ms_mem := Deallocate a (ms_mem s)\<rparr>)"
    have at: "slot_addrs s' k = (if k = sl then remove1 a (slot_addrs s sl) else slot_addrs s k)" for k
      by (cases k) (auto simp: s'_def slot_addrs_put_tasks tm'_def sl slot_unfold tm_def)
    have own: "owned s' \<subseteq> owned s"
      using set_remove1_subset by (fastforce simp: owned_def at split: if_splits)
    have "m_ok tm'" using \<open>m_ok tm\<close> by (simp add: tm'_def)
    then have "slots_ok s'"
      using d by (intro slots_ok_sub [OF ok own]) (auto simp: at sorted_remove1, auto simp: s'_def d)
    from shrink_slot [OF assms(1,2) this at] have "ms_inv s' \<and> live (ms_mem s') = (live (ms_mem s))(a := None)
        \<and> owned s' = owned s - {(sl, a)}" by (simp add: s'_def)
    moreover have "DeallocateAddress a p s = (True, s')"
      using leg tm t' by (simp add: DeallocateAddress_def s'_def tm'_def Let_def)
    ultimately show ?thesis by simp
  qed
qed

lemma DeallocateAddress_foreign:
  assumes "\<And>sl. slot_pid sl = p \<Longrightarrow> (sl, a) \<notin> owned s" "slots_ok s"
  shows "DeallocateAddress a p s = (False, s)"
proof -
  have "a \<notin> set (slot_addrs s (Legacy p))" "a \<notin> set (slot_addrs s (Task p t))" for t
    using assms(1) [of "Legacy p"] assms(1) [of "Task p t"] by (auto simp: owned_def)
  moreover have "find_task a tm = None" if "map_of (taskAllocInfo s) p = Some tm" for tm
  proof -
    have "m_ok tm" "\<And>t. a \<notin> set (list_at tm t)"
      using calculation(2) slots_okD(3) [OF assms(2), of p] slot_of_absent(2,5) [OF that] by auto
    then show ?thesis using find_task_Some by (cases "find_task a tm") auto
  qed
  ultimately show ?thesis
    by (auto simp: DeallocateAddress_def slot_unfold split: option.splits)
qed

text \<open>Emptying a set of slots and releasing all their blocks.\<close>

definition dropped :: "slot set \<Rightarrow> MemoryService \<Rightarrow> MemoryService \<Rightarrow> bool" where
  "dropped K s s' \<longleftrightarrow> ms_inv s' \<and> owned s' = {q \<in> owned s. fst q \<notin> K}
     \<and> live (ms_mem s') = live (ms_mem s) |` (- snd ` {q \<in> owned s. fst q \<in> K})"

lemma drop_slots:
  assumes "ms_inv s" "slots_ok s'" "\<And>k. slot_addrs s' k = (if k \<in> K then [] else slot_addrs s k)"
    and "distinct as" "set as = snd ` {q \<in> owned s. fst q \<in> K}" "ms_mem s' = fold Deallocate as (ms_mem s)"
  shows "dropped K s s'"
proof -
  have inj: "inj_on snd (owned s)" using assms(1) by (simp add: ms_inv_def slots_ok_def)
  have own: "owned s' = {q \<in> owned s. fst q \<notin> K}" by (auto simp: owned_def assms(3) split: if_splits)
  also have "\<dots> = {q \<in> owned s. snd q \<notin> set as}"
    unfolding assms(5) using inj by (auto simp: inj_on_def)
  finally have own': "owned s' = {q \<in> owned s. snd q \<notin> set as}" .
  have "set as \<subseteq> snd ` owned s" unfolding assms(5) by auto
  from released_inv [OF assms(1,2,4) this own' assms(6)] own show ?thesis
    by (simp add: dropped_def assms(5))
qed

lemma dropped_refl: "ms_inv s \<Longrightarrow> (\<And>k. k \<in> K \<Longrightarrow> slot_addrs s k = []) \<Longrightarrow> dropped K s s"
proof -
  assume a: "ms_inv s" "\<And>k. k \<in> K \<Longrightarrow> slot_addrs s k = []"
  then have "{q \<in> owned s. fst q \<in> K} = {}" "{q \<in> owned s. fst q \<notin> K} = owned s"
    by (auto simp: owned_def)
  then have "dropped K s s \<longleftrightarrow> ms_inv s" unfolding dropped_def by (simp only:) (auto simp: restrict_map_def)
  with a(1) show ?thesis by simp
qed

lemma dropped_trans:
  assumes "dropped K s s'" "dropped L s' s''"
  shows "dropped (K \<union> L) s s''"
proof -
  have own: "owned s' = {q \<in> owned s. fst q \<notin> K}" using assms(1) by (simp add: dropped_def)
  have split: "snd ` {q \<in> owned s. fst q \<in> K \<union> L}
      = snd ` {q \<in> owned s. fst q \<in> K} \<union> snd ` {q \<in> owned s'. fst q \<in> L}"
    unfolding own by auto
  have r: "(f |` A) |` B = f |` (A \<inter> B)" for f :: "u64 \<Rightarrow> u64 option" and A B
    by (auto simp: restrict_map_def)
  have "live (ms_mem s'') = live (ms_mem s') |` (- snd ` {q \<in> owned s'. fst q \<in> L})"
    using assms(2) by (simp add: dropped_def)
  also have "live (ms_mem s') = live (ms_mem s) |` (- snd ` {q \<in> owned s. fst q \<in> K})"
    using assms(1) by (simp add: dropped_def)
  finally have "live (ms_mem s'') = live (ms_mem s) |` (- snd ` {q \<in> owned s. fst q \<in> K \<union> L})"
    unfolding split Compl_Un r .
  moreover have "owned s'' = {q \<in> owned s. fst q \<notin> K \<union> L}" using assms(2) own by (auto simp: dropped_def)
  ultimately show ?thesis using assms(2) by (simp add: dropped_def)
qed

lemma release_tasks_dropped:
  assumes "ms_inv s"
  shows "dropped (range (Task p)) s (snd (release_tasks p s))"
    "fst (release_tasks p s) \<longleftrightarrow> map_of (taskAllocInfo s) p \<noteq> None"
    "legacyAllocInfo (snd (release_tasks p s)) = legacyAllocInfo s"
proof -
  show "dropped (range (Task p)) s (snd (release_tasks p s))"
  proof (cases "map_of (taskAllocInfo s) p")
    case None
    with assms show ?thesis
      by (auto simp: release_tasks_def slot_of_absent intro!: dropped_refl)
  next
    case (Some tm)
    have ok: "slots_ok s" using assms by (simp add: ms_inv_def)
    note d = slots_okD [OF ok] and tm = slot_of_absent(2,5) [OF Some]
    have mtm: "m_ok tm" using d(3) [of p] tm(2) by simp
    let ?as = "concat (map snd tm)"
    let ?s = "s\<lparr>ms_mem := fold Deallocate ?as (ms_mem s), taskAllocInfo := m_erase p (taskAllocInfo s)\<rparr>"
    have at: "slot_addrs ?s k = (if k \<in> range (Task p) then [] else slot_addrs s k)" for k
      by (cases k) (auto simp: slot_unfold)
    have "distinct ?as"
    proof (rule distinct_concat_tasks [OF mtm])
      show "distinct (list_at tm t)" for t using d(5) tm(1) by metis
      show "a \<in> set (list_at tm t) \<Longrightarrow> a \<in> set (list_at tm t') \<Longrightarrow> t = t'" for a t t'
        using d(6) [of a "Task p t" "Task p t'"] tm(1) by auto
    qed
    moreover have "set ?as = snd ` {q \<in> owned s. fst q \<in> range (Task p)}"
      unfolding set_concat_tasks [OF mtm] by (force simp: owned_def tm(1) image_iff)
    moreover have "owned ?s \<subseteq> owned s" unfolding owned_def at by (auto split: if_splits)
    then have "slots_ok ?s" using d by (rule_tac slots_ok_sub [OF ok]) (auto simp: at)
    ultimately have "dropped (range (Task p)) s ?s" using at by (intro drop_slots [OF assms]) auto
    then show ?thesis by (simp add: release_tasks_def Some)
  qed
qed (auto simp: release_tasks_def split: option.splits)

lemma release_legacy_dropped:
  assumes "ms_inv s"
  shows "dropped {Legacy p} s (snd (release_legacy p s))"
    "fst (release_legacy p s) \<longleftrightarrow> map_of (legacyAllocInfo s) p \<noteq> None"
proof -
  show "dropped {Legacy p} s (snd (release_legacy p s))"
  proof (cases "map_of (legacyAllocInfo s) p")
    case None
    with assms show ?thesis
      by (auto simp: release_legacy_def slot_of_absent intro!: dropped_refl)
  next
    case (Some as)
    have ok: "slots_ok s" using assms by (simp add: ms_inv_def)
    note d = slots_okD [OF ok] and as = slot_of_absent(4) [OF Some]
    let ?s = "s\<lparr>ms_mem := fold Deallocate as (ms_mem s), legacyAllocInfo := m_erase p (legacyAllocInfo s)\<rparr>"
    have at: "slot_addrs ?s k = (if k \<in> {Legacy p} then [] else slot_addrs s k)" for k
      by (cases k) (auto simp: slot_unfold)
    have "distinct as" using d(5) [of "Legacy p"] as by simp
    moreover have "set as = snd ` {q \<in> owned s. fst q \<in> {Legacy p}}"
      by (force simp: owned_def as)
    moreover have "owned ?s \<subseteq> owned s" unfolding owned_def at by (auto split: if_splits)
    then have "slots_ok ?s" using d by (rule_tac slots_ok_sub [OF ok]) (auto simp: at)
    ultimately have "dropped {Legacy p} s ?s" using at by (intro drop_slots [OF assms]) auto
    then show ?thesis by (simp add: release_legacy_def Some)
  qed
qed (auto simp: release_legacy_def split: option.splits)

lemma DeallocateAll_dropped:
  assumes "ms_inv s"
  shows "dropped {sl. slot_pid sl = p} s (DeallocateAll p s)"
    "snd (DeallocateAllForProcess p s) = DeallocateAll p s"
    "fst (DeallocateAllForProcess p s) \<longleftrightarrow>
       map_of (taskAllocInfo s) p \<noteq> None \<or> map_of (legacyAllocInfo s) p \<noteq> None"
proof -
  note t = release_tasks_dropped [OF assms, of p]
  have i: "ms_inv (snd (release_tasks p s))" using t(1) by (simp add: dropped_def)
  note l = release_legacy_dropped [OF i, of p]
  have "range (Task p) \<union> {Legacy p} = {sl. slot_pid sl = p}"
  proof (rule set_eqI)
    fix x show "x \<in> range (Task p) \<union> {Legacy p} \<longleftrightarrow> x \<in> {sl. slot_pid sl = p}" by (cases x) auto
  qed
  then show "dropped {sl. slot_pid sl = p} s (DeallocateAll p s)"
    using dropped_trans [OF t(1) l(1)] by (simp add: DeallocateAll_def)
  show "snd (DeallocateAllForProcess p s) = DeallocateAll p s"
    by (simp add: DeallocateAllForProcess_def DeallocateAll_def split: prod.splits)
  show "fst (DeallocateAllForProcess p s) \<longleftrightarrow>
       map_of (taskAllocInfo s) p \<noteq> None \<or> map_of (legacyAllocInfo s) p \<noteq> None"
    using t(2,3) l(2) by (simp add: DeallocateAllForProcess_def case_prod_beta)
qed

lemma fold_skip_invalid: "-1 \<notin> set as \<Longrightarrow> fold (\<lambda>a m. if a \<noteq> -1 then Deallocate a m else m) as m = fold Deallocate as m"
  by (induction as arbitrary: m) auto

lemma DeallocateTask_dropped:
  assumes "ms_inv s"
  shows "dropped {Task p t} s (snd (DeallocateTask p t s))"
    "fst (DeallocateTask p t s) \<longleftrightarrow> (\<exists>tm. map_of (taskAllocInfo s) p = Some tm \<and> t \<in> dom (map_of tm))"
proof -
  have ok: "slots_ok s" using assms by (simp add: ms_inv_def)
  note d = slots_okD [OF ok]
  show "dropped {Task p t} s (snd (DeallocateTask p t s))"
  proof (cases "\<exists>tm as. map_of (taskAllocInfo s) p = Some tm \<and> map_of tm t = Some as")
    case False
    then have "snd (DeallocateTask p t s) = s" "slot_addrs s (Task p t) = []"
      by (auto simp: DeallocateTask_def slot_unfold list_at_def split: option.splits)
    then show ?thesis using assms by (auto intro!: dropped_refl)
  next
    case True
    then obtain tm as where tm: "map_of (taskAllocInfo s) p = Some tm" and as: "map_of tm t = Some as" by blast
    have slot: "slot_addrs s (Task p t) = as" using as by (simp add: slot_of_absent(2) [OF tm] list_at_def)
    have "set as \<subseteq> snd ` owned s" unfolding owned_def slot [symmetric] by force
    then have "-1 \<notin> set as" using assms live_not_minus1 by (auto simp: ms_inv_def)
    then have res: "snd (DeallocateTask p t s) = put_tasks p (m_erase t tm) (s\<lparr>ms_mem := fold Deallocate as (ms_mem s)\<rparr>)"
      (is "_ = ?s") using tm as by (simp add: DeallocateTask_def fold_skip_invalid)
    have mtm: "m_ok tm" using d(3) [of p] slot_of_absent(5) [OF tm] by simp
    have at: "slot_addrs ?s k = (if k \<in> {Task p t} then [] else slot_addrs s k)" for k
      by (cases k) (auto simp: slot_addrs_put_tasks slot_of_absent(2) [OF tm])
    have "owned ?s \<subseteq> owned s" unfolding owned_def at by (auto split: if_splits)
    then have "slots_ok ?s" using d mtm by (rule_tac slots_ok_sub [OF ok]) (auto simp: at)
    moreover have "set as = snd ` {q \<in> owned s. fst q \<in> {Task p t}}" by (force simp: owned_def slot)
    moreover have "distinct as" using d(5) [of "Task p t"] slot by simp
    ultimately have "dropped {Task p t} s ?s" using at by (intro drop_slots [OF assms]) auto
    then show ?thesis by (simp add: res)
  qed
qed (auto simp: DeallocateTask_def split: option.splits)

subsection \<open>Reachable states of the service\<close>

lemma OptimizeMemory_noop: "ms_inv s \<Longrightarrow> OptimizeMemory s = s"
proof -
  assume "ms_inv s"
  then have "coalesced (mem_pool (ms_mem s))" by (simp add: ms_inv_def mem_inv_def)
  then show ?thesis by (simp add: OptimizeMemory_def CompactMemory_def)
qed

text \<open>One request of process \<open>p\<close> to the service (or a maintenance call on its behalf).\<close>

inductive service_step :: "pid \<Rightarrow> MemoryService \<Rightarrow> MemoryService \<Rightarrow> bool" where
  allocate: "service_step p s (snd (MemoryService_Allocate sz p s))"
| backward_allocate: "sz \<noteq> 0 \<Longrightarrow> service_step p s (snd (MemoryService_BackwardAllocate sz p s))"
| allocate_for_task: "service_step p s (snd (AllocateForTask sz p t s))"
| backward_allocate_for_task: "sz \<noteq> 0 \<Longrightarrow> service_step p s (snd (BackwardAllocateForTask sz p t s))"
| deallocate: "service_step p s (snd (MemoryService_Deallocate a p s))"
| deallocate_task: "service_step p s (snd (DeallocateTask p t s))"
| deallocate_all_tasks: "service_step p s (DeallocateAllTasks p s)"
| deallocate_all: "service_step p s (DeallocateAll p s)"
| deallocate_all_for_process: "service_step p s (snd (DeallocateAllForProcess p s))"
| optimize_memory: "service_step p s (OptimizeMemory s)"

inductive service_reachable :: "u64 \<Rightarrow> u64 \<Rightarrow> MemoryService \<Rightarrow> bool" for start msize where
  initial: "service_reachable start msize (MemoryService_new start msize)"
| request: "service_reachable start msize s \<Longrightarrow> service_step p s s' \<Longrightarrow> service_reachable start msize s'"

text \<open>
  What one step may do to the blocks of the other processes: nothing. The blocks a step
  allocates are fresh and the blocks it releases are owned by \<open>p\<close>.
\<close>

definition only_touches :: "pid \<Rightarrow> MemoryService \<Rightarrow> MemoryService \<Rightarrow> bool" where
  "only_touches p s s' \<longleftrightarrow>
     {q \<in> owned s'. slot_pid (fst q) \<noteq> p} = {q \<in> owned s. slot_pid (fst q) \<noteq> p}
     \<and> (\<forall>q \<in> owned s. slot_pid (fst q) \<noteq> p \<longrightarrow> live (ms_mem s') (snd q) = live (ms_mem s) (snd q))"

lemma only_touches_refl [simp, intro]: "only_touches p s s"
  by (simp add: only_touches_def)

lemma alloc_outcome_touches:
  "ms_inv s \<Longrightarrow> alloc_outcome sl n s a s' \<Longrightarrow> slot_pid sl = p \<Longrightarrow> ms_inv s' \<and> only_touches p s s'"
proof (cases "a = -1")
  case True
  assume "ms_inv s" "alloc_outcome sl n s a s'" with True show ?thesis by (simp add: alloc_outcome_def)
next
  case False
  assume s: "ms_inv s" "alloc_outcome sl n s a s'" "slot_pid sl = p"
  with False have o: "ms_inv s'" "live (ms_mem s) a = None" "live (ms_mem s') = (live (ms_mem s))(a \<mapsto> n)"
    "owned s' = insert (sl, a) (owned s)" by (auto simp: alloc_outcome_def)
  have "a \<notin> snd ` owned s" using s(1) o(2) by (auto simp: ms_inv_def)
  with o s(3) show ?thesis by (auto simp: only_touches_def)
qed

lemma dropped_touches:
  assumes "ms_inv s" "dropped K s s'" "\<And>k. k \<in> K \<Longrightarrow> slot_pid k = p"
  shows "ms_inv s' \<and> only_touches p s s'"
proof -
  have inj: "inj_on snd (owned s)" using assms(1) by (simp add: ms_inv_def slots_ok_def)
  have "live (ms_mem s') (snd q) = live (ms_mem s) (snd q)" if q: "q \<in> owned s" "slot_pid (fst q) \<noteq> p" for q
  proof -
    have "snd q \<notin> snd ` {q \<in> owned s. fst q \<in> K}"
      using q assms(3) inj_onD [OF inj _ q(1)] by auto
    with assms(2) show ?thesis by (simp add: dropped_def restrict_map_def)
  qed
  moreover have "{q \<in> owned s'. slot_pid (fst q) \<noteq> p} = {q \<in> owned s. slot_pid (fst q) \<noteq> p}"
    using assms(2,3) by (auto simp: dropped_def)
  ultimately show ?thesis using assms(2) by (simp add: dropped_def only_touches_def)
qed

lemma DeallocateAddress_touches:
  assumes "ms_inv s"
  shows "ms_inv (snd (DeallocateAddress a p s)) \<and> only_touches p s (snd (DeallocateAddress a p s))"
proof (cases "\<exists>sl. slot_pid sl = p \<and> (sl, a) \<in> owned s")
  case False
  then have "DeallocateAddress a p s = (False, s)"
    using assms by (intro DeallocateAddress_foreign) (auto simp: ms_inv_def)
  with assms show ?thesis by simp
next
  case True
  then obtain sl where sl: "(sl, a) \<in> owned s" "slot_pid sl = p" by blast
  from DeallocateAddress_owned [OF assms this]
  have dropped_one: "ms_inv (snd (DeallocateAddress a p s))"
    "live (ms_mem (snd (DeallocateAddress a p s))) = (live (ms_mem s))(a := None)"
    "owned (snd (DeallocateAddress a p s)) = owned s - {(sl, a)}" by auto
  have "snd q \<noteq> a" if "q \<in> owned s" "slot_pid (fst q) \<noteq> p" for q
    using that sl assms inj_onD [of snd "owned s" q "(sl, a)"] by (cases q) (auto simp: ms_inv_def slots_ok_def)
  with dropped_one sl show ?thesis by (auto simp: only_touches_def)
qed

lemma service_step_sound:
  "service_step p s s' \<Longrightarrow> ms_inv s \<Longrightarrow> ms_inv s' \<and> only_touches p s s'"
proof (induction rule: service_step.induct)
  case (allocate p s sz)
  then show ?case using alloc_outcome_touches service_alloc_outcome(1) by (metis slot_pid.simps(1))
next
  case (backward_allocate sz p s)
  then show ?case using alloc_outcome_touches service_balloc_outcome(1) by (metis slot_pid.simps(1))
next
  case (allocate_for_task p s sz t)
  then show ?case using alloc_outcome_touches service_alloc_outcome(2) by (metis slot_pid.simps(2))
next
  case (backward_allocate_for_task sz p s t)
  then show ?case using alloc_outcome_touches service_balloc_outcome(2) by (metis slot_pid.simps(2))
next
  case (deallocate p s a)
  then show ?case using DeallocateAddress_touches by (simp add: MemoryService_Deallocate_def)
next
  case (deallocate_task p s t)
  then show ?case using dropped_touches [OF _ DeallocateTask_dropped(1)] by fastforce
next
  case (deallocate_all_tasks p s)
  then show ?case using dropped_touches [OF _ release_tasks_dropped(1)] by (fastforce simp: DeallocateAllTasks_def)
next
  case (deallocate_all p s)
  then show ?case using dropped_touches [OF _ DeallocateAll_dropped(1)] by fastforce
next
  case (deallocate_all_for_process p s)
  then show ?case using dropped_touches [OF _ DeallocateAll_dropped(1)] DeallocateAll_dropped(2) by fastforce
next
  case (optimize_memory p s)
  then show ?case by (simp add: OptimizeMemory_noop)
qed

lemma MemoryService_new_inv:
  "msize \<noteq> 0 \<Longrightarrow> unat msize + 4095 < 2 ^ 64 \<Longrightarrow> ms_inv (MemoryService_new start msize)"
proof -
  assume a: "msize \<noteq> 0" "unat msize + 4095 < 2 ^ 64"
  have o: "owned (MemoryService_new start msize) = {}" "\<And>sl. slot_addrs (MemoryService_new start msize) sl = []"
  proof -
    show e: "\<And>sl. slot_addrs (MemoryService_new start msize) sl = []"
      subgoal for sl by (cases sl) (simp_all add: slot_unfold MemoryService_new_def) done
    show "owned (MemoryService_new start msize) = {}" by (simp add: owned_def e)
  qed
  have m: "mem_inv (Memory_new start msize 0)" using a by (intro Memory_new_inv) auto
  have l: "live (Memory_new start msize 0) = Map.empty" by (simp add: live_def Memory_new_def fun_eq_iff)
  show ?thesis
    using o m l a by (simp add: ms_inv_def slots_ok_def) (simp add: MemoryService_new_def Memory_new_def)
qed

lemma service_reachable_inv:
  assumes "msize \<noteq> 0" "unat msize + 4095 < 2 ^ 64" "service_reachable start msize s"
  shows "ms_inv s"
  using assms(3) by (induction rule: service_reachable.induct)
    (use assms(1,2) MemoryService_new_inv service_step_sound in blast)+

subsection \<open>Properties\<close>


lemma example_service: "service_reachable 0 1048576 (snd (AllocateForTask 4096 7 1 (MemoryService_new 0 1048576)))"
  using service_reachable.request [OF service_reachable.initial service_step.allocate_for_task] .



lemma example_inv: "ms_inv (snd (AllocateForTask 4096 7 1 (MemoryService_new 0 1048576)))"
  using service_reachable_inv [OF _ _ example_service] by simp


text \<open>
  \<open>DeallocateAllForProcess\<close> (the clean-up after a process died) releases exactly the
  blocks of that process, legacy and per task: afterwards it owns nothing, the other owners are
  unchanged, the live blocks are those the process did not own, and the call reports whether the
  process had any entry. \<open>DeallocateAll\<close> has the same effect.
\<close>
theorem process_cleanup_exact:
  assumes "ms_inv s"
  shows "ms_inv (DeallocateAll p s)
    \<and> owned (DeallocateAll p s) = {q \<in> owned s. slot_pid (fst q) \<noteq> p}
    \<and> live (ms_mem (DeallocateAll p s)) = live (ms_mem s) |` (- {a. \<exists>sl. slot_pid sl = p \<and> (sl, a) \<in> owned s})
    \<and> DeallocateAllForProcess p s =
        (p \<in> dom (map_of (taskAllocInfo s)) \<or> p \<in> dom (map_of (legacyAllocInfo s)), DeallocateAll p s)"
proof -
  note d = DeallocateAll_dropped [OF assms, of p]
  have "snd ` {q \<in> owned s. fst q \<in> {sl. slot_pid sl = p}} = {a. \<exists>sl. slot_pid sl = p \<and> (sl, a) \<in> owned s}"
    by force
  with d show ?thesis by (simp add: dropped_def domIff prod_eq_iff)
qed

text \<open>
  \<open>AllocateForTask\<close> for any size, including those that would make the rounding of the
  allocator wrap (the pre-check turns them away): either the result is -1 and nothing at all
  changed, or the block is fresh, is recorded for exactly the requesting process and task, and
  every other block is as before.
\<close>
theorem service_allocate_exact:
  assumes "ms_inv s" "AllocateForTask sz p t s = (a, s')"
  shows "if a = -1 then s' = s
    else live (ms_mem s) a = None \<and> live (ms_mem s') = (live (ms_mem s))(a \<mapsto> request_size sz)
      \<and> owned s' = insert (Task p t, a) (owned s) \<and> ms_inv s'"
  using service_alloc_outcome(2) [OF assms(1), where sz = sz and p = p and t = t] assms(2)
  by (simp add: alloc_outcome_def split: if_splits)

text \<open>
  \<open>Deallocate\<close> releases a block exactly when the calling process owns it (through its
  legacy set or one of its tasks): then the block and its record go and nothing else changes;
  otherwise the call returns false and the state is unchanged, even if the address is live for
  another process.
\<close>
theorem service_deallocate_exact:
  assumes "ms_inv s" "MemoryService_Deallocate a p s = (b, s')"
  shows "b = (\<exists>sl. slot_pid sl = p \<and> (sl, a) \<in> owned s) \<and>
    (if b then live (ms_mem s') = (live (ms_mem s))(a := None) \<and> owned s' = {q \<in> owned s. snd q \<noteq> a} \<and> ms_inv s'
     else s' = s)"
proof (cases "\<exists>sl. slot_pid sl = p \<and> (sl, a) \<in> owned s")
  case True
  then obtain sl where sl: "(sl, a) \<in> owned s" "slot_pid sl = p" by blast
  have "owned s - {(sl, a)} = {q \<in> owned s. snd q \<noteq> a}"
    using owned_only [OF _ sl(1)] assms(1) by (auto simp: ms_inv_def)
  with DeallocateAddress_owned [OF assms(1) sl] True assms(2) show ?thesis
    by (simp add: MemoryService_Deallocate_def)
next
  case False
  then have "DeallocateAddress a p s = (False, s)"
    using assms(1) by (intro DeallocateAddress_foreign) (auto simp: ms_inv_def)
  with False assms(2) show ?thesis by (auto simp: MemoryService_Deallocate_def)
qed

text \<open>
  \<open>DeallocateTask\<close> releases exactly the blocks of that task; it returns true exactly
  when the task has an entry, and then the entry is gone (a second call returns false).
\<close>
theorem deallocate_task_exact:
  assumes "ms_inv s"
  shows "owned (snd (DeallocateTask p t s)) = {q \<in> owned s. fst q \<noteq> Task p t}
    \<and> live (ms_mem (snd (DeallocateTask p t s))) = live (ms_mem s) |` (- set (slot_addrs s (Task p t)))
    \<and> ms_inv (snd (DeallocateTask p t s))
    \<and> fst (DeallocateTask p t s) = (t \<in> dom (map_of (list_at (taskAllocInfo s) p)))
    \<and> \<not> fst (DeallocateTask p t (snd (DeallocateTask p t s)))"
proof -
  note d = DeallocateTask_dropped [OF assms, of p t]
  have "snd ` {q \<in> owned s. fst q \<in> {Task p t}} = set (slot_addrs s (Task p t))"
    by (force simp: owned_def)
  moreover have "fst (DeallocateTask p t s) = (t \<in> dom (map_of (list_at (taskAllocInfo s) p)))"
    unfolding d(2) by (auto simp: list_at_def split: option.splits)
  moreover have "\<not> fst (DeallocateTask p t (snd (DeallocateTask p t s)))"
    by (auto simp: DeallocateTask_def put_tasks_def split: option.splits)
  ultimately show ?thesis using d(1) by (simp add: dropped_def)
qed

theorem deallocate_task_exact_witness:
  "let s = snd (AllocateForTask 4096 7 1 (MemoryService_new 0 1048576)) in
     fst (DeallocateTask 7 1 s) \<and> live (ms_mem (snd (DeallocateTask 7 1 s))) 0 = None"
proof -
  let ?s = "snd (AllocateForTask 4096 7 1 (MemoryService_new 0 1048576))"
  have e: "slot_addrs ?s (Task 7 1) = [0]" "fst (DeallocateTask 7 1 ?s)" by code_simp+
  with deallocate_task_exact [OF example_inv, of 7 1] show ?thesis by (simp add: Let_def)
qed

text \<open>
  \<open>IsTaskValid\<close> ignores the task: for a process with any live task entry it answers
  true for every task id, also one the service has no record of (the branch that logs "not
  found" does not return false).
\<close>
theorem is_task_valid_ignores_task:
  "IsTaskValid p t s = (p \<in> dom (map_of (taskAllocInfo s)))
   \<and> (let s = snd (AllocateForTask 4096 7 1 (MemoryService_new 0 1048576)) in
        IsTaskValid 7 99 s \<and> map_of (list_at (taskAllocInfo s) 7) 99 = None)"
proof -
  have "let s = snd (AllocateForTask 4096 7 1 (MemoryService_new 0 1048576)) in
        IsTaskValid 7 99 s \<and> map_of (list_at (taskAllocInfo s) 7) 99 = None" by code_simp
  then show ?thesis by (auto simp: IsTaskValid_def split: option.splits)
qed

end
