(* ===== verification/Scheduler.thy ===== *)
theory Scheduler
  imports Prelude "HOL-Library.Product_Lexorder"
begin

section \<open>The inference scheduler of the service\<close>

text \<open>
  \<^verbatim>\<open>src/lib/dxrt_service/schedule_service.cpp\<close> and \<^verbatim>\<open>scheduler_service.h\<close>: requests of the
  client processes are queued per device and submitted to the NPU by one of three policies
  (first-in first-out, round robin over processes, shortest job first). A device has at most
  six requests in flight. \<open>_map\<close> holds the request entries with their state.

  The virtual functions \<open>schedule\<close> and \<open>pushRequest\<close> of the three classes are the cases of
  \<open>pop_request\<close> and \<open>pushRequest\<close> over the \<open>policy\<close> datatype. \<open>schedule\<close> and \<open>doInference\<close> call
  each other in tail position; \<open>doInference\<close> here returns whether the source calls \<open>schedule\<close>
  next. What the code outside \<^verbatim>\<open>src/\<close> and the listener answer (is the task valid, is the device
  blocked, what did the driver return) is the parameter \<open>env\<close>, fixed for the duration of one
  operation. Callbacks and driver submissions are appended to \<open>sc_log\<close>. Every operation runs
  under \<open>_lock\<close>.
\<close>

definition DX_RT_SERVICE_SCHED_THRE :: int where "DX_RT_SERVICE_SCHED_THRE = 6"

text \<open>The fields of the driver structures that the scheduler reads; the others are passed on unchanged.\<close>

record request_acc =
  rq_req_id :: u32
  rq_task_id :: u32
  rq_proc_id :: u32
  rq_dma_ch :: int

record response =
  rs_req_id :: u32
  rs_inf_time :: u32
  rs_status :: int
  rs_proc_id :: u32

datatype req_state = PENDING | RUNNING | CANCELLED

record RequestEntry =
  re_data :: request_acc
  re_state :: req_state
  re_deviceId :: int

record request_elem =
  el_requestId :: int
  el_procId :: int
  el_time :: u32

datatype policy =
  FIFO (device_queues: "(int \<times> int) list list")
| RoundRobin (proc_maps: "(int, int list) omap list") (next_proc: "int list")
| SJF (request_map: "request_elem list list") (task_time_map: "(int \<times> int, u32) omap")

datatype sched_event =
  Submit nat int int            \<comment> \<open>InferenceRequest accepted by the driver: device, process, request\<close>
| Response nat                  \<comment> \<open>the device delivered a response\<close>
| InferenceComplete response nat
| TaskDrained int int
| SchedulerError int nat

record scheduler =
  sc_policy :: policy
  sc_loads :: "int list"
  sc_loadsProc :: "(int, int) omap"
  sc_map :: "(int, (int, RequestEntry) omap) omap"
  sc_pendingErrorCallbacks :: "(response \<times> nat) list"
  sc_listener :: bool
  sc_log :: "sched_event list"

text \<open>
  \<open>env_process\<close> is the return value of the driver call \<open>DXRT_CMD_NPU_RUN_REQ\<close>, \<open>env_num_dma_ch\<close>
  the channel count in the device information.
\<close>

record sched_env =
  env_validateTask :: "int \<Rightarrow> nat \<Rightarrow> u32 \<Rightarrow> bool"
  env_isBlocked :: "nat \<Rightarrow> bool"
  env_num_dma_ch :: "nat \<Rightarrow> int"
  env_process :: "nat \<Rightarrow> request_acc \<Rightarrow> int"

datatype outcome = Running scheduler | Aborted scheduler | OutOfRange

definition EBUSY :: int where "EBUSY = 16"
definition EAGAIN :: int where "EAGAIN = 11"

subsection \<open>Policies\<close>

definition fifo_pop :: "nat \<Rightarrow> (int \<times> int) list list \<Rightarrow> (int \<times> int) option \<times> (int \<times> int) list list" where
  "fifo_pop d qs =
     (if d < length qs then
        (case qs ! d of [] \<Rightarrow> (None, qs) | x # rest \<Rightarrow> (Some x, qs[d := rest]))
      else (None, qs))"

definition fifo_push :: "nat \<Rightarrow> int \<Rightarrow> int \<Rightarrow> (int \<times> int) list list \<Rightarrow> (int \<times> int) list list" where
  "fifo_push d procId reqId qs = (if d < length qs then qs[d := qs ! d @ [(procId, reqId)]] else qs)"

text \<open>
  Round robin: the iterator \<open>it\<close> splits the map into the entries before it and the entries
  from it on. Erasing the entry or incrementing the iterator both move to the next entry.
\<close>

definition rr_locate :: "int \<Rightarrow> (int, int list) omap \<Rightarrow> (int, int list) omap \<times> (int, int list) omap" where
  "rr_locate current_proc m =
     (if list_ex (\<lambda>e. fst e = current_proc) m
      then (takeWhile (\<lambda>e. fst e \<noteq> current_proc) m, dropWhile (\<lambda>e. fst e \<noteq> current_proc) m)
      else ([], m))"

definition rr_pop ::
  "nat \<Rightarrow> (int, int list) omap list \<times> int list \<Rightarrow>
   (int \<times> int) option \<times> ((int, int list) omap list \<times> int list)" where
  "rr_pop d ps =
     (case ps of (maps, next) \<Rightarrow>
        if \<not> (d < length maps \<and> d < length next) then (None, ps)
        else
          let m = maps ! d;
              current_proc = (if next ! d = 0 \<and> m \<noteq> [] then fst (hd m) else next ! d);
              next1 = next[d := current_proc]
          in case rr_locate current_proc m of
               (before, []) \<Rightarrow> (None, ps)
             | (before, (k, q) # after) \<Rightarrow>
                 (case q of
                    [] \<Rightarrow> (None, (maps, next1))
                  | req_id # q' \<Rightarrow>
                      let m' = before @ (if q' = [] then after else (k, q') # after);
                          it = (if after \<noteq> [] then fst (hd after) else if m' \<noteq> [] then fst (hd m') else 0)
                      in (Some (current_proc, req_id), (maps[d := m'], next1[d := it]))))"

definition rr_push :: "nat \<Rightarrow> int \<Rightarrow> int \<Rightarrow> (int, int list) omap list \<Rightarrow> (int, int list) omap list" where
  "rr_push d procId reqId maps =
     (if d < length maps then maps[d := m_put procId (list_at (maps ! d) procId @ [reqId]) (maps ! d)] else maps)"

text \<open>
  Shortest job first: \<open>elem_less\<close> is the comparison the priority queue orders by, its top a
  maximal element. The queue is the list of its elements; among equivalent elements (equal
  time and request id) the model takes the first.
\<close>

definition elem_less :: "request_elem \<Rightarrow> request_elem \<Rightarrow> bool" where
  "elem_less a b =
     (if el_time a = el_time b then el_requestId b < el_requestId a else el_time b < el_time a)"

fun sjf_top :: "request_elem \<Rightarrow> request_elem list \<Rightarrow> request_elem" where
  "sjf_top e [] = e"
| "sjf_top e (x # xs) = sjf_top (if elem_less e x then x else e) xs"

definition sjf_pop :: "nat \<Rightarrow> request_elem list list \<Rightarrow> (int \<times> int) option \<times> request_elem list list" where
  "sjf_pop d qs =
     (if d < length qs then
        (case qs ! d of [] \<Rightarrow> (None, qs)
         | x # xs \<Rightarrow> let e = sjf_top x xs
                     in (Some (el_procId e, el_requestId e), qs[d := remove1 e (x # xs)]))
      else (None, qs))"

definition time_of :: "int \<Rightarrow> int \<Rightarrow> (int \<times> int, u32) omap \<Rightarrow> u32" where
  "time_of procId taskId tmap = (case map_of tmap (procId, taskId) of None \<Rightarrow> 0 | Some t \<Rightarrow> t)"

definition sjf_push ::
  "nat \<Rightarrow> int \<Rightarrow> int \<Rightarrow> int \<Rightarrow> (int \<times> int, u32) omap \<Rightarrow> request_elem list list \<Rightarrow> request_elem list list" where
  "sjf_push d procId reqId taskId tmap qs =
     (if d < length qs
      then qs[d := qs ! d @ [\<lparr>el_requestId = reqId, el_procId = procId, el_time = time_of procId taskId tmap\<rparr>]]
      else qs)"

fun pop_request :: "nat \<Rightarrow> policy \<Rightarrow> (int \<times> int) option \<times> policy" where
  "pop_request d (FIFO qs) = (case fifo_pop d qs of (r, qs') \<Rightarrow> (r, FIFO qs'))"
| "pop_request d (RoundRobin maps next) = (case rr_pop d (maps, next) of (r, maps', next') \<Rightarrow> (r, RoundRobin maps' next'))"
| "pop_request d (SJF qs tmap) = (case sjf_pop d qs of (r, qs') \<Rightarrow> (r, SJF qs' tmap))"

fun pushRequest :: "nat \<Rightarrow> int \<Rightarrow> int \<Rightarrow> int \<Rightarrow> policy \<Rightarrow> policy" where
  "pushRequest d procId reqId taskId (FIFO qs) = FIFO (fifo_push d procId reqId qs)"
| "pushRequest d procId reqId taskId (RoundRobin maps next) = RoundRobin (rr_push d procId reqId maps) next"
| "pushRequest d procId reqId taskId (SJF qs tmap) = SJF (sjf_push d procId reqId taskId tmap qs) tmap"

fun updateTaskInferenceTime :: "int \<Rightarrow> int \<Rightarrow> u32 \<Rightarrow> policy \<Rightarrow> policy" where
  "updateTaskInferenceTime procId taskId time (SJF qs tmap) =
     (if time_of procId taskId tmap = 0 then SJF qs (m_put (procId, taskId) time tmap) else SJF qs tmap)"
| "updateTaskInferenceTime procId taskId time P = P"

fun getTaskInferenceTime :: "int \<Rightarrow> int \<Rightarrow> policy \<Rightarrow> u32" where
  "getTaskInferenceTime procId taskId (SJF qs tmap) = time_of procId taskId tmap"
| "getTaskInferenceTime procId taskId P = 0"

fun cleanTaskInferenceTime :: "int \<Rightarrow> policy \<Rightarrow> policy" where
  "cleanTaskInferenceTime procId (SJF qs tmap) = SJF qs (filter (\<lambda>e. fst (fst e) \<noteq> procId) tmap)"
| "cleanTaskInferenceTime procId P = P"

subsection \<open>Submission\<close>

text \<open>
  \<open>ServiceDevice::InferenceRequest\<close>: an invalid channel number is brought into range with the
  truncated remainder of C++, then the request goes to the driver.
\<close>

definition c_rem :: "int \<Rightarrow> int \<Rightarrow> int" where
  "c_rem a b = a - b * (if (0 \<le> a) = (0 < b) then \<bar>a\<bar> div \<bar>b\<bar> else - (\<bar>a\<bar> div \<bar>b\<bar>))"

definition normalize_dma_ch :: "int \<Rightarrow> int \<Rightarrow> int" where
  "normalize_dma_ch num ch =
     (if 0 < num \<and> (ch < 0 \<or> num \<le> ch) then c_rem (c_rem ch num + num) num else ch)"

definition InferenceRequest :: "sched_env \<Rightarrow> nat \<Rightarrow> request_acc \<Rightarrow> int" where
  "InferenceRequest env d req =
     env_process env d (req\<lparr>rq_dma_ch := normalize_dma_ch (env_num_dma_ch env d) (rq_dma_ch req)\<rparr>)"

definition dec_proc_load :: "int \<Rightarrow> scheduler \<Rightarrow> scheduler" where
  "dec_proc_load procId s =
     (case map_of (sc_loadsProc s) procId of
        None \<Rightarrow> s
      | Some n \<Rightarrow> if 0 < n then s\<lparr>sc_loadsProc := m_put procId (n - 1) (sc_loadsProc s)\<rparr> else s)"

definition add_load :: "nat \<Rightarrow> int \<Rightarrow> scheduler \<Rightarrow> scheduler" where
  "add_load d k s = s\<lparr>sc_loads := (sc_loads s)[d := sc_loads s ! d + k]\<rparr>"

definition put_entry :: "int \<Rightarrow> int \<Rightarrow> RequestEntry \<Rightarrow> scheduler \<Rightarrow> scheduler" where
  "put_entry procId reqId e s =
     s\<lparr>sc_map := m_put procId (m_put reqId e (list_at (sc_map s) procId)) (sc_map s)\<rparr>"

definition erase_entry :: "int \<Rightarrow> int \<Rightarrow> scheduler \<Rightarrow> scheduler" where
  "erase_entry procId reqId s =
     s\<lparr>sc_map := m_put procId (m_erase reqId (list_at (sc_map s) procId)) (sc_map s)\<rparr>"

definition emit :: "sched_event \<Rightarrow> scheduler \<Rightarrow> scheduler" where
  "emit ev s = s\<lparr>sc_log := sc_log s @ [ev]\<rparr>"

definition error_response :: "int \<Rightarrow> int \<Rightarrow> int \<Rightarrow> response" where
  "error_response reqId procId st =
     \<lparr>rs_req_id = word_of_int reqId, rs_inf_time = 0, rs_status = st, rs_proc_id = word_of_int procId\<rparr>"

text \<open>The clean-up of a rejected request: drop the entry and queue the error response.\<close>

definition reject :: "nat \<Rightarrow> int \<Rightarrow> int \<Rightarrow> int \<Rightarrow> scheduler \<Rightarrow> scheduler" where
  "reject d procId reqId st s =
     (let s1 = erase_entry procId reqId (dec_proc_load procId s)
      in s1\<lparr>sc_pendingErrorCallbacks := sc_pendingErrorCallbacks s1 @ [(error_response reqId procId st, d)]\<rparr>)"

text \<open>What follows a call of \<open>doInference\<close>: the tail call of \<open>schedule\<close>, the return, or the failed assertion.\<close>

datatype disposition = Reschedule | Return | Assert_failed

definition doInference :: "sched_env \<Rightarrow> nat \<Rightarrow> int \<Rightarrow> int \<Rightarrow> scheduler \<Rightarrow> scheduler \<times> disposition" where
  "doInference env d procId reqId s =
     (case map_of (sc_map s) procId of
        None \<Rightarrow> (s, Reschedule)
      | Some requests \<Rightarrow>
          (case map_of requests reqId of
             None \<Rightarrow> (s, Reschedule)
           | Some entry \<Rightarrow>
               let new_req = re_data entry in
               if sc_listener s \<and> \<not> env_validateTask env procId d (rq_task_id new_req)
               then (reject d procId reqId (-1) s, Reschedule)
               else if env_isBlocked env d
               then (reject d procId reqId (-2) s, Reschedule)
               else
                 let s1 = add_load d 1 (put_entry procId reqId
                            (entry\<lparr>re_state := RUNNING, re_deviceId := int d\<rparr>) s);
                     retval = InferenceRequest env d new_req
                 in if retval = - EBUSY \<or> retval = - EAGAIN
                    then
                      let s2 = put_entry procId reqId (entry\<lparr>re_state := PENDING, re_deviceId := -1\<rparr>)
                                 (add_load d (-1) s1)
                      in (s2\<lparr>sc_policy := pushRequest d procId reqId (sint (rq_task_id new_req)) (sc_policy s2)\<rparr>, Return)
                    else if retval \<noteq> 0
                    then (if sc_listener s1 then emit (SchedulerError retval d) s1 else s1, Assert_failed)
                    else (emit (Submit d procId reqId) s1, Return)))"

text \<open>Number of requests queued for a device, the measure of the \<open>schedule\<close> loop.\<close>

fun queued :: "nat \<Rightarrow> policy \<Rightarrow> nat" where
  "queued d (FIFO qs) = (if d < length qs then length (qs ! d) else 0)"
| "queued d (RoundRobin maps next) = (if d < length maps then sum_list (map (length \<circ> snd) (maps ! d)) else 0)"
| "queued d (SJF qs tmap) = (if d < length qs then length (qs ! d) else 0)"

lemma sjf_top_in: "sjf_top e xs \<in> set (e # xs)"
  by (induction e xs rule: sjf_top.induct) auto

lemma rr_locate_append: "rr_locate cp m = (before, from_it) \<Longrightarrow> m = before @ from_it"
  by (auto simp: rr_locate_def split: if_splits)

lemma rr_pop_queued:
  assumes "rr_pop d (maps, next) = (Some r, maps', next')"
  shows "queued d (RoundRobin maps' next') < queued d (RoundRobin maps next)"
  using assms
  by (auto simp: rr_pop_def Let_def split: if_splits list.splits prod.splits dest!: rr_locate_append)

lemma pop_request_queued:
  assumes "pop_request d P = (Some r, P')"
  shows "queued d P' < queued d P"
proof (cases P)
  case (SJF qs tmap)
  from assms SJF obtain x xs where q: "d < length qs" "qs ! d = x # xs"
      "P' = SJF (qs[d := remove1 (sjf_top x xs) (x # xs)]) tmap"
    by (auto simp: sjf_pop_def Let_def split: if_splits list.splits)
  then have "queued d P' < length (x # xs)"
    using sjf_top_in [of x xs] length_remove1 [of "sjf_top x xs" "x # xs"] by (simp del: remove1.simps)
  with SJF q show ?thesis by simp
next
  case (FIFO qs)
  with assms show ?thesis by (auto simp: fifo_pop_def split: if_splits list.splits)
next
  case (RoundRobin maps nx)
  then obtain maps' nx' where "rr_pop d (maps, nx) = (Some r, maps', nx')" "P' = RoundRobin maps' nx'"
    using assms by (auto split: prod.splits)
  with RoundRobin show ?thesis using rr_pop_queued by blast
qed

lemma doInference_policy:
  "doInference env d procId reqId s = (s', Reschedule) \<Longrightarrow> sc_policy s' = sc_policy s"
  by (auto simp: doInference_def reject_def erase_entry_def dec_proc_load_def Let_def
      split: option.splits if_splits)

text \<open>\<open>schedule(deviceId)\<close> of the three classes, with the calls back from \<open>doInference\<close>.\<close>

function schedule :: "sched_env \<Rightarrow> nat \<Rightarrow> scheduler \<Rightarrow> outcome" where
  "schedule env d s =
     (case pop_request d (sc_policy s) of
        (None, P) \<Rightarrow> Running (s\<lparr>sc_policy := P\<rparr>)
      | (Some (procId, reqId), P) \<Rightarrow>
          (case doInference env d procId reqId (s\<lparr>sc_policy := P\<rparr>) of
             (s', Reschedule) \<Rightarrow> schedule env d s'
           | (s', Return) \<Rightarrow> Running s'
           | (s', Assert_failed) \<Rightarrow> Aborted s'))"
  by pat_completeness auto
termination
  by (relation "measure (\<lambda>(env, d, s). queued d (sc_policy s))")
     (auto dest!: doInference_policy [OF sym] pop_request_queued [OF sym])

declare schedule.simps [simp del]

subsection \<open>Entry points\<close>

text \<open>Deliver the deferred error responses (\<open>_pendingErrorCallbacks\<close> is moved out first).\<close>

definition flush_deferred :: "scheduler \<Rightarrow> scheduler" where
  "flush_deferred s =
     s\<lparr>sc_pendingErrorCallbacks := [],
       sc_log := sc_log s @
         (if sc_listener s then map (\<lambda>(r, d). InferenceComplete r d) (sc_pendingErrorCallbacks s) else [])\<rparr>"

fun then_do :: "outcome \<Rightarrow> (scheduler \<Rightarrow> scheduler) \<Rightarrow> outcome" where
  "then_do (Running s) f = Running (f s)"
| "then_do out f = out"

definition scheduler_new :: "policy \<Rightarrow> nat \<Rightarrow> bool \<Rightarrow> scheduler" where
  "scheduler_new P n listener =
     \<lparr>sc_policy = P, sc_loads = replicate n 0, sc_loadsProc = [], sc_map = [],
      sc_pendingErrorCallbacks = [], sc_listener = listener, sc_log = []\<rparr>"

definition fifo_new :: "nat \<Rightarrow> policy" where "fifo_new n = FIFO (replicate n [])"
definition rr_new :: "nat \<Rightarrow> policy" where "rr_new n = RoundRobin (replicate n []) (replicate n 0)"
definition sjf_new :: "nat \<Rightarrow> policy" where "sjf_new n = SJF (replicate n []) []"

definition SetListener :: "bool \<Rightarrow> scheduler \<Rightarrow> scheduler" where
  "SetListener listener s = s\<lparr>sc_listener := listener\<rparr>"

definition StopScheduler :: "int \<Rightarrow> scheduler \<Rightarrow> scheduler" where
  "StopScheduler procId s =
     s\<lparr>sc_map := m_erase procId (sc_map s), sc_policy := cleanTaskInferenceTime procId (sc_policy s)\<rparr>"

definition ClearAllLoad :: "scheduler \<Rightarrow> scheduler" where
  "ClearAllLoad s = s\<lparr>sc_loadsProc := [], sc_loads := map (\<lambda>_. 0) (sc_loads s)\<rparr>"

definition ClearProcLoad :: "int \<Rightarrow> scheduler \<Rightarrow> scheduler" where
  "ClearProcLoad procId s = s\<lparr>sc_loadsProc := m_erase procId (sc_loadsProc s)\<rparr>"

definition proc_load :: "int \<Rightarrow> scheduler \<Rightarrow> int" where
  "proc_load procId s = (case map_of (sc_loadsProc s) procId of None \<Rightarrow> 0 | Some n \<Rightarrow> n)"

definition AddScheduler :: "sched_env \<Rightarrow> request_acc \<Rightarrow> nat \<Rightarrow> scheduler \<Rightarrow> outcome" where
  "AddScheduler env packet d s =
     (if length (sc_loads s) \<le> d then OutOfRange
      else
        let proc_id = sint (rq_proc_id packet); req_id = sint (rq_req_id packet);
            s1 = put_entry proc_id req_id \<lparr>re_data = packet, re_state = PENDING, re_deviceId = -1\<rparr> s;
            s2 = s1\<lparr>sc_loadsProc := m_put proc_id (proc_load proc_id s1 + 1) (sc_loadsProc s1)\<rparr>;
            s3 = s2\<lparr>sc_policy := pushRequest d proc_id req_id (sint (rq_task_id packet)) (sc_policy s2)\<rparr>
        in then_do (if sc_loads s3 ! d < DX_RT_SERVICE_SCHED_THRE then schedule env d s3 else Running s3)
             flush_deferred)"

text \<open>\<open>taskDrained\<close>: no entry of the process is left for the task.\<close>

definition task_drained :: "int \<Rightarrow> int \<Rightarrow> scheduler \<Rightarrow> bool" where
  "task_drained proc_id task_id s =
     list_all (\<lambda>(k, e). rq_task_id (re_data e) \<noteq> word_of_int task_id) (list_at (sc_map s) proc_id)"

definition FinishJobs :: "sched_env \<Rightarrow> nat \<Rightarrow> response \<Rightarrow> scheduler \<Rightarrow> outcome" where
  "FinishJobs env d resp s0 =
     (if length (sc_loads s0) \<le> d then OutOfRange
      else
        let s = emit (Response d) s0;
            req_id = sint (rs_req_id resp); proc_id = sint (rs_proc_id resp);
            s1 = (if 0 < sc_loads s ! d then add_load d (-1) s else s)
        in case map_of (sc_map s1) proc_id of
             None \<Rightarrow> schedule env d s1
           | Some requests \<Rightarrow>
               let s2 = dec_proc_load proc_id s1 in
               (case map_of requests req_id of
                  None \<Rightarrow> schedule env d s2
                | Some entry \<Rightarrow>
                    let wasCancelled = (re_state entry = CANCELLED);
                        task_id = sint (rq_task_id (re_data entry));
                        s3 = s2\<lparr>sc_policy := updateTaskInferenceTime proc_id task_id (rs_inf_time resp) (sc_policy s2)\<rparr>;
                        s4 = erase_entry proc_id req_id s3;
                        taskDrained = (sc_listener s4 \<and> task_drained proc_id task_id s4)
                    in then_do (schedule env d s4)
                         (\<lambda>t. let t1 = flush_deferred t;
                                  t2 = (if taskDrained \<and> sc_listener t1 then emit (TaskDrained proc_id task_id) t1 else t1)
                              in if \<not> wasCancelled \<and> sc_listener t2 then emit (InferenceComplete resp d) t2 else t2)))"

text \<open>
  Stopping: running entries become CANCELLED, pending entries are erased and no longer counted
  for the process. \<open>stop_entries\<close> is the loop over the entries of one process, restricted to
  those that satisfy \<open>sel\<close>.
\<close>

fun stop_entries ::
  "(RequestEntry \<Rightarrow> bool) \<Rightarrow> int \<Rightarrow> (int, RequestEntry) omap \<Rightarrow> scheduler \<Rightarrow> (int, RequestEntry) omap \<times> scheduler" where
  "stop_entries sel p [] s = ([], s)"
| "stop_entries sel p ((reqId, entry) # es) s =
     (if \<not> sel entry then
        (case stop_entries sel p es s of (es', s') \<Rightarrow> ((reqId, entry) # es', s'))
      else case re_state entry of
        RUNNING \<Rightarrow> (case stop_entries sel p es s of (es', s') \<Rightarrow> ((reqId, entry\<lparr>re_state := CANCELLED\<rparr>) # es', s'))
      | PENDING \<Rightarrow> stop_entries sel p es (dec_proc_load p s)
      | CANCELLED \<Rightarrow> (case stop_entries sel p es s of (es', s') \<Rightarrow> ((reqId, entry) # es', s')))"

definition StopTaskInference :: "int \<Rightarrow> nat \<Rightarrow> int \<Rightarrow> scheduler \<Rightarrow> scheduler" where
  "StopTaskInference p d taskId s =
     (case map_of (sc_map s) p of
        None \<Rightarrow> s
      | Some requests \<Rightarrow>
          (case stop_entries (\<lambda>e. rq_task_id (re_data e) = word_of_int taskId) p requests s of
             (requests', s') \<Rightarrow> s'\<lparr>sc_map := m_put p requests' (sc_map s')\<rparr>))"

definition StopAllInferenceForProcess :: "int \<Rightarrow> nat \<Rightarrow> scheduler \<Rightarrow> scheduler" where
  "StopAllInferenceForProcess p d s =
     (case map_of (sc_map s) p of
        None \<Rightarrow> s
      | Some requests \<Rightarrow>
          (case stop_entries (\<lambda>_. True) p requests s of
             (requests', s') \<Rightarrow>
               s'\<lparr>sc_map := (if requests' = [] then m_erase p (sc_map s') else m_put p requests' (sc_map s'))\<rparr>))"

definition cleanDiedProcess :: "int \<Rightarrow> scheduler \<Rightarrow> scheduler" where
  "cleanDiedProcess p s = s\<lparr>sc_map := m_erase p (sc_map s)\<rparr>"

definition SendError :: "nat \<Rightarrow> int \<Rightarrow> scheduler \<Rightarrow> scheduler" where
  "SendError d errCode s = (if sc_listener s then emit (SchedulerError errCode d) s else s)"

definition is_running_on :: "nat \<Rightarrow> RequestEntry \<Rightarrow> bool" where
  "is_running_on d e \<longleftrightarrow> re_state e = RUNNING \<and> re_deviceId e = int d"

definition GetRunningRequestCount :: "int \<Rightarrow> nat \<Rightarrow> scheduler \<Rightarrow> int" where
  "GetRunningRequestCount p d s =
     foldl (\<lambda>n (k, e). if is_running_on d e then n + 1 else n) 0 (list_at (sc_map s) p)"

definition GetRunningTaskIds :: "int \<Rightarrow> scheduler \<Rightarrow> int list" where
  "GetRunningTaskIds p s =
     foldl (\<lambda>ids (k, e). if re_state e = RUNNING then insort_insert (sint (rq_task_id (re_data e))) ids else ids)
       [] (list_at (sc_map s) p)"

definition IsRequestRunning :: "int \<Rightarrow> nat \<Rightarrow> int \<Rightarrow> scheduler \<Rightarrow> bool" where
  "IsRequestRunning p d reqId s =
     (case map_of (sc_map s) p of None \<Rightarrow> False
      | Some requests \<Rightarrow> (case map_of requests reqId of None \<Rightarrow> False | Some e \<Rightarrow> is_running_on d e))"

definition HasPendingRequest :: "int \<Rightarrow> int \<Rightarrow> scheduler \<Rightarrow> bool" where
  "HasPendingRequest p reqId s =
     (case map_of (sc_map s) p of None \<Rightarrow> False | Some requests \<Rightarrow> map_of requests reqId \<noteq> None)"

definition ClearRunningRequests :: "int \<Rightarrow> nat \<Rightarrow> scheduler \<Rightarrow> scheduler" where
  "ClearRunningRequests p d s =
     (case map_of (sc_map s) p of None \<Rightarrow> s
      | Some requests \<Rightarrow>
          s\<lparr>sc_map := m_put p (map (\<lambda>(k, e). (k, if is_running_on d e then e\<lparr>re_state := CANCELLED\<rparr> else e)) requests)
                       (sc_map s)\<rparr>)"

definition GetRunningRequestIds :: "int \<Rightarrow> nat \<Rightarrow> scheduler \<Rightarrow> int list" where
  "GetRunningRequestIds p d s = map fst (filter (\<lambda>(k, e). is_running_on d e) (list_at (sc_map s) p))"

end
