(* ===== verification/Bound_Manager.thy ===== *)
theory Bound_Manager
  imports Prelude
begin

section \<open>Bound options of a device\<close>

text \<open>
  \<^verbatim>\<open>src/lib/dxrt_service/bound_manager.cpp\<close>: a device registers NPU core assignments (bounds) with its
  scheduler; the manager counts how many tasks use each one, so that a bound is registered once and
  deregistered when its last user leaves. The answer of the driver to a command is the argument
  \<open>drv\<close>; \<open>bm_registered\<close> records what the driver was told successfully.
\<close>

datatype npu_bound_op =
  N_BOUND_NORMAL | N_BOUND_INF_ONLY_NPU0 | N_BOUND_INF_ONLY_NPU1 | N_BOUND_INF_ONLY_NPU2
| N_BOUND_INF_2_NPU_01 | N_BOUND_INF_2_NPU_12 | N_BOUND_INF_2_NPU_02

datatype sched_sub_cmd = DX_SCHED_ADD | DX_SCHED_DELETE

definition all_bounds :: "npu_bound_op list" where
  "all_bounds = [N_BOUND_NORMAL, N_BOUND_INF_ONLY_NPU0, N_BOUND_INF_ONLY_NPU1, N_BOUND_INF_ONLY_NPU2,
     N_BOUND_INF_2_NPU_01, N_BOUND_INF_2_NPU_12, N_BOUND_INF_2_NPU_02]"

record BoundManager =
  bm_count :: "npu_bound_op \<Rightarrow> int"
  bm_registered :: "npu_bound_op \<Rightarrow> bool"

type_synonym bound_driver = "sched_sub_cmd \<Rightarrow> npu_bound_op \<Rightarrow> int"

definition BoundManager_new :: BoundManager where
  "BoundManager_new = \<lparr>bm_count = (\<lambda>_. 0), bm_registered = (\<lambda>_. False)\<rparr>"

definition BoundOption :: "bound_driver \<Rightarrow> sched_sub_cmd \<Rightarrow> npu_bound_op \<Rightarrow> BoundManager \<Rightarrow> int \<times> BoundManager" where
  "BoundOption drv subCmd b m =
     (let ret = drv subCmd b
      in (ret, if ret = 0 then m\<lparr>bm_registered := (bm_registered m)(b := (subCmd = DX_SCHED_ADD))\<rparr> else m))"

definition AddBound :: "bound_driver \<Rightarrow> npu_bound_op \<Rightarrow> BoundManager \<Rightarrow> int \<times> BoundManager" where
  "AddBound drv b m =
     (if 0 < bm_count m b then (0, m\<lparr>bm_count := (bm_count m)(b := bm_count m b + 1)\<rparr>)
      else case BoundOption drv DX_SCHED_ADD b m of (ret, m1) \<Rightarrow>
        (ret, if ret = 0 then m1\<lparr>bm_count := (bm_count m1)(b := bm_count m1 b + 1)\<rparr> else m1))"

definition DeleteBound :: "bound_driver \<Rightarrow> npu_bound_op \<Rightarrow> BoundManager \<Rightarrow> int \<times> BoundManager" where
  "DeleteBound drv b m =
     (if 1 < bm_count m b then (0, m\<lparr>bm_count := (bm_count m)(b := bm_count m b - 1)\<rparr>)
      else case BoundOption drv DX_SCHED_DELETE b m of (ret, m1) \<Rightarrow>
        (ret, if ret = 0 then m1\<lparr>bm_count := (bm_count m1)(b := bm_count m1 b - 1)\<rparr> else m1))"

definition GetBoundCount :: "npu_bound_op \<Rightarrow> BoundManager \<Rightarrow> int" where
  "GetBoundCount b m = bm_count m b"

definition GetBoundTypeCount :: "BoundManager \<Rightarrow> nat" where
  "GetBoundTypeCount m = length (filter (\<lambda>b. 0 < bm_count m b) all_bounds)"

definition CanAcceptBound :: "npu_bound_op \<Rightarrow> BoundManager \<Rightarrow> bool" where
  "CanAcceptBound b m = (if 0 < bm_count m b then True else GetBoundTypeCount m < 3)"

subsection \<open>Reference counting\<close>

datatype bound_op = Add bound_driver npu_bound_op | Delete bound_driver npu_bound_op

fun run_bound :: "bound_op \<Rightarrow> BoundManager \<Rightarrow> BoundManager" where
  "run_bound (Add drv b) m = snd (AddBound drv b m)"
| "run_bound (Delete drv b) m = snd (DeleteBound drv b m)"

text \<open>Every add is preceded by the capacity check, every delete belongs to a counted add.\<close>

inductive bound_reachable :: "BoundManager \<Rightarrow> bool" where
  fresh: "bound_reachable BoundManager_new"
| add: "bound_reachable m \<Longrightarrow> CanAcceptBound b m \<Longrightarrow> bound_reachable (run_bound (Add drv b) m)"
| delete: "bound_reachable m \<Longrightarrow> 0 < GetBoundCount b m \<Longrightarrow> bound_reachable (run_bound (Delete drv b) m)"

inductive_cases bound_reachableE: "bound_reachable m"

definition bm_inv :: "BoundManager \<Rightarrow> bool" where
  "bm_inv m \<longleftrightarrow> (\<forall>b. 0 \<le> bm_count m b \<and> bm_registered m b = (0 < bm_count m b)) \<and> GetBoundTypeCount m \<le> 3"

lemma set_all_bounds [simp]: "b \<in> set all_bounds"
  by (cases b) (simp_all add: all_bounds_def)

lemma distinct_all_bounds: "distinct all_bounds"
  by (simp add: all_bounds_def)

lemma type_count_card: "GetBoundTypeCount m = card {b. 0 < bm_count m b}"
proof -
  have "GetBoundTypeCount m = card (set (filter (\<lambda>b. 0 < bm_count m b) all_bounds))"
    unfolding GetBoundTypeCount_def using distinct_all_bounds by (intro distinct_card [symmetric]) simp
  then show ?thesis by simp
qed

lemma finite_bounds [simp]: "finite (S :: npu_bound_op set)"
  by (rule finite_subset [of _ "set all_bounds"]) auto

lemma bm_inv_add:
  assumes "bm_inv m" "CanAcceptBound b m"
  shows "bm_inv (run_bound (Add drv b) m)"
proof -
  let ?m = "run_bound (Add drv b) m"
  have base: "\<forall>c. 0 \<le> bm_count ?m c \<and> bm_registered ?m c = (0 < bm_count ?m c)"
    using assms(1) by (auto simp: bm_inv_def AddBound_def BoundOption_def Let_def)
  have sub: "{c. 0 < bm_count ?m c} \<subseteq> insert b {c. 0 < bm_count m c}"
    by (auto simp: AddBound_def BoundOption_def Let_def split: if_splits)
  have "card {c. 0 < bm_count ?m c} \<le> 3"
  proof (cases "0 < bm_count m b")
    case True
    then have "insert b {c. 0 < bm_count m c} = {c. 0 < bm_count m c}" by auto
    with sub have "card {c. 0 < bm_count ?m c} \<le> card {c. 0 < bm_count m c}" by (simp add: card_mono)
    then show ?thesis using assms(1) by (simp add: bm_inv_def type_count_card)
  next
    case False
    have "card {c. 0 < bm_count ?m c} \<le> card (insert b {c. 0 < bm_count m c})" using sub by (simp add: card_mono)
    also have "\<dots> \<le> Suc (card {c. 0 < bm_count m c})" by (simp add: card_insert_le_m1 card_insert_if)
    finally show ?thesis using False assms(2) by (simp add: CanAcceptBound_def type_count_card)
  qed
  with base show ?thesis by (simp add: bm_inv_def type_count_card)
qed

lemma bm_inv_delete:
  assumes "bm_inv m" "0 < bm_count m b"
  shows "bm_inv (run_bound (Delete drv b) m)"
proof -
  let ?m = "run_bound (Delete drv b) m"
  have base: "\<forall>c. 0 \<le> bm_count ?m c \<and> bm_registered ?m c = (0 < bm_count ?m c)"
    using assms by (auto simp: bm_inv_def DeleteBound_def BoundOption_def Let_def)
  have "{c. 0 < bm_count ?m c} \<subseteq> {c. 0 < bm_count m c}"
    using assms(2) by (auto simp: DeleteBound_def BoundOption_def Let_def split: if_splits)
  then have "card {c. 0 < bm_count ?m c} \<le> card {c. 0 < bm_count m c}" by (simp add: card_mono)
  with base assms(1) show ?thesis by (simp add: bm_inv_def type_count_card)
qed

text \<open>
  Claim C19. Reference counting of bounds: however the driver answers, as long as adds pass the capacity
  check and deletes match counted adds, no count is negative, a bound is registered with the driver
  exactly while its count is positive, and at most three bound types are registered at a time.
\<close>
theorem bound_registration_exact:
  assumes "bound_reachable m"
  shows "(\<forall>b. 0 \<le> GetBoundCount b m \<and> bm_registered m b = (0 < GetBoundCount b m)) \<and> GetBoundTypeCount m \<le> 3"
proof -
  from assms have "bm_inv m"
  proof (induction rule: bound_reachable.induct)
    case fresh
    then show ?case by (simp add: bm_inv_def BoundManager_new_def GetBoundTypeCount_def)
  next
    case (add m b drv) then show ?case using bm_inv_add by blast
  next
    case (delete m b drv) then show ?case using bm_inv_delete by (simp add: GetBoundCount_def)
  qed
  then show ?thesis by (simp add: bm_inv_def GetBoundCount_def)
qed

theorem bound_registration_exact_witness:
  "bm_registered (run_bound (Add (\<lambda>_ _. 0) N_BOUND_NORMAL) BoundManager_new) N_BOUND_NORMAL
   \<and> GetBoundCount N_BOUND_NORMAL (run_bound (Add (\<lambda>_ _. 0) N_BOUND_NORMAL) BoundManager_new) = 1"
proof -
  have c: "GetBoundCount N_BOUND_NORMAL (run_bound (Add (\<lambda>_ _. 0) N_BOUND_NORMAL) BoundManager_new) = 1"
    "CanAcceptBound N_BOUND_NORMAL BoundManager_new" by code_simp+
  from bound_reachable.add [OF bound_reachable.fresh c(2)]
  have "bound_reachable (run_bound (Add (\<lambda>_ _. 0) N_BOUND_NORMAL) BoundManager_new)" .
  from bound_registration_exact [OF this] c show ?thesis by auto
qed

end
