(* ===== verification/Task_Info_Store.thy ===== *)
theory Task_Info_Store
  imports Bound_Manager "HOL-Library.Product_Lexorder"
begin

section \<open>The task records of the service\<close>

text \<open>
  \<^verbatim>\<open>src/lib/dxrt_service/process_task_info_store.hpp\<close> and \<^verbatim>\<open>process_with_device_info.cpp\<close>: the
  service keeps one record per (process, device, task), grouped by process and device. The
  groups are in a \<^verbatim>\<open>std::map\<close>; the tasks of a group are in a \<^verbatim>\<open>std::unordered_map\<close>, whose iteration
  order is not specified: the model visits them in key order, and the lemmas about the
  traversals speak of the set of visited tasks. \<open>getTaskInfo\<close> throws for an absent task, which
  is None. Every operation of the store runs under its mutex.

  The locale \<open>task_registry\<close> is the interface the service relies on: a partial function from
  (process, device, task) to records that \<open>add\<close> extends, \<open>remove\<close> and \<open>extract\<close> restrict. Its
  lemmas count the tasks of a device that use a bound.
\<close>

record TaskStaticConfig =
  cf_model_type :: int
  cf_model_format :: int
  cf_model_cmds :: u32
  cf_op_mode :: u32
  cf_cmd_offset :: u32
  cf_weight_offset :: u32
  cf_custom_offset :: u32
  cf_input_size :: u32
  cf_output_size :: u32
  cf_last_output_offset :: u32
  cf_output_all_offset :: u32
  cf_datas :: "u32 list"
  cf_memory_base :: u64

record InferenceContext =
  cx_config :: TaskStaticConfig
  cx_io_phys_addr_base :: u64
  cx_io_phys_addr_offset :: u64
  cx_io_buffer_size :: u32

record eachTaskInfo =
  ti_pid :: int
  ti_deviceId :: int
  ti_bound :: npu_bound_op
  ti_mem_usage :: u64
  ti_inferenceContext :: InferenceContext

record weight_info =
  wi_address :: u32
  wi_size :: u32
  wi_checksum :: u32

record ProcessWithDeviceInfo =
  pd_weightInfo :: "weight_info list"
  pd_taskInfo :: "(int, eachTaskInfo) omap"

subsection \<open>The tasks of one process on one device\<close>

definition ProcessWithDeviceInfo_new :: ProcessWithDeviceInfo where
  "ProcessWithDeviceInfo_new = \<lparr>pd_weightInfo = [], pd_taskInfo = []\<rparr>"

definition taskCount :: "ProcessWithDeviceInfo \<Rightarrow> nat" where
  "taskCount i = length (pd_taskInfo i)"

definition InsertWeightInfo :: "weight_info \<Rightarrow> ProcessWithDeviceInfo \<Rightarrow> ProcessWithDeviceInfo" where
  "InsertWeightInfo w i = i\<lparr>pd_weightInfo := List.insert w (pd_weightInfo i)\<rparr>"

definition EraseWeightInfo :: "weight_info \<Rightarrow> ProcessWithDeviceInfo \<Rightarrow> ProcessWithDeviceInfo" where
  "EraseWeightInfo w i = i\<lparr>pd_weightInfo := removeAll w (pd_weightInfo i)\<rparr>"

definition isEmpty :: "ProcessWithDeviceInfo \<Rightarrow> bool" where
  "isEmpty i \<longleftrightarrow> pd_weightInfo i = [] \<and> pd_taskInfo i = []"

definition group_hasTask :: "int \<Rightarrow> ProcessWithDeviceInfo \<Rightarrow> bool" where
  "group_hasTask t i \<longleftrightarrow> map_of (pd_taskInfo i) t \<noteq> None"

definition getTaskInfo :: "int \<Rightarrow> ProcessWithDeviceInfo \<Rightarrow> eachTaskInfo option" where
  "getTaskInfo t i = map_of (pd_taskInfo i) t"

definition getTaskBound :: "int \<Rightarrow> ProcessWithDeviceInfo \<Rightarrow> npu_bound_op option" where
  "getTaskBound t i = map_option ti_bound (getTaskInfo t i)"

definition deleteTaskFromMap :: "int \<Rightarrow> ProcessWithDeviceInfo \<Rightarrow> ProcessWithDeviceInfo" where
  "deleteTaskFromMap t i =
     (case map_of (pd_taskInfo i) t of None \<Rightarrow> i | Some _ \<Rightarrow> i\<lparr>pd_taskInfo := m_erase t (pd_taskInfo i)\<rparr>)"

text \<open>\<open>insert\<close> of a map does not overwrite.\<close>

definition InsertTaskInfo :: "int \<Rightarrow> eachTaskInfo \<Rightarrow> ProcessWithDeviceInfo \<Rightarrow> ProcessWithDeviceInfo" where
  "InsertTaskInfo t info i =
     (case map_of (pd_taskInfo i) t of Some _ \<Rightarrow> i | None \<Rightarrow> i\<lparr>pd_taskInfo := m_put t info (pd_taskInfo i)\<rparr>)"

text \<open>
  \<open>getTaskIdByIndex\<close>: the comparison with the size is the one of the source. Past it the iterator
  is advanced beyond the end, which is None.
\<close>

definition getTaskIdByIndex :: "int \<Rightarrow> ProcessWithDeviceInfo \<Rightarrow> int option" where
  "getTaskIdByIndex index i =
     (if index < 0 then Some (-1)
      else if nat index \<le> length (pd_taskInfo i) then Some (-1)
      else None)"

definition firstTaskNumber :: "ProcessWithDeviceInfo \<Rightarrow> int option" where
  "firstTaskNumber i = getTaskIdByIndex 0 i"

definition getTaskIds :: "ProcessWithDeviceInfo \<Rightarrow> int list" where
  "getTaskIds i = map fst (pd_taskInfo i)"

definition getBoundCounts :: "ProcessWithDeviceInfo \<Rightarrow> npu_bound_op \<Rightarrow> nat" where
  "getBoundCounts i = foldl (\<lambda>r (t, info). r(ti_bound info := r (ti_bound info) + 1)) (\<lambda>_. 0) (pd_taskInfo i)"

subsection \<open>The store\<close>

type_synonym task_store = "(int \<times> int, ProcessWithDeviceInfo) omap"

definition addTask ::
  "int \<Rightarrow> int \<Rightarrow> int \<Rightarrow> npu_bound_op \<Rightarrow> u64 \<Rightarrow> InferenceContext \<Rightarrow> task_store \<Rightarrow> bool \<times> task_store" where
  "addTask p d t bound memUsage context st =
     (let info = (case map_of st (p, d) of None \<Rightarrow> ProcessWithDeviceInfo_new | Some i \<Rightarrow> i)
      in if group_hasTask t info then (False, m_put (p, d) info st)
         else (True, m_put (p, d)
                (InsertTaskInfo t \<lparr>ti_pid = p, ti_deviceId = d, ti_bound = bound, ti_mem_usage = memUsage,
                   ti_inferenceContext = context\<rparr> info) st))"

definition setIoBuffer :: "int \<Rightarrow> int \<Rightarrow> int \<Rightarrow> u64 \<Rightarrow> u64 \<Rightarrow> u32 \<Rightarrow> task_store \<Rightarrow> bool \<times> task_store" where
  "setIoBuffer p d t base off sz st =
     (case map_of st (p, d) of
        None \<Rightarrow> (False, st)
      | Some info \<Rightarrow>
          (case map_of (pd_taskInfo info) t of
             None \<Rightarrow> (False, st)
           | Some ctx \<Rightarrow>
               let ctx' = ctx\<lparr>ti_inferenceContext := (ti_inferenceContext ctx)
                     \<lparr>cx_io_phys_addr_base := base, cx_io_phys_addr_offset := off, cx_io_buffer_size := sz\<rparr>\<rparr>
               in (True, m_put (p, d) (info\<lparr>pd_taskInfo := m_put t ctx' (pd_taskInfo info)\<rparr>) st)))"

text \<open>\<open>removeTask\<close> returns the bound through its output argument when the task was there.\<close>

definition removeTask :: "int \<Rightarrow> int \<Rightarrow> int \<Rightarrow> task_store \<Rightarrow> npu_bound_op option \<times> task_store" where
  "removeTask p d t st =
     (case map_of st (p, d) of
        None \<Rightarrow> (None, st)
      | Some info \<Rightarrow>
          if \<not> group_hasTask t info then (None, st)
          else
            let info' = deleteTaskFromMap t info
            in (getTaskBound t info,
                if taskCount info' = 0 then m_erase (p, d) st else m_put (p, d) info' st))"

definition hasTask :: "int \<Rightarrow> int \<Rightarrow> int \<Rightarrow> task_store \<Rightarrow> bool" where
  "hasTask p d t st = (case map_of st (p, d) of None \<Rightarrow> False | Some info \<Rightarrow> group_hasTask t info)"

definition extractTaskIds :: "int \<Rightarrow> int \<Rightarrow> task_store \<Rightarrow> int list \<times> task_store" where
  "extractTaskIds p d st =
     (case map_of st (p, d) of None \<Rightarrow> ([], st) | Some info \<Rightarrow> (getTaskIds info, m_erase (p, d) st))"

definition extractTaskIdsWithBound :: "int \<Rightarrow> int \<Rightarrow> task_store \<Rightarrow> (int \<times> npu_bound_op) list \<times> task_store" where
  "extractTaskIdsWithBound p d st =
     (case map_of st (p, d) of
        None \<Rightarrow> ([], st)
      | Some info \<Rightarrow>
          (map (\<lambda>t. (t, the (getTaskBound t info))) (getTaskIds info), m_erase (p, d) st))"

subsection \<open>The registry interface\<close>

text \<open>Number of tasks of device \<open>d\<close> that use \<open>b\<close>, in a registry of (process, device, task) keys.\<close>

definition users :: "(int \<times> int \<times> int \<Rightarrow> 'b option) \<Rightarrow> int \<Rightarrow> 'b \<Rightarrow> nat" where
  "users T d b = card {k. fst (snd k) = d \<and> T k = Some b}"

lemma users_cong: "(\<And>p t. T (p, d, t) = T' (p, d, t)) \<Longrightarrow> users T d b = users T' d b"
  unfolding users_def by (rule arg_cong [of _ _ card]) auto

lemma users_update:
  assumes "finite (dom T)" "T (p, d, t) = None"
  shows "users (T((p, d, t) \<mapsto> b)) e c = users T e c + (if e = d \<and> c = b then 1 else 0)"
proof -
  let ?S = "{k. fst (snd k) = e \<and> T k = Some c}"
  have "{k. fst (snd k) = e \<and> (T((p, d, t) \<mapsto> b)) k = Some c} = (if e = d \<and> c = b then insert (p, d, t) ?S else ?S)"
    using assms(2) by auto
  moreover have "finite ?S" by (rule finite_subset [OF _ assms(1)]) auto
  moreover have "(p, d, t) \<notin> ?S" using assms(2) by simp
  ultimately show ?thesis unfolding users_def by (cases "e = d \<and> c = b") (auto simp del: mem_Collect_eq fun_upd_apply)
qed

locale task_registry =
  fixes ok :: "'s \<Rightarrow> bool"
    and tasks :: "'s \<Rightarrow> int \<times> int \<times> int \<Rightarrow> 'b option"
    and add :: "'x \<Rightarrow> int \<Rightarrow> int \<Rightarrow> int \<Rightarrow> 'b \<Rightarrow> 's \<Rightarrow> bool \<times> 's"
    and remove :: "int \<Rightarrow> int \<Rightarrow> int \<Rightarrow> 's \<Rightarrow> 'b option \<times> 's"
    and ext :: "int \<Rightarrow> int \<Rightarrow> 's \<Rightarrow> (int \<times> 'b) list \<times> 's"
  assumes finite_tasks: "ok s \<Longrightarrow> finite (dom (tasks s))"
    and add_ok: "ok s \<Longrightarrow> ok (snd (add x p d t b s))"
    and add_result: "ok s \<Longrightarrow> fst (add x p d t b s) \<longleftrightarrow> tasks s (p, d, t) = None"
    and add_tasks: "ok s \<Longrightarrow>
      tasks (snd (add x p d t b s)) = (if tasks s (p, d, t) = None then (tasks s)((p, d, t) \<mapsto> b) else tasks s)"
    and remove_ok: "ok s \<Longrightarrow> ok (snd (remove p d t s))"
    and remove_result: "ok s \<Longrightarrow> fst (remove p d t s) = tasks s (p, d, t)"
    and remove_tasks: "ok s \<Longrightarrow> tasks (snd (remove p d t s)) = (tasks s)((p, d, t) := None)"
    and ext_ok: "ok s \<Longrightarrow> ok (snd (ext p d s))"
    and ext_distinct: "ok s \<Longrightarrow> distinct (map fst (fst (ext p d s)))"
    and ext_result: "ok s \<Longrightarrow> (t, b) \<in> set (fst (ext p d s)) \<longleftrightarrow> tasks s (p, d, t) = Some b"
    and ext_tasks: "ok s \<Longrightarrow>
      tasks (snd (ext p d s)) = (\<lambda>(q, e, t). if q = p \<and> e = d then None else tasks s (q, e, t))"
begin

lemma finite_users: "ok s \<Longrightarrow> finite {k. fst (snd k) = d \<and> tasks s k = Some b}"
  by (rule finite_subset [OF _ finite_tasks]) auto

lemma users_add:
  assumes "ok s"
  shows "users (tasks (snd (add x p d t b s))) e c
    = users (tasks s) e c + (if fst (add x p d t b s) \<and> e = d \<and> c = b then 1 else 0)"
  using users_update [OF finite_tasks [OF assms], of p d t b e c]
  by (cases "tasks s (p, d, t) = None") (simp_all only: add_tasks [OF assms] add_result [OF assms] if_True if_False simp_thms add_0_right)

lemma users_remove:
  assumes "ok s"
  shows "users (tasks s) e c
    = users (tasks (snd (remove p d t s))) e c + (if fst (remove p d t s) = Some c \<and> e = d then 1 else 0)"
proof (cases "tasks s (p, d, t)")
  case None
  then have "(tasks s)((p, d, t) := None) = tasks s" by auto
  with None show ?thesis by (simp add: remove_tasks [OF assms] remove_result [OF assms])
next
  case (Some b)
  then have "tasks s = ((tasks s)((p, d, t) := None))((p, d, t) \<mapsto> b)" by auto
  moreover have "finite (dom ((tasks s)((p, d, t) := None)))" using finite_tasks [OF assms] by simp
  ultimately show ?thesis
    using users_update [of "(tasks s)((p, d, t) := None)" p d t b e c] Some
    by (simp add: remove_tasks [OF assms] remove_result [OF assms])
qed

lemma users_ext:
  assumes "ok s"
  shows "users (tasks s) e c = users (tasks (snd (ext p d s))) e c
    + (if e = d then length (filter (\<lambda>r. snd r = c) (fst (ext p d s))) else 0)"
proof -
  let ?es = "fst (ext p d s)" and ?s = "snd (ext p d s)"
  let ?E = "if e = d then (\<lambda>t. (p, d, t)) ` fst ` set (filter (\<lambda>r. snd r = c) ?es) else {}"
  let ?R = "{k. fst (snd k) = e \<and> tasks ?s k = Some c}"
  have mem: "k \<in> ?E \<longleftrightarrow> fst k = p \<and> e = d \<and> fst (snd k) = d \<and> tasks s k = Some c" for k
    using ext_result [OF assms, of "snd (snd k)" c p d] by (cases k) (force simp: image_iff)
  have "{k. fst (snd k) = e \<and> tasks s k = Some c} = ?R \<union> ?E"
    unfolding set_eq_iff Un_iff mem by (auto simp: ext_tasks [OF assms])
  moreover have "?R \<inter> ?E = {}" by (auto simp: ext_tasks [OF assms])
  moreover have "finite ?R" "finite ?E" using finite_users [OF ext_ok [OF assms]] by auto
  ultimately have "users (tasks s) e c = users (tasks ?s) e c + card ?E"
    by (simp add: users_def card_Un_disjoint)
  moreover have "card ?E = (if e = d then length (filter (\<lambda>r. snd r = c) ?es) else 0)"
  proof -
    have "distinct (map fst (filter (\<lambda>r. snd r = c) ?es))"
      using ext_distinct [OF assms] by (simp add: distinct_map_filter)
    from distinct_card [OF this] show ?thesis by (simp add: card_image inj_on_def)
  qed
  ultimately show ?thesis by simp
qed

end

subsection \<open>The store implements the registry\<close>

definition task_at :: "task_store \<Rightarrow> int \<times> int \<times> int \<Rightarrow> eachTaskInfo option" where
  "task_at st = (\<lambda>(p, d, t). case map_of st (p, d) of None \<Rightarrow> None | Some i \<Rightarrow> map_of (pd_taskInfo i) t)"

definition task_bounds :: "task_store \<Rightarrow> int \<times> int \<times> int \<Rightarrow> npu_bound_op option" where
  "task_bounds st k = map_option ti_bound (task_at st k)"

text \<open>Well-formed stores: ordered containers, and no group without tasks.\<close>

definition store_ok :: "task_store \<Rightarrow> bool" where
  "store_ok st \<longleftrightarrow> m_ok st \<and> (\<forall>(k, i) \<in> set st. m_ok (pd_taskInfo i) \<and> pd_taskInfo i \<noteq> [])"

lemma store_ok_group: "store_ok st \<Longrightarrow> map_of st k = Some i \<Longrightarrow> m_ok (pd_taskInfo i) \<and> pd_taskInfo i \<noteq> []"
  unfolding store_ok_def by (auto dest: map_of_SomeD)

lemma store_ok_put: "store_ok st \<Longrightarrow> m_ok (pd_taskInfo i) \<Longrightarrow> pd_taskInfo i \<noteq> [] \<Longrightarrow> store_ok (m_put k i st)"
  using set_m_put_subset [of k i st] unfolding store_ok_def by fastforce

lemma store_ok_erase: "store_ok st \<Longrightarrow> store_ok (m_erase k st)"
  unfolding store_ok_def by (auto simp: m_erase_def) (metis m_erase_def m_ok_m_erase)

lemma m_put_same: "m_ok m \<Longrightarrow> map_of m k = Some v \<Longrightarrow> m_put k v m = m"
  using m_find_split [of m k v] by (auto simp: omap_split)

lemma m_put_not_Nil [simp]: "m_put k v m \<noteq> []"
  by (cases "(k, v, m)" rule: m_put.cases) auto

lemma hasTask_iff: "hasTask p d t st \<longleftrightarrow> task_at st (p, d, t) \<noteq> None"
  by (auto simp: hasTask_def task_at_def group_hasTask_def split: option.splits)

lemma finite_task_at: "finite (dom (task_at st))"
proof -
  have "dom (task_at st) \<subseteq> (\<lambda>((p, d), t). (p, d, t)) ` (SIGMA k:dom (map_of st). dom (map_of (pd_taskInfo (the (map_of st k)))))"
    by (force simp: task_at_def image_iff split: option.splits)
  then show ?thesis by (rule finite_subset) (auto intro!: finite_imageI finite_SigmaI finite_dom_map_of)
qed

lemma addTask_cases:
  assumes "store_ok st"
  shows "store_ok (snd (addTask p d t b u c st))"
    "fst (addTask p d t b u c st) \<longleftrightarrow> task_at st (p, d, t) = None"
    "task_at (snd (addTask p d t b u c st)) = (if task_at st (p, d, t) = None
       then (task_at st)((p, d, t) \<mapsto> \<lparr>ti_pid = p, ti_deviceId = d, ti_bound = b, ti_mem_usage = u, ti_inferenceContext = c\<rparr>)
       else task_at st)"
proof -
  have i: "m_ok (pd_taskInfo i)" if "map_of st (p, d) = Some i" for i using store_ok_group [OF assms that] by simp
  have m: "m_ok st" using assms by (simp add: store_ok_def)
  show "store_ok (snd (addTask p d t b u c st))"
    using i store_ok_group [OF assms]
    by (auto simp: addTask_def Let_def InsertTaskInfo_def group_hasTask_def ProcessWithDeviceInfo_new_def
        m_ok_Cons split: option.splits intro!: store_ok_put [OF assms])
  show "fst (addTask p d t b u c st) \<longleftrightarrow> task_at st (p, d, t) = None"
    by (auto simp: addTask_def Let_def group_hasTask_def task_at_def ProcessWithDeviceInfo_new_def split: option.splits)
  show "task_at (snd (addTask p d t b u c st)) = (if task_at st (p, d, t) = None
       then (task_at st)((p, d, t) \<mapsto> \<lparr>ti_pid = p, ti_deviceId = d, ti_bound = b, ti_mem_usage = u, ti_inferenceContext = c\<rparr>)
       else task_at st)"
    using m by (auto simp: addTask_def Let_def group_hasTask_def task_at_def ProcessWithDeviceInfo_new_def
        InsertTaskInfo_def fun_eq_iff m_put_same split: option.splits)
qed

lemma removeTask_cases:
  assumes "store_ok st"
  shows "store_ok (snd (removeTask p d t st))"
    "fst (removeTask p d t st) = task_bounds st (p, d, t)"
    "task_at (snd (removeTask p d t st)) = (task_at st)((p, d, t) := None)"
proof -
  show "store_ok (snd (removeTask p d t st))"
    using store_ok_group [OF assms] assms
    by (auto simp: removeTask_def Let_def deleteTaskFromMap_def taskCount_def split: option.splits
        intro!: store_ok_put store_ok_erase)
  show "fst (removeTask p d t st) = task_bounds st (p, d, t)"
    by (auto simp: removeTask_def Let_def task_bounds_def task_at_def getTaskBound_def getTaskInfo_def group_hasTask_def
        split: option.splits)
  show "task_at (snd (removeTask p d t st)) = (task_at st)((p, d, t) := None)"
  proof (cases "map_of st (p, d)")
    case (Some i)
    have last: "map_of (pd_taskInfo i) u = None" if "m_erase t (pd_taskInfo i) = []" "u \<noteq> t" for u
      using that(2) map_of_m_erase [of t "pd_taskInfo i"] unfolding that(1) by (metis fun_upd_other map_of.simps(1))
    show ?thesis
      using Some last by (auto simp: removeTask_def Let_def task_at_def deleteTaskFromMap_def taskCount_def
          group_hasTask_def fun_eq_iff split: option.splits)
  qed (auto simp: removeTask_def task_at_def fun_eq_iff)
qed

lemma extract_cases:
  assumes "store_ok st"
  shows "store_ok (snd (extractTaskIdsWithBound p d st))"
    "distinct (map fst (fst (extractTaskIdsWithBound p d st)))"
    "(t, b) \<in> set (fst (extractTaskIdsWithBound p d st)) \<longleftrightarrow> task_bounds st (p, d, t) = Some b"
    "task_at (snd (extractTaskIdsWithBound p d st)) = (\<lambda>(q, e, t). if q = p \<and> e = d then None else task_at st (q, e, t))"
proof -
  show "store_ok (snd (extractTaskIdsWithBound p d st))"
    using assms by (auto simp: extractTaskIdsWithBound_def split: option.splits intro!: store_ok_erase)
  show "distinct (map fst (fst (extractTaskIdsWithBound p d st)))"
    using store_ok_group [OF assms] m_ok_distinct
    by (auto simp: extractTaskIdsWithBound_def getTaskIds_def comp_def split: option.splits)
  show "(t, b) \<in> set (fst (extractTaskIdsWithBound p d st)) \<longleftrightarrow> task_bounds st (p, d, t) = Some b"
    using store_ok_group [OF assms, of "(p, d)"]
    by (auto simp: extractTaskIdsWithBound_def task_bounds_def task_at_def getTaskIds_def getTaskBound_def
        getTaskInfo_def m_ok_map_of_iff image_iff split: option.splits) (metis m_ok_map_of_iff option.sel option.map_sel option.simps(3) fst_conv)+
  show "task_at (snd (extractTaskIdsWithBound p d st)) = (\<lambda>(q, e, t). if q = p \<and> e = d then None else task_at st (q, e, t))"
    by (auto simp: extractTaskIdsWithBound_def task_at_def fun_eq_iff split: option.splits)
qed

interpretation store: task_registry store_ok task_bounds "\<lambda>(u, c) p d t b. addTask p d t b u c" removeTask
  extractTaskIdsWithBound
proof (unfold_locales, goal_cases)
  case (1 s)
  have "dom (task_bounds s) = dom (task_at s)" by (auto simp: task_bounds_def)
  then show ?case using finite_task_at [of s] by simp
next
  case (4 s x p d t b)
  then show ?case by (cases x) (auto simp: task_bounds_def fun_eq_iff addTask_cases(3) [OF 4])
next
  case (7 s p d t)
  then show ?case by (auto simp: task_bounds_def fun_eq_iff removeTask_cases(3) [OF 7])
next
  case (11 s p d)
  then show ?case by (auto simp: task_bounds_def fun_eq_iff extract_cases(4) [OF 11])
qed (auto simp: addTask_cases removeTask_cases extract_cases task_bounds_def split: prod.splits)

end
