(* ===== verification/Memfd_Service.thy ===== *)
theory Memfd_Service
  imports Prelude
begin

section \<open>Shared memory blocks\<close>

text \<open>
  \<^verbatim>\<open>src/lib/dynamic_ipc/shm/memfd_service.cpp\<close>: the shared memory blocks the service hands to its
  clients, registered by file descriptor and by block id. What the operating system answers to
  the calls that create, map and seal a descriptor is the argument \<open>sys\<close>; a null address is 0
  and an invalid descriptor is -1. \<open>mf_open\<close> is the set of descriptors that were created and not
  closed. The block id counter of the source is a global variable.
\<close>

record SharedMemoryInfo =
  si_block_id :: int
  si_size :: u64
  si_ptr :: u64
  si_phys_addr_base :: u64
  si_phys_addr_offset :: u64
  si_deviceid :: int
  si_taskId :: int
  si_pid :: int
  si_fd :: int

definition phys_addr :: "SharedMemoryInfo \<Rightarrow> u64" where
  "phys_addr i = si_phys_addr_base i + si_phys_addr_offset i"

datatype MemFDErrorCode = CREATE_FAILED | INVALID_SIZE | MMAP_FAILED | SEAL_FAILED

fun error_code :: "MemFDErrorCode \<Rightarrow> int" where
  "error_code CREATE_FAILED = 1"
| "error_code INVALID_SIZE = 3"
| "error_code MMAP_FAILED = 9"
| "error_code SEAL_FAILED = 14"

record memfd_sys =
  sys_create :: "u64 \<Rightarrow> int"
  sys_map :: "int \<Rightarrow> u64 \<Rightarrow> u64"
  sys_seal :: "int \<Rightarrow> bool"
  sys_getpid :: int

record MemFDService =
  mf_memories :: "(int, SharedMemoryInfo) omap"
  mf_block_id_to_fd :: "(u64, int) omap"
  mf_block_id_counter :: u64
  mf_open :: "int list"

definition MemFDService_new :: MemFDService where
  "MemFDService_new = \<lparr>mf_memories = [], mf_block_id_to_fd = [], mf_block_id_counter = 1, mf_open = []\<rparr>"

definition CreateSharedMemory ::
  "memfd_sys \<Rightarrow> u64 \<Rightarrow> int \<Rightarrow> int \<Rightarrow> MemFDService \<Rightarrow> (MemFDErrorCode + SharedMemoryInfo) \<times> MemFDService" where
  "CreateSharedMemory sys sz task_id device_id m =
     (if sz = 0 then (Inl INVALID_SIZE, m)
      else
        let blockId = sint (ucast (mf_block_id_counter m) :: u32);
            m1 = m\<lparr>mf_block_id_counter := mf_block_id_counter m + 1\<rparr>;
            fd = sys_create sys sz
        in if fd = -1 then (Inl CREATE_FAILED, m1)
           else
             let m2 = m1\<lparr>mf_open := fd # mf_open m1\<rparr>;
                 closed = m2\<lparr>mf_open := remove1 fd (mf_open m2)\<rparr>;
                 addr = sys_map sys fd sz
             in if addr = 0 then (Inl MMAP_FAILED, closed)
                else if \<not> sys_seal sys fd then (Inl SEAL_FAILED, closed)
                else
                  let info = \<lparr>si_block_id = blockId, si_size = sz, si_ptr = addr, si_phys_addr_base = 0,
                        si_phys_addr_offset = 0, si_deviceid = device_id, si_taskId = task_id,
                        si_pid = sys_getpid sys, si_fd = fd\<rparr>
                  in (Inr info,
                      m2\<lparr>mf_memories := m_put fd info (mf_memories m2),
                         mf_block_id_to_fd := m_put (word_of_int blockId) fd (mf_block_id_to_fd m2)\<rparr>))"

definition GetMemoryInfo :: "int \<Rightarrow> MemFDService \<Rightarrow> SharedMemoryInfo option" where
  "GetMemoryInfo fd m = map_of (mf_memories m) fd"

definition GetMemoryInfoByBlockId :: "u64 \<Rightarrow> MemFDService \<Rightarrow> SharedMemoryInfo option" where
  "GetMemoryInfoByBlockId block_id m =
     (case map_of (mf_block_id_to_fd m) block_id of None \<Rightarrow> None | Some fd \<Rightarrow> map_of (mf_memories m) fd)"

definition GetAllMemories :: "MemFDService \<Rightarrow> SharedMemoryInfo list" where
  "GetAllMemories m = map snd (mf_memories m)"

definition ReleaseSharedMemory :: "int \<Rightarrow> MemFDService \<Rightarrow> bool \<times> MemFDService" where
  "ReleaseSharedMemory fd m =
     (case map_of (mf_memories m) fd of
        None \<Rightarrow> (False, m)
      | Some info \<Rightarrow>
          (True, m\<lparr>mf_open := remove1 (si_fd info) (mf_open m),
                   mf_block_id_to_fd := m_erase (word_of_int (si_block_id info)) (mf_block_id_to_fd m),
                   mf_memories := m_erase fd (mf_memories m)\<rparr>))"

definition CleanupAll :: "MemFDService \<Rightarrow> MemFDService" where
  "CleanupAll m =
     m\<lparr>mf_open := fold (\<lambda>(fd, info). remove1 (si_fd info)) (mf_memories m) (mf_open m),
       mf_memories := [], mf_block_id_to_fd := []\<rparr>"

definition GetStatistics :: "MemFDService \<Rightarrow> nat \<times> u64" where
  "GetStatistics m = foldl (\<lambda>(k, total) (fd, info). (k + 1, total + si_size info)) (0, 0) (mf_memories m)"

subsection \<open>Descriptors are not leaked\<close>

text \<open>
  Every open descriptor is registered, once, under its own number. The hypothesis of the create
  step is what the operating system documents: a new descriptor differs from the open ones.
\<close>

definition memfd_ok :: "MemFDService \<Rightarrow> bool" where
  "memfd_ok m \<longleftrightarrow> m_ok (mf_memories m) \<and> m_ok (mf_block_id_to_fd m) \<and> distinct (mf_open m)
     \<and> set (mf_open m) = fst ` set (mf_memories m) \<and> (\<forall>(fd, info) \<in> set (mf_memories m). si_fd info = fd)"

lemma memfd_ok_new [simp]: "memfd_ok MemFDService_new"
  by (simp add: memfd_ok_def MemFDService_new_def)

lemma memfd_ok_fd: "memfd_ok m \<Longrightarrow> map_of (mf_memories m) fd = Some info \<Longrightarrow> si_fd info = fd"
  by (auto simp: memfd_ok_def dest: map_of_SomeD)

lemma fst_set_m_put: "fst ` set (m_put k v m) = insert k (fst ` set m)"
  by (induction k v m rule: m_put.induct) auto

lemma fst_set_m_erase: "fst ` set (m_erase k m) = fst ` set m - {k}"
  by (auto simp: m_erase_def)

lemma CreateSharedMemory_ok:
  assumes "memfd_ok m" "sys_create sys sz \<notin> set (mf_open m)"
  shows "memfd_ok (snd (CreateSharedMemory sys sz t d m))"
  using assms set_m_put_subset [of "sys_create sys sz" _ "mf_memories m"]
  unfolding memfd_ok_def CreateSharedMemory_def Let_def
  by (auto simp: fst_set_m_put, fastforce+)

lemma ReleaseSharedMemory_ok:
  assumes "memfd_ok m"
  shows "memfd_ok (snd (ReleaseSharedMemory fd m))"
proof (cases "map_of (mf_memories m) fd")
  case (Some info)
  with memfd_ok_fd [OF assms] have "si_fd info = fd" .
  moreover have "set (m_erase fd (mf_memories m)) \<subseteq> set (mf_memories m)" by (auto simp: m_erase_def)
  ultimately show ?thesis using assms Some unfolding memfd_ok_def ReleaseSharedMemory_def
    by (auto simp: fst_set_m_erase set_remove1_eq)
qed (use assms in \<open>simp add: ReleaseSharedMemory_def\<close>)

text \<open>A registered descriptor is open until it is released, and not after.\<close>

lemma ReleaseSharedMemory_closes:
  "memfd_ok m \<Longrightarrow> fd \<in> set (mf_open m) \<Longrightarrow>
     fst (ReleaseSharedMemory fd m) \<and> set (mf_open (snd (ReleaseSharedMemory fd m))) = set (mf_open m) - {fd}"
proof -
  assume m: "memfd_ok m" "fd \<in> set (mf_open m)"
  then obtain info where i: "map_of (mf_memories m) fd = Some info"
    unfolding memfd_ok_def by (auto simp: m_ok_map_of_iff)
  with memfd_ok_fd [OF m(1)] have "si_fd info = fd" .
  with i m(1) show ?thesis by (simp add: ReleaseSharedMemory_def memfd_ok_def set_remove1_eq)
qed

end
