(* ===== verification/Dxrt_Service.thy ===== *)
theory Dxrt_Service
  imports Memory_Service Scheduler Task_Info_Store Memfd_Service
begin

unbundle bit_operations_syntax

section \<open>The service process\<close>

text \<open>
  \<^verbatim>\<open>src/lib/dxrt_service/dxrt_service_v2.cpp\<close>: the request handlers of the daemon that owns the
  devices. It composes the memory services, the scheduler, the bound managers, the task store
  and the shared memory blocks: a client registers a task, allocates device memory for it,
  submits inference requests and releases everything, explicitly or by disconnecting. The
  memory of a task with requests in flight is released later, when the scheduler reports the
  task drained (\<open>_pendingTaskFree\<close>).

  One handler runs at a time in the model. What the driver and the operating system answer is
  the argument \<open>env\<close>. \<open>_devices[deviceId]\<close> outside the vector and a bound outside the array of the
  bound manager are \<open>Invalid_access\<close>; a failed assertion is \<open>Abort\<close>. Sending packets, logging and
  waiting are left out; a DMA transfer handed to a device is recorded in \<open>sv_dma\<close>.
\<close>

record service_device =
  sd_mem_addr :: u64
  sd_isBlocked :: bool
  sd_bounds :: BoundManager

record SharedMemHandle =
  sh_fd :: int
  sh_ptr :: u64
  sh_size :: u64
  sh_physAddrOffset :: u64

type_synonym handle_map = "(int, (int, (u64, SharedMemHandle) omap) omap) omap"

text \<open>A transfer: device, write or read, host address, device base, and the 32-bit offset and size.\<close>

record dma_transfer =
  dt_device :: int
  dt_write :: bool
  dt_data :: u64
  dt_base :: u64
  dt_offset :: u32
  dt_size :: u32

record DxrtServiceV2 =
  sv_devices :: "service_device list"
  sv_scheduler :: scheduler
  sv_pidSet :: "int list"
  sv_taskInfoStore :: task_store
  sv_pendingTaskFree :: "(int \<times> int, int) omap"
  sv_sharedMemoryHandles :: handle_map
  sv_memoryServices :: "(int, MemoryService) omap"
  sv_memfdService :: MemFDService
  sv_pendingDmaOperations :: int
  sv_recoveryInProgress :: bool
  sv_dma :: "dma_transfer list"

record service_env =
  ev_num_dma_ch :: "nat \<Rightarrow> int"
  ev_process :: "nat \<Rightarrow> request_acc \<Rightarrow> int"
  ev_bound :: "nat \<Rightarrow> bound_driver"
  ev_memfd :: memfd_sys

datatype 'r handled = Invalid_access | Abort | Handled 'r DxrtServiceV2

fun and_then :: "'r handled \<Rightarrow> ('r \<Rightarrow> DxrtServiceV2 \<Rightarrow> 'q handled) \<Rightarrow> 'q handled" where
  "and_then (Handled r S) f = f r S"
| "and_then Invalid_access f = Invalid_access"
| "and_then Abort f = Abort"

definition EINVAL_v :: int where "EINVAL_v = 22"
definition EALREADY :: int where "EALREADY = 114"

subsection \<open>Access to the parts\<close>

definition device_at :: "DxrtServiceV2 \<Rightarrow> int \<Rightarrow> service_device option" where
  "device_at S d = (if 0 \<le> d \<and> nat d < length (sv_devices S) then Some (sv_devices S ! nat d) else None)"

definition GetMemoryService :: "int \<Rightarrow> DxrtServiceV2 \<Rightarrow> MemoryService option" where
  "GetMemoryService d S = map_of (sv_memoryServices S) d"

definition put_memory :: "int \<Rightarrow> MemoryService \<Rightarrow> DxrtServiceV2 \<Rightarrow> DxrtServiceV2" where
  "put_memory d mem S = S\<lparr>sv_memoryServices := m_put d mem (sv_memoryServices S)\<rparr>"

definition put_bounds :: "int \<Rightarrow> BoundManager \<Rightarrow> DxrtServiceV2 \<Rightarrow> DxrtServiceV2" where
  "put_bounds d bm S = S\<lparr>sv_devices := (sv_devices S)[nat d := (sv_devices S ! nat d)\<lparr>sd_bounds := bm\<rparr>]\<rparr>"

text \<open>\<open>static_cast<npu_bound_op>\<close> of an integer: None when no enumerator has the value.\<close>

definition bound_of :: "int \<Rightarrow> npu_bound_op option" where
  "bound_of b = (if 0 \<le> b \<and> nat b < length all_bounds then Some (all_bounds ! nat b) else None)"

definition Service_IsTaskValid :: "int \<Rightarrow> int \<Rightarrow> int \<Rightarrow> DxrtServiceV2 \<Rightarrow> bool" where
  "Service_IsTaskValid p d t S =
     (if \<not> hasTask p d t (sv_taskInfoStore S) then False
      else case GetMemoryService d S of None \<Rightarrow> False | Some mem \<Rightarrow> IsTaskValid p t mem)"

definition validateTask :: "int \<Rightarrow> int \<Rightarrow> int \<Rightarrow> DxrtServiceV2 \<Rightarrow> bool" where
  "validateTask p d t S = Service_IsTaskValid p d t S"

text \<open>What the scheduler asks its listener and its devices, in the current state of the service.\<close>

definition sched_env_of :: "service_env \<Rightarrow> DxrtServiceV2 \<Rightarrow> sched_env" where
  "sched_env_of env S =
     \<lparr>env_validateTask = (\<lambda>p d t. validateTask p (int d) (sint t) S),
      env_isBlocked = (\<lambda>d. case device_at S (int d) of None \<Rightarrow> False | Some dev \<Rightarrow> sd_isBlocked dev),
      env_num_dma_ch = ev_num_dma_ch env, env_process = ev_process env\<rparr>"

subsection \<open>Shared memory handles\<close>

definition TrackSharedMemoryHandle :: "int \<Rightarrow> int \<Rightarrow> SharedMemoryInfo \<Rightarrow> DxrtServiceV2 \<Rightarrow> DxrtServiceV2" where
  "TrackSharedMemoryHandle d p info S =
     (let handle = \<lparr>sh_fd = si_fd info, sh_ptr = si_ptr info, sh_size = si_size info,
                    sh_physAddrOffset = si_phys_addr_offset info\<rparr>;
          procs = list_at (sv_sharedMemoryHandles S) d;
          addrMap = m_put (si_phys_addr_offset info) handle (m_put (phys_addr info) handle (list_at procs p));
          addrMap' = (if 0 < si_block_id info then m_put (word_of_int (si_block_id info)) handle addrMap else addrMap)
      in S\<lparr>sv_sharedMemoryHandles := m_put d (m_put p addrMap' procs) (sv_sharedMemoryHandles S)\<rparr>)"

definition TryGetSharedMemoryHandle :: "int \<Rightarrow> int \<Rightarrow> u64 \<Rightarrow> DxrtServiceV2 \<Rightarrow> SharedMemHandle option" where
  "TryGetSharedMemoryHandle d p address S =
     (case map_of (sv_sharedMemoryHandles S) d of
        None \<Rightarrow> None
      | Some procs \<Rightarrow> (case map_of procs p of None \<Rightarrow> None | Some addrMap \<Rightarrow> map_of addrMap address))"

text \<open>Write the handles of a process back, dropping empty levels of the map.\<close>

definition put_handles :: "int \<Rightarrow> int \<Rightarrow> (u64, SharedMemHandle) omap \<Rightarrow> handle_map \<Rightarrow> handle_map" where
  "put_handles d p addrMap H =
     (let procs = (if addrMap = [] then m_erase p (list_at H d) else m_put p addrMap (list_at H d))
      in if procs = [] then m_erase d H else m_put d procs H)"

definition handle_info :: "u64 \<Rightarrow> SharedMemHandle \<Rightarrow> SharedMemoryInfo" where
  "handle_info base h =
     \<lparr>si_block_id = 0, si_size = sh_size h, si_ptr = sh_ptr h, si_phys_addr_base = base,
      si_phys_addr_offset = sh_physAddrOffset h, si_deviceid = 0, si_taskId = 0, si_pid = 0, si_fd = sh_fd h\<rparr>"

definition TryResolveSharedMemoryHandle ::
  "int \<Rightarrow> int \<Rightarrow> u64 \<Rightarrow> u64 \<Rightarrow> DxrtServiceV2 \<Rightarrow> SharedMemoryInfo option \<times> DxrtServiceV2" where
  "TryResolveSharedMemoryHandle d p address base S =
     (case TryGetSharedMemoryHandle d p address S of
        None \<Rightarrow> (None, S)
      | Some handle \<Rightarrow>
          let addrMap = list_at (list_at (sv_sharedMemoryHandles S) d) p;
              rest = filter (\<lambda>(a, h). sh_physAddrOffset h \<noteq> sh_physAddrOffset handle) addrMap
          in (Some (handle_info base handle),
              S\<lparr>sv_sharedMemoryHandles := put_handles d p rest (sv_sharedMemoryHandles S)\<rparr>))"

definition ReleaseSharedMemoryHandle :: "SharedMemoryInfo \<Rightarrow> DxrtServiceV2 \<Rightarrow> DxrtServiceV2" where
  "ReleaseSharedMemoryHandle info S =
     (if 0 \<le> si_fd info then S\<lparr>sv_memfdService := snd (ReleaseSharedMemory (si_fd info) (sv_memfdService S))\<rparr> else S)"

definition ReleaseAllSharedMemoryHandlesForProcess :: "int \<Rightarrow> int \<Rightarrow> DxrtServiceV2 \<Rightarrow> unit handled" where
  "ReleaseAllSharedMemoryHandlesForProcess d p S =
     (case map_of (sv_sharedMemoryHandles S) d of
        None \<Rightarrow> Handled () S
      | Some procs \<Rightarrow>
          (case map_of procs p of
             None \<Rightarrow> Handled () S
           | Some addrMap \<Rightarrow>
               (case device_at S d of
                  None \<Rightarrow> if addrMap = [] then Handled () (S\<lparr>sv_sharedMemoryHandles := put_handles d p [] (sv_sharedMemoryHandles S)\<rparr>)
                          else Invalid_access
                | Some dev \<Rightarrow>
                    Handled () (fold (\<lambda>(a, h). ReleaseSharedMemoryHandle (handle_info (sd_mem_addr dev) h)) addrMap
                      (S\<lparr>sv_sharedMemoryHandles := put_handles d p [] (sv_sharedMemoryHandles S)\<rparr>)))))"

subsection \<open>Clients and memory\<close>

definition onClientConnected :: "int \<Rightarrow> DxrtServiceV2 \<Rightarrow> DxrtServiceV2" where
  "onClientConnected p S = S\<lparr>sv_pidSet := insort_insert p (sv_pidSet S)\<rparr>"

definition allocation_failed :: "int \<Rightarrow> SharedMemoryInfo" where
  "allocation_failed block_id =
     \<lparr>si_block_id = block_id, si_size = 0, si_ptr = 0, si_phys_addr_base = 0, si_phys_addr_offset = -1,
      si_deviceid = 0, si_taskId = 0, si_pid = 0, si_fd = -1\<rparr>"

text \<open>The four allocation calls of \<open>HandleAllocate\<close>.\<close>

definition allocate_block :: "int \<Rightarrow> int \<Rightarrow> u64 \<Rightarrow> bool \<Rightarrow> MemoryService \<Rightarrow> u64 \<times> MemoryService" where
  "allocate_block p t sz forModel mem =
     (if t \<noteq> -1 then (if forModel then BackwardAllocateForTask sz p t mem else AllocateForTask sz p t mem)
      else (if forModel then MemoryService_BackwardAllocate sz p mem else MemoryService_Allocate sz p mem))"

definition HandleAllocate ::
  "service_env \<Rightarrow> int \<Rightarrow> int \<Rightarrow> int \<Rightarrow> u64 \<Rightarrow> bool \<Rightarrow> DxrtServiceV2 \<Rightarrow> SharedMemoryInfo handled" where
  "HandleAllocate env p d t sz forModel S =
     (case GetMemoryService d S of
        None \<Rightarrow> Handled (allocation_failed 0) S
      | Some mem \<Rightarrow>
          (case allocate_block p t sz forModel mem of (physAddrOffset, mem1) \<Rightarrow>
             let S1 = put_memory d mem1 S in
             if physAddrOffset = -1 then Handled (allocation_failed 0) S1
             else
               (case CreateSharedMemory (ev_memfd env) sz t d (sv_memfdService S1) of
                  (Inl e, mf) \<Rightarrow>
                    Handled (allocation_failed (error_code e))
                      (put_memory d (snd (DeallocateAddress physAddrOffset p mem1)) (S1\<lparr>sv_memfdService := mf\<rparr>))
                | (Inr shm, mf) \<Rightarrow>
                    (case device_at S1 d of
                       None \<Rightarrow> Invalid_access
                     | Some dev \<Rightarrow>
                         let allocInfo = shm\<lparr>si_phys_addr_base := sd_mem_addr dev,
                               si_phys_addr_offset := physAddrOffset, si_pid := p\<rparr>;
                             S2 = TrackSharedMemoryHandle d p allocInfo (S1\<lparr>sv_memfdService := mf\<rparr>)
                         in if si_fd allocInfo = -1 then Handled allocInfo S2
                            else Handled allocInfo (onClientConnected p S2)))))"

definition HandleDeallocate :: "int \<Rightarrow> int \<Rightarrow> u64 \<Rightarrow> DxrtServiceV2 \<Rightarrow> int handled" where
  "HandleDeallocate p d address S =
     (case GetMemoryService d S of
        None \<Rightarrow> Handled (-1) S
      | Some mem \<Rightarrow>
          (case device_at S d of
             None \<Rightarrow> Invalid_access
           | Some dev \<Rightarrow>
               (case TryResolveSharedMemoryHandle d p address (sd_mem_addr dev) S of
                  (Some info, S1) \<Rightarrow>
                    let S2 = ReleaseSharedMemoryHandle info S1 in
                    (case DeallocateAddress (si_phys_addr_offset info) p mem of
                       (r, mem1) \<Rightarrow> Handled (if r then 0 else -1) (put_memory d mem1 S2))
                | (None, S1) \<Rightarrow>
                    let base = sd_mem_addr dev;
                        offset = (if base \<le> address then address - base else address)
                    in (case DeallocateAddress offset p mem of
                          (r, mem1) \<Rightarrow> Handled (if r then 0 else -1) (put_memory d mem1 S1)))))"

definition HandleViewMemory :: "int \<Rightarrow> bool \<Rightarrow> DxrtServiceV2 \<Rightarrow> u64 option" where
  "HandleViewMemory d viewUsedMemory S =
     (case GetMemoryService d S of
        None \<Rightarrow> None
      | Some mem \<Rightarrow> Some (if viewUsedMemory then MemoryService_used_size mem else MemoryService_free_size mem))"

fun available_loop :: "service_device list \<Rightarrow> u64 \<Rightarrow> u64 \<Rightarrow> u64" where
  "available_loop [] bit_mask available = available"
| "available_loop (dev # devs) bit_mask available =
     available_loop devs (push_bit 1 bit_mask) (if \<not> sd_isBlocked dev then available OR bit_mask else available)"

definition HandleViewAvailableDevice :: "DxrtServiceV2 \<Rightarrow> u64" where
  "HandleViewAvailableDevice S = available_loop (sv_devices S) 1 0"

subsection \<open>Tasks and inference\<close>

definition TaskInit ::
  "service_env \<Rightarrow> int \<Rightarrow> int \<Rightarrow> int \<Rightarrow> int \<Rightarrow> u64 \<Rightarrow> TaskStaticConfig \<Rightarrow> DxrtServiceV2 \<Rightarrow> bool handled" where
  "TaskInit env p d t bound modelMemorySize config S =
     (case device_at S d of
        None \<Rightarrow> Handled False S
      | Some dev \<Rightarrow>
          (case GetMemoryService d S of
             None \<Rightarrow> Handled False S
           | Some mem \<Rightarrow>
               let S1 = (if MemoryService_free_size mem < modelMemorySize then put_memory d (OptimizeMemory mem) S else S);
                   mem1 = (if MemoryService_free_size mem < modelMemorySize then OptimizeMemory mem else mem)
               in if MemoryService_free_size mem1 < modelMemorySize then Handled False S1
                  else if sd_isBlocked dev then Handled False S1
                  else case bound_of bound of
                    None \<Rightarrow> Invalid_access
                  | Some boundOp \<Rightarrow>
                      if \<not> CanAcceptBound boundOp (sd_bounds dev) then Handled False S1
                      else
                        (case AddBound (ev_bound env (nat d)) boundOp (sd_bounds dev) of (ret, bm) \<Rightarrow>
                           let S2 = put_bounds d bm S1 in
                           if ret \<noteq> 0 then Handled False S2
                           else
                             (case addTask p d t boundOp modelMemorySize
                                     \<lparr>cx_config = config, cx_io_phys_addr_base = 0, cx_io_phys_addr_offset = 0,
                                      cx_io_buffer_size = 0\<rparr> (sv_taskInfoStore S2) of
                                (True, st) \<Rightarrow> Handled True (S2\<lparr>sv_taskInfoStore := st\<rparr>)
                              | (False, st) \<Rightarrow>
                                  Handled False (put_bounds d (snd (DeleteBound (ev_bound env (nat d)) boundOp bm))
                                    (S2\<lparr>sv_taskInfoStore := st\<rparr>))))))"

definition HandleTaskInit ::
  "service_env \<Rightarrow> int \<Rightarrow> int \<Rightarrow> int \<Rightarrow> int \<Rightarrow> u64 \<Rightarrow> TaskStaticConfig \<Rightarrow> DxrtServiceV2 \<Rightarrow> int handled" where
  "HandleTaskInit env p d t bound modelMemorySize config S =
     and_then (TaskInit env p d t bound modelMemorySize config S) (\<lambda>r. Handled (if r then 0 else -1))"

text \<open>\<open>DeleteBound\<close> on a device, when the index is in range.\<close>

definition delete_bound_at :: "service_env \<Rightarrow> int \<Rightarrow> npu_bound_op \<Rightarrow> DxrtServiceV2 \<Rightarrow> DxrtServiceV2" where
  "delete_bound_at env d b S =
     (case device_at S d of
        None \<Rightarrow> S
      | Some dev \<Rightarrow> put_bounds d (snd (DeleteBound (ev_bound env (nat d)) b (sd_bounds dev))) S)"

definition TaskDeInit :: "service_env \<Rightarrow> int \<Rightarrow> int \<Rightarrow> int \<Rightarrow> DxrtServiceV2 \<Rightarrow> DxrtServiceV2" where
  "TaskDeInit env d t p S =
     (case removeTask p d t (sv_taskInfoStore S) of
        (None, st) \<Rightarrow> S\<lparr>sv_taskInfoStore := st\<rparr>
      | (Some bound, st) \<Rightarrow>
          delete_bound_at env d bound
            (S\<lparr>sv_taskInfoStore := st, sv_scheduler := StopTaskInference p (nat d) t (sv_scheduler S)\<rparr>))"

definition HandleTaskDeInit :: "service_env \<Rightarrow> int \<Rightarrow> int \<Rightarrow> int \<Rightarrow> DxrtServiceV2 \<Rightarrow> int handled" where
  "HandleTaskDeInit env p d t S = Handled 0 (TaskDeInit env d t p S)"

definition HandleInferenceRequest :: "service_env \<Rightarrow> int \<Rightarrow> int \<Rightarrow> request_acc \<Rightarrow> DxrtServiceV2 \<Rightarrow> int handled" where
  "HandleInferenceRequest env p d request S =
     (if \<not> Service_IsTaskValid p d (sint (rq_task_id request)) S then Handled (-1) S
      else if HasPendingRequest p (sint (rq_req_id request)) (sv_scheduler S) then Handled (- EALREADY) S
      else if sv_recoveryInProgress S then Handled (- EAGAIN) S
      else case device_at S d of
        None \<Rightarrow> Invalid_access
      | Some dev \<Rightarrow>
          if sd_isBlocked dev then Handled (-1) S
          else case AddScheduler (sched_env_of env S) request (nat d) (sv_scheduler S) of
            Running s \<Rightarrow> Handled 0 (S\<lparr>sv_scheduler := s\<rparr>)
          | Aborted s \<Rightarrow> Abort
          | OutOfRange \<Rightarrow> Invalid_access)"

subsection \<open>Completions and process clean-up\<close>

definition onTaskDrained :: "int \<Rightarrow> int \<Rightarrow> DxrtServiceV2 \<Rightarrow> DxrtServiceV2" where
  "onTaskDrained p t S =
     (case map_of (sv_pendingTaskFree S) (p, t) of
        None \<Rightarrow> S
      | Some d \<Rightarrow>
          let S1 = S\<lparr>sv_pendingTaskFree := m_erase (p, t) (sv_pendingTaskFree S)\<rparr>
          in (case GetMemoryService d S1 of
                None \<Rightarrow> S1
              | Some mem \<Rightarrow> put_memory d (snd (DeallocateTask p t mem)) S1))"

text \<open>The callbacks of the scheduler; those that only send a packet leave the state as it is.\<close>

fun listen :: "sched_event \<Rightarrow> DxrtServiceV2 \<Rightarrow> DxrtServiceV2" where
  "listen (TaskDrained p t) S = onTaskDrained p t S"
| "listen ev S = S"

text \<open>The response callback of device \<open>d\<close>, with the listener calls \<open>FinishJobs\<close> makes at its end.\<close>

definition onDeviceResponse :: "service_env \<Rightarrow> nat \<Rightarrow> response \<Rightarrow> DxrtServiceV2 \<Rightarrow> unit handled" where
  "onDeviceResponse env d resp S =
     (case FinishJobs (sched_env_of env S) d resp (sv_scheduler S) of
        Running s \<Rightarrow>
          Handled () (fold listen (drop (length (sc_log (sv_scheduler S))) (sc_log s)) (S\<lparr>sv_scheduler := s\<rparr>))
      | Aborted s \<Rightarrow> Abort
      | OutOfRange \<Rightarrow> Invalid_access)"

text \<open>The body of the loop over the extracted tasks in \<open>HandleProcessDeInit\<close>.\<close>

definition release_entry :: "service_env \<Rightarrow> int \<Rightarrow> int \<Rightarrow> int list \<Rightarrow> int \<times> npu_bound_op \<Rightarrow> DxrtServiceV2 \<Rightarrow> DxrtServiceV2" where
  "release_entry env p d runningTaskIds entry S =
     (let S1 = (case GetMemoryService d S of
                  None \<Rightarrow> S
                | Some mem \<Rightarrow>
                    if fst entry \<notin> set runningTaskIds then put_memory d (snd (DeallocateTask p (fst entry) mem)) S else S)
      in delete_bound_at env d (snd entry) S1)"

definition HandleProcessDeInit :: "service_env \<Rightarrow> int \<Rightarrow> int \<Rightarrow> DxrtServiceV2 \<Rightarrow> int handled" where
  "HandleProcessDeInit env p d S =
     (let runningTaskIds = GetRunningTaskIds p (sv_scheduler S);
          pending = fold (\<lambda>t. m_put (p, t) d) runningTaskIds (sv_pendingTaskFree S);
          sc1 = StopAllInferenceForProcess p (nat d) (sv_scheduler S);
          (taskEntries, st) = extractTaskIdsWithBound p d (sv_taskInfoStore S);
          sc2 = fold (\<lambda>entry. StopTaskInference p (nat d) (fst entry)) taskEntries sc1;
          sc3 = (if 0 \<le> d then ClearRunningRequests p (nat d) sc2 else sc2);
          S1 = S\<lparr>sv_pendingTaskFree := pending, sv_taskInfoStore := st, sv_scheduler := sc3\<rparr>;
          S2 = fold (release_entry env p d runningTaskIds) taskEntries S1
      in and_then (ReleaseAllSharedMemoryHandlesForProcess d p S2)
           (\<lambda>_ S3. Handled 0 (S3\<lparr>sv_pidSet := remove1 p (sv_pidSet S3)\<rparr>)))"

fun deinit_devices :: "service_env \<Rightarrow> int \<Rightarrow> int list \<Rightarrow> DxrtServiceV2 \<Rightarrow> unit handled" where
  "deinit_devices env p [] S = Handled () S"
| "deinit_devices env p (i # is) S =
     and_then (HandleProcessDeInit env p i S) (\<lambda>_. deinit_devices env p is)"

definition onClientDisconnected :: "service_env \<Rightarrow> int \<Rightarrow> DxrtServiceV2 \<Rightarrow> unit handled" where
  "onClientDisconnected env p S =
     and_then (deinit_devices env p (map int [0..<length (sv_devices S)]) S)
       (\<lambda>_ S1. Handled () (S1\<lparr>sv_pidSet := remove1 p (sv_pidSet S1)\<rparr>))"

subsection \<open>Transfers and recovery\<close>

definition IncrementPendingDMA :: "DxrtServiceV2 \<Rightarrow> DxrtServiceV2" where
  "IncrementPendingDMA S = S\<lparr>sv_pendingDmaOperations := sv_pendingDmaOperations S + 1\<rparr>"

definition DecrementPendingDMA :: "DxrtServiceV2 \<Rightarrow> DxrtServiceV2" where
  "DecrementPendingDMA S =
     (if 0 < sv_pendingDmaOperations S then S\<lparr>sv_pendingDmaOperations := sv_pendingDmaOperations S - 1\<rparr> else S)"

text \<open>\<open>HandleDMAWrite\<close> and \<open>HandleDMARead\<close> differ in the direction only.\<close>

definition HandleDMA :: "bool \<Rightarrow> int \<Rightarrow> int \<Rightarrow> int \<Rightarrow> u64 \<Rightarrow> u64 \<Rightarrow> DxrtServiceV2 \<Rightarrow> int handled" where
  "HandleDMA write p d blockId blockOffset sz S =
     (if sz = 0 then Handled 0 S
      else case device_at S d of
        None \<Rightarrow> Handled (- EINVAL_v) S
      | Some dev \<Rightarrow>
          if sv_recoveryInProgress S then Handled (- EAGAIN) S
          else case TryGetSharedMemoryHandle d p (word_of_int blockId) S of
            None \<Rightarrow> Handled (- EINVAL_v) S
          | Some h \<Rightarrow>
              if sh_ptr h = 0 \<or> sh_size h < blockOffset + sz then Handled (- EINVAL_v) S
              else Handled 0 (IncrementPendingDMA
                (S\<lparr>sv_dma := sv_dma S @ [\<lparr>dt_device = d, dt_write = write, dt_data = sh_ptr h + blockOffset,
                     dt_base = sd_mem_addr dev, dt_offset = ucast (sh_physAddrOffset h + blockOffset),
                     dt_size = ucast sz\<rparr>]\<rparr>)))"

definition HandleDMAWrite :: "int \<Rightarrow> int \<Rightarrow> int \<Rightarrow> u64 \<Rightarrow> u64 \<Rightarrow> DxrtServiceV2 \<Rightarrow> int handled" where
  "HandleDMAWrite = HandleDMA True"

definition HandleDMARead :: "int \<Rightarrow> int \<Rightarrow> int \<Rightarrow> u64 \<Rightarrow> u64 \<Rightarrow> DxrtServiceV2 \<Rightarrow> int handled" where
  "HandleDMARead = HandleDMA False"

definition PauseForRecovery :: "DxrtServiceV2 \<Rightarrow> DxrtServiceV2" where
  "PauseForRecovery S = S\<lparr>sv_recoveryInProgress := True\<rparr>"

definition ResumeAfterRecovery :: "DxrtServiceV2 \<Rightarrow> DxrtServiceV2" where
  "ResumeAfterRecovery S = S\<lparr>sv_scheduler := ClearAllLoad (sv_scheduler S), sv_recoveryInProgress := False\<rparr>"

definition Dispose :: "DxrtServiceV2 \<Rightarrow> unit handled" where
  "Dispose S =
     (let handles = [(d, h). (d, procs) \<leftarrow> sv_sharedMemoryHandles S, (p, addrMap) \<leftarrow> procs, (a, h) \<leftarrow> addrMap]
      in if \<exists>(d, procs) \<in> set (sv_sharedMemoryHandles S). device_at S d = None then Invalid_access
         else Handled () (fold (\<lambda>(d, h). ReleaseSharedMemoryHandle
                 (handle_info (case device_at S d of None \<Rightarrow> 0 | Some dev \<Rightarrow> sd_mem_addr dev) h)) handles
                 (S\<lparr>sv_sharedMemoryHandles := []\<rparr>)))"

subsection \<open>Start-up\<close>

text \<open>
  The constructor: one memory service per device, the scheduler with the service as its
  listener, and the memory of the post-processing firmware, allocated for the service's own
  process on every device. Devices are numbered by their position.
\<close>

definition DxrtServiceV2_new :: "policy \<Rightarrow> (u64 \<times> u64 \<times> bool) list \<Rightarrow> u64 \<Rightarrow> int \<Rightarrow> unit handled" where
  "DxrtServiceV2_new P infos ppuDataSize self =
     (case create_instances (map (\<lambda>i. (int i, fst (infos ! i), fst (snd (infos ! i)))) [0..<length infos]) [] of
        Inl e \<Rightarrow> Abort
      | Inr insts \<Rightarrow>
          Handled () \<lparr>sv_devices = map (\<lambda>(a, m, blocked). \<lparr>sd_mem_addr = a, sd_isBlocked = blocked, sd_bounds = BoundManager_new\<rparr>) infos,
            sv_scheduler = scheduler_new P (length infos) True,
            sv_pidSet = [], sv_taskInfoStore = [], sv_pendingTaskFree = [], sv_sharedMemoryHandles = [],
            sv_memoryServices = map (\<lambda>i. (int i, snd (MemoryService_Allocate ppuDataSize self (insts ! i)))) [0..<length insts],
            sv_memfdService = MemFDService_new,
            sv_pendingDmaOperations = 0, sv_recoveryInProgress = False, sv_dma = []\<rparr>)"

end
