(* ===== verification/Scheduler_Correct.thy ===== *)
theory Scheduler_Correct
  imports Scheduler
begin

section \<open>Correctness of the scheduler\<close>

text \<open>
  The three queueing policies satisfy one interface, \<open>request_queue\<close>: a pop hands out one waiting
  request of the device and nothing else changes, a pop that hands out nothing means that nothing
  waits, and a push adds one. The lemmas about \<open>schedule\<close>, \<open>AddScheduler\<close> and \<open>FinishJobs\<close> rest on
  that interface only, so they hold for every policy: the load of a device is the number of its
  requests in flight and at most six, and no request waits while a device has a free slot.
\<close>

subsection \<open>The queue interface\<close>

locale request_queue =
  fixes ok :: "nat \<Rightarrow> 'q \<Rightarrow> bool"
    and waiting :: "'q \<Rightarrow> nat \<Rightarrow> (int \<times> int) multiset"
    and pop :: "nat \<Rightarrow> 'q \<Rightarrow> (int \<times> int) option \<times> 'q"
    and push :: "nat \<Rightarrow> int \<Rightarrow> int \<Rightarrow> int \<Rightarrow> 'q \<Rightarrow> 'q"
  assumes pop_ok: "ok n q \<Longrightarrow> d < n \<Longrightarrow> pop d q = (res, q') \<Longrightarrow> ok n q'"
    and push_ok: "ok n q \<Longrightarrow> d < n \<Longrightarrow> ok n (push d p r t q)"
    and pop_None: "ok n q \<Longrightarrow> d < n \<Longrightarrow> pop d q = (None, q') \<Longrightarrow> waiting q d = {#} \<and> waiting q' = waiting q"
    and pop_Some: "ok n q \<Longrightarrow> d < n \<Longrightarrow> pop d q = (Some x, q') \<Longrightarrow>
      waiting q = (waiting q')(d := add_mset x (waiting q' d))"
    and push_waiting: "ok n q \<Longrightarrow> d < n \<Longrightarrow>
      waiting (push d p r t q) = (waiting q)(d := add_mset (p, r) (waiting q d))"
begin

lemma pop_mem: "ok n q \<Longrightarrow> d < n \<Longrightarrow> pop d q = (Some x, q') \<Longrightarrow> x \<in># waiting q d"
  by (simp add: pop_Some)

lemma pop_less: "ok n q \<Longrightarrow> d < n \<Longrightarrow> pop d q = (Some x, q') \<Longrightarrow> waiting q' d \<subset># waiting q d"
  by (simp add: pop_Some)

lemma pop_other: "ok n q \<Longrightarrow> d < n \<Longrightarrow> pop d q = (Some x, q') \<Longrightarrow> e \<noteq> d \<Longrightarrow> waiting q' e = waiting q e"
  by (simp add: pop_Some)

text \<open>Popping and pushing the same request back leaves the waiting requests as they were.\<close>

lemma pop_push: "ok n q \<Longrightarrow> d < n \<Longrightarrow> pop d q = (Some (p, r), q') \<Longrightarrow> waiting (push d p r t q') = waiting q"
  by (simp add: pop_Some push_waiting [OF pop_ok])

end

subsection \<open>The policies implement the interface\<close>

definition fifo_ok :: "nat \<Rightarrow> (int \<times> int) list list \<Rightarrow> bool" where
  "fifo_ok n qs \<longleftrightarrow> length qs = n"

definition fifo_waiting :: "(int \<times> int) list list \<Rightarrow> nat \<Rightarrow> (int \<times> int) multiset" where
  "fifo_waiting qs d = (if d < length qs then mset (qs ! d) else {#})"

interpretation fifo: request_queue fifo_ok fifo_waiting fifo_pop "\<lambda>d p r t. fifo_push d p r"
  by unfold_locales
     (auto simp: fifo_ok_def fifo_waiting_def fifo_pop_def fifo_push_def fun_eq_iff nth_list_update
       split: if_splits list.splits)

definition rr_requests :: "(int, int list) omap \<Rightarrow> (int \<times> int) list" where
  "rr_requests m = concat (map (\<lambda>e. map (Pair (fst e)) (snd e)) m)"

definition rr_dev_ok :: "(int, int list) omap \<Rightarrow> int \<Rightarrow> bool" where
  "rr_dev_ok m nx \<longleftrightarrow> m_ok m \<and> (\<forall>e \<in> set m. snd e \<noteq> []) \<and> (nx = 0 \<or> nx \<in> fst ` set m)"

definition rr_ok :: "nat \<Rightarrow> (int, int list) omap list \<times> int list \<Rightarrow> bool" where
  "rr_ok n q \<longleftrightarrow> length (fst q) = n \<and> length (snd q) = n \<and> (\<forall>d < n. rr_dev_ok (fst q ! d) (snd q ! d))"

definition rr_waiting :: "(int, int list) omap list \<times> int list \<Rightarrow> nat \<Rightarrow> (int \<times> int) multiset" where
  "rr_waiting q d = (if d < length (fst q) then mset (rr_requests (fst q ! d)) else {#})"

text \<open>
  With the invariant, the iterator is always at the process that is served: the fallback to the
  first entry of the map (which would submit the request of one process under the id of another)
  is not reached.
\<close>

lemma rr_locate_key:
  assumes "cp \<in> fst ` set m" "rr_locate cp m = (before, from_it)"
  obtains q after where "from_it = (cp, q) # after" "m = before @ (cp, q) # after" "cp \<notin> fst ` set before"
proof -
  from assms(1) have ex: "list_ex (\<lambda>e. fst e = cp) m" by (auto simp: list_ex_iff)
  then have f: "from_it = dropWhile (\<lambda>e. fst e \<noteq> cp) m" "before = takeWhile (\<lambda>e. fst e \<noteq> cp) m"
    using assms(2) by (auto simp: rr_locate_def)
  have "from_it \<noteq> []" using assms(1) f(1) by (auto simp: dropWhile_eq_Nil_conv)
  moreover have "fst (hd from_it) = cp" using hd_dropWhile [of "\<lambda>e. fst e \<noteq> cp" m] calculation f(1) by auto
  ultimately obtain q after where q: "from_it = (cp, q) # after" by (cases from_it) auto
  moreover have "m = before @ from_it" using rr_locate_append assms(2) by blast
  moreover have "cp \<notin> fst ` set before" unfolding f(2) by (auto dest: set_takeWhileD)
  ultimately show ?thesis using that by blast
qed

lemma rr_pop_cases:
  assumes "rr_ok n (maps, nx)" "d < n"
  obtains "maps ! d = []" "rr_pop d (maps, nx) = (None, maps, nx)"
  | cp q req before after where
      "maps ! d = before @ (cp, req # q) # after" "cp = (if nx ! d = 0 then fst (hd (maps ! d)) else nx ! d)"
      "rr_pop d (maps, nx) = (Some (cp, req),
         maps[d := before @ (if q = [] then after else (cp, q) # after)],
         nx[d := (if after \<noteq> [] then fst (hd after)
                  else if before @ (if q = [] then after else (cp, q) # after) \<noteq> []
                  then fst (hd (before @ (if q = [] then after else (cp, q) # after))) else 0)])"
proof (cases "maps ! d")
  case Nil
  then have "rr_pop d (maps, nx) = (None, maps, nx)"
    using assms by (auto simp: rr_pop_def rr_ok_def rr_locate_def Let_def)
  with Nil that(1) show ?thesis by blast
next
  case (Cons e m)
  define cp where "cp = (if nx ! d = 0 then fst (hd (maps ! d)) else nx ! d)"
  have dev: "rr_dev_ok (maps ! d) (nx ! d)" and len: "length maps = n" "length nx = n"
    using assms by (auto simp: rr_ok_def)
  have "cp \<in> fst ` set (maps ! d)" using dev Cons by (auto simp: cp_def rr_dev_ok_def)
  moreover obtain before from_it where loc: "rr_locate cp (maps ! d) = (before, from_it)" by fastforce
  ultimately obtain q after where q: "from_it = (cp, q) # after" "maps ! d = before @ (cp, q) # after"
    by (rule rr_locate_key) blast
  then have "q \<noteq> []" using dev by (auto simp: rr_dev_ok_def)
  then obtain req q' where q': "q = req # q'" by (cases q) auto
  have cp': "(if nx ! d = 0 \<and> maps ! d \<noteq> [] then fst (hd (maps ! d)) else nx ! d) = cp"
    using Cons by (simp add: cp_def)
  show ?thesis
  proof (rule that(2) [of before cp req q' after])
    show "rr_pop d (maps, nx) = (Some (cp, req), maps[d := before @ (if q' = [] then after else (cp, q') # after)],
         nx[d := (if after \<noteq> [] then fst (hd after)
                  else if before @ (if q' = [] then after else (cp, q') # after) \<noteq> []
                  then fst (hd (before @ (if q' = [] then after else (cp, q') # after))) else 0)])"
      using assms(2) len loc q(1) q' cp' by (simp add: rr_pop_def Let_def)
  qed (use q q' in \<open>auto simp: cp_def\<close>)
qed

lemma rr_requests_simps [simp]:
  "rr_requests [] = []"
  "rr_requests (e # m) = map (Pair (fst e)) (snd e) @ rr_requests m"
  "rr_requests (m @ m') = rr_requests m @ rr_requests m'"
  by (simp_all add: rr_requests_def)

lemma rr_dev_ok_pop:
  assumes "rr_dev_ok (before @ (cp, req # q) # after) nx"
  shows "rr_dev_ok (before @ (if q = [] then after else (cp, q) # after))
    (if after \<noteq> [] then fst (hd after)
     else if before @ (if q = [] then after else (cp, q) # after) \<noteq> []
     then fst (hd (before @ (if q = [] then after else (cp, q) # after))) else 0)"
proof -
  have ok: "m_ok (before @ (cp, req # q) # after)" and ne: "\<forall>e \<in> set before \<union> set after. snd e \<noteq> []"
    using assms by (auto simp: rr_dev_ok_def)
  have "m_ok (before @ (cp, q) # after)" using ok by (auto simp: m_ok_split)
  moreover have "m_ok (before @ after)" using m_ok_m_erase [OF ok, of cp] m_erase_at [OF ok] by simp
  ultimately show ?thesis using ne by (auto simp: rr_dev_ok_def)
qed

lemma rr_requests_push: "m_ok m \<Longrightarrow> mset (rr_requests (m_put p (list_at m p @ [r]) m)) = add_mset (p, r) (mset (rr_requests m))"
proof (induction m)
  case (Cons e m)
  obtain k v where e: "e = (k, v)" by (cases e)
  have fresh: "p < k \<Longrightarrow> list_at (e # m) p = []" using Cons.prems
    by (intro list_at_absent) (auto simp: e m_ok_Cons)
  show ?case using Cons fresh by (auto simp: e m_ok_Cons list_at_Cons)
qed simp

lemma rr_dev_ok_push:
  assumes "rr_dev_ok m nx"
  shows "rr_dev_ok (m_put p (list_at m p @ [r]) m) nx"
proof -
  have keys: "fst ` set (m_put k v m) = insert k (fst ` set m)" for k v
    using dom_map_of_conv_image_fst [of "m_put k v m"] dom_map_of_conv_image_fst [of m] by simp
  have "m_ok (m_put p (list_at m p @ [r]) m)" using assms by (auto simp: rr_dev_ok_def)
  moreover have "\<forall>e \<in> set (m_put p (list_at m p @ [r]) m). snd e \<noteq> []"
    using assms set_m_put_subset [of p "list_at m p @ [r]" m] by (fastforce simp: rr_dev_ok_def)
  ultimately show ?thesis using assms by (auto simp: rr_dev_ok_def keys)
qed

interpretation rr: request_queue rr_ok rr_waiting rr_pop "\<lambda>d p r t q. (rr_push d p r (fst q), snd q)"
proof (unfold_locales, goal_cases)
  case (1 n q d res q')
  obtain maps nx where q: "q = (maps, nx)" by (cases q)
  from 1(1) have ok: "rr_ok n (maps, nx)" by (simp add: q)
  from ok 1(2) show ?case
  proof (cases rule: rr_pop_cases)
    case 1
    with \<open>rr_pop d q = (res, q')\<close> ok show ?thesis by (simp add: q)
  next
    case (2 cp rest req before after)
    have dev: "rr_dev_ok (before @ (cp, req # rest) # after) (nx ! d)"
      using ok \<open>d < n\<close> 2(1) by (auto simp: rr_ok_def)
    from rr_dev_ok_pop [OF dev] 2(3) \<open>rr_pop d q = (res, q')\<close> ok \<open>d < n\<close> show ?thesis
      by (auto simp: q rr_ok_def nth_list_update)
  qed
next
  case (2 n q d p r t) then show ?case using rr_dev_ok_push by (auto simp: rr_ok_def rr_push_def nth_list_update)
next
  case (3 n q d q')
  obtain maps nx where q: "q = (maps, nx)" by (cases q)
  from 3(1) have ok: "rr_ok n (maps, nx)" by (simp add: q)
  from ok 3(2) show ?case
    by (cases rule: rr_pop_cases) (use 3 in \<open>auto simp: q rr_waiting_def\<close>)
next
  case (4 n q d x q')
  obtain maps nx where q: "q = (maps, nx)" by (cases q)
  from 4(1) have ok: "rr_ok n (maps, nx)" by (simp add: q)
  from ok 4(2) show ?case
  proof (cases rule: rr_pop_cases)
    case (2 cp rest req before after)
    with 4(3) have x: "x = (cp, req)" "fst q' = maps[d := before @ (if rest = [] then after else (cp, rest) # after)]"
      by (auto simp: q)
    with 2(1) ok \<open>d < n\<close> show ?thesis by (auto simp: q rr_waiting_def rr_ok_def fun_eq_iff nth_list_update)
  qed (use 4 in \<open>auto simp: q\<close>)
next
  case (5 n q d p r t)
  then have "m_ok (fst q ! d)" by (auto simp: rr_ok_def rr_dev_ok_def)
  with 5 show ?case by (auto simp: rr_waiting_def rr_ok_def rr_push_def fun_eq_iff nth_list_update rr_requests_push)
qed

definition sjf_waiting :: "request_elem list list \<Rightarrow> nat \<Rightarrow> (int \<times> int) multiset" where
  "sjf_waiting qs d = (if d < length qs then mset (map (\<lambda>e. (el_procId e, el_requestId e)) (qs ! d)) else {#})"

lemma mset_remove1_image:
  "e \<in> set xs \<Longrightarrow> image_mset f (mset xs) = add_mset (f e) (image_mset f (mset (remove1 e xs)))"
  by (metis (no_types, lifting) image_mset_add_mset insert_DiffM mset_remove1 set_mset_mset)

definition sjf_ok :: "nat \<Rightarrow> request_elem list list \<times> (int \<times> int, u32) omap \<Rightarrow> bool" where
  "sjf_ok n q \<longleftrightarrow> length (fst q) = n"

interpretation sjf: request_queue sjf_ok "\<lambda>q. sjf_waiting (fst q)"
  "\<lambda>d q. case sjf_pop d (fst q) of (r, qs) \<Rightarrow> (r, qs, snd q)"
  "\<lambda>d p r t q. (sjf_push d p r t (snd q) (fst q), snd q)"
proof (unfold_locales, goal_cases)
  case (4 n q d x q')
  then obtain e es where q: "fst q ! d = e # es" "d < length (fst q)"
      "x = (el_procId (sjf_top e es), el_requestId (sjf_top e es))"
      "fst q' = (fst q)[d := remove1 (sjf_top e es) (e # es)]"
    by (auto simp: sjf_ok_def sjf_pop_def Let_def split: list.splits if_splits)
  from mset_remove1_image [OF sjf_top_in [of e es], of "\<lambda>e. (el_procId e, el_requestId e)"] q
  show ?case by (auto simp: sjf_waiting_def fun_eq_iff nth_list_update simp del: remove1.simps)
qed (auto simp: sjf_ok_def sjf_pop_def sjf_push_def sjf_waiting_def Let_def fun_eq_iff nth_list_update
      split: list.splits if_splits)

text \<open>The virtual functions, dispatched over the policy.\<close>

fun policy_ok :: "nat \<Rightarrow> policy \<Rightarrow> bool" where
  "policy_ok n (FIFO qs) = fifo_ok n qs"
| "policy_ok n (RoundRobin maps nx) = rr_ok n (maps, nx)"
| "policy_ok n (SJF qs tmap) = sjf_ok n (qs, tmap)"

fun policy_waiting :: "policy \<Rightarrow> nat \<Rightarrow> (int \<times> int) multiset" where
  "policy_waiting (FIFO qs) = fifo_waiting qs"
| "policy_waiting (RoundRobin maps nx) = rr_waiting (maps, nx)"
| "policy_waiting (SJF qs tmap) = sjf_waiting qs"

lemma pop_request_RoundRobin: "pop_request d (RoundRobin maps nx) = (r, P) \<longleftrightarrow>
    (\<exists>q. rr_pop d (maps, nx) = (r, q) \<and> P = RoundRobin (fst q) (snd q))"
  by (auto split: prod.splits)

lemma pop_request_SJF: "pop_request d (SJF qs tmap) = (r, P) \<longleftrightarrow>
    (\<exists>q. sjf_pop d qs = (r, q) \<and> P = SJF q tmap)"
  by (auto split: prod.splits)

lemma pop_request_FIFO: "pop_request d (FIFO qs) = (r, P) \<longleftrightarrow> (\<exists>q. fifo_pop d qs = (r, q) \<and> P = FIFO q)"
  by (auto split: prod.splits)

lemmas pop_request_iff = pop_request_FIFO pop_request_RoundRobin pop_request_SJF

interpretation pol: request_queue policy_ok policy_waiting pop_request pushRequest
proof (unfold_locales, goal_cases)
  case (1 n q d res q')
  show ?case
  proof (cases q)
    case (FIFO qs)
    with 1 fifo.pop_ok [where n = n and d = d and q = "qs"] show ?thesis by (auto simp del: pop_request.simps simp: pop_request_iff)
  next
    case (RoundRobin maps nx)
    with 1 rr.pop_ok [where n = n and d = d and q = "(maps, nx)"] show ?thesis by (auto simp del: pop_request.simps simp: pop_request_iff)
  next
    case (SJF qs tmap)
    with 1 sjf.pop_ok [where n = n and res = res and d = d and q = "(qs, tmap)"] show ?thesis by (auto simp del: pop_request.simps simp: pop_request_iff)
  qed
next
  case (2 n q d p r t)
  show ?case
  proof (cases q)
    case (FIFO qs)
    with 2 fifo.push_ok [where n = n and d = d and q = "qs"] show ?thesis by auto
  next
    case (RoundRobin maps nx)
    with 2 rr.push_ok [where n = n and d = d and q = "(maps, nx)"] show ?thesis by auto
  next
    case (SJF qs tmap)
    with 2 sjf.push_ok [where n = n and d = d and q = "(qs, tmap)"] show ?thesis by auto
  qed
next
  case (3 n q d q')
  show ?case
  proof (cases q)
    case (FIFO qs)
    with 3 fifo.pop_None [where n = n and d = d and q = "qs"] show ?thesis by (auto simp del: pop_request.simps simp: pop_request_iff)
  next
    case (RoundRobin maps nx)
    with 3 rr.pop_None [where n = n and d = d and q = "(maps, nx)"] show ?thesis by (auto simp del: pop_request.simps simp: pop_request_iff)
  next
    case (SJF qs tmap)
    with 3 sjf.pop_None [where n = n and d = d and q = "(qs, tmap)"] show ?thesis by (auto simp del: pop_request.simps simp: pop_request_iff)
  qed
next
  case (4 n q d x q')
  show ?case
  proof (cases q)
    case (FIFO qs)
    with 4 fifo.pop_Some [where n = n and d = d and q = "qs"] show ?thesis by (cases x) (auto simp del: pop_request.simps simp: pop_request_iff)
  next
    case (RoundRobin maps nx)
    with 4 rr.pop_Some [where n = n and d = d and q = "(maps, nx)"] show ?thesis by (cases x) (auto simp del: pop_request.simps simp: pop_request_iff)
  next
    case (SJF qs tmap)
    with 4 sjf.pop_Some [where n = n and d = d and q = "(qs, tmap)"] show ?thesis by (cases x) (auto simp del: pop_request.simps simp: pop_request_iff)
  qed
next
  case (5 n q d p r t)
  show ?case
  proof (cases q)
    case (FIFO qs)
    with 5 fifo.push_waiting [where n = n and d = d and q = "qs"] show ?thesis by auto
  next
    case (RoundRobin maps nx)
    with 5 rr.push_waiting [where n = n and d = d and q = "(maps, nx)"] show ?thesis by auto
  next
    case (SJF qs tmap)
    with 5 sjf.push_waiting [where n = n and d = d and q = "(qs, tmap)"] show ?thesis by auto
  qed
qed

subsection \<open>One call of schedule\<close>

definition never_busy :: "sched_env \<Rightarrow> bool" where
  "never_busy env \<longleftrightarrow> (\<forall>d req. env_process env d req \<notin> {- EBUSY, - EAGAIN})"

lemmas sched_upd = reject_def erase_entry_def put_entry_def dec_proc_load_def add_load_def emit_def

lemma dec_proc_load_sel [simp]:
  "sc_policy (dec_proc_load p s) = sc_policy s" "sc_loads (dec_proc_load p s) = sc_loads s"
  "sc_log (dec_proc_load p s) = sc_log s" "sc_map (dec_proc_load p s) = sc_map s"
  "sc_listener (dec_proc_load p s) = sc_listener s"
  "sc_pendingErrorCallbacks (dec_proc_load p s) = sc_pendingErrorCallbacks s"
  by (simp_all add: dec_proc_load_def split: option.splits)

text \<open>The three ways \<open>doInference\<close> ends without an assertion failure.\<close>

lemma doInference_disj:
  assumes "doInference env d p r s = (s', disp)" "d < length (sc_loads s)"
  shows "disp = Reschedule \<and> sc_policy s' = sc_policy s \<and> sc_loads s' = sc_loads s \<and> sc_log s' = sc_log s
    \<or> disp = Return \<and> \<not> never_busy env \<and> (\<exists>t. sc_policy s' = pushRequest d p r t (sc_policy s))
        \<and> sc_loads s' = sc_loads s \<and> sc_log s' = sc_log s
    \<or> disp = Return \<and> sc_policy s' = sc_policy s \<and> sc_loads s' = (sc_loads s)[d := sc_loads s ! d + 1]
        \<and> sc_log s' = sc_log s @ [Submit d p r]
    \<or> disp = Assert_failed"
proof -
  have nb: "InferenceRequest env d req = - EBUSY \<or> InferenceRequest env d req = - EAGAIN \<Longrightarrow> \<not> never_busy env" for req
    by (auto simp: InferenceRequest_def never_busy_def)
  show ?thesis
    using assms nb
    by (auto simp: doInference_def sched_upd Let_def split: option.splits if_splits)
qed

lemma doInference_cases:
  assumes "doInference env d p r s = (s', disp)" "d < length (sc_loads s)"
  obtains (again) "disp = Reschedule" "sc_policy s' = sc_policy s" "sc_loads s' = sc_loads s" "sc_log s' = sc_log s"
  | (busy) t where "disp = Return" "\<not> never_busy env" "sc_policy s' = pushRequest d p r t (sc_policy s)"
      "sc_loads s' = sc_loads s" "sc_log s' = sc_log s"
  | (submitted) "disp = Return" "sc_policy s' = sc_policy s" "sc_loads s' = (sc_loads s)[d := sc_loads s ! d + 1]"
      "sc_log s' = sc_log s @ [Submit d p r]"
  | (failed) "disp = Assert_failed"
  using doInference_disj [OF assms] by blast

lemma doInference_listener:
  "doInference env d p r s = (s', disp) \<Longrightarrow> sc_listener s' = sc_listener s"
  by (auto simp: doInference_def sched_upd Let_def split: option.splits if_splits)

text \<open>
  The effect of a whole call of \<open>schedule\<close> that returns: at most one request is submitted, it is
  one of the waiting ones, and if none is submitted (and the driver is never busy) nothing waits.
\<close>

definition schedule_effect :: "sched_env \<Rightarrow> nat \<Rightarrow> nat \<Rightarrow> scheduler \<Rightarrow> scheduler \<Rightarrow> bool" where
  "schedule_effect env n d s s' \<longleftrightarrow>
     policy_ok n (sc_policy s')
     \<and> (\<forall>e. e \<noteq> d \<longrightarrow> policy_waiting (sc_policy s') e = policy_waiting (sc_policy s) e)
     \<and> policy_waiting (sc_policy s') d \<subseteq># policy_waiting (sc_policy s) d
     \<and> (sc_loads s' = sc_loads s \<and> sc_log s' = sc_log s
          \<and> (never_busy env \<longrightarrow> policy_waiting (sc_policy s') d = {#})
        \<or> (\<exists>p r. add_mset (p, r) (policy_waiting (sc_policy s') d) \<subseteq># policy_waiting (sc_policy s) d
             \<and> sc_loads s' = (sc_loads s)[d := sc_loads s ! d + 1] \<and> sc_log s' = sc_log s @ [Submit d p r]))"

lemma schedule_effect_step:
  assumes "policy_ok n (sc_policy s)" "d < n" "pop_request d (sc_policy s) = (Some (p, r), P)"
    and "sc_policy s1 = P" "sc_loads s1 = sc_loads s" "sc_log s1 = sc_log s" "schedule_effect env n d s1 s'"
  shows "schedule_effect env n d s s'"
proof -
  note less = pol.pop_less [OF assms(1-3)] and other = pol.pop_other [OF assms(1-3)]
  have "policy_waiting P d \<subseteq># policy_waiting (sc_policy s) d" using less by (rule subset_mset.less_imp_le)
  with assms(4-7) other show ?thesis
    unfolding schedule_effect_def by (auto intro: subset_mset.order_trans)
qed

lemma schedule_spec:
  "policy_ok n (sc_policy s) \<Longrightarrow> d < n \<Longrightarrow> length (sc_loads s) = n \<Longrightarrow>
   schedule env d s \<noteq> OutOfRange \<and> (\<forall>s'. schedule env d s = Running s' \<longrightarrow> schedule_effect env n d s s')"
proof (induction env d s rule: schedule.induct)
  case (1 env d s)
  obtain x P where pop: "pop_request d (sc_policy s) = (x, P)" by fastforce
  note okP = pol.pop_ok [OF "1.prems"(1,2) pop]
  show ?case
  proof (cases x)
    case None
    with pop pol.pop_None [OF "1.prems"(1,2), of P] okP show ?thesis
      by (simp add: schedule.simps [of env d s] schedule_effect_def)
  next
    case (Some pr)
    obtain p r where [simp]: "pr = (p, r)" by fastforce
    have pop': "pop_request d (sc_policy s) = (Some (p, r), P)" using pop Some by simp
    obtain s1 disp where doI: "doInference env d p r (s\<lparr>sc_policy := P\<rparr>) = (s1, disp)" by fastforce
    note at = fun_cong [OF pol.pop_Some [OF "1.prems"(1,2) pop'], of d] and less = pol.pop_less [OF "1.prems"(1,2) pop']
      and other = pol.pop_other [OF "1.prems"(1,2) pop']
    have len: "d < length (sc_loads (s\<lparr>sc_policy := P\<rparr>))" using "1.prems" by simp
    from doI len show ?thesis
    proof (cases rule: doInference_cases)
      case again
      then have "schedule env d s = schedule env d s1"
        using pop' doI by (simp add: schedule.simps [of env d s])
      moreover have "schedule env d s1 \<noteq> OutOfRange \<and> (\<forall>s'. schedule env d s1 = Running s' \<longrightarrow> schedule_effect env n d s1 s')"
        using again pop' doI okP "1.prems" by (intro "1.IH") auto
      ultimately show ?thesis
        using schedule_effect_step [OF "1.prems"(1,2) pop'] again by auto
    next
      case (busy t)
      have "policy_waiting (sc_policy s1) = policy_waiting (sc_policy s)"
        using busy(3) pol.pop_push [OF "1.prems"(1,2) pop'] by simp
      moreover have "policy_ok n (sc_policy s1)" using busy(3) pol.push_ok [OF okP "1.prems"(2)] by simp
      ultimately have "schedule_effect env n d s s1" using busy by (simp add: schedule_effect_def)
      moreover have "schedule env d s = Running s1" using busy(1) pop' doI by (simp add: schedule.simps [of env d s])
      ultimately show ?thesis by simp
    next
      case submitted
      then have "schedule_effect env n d s s1"
        using okP at other less by (auto simp: schedule_effect_def subset_mset.less_imp_le)
      moreover have "schedule env d s = Running s1" using submitted(1) pop' doI by (simp add: schedule.simps [of env d s])
      ultimately show ?thesis by simp
    next
      case failed
      then show ?thesis using pop' doI by (simp add: schedule.simps [of env d s])
    qed
  qed
qed

subsection \<open>Operations and reachable states\<close>

datatype sched_op =
  OpAdd sched_env request_acc nat | OpFinish sched_env nat response
| OpStopScheduler int | OpClearAllLoad | OpClearProcLoad int
| OpStopTask int nat int | OpStopAll int nat | OpCleanDied int | OpSendError nat int | OpClearRunning int nat

fun exec_op :: "sched_op \<Rightarrow> scheduler \<Rightarrow> outcome" where
  "exec_op (OpAdd env packet d) s = AddScheduler env packet d s"
| "exec_op (OpFinish env d resp) s = FinishJobs env d resp s"
| "exec_op (OpStopScheduler p) s = Running (StopScheduler p s)"
| "exec_op OpClearAllLoad s = Running (ClearAllLoad s)"
| "exec_op (OpClearProcLoad p) s = Running (ClearProcLoad p s)"
| "exec_op (OpStopTask p d t) s = Running (StopTaskInference p d t s)"
| "exec_op (OpStopAll p d) s = Running (StopAllInferenceForProcess p d s)"
| "exec_op (OpCleanDied p) s = Running (cleanDiedProcess p s)"
| "exec_op (OpSendError d e) s = Running (SendError d e s)"
| "exec_op (OpClearRunning p d) s = Running (ClearRunningRequests p d s)"

text \<open>Runs of the service in which every operation satisfies \<open>allowed\<close> in the state it meets.\<close>

inductive sched_reachable :: "(scheduler \<Rightarrow> sched_op \<Rightarrow> bool) \<Rightarrow> nat \<Rightarrow> scheduler \<Rightarrow> bool" for allowed n where
  init: "P \<in> {fifo_new n, rr_new n, sjf_new n} \<Longrightarrow> sched_reachable allowed n (scheduler_new P n listener)"
| step: "sched_reachable allowed n s \<Longrightarrow> allowed s op \<Longrightarrow> exec_op op s = Running s' \<Longrightarrow> sched_reachable allowed n s'"

text \<open>Requests of a device that the driver accepted and that have not been answered, read off the log.\<close>

fun is_submit :: "nat \<Rightarrow> sched_event \<Rightarrow> bool" where
  "is_submit d (Submit d' p r) = (d' = d)"
| "is_submit d ev = False"

fun is_response :: "nat \<Rightarrow> sched_event \<Rightarrow> bool" where
  "is_response d (Response d') = (d' = d)"
| "is_response d ev = False"

definition in_flight :: "nat \<Rightarrow> sched_event list \<Rightarrow> int" where
  "in_flight d evs = int (length (filter (is_submit d) evs)) - int (length (filter (is_response d) evs))"

lemma in_flight_simps [simp]:
  "in_flight d [] = 0"
  "in_flight d (evs @ evs') = in_flight d evs + in_flight d evs'"
  "in_flight d (ev # evs) = (if is_submit d ev then 1 else 0) - (if is_response d ev then 1 else 0) + in_flight d evs"
  by (simp_all add: in_flight_def)

lemma in_flight_callbacks [simp]: "in_flight d (map (\<lambda>(r, e). InferenceComplete r e) cs) = 0"
  by (induction cs) auto

definition sched_ok :: "nat \<Rightarrow> scheduler \<Rightarrow> bool" where
  "sched_ok n s \<longleftrightarrow> policy_ok n (sc_policy s) \<and> length (sc_loads s) = n
     \<and> (\<forall>d < n. 0 \<le> sc_loads s ! d \<and> sc_loads s ! d \<le> 6)"

text \<open>A device that has a free slot has nothing waiting.\<close>

definition slot_full :: "nat \<Rightarrow> scheduler \<Rightarrow> bool" where
  "slot_full d s \<longleftrightarrow> policy_waiting (sc_policy s) d \<noteq> {#} \<longrightarrow> sc_loads s ! d = 6"

text \<open>What the entry points that queue or retire a request on device \<open>d\<close> do to the loads and the queues.\<close>

definition op_effect :: "sched_env \<Rightarrow> nat \<Rightarrow> nat \<Rightarrow> scheduler \<Rightarrow> scheduler \<Rightarrow> bool" where
  "op_effect env n d s s' \<longleftrightarrow> d < n \<and> sched_ok n s'
     \<and> (\<forall>e < n. e \<noteq> d \<longrightarrow> policy_waiting (sc_policy s') e = policy_waiting (sc_policy s) e \<and> sc_loads s' ! e = sc_loads s ! e)
     \<and> (never_busy env \<longrightarrow> slot_full d s \<longrightarrow> slot_full d s')
     \<and> (\<forall>e. e \<noteq> d \<longrightarrow> in_flight e (sc_log s') = in_flight e (sc_log s))"

lemma flush_sel [simp]:
  "sc_policy (flush_deferred s) = sc_policy s" "sc_loads (flush_deferred s) = sc_loads s"
  "in_flight d (sc_log (flush_deferred s)) = in_flight d (sc_log s)"
  "sc_map (flush_deferred s) = sc_map s" "sc_listener (flush_deferred s) = sc_listener s"
  by (simp_all add: flush_deferred_def)

lemma then_do_Running: "then_do out f = Running s' \<longleftrightarrow> (\<exists>s. out = Running s \<and> s' = f s)"
  by (cases out) auto

lemma schedule_effect_cases:
  assumes "schedule_effect env n d s s'" "sched_ok n s" "d < n" "sc_loads s ! d < 6"
  shows "sched_ok n s'" "e \<noteq> d \<Longrightarrow> policy_waiting (sc_policy s') e = policy_waiting (sc_policy s) e"
    "e \<noteq> d \<Longrightarrow> sc_loads s' ! e = sc_loads s ! e" "e \<noteq> d \<Longrightarrow> in_flight e (sc_log s') = in_flight e (sc_log s)"
    "sc_loads s' ! d - in_flight d (sc_log s') = sc_loads s ! d - in_flight d (sc_log s)"
    "never_busy env \<Longrightarrow> size (policy_waiting (sc_policy s) d) \<le> 1 \<or> sc_loads s ! d = 5 \<Longrightarrow> slot_full d s'"
proof -
  have len: "length (sc_loads s) = n" using assms(2) by (simp add: sched_ok_def)
  show "sched_ok n s'" using assms len by (auto simp: schedule_effect_def sched_ok_def nth_list_update)
  show "e \<noteq> d \<Longrightarrow> policy_waiting (sc_policy s') e = policy_waiting (sc_policy s) e"
    "e \<noteq> d \<Longrightarrow> sc_loads s' ! e = sc_loads s ! e" "e \<noteq> d \<Longrightarrow> in_flight e (sc_log s') = in_flight e (sc_log s)"
    using assms(1) by (auto simp: schedule_effect_def)
  show "sc_loads s' ! d - in_flight d (sc_log s') = sc_loads s ! d - in_flight d (sc_log s)"
    using assms(1,3) len by (auto simp: schedule_effect_def)
  assume nb: "never_busy env" and few: "size (policy_waiting (sc_policy s) d) \<le> 1 \<or> sc_loads s ! d = 5"
  show "slot_full d s'"
    using assms(1,3) len nb few
    by (auto simp: schedule_effect_def slot_full_def nonempty_has_size dest!: size_mset_mono)
qed

lemma AddScheduler_effect:
  assumes "AddScheduler env packet d s = Running s'" "sched_ok n s"
  shows "op_effect env n d s s'"
    "sc_loads s' ! d - in_flight d (sc_log s') = sc_loads s ! d - in_flight d (sc_log s)"
proof -
  define p r t where "p = sint (rq_proc_id packet)" "r = sint (rq_req_id packet)" "t = sint (rq_task_id packet)"
  define s1 where "s1 = put_entry p r \<lparr>re_data = packet, re_state = PENDING, re_deviceId = -1\<rparr> s"
  define s3 where "s3 = s1\<lparr>sc_loadsProc := m_put p (proc_load p s1 + 1) (sc_loadsProc s1),
      sc_policy := pushRequest d p r t (sc_policy s1)\<rparr>"
  have len: "length (sc_loads s) = n" using assms(2) by (simp add: sched_ok_def)
  have d: "d < n" using assms(1) len by (simp add: AddScheduler_def split: if_splits)
  have s3: "sc_loads s3 = sc_loads s" "sc_log s3 = sc_log s" "sc_policy s3 = pushRequest d p r t (sc_policy s)"
    by (simp_all add: s3_def s1_def put_entry_def)
  have ok: "policy_ok n (sc_policy s)" using assms(2) by (simp add: sched_ok_def)
  have ok3: "sched_ok n s3" using assms(2) s3 pol.push_ok [OF ok d] by (simp add: sched_ok_def)
  have w3: "policy_waiting (sc_policy s3) = (policy_waiting (sc_policy s))(d := add_mset (p, r) (policy_waiting (sc_policy s) d))"
    using pol.push_waiting [OF ok d] s3(3) by simp
  have "AddScheduler env packet d s
      = then_do (if sc_loads s3 ! d < 6 then schedule env d s3 else Running s3) flush_deferred"
    using len d by (simp add: AddScheduler_def Let_def s3_def s1_def p_r_t_def DX_RT_SERVICE_SCHED_THRE_def)
  with assms(1) have "then_do (if sc_loads s3 ! d < 6 then schedule env d s3 else Running s3) flush_deferred = Running s'"
    by metis
  from iffD1 [OF then_do_Running this] obtain s4
    where s4: "(if sc_loads s3 ! d < 6 then schedule env d s3 else Running s3) = Running s4"
      and s': "s' = flush_deferred s4" by blast
  have "op_effect env n d s s4
      \<and> sc_loads s4 ! d - in_flight d (sc_log s4) = sc_loads s ! d - in_flight d (sc_log s)"
  proof (cases "sc_loads s3 ! d < 6")
    case False
    then have "s4 = s3" "sc_loads s ! d = 6" using s4 assms(2) s3(1) d by (auto simp: sched_ok_def)
    then show ?thesis using d ok3 s3 w3 by (simp add: op_effect_def slot_full_def)
  next
    case True
    have "schedule env d s3 = Running s4" using s4 True by simp
    then have eff: "schedule_effect env n d s3 s4"
      using schedule_spec [of n s3 d env] ok3 d by (simp add: sched_ok_def)
    note c = schedule_effect_cases [OF eff ok3 d True]
    have "never_busy env \<Longrightarrow> slot_full d s \<Longrightarrow> slot_full d s4"
      using c(6) w3 True s3 by (auto simp: slot_full_def)
    then show ?thesis using c(1-5) d w3 s3 by (simp add: op_effect_def)
  qed
  then show "op_effect env n d s s'"
    "sc_loads s' ! d - in_flight d (sc_log s') = sc_loads s ! d - in_flight d (sc_log s)"
    unfolding s' by (simp_all add: op_effect_def sched_ok_def slot_full_def)
qed

lemma updateTaskInferenceTime_queues [simp]:
  "policy_waiting (updateTaskInferenceTime p t i P) = policy_waiting P"
  "policy_ok n (updateTaskInferenceTime p t i P) = policy_ok n P"
  by (cases P; simp add: sjf_ok_def)+

lemma cleanTaskInferenceTime_queues [simp]:
  "policy_waiting (cleanTaskInferenceTime p P) = policy_waiting P"
  "policy_ok n (cleanTaskInferenceTime p P) = policy_ok n P"
  by (cases P; simp add: sjf_ok_def)+

text \<open>
  \<open>FinishJobs\<close> always calls \<open>schedule\<close> exactly once, on a state with the load of the device one
  lower; what it does afterwards changes neither loads nor queues.
\<close>

definition retired :: "nat \<Rightarrow> scheduler \<Rightarrow> scheduler \<Rightarrow> bool" where
  "retired d s t \<longleftrightarrow> policy_waiting (sc_policy t) = policy_waiting (sc_policy s)
     \<and> (\<forall>n. policy_ok n (sc_policy t) = policy_ok n (sc_policy s))
     \<and> sc_log t = sc_log s @ [Response d]
     \<and> sc_loads t = (if 0 < sc_loads s ! d then (sc_loads s)[d := sc_loads s ! d - 1] else sc_loads s)"

lemma FinishJobs_schedules:
  assumes "FinishJobs env d resp s = Running s'"
  obtains t t' where "d < length (sc_loads s)" "retired d s t" "schedule env d t = Running t'"
    "sc_policy s' = sc_policy t'" "sc_loads s' = sc_loads t'"
    "\<And>e. in_flight e (sc_log s') = in_flight e (sc_log t')"
proof -
  define s1 where "s1 = (if 0 < sc_loads (emit (Response d) s) ! d then add_load d (-1) (emit (Response d) s) else emit (Response d) s)"
  have d: "d < length (sc_loads s)" using assms by (simp add: FinishJobs_def split: if_splits)
  have r: "retired d s s1" by (auto simp: retired_def s1_def add_load_def emit_def)
  have "\<exists>t t'. retired d s t \<and> schedule env d t = Running t' \<and> sc_policy s' = sc_policy t' \<and> sc_loads s' = sc_loads t'
    \<and> (\<forall>e. in_flight e (sc_log s') = in_flight e (sc_log t'))"
  proof (cases "map_of (sc_map s1) (sint (rs_proc_id resp))")
    case None
    then have "schedule env d s1 = Running s'" using assms d by (simp add: FinishJobs_def s1_def Let_def)
    with r show ?thesis by blast
  next
    case (Some requests)
    let ?p = "sint (rs_proc_id resp)" and ?r = "sint (rs_req_id resp)"
    show ?thesis
    proof (cases "map_of requests ?r")
      case None
      then have "schedule env d (dec_proc_load ?p s1) = Running s'"
        using assms d Some by (simp add: FinishJobs_def s1_def Let_def)
      moreover have "retired d s (dec_proc_load ?p s1)" using r by (simp add: retired_def)
      ultimately show ?thesis by blast
    next
      case (Some entry)
      let ?t = "erase_entry ?p ?r ((dec_proc_load ?p s1)\<lparr>sc_policy :=
          updateTaskInferenceTime ?p (sint (rq_task_id (re_data entry))) (rs_inf_time resp) (sc_policy (dec_proc_load ?p s1))\<rparr>)"
      have rt: "retired d s ?t" using r by (simp add: retired_def erase_entry_def)
      obtain t' where t': "schedule env d ?t = Running t'"
        and s': "sc_policy s' = sc_policy t' \<and> sc_loads s' = sc_loads t' \<and> (\<forall>e. in_flight e (sc_log s') = in_flight e (sc_log t'))"
        using assms d Some \<open>map_of (sc_map s1) ?p = Some requests\<close>
        by (auto simp: FinishJobs_def s1_def [symmetric] Let_def then_do_Running emit_def [of "TaskDrained _ _"]
            emit_def [of "InferenceComplete _ _"])
      with rt show ?thesis by blast
    qed
  qed
  with d that show ?thesis by blast
qed

lemma FinishJobs_effect:
  assumes "FinishJobs env d resp s = Running s'" "sched_ok n s"
  shows "op_effect env n d s s'"
    "0 < sc_loads s ! d \<Longrightarrow> sc_loads s' ! d - in_flight d (sc_log s') = sc_loads s ! d - in_flight d (sc_log s)"
proof -
  obtain t t' where d: "d < length (sc_loads s)" and r: "retired d s t" and sch: "schedule env d t = Running t'"
    and eq: "sc_policy s' = sc_policy t'" "sc_loads s' = sc_loads t'" "\<And>e. in_flight e (sc_log s') = in_flight e (sc_log t')"
    using FinishJobs_schedules [OF assms(1)] by blast
  have len: "length (sc_loads s) = n" using assms(2) by (simp add: sched_ok_def)
  have okt: "sched_ok n t" using assms(2) r len d by (auto simp: retired_def sched_ok_def nth_list_update)
  have lt: "sc_loads t ! d < 6" using assms(2) r len d by (auto simp: retired_def sched_ok_def)
  have eff: "schedule_effect env n d t t'"
    using schedule_spec [of n t d env] okt d len sch by (simp add: sched_ok_def)
  note c = schedule_effect_cases [OF eff okt _ lt]
  have few: "slot_full d s \<Longrightarrow> size (policy_waiting (sc_policy t) d) \<le> 1 \<or> sc_loads t ! d = 5"
    using r d by (auto simp: slot_full_def retired_def)
  show "op_effect env n d s s'"
    using c d len few r eq by (auto simp: op_effect_def retired_def slot_full_def sched_ok_def)
  show "0 < sc_loads s ! d \<Longrightarrow> sc_loads s' ! d - in_flight d (sc_log s') = sc_loads s ! d - in_flight d (sc_log s)"
    using c(5) d len r eq by (auto simp: retired_def)
qed

text \<open>The other operations touch neither loads nor queues nor the log of submissions.\<close>

definition quiet :: "scheduler \<Rightarrow> scheduler \<Rightarrow> bool" where
  "quiet s s' \<longleftrightarrow> policy_waiting (sc_policy s') = policy_waiting (sc_policy s)
     \<and> (\<forall>n. policy_ok n (sc_policy s') = policy_ok n (sc_policy s)) \<and> sc_loads s' = sc_loads s
     \<and> (\<forall>d. in_flight d (sc_log s') = in_flight d (sc_log s))"

lemma stop_entries_quiet:
  "stop_entries sel p es s = (es', s') \<Longrightarrow>
   sc_policy s' = sc_policy s \<and> sc_loads s' = sc_loads s \<and> sc_log s' = sc_log s \<and> sc_map s' = sc_map s
   \<and> sc_listener s' = sc_listener s \<and> sc_pendingErrorCallbacks s' = sc_pendingErrorCallbacks s"
proof (induction es arbitrary: s es' s')
  case (Cons e es)
  obtain k entry where e: "e = (k, entry)" by fastforce
  obtain a b a' b' where ab: "stop_entries sel p es s = (a, b)" "stop_entries sel p es (dec_proc_load p s) = (a', b')"
    by fastforce
  then have "s' = b \<or> s' = b'" using Cons.prems by (auto simp: e split: if_splits req_state.splits)
  then show ?case using Cons.IH [OF ab(1)] Cons.IH [OF ab(2)] by auto
qed simp

lemma quietI:
  "sc_policy s' = sc_policy s \<Longrightarrow> sc_loads s' = sc_loads s \<Longrightarrow> sc_log s' = sc_log s \<Longrightarrow> quiet s s'"
  by (simp add: quiet_def)

lemma StopTaskInference_quiet: "quiet s (StopTaskInference p d t s)"
proof (cases "map_of (sc_map s) p")
  case (Some requests)
  obtain es s1 where e: "stop_entries (\<lambda>e. rq_task_id (re_data e) = word_of_int t) p requests s = (es, s1)" by fastforce
  show ?thesis using stop_entries_quiet [OF e] Some e by (intro quietI) (simp_all add: StopTaskInference_def)
qed (simp add: StopTaskInference_def quiet_def)

lemma StopAllInference_quiet: "quiet s (StopAllInferenceForProcess p d s)"
proof (cases "map_of (sc_map s) p")
  case (Some requests)
  obtain es s1 where e: "stop_entries (\<lambda>_. True) p requests s = (es, s1)" by fastforce
  show ?thesis using stop_entries_quiet [OF e] Some e by (intro quietI) (simp_all add: StopAllInferenceForProcess_def)
qed (simp add: StopAllInferenceForProcess_def quiet_def)

lemma quiet_ops:
  assumes "exec_op op s = Running s'"
    and "case op of OpAdd _ _ _ \<Rightarrow> False | OpFinish _ _ _ \<Rightarrow> False | OpClearAllLoad \<Rightarrow> False | _ \<Rightarrow> True"
  shows "quiet s s'"
proof (cases op)
  case (OpStopTask p d t)
  then show ?thesis using assms(1) StopTaskInference_quiet by auto
next
  case (OpStopAll p d)
  then show ?thesis using assms(1) StopAllInference_quiet by auto
qed (use assms in \<open>auto simp: quiet_def StopScheduler_def ClearProcLoad_def cleanDiedProcess_def SendError_def
      ClearRunningRequests_def emit_def split: option.splits if_splits\<close>)

lemma quiet_sched_ok: "quiet s s' \<Longrightarrow> sched_ok n s' = sched_ok n s"
  by (simp add: quiet_def sched_ok_def)

lemma scheduler_new_ok:
  "P \<in> {fifo_new n, rr_new n, sjf_new n} \<Longrightarrow> sched_ok n (scheduler_new P n l) \<and> policy_waiting P d = {#}"
  by (auto simp: sched_ok_def scheduler_new_def fifo_new_def rr_new_def sjf_new_def fifo_ok_def rr_ok_def
      sjf_ok_def rr_dev_ok_def fifo_waiting_def rr_waiting_def sjf_waiting_def)

lemma exec_op_ok:
  assumes "exec_op op s = Running s'" "sched_ok n s"
  shows "sched_ok n s'"
proof (cases op)
  case (OpAdd env packet d)
  then show ?thesis using AddScheduler_effect(1) [of env packet d s s' n] assms by (simp add: op_effect_def)
next
  case (OpFinish env d resp)
  then show ?thesis using FinishJobs_effect(1) [of env d resp s s' n] assms by (simp add: op_effect_def)
next
  case OpClearAllLoad
  then show ?thesis using assms by (auto simp: ClearAllLoad_def sched_ok_def)
qed (use assms quiet_ops [OF assms(1)] quiet_sched_ok in \<open>auto\<close>)

lemma sched_reachable_ok: "sched_reachable allowed n s \<Longrightarrow> sched_ok n s"
proof (induction rule: sched_reachable.induct)
  case (init P listener)
  then show ?case using scheduler_new_ok by blast
next
  case (step s op s')
  then show ?case using exec_op_ok by blast
qed

text \<open>Executing a list of operations from a reachable state.\<close>

fun run_ops :: "sched_op list \<Rightarrow> scheduler \<Rightarrow> outcome" where
  "run_ops [] s = Running s"
| "run_ops (op # ops) s = (case exec_op op s of Running s' \<Rightarrow> run_ops ops s' | out \<Rightarrow> out)"

lemma run_ops_reachable:
  assumes "sched_reachable allowed n s" "\<And>t op. op \<in> set ops \<Longrightarrow> allowed t op" "run_ops ops s = Running s'"
  shows "sched_reachable allowed n s'"
  using assms
proof (induction ops arbitrary: s)
  case (Cons op ops)
  obtain t where t: "exec_op op s = Running t" "run_ops ops t = Running s'"
    using Cons.prems(3) by (auto split: outcome.splits)
  then have "sched_reachable allowed n t" using Cons.prems by (auto intro: sched_reachable.step)
  with Cons t show ?case by auto
qed simp

subsection \<open>Invariants of every run\<close>

text \<open>
  In a run without \<open>ClearAllLoad\<close>, in which the device answers only requests it was given, the
  load of a device is the number of its requests in flight.
\<close>

definition answers_in_flight :: "scheduler \<Rightarrow> sched_op \<Rightarrow> bool" where
  "answers_in_flight s op \<longleftrightarrow>
     (case op of OpClearAllLoad \<Rightarrow> False | OpFinish env d resp \<Rightarrow> 0 < in_flight d (sc_log s) | _ \<Rightarrow> True)"

lemma in_flight_invariant:
  "sched_reachable answers_in_flight n s \<Longrightarrow> (\<forall>d < n. sc_loads s ! d = in_flight d (sc_log s))"
proof (induction rule: sched_reachable.induct)
  case (init P listener)
  then show ?case by (simp add: scheduler_new_def)
next
  case (step s op s')
  have ok: "sched_ok n s" using step.hyps(1) sched_reachable_ok by blast
  show ?case
  proof (cases op)
    case (OpAdd env packet d)
    with step.hyps(3) have e: "AddScheduler env packet d s = Running s'" by simp
    from AddScheduler_effect [OF e ok] step.IH show ?thesis
      unfolding op_effect_def by (metis diff_eq_diff_eq diff_self)
  next
    case (OpFinish env d resp)
    with step.hyps(3) have e: "FinishJobs env d resp s = Running s'" by simp
    have d: "d < n" using FinishJobs_effect(1) [OF e ok] by (simp add: op_effect_def)
    have "0 < sc_loads s ! d" using step.hyps(2) step.IH d OpFinish by (simp add: answers_in_flight_def)
    from FinishJobs_effect(1) [OF e ok] FinishJobs_effect(2) [OF e ok this] step.IH show ?thesis
      unfolding op_effect_def by (metis diff_eq_diff_eq diff_self)
  next
    case OpClearAllLoad
    with step.hyps(2) show ?thesis by (simp add: answers_in_flight_def)
  qed (use quiet_ops [OF step.hyps(3)] step.IH in \<open>auto simp: quiet_def\<close>)
qed

definition driver_never_busy :: "scheduler \<Rightarrow> sched_op \<Rightarrow> bool" where
  "driver_never_busy s op \<longleftrightarrow>
     (case op of OpClearAllLoad \<Rightarrow> False | OpAdd env _ _ \<Rightarrow> never_busy env
      | OpFinish env _ _ \<Rightarrow> never_busy env | _ \<Rightarrow> True)"

lemma slot_full_invariant:
  "sched_reachable driver_never_busy n s \<Longrightarrow> (\<forall>d < n. slot_full d s)"
proof (induction rule: sched_reachable.induct)
  case (init P listener)
  then show ?case using scheduler_new_ok by (auto simp: slot_full_def scheduler_new_def)
next
  case (step s op s')
  have ok: "sched_ok n s" using step.hyps(1) sched_reachable_ok by blast
  show ?case
  proof (cases op)
    case (OpAdd env packet d)
    with step.hyps have e: "AddScheduler env packet d s = Running s'" "never_busy env"
      by (auto simp: driver_never_busy_def)
    from AddScheduler_effect(1) [OF e(1) ok] step.IH e(2) show ?thesis
      unfolding op_effect_def slot_full_def by metis
  next
    case (OpFinish env d resp)
    with step.hyps have e: "FinishJobs env d resp s = Running s'" "never_busy env"
      by (auto simp: driver_never_busy_def)
    from FinishJobs_effect(1) [OF e(1) ok] step.IH e(2) show ?thesis
      unfolding op_effect_def slot_full_def by metis
  next
    case OpClearAllLoad
    with step.hyps(2) show ?thesis by (simp add: driver_never_busy_def)
  qed (use quiet_ops [OF step.hyps(3)] step.IH in \<open>auto simp: quiet_def slot_full_def\<close>)
qed

text \<open>A driver that accepts everything, and a request of process \<open>p\<close>.\<close>

definition accept_env :: sched_env where
  "accept_env = \<lparr>env_validateTask = (\<lambda>_ _ _. True), env_isBlocked = (\<lambda>_. False),
     env_num_dma_ch = (\<lambda>_. 3), env_process = (\<lambda>_ _. 0)\<rparr>"

definition request :: "u32 \<Rightarrow> u32 \<Rightarrow> request_acc" where
  "request p r = \<lparr>rq_req_id = r, rq_task_id = 1, rq_proc_id = p, rq_dma_ch = 0\<rparr>"

definition adds :: "nat \<Rightarrow> sched_op list" where
  "adds k = map (\<lambda>i. OpAdd accept_env (request 7 (of_nat i)) 0) [0..<k]"

definition fifo7 :: scheduler where
  "fifo7 = (case run_ops (adds 7) (scheduler_new (fifo_new 1) 1 True) of Running s \<Rightarrow> s | Aborted s \<Rightarrow> s
      | OutOfRange \<Rightarrow> scheduler_new (fifo_new 1) 1 True)"

lemma fifo7_facts:
  "run_ops (adds 7) (scheduler_new (fifo_new 1) 1 True) = Running fifo7"
  "sc_loads fifo7 = [6]" "sc_policy fifo7 = FIFO [[(7, 6)]]"
  "length (filter (is_submit 0) (sc_log fifo7)) = 6"
  by code_simp+

lemma never_busy_accept: "never_busy accept_env"
  by (simp add: never_busy_def accept_env_def EBUSY_def EAGAIN_def)

lemma fifo7_reachable:
  "(\<And>t op. op \<in> set (adds 7) \<Longrightarrow> allowed t op) \<Longrightarrow> sched_reachable allowed 1 fifo7"
  by (rule run_ops_reachable [OF sched_reachable.init _ fifo7_facts(1)]) auto

subsection \<open>Responses\<close>

definition deferred_error :: "nat \<Rightarrow> response \<times> nat \<Rightarrow> bool" where
  "deferred_error d c \<longleftrightarrow> snd c = d \<and> (rs_status (fst c) = -1 \<or> rs_status (fst c) = -2)"

text \<open>During \<open>schedule\<close> error responses are only appended and entries are only removed.\<close>

definition progress :: "nat \<Rightarrow> scheduler \<Rightarrow> scheduler \<Rightarrow> bool" where
  "progress d s s' \<longleftrightarrow> sc_listener s' = sc_listener s
     \<and> (\<exists>new. sc_pendingErrorCallbacks s' = sc_pendingErrorCallbacks s @ new \<and> list_all (deferred_error d) new)
     \<and> (\<forall>p r. HasPendingRequest p r s' \<longrightarrow> HasPendingRequest p r s)"

lemma progress_refl [simp]: "progress d s s"
  by (simp add: progress_def)

lemma progress_trans: "progress d s t \<Longrightarrow> progress d t u \<Longrightarrow> progress d s u"
  by (auto simp: progress_def)

lemma HasPendingRequest_at: "HasPendingRequest p r s \<longleftrightarrow> map_of (list_at (sc_map s) p) r \<noteq> None"
  by (auto simp: HasPendingRequest_def list_at_def split: option.splits)

lemma doInference_progress:
  assumes "doInference env d p r s = (s', disp)"
  shows "progress d s s'"
proof -
  have keep: "progress d s (put_entry p r e s)" if "map_of (list_at (sc_map s) p) r \<noteq> None" for e s
    using that by (auto simp: progress_def put_entry_def HasPendingRequest_at)
  have rej: "progress d s (reject d p r st s)" if "st = -1 \<or> st = -2" for st s
    using that
    by (auto simp: progress_def reject_def erase_entry_def Let_def HasPendingRequest_at
        deferred_error_def error_response_def)
  have skip: "progress d s (add_load d k s)" "progress d s (emit ev s)" "progress d s (s\<lparr>sc_policy := P\<rparr>)" for k ev P s
    by (auto simp: progress_def add_load_def emit_def HasPendingRequest_at)
  have put: "map_of (list_at (sc_map (put_entry p r e s)) p) r \<noteq> None" for e s
    by (simp add: put_entry_def)
  have run: "progress d s (add_load d 1 (put_entry p r e s))" if "map_of (list_at (sc_map s) p) r \<noteq> None" for e
    using progress_trans [OF keep [OF that] skip(1)] .
  have redo: "progress d s ((put_entry p r e' (add_load d k (add_load d 1 (put_entry p r e s))))\<lparr>sc_policy := P\<rparr>)"
    if "map_of (list_at (sc_map s) p) r \<noteq> None" for e e' k P
    using that put by (intro progress_trans [OF _ skip(3)] progress_trans [OF _ keep] progress_trans [OF _ skip(1)] run)
      (auto simp: add_load_def)
  show ?thesis
    using assms
    by (auto simp: doInference_def Let_def list_at_def intro!: rej redo run progress_trans [OF run skip(2)]
        split: option.splits if_splits)
qed

lemma schedule_progress: "schedule env d s = Running s' \<Longrightarrow> progress d s s'"
proof (induction env d s rule: schedule.induct)
  case (1 env d s)
  obtain x P where pop: "pop_request d (sc_policy s) = (x, P)" by fastforce
  have pol: "progress d s (s\<lparr>sc_policy := P\<rparr>)" by (simp add: progress_def HasPendingRequest_at)
  show ?case
  proof (cases x)
    case None
    with 1 pop pol show ?thesis by (simp add: schedule.simps [of env d s])
  next
    case (Some pr)
    obtain p r where [simp]: "pr = (p, r)" by fastforce
    obtain s1 disp where doI: "doInference env d p r (s\<lparr>sc_policy := P\<rparr>) = (s1, disp)" by fastforce
    have s1: "progress d s s1" using progress_trans [OF pol doInference_progress [OF doI]] .
    show ?thesis
    proof (cases disp)
      case Reschedule
      with 1 pop Some doI have "schedule env d s1 = Running s'" by (simp add: schedule.simps [of env d s])
      then have "progress d s1 s'" using Reschedule pop Some doI by (intro "1.IH") auto
      with s1 show ?thesis by (rule progress_trans)
    qed (use 1 pop Some doI s1 in \<open>auto simp: schedule.simps [of env d s]\<close>)
  qed
qed

subsection \<open>Properties\<close>

text \<open>
  Whatever operations run, in whatever order and for each of the three policies, the
  load counter of a device stays between 0 and \<open>DX_RT_SERVICE_SCHED_THRE\<close> (6).
\<close>
theorem sched_load_bound:
  assumes "sched_reachable allowed n s" "d < n"
  shows "0 \<le> sc_loads s ! d \<and> sc_loads s ! d \<le> DX_RT_SERVICE_SCHED_THRE"
  using sched_reachable_ok [OF assms(1)] assms(2) by (simp add: sched_ok_def DX_RT_SERVICE_SCHED_THRE_def)

text \<open>
  Claim C4. If the device answers only requests it was given and the loads are not reset, the load
  of a device is exactly the number of requests the driver accepted and has not answered; so the
  NPU never holds more than six requests of the service.
\<close>
theorem sched_in_flight_exact:
  assumes "sched_reachable answers_in_flight n s" "d < n"
  shows "sc_loads s ! d = in_flight d (sc_log s) \<and> in_flight d (sc_log s) \<le> 6"
  using in_flight_invariant [OF assms(1)] sched_reachable_ok [OF assms(1)] assms(2) by (auto simp: sched_ok_def)

theorem sched_in_flight_exact_witness:
  "in_flight 0 (sc_log fifo7) = 6 \<and> sc_loads fifo7 = [6]"
proof -
  have "sched_reachable answers_in_flight 1 fifo7"
    by (rule fifo7_reachable) (auto simp: adds_def answers_in_flight_def)
  from sched_in_flight_exact [OF this, of 0] show ?thesis using fifo7_facts(2) by simp
qed

text \<open>
  Claim C14. Work conservation: while the driver is never busy and the loads are not reset, a request
  waits in the queue of a device only if that device has all its six slots in use. No request is
  left waiting for an idle device.
\<close>
theorem sched_work_conserving:
  assumes "sched_reachable driver_never_busy n s" "d < n" "policy_waiting (sc_policy s) d \<noteq> {#}"
  shows "sc_loads s ! d = 6"
  using slot_full_invariant [OF assms(1)] assms(2,3) by (simp add: slot_full_def)

theorem sched_work_conserving_witness:
  "policy_waiting (sc_policy fifo7) 0 = {#(7, 6)#} \<and> sc_loads fifo7 ! 0 = 6"
proof -
  have "sched_reachable driver_never_busy 1 fifo7"
    by (rule fifo7_reachable) (auto simp: adds_def driver_never_busy_def never_busy_accept)
  moreover have w: "policy_waiting (sc_policy fifo7) 0 = {#(7, 6)#}"
    by (simp add: fifo7_facts(3) fifo_waiting_def)
  ultimately show ?thesis using sched_work_conserving [of 1 fifo7 0] by simp
qed

text \<open>
  One call of \<open>schedule\<close> on a well-formed state always comes back (the recursion between
  \<open>schedule\<close> and \<open>doInference\<close> ends), submits at most one request, one that was waiting for that
  device, and leaves the queues of the other devices alone.
\<close>
theorem schedule_submits_at_most_one:
  assumes "policy_ok n (sc_policy s)" "d < n" "length (sc_loads s) = n"
  shows "case schedule env d s of
      Running s' \<Rightarrow> (\<exists>sub. sc_log s' = sc_log s @ sub \<and> length sub \<le> 1
          \<and> (\<forall>ev \<in> set sub. \<exists>p r. ev = Submit d p r \<and> (p, r) \<in># policy_waiting (sc_policy s) d))
        \<and> (\<forall>e. e \<noteq> d \<longrightarrow> policy_waiting (sc_policy s') e = policy_waiting (sc_policy s) e)
    | Aborted s' \<Rightarrow> True
    | OutOfRange \<Rightarrow> False"
proof (cases "schedule env d s")
  case (Running s')
  with schedule_spec [OF assms, of env] have e: "schedule_effect env n d s s'" by simp
  then have "\<exists>sub. sc_log s' = sc_log s @ sub \<and> length sub \<le> 1
          \<and> (\<forall>ev \<in> set sub. \<exists>p r. ev = Submit d p r \<and> (p, r) \<in># policy_waiting (sc_policy s) d)"
    unfolding schedule_effect_def by (auto dest: mset_subset_eq_insertD)
  with e Running show ?thesis by (simp add: schedule_effect_def)
qed (use schedule_spec [OF assms, of env] in auto)

text \<open>The callbacks \<open>FinishJobs\<close> makes for a request in the map, in order.\<close>

lemma FinishJobs_log:
  assumes "FinishJobs env d resp s = Running s'" "sched_ok n s" "sc_listener s"
    and "map_of (list_at (sc_map s) (sint (rs_proc_id resp))) (sint (rs_req_id resp)) = Some entry"
  shows "\<exists>sub new. length sub \<le> 1 \<and> list_all (is_submit d) sub \<and> list_all (deferred_error d) new
    \<and> sc_log s' = sc_log s @ [Response d] @ sub
        @ map (\<lambda>(r, e). InferenceComplete r e) (sc_pendingErrorCallbacks s @ new)
        @ (if task_drained (sint (rs_proc_id resp)) (sint (rq_task_id (re_data entry)))
                (erase_entry (sint (rs_proc_id resp)) (sint (rs_req_id resp)) s)
           then [TaskDrained (sint (rs_proc_id resp)) (sint (rq_task_id (re_data entry)))] else [])
        @ (if re_state entry = CANCELLED then [] else [InferenceComplete resp d])
    \<and> sc_pendingErrorCallbacks s' = []
    \<and> \<not> HasPendingRequest (sint (rs_proc_id resp)) (sint (rs_req_id resp)) s'"
proof -
  let ?p = "sint (rs_proc_id resp)" and ?r = "sint (rs_req_id resp)"
  let ?tk = "sint (rq_task_id (re_data entry))"
  define s1 where "s1 = (if 0 < sc_loads (emit (Response d) s) ! d then add_load d (-1) (emit (Response d) s) else emit (Response d) s)"
  define t where "t = erase_entry ?p ?r ((dec_proc_load ?p s1)\<lparr>sc_policy :=
      updateTaskInferenceTime ?p ?tk (rs_inf_time resp) (sc_policy (dec_proc_load ?p s1))\<rparr>)"
  have d: "d < n" using FinishJobs_effect(1) [OF assms(1,2)] by (simp add: op_effect_def)
  have len: "length (sc_loads s) = n" using assms(2) by (simp add: sched_ok_def)
  have t: "sc_map t = sc_map (erase_entry ?p ?r s)" "sc_listener t" "sc_log t = sc_log s @ [Response d]"
      "sc_pendingErrorCallbacks t = sc_pendingErrorCallbacks s" "policy_ok n (sc_policy t)" "length (sc_loads t) = n"
    using assms(2,3) len by (simp_all add: t_def s1_def erase_entry_def add_load_def emit_def sched_ok_def)
  obtain requests where m: "map_of (sc_map s1) ?p = Some requests" "map_of requests ?r = Some entry"
    using assms(4) by (cases "map_of (sc_map s) ?p") (auto simp: list_at_def s1_def add_load_def emit_def)
  define fin where "fin = (\<lambda>u. let t1 = flush_deferred u;
      t2 = (if (sc_listener t \<and> task_drained ?p ?tk t) \<and> sc_listener t1 then emit (TaskDrained ?p ?tk) t1 else t1)
    in if \<not> re_state entry = CANCELLED \<and> sc_listener t2 then emit (InferenceComplete resp d) t2 else t2)"
  have "FinishJobs env d resp s = then_do (schedule env d t) fin"
    unfolding FinishJobs_def Let_def s1_def [symmetric] fin_def t_def using d len m by simp
  with assms(1) obtain u where u: "schedule env d t = Running u" "s' = fin u"
    using then_do_Running by metis
  from schedule_spec [OF t(5) d t(6)] u(1) have e: "schedule_effect env n d t u" by simp
  then obtain sub where sub: "sc_log u = sc_log t @ sub" "length sub \<le> 1" "list_all (is_submit d) sub"
    unfolding schedule_effect_def by auto
  from schedule_progress [OF u(1)] obtain new where
    new: "sc_pendingErrorCallbacks u = sc_pendingErrorCallbacks t @ new" "list_all (deferred_error d) new"
    and lis: "sc_listener u" and has: "\<And>p r. HasPendingRequest p r u \<Longrightarrow> HasPendingRequest p r t"
    using t(2) by (auto simp: progress_def)
  have dr: "task_drained ?p ?tk t = task_drained ?p ?tk (erase_entry ?p ?r s)" by (simp add: task_drained_def t(1))
  have "\<not> HasPendingRequest ?p ?r t" by (simp add: HasPendingRequest_at t(1) erase_entry_def)
  moreover have "sc_map s' = sc_map u" by (simp add: u(2) fin_def Let_def emit_def)
  ultimately have "\<not> HasPendingRequest ?p ?r s'"
    using has [of ?p ?r] unfolding HasPendingRequest_at by metis
  moreover have "sc_pendingErrorCallbacks s' = []"
    by (simp add: u(2) fin_def Let_def emit_def flush_deferred_def)
  moreover have "sc_log s' = sc_log s @ [Response d] @ sub
        @ map (\<lambda>(r, e). InferenceComplete r e) (sc_pendingErrorCallbacks s @ new)
        @ (if task_drained ?p ?tk (erase_entry ?p ?r s) then [TaskDrained ?p ?tk] else [])
        @ (if re_state entry = CANCELLED then [] else [InferenceComplete resp d])"
    using lis t(2) by (simp add: u(2) fin_def Let_def emit_def flush_deferred_def sub(1) new(1) t(3,4) dr)
  ultimately show ?thesis using sub(2,3) new(2) by blast
qed

text \<open>
  Claim C12. \<open>FinishJobs\<close> for a request in the map: the entry is gone afterwards; the log gets at most
  one new submission, the deferred error responses (all of them, the list is empty afterwards), the
  drain notification exactly if no entry of the task is left, and then the completion of this very
  response, unless the entry was CANCELLED, in which case the client hears nothing.
\<close>
theorem finish_jobs_delivers:
  assumes "FinishJobs env d resp s = Running s'" "sched_ok n s" "sc_listener s"
    and "map_of (list_at (sc_map s) (sint (rs_proc_id resp))) (sint (rs_req_id resp)) = Some entry"
  shows "\<exists>sub new. length sub \<le> 1 \<and> list_all (is_submit d) sub \<and> list_all (deferred_error d) new
    \<and> sc_log s' = sc_log s @ [Response d] @ sub
        @ map (\<lambda>(r, e). InferenceComplete r e) (sc_pendingErrorCallbacks s @ new)
        @ (if task_drained (sint (rs_proc_id resp)) (sint (rq_task_id (re_data entry)))
                (erase_entry (sint (rs_proc_id resp)) (sint (rs_req_id resp)) s)
           then [TaskDrained (sint (rs_proc_id resp)) (sint (rq_task_id (re_data entry)))] else [])
        @ (if re_state entry = CANCELLED then [] else [InferenceComplete resp d])
    \<and> sc_pendingErrorCallbacks s' = []
    \<and> \<not> HasPendingRequest (sint (rs_proc_id resp)) (sint (rs_req_id resp)) s'"
  by (rule FinishJobs_log [OF assms])

definition done0 :: response where
  "done0 = \<lparr>rs_req_id = 0, rs_inf_time = 5, rs_status = 0, rs_proc_id = 7\<rparr>"

lemma fifo7_ok: "sched_ok 1 fifo7" "sc_listener fifo7" "sc_pendingErrorCallbacks fifo7 = []"
proof -
  show "sched_ok 1 fifo7" using sched_reachable_ok fifo7_reachable [of "\<lambda>_ _. True"] by blast
  show "sc_listener fifo7" "sc_pendingErrorCallbacks fifo7 = []" by code_simp+
qed

theorem finish_jobs_delivers_witness:
  "\<exists>s' sub. FinishJobs accept_env 0 done0 fifo7 = Running s'
     \<and> sc_log s' = sc_log fifo7 @ [Response 0] @ sub @ [InferenceComplete done0 0] \<and> length sub \<le> 2"
proof -
  have "case FinishJobs accept_env 0 done0 fifo7 of Running s' \<Rightarrow> length (sc_log s') = 9 | _ \<Rightarrow> False" by code_simp
  then obtain s' where s': "FinishJobs accept_env 0 done0 fifo7 = Running s'" "length (sc_log s') = 9"
    by (auto split: outcome.splits)
  have "map_of (list_at (sc_map fifo7) (sint (rs_proc_id done0))) (sint (rs_req_id done0))
      = Some \<lparr>re_data = request 7 0, re_state = RUNNING, re_deviceId = 0\<rparr>" by code_simp
  from finish_jobs_delivers [OF s'(1) fifo7_ok(1,2) this] obtain sub new where
    l: "sc_log s' = sc_log fifo7 @ [Response 0] @ sub @ map (\<lambda>(r, e). InferenceComplete r e) new
      @ (if task_drained (sint (rs_proc_id done0)) (sint (rq_task_id (request 7 0)))
                (erase_entry (sint (rs_proc_id done0)) (sint (rs_req_id done0)) fifo7)
           then [TaskDrained (sint (rs_proc_id done0)) (sint (rq_task_id (request 7 0)))] else [])
      @ [InferenceComplete done0 0]"
    using fifo7_ok(3) by auto
  have "length (sc_log fifo7) = 6" by code_simp
  with l s' show ?thesis by (intro exI [of _ s'] exI [of _ "sub @ map (\<lambda>(r, e). InferenceComplete r e) new
      @ (if task_drained (sint (rs_proc_id done0)) (sint (rq_task_id (request 7 0)))
                (erase_entry (sint (rs_proc_id done0)) (sint (rs_req_id done0)) fifo7)
           then [TaskDrained (sint (rs_proc_id done0)) (sint (rq_task_id (request 7 0)))] else [])"]) auto
qed

text \<open>Stopping, as a function on the list of entries.\<close>

definition cancel :: "(RequestEntry \<Rightarrow> bool) \<Rightarrow> (int, RequestEntry) omap \<Rightarrow> (int, RequestEntry) omap" where
  "cancel sel es = map (\<lambda>(k, e). (k, if sel e \<and> re_state e = RUNNING then e\<lparr>re_state := CANCELLED\<rparr> else e))
     (filter (\<lambda>(k, e). \<not> (sel e \<and> re_state e = PENDING)) es)"

definition stopped_pending :: "(RequestEntry \<Rightarrow> bool) \<Rightarrow> (int, RequestEntry) omap \<Rightarrow> nat" where
  "stopped_pending sel es = length (filter (\<lambda>(k, e). sel e \<and> re_state e = PENDING) es)"

lemma proc_load_dec: "0 \<le> proc_load p s \<Longrightarrow> proc_load p (dec_proc_load p s) = max 0 (proc_load p s - 1)"
  by (auto simp: proc_load_def dec_proc_load_def split: option.splits)

lemma stop_entries_cancel:
  "stop_entries sel p es s = (es', s') \<Longrightarrow> 0 \<le> proc_load p s \<Longrightarrow>
   es' = cancel sel es \<and> proc_load p s' = max 0 (proc_load p s - int (stopped_pending sel es))"
proof (induction es arbitrary: s es' s')
  case (Cons e es)
  obtain k entry where e: "e = (k, entry)" by fastforce
  obtain a b a' b' where ab: "stop_entries sel p es s = (a, b)" "stop_entries sel p es (dec_proc_load p s) = (a', b')"
    by fastforce
  have dec: "0 \<le> proc_load p (dec_proc_load p s)" using Cons.prems(2) proc_load_dec by simp
  note ih = Cons.IH [OF ab(1) Cons.prems(2)] Cons.IH [OF ab(2) dec]
  show ?case
  proof (cases "sel entry \<and> re_state entry = PENDING")
    case True
    then have "es' = a'" "s' = b'" using Cons.prems(1) ab by (auto simp: e)
    then show ?thesis using ih(2) True proc_load_dec [OF Cons.prems(2)]
      by (auto simp: e cancel_def stopped_pending_def)
  next
    case False
    then have "s' = b" "es' = (k, if sel entry \<and> re_state entry = RUNNING then entry\<lparr>re_state := CANCELLED\<rparr> else entry) # a"
      using Cons.prems(1) ab by (auto simp: e split: req_state.splits if_splits)
    then show ?thesis using ih(1) False by (auto simp: e cancel_def stopped_pending_def)
  qed
qed (simp add: cancel_def stopped_pending_def max_def)

text \<open>The request map after stopping a process or one of its tasks, whatever the process load says.\<close>

lemma stop_entries_map: "fst (stop_entries sel p es s) = cancel sel es"
proof (induction es arbitrary: s)
  case (Cons e es)
  obtain a b a' b' where ab: "stop_entries sel p es s = (a, b)" "stop_entries sel p es (dec_proc_load p s) = (a', b')"
    by fastforce
  with Cons.IH [of s] Cons.IH [of "dec_proc_load p s"] have "a = cancel sel es" "a' = cancel sel es" by simp_all
  with ab show ?case by (cases e; cases "re_state (snd e)") (simp_all add: cancel_def)
qed (simp add: cancel_def)

lemma StopAll_map:
  "list_at (sc_map (StopAllInferenceForProcess p d s)) q
     = (if q = p then cancel (\<lambda>_. True) (list_at (sc_map s) p) else list_at (sc_map s) q)"
proof (cases "map_of (sc_map s) p")
  case (Some requests)
  obtain es s1 where e: "stop_entries (\<lambda>_. True) p requests s = (es, s1)" by fastforce
  with stop_entries_map [of "\<lambda>_. True" p requests s] have "es = cancel (\<lambda>_. True) requests" by simp
  with e Some stop_entries_quiet [OF e] show ?thesis by (simp add: StopAllInferenceForProcess_def list_at_def)
qed (simp add: StopAllInferenceForProcess_def list_at_def cancel_def)

lemma StopTask_map:
  "list_at (sc_map (StopTaskInference p d t s)) q
     = (if q = p then cancel (\<lambda>e. rq_task_id (re_data e) = word_of_int t) (list_at (sc_map s) p) else list_at (sc_map s) q)"
proof (cases "map_of (sc_map s) p")
  case (Some requests)
  obtain es s1 where e: "stop_entries (\<lambda>e. rq_task_id (re_data e) = word_of_int t) p requests s = (es, s1)" by fastforce
  with stop_entries_map [of "\<lambda>e. rq_task_id (re_data e) = word_of_int t" p requests s]
  have "es = cancel (\<lambda>e. rq_task_id (re_data e) = word_of_int t) requests" by simp
  with e Some stop_entries_quiet [OF e] show ?thesis by (simp add: StopTaskInference_def list_at_def)
qed (simp add: StopTaskInference_def list_at_def cancel_def)

lemma cancel_all_cancelled: "x \<in> set (cancel (\<lambda>_. True) es) \<Longrightarrow> re_state (snd x) = CANCELLED"
  by (auto simp: cancel_def intro: req_state.exhaust)

lemma cancel_cancelled: "(\<And>x. x \<in> set es \<Longrightarrow> re_state (snd x) = CANCELLED) \<Longrightarrow> cancel sel es = es"
proof (induction es)
  case (Cons x es)
  then have "re_state (snd x) = CANCELLED" "cancel sel es = es" by auto
  then show ?case by (cases x) (simp add: cancel_def)
qed (simp add: cancel_def)

lemma cancel_idem: "cancel sel (cancel (\<lambda>_. True) es) = cancel (\<lambda>_. True) es"
  by (rule cancel_cancelled) (rule cancel_all_cancelled)

lemma map_of_cancel_running:
  "m_ok es \<Longrightarrow> map_of es r = Some e \<Longrightarrow> re_state e = RUNNING
   \<Longrightarrow> map_of (cancel (\<lambda>_. True) es) r = Some (e\<lparr>re_state := CANCELLED\<rparr>)"
proof (induction es)
  case (Cons x es)
  then show ?case by (cases x) (auto simp: cancel_def m_ok_Cons split: if_splits)
qed simp

text \<open>
  \<open>StopAllInferenceForProcess\<close> removes the pending requests of the process and marks its
  running ones CANCELLED (so that \<open>FinishJobs\<close> stays silent about them); requests of other processes
  are untouched, the device loads do not change, and the load of the process goes down by the number
  of removed requests, never below zero.
\<close>
theorem stop_all_exact:
  assumes "0 \<le> proc_load p s"
  shows "list_at (sc_map (StopAllInferenceForProcess p d s)) q
      = (if q = p then cancel (\<lambda>_. True) (list_at (sc_map s) p) else list_at (sc_map s) q)
    \<and> (\<forall>x \<in> set (list_at (sc_map (StopAllInferenceForProcess p d s)) p). re_state (snd x) = CANCELLED)
    \<and> sc_loads (StopAllInferenceForProcess p d s) = sc_loads s
    \<and> proc_load p (StopAllInferenceForProcess p d s)
        = max 0 (proc_load p s - int (stopped_pending (\<lambda>_. True) (list_at (sc_map s) p)))"
proof -
  let ?s = "StopAllInferenceForProcess p d s"
  have eq: "(list_at (sc_map ?s) q = (if q = p then cancel (\<lambda>_. True) (list_at (sc_map s) p) else list_at (sc_map s) q))
    \<and> proc_load p ?s = max 0 (proc_load p s - int (stopped_pending (\<lambda>_. True) (list_at (sc_map s) p)))" for q
  proof (cases "map_of (sc_map s) p")
    case None
    then have "list_at (sc_map s) p = []" by (simp add: list_at_def)
    with None assms show ?thesis
      by (simp add: StopAllInferenceForProcess_def cancel_def stopped_pending_def max_def)
  next
    case (Some requests)
    then have at: "list_at (sc_map s) p = requests" by (simp add: list_at_def)
    obtain es s1 where e: "stop_entries (\<lambda>_. True) p requests s = (es, s1)" by fastforce
    have "?s = s1\<lparr>sc_map := (if es = [] then m_erase p (sc_map s) else m_put p es (sc_map s))\<rparr>"
      using stop_entries_quiet [OF e] Some e by (simp add: StopAllInferenceForProcess_def)
    moreover have "proc_load p (s1\<lparr>sc_map := m\<rparr>) = proc_load p s1" for m by (simp add: proc_load_def)
    ultimately show ?thesis using stop_entries_cancel [OF e assms] at by simp
  qed
  have c: "\<forall>x \<in> set (cancel (\<lambda>_. True) (list_at (sc_map s) p)). re_state (snd x) = CANCELLED"
    by (auto simp: cancel_def intro: req_state.exhaust)
  have l: "sc_loads ?s = sc_loads s" using StopAllInference_quiet [of s p d] by (simp add: quiet_def)
  show ?thesis using eq [of q] eq [of p] c l by simp
qed

text \<open>
  Round robin: a pop serves the oldest request of one process, under that process's own id,
  and leaves the queues of the others as they are; the process served next is the one with the next
  larger id that has requests waiting, or the smallest id after the largest (0 when nothing waits).
\<close>
theorem rr_serves_in_rotation:
  assumes "rr_ok n (maps, nx)" "d < n" "rr_pop d (maps, nx) = (Some (p, r), maps', nx')"
  shows "list_at (maps ! d) p = r # list_at (maps' ! d) p
    \<and> (\<forall>q. q \<noteq> p \<longrightarrow> list_at (maps' ! d) q = list_at (maps ! d) q)
    \<and> nx' ! d = (case filter (\<lambda>k. p < k) (map fst (maps' ! d)) of k # _ \<Rightarrow> k
                 | [] \<Rightarrow> (case map fst (maps' ! d) of [] \<Rightarrow> 0 | k # _ \<Rightarrow> k))
    \<and> (nx ! d \<noteq> 0 \<longrightarrow> p = nx ! d)"
  using assms(1,2)
proof (cases rule: rr_pop_cases)
  case 1
  with assms(3) show ?thesis by simp
next
  case (2 cp q req before after)
  let ?m' = "before @ (if q = [] then after else (cp, q) # after)"
  have len: "d < length maps" "d < length nx" and ok: "m_ok (before @ (cp, req # q) # after)"
    using assms(1,2) 2(1) by (auto simp: rr_ok_def rr_dev_ok_def)
  from 2(3) assms(3) have e: "p = cp" "r = req" "maps' ! d = ?m'"
    "nx' ! d = (if after \<noteq> [] then fst (hd after) else if ?m' \<noteq> [] then fst (hd ?m') else 0)"
    using len by auto
  have lt: "\<forall>x \<in> set before. fst x < cp" "\<forall>x \<in> set after. cp < fst x" using ok by (auto simp: m_ok_split)
  have nb: "cp \<notin> fst ` set before" "cp \<notin> fst ` set after" using lt by auto
  have f: "filter (\<lambda>k. cp < k) (map fst ?m') = map fst after"
    using lt by (auto simp: filter_map comp_def filter_empty_conv filter_id_conv)
  have "list_at (maps ! d) cp = req # list_at ?m' cp"
    unfolding 2(1) using nb list_at_absent [OF nb(2)] by (simp add: list_at_append list_at_Cons)
  moreover have "list_at ?m' k = list_at (maps ! d) k" if "k \<noteq> cp" for k
    unfolding 2(1) using that by (simp add: list_at_append list_at_Cons)
  moreover have "nx' ! d = (case filter (\<lambda>k. cp < k) (map fst ?m') of k # _ \<Rightarrow> k
                 | [] \<Rightarrow> (case map fst ?m' of [] \<Rightarrow> 0 | k # _ \<Rightarrow> k))"
    unfolding f e(4) by (cases after; cases before) auto
  moreover have "nx ! d \<noteq> 0 \<longrightarrow> cp = nx ! d" using 2(2) by auto
  ultimately show ?thesis unfolding e(1,2,3) by blast
qed

lemma sjf_top_best:
  "x \<in> set (e # xs) \<Longrightarrow> \<not> elem_less (sjf_top e xs) x"
proof (induction e xs arbitrary: x rule: sjf_top.induct)
  case (2 e y ys)
  have tr: "\<not> elem_less a b \<Longrightarrow> \<not> elem_less b c \<Longrightarrow> \<not> elem_less a c" for a b c
    by (auto simp: elem_less_def split: if_splits)
  let ?b = "if elem_less e y then y else e"
  have b: "\<not> elem_less (sjf_top ?b ys) ?b" using 2 by simp
  have "\<not> elem_less ?b e" "\<not> elem_less ?b y" by (auto simp: elem_less_def split: if_splits)
  note to = tr [OF b this(1)] tr [OF b this(2)]
  from "2.prems" consider "x = e" | "x = y" | "x \<in> set ys" by auto
  then show ?case
  proof cases
    case 3
    then show ?thesis using "2.IH" [of x] by simp
  qed (use to in simp_all)
qed (simp add: elem_less_def)

text \<open>
  Shortest job first: a pop hands out a waiting request with the least recorded inference
  time of its task, among those with equal times one with the least request id, and removes it.
\<close>
theorem sjf_pops_shortest:
  assumes "sjf_pop d qs = (Some (p, r), qs')"
  shows "\<exists>e \<in> set (qs ! d). (p, r) = (el_procId e, el_requestId e)
    \<and> (\<forall>x \<in> set (qs ! d). el_time e < el_time x \<or> el_time e = el_time x \<and> r \<le> el_requestId x)
    \<and> mset (qs ! d) = add_mset e (mset (qs' ! d))"
proof -
  from assms obtain e es where q: "d < length qs" "qs ! d = e # es"
      "p = el_procId (sjf_top e es)" "r = el_requestId (sjf_top e es)" "qs' = qs[d := remove1 (sjf_top e es) (e # es)]"
    by (auto simp: sjf_pop_def Let_def split: if_splits list.splits)
  let ?t = "sjf_top e es"
  have "el_time ?t < el_time x \<or> el_time ?t = el_time x \<and> r \<le> el_requestId x" if "x \<in> set (qs ! d)" for x
    using sjf_top_best [of x e es] that q(2,4) by (auto simp: elem_less_def split: if_splits)
  moreover have "mset (qs ! d) = add_mset ?t (mset (qs' ! d))"
    using sjf_top_in [of e es] q by (auto simp del: remove1.simps)
  ultimately show ?thesis using q sjf_top_in [of e es] by (intro bexI [of _ ?t]) auto
qed

theorem sjf_pops_shortest_witness:
  "fst (sjf_pop 0 [[\<lparr>el_requestId = 1, el_procId = 7, el_time = 9\<rparr>, \<lparr>el_requestId = 2, el_procId = 8, el_time = 4\<rparr>]]) = Some (8, 2)
   \<and> (\<exists>e \<in> set [\<lparr>el_requestId = 1, el_procId = 7, el_time = 9\<rparr>, \<lparr>el_requestId = 2, el_procId = 8, el_time = (4::u32)\<rparr>].
        (8, 2) = (el_procId e, el_requestId e))"
proof -
  let ?q = "[[\<lparr>el_requestId = 1, el_procId = 7, el_time = 9\<rparr>, \<lparr>el_requestId = 2, el_procId = 8, el_time = (4::u32)\<rparr>]]"
  have f: "fst (sjf_pop 0 ?q) = Some (8, 2)" by code_simp
  have "sjf_pop 0 ?q = (Some (8, 2), snd (sjf_pop 0 ?q))" using f by (metis prod.collapse)
  from sjf_pops_shortest [OF this] f show ?thesis by auto
qed

text \<open>
  \<open>InferenceRequest\<close> submits with a channel in range: for a device with \<open>num\<close> channels an
  invalid channel number becomes its residue modulo \<open>num\<close> (also for negative numbers, whose C++
  remainder is negative), and a valid one is kept.
\<close>
theorem dma_channel_normalised:
  assumes "0 < num"
  shows "normalize_dma_ch num ch = ch mod num \<and> 0 \<le> normalize_dma_ch num ch \<and> normalize_dma_ch num ch < num"
proof -
  have rem: "c_rem a num = (if 0 \<le> a then a mod num else - ((- a) mod num))" for a
    using assms by (simp add: c_rem_def minus_div_mult_eq_mod [symmetric] algebra_simps)
  have "c_rem (c_rem ch num + num) num = ch mod num"
  proof (cases "0 \<le> ch")
    case True
    then show ?thesis using assms by (simp add: rem)
  next
    case False
    have "(- ch) mod num < num" using assms by simp
    then have "c_rem (c_rem ch num + num) num = (- ((- ch) mod num) + num) mod num"
      using False by (simp add: rem)
    also have "\<dots> = ch mod num" by (simp add: mod_minus_eq)
    finally show ?thesis .
  qed
  then show ?thesis using assms by (auto simp: normalize_dma_ch_def)
qed

text \<open>
  A stale queue element is submitted again: when a pending request is stopped its element
  stays in the queue; if the client then sends a request with the same id, the queue holds two
  elements for one entry, and since \<open>doInference\<close> does not look at the state of the entry, the one
  request is submitted to the NPU twice.
\<close>
theorem stale_queue_element_submits_twice:
  "\<exists>s. run_ops (adds 7 @ [OpStopTask 7 0 1, OpAdd accept_env (request 7 6) 0,
          OpFinish accept_env 0 done0, OpFinish accept_env 0 (done0\<lparr>rs_req_id := 1\<rparr>)])
         (scheduler_new (fifo_new 1) 1 True) = Running s
     \<and> length (filter (\<lambda>ev. ev = Submit 0 7 6) (sc_log s)) = 2"
proof -
  have "case run_ops (adds 7 @ [OpStopTask 7 0 1, OpAdd accept_env (request 7 6) 0,
          OpFinish accept_env 0 done0, OpFinish accept_env 0 (done0\<lparr>rs_req_id := 1\<rparr>)])
         (scheduler_new (fifo_new 1) 1 True) of
       Running s \<Rightarrow> length (filter (\<lambda>ev. ev = Submit 0 7 6) (sc_log s)) = 2 | _ \<Rightarrow> False"
    by code_simp
  then show ?thesis by (auto split: outcome.splits)
qed

text \<open>
  The early returns of \<open>FinishJobs\<close> (unknown process or request) run \<open>schedule\<close> but do not
  deliver the error responses it deferred: here process 9 died with one
  request in flight; when its response arrives, the two waiting requests of process 7 are rejected
  (their task is no longer valid) and dropped, but process 7 is not told.
\<close>
theorem finish_jobs_strands_errors:
  "\<exists>s s'. run_ops (OpAdd accept_env (request 9 0) 0 # adds 7 @ [OpCleanDied 9]) (scheduler_new (fifo_new 1) 1 True) = Running s
     \<and> FinishJobs (accept_env\<lparr>env_validateTask := (\<lambda>_ _ _. False)\<rparr>) 0 (done0\<lparr>rs_proc_id := 9\<rparr>) s = Running s'
     \<and> sc_log s' = sc_log s @ [Response 0]
     \<and> sc_pendingErrorCallbacks s' = [(error_response 5 7 (-1), 0), (error_response 6 7 (-1), 0)]"
proof -
  have "case run_ops (OpAdd accept_env (request 9 0) 0 # adds 7 @ [OpCleanDied 9]) (scheduler_new (fifo_new 1) 1 True) of
      Running s \<Rightarrow> (case FinishJobs (accept_env\<lparr>env_validateTask := (\<lambda>_ _ _. False)\<rparr>) 0 (done0\<lparr>rs_proc_id := 9\<rparr>) s of
         Running s' \<Rightarrow> sc_log s' = sc_log s @ [Response 0]
           \<and> sc_pendingErrorCallbacks s' = [(error_response 5 7 (-1), 0), (error_response 6 7 (-1), 0)] | _ \<Rightarrow> False) | _ \<Rightarrow> False"
    by code_simp
  then show ?thesis by (auto split: outcome.splits)
qed

end
