(* ===== verification/Dxrt_Service_Correct.thy ===== *)
theory Dxrt_Service_Correct
  imports Dxrt_Service Scheduler_Correct
begin

section \<open>Correctness of the service\<close>

text \<open>
  The invariant of the service ties its parts together: every memory service is sound and
  belongs to a device, every task record belongs to a device, the bound managers count at
  least the tasks that use a bound, and the scheduler has one load per device. Every handler
  keeps it, so no handler indexes a device out of range and no bound is deregistered while a
  task uses it. The later sections follow the memory of a task through the clean-up of its
  process.
\<close>

subsection \<open>Bounds in use\<close>

abbreviation in_range :: "DxrtServiceV2 \<Rightarrow> int \<Rightarrow> bool" where
  "in_range S d \<equiv> 0 \<le> d \<and> nat d < length (sv_devices S)"

abbreviation bounds_at :: "DxrtServiceV2 \<Rightarrow> nat \<Rightarrow> BoundManager" where
  "bounds_at S i \<equiv> sd_bounds (sv_devices S ! i)"

lemma AddBound_count: "bm_count (snd (AddBound drv b m)) c = bm_count m c + (if fst (AddBound drv b m) = 0 \<and> c = b then 1 else 0)"
  by (simp add: AddBound_def BoundOption_def Let_def)

lemma DeleteBound_count: "bm_count m c - (if c = b then 1 else 0) \<le> bm_count (snd (DeleteBound drv b m)) c"
  by (simp add: DeleteBound_def BoundOption_def Let_def)

text \<open>
  \<open>covered S d es\<close>: the managers are sound and count the tasks of the store, and on device \<open>d\<close> also
  the entries \<open>es\<close> that have left the store and still hold their bound.
\<close>

definition covered :: "DxrtServiceV2 \<Rightarrow> int \<Rightarrow> (int \<times> npu_bound_op) list \<Rightarrow> bool" where
  "covered S d es \<longleftrightarrow> (\<forall>i < length (sv_devices S). bm_inv (bounds_at S i)
     \<and> (\<forall>b. int (users (task_bounds (sv_taskInfoStore S)) (int i) b)
          + (if int i = d then int (length (filter (\<lambda>e. snd e = b) es)) else 0) \<le> bm_count (bounds_at S i) b))"

lemma covered_cong:
  "sv_devices S' = sv_devices S \<Longrightarrow> sv_taskInfoStore S' = sv_taskInfoStore S \<Longrightarrow> covered S' d es = covered S d es"
  by (simp add: covered_def)

lemma covered_put_bounds:
  assumes "covered S d es" "in_range S d" "bm_inv bm"
    and "\<And>b. int (users (task_bounds (sv_taskInfoStore S)) d b) + int (length (filter (\<lambda>e. snd e = b) es')) \<le> bm_count bm b"
  shows "covered (put_bounds d bm S) d es'"
  using assms by (auto simp: covered_def put_bounds_def nth_list_update)

lemma coveredD:
  assumes "covered S d es" "in_range S d"
  shows "bm_inv (bounds_at S (nat d))"
    "int (users (task_bounds (sv_taskInfoStore S)) d b) + int (length (filter (\<lambda>e. snd e = b) es))
      \<le> bm_count (bounds_at S (nat d)) b"
  using assms by (auto simp: covered_def dest!: spec [of _ "nat d"])

lemma covered_delete:
  assumes "covered S d ((t, b) # es)"
  shows "covered (delete_bound_at env d b S) d es"
proof (cases "in_range S d")
  case True
  let ?m = "bounds_at S (nat d)"
  have c: "bm_inv ?m" "int (users (task_bounds (sv_taskInfoStore S)) d c)
      + int (length (filter (\<lambda>e. snd e = c) ((t, b) # es))) \<le> bm_count ?m c" for c
    using coveredD [OF assms True] by blast+
  have pos: "0 < bm_count ?m b" using c(2) [of b] by simp
  have "bm_inv (snd (DeleteBound (ev_bound env (nat d)) b ?m))"
    using bm_inv_delete [OF c(1) pos, of "ev_bound env (nat d)"] by simp
  moreover have "int (users (task_bounds (sv_taskInfoStore S)) d c) + int (length (filter (\<lambda>e. snd e = c) es))
      \<le> bm_count (snd (DeleteBound (ev_bound env (nat d)) b ?m)) c" for c
    using c(2) [of c] DeleteBound_count [of ?m c b "ev_bound env (nat d)"] by (cases "c = b") auto
  ultimately show ?thesis
    using True covered_put_bounds [OF assms True] by (simp add: delete_bound_at_def device_at_def)
next
  case False
  then show ?thesis using assms by (auto simp: delete_bound_at_def device_at_def covered_def)
qed

lemma delete_bound_at_sel [simp]:
  "sv_scheduler (delete_bound_at env d b S) = sv_scheduler S"
  "sv_taskInfoStore (delete_bound_at env d b S) = sv_taskInfoStore S"
  "sv_pendingTaskFree (delete_bound_at env d b S) = sv_pendingTaskFree S"
  "sv_sharedMemoryHandles (delete_bound_at env d b S) = sv_sharedMemoryHandles S"
  "sv_memoryServices (delete_bound_at env d b S) = sv_memoryServices S"
  "length (sv_devices (delete_bound_at env d b S)) = length (sv_devices S)"
  "sv_pidSet (delete_bound_at env d b S) = sv_pidSet S"
  by (auto simp: delete_bound_at_def put_bounds_def split: option.splits)

lemma put_sel [simp]:
  "sv_scheduler (put_memory d m S) = sv_scheduler S" "sv_scheduler (put_bounds d b S) = sv_scheduler S"
  "sv_taskInfoStore (put_memory d m S) = sv_taskInfoStore S" "sv_taskInfoStore (put_bounds d b S) = sv_taskInfoStore S"
  "sv_devices (put_memory d m S) = sv_devices S" "length (sv_devices (put_bounds d b S)) = length (sv_devices S)"
  "sv_memoryServices (put_memory d m S) = m_put d m (sv_memoryServices S)"
  "sv_memoryServices (put_bounds d b S) = sv_memoryServices S"
  "sv_sharedMemoryHandles (put_memory d m S) = sv_sharedMemoryHandles S"
  "sv_sharedMemoryHandles (put_bounds d b S) = sv_sharedMemoryHandles S"
  "sv_pendingTaskFree (put_memory d m S) = sv_pendingTaskFree S" "sv_pendingTaskFree (put_bounds d b S) = sv_pendingTaskFree S"
  by (simp_all add: put_memory_def put_bounds_def)

lemma device_at_iff: "device_at S d \<noteq> None \<longleftrightarrow> in_range S d"
  by (simp add: device_at_def)

lemma device_at_Some: "device_at S d = Some dev \<longleftrightarrow> in_range S d \<and> dev = sv_devices S ! nat d"
  by (auto simp: device_at_def)

subsection \<open>The invariant\<close>

definition mems_ok :: "DxrtServiceV2 \<Rightarrow> bool" where
  "mems_ok S \<longleftrightarrow> (\<forall>d mem. map_of (sv_memoryServices S) d = Some mem \<longrightarrow> ms_inv mem \<and> in_range S d)"

definition store_in_range :: "DxrtServiceV2 \<Rightarrow> bool" where
  "store_in_range S \<longleftrightarrow> store_ok (sv_taskInfoStore S)
     \<and> (\<forall>p d t. task_bounds (sv_taskInfoStore S) (p, d, t) \<noteq> None \<longrightarrow> in_range S d)"

definition handles_in_range :: "DxrtServiceV2 \<Rightarrow> bool" where
  "handles_in_range S \<longleftrightarrow> (\<forall>d. map_of (sv_sharedMemoryHandles S) d \<noteq> None \<longrightarrow> in_range S d)"

definition svc_inv :: "DxrtServiceV2 \<Rightarrow> bool" where
  "svc_inv S \<longleftrightarrow> mems_ok S \<and> store_in_range S \<and> handles_in_range S \<and> covered S (-1) []
     \<and> sched_ok (length (sv_devices S)) (sv_scheduler S)"

lemma covered_Nil: "covered S d [] = covered S (-1) []"
  by (auto simp: covered_def)

lemma svc_invD:
  assumes "svc_inv S"
  shows "mems_ok S" "store_in_range S" "handles_in_range S" "covered S d []"
    "sched_ok (length (sv_devices S)) (sv_scheduler S)" "store_ok (sv_taskInfoStore S)"
  using assms covered_Nil [of S d] by (auto simp: svc_inv_def store_in_range_def)

lemma mems_ok_put: "mems_ok S \<Longrightarrow> ms_inv mem \<Longrightarrow> in_range S d \<Longrightarrow> mems_ok (put_memory d mem S)"
  by (auto simp: mems_ok_def)

lemma mems_ok_get: "mems_ok S \<Longrightarrow> GetMemoryService d S = Some mem \<Longrightarrow> ms_inv mem \<and> in_range S d"
  by (simp add: mems_ok_def GetMemoryService_def)

lemma put_handles_dom: "dom (map_of (put_handles d p m H)) \<subseteq> insert d (dom (map_of H))"
  by (auto simp: put_handles_def Let_def split: if_splits)

lemma svc_inv_frame:
  assumes "svc_inv S" "sv_devices S' = sv_devices S" "sv_taskInfoStore S' = sv_taskInfoStore S"
    "sv_scheduler S' = sv_scheduler S" "mems_ok S'" "handles_in_range S'"
  shows "svc_inv S'"
  using assms covered_cong [of S' S "-1" "[]"] by (simp add: svc_inv_def store_in_range_def)

lemma svc_inv_put_memory:
  assumes "svc_inv S" "GetMemoryService d S = Some mem" "ms_inv mem'"
  shows "svc_inv (put_memory d mem' S)"
proof -
  have "mems_ok (put_memory d mem' S)"
    using assms mems_ok_get [OF svc_invD(1)] by (intro mems_ok_put svc_invD(1)) auto
  then show ?thesis using assms(1) by (intro svc_inv_frame [OF assms(1)]) (auto simp: svc_inv_def handles_in_range_def)
qed

lemma svc_inv_memfd [simp]: "svc_inv (S\<lparr>sv_memfdService := mf\<rparr>) = svc_inv S"
  by (simp add: svc_inv_def mems_ok_def store_in_range_def handles_in_range_def covered_def)

lemma svc_inv_pidSet [simp]: "svc_inv (S\<lparr>sv_pidSet := ps\<rparr>) = svc_inv S"
  by (simp add: svc_inv_def mems_ok_def store_in_range_def handles_in_range_def covered_def)

lemma svc_inv_pending [simp]: "svc_inv (S\<lparr>sv_pendingTaskFree := m\<rparr>) = svc_inv S"
  by (simp add: svc_inv_def mems_ok_def store_in_range_def handles_in_range_def covered_def)

lemma svc_inv_dma [simp]: "svc_inv (S\<lparr>sv_dma := xs\<rparr>) = svc_inv S" "svc_inv (S\<lparr>sv_pendingDmaOperations := k\<rparr>) = svc_inv S"
  "svc_inv (S\<lparr>sv_recoveryInProgress := b\<rparr>) = svc_inv S"
  by (simp_all add: svc_inv_def mems_ok_def store_in_range_def handles_in_range_def covered_def)

lemma svc_inv_handles:
  assumes "svc_inv S" "dom (map_of H) \<subseteq> insert d (dom (map_of (sv_sharedMemoryHandles S)))" "in_range S d"
  shows "svc_inv (S\<lparr>sv_sharedMemoryHandles := H\<rparr>)"
proof -
  have "handles_in_range (S\<lparr>sv_sharedMemoryHandles := H\<rparr>)"
    using assms svc_invD(3) [OF assms(1)] by (fastforce simp: handles_in_range_def)
  then show ?thesis using assms(1)
    by (simp add: svc_inv_def mems_ok_def store_in_range_def covered_def)
qed

lemma svc_inv_scheduler:
  "svc_inv S \<Longrightarrow> sched_ok (length (sv_devices S)) s \<Longrightarrow> svc_inv (S\<lparr>sv_scheduler := s\<rparr>)"
  by (simp add: svc_inv_def mems_ok_def store_in_range_def handles_in_range_def covered_def)

subsection \<open>Allocation\<close>

definition slot_of :: "int \<Rightarrow> int \<Rightarrow> slot" where
  "slot_of p t = (if t = -1 then Legacy p else Task p t)"

lemma slot_pid_slot_of [simp]: "slot_pid (slot_of p t) = p"
  by (simp add: slot_of_def)

lemma allocate_block_outcome:
  assumes "ms_inv mem" "forModel \<longrightarrow> sz \<noteq> 0"
  shows "alloc_outcome (slot_of p t) (if forModel then AlignSize sz else request_size sz) mem
    (fst (allocate_block p t sz forModel mem)) (snd (allocate_block p t sz forModel mem))"
  using service_alloc_outcome [OF assms(1)] service_balloc_outcome [OF assms(1), of sz] assms(2)
  by (auto simp: allocate_block_def slot_of_def)

lemma alloc_outcome_inv: "alloc_outcome sl n s a s' \<Longrightarrow> ms_inv s'"
  by (simp add: alloc_outcome_def)

lemma svc_inv_track: "svc_inv S \<Longrightarrow> in_range S d \<Longrightarrow> svc_inv (TrackSharedMemoryHandle d p info S)"
  unfolding TrackSharedMemoryHandle_def Let_def by (rule svc_inv_handles) auto

lemma svc_inv_release [simp]: "svc_inv (ReleaseSharedMemoryHandle info S) = svc_inv S"
  by (simp add: ReleaseSharedMemoryHandle_def)

lemma svc_inv_connected [simp]: "svc_inv (onClientConnected p S) = svc_inv S"
  by (simp add: onClientConnected_def)

text \<open>A handler that always returns, in a sound state.\<close>

definition total :: "'r handled \<Rightarrow> bool" where
  "total h \<longleftrightarrow> (\<exists>r S. h = Handled r S \<and> svc_inv S)"

lemma total_Handled [simp]: "total (Handled r S) = svc_inv S"
  by (simp add: total_def)

lemma total_and_then: "total h \<Longrightarrow> (\<And>r S. svc_inv S \<Longrightarrow> total (f r S)) \<Longrightarrow> total (and_then h f)"
  by (auto simp: total_def)

lemma HandleAllocate_total:
  assumes "svc_inv S" "forModel \<longrightarrow> sz \<noteq> 0"
  shows "total (HandleAllocate env p d t sz forModel S)"
proof (cases "GetMemoryService d S")
  case (Some mem)
  note m = mems_ok_get [OF svc_invD(1) [OF assms(1)] Some]
  obtain a mem1 where a: "allocate_block p t sz forModel mem = (a, mem1)" by fastforce
  with allocate_block_outcome [of mem forModel sz p t] m assms(2) have "ms_inv mem1"
    by (auto dest: alloc_outcome_inv)
  then have S1: "svc_inv (put_memory d mem1 S)" and g: "GetMemoryService d (put_memory d mem1 S) = Some mem1"
    using svc_inv_put_memory [OF assms(1) Some] by (simp_all add: GetMemoryService_def)
  have "ms_inv (snd (DeallocateAddress a p mem1))" using DeallocateAddress_touches [OF \<open>ms_inv mem1\<close>] by blast
  then have "svc_inv (put_memory d (snd (DeallocateAddress a p mem1)) ((put_memory d mem1 S)\<lparr>sv_memfdService := mf\<rparr>))" for mf
    using S1 g by (intro svc_inv_put_memory [of _ d mem1]) (auto simp: GetMemoryService_def)
  moreover have "svc_inv (TrackSharedMemoryHandle d p info ((put_memory d mem1 S)\<lparr>sv_memfdService := mf\<rparr>))" for info mf
    using S1 m by (intro svc_inv_track) auto
  ultimately show ?thesis using Some a S1 m
    by (auto simp: HandleAllocate_def Let_def device_at_def split: prod.split sum.split)
qed (use assms in \<open>simp add: HandleAllocate_def\<close>)

lemma HandleDeallocate_total:
  assumes "svc_inv S"
  shows "total (HandleDeallocate p d address S)"
proof (cases "GetMemoryService d S")
  case (Some mem)
  note m = mems_ok_get [OF svc_invD(1) [OF assms] Some]
  obtain dev where dev: "device_at S d = Some dev" using m by (simp add: device_at_def)
  obtain r S1 where r: "TryResolveSharedMemoryHandle d p address (sd_mem_addr dev) S = (r, S1)" by fastforce
  have S1: "svc_inv S1" "sv_memoryServices S1 = sv_memoryServices S"
    using assms r svc_inv_handles [OF assms put_handles_dom, of d] m
    by (auto simp: TryResolveSharedMemoryHandle_def Let_def split: option.splits)
  have "ms_inv (snd (DeallocateAddress a p mem))" for a using DeallocateAddress_touches m by blast
  moreover have "GetMemoryService d (ReleaseSharedMemoryHandle i S1) = Some mem" "GetMemoryService d S1 = Some mem" for i
    using Some S1(2) by (simp_all add: GetMemoryService_def ReleaseSharedMemoryHandle_def)
  ultimately have "svc_inv (put_memory d (snd (DeallocateAddress a p mem)) (ReleaseSharedMemoryHandle i S1))"
    "svc_inv (put_memory d (snd (DeallocateAddress a p mem)) S1)" for a i
    using svc_inv_put_memory [of _ d mem] S1(1) by auto
  then show ?thesis using Some dev r
    by (auto simp: HandleDeallocate_def Let_def split: prod.split option.split) (metis snd_conv)+
qed (use assms in \<open>simp add: HandleDeallocate_def\<close>)

subsection \<open>Tasks\<close>

lemma covered_store:
  assumes "covered S d es"
    and "\<And>e b. users (task_bounds st) e b + (if e = d then length (filter (\<lambda>x. snd x = b) es') else 0)
        \<le> users (task_bounds (sv_taskInfoStore S)) e b + (if e = d then length (filter (\<lambda>x. snd x = b) es) else 0)"
  shows "covered (S\<lparr>sv_taskInfoStore := st\<rparr>) d es'"
  unfolding covered_def
proof (intro allI impI conjI)
  fix i assume i: "i < length (sv_devices (S\<lparr>sv_taskInfoStore := st\<rparr>))"
  with assms(1) show "bm_inv (bounds_at (S\<lparr>sv_taskInfoStore := st\<rparr>) i)" by (simp add: covered_def)
  fix b
  have "int (users (task_bounds (sv_taskInfoStore S)) (int i) b)
      + (if int i = d then int (length (filter (\<lambda>e. snd e = b) es)) else 0) \<le> bm_count (bounds_at S i) b"
    using assms(1) i unfolding covered_def by (metis (no_types, lifting) DxrtServiceV2.select_convs(1) DxrtServiceV2.surjective DxrtServiceV2.update_convs(4))
  with assms(2) [of "int i" b]
  show "int (users (task_bounds (sv_taskInfoStore (S\<lparr>sv_taskInfoStore := st\<rparr>))) (int i) b)
      + (if int i = d then int (length (filter (\<lambda>e. snd e = b) es')) else 0)
      \<le> bm_count (bounds_at (S\<lparr>sv_taskInfoStore := st\<rparr>) i) b"
    by (simp split: if_splits)
qed

text \<open>The parts of the invariant that the operations on tasks leave alone.\<close>

lemma svc_inv_tasks:
  assumes "svc_inv S" "sv_memoryServices S' = sv_memoryServices S" "sv_sharedMemoryHandles S' = sv_sharedMemoryHandles S"
    "length (sv_devices S') = length (sv_devices S)" "store_in_range S'" "covered S' d []"
    "sched_ok (length (sv_devices S)) (sv_scheduler S')"
  shows "svc_inv S'"
  using assms covered_Nil [of S' d] by (auto simp: svc_inv_def mems_ok_def handles_in_range_def)

lemma TaskInit_optimized:
  assumes "svc_inv S" "GetMemoryService d S = Some mem"
  shows "svc_inv (put_memory d (OptimizeMemory mem) S)"
  using svc_inv_put_memory [OF assms] OptimizeMemory_noop [of mem] mems_ok_get [OF svc_invD(1) [OF assms(1)] assms(2)] by simp

lemma store_in_range_add:
  assumes "store_in_range S" "in_range S d" "addTask p d t b u c (sv_taskInfoStore S) = (r, st)"
    "length (sv_devices S') = length (sv_devices S)" "sv_taskInfoStore S' = st"
  shows "store_in_range S'"
proof -
  have ok: "store_ok (sv_taskInfoStore S)" using assms(1) by (simp add: store_in_range_def)
  show ?thesis
    using store.add_ok [OF ok, of "(u, c)" p d t b] store.add_tasks [OF ok, of "(u, c)" p d t b] assms
    by (auto simp: store_in_range_def split: if_splits)
qed

lemma register_task:
  fixes env :: service_env
  assumes "svc_inv S" "in_range S d" "CanAcceptBound b (bounds_at S (nat d))"
    and "AddBound (ev_bound env (nat d)) b (bounds_at S (nat d)) = (ret, bm)"
  shows "svc_inv (put_bounds d bm S)"
    and "ret = 0 \<Longrightarrow> addTask p d t b u c (sv_taskInfoStore S) = (True, st)
      \<Longrightarrow> svc_inv ((put_bounds d bm S)\<lparr>sv_taskInfoStore := st\<rparr>)"
    and "ret = 0 \<Longrightarrow> addTask p d t b u c (sv_taskInfoStore S) = (False, st)
      \<Longrightarrow> svc_inv (put_bounds d (snd (DeleteBound (ev_bound env (nat d)) b bm)) ((put_bounds d bm S)\<lparr>sv_taskInfoStore := st\<rparr>))"
proof -
  let ?S = "put_bounds d bm S" and ?T = "sv_taskInfoStore S"
  note inv = svc_invD [OF assms(1)]
  note old = coveredD [OF inv(4) assms(2)]
  have bm: "bm_inv bm" using bm_inv_add [OF old(1) assms(3), of "ev_bound env (nat d)"] assms(4) by simp
  have count: "bm_count bm c = bm_count (bounds_at S (nat d)) c + (if ret = 0 \<and> c = b then 1 else 0)" for c
    using AddBound_count [of "ev_bound env (nat d)" b "bounds_at S (nat d)" c] assms(4) by simp
  have cov: "covered ?S d []"
    by (rule covered_put_bounds [OF inv(4) assms(2) bm]) (use old(2) count in \<open>simp add: add_increasing2\<close>)
  have cov1: "covered ?S d [(t, b)]" if "ret = 0"
    by (rule covered_put_bounds [OF inv(4) assms(2) bm]) (use old(2) count that in simp)
  show S2: "svc_inv ?S"
    using inv cov assms(2) by (intro svc_inv_tasks [OF assms(1)]) (auto simp: store_in_range_def)
  show "svc_inv (?S\<lparr>sv_taskInfoStore := st\<rparr>)" if "ret = 0" and add: "addTask p d t b u c ?T = (True, st)"
  proof (rule svc_inv_tasks [OF assms(1)])
    show "covered (?S\<lparr>sv_taskInfoStore := st\<rparr>) d []"
      using store.users_add [OF inv(6), of "(u, c)" p d t b] add by (intro covered_store [OF cov1 [OF that(1)]]) auto
  qed (use inv store_in_range_add [OF inv(2) assms(2) add] in auto)
  show "svc_inv (put_bounds d (snd (DeleteBound (ev_bound env (nat d)) b bm)) (?S\<lparr>sv_taskInfoStore := st\<rparr>))" (is "svc_inv ?D")
    if "ret = 0" and add: "addTask p d t b u c ?T = (False, st)"
  proof (rule svc_inv_tasks [OF assms(1)])
    have "covered (?S\<lparr>sv_taskInfoStore := st\<rparr>) d [(t, b)]"
      using store.users_add [OF inv(6), of "(u, c)" p d t b] add by (intro covered_store [OF cov1 [OF that(1)]]) auto
    moreover have "?D = delete_bound_at env d b (?S\<lparr>sv_taskInfoStore := st\<rparr>)"
      using assms(2) by (simp add: delete_bound_at_def device_at_def put_bounds_def)
    ultimately show "covered ?D d []" using covered_delete [of _ d t b "[]" env] by simp
  qed (use inv store_in_range_add [OF inv(2) assms(2) add] in auto)
qed

lemma TaskInit_total:
  assumes "svc_inv S" "bound_of bound \<noteq> None"
  shows "total (TaskInit env p d t bound msize config S)"
proof (cases "in_range S d \<and> GetMemoryService d S \<noteq> None")
  case True
  then obtain mem where mem: "GetMemoryService d S = Some mem" by blast
  define S1 where "S1 = (if MemoryService_free_size mem < msize then put_memory d (OptimizeMemory mem) S else S)"
  have S1: "svc_inv S1" "in_range S1 d" "sv_devices S1 = sv_devices S"
    using assms(1) TaskInit_optimized [OF assms(1) mem] True by (auto simp: S1_def)
  obtain b where b: "bound_of bound = Some b" using assms(2) by blast
  obtain ret bm where A: "AddBound (ev_bound env (nat d)) b (bounds_at S1 (nat d)) = (ret, bm)" by fastforce
  note reg = register_task [OF S1(1,2) _ A]
  show ?thesis
    using True mem b A S1 reg unfolding TaskInit_def
    by (auto simp: device_at_def Let_def S1_def [symmetric] split: prod.split bool.split)
qed (use assms in \<open>auto simp: TaskInit_def device_at_def split: option.split\<close>)

lemma TaskDeInit_inv:
  assumes "svc_inv S"
  shows "svc_inv (TaskDeInit env d t p S)"
proof -
  note inv = svc_invD [OF assms]
  obtain r st where r: "removeTask p d t (sv_taskInfoStore S) = (r, st)" by fastforce
  note facts = store.remove_ok [OF inv(6), of p d t] store.remove_tasks [OF inv(6), of p d t] store.users_remove [OF inv(6), of _ _ p d t]
  have range: "store_in_range (S\<lparr>sv_taskInfoStore := st, sv_scheduler := s\<rparr>)" for s
    using facts(1,2) inv(2) r by (auto simp: store_in_range_def)
  have quiet: "sched_ok (length (sv_devices S)) (StopTaskInference p (nat d) t (sv_scheduler S))"
    using inv(5) quiet_sched_ok [OF StopTaskInference_quiet] by blast
  show ?thesis
  proof (cases r)
    case None
    have "covered (S\<lparr>sv_taskInfoStore := st\<rparr>) d []"
      using facts(3) r None by (intro covered_store [OF inv(4)]) simp
    then show ?thesis using range [of "sv_scheduler S"] inv r None
      by (intro svc_inv_tasks [OF assms, of _ d]) (auto simp: TaskDeInit_def store_in_range_def)
  next
    case (Some b)
    let ?S = "S\<lparr>sv_taskInfoStore := st, sv_scheduler := StopTaskInference p (nat d) t (sv_scheduler S)\<rparr>"
    have "covered (S\<lparr>sv_taskInfoStore := st\<rparr>) d [(t, b)]"
      using facts(3) r Some by (intro covered_store [OF inv(4)]) (auto split: if_splits)
    then have "covered ?S d [(t, b)]" by (subst covered_cong [of _ "S\<lparr>sv_taskInfoStore := st\<rparr>"]) auto
    from covered_delete [OF this, of env] show ?thesis using range quiet inv r Some
      by (intro svc_inv_tasks [OF assms, of _ d]) (auto simp: TaskDeInit_def store_in_range_def)
  qed
qed

subsection \<open>Inference requests and responses\<close>

text \<open>A handler that may stop the process with a failed assertion, but is never undefined.\<close>

definition safe :: "'r handled \<Rightarrow> bool" where
  "safe h \<longleftrightarrow> h \<noteq> Invalid_access \<and> (\<forall>r S. h = Handled r S \<longrightarrow> svc_inv S)"

lemma total_safe: "total h \<Longrightarrow> safe h"
  by (auto simp: total_def safe_def)

lemma safe_Handled [simp]: "safe (Handled r S) = svc_inv S" "safe Abort"
  by (simp_all add: safe_def)

lemma then_do_OutOfRange: "then_do out f = OutOfRange \<longleftrightarrow> out = OutOfRange"
  by (cases out) auto

lemma AddScheduler_in_range:
  assumes "sched_ok n s" "d < n"
  shows "AddScheduler env packet d s \<noteq> OutOfRange"
proof -
  have ok: "policy_ok n (sc_policy s)" "length (sc_loads s) = n" using assms(1) by (auto simp: sched_ok_def)
  have "policy_ok n (pushRequest d p r t (sc_policy s))" for p r t using pol.push_ok [OF ok(1) assms(2)] by blast
  then have "schedule env d (s\<lparr>sc_map := m, sc_loadsProc := l, sc_policy := pushRequest d p r t (sc_policy s)\<rparr>) \<noteq> OutOfRange" for m l p r t
    using schedule_spec [of n _ d env] ok assms(2) by simp
  then show ?thesis
    using ok assms(2) by (auto simp: AddScheduler_def Let_def then_do_OutOfRange put_entry_def proc_load_def)
qed

lemma HandleInferenceRequest_safe:
  assumes "svc_inv S"
  shows "safe (HandleInferenceRequest env p d packet S)"
proof -
  note inv = svc_invD [OF assms]
  have range: "in_range S d" if "Service_IsTaskValid p d t S" for t
    using that mems_ok_get [OF inv(1)] by (auto simp: Service_IsTaskValid_def split: if_splits option.splits)
  have ok: "AddScheduler e packet (nat d) (sv_scheduler S) \<noteq> OutOfRange" if "in_range S d" for e
    using AddScheduler_in_range [OF inv(5)] that by blast
  have "svc_inv (S\<lparr>sv_scheduler := s\<rparr>)" if "AddScheduler e packet (nat d) (sv_scheduler S) = Running s" for e s
    using AddScheduler_effect(1) [OF that inv(5)] by (intro svc_inv_scheduler [OF assms]) (simp add: op_effect_def)
  then show ?thesis using assms range ok
    by (auto simp: HandleInferenceRequest_def device_at_def split: outcome.split)
qed

lemma onTaskDrained_inv: "svc_inv S \<Longrightarrow> svc_inv (onTaskDrained p t S)"
proof -
  assume S: "svc_inv S"
  let ?S = "S\<lparr>sv_pendingTaskFree := m_erase (p, t) (sv_pendingTaskFree S)\<rparr>"
  have "svc_inv (put_memory d (snd (DeallocateTask p t mem)) ?S)" if "GetMemoryService d ?S = Some mem" for d mem
    using that S mems_ok_get [OF svc_invD(1), of ?S d mem] DeallocateTask_dropped(1) [of mem p t]
    by (intro svc_inv_put_memory) (auto simp: dropped_def)
  with S show ?thesis by (auto simp: onTaskDrained_def Let_def split: option.split)
qed

lemma listen_inv: "svc_inv S \<Longrightarrow> svc_inv (listen ev S)"
  by (cases ev) (auto simp: onTaskDrained_inv)

lemma fold_listen_inv: "svc_inv S \<Longrightarrow> svc_inv (fold listen evs S)"
  by (induction evs arbitrary: S) (auto simp: listen_inv)

lemma FinishJobs_in_range:
  assumes "sched_ok n s" "d < n"
  shows "FinishJobs env d resp s \<noteq> OutOfRange"
proof -
  have ok: "policy_ok n (sc_policy s)" "length (sc_loads s) = n" using assms(1) by (auto simp: sched_ok_def)
  have "schedule env d t \<noteq> OutOfRange" if "policy_ok n (sc_policy t)" "length (sc_loads t) = n" for t
    using schedule_spec [OF that(1) assms(2) that(2)] by blast
  then show ?thesis
    using ok assms(2) by (auto simp: FinishJobs_def Let_def then_do_OutOfRange erase_entry_def add_load_def emit_def split: option.split)
qed

lemma onDeviceResponse_safe:
  assumes "svc_inv S" "d < length (sv_devices S)"
  shows "safe (onDeviceResponse env d resp S)"
proof -
  note inv = svc_invD [OF assms(1)]
  have "svc_inv (fold listen evs (S\<lparr>sv_scheduler := s\<rparr>))"
    if "FinishJobs (sched_env_of env S) d resp (sv_scheduler S) = Running s" for s evs
    using FinishJobs_effect(1) [OF that inv(5)] by (intro fold_listen_inv svc_inv_scheduler [OF assms(1)]) (simp add: op_effect_def)
  then show ?thesis using FinishJobs_in_range [OF inv(5) assms(2)]
    by (auto simp: onDeviceResponse_def split: outcome.split)
qed

subsection \<open>Process clean-up\<close>

lemma release_entry_sel [simp]:
  "sv_scheduler (release_entry env p d R e S) = sv_scheduler S"
  "sv_taskInfoStore (release_entry env p d R e S) = sv_taskInfoStore S"
  "sv_pendingTaskFree (release_entry env p d R e S) = sv_pendingTaskFree S"
  "sv_sharedMemoryHandles (release_entry env p d R e S) = sv_sharedMemoryHandles S"
  "length (sv_devices (release_entry env p d R e S)) = length (sv_devices S)"
  by (auto simp: release_entry_def Let_def split: option.splits)

text \<open>The memory services after one and after all entries.\<close>

definition release_memory :: "int \<Rightarrow> int list \<Rightarrow> int list \<Rightarrow> MemoryService \<Rightarrow> MemoryService" where
  "release_memory p R ts mem = fold (\<lambda>t m. snd (DeallocateTask p t m)) (filter (\<lambda>t. t \<notin> set R) ts) mem"

lemma release_memory_simps [simp]:
  "release_memory p R [] mem = mem"
  "release_memory p R (t # ts) mem = release_memory p R ts (if t \<in> set R then mem else snd (DeallocateTask p t mem))"
  by (simp_all add: release_memory_def)

lemma release_entry_memory:
  "GetMemoryService e (release_entry env p d R x S) =
     (if e = d then map_option (release_memory p R [fst x]) (GetMemoryService d S) else GetMemoryService e S)"
  by (auto simp: release_entry_def Let_def GetMemoryService_def split: option.splits)

lemma release_entries_memory:
  "GetMemoryService e (fold (release_entry env p d R) es S) =
     (if e = d then map_option (release_memory p R (map fst es)) (GetMemoryService d S) else GetMemoryService e S)"
proof (induction es arbitrary: S)
  case Nil
  then show ?case by (cases "GetMemoryService d S") simp_all
next
  case (Cons x es)
  then show ?case by (cases "GetMemoryService d S") (simp_all add: release_entry_memory)
qed

lemma release_memory_dropped:
  "ms_inv mem \<Longrightarrow> dropped (Task p ` (set ts - set R)) mem (release_memory p R ts mem)"
proof (induction ts arbitrary: mem)
  case Nil
  then show ?case using dropped_refl [of mem "{}"] by simp
next
  case (Cons t ts)
  show ?case
  proof (cases "t \<in> set R")
    case True
    then have "set (t # ts) - set R = set ts - set R" by auto
    with True Cons show ?thesis by simp
  next
    case False
    note d = DeallocateTask_dropped(1) [OF Cons.prems, of p t]
    then have "ms_inv (snd (DeallocateTask p t mem))" by (simp add: dropped_def)
    from dropped_trans [OF d Cons.IH [OF this]]
    have "dropped ({Task p t} \<union> Task p ` (set ts - set R)) mem (release_memory p R (t # ts) mem)"
      using False by simp
    moreover have "{Task p t} \<union> Task p ` (set ts - set R) = Task p ` (set (t # ts) - set R)" using False by auto
    ultimately show ?thesis by simp
  qed
qed

lemma release_entry_covered:
  "covered S d (x # es) \<Longrightarrow> covered (release_entry env p d R x S) d es"
proof -
  assume c: "covered S d (x # es)"
  define S1 where "S1 = (case GetMemoryService d S of None \<Rightarrow> S
    | Some mem \<Rightarrow> if fst x \<notin> set R then put_memory d (snd (DeallocateTask p (fst x) mem)) S else S)"
  have "covered S1 d (x # es)" using c by (subst covered_cong [of _ S]) (auto simp: S1_def split: option.splits)
  then show ?thesis using covered_delete [of S1 d "fst x" "snd x" es env]
    by (simp add: release_entry_def S1_def Let_def)
qed

lemma release_entries_covered:
  "covered S d es \<Longrightarrow> covered (fold (release_entry env p d R) es S) d []"
  by (induction es arbitrary: S) (auto intro: release_entry_covered)

lemma release_entries_sel [simp]:
  "sv_scheduler (fold (release_entry env p d R) es S) = sv_scheduler S"
  "sv_taskInfoStore (fold (release_entry env p d R) es S) = sv_taskInfoStore S"
  "sv_pendingTaskFree (fold (release_entry env p d R) es S) = sv_pendingTaskFree S"
  "sv_sharedMemoryHandles (fold (release_entry env p d R) es S) = sv_sharedMemoryHandles S"
  "length (sv_devices (fold (release_entry env p d R) es S)) = length (sv_devices S)"
  by (induction es arbitrary: S) simp_all

lemma mems_ok_alt:
  "mems_ok S \<longleftrightarrow> (\<forall>d mem. GetMemoryService d S = Some mem \<longrightarrow> ms_inv mem \<and> in_range S d)"
  by (simp add: mems_ok_def GetMemoryService_def)

lemma release_entries_mems_ok:
  assumes "mems_ok S"
  shows "mems_ok (fold (release_entry env p d R) es S)"
  unfolding mems_ok_alt
proof (intro allI impI)
  fix e mem assume "GetMemoryService e (fold (release_entry env p d R) es S) = Some mem"
  then obtain mem0 where m: "GetMemoryService e S = Some mem0" "mem = mem0 \<or> mem = release_memory p R (map fst es) mem0"
    by (auto simp: release_entries_memory split: if_splits)
  with assms have "ms_inv mem0" "in_range S e" by (auto simp: mems_ok_alt)
  with m release_memory_dropped [of mem0 p "map fst es" R]
  show "ms_inv mem \<and> in_range (fold (release_entry env p d R) es S) e" by (auto simp: dropped_def)
qed

text \<open>Stopping a process: the scheduler keeps its queues and loads.\<close>

lemma stop_fold_quiet: "sched_ok n s \<Longrightarrow> sched_ok n (fold (\<lambda>e. StopTaskInference p d (fst e)) es s)"
  by (induction es arbitrary: s) (auto simp: quiet_sched_ok [OF StopTaskInference_quiet])

lemma stopped_ok:
  "sched_ok n s \<Longrightarrow>
   sched_ok n (if c then ClearRunningRequests p d (fold (\<lambda>e. StopTaskInference p d (fst e)) es (StopAllInferenceForProcess p d s))
               else fold (\<lambda>e. StopTaskInference p d (fst e)) es (StopAllInferenceForProcess p d s))"
proof -
  assume "sched_ok n s"
  then have "sched_ok n (fold (\<lambda>e. StopTaskInference p d (fst e)) es (StopAllInferenceForProcess p d s))"
    using stop_fold_quiet quiet_sched_ok [OF StopAllInference_quiet] by blast
  moreover have "quiet u (ClearRunningRequests p d u)" for u
    using quiet_ops [of "OpClearRunning p d" u] by simp
  ultimately show ?thesis using quiet_sched_ok by auto
qed

text \<open>The state of \<open>HandleProcessDeInit\<close> when the shared memory is released.\<close>

definition deinit_entries :: "int \<Rightarrow> int \<Rightarrow> DxrtServiceV2 \<Rightarrow> (int \<times> npu_bound_op) list" where
  "deinit_entries p d S = fst (extractTaskIdsWithBound p d (sv_taskInfoStore S))"

definition deinit_state :: "service_env \<Rightarrow> int \<Rightarrow> int \<Rightarrow> DxrtServiceV2 \<Rightarrow> DxrtServiceV2" where
  "deinit_state env p d S =
     (let R = GetRunningTaskIds p (sv_scheduler S);
          es = deinit_entries p d S;
          sc2 = fold (\<lambda>entry. StopTaskInference p (nat d) (fst entry)) es (StopAllInferenceForProcess p (nat d) (sv_scheduler S))
      in fold (release_entry env p d R) es
           (S\<lparr>sv_pendingTaskFree := fold (\<lambda>t. m_put (p, t) d) R (sv_pendingTaskFree S),
              sv_taskInfoStore := snd (extractTaskIdsWithBound p d (sv_taskInfoStore S)),
              sv_scheduler := (if 0 \<le> d then ClearRunningRequests p (nat d) sc2 else sc2)\<rparr>))"

lemma HandleProcessDeInit_eq:
  "HandleProcessDeInit env p d S =
     and_then (ReleaseAllSharedMemoryHandlesForProcess d p (deinit_state env p d S))
       (\<lambda>_ S3. Handled 0 (S3\<lparr>sv_pidSet := remove1 p (sv_pidSet S3)\<rparr>))"
  by (cases "extractTaskIdsWithBound p d (sv_taskInfoStore S)")
     (simp add: HandleProcessDeInit_def deinit_state_def deinit_entries_def Let_def cong: if_cong)

lemma deinit_state_inv:
  assumes "svc_inv S"
  shows "svc_inv (deinit_state env p d S)"
proof -
  note inv = svc_invD [OF assms]
  let ?st = "snd (extractTaskIdsWithBound p d (sv_taskInfoStore S))"
  define S1 where "S1 = S\<lparr>sv_pendingTaskFree := fold (\<lambda>t. m_put (p, t) d) (GetRunningTaskIds p (sv_scheduler S)) (sv_pendingTaskFree S),
      sv_taskInfoStore := ?st, sv_scheduler := sv_scheduler (deinit_state env p d S)\<rparr>"
  have st: "deinit_state env p d S = fold (release_entry env p d (GetRunningTaskIds p (sv_scheduler S))) (deinit_entries p d S) S1"
    by (simp add: S1_def deinit_state_def Let_def)
  have "covered (S\<lparr>sv_taskInfoStore := ?st\<rparr>) d (deinit_entries p d S)"
    using store.users_ext [OF inv(6), of _ _ p d] by (intro covered_store [OF inv(4)]) (auto simp: deinit_entries_def)
  then have "covered S1 d (deinit_entries p d S)"
    by (subst covered_cong [of _ "S\<lparr>sv_taskInfoStore := ?st\<rparr>"]) (simp_all add: S1_def)
  moreover have "mems_ok S1" using inv(1) by (simp add: mems_ok_def S1_def)
  moreover have "sched_ok (length (sv_devices S)) (sv_scheduler S1)"
    using stopped_ok [OF inv(5), of "0 \<le> d" p "nat d" "deinit_entries p d S"]
    by (cases "0 \<le> d") (simp_all add: S1_def deinit_state_def Let_def)
  moreover have "store_in_range S1"
    using store.ext_ok [OF inv(6), of p d] store.ext_tasks [OF inv(6), of p d] inv(2)
    by (auto simp: store_in_range_def S1_def split: if_splits)
  moreover have "handles_in_range S1" using inv(3) by (simp add: handles_in_range_def S1_def)
  moreover have "length (sv_devices S1) = length (sv_devices S)" by (simp add: S1_def)
  moreover have "covered T (-1) []" if "covered T d []" for T using that covered_Nil [of T d] by simp
  ultimately show ?thesis
    using release_entries_covered release_entries_mems_ok [of S1]
    unfolding st svc_inv_def by (simp add: store_in_range_def handles_in_range_def)
qed

text \<open>Releasing shared memory leaves the other parts of the service alone.\<close>

definition same_core :: "DxrtServiceV2 \<Rightarrow> DxrtServiceV2 \<Rightarrow> bool" where
  "same_core S S' \<longleftrightarrow> sv_scheduler S' = sv_scheduler S \<and> sv_taskInfoStore S' = sv_taskInfoStore S
     \<and> sv_pendingTaskFree S' = sv_pendingTaskFree S \<and> sv_memoryServices S' = sv_memoryServices S \<and> sv_devices S' = sv_devices S"

lemma same_core_refl [simp]: "same_core S S"
  by (simp add: same_core_def)

lemma same_core_memory: "same_core S S' \<Longrightarrow> GetMemoryService d S' = GetMemoryService d S"
  by (simp add: same_core_def GetMemoryService_def)

lemma fold_release_handles:
  "svc_inv S \<Longrightarrow> svc_inv (fold (\<lambda>(a, h). ReleaseSharedMemoryHandle (handle_info base h)) hs S)
     \<and> same_core S (fold (\<lambda>(a, h). ReleaseSharedMemoryHandle (handle_info base h)) hs S)"
proof (induction hs arbitrary: S)
  case (Cons x hs)
  have "same_core S (ReleaseSharedMemoryHandle i S)" for i by (simp add: ReleaseSharedMemoryHandle_def same_core_def)
  then show ?case using Cons.IH [of "ReleaseSharedMemoryHandle (handle_info base (snd x)) S"] Cons.prems
    by (cases x) (auto simp: same_core_def)
qed simp

lemma ReleaseAll_total:
  assumes "svc_inv S"
  shows "\<exists>S'. ReleaseAllSharedMemoryHandlesForProcess d p S = Handled () S' \<and> svc_inv S' \<and> same_core S S'"
proof (cases "map_of (sv_sharedMemoryHandles S) d = None \<or> map_of (the (map_of (sv_sharedMemoryHandles S) d)) p = None")
  case True
  then show ?thesis using assms by (auto simp: ReleaseAllSharedMemoryHandlesForProcess_def split: option.split)
next
  case False
  then obtain procs addrMap where m: "map_of (sv_sharedMemoryHandles S) d = Some procs" "map_of procs p = Some addrMap" by auto
  then have r: "in_range S d" using svc_invD(3) [OF assms] by (simp add: handles_in_range_def)
  let ?S = "S\<lparr>sv_sharedMemoryHandles := put_handles d p [] (sv_sharedMemoryHandles S)\<rparr>"
  have "svc_inv ?S" by (rule svc_inv_handles [OF assms put_handles_dom r])
  note f = fold_release_handles [OF this, of "sd_mem_addr (sv_devices S ! nat d)" addrMap]
  moreover have "same_core S ?S" by (simp add: same_core_def)
  ultimately show ?thesis using m r
    by (simp add: ReleaseAllSharedMemoryHandlesForProcess_def device_at_def same_core_def)
qed

lemma HandleProcessDeInit_cases:
  assumes "svc_inv S"
  shows "\<exists>S'. HandleProcessDeInit env p d S = Handled 0 S' \<and> svc_inv S' \<and> same_core (deinit_state env p d S) S'"
  using ReleaseAll_total [OF deinit_state_inv [OF assms], of d p env p d]
  by (auto simp: HandleProcessDeInit_eq same_core_def)

lemma deinit_devices_total: "svc_inv S \<Longrightarrow> total (deinit_devices env p is S)"
proof (induction "is" arbitrary: S)
  case (Cons i "is")
  then show ?case using HandleProcessDeInit_cases [OF Cons.prems, of env p i] by auto
qed simp

lemma onClientDisconnected_total: "svc_inv S \<Longrightarrow> total (onClientDisconnected env p S)"
  unfolding onClientDisconnected_def by (rule total_and_then [OF deinit_devices_total]) auto

text \<open>The effect of the clean-up on each part, by its selectors.\<close>

lemma deinit_state_sel:
  "sv_taskInfoStore (deinit_state env p d S) = snd (extractTaskIdsWithBound p d (sv_taskInfoStore S))"
  "sv_pendingTaskFree (deinit_state env p d S)
     = fold (\<lambda>t. m_put (p, t) d) (GetRunningTaskIds p (sv_scheduler S)) (sv_pendingTaskFree S)"
  "GetMemoryService e (deinit_state env p d S)
     = (if e = d then map_option (release_memory p (GetRunningTaskIds p (sv_scheduler S)) (map fst (deinit_entries p d S))) (GetMemoryService d S)
        else GetMemoryService e S)"
  by (simp_all add: deinit_state_def Let_def release_entries_memory) (simp_all add: GetMemoryService_def)

lemma fold_stop_map:
  "list_at (sc_map s) p = cancel (\<lambda>_. True) es \<Longrightarrow>
   list_at (sc_map (fold (\<lambda>e. StopTaskInference p d (fst e)) xs s)) q
     = (if q = p then cancel (\<lambda>_. True) es else list_at (sc_map s) q)"
  by (induction xs arbitrary: s) (auto simp: StopTask_map cancel_idem)

lemma ClearRunning_map:
  "list_at (sc_map s) p = cancel (\<lambda>_. True) es \<Longrightarrow> list_at (sc_map (ClearRunningRequests p d s)) q = list_at (sc_map s) q"
proof -
  assume a: "list_at (sc_map s) p = cancel (\<lambda>_. True) es"
  have "map (\<lambda>(k, e). (k, if is_running_on d e then e\<lparr>re_state := CANCELLED\<rparr> else e)) (cancel (\<lambda>_. True) es) = cancel (\<lambda>_. True) es"
    using cancel_all_cancelled [of _ es] by (intro map_idI) (force simp: is_running_on_def)
  with a show ?thesis by (auto simp: ClearRunningRequests_def list_at_def split: option.splits)
qed

lemma deinit_state_map:
  "list_at (sc_map (sv_scheduler (deinit_state env p d S))) q
     = (if q = p then cancel (\<lambda>_. True) (list_at (sc_map (sv_scheduler S)) p) else list_at (sc_map (sv_scheduler S)) q)"
proof -
  let ?s = "fold (\<lambda>e. StopTaskInference p (nat d) (fst e)) (deinit_entries p d S) (StopAllInferenceForProcess p (nat d) (sv_scheduler S))"
  have s: "list_at (sc_map ?s) r = (if r = p then cancel (\<lambda>_. True) (list_at (sc_map (sv_scheduler S)) p) else list_at (sc_map (sv_scheduler S)) r)" for r
    by (subst fold_stop_map [of _ _ "list_at (sc_map (sv_scheduler S)) p"]) (simp_all add: StopAll_map)
  have "list_at (sc_map (ClearRunningRequests p (nat d) ?s)) q = list_at (sc_map ?s) q"
    by (rule ClearRunning_map [of _ _ "list_at (sc_map (sv_scheduler S)) p"]) (simp add: s)
  with s [of q] show ?thesis by (cases "0 \<le> d") (simp_all add: deinit_state_def Let_def)
qed

lemma deinit_entries_tasks:
  "svc_inv S \<Longrightarrow> set (map fst (deinit_entries p d S)) = {t. hasTask p d t (sv_taskInfoStore S)}"
proof -
  assume "svc_inv S"
  note ok = svc_invD(6) [OF this]
  have "t \<in> fst ` set (deinit_entries p d S) \<longleftrightarrow> hasTask p d t (sv_taskInfoStore S)" for t
    using store.ext_result [OF ok, of t _ p d] by (force simp: deinit_entries_def hasTask_iff task_bounds_def image_iff)
  then show ?thesis by auto
qed

lemma fold_put_pending:
  "map_of (fold (\<lambda>t. m_put (p, t) d) ts m) (q, t) = (if q = p \<and> t \<in> set ts then Some d else map_of m (q, t))"
  by (induction ts arbitrary: m) auto

subsection \<open>Reachable states\<close>

text \<open>
  One request of a client, one completion of a device, or one recovery step. A model allocation
  of size zero and a bound that is no enumerator are excluded: what they do is the subject of
  separate theorems.
\<close>

inductive svc_step :: "DxrtServiceV2 \<Rightarrow> DxrtServiceV2 \<Rightarrow> bool" where
  connect: "svc_step S (onClientConnected p S)"
| allocate: "forModel \<longrightarrow> sz \<noteq> 0 \<Longrightarrow> HandleAllocate env p d t sz forModel S = Handled r S' \<Longrightarrow> svc_step S S'"
| deallocate: "HandleDeallocate p d a S = Handled r S' \<Longrightarrow> svc_step S S'"
| task_init: "bound_of b \<noteq> None \<Longrightarrow> HandleTaskInit env p d t b sz config S = Handled r S' \<Longrightarrow> svc_step S S'"
| task_deinit: "HandleTaskDeInit env p d t S = Handled r S' \<Longrightarrow> svc_step S S'"
| inference: "HandleInferenceRequest env p d packet S = Handled r S' \<Longrightarrow> svc_step S S'"
| response: "d < length (sv_devices S) \<Longrightarrow> onDeviceResponse env d resp S = Handled () S' \<Longrightarrow> svc_step S S'"
| process_deinit: "HandleProcessDeInit env p d S = Handled r S' \<Longrightarrow> svc_step S S'"
| disconnect: "onClientDisconnected env p S = Handled () S' \<Longrightarrow> svc_step S S'"
| dma: "HandleDMA write p d blk off sz S = Handled r S' \<Longrightarrow> svc_step S S'"
| dma_done: "svc_step S (DecrementPendingDMA S)"
| pause: "svc_step S (PauseForRecovery S)"
| resume: "svc_step S (ResumeAfterRecovery S)"

inductive svc_reachable :: "DxrtServiceV2 \<Rightarrow> bool" where
  start: "P \<in> {fifo_new (length infos), rr_new (length infos), sjf_new (length infos)}
    \<Longrightarrow> \<forall>i < length infos. unat (fst (snd (infos ! i))) + 4095 < 2 ^ 64
    \<Longrightarrow> DxrtServiceV2_new P infos ppuDataSize self = Handled () S \<Longrightarrow> svc_reachable S"
| step: "svc_reachable S \<Longrightarrow> svc_step S S' \<Longrightarrow> svc_reachable S'"

lemma HandleDMA_inv: "svc_inv S \<Longrightarrow> HandleDMA write p d blk off sz S = Handled r S' \<Longrightarrow> svc_inv S'"
  by (auto simp: HandleDMA_def IncrementPendingDMA_def split: if_splits option.splits)

lemma HandleTaskInit_total:
  "svc_inv S \<Longrightarrow> bound_of b \<noteq> None \<Longrightarrow> total (HandleTaskInit env p d t b sz config S)"
  unfolding HandleTaskInit_def by (rule total_and_then [OF TaskInit_total]) auto

lemma svc_step_inv: "svc_step S S' \<Longrightarrow> svc_inv S \<Longrightarrow> svc_inv S'"
proof (induction rule: svc_step.induct)
  case (allocate forModel sz env p d t S r S')
  then show ?case using HandleAllocate_total [of S forModel sz env p d t] by (simp add: total_def)
next
  case (deallocate p d a S r S')
  then show ?case using HandleDeallocate_total [of S p d a] by (simp add: total_def)
next
  case (task_init b env p d t sz config S r S')
  then show ?case using HandleTaskInit_total [of S b env p d t sz config] by (simp add: total_def)
next
  case (task_deinit env p d t S r S')
  then show ?case using TaskDeInit_inv by (auto simp: HandleTaskDeInit_def)
next
  case (inference env p d packet S r S')
  then show ?case using HandleInferenceRequest_safe [of S env p d packet] by (simp add: safe_def)
next
  case (response d S env resp S')
  then show ?case using onDeviceResponse_safe [of S d env resp] by (simp add: safe_def)
next
  case (process_deinit env p d S r S')
  then show ?case using HandleProcessDeInit_cases [of S env p d] by auto
next
  case (disconnect env p S S')
  then show ?case using onClientDisconnected_total [of S env p] by (simp add: total_def)
next
  case (resume S)
  have "sched_ok n (ClearAllLoad s)" if "sched_ok n s" for n s
    using exec_op_ok [of OpClearAllLoad s "ClearAllLoad s" n] that by simp
  with resume show ?case
    using svc_inv_scheduler [of S "ClearAllLoad (sv_scheduler S)"] svc_invD(5) [of S]
    by (simp add: ResumeAfterRecovery_def)
qed (auto simp: HandleDMA_inv DecrementPendingDMA_def PauseForRecovery_def)

lemma ms_inv_deviceId [simp]: "ms_inv (s\<lparr>ms_deviceId := i\<rparr>) = ms_inv s"
proof -
  have a: "slot_addrs (s\<lparr>ms_deviceId := i\<rparr>) sl = slot_addrs s sl" for sl by (cases sl) (simp_all add: slot_unfold)
  then have o: "owned (s\<lparr>ms_deviceId := i\<rparr>) = owned s" by (simp add: owned_def)
  show ?thesis by (simp add: ms_inv_def slots_ok_def o a)
qed

lemma create_instances_inv:
  "create_instances ds acc = Inr insts \<Longrightarrow> \<forall>x \<in> set acc. ms_inv x \<Longrightarrow> \<forall>x \<in> set ds. unat (snd (snd x)) + 4095 < 2 ^ 64
   \<Longrightarrow> (\<forall>x \<in> set insts. ms_inv x) \<and> length insts = length acc + length ds"
proof (induction ds acc rule: create_instances.induct)
  case (2 did maddr msize ds insts')
  have m: "\<not> msize < 1024 * 1024" using "2.prems"(1) by (auto split: if_splits)
  then have "msize \<noteq> 0" by auto
  then have "ms_inv (MemoryService_new maddr msize)" using "2.prems"(3) MemoryService_new_inv by auto
  with "2.IH" [OF m] "2.prems" m show ?case by simp
qed auto

lemma covered_initial: "covered S (-1) []" if "sv_taskInfoStore S = []" "\<And>i. i < length (sv_devices S) \<Longrightarrow> bounds_at S i = BoundManager_new"
proof -
  have "bm_inv BoundManager_new" by (simp add: bm_inv_def BoundManager_new_def GetBoundTypeCount_def)
  moreover have "users (task_bounds []) d b = 0" for d b by (simp add: users_def task_bounds_def task_at_def)
  ultimately show ?thesis using that by (auto simp: covered_def BoundManager_new_def)
qed

lemma DxrtServiceV2_new_inv:
  assumes "P \<in> {fifo_new (length infos), rr_new (length infos), sjf_new (length infos)}"
    and "\<forall>i < length infos. unat (fst (snd (infos ! i))) + 4095 < 2 ^ 64"
    and "DxrtServiceV2_new P infos ppuDataSize self = Handled () S"
  shows "svc_inv S"
proof -
  let ?ds = "map (\<lambda>i. (int i, fst (infos ! i), fst (snd (infos ! i)))) [0..<length infos]"
  obtain insts where i: "create_instances ?ds [] = Inr insts" using assms(3) by (auto simp: DxrtServiceV2_new_def split: sum.splits)
  from create_instances_inv [OF i] assms(2) have ms: "\<forall>x \<in> set insts. ms_inv x" "length insts = length infos" by auto
  have S: "sv_devices S = map (\<lambda>(a, m, blocked). \<lparr>sd_mem_addr = a, sd_isBlocked = blocked, sd_bounds = BoundManager_new\<rparr>) infos"
    "sv_scheduler S = scheduler_new P (length infos) True" "sv_taskInfoStore S = []" "sv_sharedMemoryHandles S = []"
    "sv_memoryServices S = map (\<lambda>i. (int i, snd (MemoryService_Allocate ppuDataSize self (insts ! i)))) [0..<length insts]"
    using assms(3) i by (auto simp: DxrtServiceV2_new_def)
  have "ms_inv mem \<and> in_range S d" if "map_of (sv_memoryServices S) d = Some mem" for d mem
  proof -
    from map_of_SomeD [OF that] obtain i where i: "i < length insts" "d = int i" "mem = snd (MemoryService_Allocate ppuDataSize self (insts ! i))"
      by (auto simp: S(5))
    then have "ms_inv (insts ! i)" using ms(1) by simp
    from alloc_outcome_inv [OF service_alloc_outcome(1) [OF this]] i ms(2) show ?thesis by (simp add: S(1))
  qed
  moreover have "sched_ok (length (sv_devices S)) (sv_scheduler S)" using scheduler_new_ok [OF assms(1)] by (simp add: S)
  moreover have "covered S (-1) []" by (rule covered_initial) (auto simp: S split: prod.splits)
  ultimately show ?thesis
    by (auto simp: svc_inv_def mems_ok_def store_in_range_def handles_in_range_def S store_ok_def task_bounds_def task_at_def)
qed

lemma svc_reachable_inv: "svc_reachable S \<Longrightarrow> svc_inv S"
proof (induction rule: svc_reachable.induct)
  case (start P infos ppuDataSize self S)
  then show ?case by (rule DxrtServiceV2_new_inv)
next
  case (step S S')
  then show ?case using svc_step_inv by blast
qed

subsection \<open>Drained tasks\<close>

lemma fold_listen_skip:
  "list_all (\<lambda>ev. \<forall>p t. ev \<noteq> TaskDrained p t) evs \<Longrightarrow> fold listen evs S = S"
proof (induction evs arbitrary: S)
  case (Cons ev evs)
  then show ?case by (cases ev) auto
qed simp

lemma not_drained_submits: "list_all (is_submit d) evs \<Longrightarrow> list_all (\<lambda>ev. \<forall>p t. ev \<noteq> TaskDrained p t) evs"
  by (auto simp: list_all_iff)

lemma onDeviceResponse_drains:
  assumes "svc_inv S" "sc_listener (sv_scheduler S)" "onDeviceResponse env d resp S = Handled () S'"
    and "map_of (list_at (sc_map (sv_scheduler S)) (sint (rs_proc_id resp))) (sint (rs_req_id resp)) = Some entry"
    and "task_drained (sint (rs_proc_id resp)) (sint (rq_task_id (re_data entry)))
      (erase_entry (sint (rs_proc_id resp)) (sint (rs_req_id resp)) (sv_scheduler S))"
  shows "\<exists>s. S' = onTaskDrained (sint (rs_proc_id resp)) (sint (rq_task_id (re_data entry))) (S\<lparr>sv_scheduler := s\<rparr>)"
proof -
  let ?s = "sv_scheduler S" and ?p = "sint (rs_proc_id resp)" and ?t = "sint (rq_task_id (re_data entry))"
  obtain s where s: "FinishJobs (sched_env_of env S) d resp ?s = Running s"
    "S' = fold listen (drop (length (sc_log ?s)) (sc_log s)) (S\<lparr>sv_scheduler := s\<rparr>)"
    using assms(3) by (auto simp: onDeviceResponse_def split: outcome.splits)
  from FinishJobs_log [OF s(1) svc_invD(5) [OF assms(1)] assms(2,4)] assms(5)
  obtain sub new where log: "list_all (is_submit d) sub" "sc_log s = sc_log ?s @ [Response d] @ sub
        @ map (\<lambda>(r, e). InferenceComplete r e) (sc_pendingErrorCallbacks ?s @ new)
        @ [TaskDrained ?p ?t] @ (if re_state entry = CANCELLED then [] else [InferenceComplete resp d])" by auto
  have quiet: "fold listen (map (\<lambda>(r, e). InferenceComplete r e) xs) T = T" for xs T
    by (rule fold_listen_skip) (auto simp: list_all_iff)
  have "fold listen (drop (length (sc_log ?s)) (sc_log s)) T = onTaskDrained ?p ?t T" for T
    unfolding log(2) by (simp add: fold_listen_skip [OF not_drained_submits [OF log(1)]] quiet del: map_append)
  with s(2) show ?thesis by blast
qed

lemma onTaskDrained_memory:
  assumes "map_of (sv_pendingTaskFree S) (p, t) = Some e"
  shows "GetMemoryService d (onTaskDrained p t S)
      = (if d = e then map_option (\<lambda>mem. snd (DeallocateTask p t mem)) (GetMemoryService e S) else GetMemoryService d S)"
    "map_of (sv_pendingTaskFree (onTaskDrained p t S)) (p, t) = None"
  using assms by (auto simp: onTaskDrained_def Let_def GetMemoryService_def split: option.splits)

subsection \<open>Blocks that a client allocates and frees\<close>

lemma track_lookup:
  "TryGetSharedMemoryHandle d p (si_phys_addr_offset info) (TrackSharedMemoryHandle d p info S)
     = Some \<lparr>sh_fd = si_fd info, sh_ptr = si_ptr info, sh_size = si_size info, sh_physAddrOffset = si_phys_addr_offset info\<rparr>"
  by (simp add: TryGetSharedMemoryHandle_def TrackSharedMemoryHandle_def Let_def)

lemma track_memory [simp]: "GetMemoryService e (TrackSharedMemoryHandle d p info S) = GetMemoryService e S"
  "device_at (TrackSharedMemoryHandle d p info S) e = device_at S e"
  "sv_memfdService (TrackSharedMemoryHandle d p info S) = sv_memfdService S"
  by (simp_all add: TrackSharedMemoryHandle_def Let_def GetMemoryService_def device_at_def)

text \<open>A successful \<open>HandleAllocate\<close> in terms of its three steps.\<close>

lemma HandleAllocate_success:
  assumes "HandleAllocate env p d t sz forModel S = Handled info S'" "si_fd info \<noteq> -1"
  obtains mem mem1 shm mf dev where "GetMemoryService d S = Some mem" "device_at S d = Some dev"
    "allocate_block p t sz forModel mem = (si_phys_addr_offset info, mem1)" "si_phys_addr_offset info \<noteq> -1"
    "CreateSharedMemory (ev_memfd env) sz t d (sv_memfdService S) = (Inr shm, mf)"
    "info = shm\<lparr>si_phys_addr_base := sd_mem_addr dev, si_phys_addr_offset := si_phys_addr_offset info, si_pid := p\<rparr>"
    "S' = onClientConnected p (TrackSharedMemoryHandle d p info ((put_memory d mem1 S)\<lparr>sv_memfdService := mf\<rparr>))"
proof -
  obtain mem where mem: "GetMemoryService d S = Some mem"
    using assms by (cases "GetMemoryService d S") (auto simp: HandleAllocate_def allocation_failed_def)
  obtain a mem1 where a: "allocate_block p t sz forModel mem = (a, mem1)" by fastforce
  have "a \<noteq> -1" using assms mem a by (auto simp: HandleAllocate_def allocation_failed_def Let_def)
  obtain c mf where c: "CreateSharedMemory (ev_memfd env) sz t d (sv_memfdService S) = (c, mf)" by fastforce
  have sv: "sv_memfdService (put_memory d mem1 S) = sv_memfdService S" by (simp add: put_memory_def)
  obtain shm where shm: "c = Inr shm"
    using assms mem a \<open>a \<noteq> -1\<close> c by (cases c) (auto simp: HandleAllocate_def allocation_failed_def Let_def sv)
  have dv: "device_at (put_memory d mem1 S) d = device_at S d" by (simp add: device_at_def)
  obtain dev where dev: "device_at S d = Some dev"
    using assms(1) mem a \<open>a \<noteq> -1\<close> c shm dv by (cases "device_at S d") (auto simp: HandleAllocate_def Let_def sv)
  have i: "info = shm\<lparr>si_phys_addr_base := sd_mem_addr dev, si_phys_addr_offset := a, si_pid := p\<rparr>"
    "S' = onClientConnected p (TrackSharedMemoryHandle d p info ((put_memory d mem1 S)\<lparr>sv_memfdService := mf\<rparr>))"
    using assms mem a \<open>a \<noteq> -1\<close> c shm dv dev by (auto simp: HandleAllocate_def Let_def sv split: if_splits)
  have "si_phys_addr_offset info = a" by (simp add: i(1))
  with that [OF mem dev] a \<open>a \<noteq> -1\<close> c shm i show ?thesis by simp
qed

lemma allocated_state:
  assumes "device_at S d = Some dev"
  defines "S1 p info mem1 mf \<equiv> onClientConnected p (TrackSharedMemoryHandle d p info ((put_memory d mem1 S)\<lparr>sv_memfdService := mf\<rparr>))"
  shows "GetMemoryService d (S1 p info mem1 mf) = Some mem1" "device_at (S1 p info mem1 mf) d = Some dev"
    "sv_memfdService (S1 p info mem1 mf) = mf"
    "TryGetSharedMemoryHandle d p (si_phys_addr_offset info) (S1 p info mem1 mf)
      = Some \<lparr>sh_fd = si_fd info, sh_ptr = si_ptr info, sh_size = si_size info, sh_physAddrOffset = si_phys_addr_offset info\<rparr>"
proof -
  show "GetMemoryService d (S1 p info mem1 mf) = Some mem1" "sv_memfdService (S1 p info mem1 mf) = mf"
    by (simp_all add: S1_def onClientConnected_def GetMemoryService_def TrackSharedMemoryHandle_def Let_def put_memory_def)
  show "device_at (S1 p info mem1 mf) d = Some dev"
    using assms(1) by (simp add: S1_def onClientConnected_def TrackSharedMemoryHandle_def Let_def put_memory_def device_at_Some)
  show "TryGetSharedMemoryHandle d p (si_phys_addr_offset info) (S1 p info mem1 mf)
      = Some \<lparr>sh_fd = si_fd info, sh_ptr = si_ptr info, sh_size = si_size info, sh_physAddrOffset = si_phys_addr_offset info\<rparr>"
    using track_lookup [of d p info] by (simp add: S1_def onClientConnected_def TryGetSharedMemoryHandle_def)
qed

text \<open>The descriptor of a created block is open and registered.\<close>

lemma CreateSharedMemory_success:
  assumes "CreateSharedMemory sys sz t d m = (Inr shm, mf)"
  shows "si_fd shm \<noteq> -1" "map_of (mf_memories mf) (si_fd shm) = Some shm" "mf_open mf = si_fd shm # mf_open m"
    "sz \<noteq> 0" "si_size shm = sz"
  using assms by (auto simp: CreateSharedMemory_def Let_def split: if_splits)

lemma HandleDeallocate_tracked:
  assumes "GetMemoryService d S = Some mem" "device_at S d = Some dev"
    and "TryGetSharedMemoryHandle d p address S = Some h" "0 \<le> sh_fd h"
  shows "\<exists>S'. HandleDeallocate p d address S = Handled (if fst (DeallocateAddress (sh_physAddrOffset h) p mem) then 0 else -1) S'
    \<and> GetMemoryService d S' = Some (snd (DeallocateAddress (sh_physAddrOffset h) p mem))
    \<and> sv_memfdService S' = snd (ReleaseSharedMemory (sh_fd h) (sv_memfdService S))"
  using assms
  by (auto simp: HandleDeallocate_def TryResolveSharedMemoryHandle_def Let_def handle_info_def ReleaseSharedMemoryHandle_def
      GetMemoryService_def put_memory_def split: prod.split)

subsection \<open>What a disconnect leaves alone\<close>

lemma deinit_hasTask:
  assumes "svc_inv S" "same_core (deinit_state env p d S) S'" "hasTask q e t (sv_taskInfoStore S')"
  shows "hasTask q e t (sv_taskInfoStore S) \<and> (q, e) \<noteq> (p, d)"
proof -
  have "task_bounds (sv_taskInfoStore S') (q, e, t) = (if q = p \<and> e = d then None else task_bounds (sv_taskInfoStore S) (q, e, t))"
    using store.ext_tasks [OF svc_invD(6) [OF assms(1)], of p d] assms(2) by (simp add: same_core_def deinit_state_sel)
  moreover have "hasTask q e t st \<longleftrightarrow> task_bounds st (q, e, t) \<noteq> None" for st by (auto simp: hasTask_iff task_bounds_def)
  ultimately show ?thesis using assms(3) by (simp split: if_splits)
qed

lemma deinit_memory:
  assumes "svc_inv S" "same_core (deinit_state env p e S) S'" "GetMemoryService d S = Some mem"
  shows "\<exists>mem'. GetMemoryService d S' = Some mem'
    \<and> dropped (if d = e then Task p ` {t. hasTask p d t (sv_taskInfoStore S) \<and> t \<notin> set (GetRunningTaskIds p (sv_scheduler S))} else {}) mem mem'"
proof -
  have inv: "ms_inv mem" using mems_ok_get [OF svc_invD(1) [OF assms(1)] assms(3)] by simp
  note g = same_core_memory [OF assms(2), of d] deinit_state_sel(3) [of d env p e S]
  show ?thesis
  proof (cases "d = e")
    case True
    have "set (map fst (deinit_entries p e S)) - set (GetRunningTaskIds p (sv_scheduler S))
      = {t. hasTask p e t (sv_taskInfoStore S) \<and> t \<notin> set (GetRunningTaskIds p (sv_scheduler S))}"
      using deinit_entries_tasks [OF assms(1), of p e] by auto
    with release_memory_dropped [OF inv, of p "map fst (deinit_entries p e S)" "GetRunningTaskIds p (sv_scheduler S)"]
    show ?thesis using g assms(3) True by simp
  next
    case False
    then show ?thesis using g assms(3) dropped_refl [OF inv, of "{}"] by simp
  qed
qed

lemma deinit_devices_keeps:
  assumes "svc_inv S" "deinit_devices env p is S = Handled () S'" "GetMemoryService d S = Some mem"
    and "\<And>t. sl = Task p t \<Longrightarrow> \<not> hasTask p d t (sv_taskInfoStore S)"
  shows "\<exists>mem'. GetMemoryService d S' = Some mem' \<and> (\<forall>a. (sl, a) \<in> owned mem' \<longleftrightarrow> (sl, a) \<in> owned mem)"
  using assms
proof (induction "is" arbitrary: S mem)
  case (Cons i "is")
  obtain S1 where S1: "HandleProcessDeInit env p i S = Handled 0 S1" "svc_inv S1" "same_core (deinit_state env p i S) S1"
    using HandleProcessDeInit_cases [OF Cons.prems(1)] by blast
  obtain mem1 where m1: "GetMemoryService d S1 = Some mem1"
    "dropped (if d = i then Task p ` {t. hasTask p d t (sv_taskInfoStore S) \<and> t \<notin> set (GetRunningTaskIds p (sv_scheduler S))} else {}) mem mem1"
    using deinit_memory [OF Cons.prems(1) S1(3) Cons.prems(3)] by blast
  have "sl \<notin> (if d = i then Task p ` {t. hasTask p d t (sv_taskInfoStore S) \<and> t \<notin> set (GetRunningTaskIds p (sv_scheduler S))} else {})"
    using Cons.prems(4) by auto
  with m1(2) have same: "(sl, a) \<in> owned mem1 \<longleftrightarrow> (sl, a) \<in> owned mem" for a by (auto simp: dropped_def)
  have "\<not> hasTask p d t (sv_taskInfoStore S1)" if "sl = Task p t" for t
    using deinit_hasTask [OF Cons.prems(1) S1(3)] Cons.prems(4) [OF that] by blast
  from Cons.IH [OF S1(2) _ m1(1) this] Cons.prems(2) S1(1) same show ?case by auto
qed auto

text \<open>The bound of a registered task is registered with the driver.\<close>

lemma task_bound_registered:
  assumes "svc_inv S" "task_at (sv_taskInfoStore S) (p, d, t) = Some info"
  shows "\<exists>dev. device_at S d = Some dev \<and> bm_registered (sd_bounds dev) (ti_bound info)"
proof -
  let ?T = "task_bounds (sv_taskInfoStore S)" and ?b = "ti_bound info"
  have b: "?T (p, d, t) = Some ?b" using assms(2) by (simp add: task_bounds_def)
  then have r: "in_range S d" using svc_invD(2) [OF assms(1)] unfolding store_in_range_def by blast
  have "(p, d, t) \<in> {k. fst (snd k) = d \<and> ?T k = Some ?b}" using b by simp
  then have "0 < users ?T d ?b"
    unfolding users_def using store.finite_users [OF svc_invD(6) [OF assms(1)], of d ?b] card_gt_0_iff by blast
  then have "0 < bm_count (bounds_at S (nat d)) ?b"
    using coveredD(2) [OF svc_invD(4) [OF assms(1)] r, of ?b] by simp
  with coveredD(1) [OF svc_invD(4) [OF assms(1)] r] r show ?thesis by (auto simp: bm_inv_def device_at_def)
qed

subsection \<open>Properties of single handlers\<close>

text \<open>
  A DMA transfer that a handler accepts stays inside the shared block it names, as long as
  offset plus size does not wrap in 64 bits: the host range lies within the block, the device offset is
  that of the block plus the requested one, truncated to 32 bits like the size, and one more transfer is
  counted as pending. The device and the block are those of the caller.
\<close>
theorem dma_stays_in_block:
  assumes "HandleDMA write p d blockId off sz S = Handled 0 S'" "sz \<noteq> 0" "unat off + unat sz < 2 ^ 64"
  shows "\<exists>h dev tr. TryGetSharedMemoryHandle d p (word_of_int blockId) S = Some h \<and> device_at S d = Some dev
    \<and> sh_ptr h \<noteq> 0 \<and> unat off + unat sz \<le> unat (sh_size h)
    \<and> sv_dma S' = sv_dma S @ [tr] \<and> dt_write tr = write \<and> dt_data tr = sh_ptr h + off \<and> dt_base tr = sd_mem_addr dev
    \<and> dt_offset tr = ucast (sh_physAddrOffset h + off) \<and> dt_size tr = ucast sz
    \<and> sv_pendingDmaOperations S' = sv_pendingDmaOperations S + 1"
proof -
  obtain dev where dev: "device_at S d = Some dev" and run: "\<not> sv_recoveryInProgress S"
    using assms(1,2) by (auto simp: HandleDMA_def EINVAL_v_def EAGAIN_def split: option.splits if_splits)
  obtain h where h: "TryGetSharedMemoryHandle d p (word_of_int blockId) S = Some h"
    using assms(1,2) dev run by (auto simp: HandleDMA_def EINVAL_v_def split: option.splits)
  have ok: "sh_ptr h \<noteq> 0" "\<not> sh_size h < off + sz"
    using assms(1,2) dev run h by (auto simp: HandleDMA_def EINVAL_v_def split: if_splits)
  have "unat (off + sz) = unat off + unat sz" using assms(3) by (simp add: unat_add_no_wrap)
  with ok(2) have "unat off + unat sz \<le> unat (sh_size h)" by (simp add: not_less word_le_nat_alt)
  with assms(1,2) dev run h ok show ?thesis by (auto simp: HandleDMA_def IncrementPendingDMA_def)
qed

text \<open>A state with one device and one block of 8 KB at host address 65536, block id 1.\<close>

definition one_block :: DxrtServiceV2 where
  "one_block = TrackSharedMemoryHandle 0 7
     \<lparr>si_block_id = 1, si_size = 8192, si_ptr = 65536, si_phys_addr_base = 0, si_phys_addr_offset = 4096,
      si_deviceid = 0, si_taskId = 5, si_pid = 7, si_fd = 3\<rparr>
     \<lparr>sv_devices = [\<lparr>sd_mem_addr = 0, sd_isBlocked = False, sd_bounds = BoundManager_new\<rparr>],
      sv_scheduler = scheduler_new (fifo_new 1) 1 True, sv_pidSet = [], sv_taskInfoStore = [], sv_pendingTaskFree = [],
      sv_sharedMemoryHandles = [], sv_memoryServices = [(0, MemoryService_new 0 1048576)], sv_memfdService = MemFDService_new,
      sv_pendingDmaOperations = 0, sv_recoveryInProgress = False, sv_dma = []\<rparr>"

fun returns :: "int handled \<Rightarrow> int \<Rightarrow> bool" where
  "returns (Handled r S) q = (r = q)"
| "returns h q = False"

lemma returnsE: "returns h q \<Longrightarrow> \<exists>S'. h = Handled q S'"
  by (cases h) auto

text \<open>
  The bounds check of the DMA handlers adds offset and size in 64 bits, so it wraps: for any
  block of the caller and any size, the offset \<open>2\<^sup>6\<^sup>4 - size\<close> is accepted, and the transfer starts
  \<open>size\<close> bytes before the block, on the host and on the device.
\<close>
theorem dma_bounds_check_wraps:
  assumes "device_at S d = Some dev" "\<not> sv_recoveryInProgress S" "sz \<noteq> 0"
    and "TryGetSharedMemoryHandle d p (word_of_int blockId) S = Some h" "sh_ptr h \<noteq> 0"
  shows "\<exists>S' tr. HandleDMA write p d blockId (- sz) sz S = Handled 0 S' \<and> sv_dma S' = sv_dma S @ [tr]
    \<and> dt_data tr = sh_ptr h - sz \<and> dt_offset tr = ucast (sh_physAddrOffset h - sz)"
  using assms by (simp add: HandleDMA_def IncrementPendingDMA_def)

theorem dma_bounds_check_wraps_witness:
  "\<exists>S' tr. HandleDMA True 7 0 1 (- 4096) 4096 one_block = Handled 0 S' \<and> sv_dma S' = [tr] \<and> dt_data tr = 61440 \<and> dt_offset tr = 0"
proof -
  have f: "TryGetSharedMemoryHandle 0 7 1 one_block = Some \<lparr>sh_fd = 3, sh_ptr = 65536, sh_size = 8192, sh_physAddrOffset = 4096\<rparr>"
    "sv_dma one_block = []" "\<not> sv_recoveryInProgress one_block" "device_at one_block 0 \<noteq> None" by code_simp+
  then obtain dev where "device_at one_block 0 = Some dev" by auto
  from dma_bounds_check_wraps [OF this f(3) _ f(1) [folded word_of_int_1], of 4096 True]
  show ?thesis by (simp add: f(2))
qed

text \<open>
  \<open>TaskInit\<close> does not check the bound it gets from the client: on a device that is not blocked
  and has the memory, a value that is no enumerator indexes the counters of the bound manager out of range.
\<close>
theorem task_init_bad_bound_undefined:
  assumes "device_at S d = Some dev" "\<not> sd_isBlocked dev" "GetMemoryService d S = Some mem"
    and "msize \<le> MemoryService_free_size mem" "b < 0 \<or> 7 \<le> b"
  shows "TaskInit env p d t b msize config S = Invalid_access"
  using assms by (auto simp: TaskInit_def bound_of_def all_bounds_def not_less)

definition no_config :: TaskStaticConfig where
  "no_config = \<lparr>cf_model_type = 0, cf_model_format = 0, cf_model_cmds = 0, cf_op_mode = 0, cf_cmd_offset = 0,
     cf_weight_offset = 0, cf_custom_offset = 0, cf_input_size = 0, cf_output_size = 0, cf_last_output_offset = 0,
     cf_output_all_offset = 0, cf_datas = [], cf_memory_base = 0\<rparr>"

definition idle_env :: service_env where
  "idle_env = \<lparr>ev_num_dma_ch = (\<lambda>_. 4), ev_process = (\<lambda>_ _. 0), ev_bound = (\<lambda>_ _ _. 0),
     ev_memfd = \<lparr>sys_create = (\<lambda>_. 3), sys_map = (\<lambda>_ _. 65536), sys_seal = (\<lambda>_. True), sys_getpid = 1\<rparr>\<rparr>"

theorem task_init_bad_bound_undefined_witness: "TaskInit idle_env 7 0 5 1000 0 no_config one_block = Invalid_access"
proof -
  have "map_option sd_isBlocked (device_at one_block 0) = Some False" "GetMemoryService 0 one_block \<noteq> None" by code_simp+
  then obtain dev mem where "device_at one_block 0 = Some dev" "\<not> sd_isBlocked dev" "GetMemoryService 0 one_block = Some mem" by auto
  then show ?thesis by (intro task_init_bad_bound_undefined) auto
qed

text \<open>
  Offsets and block ids share one key space: a block whose id equals the offset of an earlier
  block of the same process takes over its key, and freeing the earlier block by its offset releases the
  later one.
\<close>
theorem block_id_shadows_offset:
  assumes "device_at S d = Some dev" "GetMemoryService d S = Some mem" "0 < si_block_id info"
    and "word_of_int (si_block_id info) = a" "si_phys_addr_offset info \<noteq> a" "0 \<le> si_fd info"
  shows "\<exists>S'. HandleDeallocate p d a (TrackSharedMemoryHandle d p info S)
      = Handled (if fst (DeallocateAddress (si_phys_addr_offset info) p mem) then 0 else -1) S'
    \<and> GetMemoryService d S' = Some (snd (DeallocateAddress (si_phys_addr_offset info) p mem))"
proof -
  let ?S = "TrackSharedMemoryHandle d p info S"
  let ?h = "\<lparr>sh_fd = si_fd info, sh_ptr = si_ptr info, sh_size = si_size info, sh_physAddrOffset = si_phys_addr_offset info\<rparr>"
  have "TryGetSharedMemoryHandle d p a ?S = Some ?h"
    using assms(3,4) by (simp add: TryGetSharedMemoryHandle_def TrackSharedMemoryHandle_def Let_def)
  from HandleDeallocate_tracked [of d ?S mem dev p a, OF _ _ this] assms show ?thesis by auto
qed

definition second_block :: SharedMemoryInfo where
  "second_block = \<lparr>si_block_id = 4096, si_size = 4096, si_ptr = 131072, si_phys_addr_base = 0, si_phys_addr_offset = 8192,
     si_deviceid = 0, si_taskId = 5, si_pid = 7, si_fd = 4\<rparr>"

theorem block_id_shadows_offset_witness:
  "\<exists>S' mem. HandleDeallocate 7 0 4096 (TrackSharedMemoryHandle 0 7 second_block one_block)
      = Handled (if fst (DeallocateAddress 8192 7 mem) then 0 else -1) S' \<and> GetMemoryService 0 one_block = Some mem"
proof -
  have "device_at one_block 0 \<noteq> None" "GetMemoryService 0 one_block \<noteq> None" by code_simp+
  then obtain dev mem where "device_at one_block 0 = Some dev" "GetMemoryService 0 one_block = Some mem" by auto
  with block_id_shadows_offset [of one_block 0 dev mem second_block 4096 7] show ?thesis by (auto simp: second_block_def)
qed

end
