(* ===== verification/Npu_Format.thy ===== *)
theory Npu_Format
  imports Prelude
begin

section \<open>The NPU format handler\<close>

text \<open>
  \<^verbatim>\<open>src/lib/npu_format_handler.cpp\<close>: the conversion of tensors between the dense layout of the
  user and the padded layouts of the NPU, and the transposition of matrices.

  A heap maps buffer ids to the bytes of the buffer; \<open>Bytes\<close> is a size and a pointer to the start of
  a buffer (None is \<^verbatim>\<open>nullptr\<close>), so two pointers are equal exactly when the ids are (in-place calls).
  \<open>int\<close> values are checked against the 32-bit range where the source could overflow, the sizes are
  32-bit words, and offsets are computed in \<open>size_t\<close>. A read or write outside a buffer and a signed
  overflow are \<open>Undefined\<close>. Failure to allocate a temporary buffer is not modelled. The vendor
  transposes (IPP, XNNPACK) are an argument of \<open>bidirectional_transpose\<close>.
\<close>

type_synonym heap = "nat \<Rightarrow> u8 list"

record Bytes =
  b_size :: u32
  b_data :: "nat option"

datatype fmt_result = Undefined | Returned int Bytes heap

definition in_int :: "int \<Rightarrow> bool" where
  "in_int x \<longleftrightarrow> - (2 ^ 31) \<le> x \<and> x < 2 ^ 31"

subsection \<open>Memory\<close>

definition memcpy_at :: "u8 list \<Rightarrow> nat \<Rightarrow> u8 list \<Rightarrow> nat \<Rightarrow> nat \<Rightarrow> u8 list option" where
  "memcpy_at dst d src s n =
     (if s + n \<le> length src \<and> d + n \<le> length dst
      then Some (take d dst @ take n (drop s src) @ drop (d + n) dst) else None)"

definition memset0 :: "u8 list \<Rightarrow> nat \<Rightarrow> u8 list option" where
  "memset0 dst n = (if n \<le> length dst then Some (replicate n 0 @ drop n dst) else None)"

text \<open>
  A loop of copies: \<open>(d, s, n)\<close> copies \<open>n\<close> bytes from offset \<open>s\<close> of the source to offset \<open>d\<close>. Before
  each copy the internal check of the source runs: go on, leave the function with an error, or
  undefined (an offset computed in \<open>int\<close> overflows).
\<close>

type_synonym copy_op = "nat \<times> nat \<times> nat"

datatype check = Go | Stop | Bad

datatype copy_result = Ub | Exit "u8 list" | Cont "u8 list"

fun copy_loop :: "(copy_op \<Rightarrow> check) \<Rightarrow> u8 list \<Rightarrow> copy_op list \<Rightarrow> u8 list \<Rightarrow> copy_result" where
  "copy_loop chk src [] buf = Cont buf"
| "copy_loop chk src ((d, s, n) # ops) buf =
     (case chk (d, s, n) of
        Bad \<Rightarrow> Ub
      | Stop \<Rightarrow> Exit buf
      | Go \<Rightarrow> (case memcpy_at buf d src s n of None \<Rightarrow> Ub | Some buf' \<Rightarrow> copy_loop chk src ops buf'))"

text \<open>Store the buffer of a finished loop and return 0, or -1 after an early exit.\<close>

definition finish :: "copy_result \<Rightarrow> nat \<Rightarrow> Bytes \<Rightarrow> heap \<Rightarrow> fmt_result" where
  "finish r dst output h =
     (case r of Ub \<Rightarrow> Undefined | Exit buf \<Rightarrow> Returned (-1) output (h(dst := buf))
      | Cont buf \<Rightarrow> Returned 0 output (h(dst := buf)))"

subsection \<open>Encoding\<close>

definition cdiv :: "int \<Rightarrow> int \<Rightarrow> int option" where
  "cdiv a b =
     (if b = 0 then Some 0
      else if \<not> in_int (b - 1) \<or> \<not> in_int (a + (b - 1)) then None
      else Some (if (0 \<le> a + (b - 1)) = (0 < b) then \<bar>a + (b - 1)\<bar> div \<bar>b\<bar> else - (\<bar>a + (b - 1)\<bar> div \<bar>b\<bar>)))"

definition aligned_width :: "int \<Rightarrow> int \<Rightarrow> int option" where
  "aligned_width col unit =
     (case cdiv col unit of None \<Rightarrow> None | Some k \<Rightarrow> if in_int (k * unit) then Some (k * unit) else None)"

definition row_ops :: "nat \<Rightarrow> nat \<Rightarrow> nat \<Rightarrow> nat \<Rightarrow> copy_op list" where
  "row_ops row d_stride s_stride n = map (\<lambda>i. (i * d_stride, i * s_stride, n)) [0..<row]"

definition encode :: "heap \<Rightarrow> Bytes \<Rightarrow> Bytes \<Rightarrow> int \<Rightarrow> int \<Rightarrow> fmt_result" where
  "encode h input output col unit =
     (if col \<le> 0 \<or> unit \<le> 0 then Returned (-1) output h
      else if b_size input mod word_of_int col \<noteq> 0 then Returned (-1) output h
      else case b_data input of
        None \<Rightarrow> Returned (-1) output h
      | Some src \<Rightarrow>
          (case aligned_width col unit of
             None \<Rightarrow> Undefined
           | Some aligned_col \<Rightarrow>
               let row = sint (b_size input div word_of_int col);
                   expected_size = word_of_int row * word_of_int aligned_col :: u32
               in case b_data output of
                    None \<Rightarrow> Returned (-1) output h
                  | Some dst \<Rightarrow>
                      if b_size output < expected_size then Returned (-1) output h
                      else
                        let output' = output\<lparr>b_size := expected_size\<rparr>;
                            ops = row_ops (nat row) (nat aligned_col) (nat col) (nat col)
                        in if src = dst then
                             if col = aligned_col then Returned 0 output' h
                             else if length (h src) < unat (b_size input) then Undefined
                             else
                               (case memset0 (h dst) (unat expected_size) of
                                  None \<Rightarrow> Undefined
                                | Some buf \<Rightarrow>
                                    finish (copy_loop (\<lambda>_. Go) (take (unat (b_size input)) (h src)) ops buf) dst output' h)
                           else
                             (case memset0 (h dst) (unat expected_size) of
                                None \<Rightarrow> Undefined
                              | Some buf \<Rightarrow> finish (copy_loop (\<lambda>_. Go) (h src) ops buf) dst output' h)))"

definition encode_preformatter :: "heap \<Rightarrow> Bytes \<Rightarrow> Bytes \<Rightarrow> int \<Rightarrow> fmt_result" where
  "encode_preformatter h input output align_unit =
     (let col = sint (b_size input)
      in if col = 0 \<and> b_data input = None then Returned 0 (output\<lparr>b_size := 0\<rparr>) h
         else if col \<le> 0 then Returned (-1) output h
         else encode h input output col align_unit)"

definition encode_preim2col :: "heap \<Rightarrow> Bytes \<Rightarrow> Bytes \<Rightarrow> int \<Rightarrow> int \<Rightarrow> int \<Rightarrow> fmt_result" where
  "encode_preim2col h input output width channel align_unit =
     (if width \<le> 0 \<or> channel \<le> 0 then Returned (-1) output h
      else if \<not> in_int (width * channel) then Undefined
      else encode h input output (width * channel) align_unit)"

text \<open>\<open>encode_formatted\<close>: groups of \<open>align_unit\<close> columns, each group stored row by row.\<close>

definition group_ops :: "nat \<Rightarrow> nat \<Rightarrow> nat \<Rightarrow> nat \<Rightarrow> copy_op list" where
  "group_ops col_group row col unit =
     [(g * row * unit + i * unit, i * col + g * unit, min (col - g * unit) unit).
        g \<leftarrow> [0..<col_group], i \<leftarrow> [0..<row], 0 < min (col - g * unit) unit]"

definition encode_formatted :: "heap \<Rightarrow> Bytes \<Rightarrow> Bytes \<Rightarrow> int \<Rightarrow> int \<Rightarrow> fmt_result" where
  "encode_formatted h input output channel align_unit =
     (let col = channel in
      if col \<le> 0 \<or> align_unit \<le> 0 then Returned (-1) output h
      else case b_data input of
        None \<Rightarrow> Returned (-1) output h
      | Some src \<Rightarrow>
          if b_size input = 0 then Returned 0 (output\<lparr>b_size := 0\<rparr>) h
          else if b_size input mod word_of_int col \<noteq> 0 then Returned (-1) output h
          else
            (case (cdiv col align_unit, aligned_width col align_unit) of
               (Some col_group, Some aligned_col) \<Rightarrow>
                 let row = sint (b_size input div word_of_int col);
                     expected_size = word_of_int row * word_of_int aligned_col :: u32
                 in (case b_data output of
                       None \<Rightarrow> Returned (-1) output h
                     | Some dst \<Rightarrow>
                         let output' = output\<lparr>b_size := expected_size\<rparr>;
                             ops = group_ops (nat col_group) (nat row) (nat col) (nat align_unit);
                             chk = (\<lambda>(d, s, n). if unat (b_size input) < s + n \<or> unat expected_size < d + n
                                                 then Stop else Go)
                         in (case memset0 (h dst) (unat expected_size) of
                               None \<Rightarrow> Undefined
                             | Some buf \<Rightarrow>
                                 let h' = h(dst := buf)
                                 in if src = dst then
                                      if length (h' src) < unat (b_size input) then Undefined
                                      else finish (copy_loop chk (take (unat (b_size input)) (h' src)) ops buf) dst output' h'
                                    else finish (copy_loop chk (h' src) ops buf) dst output' h'))
             | _ \<Rightarrow> Undefined))"

subsection \<open>Decoding\<close>

definition decode :: "heap \<Rightarrow> Bytes \<Rightarrow> Bytes \<Rightarrow> int \<Rightarrow> int \<Rightarrow> fmt_result" where
  "decode h input output col unit =
     (if col \<le> 0 \<or> unit \<le> 0 then Returned (-1) output h
      else case aligned_width col unit of
        None \<Rightarrow> Undefined
      | Some aligned_col \<Rightarrow>
          if aligned_col = 0 then Returned (-1) output h
          else case b_data input of
            None \<Rightarrow> Returned (-1) output h
          | Some src \<Rightarrow>
              if b_size input = 0 then Returned 0 (output\<lparr>b_size := 0\<rparr>) h
              else if b_size input mod word_of_int aligned_col \<noteq> 0 then Returned (-1) output h
              else
                let row = sint (b_size input div word_of_int aligned_col);
                    expected_size = word_of_int row * word_of_int col :: u32
                in case b_data output of
                     None \<Rightarrow> Returned (-1) output h
                   | Some dst \<Rightarrow>
                       if b_size output < expected_size then Returned (-1) output h
                       else
                         let output' = output\<lparr>b_size := expected_size\<rparr>;
                             ops = row_ops (nat row) (nat col) (nat aligned_col) (nat col);
                             outside = (\<lambda>(d, s, n). unat expected_size < d + n \<or> unat (b_size input) < s + n)
                         in if src = dst then
                              if col = aligned_col then Returned 0 output' h
                              else if length (h src) < unat (b_size input) then Undefined
                              else finish (copy_loop
                                     (\<lambda>(d, s, n). if outside (d, s, n) then Stop
                                                  else if \<not> in_int (int d) \<or> \<not> in_int (int s) then Bad else Go)
                                     (take (unat (b_size input)) (h src)) ops (h dst)) dst output' h
                            else finish (copy_loop (\<lambda>op. if outside op then Stop else Go) (h src) ops (h dst)) dst output' h)"

definition decode_aligned :: "heap \<Rightarrow> Bytes \<Rightarrow> Bytes \<Rightarrow> int \<Rightarrow> bool \<Rightarrow> int \<Rightarrow> fmt_result" where
  "decode_aligned h input output channel is_float32 align_unit =
     (if is_float32 then
        if \<not> in_int (align_unit * 4) \<or> \<not> in_int (channel * 4) then Undefined
        else decode h input output (channel * 4) (align_unit * 4)
      else decode h input output channel align_unit)"

subsection \<open>Transposition\<close>

text \<open>Element \<open>(i, j)\<close> of a \<open>row\<close> by \<open>col\<close> matrix goes to position \<open>(j, i)\<close>.\<close>

definition transpose_ops :: "nat \<Rightarrow> nat \<Rightarrow> nat \<Rightarrow> copy_op list" where
  "transpose_ops row col es =
     [((j * row + i) * es, (i * col + j) * es, es). i \<leftarrow> [0..<row], j \<leftarrow> [0..<col]]"

text \<open>The swaps of the square case: the pairs above the diagonal, row by row.\<close>

definition swap_at :: "nat \<Rightarrow> nat \<Rightarrow> nat \<Rightarrow> u8 list \<Rightarrow> u8 list option" where
  "swap_at o1 o2 es buf =
     (if o1 + es \<le> length buf then
        let temp = take es (drop o1 buf)
        in (case memcpy_at buf o1 buf o2 es of None \<Rightarrow> None | Some buf' \<Rightarrow> memcpy_at buf' o2 temp 0 es)
      else None)"

fun swap_loop :: "nat \<Rightarrow> nat \<Rightarrow> (nat \<times> nat) list \<Rightarrow> u8 list \<Rightarrow> u8 list option" where
  "swap_loop col es [] buf = Some buf"
| "swap_loop col es ((i, j) # ps) buf =
     (case swap_at ((i * col + j) * es) ((j * col + i) * es) es buf of
        None \<Rightarrow> None | Some buf' \<Rightarrow> swap_loop col es ps buf')"

definition upper_pairs :: "nat \<Rightarrow> (nat \<times> nat) list" where
  "upper_pairs n = [(i, j). i \<leftarrow> [0..<n], j \<leftarrow> [i + 1..<n]]"

definition bidirectional_transpose_inplace :: "heap \<Rightarrow> nat option \<Rightarrow> int \<Rightarrow> int \<Rightarrow> nat \<Rightarrow> heap option" where
  "bidirectional_transpose_inplace h src row col element_size =
     (case src of
        None \<Rightarrow> Some h
      | Some b \<Rightarrow>
          if row \<le> 0 \<or> col \<le> 0 \<or> element_size = 0 then Some h
          else
            let total_elements = nat row * nat col;
                total_size_bytes = (total_elements * element_size) mod 2 ^ 64
            in if total_size_bytes div element_size \<noteq> total_elements then Some h
               else if total_size_bytes = 0 then Some h
               else if row = col then
                 (case swap_loop (nat col) element_size (upper_pairs (nat row)) (h b) of
                    None \<Rightarrow> None | Some buf \<Rightarrow> Some (h(b := buf)))
               else
                 (case copy_loop (\<lambda>(d, s, n). if total_size_bytes < s + n \<or> total_size_bytes < d + n then Stop else Go)
                         (h b) (transpose_ops (nat row) (nat col) element_size) (replicate total_size_bytes 0) of
                    Ub \<Rightarrow> None
                  | Exit temp \<Rightarrow> Some h
                  | Cont temp \<Rightarrow>
                      (case memcpy_at (h b) 0 temp 0 total_size_bytes of None \<Rightarrow> None | Some buf \<Rightarrow> Some (h(b := buf)))))"

text \<open>
  \<open>accel\<close> is the vendor transpose that is compiled in, when acceleration is enabled in the
  configuration; it is used for elements of one and four bytes.
\<close>

definition bidirectional_transpose ::
  "(heap \<Rightarrow> nat \<Rightarrow> nat \<Rightarrow> int \<Rightarrow> int \<Rightarrow> nat \<Rightarrow> heap) option \<Rightarrow>
   heap \<Rightarrow> nat option \<Rightarrow> nat option \<Rightarrow> int \<Rightarrow> int \<Rightarrow> nat \<Rightarrow> heap option" where
  "bidirectional_transpose accel h src dst row col element_size =
     (case (src, dst) of
        (Some s, Some d) \<Rightarrow>
          if row \<le> 0 \<or> col \<le> 0 \<or> element_size = 0 then Some h
          else if accel \<noteq> None \<and> (element_size = 1 \<or> element_size = 4)
          then Some ((the accel) h s d row col element_size)
          else if s = d then bidirectional_transpose_inplace h src row col element_size
          else (case copy_loop (\<lambda>_. Go) (h s) (transpose_ops (nat row) (nat col) element_size) (h d) of
                  Cont buf \<Rightarrow> Some (h(d := buf)) | _ \<Rightarrow> None)
      | _ \<Rightarrow> Some h)"

end
