(* ===== verification/Task_Graph.thy ===== *)
theory Task_Graph
  imports Prelude "HOL-Library.AList"
begin

section \<open>The task graph of a model\<close>

text \<open>
  \<^verbatim>\<open>src/lib/inference_engine.cpp\<close>, the part of \<open>loadModelFromMemory\<close> that turns the tasks of a model into
  a graph: head and tail flags, the order of model inputs and outputs, successor and predecessor
  lists, the place of every output tensor in the output buffer of the caller, the number of device
  buffers, and the size queries. A task is referred to by its name, the key of \<open>_taskMap\<close>;
  \<open>unordered_map\<close> and \<open>map\<close> are association lists, where only lookups are observable. A pointer is a
  64-bit address. The construction of a task from the model binary and the answer of the CPU runtime
  about dynamic outputs are inputs of the model (\<open>tk_cpuDynamic\<close>).
\<close>

record Tensor =
  tn_name :: string
  tn_shape :: "int list"
  tn_elemSize :: u32
  tn_data :: u64
  tn_phyAddr :: u64

definition size_in_bytes :: "Tensor \<Rightarrow> u64" where
  "size_in_bytes t =
     fold (\<lambda>dim num_elements. if dim < 0 then num_elements else num_elements * word_of_int dim) (tn_shape t) 1
       * ucast (tn_elemSize t)"

datatype Processor = NPU | CPU

record Task =
  tk_name :: string
  tk_processor :: Processor
  tk_inputs :: "Tensor list"
  tk_outputs :: "Tensor list"
  tk_inputOffsets :: "u64 list"
  tk_output_size :: u32
  tk_NPU_block_size :: u64
  tk_is_PPU :: bool
  tk_cpuDynamic :: bool
  tk_is_head :: bool
  tk_is_tail :: bool
  tk_next :: "string option"
  tk_prevs :: "string list"
  tk_nexts :: "string list"
  tk_tailOffset :: u64

record graph_tensor =
  gt_name :: string
  gt_owner :: string
  gt_users :: "string list"

record SubGraph =
  sg_inputs :: "graph_tensor list"
  sg_outputs :: "graph_tensor list"
  sg_head :: bool
  sg_tail :: bool

record TensorDescriptor =
  td_producerTask :: string
  td_consumerTasks :: "string list"
  td_isModelInput :: bool
  td_isModelOutput :: bool
  td_sizeInBytes :: u64
  td_outputBufferOffset :: u64

record InferenceEngine =
  ie_tasks :: "Task list"
  ie_head :: "string option"
  ie_modelInputOrder :: "string list"
  ie_isMultiInput :: bool
  ie_inputTensorToTaskMap :: "(string \<times> string) list"
  ie_inputTasks :: "string list"
  ie_lastOutputOrder :: "string list"
  ie_numTails :: nat
  ie_isPPU :: bool
  ie_tensorRegistry :: "(string \<times> TensorDescriptor) list"
  ie_cachedOutputOffsets :: "(string \<times> u64) list"

datatype engine_error = InvalidModelException | InvalidOperationException | InvalidArgumentException
  | InsufficientMemoryException | AssertionFailed | NullDereference

text \<open>\<open>_subGraphMap[name]\<close> inserts an empty subgraph for an unknown name.\<close>

definition subgraph_of :: "(string \<times> SubGraph) list \<Rightarrow> string \<Rightarrow> SubGraph" where
  "subgraph_of subs n = (case map_of subs n of
     None \<Rightarrow> \<lparr>sg_inputs = [], sg_outputs = [], sg_head = False, sg_tail = False\<rparr> | Some g \<Rightarrow> g)"

definition task_of :: "Task list \<Rightarrow> string \<Rightarrow> Task option" where
  "task_of tasks n = find (\<lambda>t. tk_name t = n) tasks"

text \<open>\<open>std::find\<close> followed by \<open>emplace_back\<close> of what is not there yet.\<close>

definition add_once :: "'a \<Rightarrow> 'a list \<Rightarrow> 'a list" where
  "add_once x xs = (if x \<in> set xs then xs else xs @ [x])"

subsection \<open>Heads, tails, model inputs\<close>

fun place_tasks :: "bool \<Rightarrow> (string \<times> SubGraph) list \<Rightarrow> Task list \<Rightarrow> string option \<Rightarrow> Task list \<times> string option" where
  "place_tasks useORT subs [] head = ([], head)"
| "place_tasks useORT subs (t # ts) head =
     (if useORT then
        (let g = subgraph_of subs (tk_name t);
             head1 = (if sg_head g \<and> head = None then Some (tk_name t) else head);
             (ts1, head2) = place_tasks useORT subs ts head1
         in (t\<lparr>tk_is_head := sg_head g, tk_is_tail := sg_tail g\<rparr> # ts1, head2))
      else ([t\<lparr>tk_is_head := True, tk_is_tail := True\<rparr>], Some (tk_name t)))"

definition model_input_order :: "bool \<Rightarrow> string list \<Rightarrow> Task list \<Rightarrow> string list" where
  "model_input_order useORT graph_inputs tasks =
     (if useORT then graph_inputs else concat (map (\<lambda>t. map tn_name (tk_inputs t)) (filter tk_is_head tasks)))"

definition map_input :: "string \<Rightarrow> string \<Rightarrow> (string \<times> string) list \<times> string list \<Rightarrow> (string \<times> string) list \<times> string list" where
  "map_input tensorName taskName = (\<lambda>(m, inputTasks). (AList.update tensorName taskName m, add_once taskName inputTasks))"

definition buildInputTensorMapping ::
  "bool \<Rightarrow> (string \<times> SubGraph) list \<Rightarrow> string list \<Rightarrow> Task list \<Rightarrow> (string \<times> string) list \<times> string list" where
  "buildInputTensorMapping useORT subs modelInputOrder tasks =
     (if useORT then
        fold (\<lambda>tensorName. fold (\<lambda>t acc.
            if \<exists>i \<in> set (sg_inputs (subgraph_of subs (tk_name t))). gt_name i = tensorName \<and> gt_owner i = []
            then map_input tensorName (tk_name t) acc else acc) tasks) modelInputOrder ([], [])
      else
        fold (\<lambda>t. fold (\<lambda>i. map_input (tn_name i) (tk_name t)) (tk_inputs t)) (filter tk_is_head tasks) ([], []))"

subsection \<open>Successors and predecessors\<close>

definition nexts_of :: "string list \<Rightarrow> graph_tensor list \<Rightarrow> string list \<Rightarrow> string list" where
  "nexts_of names outputs nexts =
     fold (\<lambda>tensor. fold (\<lambda>user ns. if user \<in> set names then add_once user ns else ns) (gt_users tensor)) outputs nexts"

definition prevs_of :: "string list \<Rightarrow> graph_tensor list \<Rightarrow> string list \<Rightarrow> string list" where
  "prevs_of names inputs prevs =
     fold (\<lambda>tensor ps. if gt_owner tensor = [] then ps
                       else if gt_owner tensor \<notin> set names then ps else add_once (gt_owner tensor) ps) inputs prevs"

fun link_chain :: "Task list \<Rightarrow> Task list" where
  "link_chain (t # u # ts) = t\<lparr>tk_next := Some (tk_name u)\<rparr> # link_chain (u # ts)"
| "link_chain [t] = [t\<lparr>tk_next := None\<rparr>]"
| "link_chain [] = []"

definition buildTaskGraph :: "(string \<times> SubGraph) list \<Rightarrow> Task list \<Rightarrow> Task list \<times> bool" where
  "buildTaskGraph subs tasks =
     (let names = map tk_name tasks
      in (map (\<lambda>t. let g = subgraph_of subs (tk_name t) in
            t\<lparr>tk_nexts := nexts_of names (sg_outputs g) (tk_nexts t), tk_prevs := prevs_of names (sg_inputs g) (tk_prevs t)\<rparr>)
            (link_chain tasks),
          \<exists>t \<in> set tasks. tk_is_PPU t))"

subsection \<open>Output order and tail offsets\<close>

definition tail_outputs :: "Task \<Rightarrow> string list" where
  "tail_outputs t = map tn_name (tk_outputs t)"

text \<open>The output names, the tail tasks with their model outputs, and their number.\<close>

definition collect_tails :: "bool \<Rightarrow> string list \<Rightarrow> Task list \<Rightarrow> string list \<times> (Task \<times> string list) list" where
  "collect_tails useORT graph_outputs tasks =
     (if useORT then
        (graph_outputs,
         filter (\<lambda>(t, ns). ns \<noteq> []) (map (\<lambda>t. (t, filter (\<lambda>n. n \<in> set graph_outputs) (tail_outputs t))) (filter tk_is_tail tasks)))
      else (concat (map tail_outputs (filter tk_is_tail tasks)),
            map (\<lambda>t. (t, tail_outputs t)) (filter tk_is_tail tasks)))"

text \<open>\<open>tensorOrderMap\<close> keeps the last position of a name.\<close>

definition last_position :: "string list \<Rightarrow> string \<Rightarrow> nat option" where
  "last_position order n = map_of (rev (zip order [0..<length order])) n"

fun min_position :: "nat option list \<Rightarrow> nat option" where
  "min_position [] = None"
| "min_position (None # ps) = min_position ps"
| "min_position (Some p # ps) = (case min_position ps of None \<Rightarrow> Some p | Some q \<Rightarrow> Some (min p q))"

definition tensor_size :: "string \<Rightarrow> Task \<Rightarrow> u64" where
  "tensor_size n t = (case find (\<lambda>x. tn_name x = n) (tk_outputs t) of None \<Rightarrow> 0 | Some x \<Rightarrow> size_in_bytes x)"

definition tail_offset :: "string list \<Rightarrow> (Task \<times> string list) list \<Rightarrow> string list \<Rightarrow> u64 option" where
  "tail_offset order tails names =
     (case min_position (map (last_position order) names) of
        None \<Rightarrow> None
      | Some p \<Rightarrow> Some (fold (\<lambda>n off. fold (\<lambda>(t, ns) off. off + tensor_size n t) tails off) (take p order) 0))"

definition set_tail_offset :: "(string \<times> u64) list \<Rightarrow> Task \<Rightarrow> Task" where
  "set_tail_offset offs t = (case map_of offs (tk_name t) of None \<Rightarrow> t | Some off \<Rightarrow> t\<lparr>tk_tailOffset := off\<rparr>)"

fun sequential_offsets :: "Task list \<Rightarrow> u64 \<Rightarrow> (string \<times> u64) list" where
  "sequential_offsets [] off = []"
| "sequential_offsets (t # ts) off = (tk_name t, off) # sequential_offsets ts (off + ucast (tk_output_size t))"

fun tail_offsets :: "string list \<Rightarrow> (Task \<times> string list) list \<Rightarrow> (Task \<times> string list) list \<Rightarrow> (string \<times> u64) list option" where
  "tail_offsets order tails [] = Some []"
| "tail_offsets order tails ((t, names) # ps) =
     (case tail_offset order tails names of
        None \<Rightarrow> None
      | Some off \<Rightarrow> map_option (\<lambda>offs. (tk_name t, off) # offs) (tail_offsets order tails ps))"

definition set_output_order ::
  "bool \<Rightarrow> string list \<Rightarrow> bool \<Rightarrow> Task list \<Rightarrow> engine_error + (Task list \<times> string list \<times> nat)" where
  "set_output_order useORT graph_outputs isPPU tasks =
     (let (order, tails) = collect_tails useORT graph_outputs tasks;
          ppuOrder = concat (map tail_outputs (filter tk_is_tail tasks));
          order1 = (if isPPU then ppuOrder else order);
          offs = (if isPPU then
                    (if ppuOrder \<noteq> order then Some (sequential_offsets (filter tk_is_tail tasks) 0) else Some [])
                  else tail_offsets order tails tails)
      in case offs of
           None \<Rightarrow> Inl InvalidModelException
         | Some offs \<Rightarrow>
             if order1 = [] then Inl AssertionFailed
             else if tails = [] then Inl AssertionFailed
             else Inr (map (set_tail_offset offs) tasks, order1, length tails))"

subsection \<open>Tensor registry and output offsets\<close>

definition all_tensor_names :: "Task list \<Rightarrow> string list" where
  "all_tensor_names tasks = remdups (concat (map (\<lambda>t. map tn_name (tk_inputs t) @ map tn_name (tk_outputs t)) tasks))"

text \<open>The scan for the producer stops at the first task with an output of the name and a name of its own.\<close>

fun find_producer :: "string \<Rightarrow> Task list \<Rightarrow> string \<times> u64 \<Rightarrow> string \<times> u64" where
  "find_producer n [] found = found"
| "find_producer n (t # ts) found =
     (let found1 = (case find (\<lambda>x. tn_name x = n) (tk_outputs t) of
                      None \<Rightarrow> found | Some x \<Rightarrow> (tk_name t, size_in_bytes x))
      in if fst found1 \<noteq> [] then found1 else find_producer n ts found1)"

definition descriptor :: "string list \<Rightarrow> string list \<Rightarrow> Task list \<Rightarrow> string \<Rightarrow> TensorDescriptor" where
  "descriptor modelInputOrder lastOutputOrder tasks n =
     \<lparr>td_producerTask = fst (find_producer n tasks ([], 0)),
      td_consumerTasks = concat (map (\<lambda>t. map (\<lambda>_. tk_name t) (filter (\<lambda>x. tn_name x = n) (tk_inputs t))) tasks),
      td_isModelInput = (n \<in> set modelInputOrder), td_isModelOutput = (n \<in> set lastOutputOrder),
      td_sizeInBytes = snd (find_producer n tasks ([], 0)), td_outputBufferOffset = 0\<rparr>"

definition buildTensorRegistry :: "string list \<Rightarrow> string list \<Rightarrow> Task list \<Rightarrow> (string \<times> TensorDescriptor) list" where
  "buildTensorRegistry modelInputOrder lastOutputOrder tasks =
     map (\<lambda>n. (n, descriptor modelInputOrder lastOutputOrder tasks n)) (all_tensor_names tasks)"

fun offset_loop ::
  "string list \<Rightarrow> u64 \<Rightarrow> (string \<times> TensorDescriptor) list \<Rightarrow> (string \<times> u64) list
    \<Rightarrow> (string \<times> TensorDescriptor) list \<times> (string \<times> u64) list \<times> u64" where
  "offset_loop [] cur reg offs = (reg, offs, cur)"
| "offset_loop (n # ns) cur reg offs =
     (case map_of reg n of
        None \<Rightarrow> offset_loop ns cur reg offs
      | Some d \<Rightarrow> offset_loop ns (cur + td_sizeInBytes d)
                    (AList.update n (d\<lparr>td_outputBufferOffset := cur\<rparr>) reg) (AList.update n cur offs))"

definition calculateTensorOffsets :: "InferenceEngine \<Rightarrow> InferenceEngine" where
  "calculateTensorOffsets ie =
     (case offset_loop (ie_lastOutputOrder ie) 0 (ie_tensorRegistry ie) [] of
        (reg, offs, currentOffset) \<Rightarrow> ie\<lparr>ie_tensorRegistry := reg, ie_cachedOutputOffsets := offs\<rparr>)"

definition GetOutputTensorOffset :: "InferenceEngine \<Rightarrow> string \<Rightarrow> u64" where
  "GetOutputTensorOffset ie n = (case map_of (ie_cachedOutputOffsets ie) n of None \<Rightarrow> 0 | Some off \<Rightarrow> off)"

definition isTensorModelOutput :: "InferenceEngine \<Rightarrow> string \<Rightarrow> bool" where
  "isTensorModelOutput ie n = (case map_of (ie_tensorRegistry ie) n of None \<Rightarrow> False | Some d \<Rightarrow> td_isModelOutput d)"

definition isTensorModelInput :: "InferenceEngine \<Rightarrow> string \<Rightarrow> bool" where
  "isTensorModelInput ie n = (case map_of (ie_tensorRegistry ie) n of None \<Rightarrow> False | Some d \<Rightarrow> td_isModelInput d)"

definition supportsTensorCentricOffsets :: "InferenceEngine \<Rightarrow> bool" where
  "supportsTensorCentricOffsets ie \<longleftrightarrow> ie_tensorRegistry ie \<noteq> [] \<and> ie_lastOutputOrder ie \<noteq> []"

subsection \<open>Loading\<close>

text \<open>The graph part of \<open>loadModelFromMemory\<close>, in its order.\<close>

definition load_graph ::
  "bool \<Rightarrow> (string \<times> SubGraph) list \<Rightarrow> string list \<Rightarrow> string list \<Rightarrow> Task list \<Rightarrow> engine_error + InferenceEngine" where
  "load_graph useORT subs graph_inputs graph_outputs tasks0 =
     (let (tasks1, head) = place_tasks useORT subs tasks0 None;
          inputOrder = model_input_order useORT graph_inputs tasks1;
          (inputMap, inputTasks) = buildInputTensorMapping useORT subs inputOrder tasks1;
          (tasks2, isPPU) = buildTaskGraph subs tasks1
      in case set_output_order useORT graph_outputs isPPU tasks2 of
           Inl e \<Rightarrow> Inl e
         | Inr (tasks3, order, numTails) \<Rightarrow>
             Inr (calculateTensorOffsets
               \<lparr>ie_tasks = tasks3, ie_head = head, ie_modelInputOrder = inputOrder, ie_isMultiInput = (1 < length inputOrder),
                ie_inputTensorToTaskMap = inputMap, ie_inputTasks = inputTasks, ie_lastOutputOrder = order,
                ie_numTails = numTails, ie_isPPU = isPPU,
                ie_tensorRegistry = buildTensorRegistry inputOrder order tasks3, ie_cachedOutputOffsets = []\<rparr>))"

subsection \<open>Size queries\<close>

definition HasDynamicOutput :: "InferenceEngine \<Rightarrow> bool" where
  "HasDynamicOutput ie \<longleftrightarrow> (\<exists>t \<in> set (ie_tasks ie). tk_cpuDynamic t \<or> (\<exists>x \<in> set (tk_outputs t). size_in_bytes x = 0))"

text \<open>The size of a model input as its task declares it; None where the source logs and skips.\<close>

definition input_tensor_size :: "InferenceEngine \<Rightarrow> string \<Rightarrow> u64 option" where
  "input_tensor_size ie n =
     (case map_of (ie_inputTensorToTaskMap ie) n of
        None \<Rightarrow> None
      | Some taskName \<Rightarrow>
          (case task_of (ie_tasks ie) taskName of
             None \<Rightarrow> None
           | Some t \<Rightarrow> map_option size_in_bytes (find (\<lambda>x. tn_name x = n) (tk_inputs t))))"

definition GetInputTensorSizes :: "InferenceEngine \<Rightarrow> u64 list" where
  "GetInputTensorSizes ie = List.map_filter (input_tensor_size ie) (ie_modelInputOrder ie)"

definition GetInputSize :: "InferenceEngine \<Rightarrow> u64" where
  "GetInputSize ie = fold (\<lambda>n total. case input_tensor_size ie n of None \<Rightarrow> total | Some sz \<Rightarrow> total + sz) (ie_modelInputOrder ie) 0"

fun tryGetOutputTensorSize :: "Task list \<Rightarrow> string \<Rightarrow> u64 option" where
  "tryGetOutputTensorSize [] n = None"
| "tryGetOutputTensorSize (t # ts) n =
     (if tk_is_PPU t then Some (ucast (tk_output_size t))
      else case find (\<lambda>x. tn_name x = n) (tk_outputs t) of
             None \<Rightarrow> tryGetOutputTensorSize ts n
           | Some x \<Rightarrow> Some (size_in_bytes x))"

definition GetOutputTensorSizes :: "InferenceEngine \<Rightarrow> u64 list" where
  "GetOutputTensorSizes ie = List.map_filter (tryGetOutputTensorSize (ie_tasks ie)) (ie_lastOutputOrder ie)"

text \<open>The sum over all outputs of a name; a PPU task ends the computation with its own size.\<close>

fun output_size_tasks :: "Task list \<Rightarrow> string \<Rightarrow> u64 \<Rightarrow> u64 + u64" where
  "output_size_tasks [] n sz = Inr sz"
| "output_size_tasks (t # ts) n sz =
     (if tk_is_PPU t then Inl (ucast (tk_output_size t))
      else output_size_tasks ts n (fold (\<lambda>x sz. if tn_name x = n then sz + size_in_bytes x else sz) (tk_outputs t) sz))"

fun output_size_loop :: "Task list \<Rightarrow> string list \<Rightarrow> u64 \<Rightarrow> u64" where
  "output_size_loop tasks [] sz = sz"
| "output_size_loop tasks (n # ns) sz =
     (case output_size_tasks tasks n sz of Inl r \<Rightarrow> r | Inr sz1 \<Rightarrow> output_size_loop tasks ns sz1)"

definition GetOutputSize :: "InferenceEngine \<Rightarrow> u64" where
  "GetOutputSize ie = (if HasDynamicOutput ie then 0 else output_size_loop (ie_tasks ie) (ie_lastOutputOrder ie) 0)"

definition shouldAutoSplitInput :: "InferenceEngine \<Rightarrow> bool" where
  "shouldAutoSplitInput ie \<longleftrightarrow> ie_isMultiInput ie \<and> length (ie_inputTasks ie) = 1"

subsection \<open>Consistency check\<close>

definition MAX_TENSOR_SIZE :: u64 where "MAX_TENSOR_SIZE = 4294967296"

definition task_consistent :: "string list \<Rightarrow> Task \<Rightarrow> bool" where
  "task_consistent available t \<longleftrightarrow>
     (let total = fold (\<lambda>x s. s + size_in_bytes x) (tk_inputs t) 0 in
      (\<forall>x \<in> set (tk_inputs t). tn_name x \<in> set available \<and> size_in_bytes x \<le> MAX_TENSOR_SIZE)
      \<and> (\<forall>x \<in> set (tk_outputs t). size_in_bytes x \<le> MAX_TENSOR_SIZE)
      \<and> total \<noteq> 0 \<and> tk_output_size t \<noteq> 0 \<and> total \<le> MAX_TENSOR_SIZE \<and> tk_NPU_block_size t < MAX_TENSOR_SIZE)"

fun order_consistent :: "string list \<Rightarrow> Task list \<Rightarrow> bool" where
  "order_consistent available [] = True"
| "order_consistent available (t # ts) =
     (task_consistent available t \<and> order_consistent (map tn_name (tk_outputs t) @ available) ts)"

text \<open>The check passes (True) or throws; \<open>_taskOrder\<close> lists the tasks, \<open>_taskMap\<close> has one entry per name.\<close>

definition checkInputOutputMistmatch :: "InferenceEngine \<Rightarrow> bool" where
  "checkInputOutputMistmatch ie \<longleftrightarrow>
     order_consistent (ie_modelInputOrder ie) (ie_tasks ie) \<and> distinct (map tk_name (ie_tasks ie))"

subsection \<open>The number of device buffers\<close>

text \<open>The count is a C++ \<open>int\<close>, converted to 64 bits in the product.\<close>

function buffer_count_loop :: "u64 \<Rightarrow> u64 \<Rightarrow> u64 \<Rightarrow> int \<Rightarrow> int" where
  "buffer_count_loop npuMemSize totalFixedCost totalPerBufferCost adjusted =
     (if 1 < adjusted then
        (if totalFixedCost + totalPerBufferCost * word_of_int adjusted \<le> npuMemSize then adjusted
         else buffer_count_loop npuMemSize totalFixedCost totalPerBufferCost (adjusted - 1))
      else adjusted)"
  by pat_completeness auto
termination by (relation "measure (\<lambda>(_, _, _, n). nat n)") auto

declare buffer_count_loop.simps [simp del]

definition calculateMaxBufferCount :: "u64 \<Rightarrow> u64 \<Rightarrow> u64 \<Rightarrow> int \<Rightarrow> engine_error + int" where
  "calculateMaxBufferCount npuMemSize totalFixedCost totalPerBufferCost initialCount =
     (let adjusted = buffer_count_loop npuMemSize totalFixedCost totalPerBufferCost initialCount in
      if totalFixedCost + totalPerBufferCost > npuMemSize then Inl InsufficientMemoryException else Inr adjusted)"

end
