(* ===== verification/Npu_Encode.thy ===== *)
theory Npu_Encode
  imports Npu_Format Task_Graph
begin

section \<open>Encoding and decoding of requests\<close>

text \<open>
  The two entry points of \<^verbatim>\<open>src/lib/npu_format_handler.cpp\<close> that the worker threads call:
  \<open>EncodeInputs\<close> brings every input tensor of a request into the layout of the NPU and
  \<open>DecodeOutputs\<close> brings the outputs back. Both choose per tensor among the routines of
  \<^verbatim>\<open>Npu_Format\<close>, whose return codes they ignore. Each encoded tensor has a buffer of its own here,
  where the source has regions of one buffer. An index outside a vector, a null pointer that is
  written through and a signed overflow are \<open>Ub_outcome\<close>; an unknown element type ends the process
  (\<open>Process_exit\<close>). An enumeration value that no constructor names takes the last branch, as
  \<open>LAYOUT_NONE\<close> does. Data dumps and profiling are left out; the variant is that without \<open>USE_VNPU\<close>.
\<close>

datatype DataType = NONE_TYPE | FLOAT | UINT8 | INT8 | UINT16 | INT16 | INT32 | INT64 | UINT32 | UINT64 | BBOX | FACE | POSE

datatype 'a outcome = Ub_outcome | Process_exit | Value 'a

fun GetDataSize_Datatype :: "DataType \<Rightarrow> nat outcome" where
  "GetDataSize_Datatype UINT8 = Value 1"
| "GetDataSize_Datatype INT8 = Value 1"
| "GetDataSize_Datatype INT16 = Value 2"
| "GetDataSize_Datatype UINT16 = Value 2"
| "GetDataSize_Datatype UINT32 = Value 4"
| "GetDataSize_Datatype INT32 = Value 4"
| "GetDataSize_Datatype FLOAT = Value 4"
| "GetDataSize_Datatype UINT64 = Value 8"
| "GetDataSize_Datatype INT64 = Value 8"
| "GetDataSize_Datatype BBOX = Value 32"
| "GetDataSize_Datatype FACE = Value 64"
| "GetDataSize_Datatype POSE = Value 256"
| "GetDataSize_Datatype NONE_TYPE = Process_exit"

datatype rmap_DataType = DATA_TYPE_NONE | FLOAT32 | UINT8 | INT8 | UINT16 | INT16 | INT32 | INT64 | UINT32 | UINT64

fun GetDataSize_rmapinfo_datatype :: "rmap_DataType \<Rightarrow> nat outcome" where
  "GetDataSize_rmapinfo_datatype UINT8 = Value 1"
| "GetDataSize_rmapinfo_datatype INT8 = Value 1"
| "GetDataSize_rmapinfo_datatype INT16 = Value 2"
| "GetDataSize_rmapinfo_datatype UINT16 = Value 2"
| "GetDataSize_rmapinfo_datatype UINT32 = Value 4"
| "GetDataSize_rmapinfo_datatype INT32 = Value 4"
| "GetDataSize_rmapinfo_datatype FLOAT32 = Value 4"
| "GetDataSize_rmapinfo_datatype UINT64 = Value 8"
| "GetDataSize_rmapinfo_datatype INT64 = Value 8"
| "GetDataSize_rmapinfo_datatype DATA_TYPE_NONE = Process_exit"

datatype Layout = LAYOUT_NONE | PRE_FORMATTER | PRE_IM2COL | FORMATTED | ALIGNED | PPU_YOLO | PPU_FD | PPU_POSE
datatype Transpose = TRANSPOSE_NONE | CHANNEL_FIRST_TO_LAST | CHANNEL_LAST_TO_FIRST
datatype ModelType = MODEL_TYPE_NORMAL | MODEL_TYPE_ARGMAX | MODEL_TYPE_PPU | MODEL_TYPE_PPCPU | MODEL_TYPE_OTHER

record TensorInfo =
  ti_dtype_encoded :: rmap_DataType
  ti_shape_encoded :: "int list"
  ti_layout :: Layout
  ti_align_unit :: int
  ti_transpose :: Transpose

record TaskData =
  tf_npuInputTensorInfos :: "TensorInfo list"
  tf_npuOutputTensorInfos :: "TensorInfo list"
  tf_encodedInputSizes :: "u32 list"
  tf_encodedOutputSizes :: "u32 list"
  tf_isArgMax :: bool

record nfh_tensor =
  nt_shape :: "int list"
  nt_elemSize :: u32
  nt_type :: DataType
  nt_is_argmax :: bool
  nt_data :: "nat option"

record RequestData =
  rd_taskData :: "TaskData option"
  rd_inputs :: "nfh_tensor list"
  rd_outputs :: "nfh_tensor list"
  rd_encoded_inputs_ptr :: "nat option"
  rd_encoded_input_ptrs :: "nat option list"
  rd_encoded_output_ptrs :: "nat option list"

record dxrt_response =
  rs_argmax :: "16 word"
  rs_ppu_filter_num :: u32

type_synonym vendor_transpose = "(heap \<Rightarrow> nat \<Rightarrow> nat \<Rightarrow> int \<Rightarrow> int \<Rightarrow> nat \<Rightarrow> heap) option"

definition nt_size :: "nfh_tensor \<Rightarrow> u64" where
  "nt_size t = size_in_bytes \<lparr>tn_name = [], tn_shape = nt_shape t, tn_elemSize = nt_elemSize t, tn_data = 0, tn_phyAddr = 0\<rparr>"

definition to_int :: "int \<Rightarrow> int" where
  "to_int x = sint (word_of_int x :: u32)"

text \<open>\<open>static_cast<int>(shape_encoded()[shape_dims - k])\<close>.\<close>

definition last_dim :: "nat \<Rightarrow> TensorInfo \<Rightarrow> int option" where
  "last_dim k info =
     (if k \<le> length (ti_shape_encoded info) then Some (to_int (ti_shape_encoded info ! (length (ti_shape_encoded info) - k))) else None)"

text \<open>The product of all dimensions but the last, in \<open>int\<close>.\<close>

definition outer_size :: "TensorInfo \<Rightarrow> int option" where
  "outer_size info =
     fold (\<lambda>d acc. case acc of None \<Rightarrow> None | Some p \<Rightarrow> if in_int (p * to_int d) then Some (p * to_int d) else None)
       (butlast (ti_shape_encoded info)) (Some 1)"

text \<open>The return code of a routine is ignored; the sizes it sets in its \<open>Bytes\<close> argument are local.\<close>

fun ignoring_code :: "fmt_result \<Rightarrow> heap outcome" where
  "ignoring_code Undefined = Ub_outcome"
| "ignoring_code (Returned r output h) = Value h"

fun transposed :: "heap option \<Rightarrow> heap outcome" where
  "transposed None = Ub_outcome"
| "transposed (Some h) = Value h"

fun and_then :: "'a outcome \<Rightarrow> ('a \<Rightarrow> 'b outcome) \<Rightarrow> 'b outcome" where
  "and_then Ub_outcome f = Ub_outcome"
| "and_then Process_exit f = Process_exit"
| "and_then (Value x) f = f x"

fun defined :: "'a option \<Rightarrow> ('a \<Rightarrow> 'b outcome) \<Rightarrow> 'b outcome" where
  "defined None f = Ub_outcome"
| "defined (Some x) f = f x"

text \<open>\<open>memcpy(dst.data, src.data, n)\<close>.\<close>

definition copy_bytes :: "heap \<Rightarrow> nat \<Rightarrow> nat \<Rightarrow> nat \<Rightarrow> heap outcome" where
  "copy_bytes h dst src n = (case memcpy_at (h dst) 0 (h src) 0 n of None \<Rightarrow> Ub_outcome | Some buf \<Rightarrow> Value (h(dst := buf)))"

subsection \<open>Inputs\<close>

text \<open>
  The columns and the unit of an aligned tensor, in bytes for 32-bit floats and in elements for
  every other type.
\<close>

definition aligned_columns :: "TensorInfo \<Rightarrow> (int \<times> int) option" where
  "aligned_columns info =
     (case last_dim 1 info of
        None \<Rightarrow> None
      | Some channel \<Rightarrow>
          if ti_dtype_encoded info = FLOAT32 then
            (if in_int (ti_align_unit info * 4) \<and> in_int (channel * 4) then Some (channel * 4, ti_align_unit info * 4) else None)
          else Some (channel, ti_align_unit info))"

text \<open>
  One input. \<open>skip\<close> is \<open>can_skip_input_copy\<close>; the flag of the result says that the encoded pointer
  becomes the pointer of the input itself. \<open>src\<close> and \<open>dst\<close> are the two buffers.
\<close>

definition encode_input ::
  "vendor_transpose \<Rightarrow> heap \<Rightarrow> bool \<Rightarrow> TensorInfo \<Rightarrow> u32 \<Rightarrow> u32 \<Rightarrow> nat \<Rightarrow> nat \<Rightarrow> (bool \<times> heap) outcome" where
  "encode_input accel h skip info isz esz src dst =
     (let original_input = \<lparr>b_size = isz, b_data = Some src\<rparr>;
          encoded_input = \<lparr>b_size = esz, b_data = Some dst\<rparr>;
          written = (\<lambda>r. and_then r (\<lambda>h1. Value (False, h1)));
          skip_or = (\<lambda>r. if skip then Value (True, h) else written r);
          transpose_from = (\<lambda>s h1.
            defined (last_dim 1 info) (\<lambda>row.
            defined (outer_size info) (\<lambda>col.
            and_then (GetDataSize_rmapinfo_datatype (ti_dtype_encoded info)) (\<lambda>elem_size.
              transposed (bidirectional_transpose accel h1 (Some s) (Some dst) row col elem_size)))))
      in case ti_layout info of
        PRE_FORMATTER \<Rightarrow> skip_or (ignoring_code (encode_preformatter h original_input encoded_input (ti_align_unit info)))
      | PRE_IM2COL \<Rightarrow>
          skip_or (defined (last_dim 2 info) (\<lambda>w. defined (last_dim 1 info) (\<lambda>c.
            ignoring_code (encode_preim2col h original_input encoded_input w c (ti_align_unit info)))))
      | FORMATTED \<Rightarrow>
          (let format = defined (last_dim 1 info) (\<lambda>c. ignoring_code (encode_formatted h original_input encoded_input c (ti_align_unit info)))
           in case ti_transpose info of
                TRANSPOSE_NONE \<Rightarrow> skip_or format
              | CHANNEL_FIRST_TO_LAST \<Rightarrow> written (and_then format (transpose_from dst))
              | CHANNEL_LAST_TO_FIRST \<Rightarrow> skip_or (copy_bytes h dst src (unat isz)))
      | ALIGNED \<Rightarrow>
          (case ti_transpose info of
             TRANSPOSE_NONE \<Rightarrow>
               skip_or (defined (aligned_columns info) (\<lambda>(col, unit). ignoring_code (encode h original_input encoded_input col unit)))
           | CHANNEL_FIRST_TO_LAST \<Rightarrow>
               written (and_then (transpose_from src h) (\<lambda>h1.
                 defined (aligned_columns info) (\<lambda>(col, unit).
                   ignoring_code (encode h1 \<lparr>b_size = isz, b_data = Some dst\<rparr> encoded_input col unit))))
           | CHANNEL_LAST_TO_FIRST \<Rightarrow> skip_or (copy_bytes h dst src (unat isz)))
      | _ \<Rightarrow> skip_or (copy_bytes h dst src (unat isz)))"

fun encode_loop :: "vendor_transpose \<Rightarrow> TaskData \<Rightarrow> nat list \<Rightarrow> RequestData \<Rightarrow> heap \<Rightarrow> (int \<times> RequestData \<times> heap) outcome" where
  "encode_loop accel td [] rd h = Value (0, rd, h)"
| "encode_loop accel td (i # is) rd h =
     (if length (rd_encoded_input_ptrs rd) \<le> i then Value (-1, rd, h)
      else case rd_encoded_input_ptrs rd ! i of
        None \<Rightarrow> Value (-1, rd, h)
      | Some dst \<Rightarrow>
          (let t = rd_inputs rd ! i; esz = tf_encodedInputSizes td ! i;
               skip = (length (rd_inputs rd) = 1 \<and> nt_size t = ucast esz)
           in case nt_data t of
                None \<Rightarrow> Value (-1, rd, h)
              | Some src \<Rightarrow>
                  and_then (encode_input accel h skip (tf_npuInputTensorInfos td ! i) (ucast (nt_size t)) esz src dst) (\<lambda>(skipped, h1).
                    encode_loop accel td is
                      (if skipped then rd\<lparr>rd_encoded_inputs_ptr := Some src, rd_encoded_input_ptrs := (rd_encoded_input_ptrs rd)[i := Some src]\<rparr>
                       else rd) h1)))"

text \<open>With the validation option the loop runs over the outputs and indexes the inputs.\<close>

fun validate_loop :: "nat list \<Rightarrow> RequestData \<Rightarrow> RequestData outcome" where
  "validate_loop [] rd = Value rd"
| "validate_loop (i # is) rd =
     (if i < length (rd_inputs rd) \<and> i < length (rd_encoded_input_ptrs rd)
      then validate_loop is (rd\<lparr>rd_encoded_input_ptrs := (rd_encoded_input_ptrs rd)[i := nt_data (rd_inputs rd ! i)]\<rparr>)
      else Ub_outcome)"

definition EncodeInputs :: "bool \<Rightarrow> vendor_transpose \<Rightarrow> RequestData option \<Rightarrow> heap \<Rightarrow> (int \<times> RequestData option \<times> heap) outcome" where
  "EncodeInputs npuValidateOpt accel reqData h =
     (case reqData of
        None \<Rightarrow> Value (-1, None, h)
      | Some rd \<Rightarrow>
          (case rd_taskData rd of
             None \<Rightarrow> Value (-1, Some rd, h)
           | Some td \<Rightarrow>
               if npuValidateOpt then
                 and_then (validate_loop [0..<length (rd_outputs rd)] rd) (\<lambda>rd1. Value (0, Some rd1, h))
               else
                 (let input_count = length (rd_inputs rd) in
                  if input_count = 0 then Value (0, Some rd, h)
                  else if length (tf_npuInputTensorInfos td) < input_count \<or> length (tf_encodedInputSizes td) < input_count
                  then Value (-1, Some rd, h)
                  else and_then (encode_loop accel td [0..<input_count] rd h) (\<lambda>(r, rd1, h1). Value (r, Some rd1, h1)))))"

subsection \<open>Outputs\<close>

definition store16 :: "heap \<Rightarrow> nat \<Rightarrow> 16 word \<Rightarrow> heap outcome" where
  "store16 h b v = (if 2 \<le> length (h b) then Value (h(b := [ucast v, ucast (drop_bit 8 v)] @ drop 2 (h b))) else Ub_outcome)"

text \<open>
  One output that is not an arg-max tensor; the flag says that the tensor now points to the encoded
  buffer \<open>src\<close>, where the transposed data went.
\<close>

definition decode_output ::
  "vendor_transpose \<Rightarrow> heap \<Rightarrow> TensorInfo \<Rightarrow> u32 \<Rightarrow> u32 \<Rightarrow> nat \<Rightarrow> nat \<Rightarrow> (bool \<times> heap) outcome" where
  "decode_output accel h info esz dsz src dst =
     (let encoded_output = \<lparr>b_size = esz, b_data = Some src\<rparr>; decoded_output = \<lparr>b_size = dsz, b_data = Some dst\<rparr>;
          decoded = defined (last_dim 1 info) (\<lambda>c.
            ignoring_code (decode_aligned h encoded_output decoded_output c (ti_dtype_encoded info = FLOAT32) (ti_align_unit info)))
      in if ti_layout info = ALIGNED then
           (case ti_transpose info of
              TRANSPOSE_NONE \<Rightarrow> and_then decoded (\<lambda>h1. Value (False, h1))
            | CHANNEL_LAST_TO_FIRST \<Rightarrow>
                and_then decoded (\<lambda>h1.
                defined (last_dim 1 info) (\<lambda>col.
                defined (outer_size info) (\<lambda>row.
                and_then (GetDataSize_rmapinfo_datatype (ti_dtype_encoded info)) (\<lambda>elem_size.
                  and_then (transposed (bidirectional_transpose accel h1 (Some dst) (Some src) row col elem_size)) (\<lambda>h2. Value (True, h2))))))
            | CHANNEL_FIRST_TO_LAST \<Rightarrow> and_then (copy_bytes h dst src (unat esz)) (\<lambda>h1. Value (False, h1)))
         else and_then (copy_bytes h dst src (unat esz)) (\<lambda>h1. Value (False, h1)))"

definition set_output_data :: "nat \<Rightarrow> nat option \<Rightarrow> RequestData \<Rightarrow> RequestData" where
  "set_output_data i p rd = rd\<lparr>rd_outputs := (rd_outputs rd)[i := (rd_outputs rd ! i)\<lparr>nt_data := p\<rparr>]\<rparr>"

fun decode_loop :: "vendor_transpose \<Rightarrow> TaskData \<Rightarrow> dxrt_response \<Rightarrow> nat list \<Rightarrow> RequestData \<Rightarrow> heap \<Rightarrow> (RequestData \<times> heap) outcome" where
  "decode_loop accel td resp [] rd h = Value (rd, h)"
| "decode_loop accel td resp (i # is) rd h =
     (let t = rd_outputs rd ! i in
      if nt_is_argmax t then
        (case nt_data t of
           None \<Rightarrow> decode_loop accel td resp is rd h
         | Some b \<Rightarrow> and_then (store16 h b (rs_argmax resp)) (decode_loop accel td resp is rd))
      else if length (tf_npuOutputTensorInfos td) \<le> i then Ub_outcome
      else if length (rd_encoded_output_ptrs rd) \<le> i then decode_loop accel td resp is rd h
      else if length (tf_encodedOutputSizes td) \<le> i then Ub_outcome
      else
        (case (rd_encoded_output_ptrs rd ! i, nt_data t) of
           (Some src, Some dst) \<Rightarrow>
             and_then (decode_output accel h (tf_npuOutputTensorInfos td ! i) (tf_encodedOutputSizes td ! i) (ucast (nt_size t)) src dst)
               (\<lambda>(moved, h1). decode_loop accel td resp is (if moved then set_output_data i (Some src) rd else rd) h1)
         | _ \<Rightarrow> decode_loop accel td resp is rd h))"

fun validate_outputs :: "nat list \<Rightarrow> RequestData \<Rightarrow> RequestData outcome" where
  "validate_outputs [] rd = Value rd"
| "validate_outputs (i # is) rd =
     (if i < length (rd_encoded_output_ptrs rd)
      then validate_outputs is (set_output_data i (rd_encoded_output_ptrs rd ! i) rd) else Ub_outcome)"

definition set_output_shape :: "int list \<Rightarrow> RequestData \<Rightarrow> RequestData" where
  "set_output_shape s rd = rd\<lparr>rd_outputs := (rd_outputs rd)[0 := (rd_outputs rd ! 0)\<lparr>nt_shape := s\<rparr>]\<rparr>"

text \<open>The task data of a request is never null here; the source dereferences it without a check.\<close>

definition DecodeOutputs ::
  "bool \<Rightarrow> vendor_transpose \<Rightarrow> ModelType \<Rightarrow> TaskData \<Rightarrow> dxrt_response \<Rightarrow> RequestData option \<Rightarrow> heap
    \<Rightarrow> (int \<times> RequestData option \<times> heap) outcome" where
  "DecodeOutputs npuValidateOpt accel modelType td resp req h =
     (case req of
        None \<Rightarrow> Value (-1, None, h)
      | Some rd \<Rightarrow>
          (let outs = rd_outputs rd in
           if modelType = MODEL_TYPE_NORMAL \<or> modelType = MODEL_TYPE_ARGMAX \<and> \<not> tf_isArgMax td then
             if npuValidateOpt then and_then (validate_outputs [0..<length outs] rd) (\<lambda>rd1. Value (0, Some rd1, h))
             else and_then (decode_loop accel td resp [0..<length outs] rd h) (\<lambda>(rd1, h1). Value (0, Some rd1, h1))
           else if modelType = MODEL_TYPE_ARGMAX then
             (if outs = [] then Ub_outcome
              else defined (nt_data (hd outs)) (\<lambda>b. and_then (store16 h b (rs_argmax resp)) (\<lambda>h1. Value (0, Some rd, h1))))
           else if modelType = MODEL_TYPE_PPU then
             (if outs = [] then Value (0, Some rd, h)
              else if rd_encoded_output_ptrs rd = [] then Ub_outcome
              else defined (nt_data (hd outs)) (\<lambda>dst. defined (hd (rd_encoded_output_ptrs rd)) (\<lambda>src.
                and_then (copy_bytes h dst src (128 * 1024)) (\<lambda>h1.
                  Value (0, Some (set_output_shape [1, uint (rs_ppu_filter_num resp)] rd), h1)))))
           else if modelType = MODEL_TYPE_PPCPU then
             (if outs \<noteq> [] \<and> 0 < rs_ppu_filter_num resp then
                and_then (GetDataSize_Datatype (nt_type (hd outs))) (\<lambda>unit_size.
                  Value (0, Some (set_output_shape [uint (rs_ppu_filter_num resp), int unit_size] rd), h))
              else Value (0, Some (if outs \<noteq> [] then set_output_shape [0, 0] rd else rd), h))
           else Value (-1, Some rd, h)))"

end
