(* ===== verification/Npu_Format_Correct.thy ===== *)
theory Npu_Format_Correct
  imports Npu_Format
begin

section \<open>Correctness of the format handler\<close>

text \<open>
  The layouts are characterised byte by byte: which source byte each byte of the result comes from.
  All loops of the handler are loops of copies, so one lemma (\<open>copy_loop_spec\<close>) gives their effect;
  the rest is the index arithmetic of rows, groups and transposed positions.
\<close>

subsection \<open>Copies\<close>

fun covers :: "copy_op \<Rightarrow> nat \<Rightarrow> bool" where
  "covers (d, s, n) x \<longleftrightarrow> d \<le> x \<and> x < d + n"

fun source_of :: "copy_op \<Rightarrow> nat \<Rightarrow> nat" where
  "source_of (d, s, n) x = s + (x - d)"

fun in_bounds :: "nat \<Rightarrow> nat \<Rightarrow> copy_op \<Rightarrow> bool" where
  "in_bounds slen dlen (d, s, n) \<longleftrightarrow> s + n \<le> slen \<and> d + n \<le> dlen"

lemma memcpy_at_nth:
  assumes "s + n \<le> length src" "d + n \<le> length dst"
  obtains b where "memcpy_at dst d src s n = Some b" "length b = length dst"
    "\<And>x. x < length dst \<Longrightarrow> b ! x = (if covers (d, s, n) x then src ! source_of (d, s, n) x else dst ! x)"
proof
  show "memcpy_at dst d src s n = Some (take d dst @ take n (drop s src) @ drop (d + n) dst)"
    using assms by (simp add: memcpy_at_def)
  have l: "length (take n (drop s src)) = n" using assms(1) by simp
  show "length (take d dst @ take n (drop s src) @ drop (d + n) dst) = length dst" using assms l by simp
  show "(take d dst @ take n (drop s src) @ drop (d + n) dst) ! x
      = (if covers (d, s, n) x then src ! source_of (d, s, n) x else dst ! x)" if "x < length dst" for x
    using assms l that by (auto simp: nth_append simp del: length_take length_drop) (simp_all add: min_def)
qed

lemma copy_loop_spec:
  assumes "\<And>op. op \<in> set ops \<Longrightarrow> chk op = Go \<and> in_bounds (length src) (length buf) op"
    and "\<And>o1 o2 x. o1 \<in> set ops \<Longrightarrow> o2 \<in> set ops \<Longrightarrow> covers o1 x \<Longrightarrow> covers o2 x \<Longrightarrow> source_of o1 x = source_of o2 x"
  obtains b where "copy_loop chk src ops buf = Cont b" "length b = length buf"
    "\<And>op x. op \<in> set ops \<Longrightarrow> covers op x \<Longrightarrow> b ! x = src ! source_of op x"
    "\<And>x. x < length buf \<Longrightarrow> \<forall>op \<in> set ops. \<not> covers op x \<Longrightarrow> b ! x = buf ! x"
proof -
  have "\<exists>b. copy_loop chk src ops buf = Cont b \<and> length b = length buf
      \<and> (\<forall>op \<in> set ops. \<forall>x. covers op x \<longrightarrow> b ! x = src ! source_of op x)
      \<and> (\<forall>x < length buf. (\<forall>op \<in> set ops. \<not> covers op x) \<longrightarrow> b ! x = buf ! x)"
    using assms
  proof (induction ops arbitrary: buf)
    case (Cons op ops)
    obtain d s n where op: "op = (d, s, n)" by (cases op)
    have go: "chk (d, s, n) = Go" and len: "s + n \<le> length src" "d + n \<le> length buf"
      using Cons.prems(1) [of op] by (auto simp: op)
    obtain b1 where b1: "memcpy_at buf d src s n = Some b1" "length b1 = length buf"
      "\<And>x. x < length buf \<Longrightarrow> b1 ! x = (if covers op x then src ! source_of op x else buf ! x)"
      using memcpy_at_nth [OF len] unfolding op by metis
    have "\<exists>b. copy_loop chk src ops b1 = Cont b \<and> length b = length b1
      \<and> (\<forall>op \<in> set ops. \<forall>x. covers op x \<longrightarrow> b ! x = src ! source_of op x)
      \<and> (\<forall>x < length b1. (\<forall>op \<in> set ops. \<not> covers op x) \<longrightarrow> b ! x = b1 ! x)"
    proof (rule Cons.IH)
      show "chk o1 = Go \<and> in_bounds (length src) (length b1) o1" if "o1 \<in> set ops" for o1
        using Cons.prems(1) that b1(2) by simp
      show "source_of o1 x = source_of o2 x" if "o1 \<in> set ops" "o2 \<in> set ops" "covers o1 x" "covers o2 x" for o1 o2 x
        using Cons.prems(2) that by simp
    qed
    then obtain b where b: "copy_loop chk src ops b1 = Cont b" "length b = length b1"
      "\<And>o1 x. o1 \<in> set ops \<Longrightarrow> covers o1 x \<Longrightarrow> b ! x = src ! source_of o1 x"
      "\<And>x. x < length b1 \<Longrightarrow> \<forall>op \<in> set ops. \<not> covers op x \<Longrightarrow> b ! x = b1 ! x" by blast
    have head: "b ! x = src ! source_of op x" if "covers op x" for x
    proof (cases "\<exists>o1 \<in> set ops. covers o1 x")
      case True
      then obtain o1 where "o1 \<in> set ops" "covers o1 x" by blast
      with that b(3) Cons.prems(2) [of o1 op x] show ?thesis by simp
    next
      case False
      have "x < length buf" using that len(2) by (simp add: op)
      with False b(4) b1(2,3) that show ?thesis by simp
    qed
    have "copy_loop chk src (op # ops) buf = Cont b" using go b1(1) b(1) by (simp add: op)
    then show ?case using head b b1 by auto
  qed simp
  then show ?thesis using that by blast
qed

subsection \<open>Rows\<close>

lemma row_ops_cover:
  assumes "op \<in> set (row_ops R A C n)" "n \<le> A" "covers op x"
  shows "x div A < R \<and> x mod A < n \<and> source_of op x = x div A * C + x mod A"
proof -
  from assms(1) obtain i where i: "i < R" "op = (i * A, i * C, n)" by (auto simp: row_ops_def)
  with assms(3) obtain c where c: "x = i * A + c" "c < n" by (auto simp: le_iff_add)
  then have "x div A = i" "x mod A = c" using assms(2) by (simp_all add: div_add1_eq [of "i * A"] mult.commute)
  with i c show ?thesis by simp
qed

lemma row_ops_at:
  assumes "i < R" "c < n"
  shows "(i * A, i * C, n) \<in> set (row_ops R A C n)" "covers (i * A, i * C, n) (i * A + c)"
  using assms by (auto simp: row_ops_def)

lemma row_ops_bounds:
  assumes "op \<in> set (row_ops R A C n)" "n \<le> A" "n \<le> C" "R * A \<le> dlen" "R * C \<le> slen"
  shows "in_bounds slen dlen op"
proof -
  from assms(1) obtain i where i: "i < R" "op = (i * A, i * C, n)" by (auto simp: row_ops_def)
  have "i * A + A \<le> R * A" "i * C + C \<le> R * C"
    using i(1) by (metis Suc_leI add.commute mult.commute mult_Suc_right mult_le_mono2)+
  with i(2) assms(2-5) show ?thesis by simp
qed

text \<open>The loop of \<open>encode\<close> and \<open>decode\<close>: row by row, with different strides.\<close>

lemma copy_rows:
  assumes "\<And>op. op \<in> set (row_ops R A C n) \<Longrightarrow> chk op = Go"
    and "n \<le> A" "n \<le> C" "R * A \<le> length buf" "R * C \<le> length src"
  obtains b where "copy_loop chk src (row_ops R A C n) buf = Cont b" "length b = length buf"
    "\<And>i c. i < R \<Longrightarrow> c < n \<Longrightarrow> b ! (i * A + c) = src ! (i * C + c)"
    "\<And>i c. i < R \<Longrightarrow> n \<le> c \<Longrightarrow> c < A \<Longrightarrow> b ! (i * A + c) = buf ! (i * A + c)"
    "\<And>x. R * A \<le> x \<Longrightarrow> x < length buf \<Longrightarrow> b ! x = buf ! x"
proof (rule copy_loop_spec [of "row_ops R A C n" chk src buf])
  fix op assume "op \<in> set (row_ops R A C n)"
  with assms show "chk op = Go \<and> in_bounds (length src) (length buf) op" using row_ops_bounds by simp
next
  fix o1 o2 x assume "o1 \<in> set (row_ops R A C n)" "o2 \<in> set (row_ops R A C n)" "covers o1 x" "covers o2 x"
  then show "source_of o1 x = source_of o2 x" using row_ops_cover assms(2) by metis
next
  fix b assume b: "copy_loop chk src (row_ops R A C n) buf = Cont b" "length b = length buf"
    "\<And>op x. op \<in> set (row_ops R A C n) \<Longrightarrow> covers op x \<Longrightarrow> b ! x = src ! source_of op x"
    "\<And>x. x < length buf \<Longrightarrow> \<forall>op \<in> set (row_ops R A C n). \<not> covers op x \<Longrightarrow> b ! x = buf ! x"
  have lt: "i * A + c < R * A" if "i < R" "c < A" for i c
    using that by (metis Suc_leI add.commute mult_Suc mult_le_mono1 nat_add_left_cancel_less order_less_le_trans)
  show thesis
  proof (rule that [OF b(1,2)])
    show "b ! (i * A + c) = src ! (i * C + c)" if "i < R" "c < n" for i c
      using b(3) [OF row_ops_at [OF that]] by simp
    show "b ! (i * A + c) = buf ! (i * A + c)" if "i < R" "n \<le> c" "c < A" for i c
    proof (rule b(4))
      show "i * A + c < length buf" using lt that assms(4) by (meson order_less_le_trans)
      have "(i * A + c) mod A = c" using that(3) by simp
      then show "\<forall>op \<in> set (row_ops R A C n). \<not> covers op (i * A + c)"
        using row_ops_cover assms(2) that(2) by (metis not_less)
    qed
    show "b ! x = buf ! x" if "R * A \<le> x" "x < length buf" for x
    proof (rule b(4) [OF that(2)])
      have "x < R * A" if "op \<in> set (row_ops R A C n)" "covers op x" for op
      proof -
        note c = row_ops_cover [OF that(1) assms(2) that(2)]
        then have "x div A * A + x mod A < R * A" using assms(2) by (intro lt) linarith+
        then show ?thesis by simp
      qed
      then show "\<forall>op \<in> set (row_ops R A C n). \<not> covers op x" using that(1) by (metis not_less)
    qed
  qed
qed

subsection \<open>Sizes\<close>

lemma aligned_width_pos:
  assumes "0 < col" "0 < unit" "aligned_width col unit = Some A"
  shows "col \<le> A" "A < col + unit" "unit dvd A" "A < 2 ^ 31" "0 < A" "col < 2 ^ 31"
    "cdiv col unit = Some (A div unit)"
proof -
  have sg: "(0 \<le> col + (unit - 1)) = (0 < unit)" using assms(1,2) by simp
  obtain k where k: "cdiv col unit = Some k" "A = k * unit" "in_int A"
    using assms(3) by (auto simp: aligned_width_def split: option.splits if_splits)
  then have kk: "k = (col + (unit - 1)) div unit" "in_int (col + (unit - 1))"
    using assms(1,2) sg by (auto simp: cdiv_def split: if_splits)
  have "k * unit + (col + (unit - 1)) mod unit = col + (unit - 1)"
    unfolding kk(1) by (rule div_mult_mod_eq)
  moreover have "0 \<le> (col + (unit - 1)) mod unit" "(col + (unit - 1)) mod unit < unit" using assms(2) by simp_all
  ultimately show "col \<le> A" "A < col + unit" unfolding k(2) by linarith+
  then show "0 < A" using assms(1) by linarith
  show "unit dvd A" "A < 2 ^ 31" using k by (auto simp: in_int_def)
  show "col < 2 ^ 31" using kk(2) assms(2) by (auto simp: in_int_def)
  show "cdiv col unit = Some (A div unit)" using k assms(2) by simp
qed

text \<open>
  The sizes of the source as natural numbers: \<open>R\<close> rows of \<open>C\<close> bytes in the dense and \<open>A\<close> bytes in the
  aligned layout, with everything below 2 GB.
\<close>

lemma word_rows:
  assumes "unat (n :: u32) = R * C" "0 < C" "R * C < 2 ^ 31"
  shows "n mod word_of_int (int C) = 0" "sint (n div word_of_int (int C)) = int R"
proof -
  have le: "R \<le> R * C" "R = 0 \<or> C \<le> R * C" using assms(2) by auto
  have "C < 2 ^ 32" if "R \<noteq> 0"
  proof -
    have "C \<le> R * C" using that by simp
    then have "C < 2 ^ 31" using assms(3) by (rule le_less_trans)
    then show ?thesis by simp
  qed
  then have C: "R \<noteq> 0 \<Longrightarrow> unat (of_nat C :: u32) = C" using unat_of_nat_small [where ?'a = 32, of C] by simp
  have z: "R = 0 \<Longrightarrow> n = 0" using assms(1) by (simp add: unat_eq_0)
  show "n mod word_of_int (int C) = 0"
    using z by (cases "R = 0") (simp_all add: word_unat_eq_iff unat_mod_distrib assms(1) C)
  have "unat (n div of_nat C) = R"
    using z assms(2) by (cases "R = 0") (simp_all add: unat_div_distrib assms(1) C)
  from arg_cong [OF this, of "of_nat :: nat \<Rightarrow> u32"] have "n div of_nat C = of_nat R" by simp
  moreover have "sint (of_nat R :: u32) = int R" using le_less_trans [OF le(1) assms(3)] by (intro sint_of_nat_small) simp
  ultimately show "sint (n div word_of_int (int C)) = int R" by simp
qed

lemma word_product:
  assumes "R * A < 2 ^ 32"
  shows "(word_of_int (int R) * word_of_int (int A) :: u32) = of_nat (R * A)" "unat (of_nat (R * A) :: u32) = R * A"
  using unat_of_nat_small [where ?'a = 32, of "R * A"] assms by simp_all

subsection \<open>Encode and decode\<close>

text \<open>The setting of a successful call: \<open>R\<close> rows, source buffer \<open>s\<close>, destination buffer \<open>d\<close>.\<close>

definition fits_layout :: "heap \<Rightarrow> Bytes \<Rightarrow> Bytes \<Rightarrow> nat \<Rightarrow> nat \<Rightarrow> nat \<Rightarrow> nat \<Rightarrow> nat \<Rightarrow> bool" where
  "fits_layout h input output s d R inw outw \<longleftrightarrow>
     b_data input = Some s \<and> b_data output = Some d \<and> unat (b_size input) = R * inw
     \<and> unat (b_size input) \<le> length (h s) \<and> R * outw \<le> unat (b_size output)
     \<and> unat (b_size output) \<le> length (h d) \<and> R * inw < 2 ^ 31 \<and> R * outw < 2 ^ 31"

lemma memset0_nth:
  assumes "n \<le> length dst"
  obtains b where "memset0 dst n = Some b" "length b = length dst"
    "\<And>x. x < n \<Longrightarrow> b ! x = 0" "\<And>x. n \<le> x \<Longrightarrow> x < length dst \<Longrightarrow> b ! x = dst ! x"
  using assms that [of "replicate n 0 @ drop n dst"] by (auto simp: memset0_def nth_append)

lemma index_less: "i < R \<Longrightarrow> c < n \<Longrightarrow> i * n + c < R * (n::nat)"
  by (metis Suc_leI add.commute mult_Suc mult_le_mono1 nat_add_left_cancel_less order_less_le_trans)

lemma encode_result:
  assumes "0 < col" "0 < unit" "aligned_width col unit = Some A" "fits_layout h input output s d R (nat col) (nat A)"
  obtains buf where "encode h input output col unit = Returned 0 (output\<lparr>b_size := of_nat (R * nat A)\<rparr>) (h(d := buf))"
    "length buf = length (h d)"
    "\<And>i c. i < R \<Longrightarrow> c < nat col \<Longrightarrow> buf ! (i * nat A + c) = h s ! (i * nat col + c)"
    "\<And>i c. i < R \<Longrightarrow> nat col \<le> c \<Longrightarrow> c < nat A \<Longrightarrow> buf ! (i * nat A + c) = 0"
    "\<And>x. R * nat A \<le> x \<Longrightarrow> x < length (h d) \<Longrightarrow> buf ! x = h d ! x"
proof -
  note w = aligned_width_pos [OF assms(1-3)]
  let ?C = "nat col" and ?A = "nat A"
  have L: "b_data input = Some s" "b_data output = Some d" "unat (b_size input) = R * ?C"
    "R * ?C \<le> length (h s)" "R * ?A \<le> unat (b_size output)" "unat (b_size output) \<le> length (h d)"
    "R * ?C < 2 ^ 31" "R * ?A < 2 ^ 31" using assms(4) by (auto simp: fits_layout_def)
  have c: "0 < ?C" "?C \<le> ?A" "int ?C = col" "int ?A = A" using w assms(1) by auto
  have rows: "b_size input mod word_of_int col = 0" "sint (b_size input div word_of_int col) = int R"
    using word_rows [OF L(3) c(1) L(7)] c(3) by simp_all
  have p: "R * ?A < 2 ^ 32" using L(8) by simp
  note exp = word_product(1) [OF p, unfolded c(4)] word_product(2) [OF p]
  have small: "\<not> b_size output < (of_nat (R * ?A) :: u32)"
    using L(5) exp(2) by (simp add: word_less_nat_alt not_less)
  let ?src = "if s = d then take (unat (b_size input)) (h s) else h s"
  have len: "R * ?C \<le> length ?src" using L(3,4) by auto
  have ra: "R * ?A \<le> length (h d)" using L(5,6) by (rule order_trans)
  obtain b0 where b0: "memset0 (h d) (R * ?A) = Some b0" "length b0 = length (h d)"
    "\<And>x. x < R * ?A \<Longrightarrow> b0 ! x = 0" "\<And>x. R * ?A \<le> x \<Longrightarrow> x < length (h d) \<Longrightarrow> b0 ! x = h d ! x"
    using memset0_nth [OF ra] by blast
  obtain b where b: "copy_loop (\<lambda>_. Go) ?src (row_ops R ?A ?C ?C) b0 = Cont b" "length b = length b0"
    "\<And>i c. i < R \<Longrightarrow> c < ?C \<Longrightarrow> b ! (i * ?A + c) = ?src ! (i * ?C + c)"
    "\<And>i c. i < R \<Longrightarrow> ?C \<le> c \<Longrightarrow> c < ?A \<Longrightarrow> b ! (i * ?A + c) = b0 ! (i * ?A + c)"
    "\<And>x. R * ?A \<le> x \<Longrightarrow> x < length b0 \<Longrightarrow> b ! x = b0 ! x"
    using copy_rows [where chk = "\<lambda>_. Go", OF refl c(2) order.refl ra [folded b0(2)] len] by blast
  have src: "?src ! (i * ?C + c) = h s ! (i * ?C + c)" if "i < R" "c < ?C" for i c
    using index_less [OF that] L(3) by simp
  show ?thesis
  proof (cases "s = d \<and> col = A")
    case True
    then have "encode h input output col unit = Returned 0 (output\<lparr>b_size := of_nat (R * ?A)\<rparr>) (h(d := h d))"
      using assms(1-3) L(1,2) rows exp small by (simp add: encode_def Let_def)
    then show ?thesis using that [of "h d"] True by auto
  next
    case False
    have "length (h s) < unat (b_size input) \<longleftrightarrow> False" using L(3,4) by simp
    then have "encode h input output col unit = Returned 0 (output\<lparr>b_size := of_nat (R * ?A)\<rparr>) (h(d := b))"
      using assms(1-3) L(1,2) rows exp small b0(1) b(1) False
      by (auto simp: encode_def Let_def finish_def split: if_splits)
    then show ?thesis
    proof (rule that)
      show "length b = length (h d)" using b(2) b0(2) by simp
      show "b ! (i * ?A + c) = h s ! (i * ?C + c)" if "i < R" "c < ?C" for i c using b(3) src that by simp
      show "b ! (i * ?A + c) = 0" if "i < R" "?C \<le> c" "c < ?A" for i c
        using b(4) [OF that] b0(3) index_less [OF that(1,3)] by simp
      show "b ! x = h d ! x" if "R * ?A \<le> x" "x < length (h d)" for x using b(5) b0(2,4) that by simp
    qed
  qed
qed

lemma row_ops_inside:
  assumes "op \<in> set (row_ops R A C n)" "n \<le> A" "n \<le> C"
  shows "case op of (d, s, k) \<Rightarrow> k = n \<and> d + n \<le> R * A \<and> s + n \<le> R * C"
  using row_ops_bounds [OF assms, of "R * A" "R * C"] assms(1) by (auto simp: row_ops_def)

lemma decode_result:
  assumes "0 < col" "0 < unit" "aligned_width col unit = Some A" "fits_layout h input output s d R (nat A) (nat col)" "0 < R"
  obtains buf where "decode h input output col unit = Returned 0 (output\<lparr>b_size := of_nat (R * nat col)\<rparr>) (h(d := buf))"
    "length buf = length (h d)"
    "\<And>i c. i < R \<Longrightarrow> c < nat col \<Longrightarrow> buf ! (i * nat col + c) = h s ! (i * nat A + c)"
    "\<And>x. R * nat col \<le> x \<Longrightarrow> x < length (h d) \<Longrightarrow> buf ! x = h d ! x"
proof -
  note w = aligned_width_pos [OF assms(1-3)]
  let ?C = "nat col" and ?A = "nat A"
  have L: "b_data input = Some s" "b_data output = Some d" "unat (b_size input) = R * ?A"
    "R * ?A \<le> length (h s)" "R * ?C \<le> unat (b_size output)" "unat (b_size output) \<le> length (h d)"
    "R * ?A < 2 ^ 31" "R * ?C < 2 ^ 31" using assms(4) by (auto simp: fits_layout_def)
  have c: "0 < ?A" "0 < ?C" "?C \<le> ?A" "int ?C = col" "int ?A = A" using w assms(1) by auto
  have rows: "b_size input mod word_of_int A = 0" "sint (b_size input div word_of_int A) = int R"
    using word_rows [OF L(3) c(1) L(7)] c(5) by simp_all
  have p: "R * ?C < 2 ^ 32" using L(8) by simp
  note exp = word_product(1) [OF p, unfolded c(4)] word_product(2) [OF p]
  have small: "\<not> b_size output < (of_nat (R * ?C) :: u32)"
    using L(5) exp(2) by (simp add: word_less_nat_alt not_less)
  have nz: "b_size input \<noteq> 0" using L(3) assms(5) c(1) by auto
  let ?ops = "row_ops R ?C ?A ?C"
  define out where "out = (\<lambda>(d, s, n). unat (of_nat (R * ?C) :: u32) < d + n \<or> unat (b_size input) < s + n)"
  define chk where "chk = (if s = d then (\<lambda>(d, s, n). if out (d, s, n) then Stop
      else if \<not> in_int (int d) \<or> \<not> in_int (int s) then Bad else Go) else (\<lambda>op. if out op then Stop else Go))"
  have go: "chk op = Go" if "op \<in> set ?ops" for op
    using row_ops_inside [OF that order.refl c(3)] L(3,7,8) exp(2)
    by (cases op) (auto simp: chk_def out_def in_int_def)
  let ?src = "if s = d then take (unat (b_size input)) (h s) else h s"
  have len: "R * ?A \<le> length ?src" using L(3,4) by auto
  have rc: "R * ?C \<le> length (h d)" using L(5,6) by (rule order_trans)
  obtain b where b: "copy_loop chk ?src ?ops (h d) = Cont b" "length b = length (h d)"
    "\<And>i c. i < R \<Longrightarrow> c < ?C \<Longrightarrow> b ! (i * ?C + c) = ?src ! (i * ?A + c)"
    "\<And>i c. i < R \<Longrightarrow> ?C \<le> c \<Longrightarrow> c < ?C \<Longrightarrow> b ! (i * ?C + c) = h d ! (i * ?C + c)"
    "\<And>x. R * ?C \<le> x \<Longrightarrow> x < length (h d) \<Longrightarrow> b ! x = h d ! x"
    by (rule copy_rows [where chk = chk, OF go order.refl c(3) rc len]) blast+
  have src: "?src ! (i * ?A + c) = h s ! (i * ?A + c)" if "i < R" "c < ?C" for i c
    using index_less [of i R c ?A] that c(3) L(3) by simp
  show ?thesis
  proof (cases "s = d \<and> col = A")
    case True
    then have "decode h input output col unit = Returned 0 (output\<lparr>b_size := of_nat (R * ?C)\<rparr>) (h(d := h d))"
      using assms(1-3) L(1,2) rows exp small nz w(5) by (simp add: decode_def Let_def)
    then show ?thesis using that [of "h d"] True by auto
  next
    case False
    have "length (h s) < unat (b_size input) \<longleftrightarrow> False" using L(3,4) by simp
    then have "decode h input output col unit = Returned 0 (output\<lparr>b_size := of_nat (R * ?C)\<rparr>) (h(d := b))"
      using assms(1-3) L(1,2) rows exp small b(1) False nz w(5)
      by (auto simp: decode_def Let_def finish_def chk_def out_def split: if_splits)
    then show ?thesis
    proof (rule that)
      show "length b = length (h d)" using b(2) .
      show "b ! (i * ?C + c) = h s ! (i * ?A + c)" if "i < R" "c < ?C" for i c using b(3) src that by simp
      show "b ! x = h d ! x" if "R * ?C \<le> x" "x < length (h d)" for x using b(5) that by simp
    qed
  qed
qed

lemma encode_layout:
  assumes "0 < col" "0 < unit" "aligned_width col unit = Some A" "fits_layout h input output s d R (nat col) (nat A)"
  shows "\<exists>buf. encode h input output col unit = Returned 0 (output\<lparr>b_size := of_nat (R * nat A)\<rparr>) (h(d := buf))
    \<and> length buf = length (h d)
    \<and> (\<forall>i < R. \<forall>c < nat A. buf ! (i * nat A + c) = (if c < nat col then h s ! (i * nat col + c) else 0))
    \<and> (\<forall>x < length (h d). R * nat A \<le> x \<longrightarrow> buf ! x = h d ! x)"
proof -
  obtain buf where "encode h input output col unit = Returned 0 (output\<lparr>b_size := of_nat (R * nat A)\<rparr>) (h(d := buf))"
    "length buf = length (h d)"
    "\<And>i c. i < R \<Longrightarrow> c < nat col \<Longrightarrow> buf ! (i * nat A + c) = h s ! (i * nat col + c)"
    "\<And>i c. i < R \<Longrightarrow> nat col \<le> c \<Longrightarrow> c < nat A \<Longrightarrow> buf ! (i * nat A + c) = 0"
    "\<And>x. R * nat A \<le> x \<Longrightarrow> x < length (h d) \<Longrightarrow> buf ! x = h d ! x"
    using encode_result [OF assms] by blast
  then show ?thesis by (intro exI [of _ buf]) auto
qed

lemma decode_layout:
  assumes "0 < col" "0 < unit" "aligned_width col unit = Some A" "fits_layout h input output s d R (nat A) (nat col)" "0 < R"
  shows "\<exists>buf. decode h input output col unit = Returned 0 (output\<lparr>b_size := of_nat (R * nat col)\<rparr>) (h(d := buf))
    \<and> length buf = length (h d)
    \<and> (\<forall>i < R. \<forall>c < nat col. buf ! (i * nat col + c) = h s ! (i * nat A + c))
    \<and> (\<forall>x < length (h d). R * nat col \<le> x \<longrightarrow> buf ! x = h d ! x)"
proof -
  obtain buf where "decode h input output col unit = Returned 0 (output\<lparr>b_size := of_nat (R * nat col)\<rparr>) (h(d := buf))"
    "length buf = length (h d)"
    "\<And>i c. i < R \<Longrightarrow> c < nat col \<Longrightarrow> buf ! (i * nat col + c) = h s ! (i * nat A + c)"
    "\<And>x. R * nat col \<le> x \<Longrightarrow> x < length (h d) \<Longrightarrow> buf ! x = h d ! x"
    using decode_result [OF assms] by blast
  then show ?thesis by (intro exI [of _ buf]) auto
qed

subsection \<open>Groups of columns\<close>

lemma group_ops_mem:
  "op \<in> set (group_ops G R C u) \<longleftrightarrow>
     (\<exists>g i. g < G \<and> i < R \<and> 0 < min (C - g * u) u \<and> op = (g * R * u + i * u, i * C + g * u, min (C - g * u) u))"
  unfolding group_ops_def by (auto; force)

lemma group_ops_cover:
  assumes "op \<in> set (group_ops G R C u)" "covers op x"
  shows "source_of op x = x div u mod R * C + x div u div R * u + x mod u"
    "x div u div R < G" "x div u div R * u + x mod u < C" "0 < R"
proof -
  from assms(1) obtain g i where g: "g < G" "i < R" "op = (g * R * u + i * u, i * C + g * u, min (C - g * u) u)"
    using group_ops_mem by auto
  with assms(2) obtain c where c: "x = (g * R + i) * u + c" "c < min (C - g * u) u"
    by (auto simp: le_iff_add algebra_simps)
  then have q: "x div u = g * R + i" "x mod u = c" by (auto simp: min_def split: if_splits)
  then have r: "x div u div R = g" "x div u mod R = i" using g(2) by simp_all
  have "source_of op x = i * C + g * u + c" using g(3) c(1) by (simp add: add_mult_distrib)
  then show "source_of op x = x div u mod R * C + x div u div R * u + x mod u" unfolding r q(2) .
  show "x div u div R < G" "x div u div R * u + x mod u < C" "0 < R" using g c q r by auto
qed

lemma group_ops_bounds:
  assumes "op \<in> set (group_ops G R C u)"
  shows "in_bounds (R * C) (R * (G * u)) op"
proof -
  from assms obtain g i where g: "g < G" "i < R" "0 < C - g * u" "op = (g * R * u + i * u, i * C + g * u, min (C - g * u) u)"
    using group_ops_mem by auto
  have "i * C + C \<le> R * C" using g(2) by (metis Suc_leI add.commute mult_Suc mult_le_mono1)
  moreover have "(g * R + i) * u + u \<le> G * R * u"
  proof -
    have "g * R + i < G * R" using index_less [OF g(1,2)] .
    then show ?thesis by (metis Suc_leI add.commute mult_Suc mult_le_mono1)
  qed
  moreover define m where "m = min (C - g * u) u"
  moreover have "m \<le> u" "g * u + m \<le> C" using g(3) by (auto simp: m_def)
  ultimately have "i * C + g * u + m \<le> R * C" "g * R * u + i * u + m \<le> R * (G * u)"
    by (simp_all add: algebra_simps)
  then show ?thesis using g(4) by (simp add: m_def)
qed

lemma group_ops_at:
  assumes "g < G" "i < R" "c < u" "g * u + c < C"
  shows "\<exists>op \<in> set (group_ops G R C u). covers op ((g * R + i) * u + c) \<and> source_of op ((g * R + i) * u + c) = i * C + g * u + c"
proof -
  let ?op = "(g * R * u + i * u, i * C + g * u, min (C - g * u) u)"
  have "?op \<in> set (group_ops G R C u)" using assms group_ops_mem by auto
  moreover have "covers ?op ((g * R + i) * u + c)" "source_of ?op ((g * R + i) * u + c) = i * C + g * u + c"
    using assms by (auto simp: algebra_simps)
  ultimately show ?thesis by blast
qed

text \<open>
  The result of \<open>encode_formatted\<close>. When input and output share the buffer, the source of the copies
  is the buffer after \<open>memset\<close>.
\<close>

lemma encode_formatted_layout:
  assumes "0 < channel" "0 < unit" "aligned_width channel unit = Some A" "0 < R"
    and "fits_layout h input output s d R (nat channel) (nat A)"
  shows "\<exists>buf. encode_formatted h input output channel unit
        = Returned 0 (output\<lparr>b_size := of_nat (R * nat A)\<rparr>) (h(d := buf))
    \<and> length buf = length (h d)
    \<and> (\<forall>g i c. g < nat (A div unit) \<longrightarrow> i < R \<longrightarrow> c < nat unit \<longrightarrow>
         buf ! ((g * R + i) * nat unit + c)
           = (if s \<noteq> d \<and> g * nat unit + c < nat channel then h s ! (i * nat channel + g * nat unit + c) else 0))"
proof -
  note w = aligned_width_pos [OF assms(1-3)]
  let ?C = "nat channel" and ?A = "nat A" and ?u = "nat unit" and ?G = "nat (A div unit)"
  have L: "b_data input = Some s" "b_data output = Some d" "unat (b_size input) = R * ?C"
    "R * ?C \<le> length (h s)" "R * ?A \<le> unat (b_size output)" "unat (b_size output) \<le> length (h d)"
    "R * ?C < 2 ^ 31" "R * ?A < 2 ^ 31" using assms(5) by (auto simp: fits_layout_def)
  have c: "0 < ?C" "?C \<le> ?A" "int ?C = channel" "int ?A = A" using w assms(1) by auto
  have "A div unit * unit = A" using w(3) by simp
  then have GA: "?G * ?u = ?A" using w(5) assms(2) by (metis nat_mult_distrib pos_imp_zdiv_nonneg_iff less_imp_le)
  have rows: "b_size input mod word_of_int channel = 0" "sint (b_size input div word_of_int channel) = int R"
    using word_rows [OF L(3) c(1) L(7)] c(3) by simp_all
  have p: "R * ?A < 2 ^ 32" using L(8) by simp
  note exp = word_product(1) [OF p, unfolded c(4)] word_product(2) [OF p]
  have nz: "b_size input \<noteq> 0" using L(3) assms(4) c(1) by auto
  have ra: "R * ?A \<le> length (h d)" using L(5,6) by (rule order_trans)
  obtain b0 where b0: "memset0 (h d) (R * ?A) = Some b0" "length b0 = length (h d)" "\<And>x. x < R * ?A \<Longrightarrow> b0 ! x = 0"
    using memset0_nth [OF ra] by metis
  define src where "src = (if s = d then take (unat (b_size input)) b0 else h s)"
  have RC: "R * ?C \<le> R * ?A" using c(2) by simp
  have len: "R * ?C \<le> length src" using L(3,4) RC ra b0(2) by (auto simp: src_def)
  let ?ops = "group_ops ?G R ?C ?u"
  define chk where "chk = (\<lambda>(d, s, n). if unat (b_size input) < s + n \<or> unat (of_nat (R * ?A) :: u32) < d + n then Stop else Go)"
  have bnd: "chk op = Go \<and> in_bounds (length src) (length b0) op" if "op \<in> set ?ops" for op
    using group_ops_bounds [OF that] len ra L(3) exp(2) b0(2) unfolding GA
    by (cases op) (auto simp: chk_def)
  have con: "source_of o1 x = source_of o2 x" if "o1 \<in> set ?ops" "o2 \<in> set ?ops" "covers o1 x" "covers o2 x" for o1 o2 x
    using group_ops_cover(1) [OF that(1,3)] group_ops_cover(1) [OF that(2,4)] by simp
  obtain b where b: "copy_loop chk src ?ops b0 = Cont b" "length b = length b0"
    "\<And>op x. op \<in> set ?ops \<Longrightarrow> covers op x \<Longrightarrow> b ! x = src ! source_of op x"
    "\<And>x. x < length b0 \<Longrightarrow> \<forall>op \<in> set ?ops. \<not> covers op x \<Longrightarrow> b ! x = b0 ! x"
    by (rule copy_loop_spec [OF bnd con]) blast+
  have res: "encode_formatted h input output channel unit = Returned 0 (output\<lparr>b_size := of_nat (R * ?A)\<rparr>) (h(d := b))"
    using assms(1-3) L(1,2,3) rows exp nz w(7) b0(1,2) b(1) order_trans [OF RC ra]
    by (auto simp: encode_formatted_def Let_def finish_def src_def chk_def)
  have val: "b ! ((g * R + i) * ?u + c) = (if s \<noteq> d \<and> g * ?u + c < ?C then h s ! (i * ?C + g * ?u + c) else 0)"
    if gic: "g < ?G" "i < R" "c < ?u" for g i c
  proof -
    let ?x = "(g * R + i) * ?u + c"
    have x: "?x < R * ?A"
      using index_less [OF index_less [OF gic(1,2)] gic(3)] by (simp add: GA [symmetric] algebra_simps)
    have idx: "?x div ?u = g * R + i" "?x mod ?u = c" using gic(3) by auto
    have gi: "(g * R + i) div R = g" using gic(2) by simp
    show ?thesis
    proof (cases "g * ?u + c < ?C")
      case True
      from group_ops_at [OF gic True] obtain op where op: "op \<in> set ?ops" "covers op ?x" "source_of op ?x = i * ?C + g * ?u + c"
        by blast
      have "i * ?C + (g * ?u + c) < R * ?C" using index_less [OF gic(2) True] .
      then have y: "i * ?C + g * ?u + c < R * ?C" by simp
      have "b ! ?x = src ! (i * ?C + g * ?u + c)" using b(3) [OF op(1,2)] op(3) by simp
      then show ?thesis using True y b0(3) [OF less_le_trans [OF y RC]] L(3) by (auto simp: src_def)
    next
      case False
      have "\<not> covers op ?x" if "op \<in> set ?ops" for op
        using group_ops_cover(3) [OF that, of ?x] False idx gi by auto
      then have "b ! ?x = b0 ! ?x" using b(4) x ra b0(2) by simp
      then show ?thesis using False b0(3) x by simp
    qed
  qed
  show ?thesis using res b(2) b0(2) val by (intro exI [of _ b]) simp
qed

text \<open>A copy loop without internal check is undefined as soon as one copy leaves its buffers.\<close>

lemma copy_loop_out_of_bounds:
  "op \<in> set ops \<Longrightarrow> \<not> in_bounds (length src) (length buf) op \<Longrightarrow> copy_loop (\<lambda>_. Go) src ops buf = Ub"
proof (induction ops arbitrary: buf)
  case (Cons o1 ops)
  obtain d s n where o1: "o1 = (d, s, n)" by (cases o1)
  show ?case
  proof (cases "in_bounds (length src) (length buf) o1")
    case True
    then obtain b where b: "memcpy_at buf d src s n = Some b" "length b = length buf"
      using memcpy_at_nth [of s n src d buf] by (auto simp: o1)
    have "op \<in> set ops" using Cons.prems True by auto
    then have "copy_loop (\<lambda>_. Go) src ops b = Ub" using Cons b(2) by simp
    then show ?thesis using b(1) by (simp add: o1)
  next
    case False
    then have "memcpy_at buf d src s n = None" by (auto simp: o1 memcpy_at_def)
    then show ?thesis by (simp add: o1)
  qed
qed simp

subsection \<open>Transposition\<close>

lemma transpose_ops_mem:
  "op \<in> set (transpose_ops R C es) \<longleftrightarrow> (\<exists>i j. i < R \<and> j < C \<and> op = ((j * R + i) * es, (i * C + j) * es, es))"
  unfolding transpose_ops_def by (auto; force)

lemma transpose_ops_cover:
  assumes "op \<in> set (transpose_ops R C es)" "covers op x"
  shows "source_of op x = (x div es mod R * C + x div es div R) * es + x mod es"
proof -
  from assms(1) obtain i j where ij: "i < R" "j < C" "op = ((j * R + i) * es, (i * C + j) * es, es)"
    using transpose_ops_mem by blast
  with assms(2) obtain b where b: "x = (j * R + i) * es + b" "b < es" by (auto simp: le_iff_add)
  then have q: "x div es = j * R + i" "x mod es = b" by auto
  then have r: "x div es div R = j" "x div es mod R = i" using ij(1) by simp_all
  have "source_of op x = (i * C + j) * es + b" using ij(3) b(1) by simp
  then show ?thesis unfolding r q(2) .
qed

lemma transpose_ops_bounds: "op \<in> set (transpose_ops R C es) \<Longrightarrow> in_bounds (R * C * es) (R * C * es) op"
proof -
  assume "op \<in> set (transpose_ops R C es)"
  then obtain i j where ij: "i < R" "j < C" "op = ((j * R + i) * es, (i * C + j) * es, es)"
    using transpose_ops_mem by blast
  have "Suc (j * R + i) \<le> C * R" "Suc (i * C + j) \<le> R * C" using index_less ij(1,2) by (simp_all add: Suc_le_eq)
  then have "Suc (j * R + i) * es \<le> C * R * es" "Suc (i * C + j) * es \<le> R * C * es" by (simp_all del: mult_Suc)
  then show ?thesis using ij(3) by (simp add: mult.commute add.commute)
qed

text \<open>The copies of a transposition: byte \<open>b\<close> of element \<open>(j, i)\<close> of the result is byte \<open>b\<close> of element \<open>(i, j)\<close>.\<close>

lemma transpose_copies:
  assumes "R * C * es \<le> length src" "R * C * es \<le> length buf" "\<And>op. op \<in> set (transpose_ops R C es) \<Longrightarrow> chk op = Go"
  shows "\<exists>b. copy_loop chk src (transpose_ops R C es) buf = Cont b \<and> length b = length buf
    \<and> (\<forall>i < R. \<forall>j < C. \<forall>k < es. b ! ((j * R + i) * es + k) = src ! ((i * C + j) * es + k))"
proof -
  have bnd: "chk op = Go \<and> in_bounds (length src) (length buf) op" if "op \<in> set (transpose_ops R C es)" for op
    using transpose_ops_bounds [OF that] assms(1,2) assms(3) [OF that] by (cases op) auto
  have con: "source_of o1 x = source_of o2 x"
    if "o1 \<in> set (transpose_ops R C es)" "o2 \<in> set (transpose_ops R C es)" "covers o1 x" "covers o2 x" for o1 o2 x
    using transpose_ops_cover that by simp
  obtain b where b: "copy_loop chk src (transpose_ops R C es) buf = Cont b" "length b = length buf"
    "\<And>op x. op \<in> set (transpose_ops R C es) \<Longrightarrow> covers op x \<Longrightarrow> b ! x = src ! source_of op x"
    by (rule copy_loop_spec [OF bnd con]) blast+
  have "b ! ((j * R + i) * es + k) = src ! ((i * C + j) * es + k)" if "i < R" "j < C" "k < es" for i j k
    using b(3) [of "((j * R + i) * es, (i * C + j) * es, es)" "(j * R + i) * es + k"] that transpose_ops_mem by auto
  with b(1,2) show ?thesis by (intro exI [of _ b]) simp
qed

lemma transpose_out_of_place:
  assumes "s \<noteq> d" "0 < R" "0 < C" "0 < es" "R * C * es \<le> length (h s)" "R * C * es \<le> length (h d)"
  shows "\<exists>buf. bidirectional_transpose None h (Some s) (Some d) (int R) (int C) es = Some (h(d := buf))
    \<and> length buf = length (h d)
    \<and> (\<forall>i < R. \<forall>j < C. \<forall>k < es. buf ! ((j * R + i) * es + k) = h s ! ((i * C + j) * es + k))"
  using transpose_copies [OF assms(5,6), of "\<lambda>_. Go"] assms(1-4)
  by (auto simp: bidirectional_transpose_def)

lemma element_index:
  assumes "x < R * C * es" "0 < (es::nat)"
  obtains i j k where "i < R" "j < C" "k < es" "x = (i * C + j) * es + k"
proof -
  have a: "x div es < R * C" using assms by (simp add: less_mult_imp_div_less)
  then have "0 < C" by (cases C) auto
  then have "x div es div C < R" "x div es mod C < C" using a by (simp_all add: less_mult_imp_div_less)
  then show ?thesis using that [of "x div es div C" "x div es mod C" "x mod es"] assms(2) by simp
qed

subsection \<open>Properties\<close>

definition demo_heap :: heap where
  "demo_heap = (\<lambda>_. replicate 12 9)(0 := [1, 2, 3, 4, 5, 6, 7, 7])"

definition demo_in :: Bytes where "demo_in = \<lparr>b_size = 6, b_data = Some 0\<rparr>"
definition demo_out :: Bytes where "demo_out = \<lparr>b_size = 8, b_data = Some 1\<rparr>"

lemma demo_layout: "aligned_width 3 4 = Some 4" "fits_layout demo_heap demo_in demo_out 0 1 2 3 4"
  by (simp_all add: aligned_width_def cdiv_def in_int_def fits_layout_def demo_heap_def demo_in_def demo_out_def)

text \<open>
  Claim C6. Round trip: encoding a dense tensor and decoding the result, into any buffer that is large
  enough, returns 0 and gives back the size and every byte of the tensor.
\<close>
theorem encode_decode_roundtrip:
  assumes "0 < col" "0 < unit" "aligned_width col unit = Some A" "0 < R"
    and "fits_layout h input enc s d R (nat col) (nat A)" "encode h input enc col unit = Returned r enc' h1"
    and "b_data dec = Some t" "unat (b_size input) \<le> unat (b_size dec)" "unat (b_size dec) \<le> length (h1 t)"
  shows "\<exists>h2. decode h1 enc' dec col unit = Returned 0 (dec\<lparr>b_size := b_size input\<rparr>) h2
    \<and> take (unat (b_size input)) (h2 t) = take (unat (b_size input)) (h s)"
proof -
  let ?C = "nat col" and ?A = "nat A"
  have L: "b_data enc = Some d" "unat (b_size input) = R * ?C" "R * ?C \<le> length (h s)"
    "R * ?A \<le> unat (b_size enc)" "unat (b_size enc) \<le> length (h d)" "R * ?C < 2 ^ 31" "R * ?A < 2 ^ 31"
    using assms(5) by (auto simp: fits_layout_def)
  obtain buf where e: "encode h input enc col unit = Returned 0 (enc\<lparr>b_size := of_nat (R * ?A)\<rparr>) (h(d := buf))"
    "length buf = length (h d)"
    "\<forall>i < R. \<forall>c < ?A. buf ! (i * ?A + c) = (if c < ?C then h s ! (i * ?C + c) else 0)"
    using encode_layout [OF assms(1-3,5)] by blast
  have h1: "enc' = enc\<lparr>b_size := of_nat (R * ?A)\<rparr>" "h1 = h(d := buf)" using e(1) assms(6) by auto
  have sz: "unat (b_size enc') = R * ?A" using L(7) h1(1) unat_of_nat_small [where ?'a = 32, of "R * ?A"] by simp
  have "b_data enc' = Some d" "R * ?A \<le> length (h1 d)" using L h1 e(2) by auto
  then have fit: "fits_layout h1 enc' dec d t R ?A ?C"
    using L sz assms(7-9) by (simp add: fits_layout_def)
  obtain buf2 where d: "decode h1 enc' dec col unit = Returned 0 (dec\<lparr>b_size := of_nat (R * ?C)\<rparr>) (h1(t := buf2))"
    "length buf2 = length (h1 t)" "\<forall>i < R. \<forall>c < ?C. buf2 ! (i * ?C + c) = h1 d ! (i * ?A + c)"
    using decode_layout [OF assms(1-3) fit assms(4)] by blast
  have "b_size input = of_nat (R * ?C)" using arg_cong [OF L(2), of "of_nat :: nat \<Rightarrow> u32"] by simp
  then have "decode h1 enc' dec col unit = Returned 0 (dec\<lparr>b_size := b_size input\<rparr>) (h1(t := buf2))" using d(1) by simp
  moreover have "take (R * ?C) buf2 = take (R * ?C) (h s)"
  proof (rule nth_equalityI)
    show "length (take (R * ?C) buf2) = length (take (R * ?C) (h s))" using d(2) L(2,3) assms(8,9) by simp
    fix x assume x: "x < length (take (R * ?C) buf2)"
    then have "x < R * ?C" by simp
    then have i: "x div ?C < R" "x mod ?C < ?C" "x div ?C * ?C + x mod ?C = x"
      using assms(1) by (simp_all add: less_mult_imp_div_less)
    have "x mod ?C < ?A" using i(2) aligned_width_pos(1) [OF assms(1-3)] by linarith
    have "buf2 ! x = h1 d ! (x div ?C * ?A + x mod ?C)" using d(3) i by metis
    also have "\<dots> = h s ! x" using e(3) i \<open>x mod ?C < ?A\<close> h1(2) by simp
    finally show "take (R * ?C) buf2 ! x = take (R * ?C) (h s) ! x" using \<open>x < R * ?C\<close> by simp
  qed
  ultimately show ?thesis using L(2) by (intro exI [of _ "h1(t := buf2)"]) simp
qed

theorem encode_decode_roundtrip_witness:
  "\<exists>h1 h2. encode demo_heap demo_in demo_out 3 4 = Returned 0 (demo_out\<lparr>b_size := 8\<rparr>) h1
     \<and> decode h1 (demo_out\<lparr>b_size := 8\<rparr>) \<lparr>b_size = 6, b_data = Some 2\<rparr> 3 4 = Returned 0 \<lparr>b_size = 6, b_data = Some 2\<rparr> h2
     \<and> take 6 (h2 2) = [1, 2, 3, 4, 5, 6]"
proof -
  have f: "fits_layout demo_heap demo_in demo_out 0 1 2 (nat 3) (nat 4)" using demo_layout(2) by simp
  obtain buf where e: "encode demo_heap demo_in demo_out 3 4 = Returned 0 (demo_out\<lparr>b_size := 8\<rparr>) (demo_heap(1 := buf))"
    using encode_layout [OF _ _ demo_layout(1) f] by auto
  have i: "b_size demo_in = 6" "take 6 (demo_heap 0) = [1, 2, 3, 4, 5, 6]" "length ((demo_heap(1 := buf)) 2) = 12"
    by (simp_all add: demo_in_def demo_heap_def)
  from encode_decode_roundtrip [OF _ _ demo_layout(1) _ f e, of "\<lparr>b_size = 6, b_data = Some 2\<rparr>" 2] e i
  show ?thesis by auto
qed

text \<open>
  \<open>encode_formatted\<close> into another buffer stores the columns in groups of \<open>unit\<close>: byte \<open>c\<close> of row
  \<open>i\<close> in group \<open>g\<close> is column \<open>g * unit + c\<close> of input row \<open>i\<close>, or 0 where the group is wider than what
  is left of the columns. The call returns 0 and the internal bounds check never fires.
\<close>
theorem encode_formatted_groups:
  assumes "0 < channel" "0 < unit" "aligned_width channel unit = Some A" "0 < R"
    and "fits_layout h input output s d R (nat channel) (nat A)" "s \<noteq> d"
  shows "\<exists>buf. encode_formatted h input output channel unit
        = Returned 0 (output\<lparr>b_size := of_nat (R * nat A)\<rparr>) (h(d := buf))
    \<and> (\<forall>g i c. g < nat (A div unit) \<longrightarrow> i < R \<longrightarrow> c < nat unit \<longrightarrow>
         buf ! ((g * R + i) * nat unit + c)
           = (if g * nat unit + c < nat channel then h s ! (i * nat channel + g * nat unit + c) else 0))"
  using encode_formatted_layout [OF assms(1-5)] assms(6) by (elim exE, intro exI) auto

theorem encode_formatted_groups_witness:
  "\<exists>buf. encode_formatted demo_heap demo_in demo_out 3 4 = Returned 0 (demo_out\<lparr>b_size := 8\<rparr>) (demo_heap(1 := buf))
     \<and> buf ! 4 = 4 \<and> buf ! 7 = 0"
proof -
  have f: "fits_layout demo_heap demo_in demo_out 0 1 2 (nat 3) (nat 4)" using demo_layout(2) by simp
  obtain buf where b: "encode_formatted demo_heap demo_in demo_out 3 4 = Returned 0 (demo_out\<lparr>b_size := 8\<rparr>) (demo_heap(1 := buf))"
    "\<forall>g i c. g < 1 \<longrightarrow> i < 2 \<longrightarrow> c < 4 \<longrightarrow>
         buf ! ((g * 2 + i) * 4 + c) = (if g * 4 + c < 3 then demo_heap 0 ! (i * 3 + g * 4 + c) else 0)"
    using encode_formatted_groups [OF _ _ demo_layout(1) _ f] by auto
  have "demo_heap 0 ! 3 = 4" by (simp add: demo_heap_def)
  with b(2) [rule_format, of 0 1 0] b(2) [rule_format, of 0 1 3] b(1) show ?thesis by auto
qed

text \<open>
  \<open>encode_formatted\<close> in place destroys its input: it clears the output buffer before it copies
  the input to the temporary buffer, so when both are the same buffer the result is all zero, whatever
  the tensor was (\<open>encode\<close> copies first and keeps the data).
\<close>
theorem encode_formatted_in_place_zeroes:
  assumes "0 < channel" "0 < unit" "aligned_width channel unit = Some A" "0 < R"
    and "fits_layout h input output s s R (nat channel) (nat A)"
  shows "\<exists>buf. encode_formatted h input output channel unit
        = Returned 0 (output\<lparr>b_size := of_nat (R * nat A)\<rparr>) (h(s := buf))
    \<and> (\<forall>g i c. g < nat (A div unit) \<longrightarrow> i < R \<longrightarrow> c < nat unit \<longrightarrow> buf ! ((g * R + i) * nat unit + c) = 0)"
  using encode_formatted_layout [OF assms] by (elim exE, intro exI) auto

theorem encode_formatted_in_place_zeroes_witness:
  "\<exists>buf. encode_formatted demo_heap demo_in \<lparr>b_size = 8, b_data = Some 0\<rparr> 3 4
       = Returned 0 \<lparr>b_size = 8, b_data = Some 0\<rparr> (demo_heap(0 := buf)) \<and> demo_heap 0 ! 0 = 1 \<and> buf ! 0 = 0"
proof -
  have f: "fits_layout demo_heap demo_in \<lparr>b_size = 8, b_data = Some 0\<rparr> 0 0 2 (nat 3) (nat 4)"
    by (simp add: fits_layout_def demo_heap_def demo_in_def)
  obtain buf where b: "encode_formatted demo_heap demo_in \<lparr>b_size = 8, b_data = Some 0\<rparr> 3 4
       = Returned 0 \<lparr>b_size = 8, b_data = Some 0\<rparr> (demo_heap(0 := buf))"
    "\<forall>g i c. g < 1 \<longrightarrow> i < 2 \<longrightarrow> c < 4 \<longrightarrow> buf ! ((g * 2 + i) * 4 + c) = 0"
    using encode_formatted_in_place_zeroes [OF _ _ demo_layout(1) _ f] by auto
  with b(2) [rule_format, of 0 0 0] show ?thesis by (auto simp: demo_heap_def)
qed

text \<open>
  The size check of \<open>encode\<close> is computed in 32 bits: 64 MB of one-byte rows aligned to 64 bytes
  need 4 GB, the product wraps to 0, every output buffer passes the check, and the copies run past
  the end of any buffer smaller than that (undefined behaviour instead of the error return).
\<close>
theorem encode_size_check_wraps:
  assumes "b_data input = Some s" "b_size input = 2 ^ 26" "length (h s) = 2 ^ 26" "b_data output = Some d" "s \<noteq> d"
    and "length (h d) < 2 ^ 32 - 63"
  shows "encode h input output 1 64 = Undefined"
proof -
  have w: "aligned_width 1 64 = Some 64" by (simp add: aligned_width_def cdiv_def in_int_def)
  have row: "sint (b_size input div word_of_int 1) = 67108864" by (simp add: assms(2))
  let ?ops = "row_ops 67108864 64 1 1"
  have mem: "(67108863 * 64, 67108863 * 1, 1) \<in> set ?ops" by (rule row_ops_at(1) [of _ _ 0]) simp_all
  have "\<not> 67108863 * 64 + 1 \<le> length (h d)" using assms(6) by simp
  then have "\<not> in_bounds (length (h s)) (length (h d)) (67108863 * 64, 67108863 * 1, 1)"
    unfolding in_bounds.simps by blast
  from copy_loop_out_of_bounds [OF mem this] have ub: "copy_loop (\<lambda>_. Go) (h s) ?ops (h d) = Ub" .
  have z: "(4294967296 :: u32) = 0" by transfer simp
  have "memset0 (h d) 0 = Some (h d)" by (simp add: memset0_def)
  then show ?thesis
    using assms(1,4,5) w row ub by (simp add: encode_def Let_def finish_def z)
qed

text \<open>
  Transposition is an involution: transposing a \<open>R\<close> by \<open>C\<close> matrix of elements of any size into a
  second buffer puts element \<open>(i, j)\<close> at position \<open>(j, i)\<close>, stays in bounds, and transposing the \<open>C\<close> by \<open>R\<close>
  result into a third buffer gives back every byte of the matrix.
\<close>
theorem transpose_involution:
  assumes "distinct [s, d, t]" "0 < R" "0 < C" "0 < es"
    and "R * C * es \<le> length (h s)" "R * C * es \<le> length (h d)" "R * C * es \<le> length (h t)"
  shows "\<exists>h1 h2. bidirectional_transpose None h (Some s) (Some d) (int R) (int C) es = Some h1
    \<and> (\<forall>i < R. \<forall>j < C. \<forall>k < es. h1 d ! ((j * R + i) * es + k) = h s ! ((i * C + j) * es + k))
    \<and> bidirectional_transpose None h1 (Some d) (Some t) (int C) (int R) es = Some h2
    \<and> take (R * C * es) (h2 t) = take (R * C * es) (h s)"
proof -
  have st: "s \<noteq> d" "d \<noteq> t" using assms(1) by auto
  obtain b1 where b1: "bidirectional_transpose None h (Some s) (Some d) (int R) (int C) es = Some (h(d := b1))"
    "length b1 = length (h d)" "\<forall>i < R. \<forall>j < C. \<forall>k < es. b1 ! ((j * R + i) * es + k) = h s ! ((i * C + j) * es + k)"
    using transpose_out_of_place [OF st(1) assms(2-6)] by blast
  let ?h1 = "h(d := b1)"
  have len: "C * R * es \<le> length (?h1 d)" "C * R * es \<le> length (?h1 t)"
    using b1(2) assms(6,7) st by (simp_all add: mult.commute [of C R])
  obtain b2 where b2: "bidirectional_transpose None ?h1 (Some d) (Some t) (int C) (int R) es = Some (?h1(t := b2))"
    "length b2 = length (?h1 t)" "\<forall>j < C. \<forall>i < R. \<forall>k < es. b2 ! ((i * C + j) * es + k) = ?h1 d ! ((j * R + i) * es + k)"
    using transpose_out_of_place [OF st(2) assms(3,2,4) len] by blast
  have "take (R * C * es) b2 = take (R * C * es) (h s)"
  proof (rule nth_equalityI)
    show "length (take (R * C * es) b2) = length (take (R * C * es) (h s))" using b2(2) st assms(5,7) by simp
    fix x assume "x < length (take (R * C * es) b2)"
    then have x: "x < R * C * es" by simp
    then obtain i j k where "i < R" "j < C" "k < es" "x = (i * C + j) * es + k" using element_index assms(4) by blast
    then show "take (R * C * es) b2 ! x = take (R * C * es) (h s) ! x" using b1(3) b2(3) x by simp
  qed
  then show ?thesis using b1 b2(1) by (intro exI [of _ ?h1] exI [of _ "?h1(t := b2)"]) simp
qed

theorem transpose_involution_witness:
  "\<exists>h1 h2. bidirectional_transpose None demo_heap (Some 0) (Some 1) 2 3 1 = Some h1
     \<and> bidirectional_transpose None h1 (Some 1) (Some 2) 3 2 1 = Some h2 \<and> take 6 (h2 2) = [1, 2, 3, 4, 5, 6]"
proof -
  have i: "2 * 3 * 1 \<le> length (demo_heap 0)" "2 * 3 * 1 \<le> length (demo_heap 1)" "2 * 3 * 1 \<le> length (demo_heap 2)"
    "take 6 (demo_heap 0) = [1, 2, 3, 4, 5, 6]" by (simp_all add: demo_heap_def)
  have "distinct [0, 1, 2 :: nat]" by simp
  from transpose_involution [OF this _ _ _ i(1-3)] i(4) show ?thesis by auto
qed

end
