(* ===== verification/Npu_Encode_Correct.thy ===== *)
theory Npu_Encode_Correct
  imports Npu_Encode Npu_Format_Correct
begin

section \<open>Correctness of the request encoding\<close>

text \<open>
  The layouts that store padded rows, and what \<open>EncodeInputs\<close> leaves in the encoded buffers for them;
  when the copy may be skipped; the round trip through a channel transposition; and the cases in
  which the entry points do not do what they are for.
\<close>

subsection \<open>Row layouts\<close>

text \<open>The width of a row and its alignment, in bytes, for the layouts that \<open>encode\<close> produces.\<close>

definition row_shape :: "TensorInfo \<Rightarrow> u32 \<Rightarrow> (int \<times> int) option" where
  "row_shape info isz =
     (case ti_layout info of
        PRE_FORMATTER \<Rightarrow> Some (sint isz, ti_align_unit info)
      | PRE_IM2COL \<Rightarrow>
          (case (last_dim 2 info, last_dim 1 info) of
             (Some w, Some c) \<Rightarrow> if 0 < w \<and> 0 < c \<and> in_int (w * c) then Some (w * c, ti_align_unit info) else None
           | _ \<Rightarrow> None)
      | ALIGNED \<Rightarrow> if ti_transpose info = TRANSPOSE_NONE then aligned_columns info else None
      | _ \<Rightarrow> None)"

lemma encode_input_row:
  assumes "row_shape info isz = Some (col, unit)" "0 < col"
  shows "encode_input accel h skip info isz esz s d =
    (if skip then Value (True, h)
     else and_then (ignoring_code (encode h \<lparr>b_size = isz, b_data = Some s\<rparr> \<lparr>b_size = esz, b_data = Some d\<rparr> col unit)) (\<lambda>h1. Value (False, h1)))"
  using assms
  by (auto simp: row_shape_def encode_input_def Let_def encode_preformatter_def encode_preim2col_def
      split: Layout.splits option.splits if_splits)

text \<open>A tensor of \<open>R\<close> rows of \<open>col\<close> bytes, to be stored as rows of \<open>A\<close> bytes.\<close>

definition row_tensor :: "heap \<Rightarrow> TensorInfo \<Rightarrow> u32 \<Rightarrow> u32 \<Rightarrow> nat \<Rightarrow> nat \<Rightarrow> nat \<Rightarrow> int \<Rightarrow> int \<Rightarrow> bool" where
  "row_tensor h info isz esz s d R col A \<longleftrightarrow>
     0 < col \<and> (\<exists>unit > 0. row_shape info isz = Some (col, unit) \<and> aligned_width col unit = Some A)
     \<and> fits_layout h \<lparr>b_size = isz, b_data = Some s\<rparr> \<lparr>b_size = esz, b_data = Some d\<rparr> s d R (nat col) (nat A)"

definition rows_stored :: "u8 list \<Rightarrow> u8 list \<Rightarrow> nat \<Rightarrow> nat \<Rightarrow> nat \<Rightarrow> bool" where
  "rows_stored src enc R col A \<longleftrightarrow>
     (\<forall>r < R. \<forall>c < A. enc ! (r * A + c) = (if c < col then src ! (r * col + c) else 0))"

lemma encode_row_tensor:
  assumes "row_tensor h info isz esz s d R col A"
  obtains buf where "encode_input accel h False info isz esz s d = Value (False, h(d := buf))" "length buf = length (h d)"
    "rows_stored (h s) buf R (nat col) (nat A)"
proof -
  from assms obtain unit where u: "0 < col" "0 < unit" "row_shape info isz = Some (col, unit)" "aligned_width col unit = Some A"
    "fits_layout h \<lparr>b_size = isz, b_data = Some s\<rparr> \<lparr>b_size = esz, b_data = Some d\<rparr> s d R (nat col) (nat A)"
    by (auto simp: row_tensor_def)
  from encode_layout [OF u(1,2,4,5)] encode_input_row [OF u(3,1), of accel h False esz s d] that show ?thesis
    by (auto simp: rows_stored_def)
qed

lemma row_tensor_cong:
  "h' s = h s \<Longrightarrow> length (h' d) = length (h d) \<Longrightarrow> row_tensor h' info isz esz s d R col A = row_tensor h info isz esz s d R col A"
  by (simp add: row_tensor_def fits_layout_def)

subsection \<open>All inputs\<close>

lemma encode_loop_rows:
  assumes "distinct is" "set is \<subseteq> {..<length ds}" "distinct ds" "set ss \<inter> set ds = {}" "length ss = length ds"
    and "rd_encoded_input_ptrs rd = map Some ds" "\<And>i. i \<in> set is \<Longrightarrow> nt_data (rd_inputs rd ! i) = Some (ss ! i)"
    and "\<And>i. i \<in> set is \<Longrightarrow> \<not> (length (rd_inputs rd) = 1 \<and> nt_size (rd_inputs rd ! i) = ucast (tf_encodedInputSizes td ! i))"
    and "\<And>i. i \<in> set is \<Longrightarrow> row_tensor h (tf_npuInputTensorInfos td ! i) (ucast (nt_size (rd_inputs rd ! i)))
      (tf_encodedInputSizes td ! i) (ss ! i) (ds ! i) (R i) (C i) (A i)"
  shows "\<exists>h'. encode_loop accel td is rd h = Value (0, rd, h') \<and> (\<forall>b. b \<notin> (!) ds ` set is \<longrightarrow> h' b = h b)
    \<and> (\<forall>i \<in> set is. rows_stored (h (ss ! i)) (h' (ds ! i)) (R i) (nat (C i)) (nat (A i)))"
  using assms
proof (induction "is" arbitrary: h)
  case (Cons i js)
  let ?s = "ss ! i" and ?d = "ds ! i"
  have i: "i < length ds" "i \<notin> set js" "set js \<subseteq> {..<length ds}" using Cons.prems(1,2) by auto
  obtain buf where b: "encode_input accel h False (tf_npuInputTensorInfos td ! i) (ucast (nt_size (rd_inputs rd ! i)))
      (tf_encodedInputSizes td ! i) ?s ?d = Value (False, h(?d := buf))" "length buf = length (h ?d)"
    "rows_stored (h ?s) buf (R i) (nat (C i)) (nat (A i))"
    using encode_row_tensor Cons.prems(9) by (metis list.set_intros(1))
  let ?h = "h(?d := buf)"
  have sd: "ss ! k \<noteq> ds ! i" if "k \<in> set js" for k
    using that i(1,3) Cons.prems(4,5) by (metis IntI empty_iff lessThan_iff nth_mem subsetD)
  have dd: "ds ! k \<noteq> ds ! i" if "k \<in> set js" for k
    using that i Cons.prems(3) by (metis lessThan_iff nth_eq_iff_index_eq subsetD)
  have tens: "row_tensor ?h (tf_npuInputTensorInfos td ! k) (ucast (nt_size (rd_inputs rd ! k)))
      (tf_encodedInputSizes td ! k) (ss ! k) (ds ! k) (R k) (C k) (A k)" if "k \<in> set js" for k
    using Cons.prems(9) [of k] that row_tensor_cong [of ?h "ss ! k" h "ds ! k"] sd [OF that] dd [OF that] by simp
  have "\<exists>h'. encode_loop accel td js rd ?h = Value (0, rd, h') \<and> (\<forall>b. b \<notin> (!) ds ` set js \<longrightarrow> h' b = ?h b)
    \<and> (\<forall>k \<in> set js. rows_stored (?h (ss ! k)) (h' (ds ! k)) (R k) (nat (C k)) (nat (A k)))"
    by (rule Cons.IH) (use Cons.prems i tens in \<open>auto simp del: fun_upd_apply\<close>)
  then obtain h' where h': "encode_loop accel td js rd ?h = Value (0, rd, h')" "\<forall>b. b \<notin> (!) ds ` set js \<longrightarrow> h' b = ?h b"
    "\<forall>k \<in> set js. rows_stored (?h (ss ! k)) (h' (ds ! k)) (R k) (nat (C k)) (nat (A k))" by blast
  have "encode_loop accel td (i # js) rd h = Value (0, rd, h')"
    using h'(1) b(1) Cons.prems(6) Cons.prems(7) [of i] Cons.prems(8) [of i] i(1) by (auto simp: Let_def)
  moreover have "?d \<notin> (!) ds ` set js" using dd by (metis imageE)
  then have "h' ?d = buf" using h'(2) by simp
  moreover have "\<forall>k \<in> set js. rows_stored (h (ss ! k)) (h' (ds ! k)) (R k) (nat (C k)) (nat (A k))" using h'(3) sd by simp
  ultimately show ?case using b(3) h'(2) by (intro exI [of _ h']) auto
qed simp

text \<open>
  Claim C36. \<open>EncodeInputs\<close> on a request whose inputs all have a row layout (aligned, pre-formatted or im2col,
  without transposition), each with buffers of its own, and no input that can be passed on as it is:
  the call returns 0, every encoded buffer holds the rows of its input, each padded with zeroes to the
  aligned width, and no other buffer changes.
\<close>
theorem encode_inputs_rows:
  assumes "rd_taskData rd = Some td" "length ds = length (rd_inputs rd)" "length ss = length (rd_inputs rd)" "rd_inputs rd \<noteq> []"
    and "length (rd_inputs rd) \<le> length (tf_npuInputTensorInfos td)" "length (rd_inputs rd) \<le> length (tf_encodedInputSizes td)"
    and "distinct ds" "set ss \<inter> set ds = {}" "rd_encoded_input_ptrs rd = map Some ds" "map nt_data (rd_inputs rd) = map Some ss"
    and "length (rd_inputs rd) = 1 \<longrightarrow> nt_size (hd (rd_inputs rd)) \<noteq> ucast (hd (tf_encodedInputSizes td))"
    and "\<forall>i < length ds. row_tensor h (tf_npuInputTensorInfos td ! i) (ucast (nt_size (rd_inputs rd ! i)))
      (tf_encodedInputSizes td ! i) (ss ! i) (ds ! i) (R i) (C i) (A i)"
  shows "\<exists>h'. EncodeInputs False accel (Some rd) h = Value (0, Some rd, h') \<and> (\<forall>b. b \<notin> set ds \<longrightarrow> h' b = h b)
    \<and> (\<forall>i < length ds. rows_stored (h (ss ! i)) (h' (ds ! i)) (R i) (nat (C i)) (nat (A i)))"
proof -
  let ?is = "[0..<length (rd_inputs rd)]"
  have n: "nt_data (rd_inputs rd ! i) = Some (ss ! i)" if "i < length ds" for i
    using assms(2,3,10) that by (metis nth_map)
  have skip: "\<not> (length (rd_inputs rd) = 1 \<and> nt_size (rd_inputs rd ! i) = ucast (tf_encodedInputSizes td ! i))" if "i < length ds" for i
    using assms(2,4,6,11) that by (cases "rd_inputs rd"; cases "tf_encodedInputSizes td") auto
  have "\<exists>h'. encode_loop accel td ?is rd h = Value (0, rd, h') \<and> (\<forall>b. b \<notin> (!) ds ` set ?is \<longrightarrow> h' b = h b)
    \<and> (\<forall>i \<in> set ?is. rows_stored (h (ss ! i)) (h' (ds ! i)) (R i) (nat (C i)) (nat (A i)))"
    by (rule encode_loop_rows) (use assms n skip in auto)
  moreover have "(!) ds ` set ?is = set ds" using nth_image [of "length ds" ds] assms(2) by simp
  ultimately show ?thesis using assms(1,2,4,5,6) by (auto simp: EncodeInputs_def Let_def)
qed

subsection \<open>Skipping the copy\<close>

text \<open>
  Equivalence: for a single input whose size is the encoded size, passing on the pointer of the input
  instead of encoding it is sound for every row layout: the bytes the encoded buffer would get are
  exactly those of the input.
\<close>
theorem skipped_copy_equals_encoding:
  assumes "row_tensor h info isz esz s d R col A" "isz = esz" "0 < R"
  shows "encode_input accel h True info isz esz s d = Value (True, h)
    \<and> (\<exists>h1. encode_input accel h False info isz esz s d = Value (False, h1) \<and> take (unat esz) (h1 d) = take (unat esz) (h s))"
proof -
  from assms(1) obtain unit where u: "0 < col" "0 < unit" "row_shape info isz = Some (col, unit)" "aligned_width col unit = Some A"
    and f: "unat isz = R * nat col" "R * nat A \<le> unat esz" "unat isz \<le> length (h s)" "unat esz \<le> length (h d)"
    by (auto simp: row_tensor_def fits_layout_def)
  note w = aligned_width_pos [OF u(1,2,4)]
  have "R * nat A \<le> R * nat col" using f(1,2) assms(2) by simp
  then have eq: "nat A = nat col" using w assms(3) by simp
  obtain buf where b: "encode_input accel h False info isz esz s d = Value (False, h(d := buf))" "length buf = length (h d)"
    "rows_stored (h s) buf R (nat col) (nat A)" using encode_row_tensor [OF assms(1)] by blast
  have "take (unat esz) buf = take (unat esz) (h s)"
  proof (rule nth_equalityI)
    show "length (take (unat esz) buf) = length (take (unat esz) (h s))" using b(2) f(3,4) assms(2) by simp
    fix x assume "x < length (take (unat esz) buf)"
    then have x: "x < R * nat col" using f(1) assms(2) by simp
    then have "x div nat col < R" "x mod nat col < nat col" using u(1) by (simp_all add: less_mult_imp_div_less)
    from b(3) [unfolded rows_stored_def eq, rule_format, OF this] this(2)
    have "buf ! x = h s ! x" by simp
    then show "take (unat esz) buf ! x = take (unat esz) (h s) ! x" using x f(1) assms(2) by simp
  qed
  with b(1) encode_input_row [OF u(3,1), of accel h True esz s d] show ?thesis by simp
qed

subsection \<open>Channel transposition\<close>

lemma transpose_irrelevant [simp]:
  "last_dim k (info\<lparr>ti_transpose := x\<rparr>) = last_dim k info" "outer_size (info\<lparr>ti_transpose := x\<rparr>) = outer_size info"
  by (simp_all add: last_dim_def outer_size_def)

text \<open>What an aligned tensor with the channel moved to the end goes through.\<close>

lemma encode_channel_last:
  assumes "ti_layout info = ALIGNED" "ti_transpose info = CHANNEL_FIRST_TO_LAST"
    and "last_dim 1 info = Some (int C)" "outer_size info = Some (int N)"
    and "GetDataSize_rmapinfo_datatype (ti_dtype_encoded info) = Value es" "aligned_columns info = Some (col, unit)"
    and "s \<noteq> d" "0 < C" "0 < N" "0 < es" "0 < col" "0 < unit" "aligned_width col unit = Some A"
    and "C * N * es \<le> length (h s)" "fits_layout h \<lparr>b_size = isz, b_data = Some d\<rparr> \<lparr>b_size = esz, b_data = Some d\<rparr> d d R (nat col) (nat A)"
    and "unat isz = C * N * es"
  obtains b1 b2 where "encode_input None h skip info isz esz s d = Value (False, h(d := b2))"
    "length b1 = length (h d)" "\<forall>i < C. \<forall>j < N. \<forall>k < es. b1 ! ((j * C + i) * es + k) = h s ! ((i * N + j) * es + k)"
    "length b2 = length (h d)" "rows_stored b1 b2 R (nat col) (nat A)"
proof -
  have len: "C * N * es \<le> length (h d)" using assms(15,16) by (simp add: fits_layout_def)
  obtain b1 where b1: "bidirectional_transpose None h (Some s) (Some d) (int C) (int N) es = Some (h(d := b1))"
    "length b1 = length (h d)" "\<forall>i < C. \<forall>j < N. \<forall>k < es. b1 ! ((j * C + i) * es + k) = h s ! ((i * N + j) * es + k)"
    using transpose_out_of_place [OF assms(7-10,14) len] by blast
  have "fits_layout (h(d := b1)) \<lparr>b_size = isz, b_data = Some d\<rparr> \<lparr>b_size = esz, b_data = Some d\<rparr> d d R (nat col) (nat A)"
    using assms(15) b1(2) by (simp add: fits_layout_def)
  from encode_layout [OF assms(11-13) this] obtain b2 where b2: "encode (h(d := b1)) \<lparr>b_size = isz, b_data = Some d\<rparr> \<lparr>b_size = esz, b_data = Some d\<rparr> col unit
      = Returned 0 (\<lparr>b_size = of_nat (R * nat A), b_data = Some d\<rparr>) (h(d := b2))" "length b2 = length (h d)" "rows_stored b1 b2 R (nat col) (nat A)"
    using b1(2) by (auto simp: rows_stored_def)
  have "encode_input None h skip info isz esz s d = Value (False, h(d := b2))"
    using b1(1) b2(1) assms(1-6) by (simp add: encode_input_def Let_def)
  with b1(2,3) b2(2,3) that show ?thesis by blast
qed

text \<open>
  Round trip: a tensor with the channels first, encoded with the channels moved to the end and padded,
  and decoded with the channels moved back to the front, is the tensor that was encoded, for every element type,
  channel count and alignment. The decoded tensor is in the encoded buffer, to which the output then points.
\<close>
theorem channel_transpose_roundtrip:
  assumes "ti_layout info = ALIGNED" "ti_transpose info = CHANNEL_FIRST_TO_LAST"
    and "last_dim 1 info = Some (int C)" "outer_size info = Some (int N)"
    and "GetDataSize_rmapinfo_datatype (ti_dtype_encoded info) = Value es" "aligned_columns info = Some (col, unit)"
    and "distinct [s, d, t]" "0 < C" "0 < N" "0 < R" "0 < col" "0 < unit" "aligned_width col unit = Some A"
    and "C * N * es \<le> length (h s)" "fits_layout h \<lparr>b_size = isz, b_data = Some d\<rparr> \<lparr>b_size = esz, b_data = Some d\<rparr> d d R (nat col) (nat A)"
    and "unat isz = C * N * es" "unat esz = R * nat A" "unat isz \<le> unat dsz" "unat dsz \<le> length (h t)"
  shows "\<exists>h1 h2. encode_input None h skip info isz esz s d = Value (False, h1)
    \<and> decode_output None h1 (info\<lparr>ti_transpose := CHANNEL_LAST_TO_FIRST\<rparr>) esz dsz d t = Value (True, h2)
    \<and> take (C * N * es) (h2 d) = take (C * N * es) (h s)"
proof -
  have st: "s \<noteq> d" "d \<noteq> t" "t \<noteq> d" using assms(7) by auto
  have es: "0 < es" using assms(5) by (cases "ti_dtype_encoded info") auto
  let ?o = "info\<lparr>ti_transpose := CHANNEL_LAST_TO_FIRST\<rparr>"
  obtain b1 b2 where b: "encode_input None h skip info isz esz s d = Value (False, h(d := b2))"
    "length b1 = length (h d)" "\<forall>i < C. \<forall>j < N. \<forall>k < es. b1 ! ((j * C + i) * es + k) = h s ! ((i * N + j) * es + k)"
    "length b2 = length (h d)" "rows_stored b1 b2 R (nat col) (nat A)"
    by (rule encode_channel_last [OF assms(1-6) st(1) assms(8,9) es assms(11-16), of skip])
  let ?h1 = "h(d := b2)"
  note w = aligned_width_pos [OF assms(11-13)]
  have fit: "fits_layout ?h1 \<lparr>b_size = esz, b_data = Some d\<rparr> \<lparr>b_size = dsz, b_data = Some t\<rparr> d t R (nat A) (nat col)"
    using assms(15,16-19) b(4) st by (auto simp: fits_layout_def)
  obtain b3 where b3: "decode ?h1 \<lparr>b_size = esz, b_data = Some d\<rparr> \<lparr>b_size = dsz, b_data = Some t\<rparr> col unit
      = Returned 0 \<lparr>b_size = of_nat (R * nat col), b_data = Some t\<rparr> (?h1(t := b3))" "length b3 = length (h t)"
    "\<forall>i < R. \<forall>c < nat col. b3 ! (i * nat col + c) = b2 ! (i * nat A + c)"
    using decode_layout [OF assms(11-13) fit assms(10)] st by auto
  have total: "R * nat col = C * N * es" using assms(15,16) by (simp add: fits_layout_def)
  have b31: "b3 ! x = b1 ! x" if "x < C * N * es" for x
  proof -
    have "x div nat col < R" "x mod nat col < nat col" using that total assms(11) by (simp_all add: less_mult_imp_div_less)
    moreover have "x mod nat col < nat A" using \<open>x mod nat col < nat col\<close> w(1) by linarith
    ultimately have "b3 ! (x div nat col * nat col + x mod nat col) = b1 ! (x div nat col * nat col + x mod nat col)"
      using b3(3) b(5) unfolding rows_stored_def by metis
    then show ?thesis by simp
  qed
  let ?h2 = "?h1(t := b3)"
  have len: "N * C * es \<le> length (?h2 t)" "N * C * es \<le> length (?h2 d)"
    using assms(15,16,18,19) b3(2) b(4) st by (auto simp: fits_layout_def mult.commute [of N C])
  obtain b4 where b4: "bidirectional_transpose None ?h2 (Some t) (Some d) (int N) (int C) es = Some (?h2(d := b4))"
    "length b4 = length (?h2 d)" "\<forall>j < N. \<forall>i < C. \<forall>k < es. b4 ! ((i * N + j) * es + k) = ?h2 t ! ((j * C + i) * es + k)"
    using transpose_out_of_place [OF st(3) assms(9,8) es len] by blast
  have "decode_aligned ?h1 \<lparr>b_size = esz, b_data = Some d\<rparr> \<lparr>b_size = dsz, b_data = Some t\<rparr> (int C) (ti_dtype_encoded info = FLOAT32) (ti_align_unit info)
      = Returned 0 \<lparr>b_size = of_nat (R * nat col), b_data = Some t\<rparr> ?h2"
    using b3(1) assms(3,6) by (auto simp: decode_aligned_def aligned_columns_def split: if_splits)
  then have dec: "decode_output None ?h1 ?o esz dsz d t = Value (True, ?h2(d := b4))"
    using b4(1) assms(1,3-5) by (simp add: decode_output_def Let_def)
  have "take (C * N * es) b4 = take (C * N * es) (h s)"
  proof (rule nth_equalityI)
    show "length (take (C * N * es) b4) = length (take (C * N * es) (h s))" using b4(2) len assms(14) by (simp add: mult.commute [of N C])
    fix x assume "x < length (take (C * N * es) b4)"
    then have x: "x < C * N * es" by simp
    then obtain i j k where e: "i < C" "j < N" "k < es" "x = (i * N + j) * es + k" using element_index es by blast
    have y: "(j * C + i) * es + k < C * N * es"
      using index_less [OF index_less [OF e(2,1)] e(3)] by (simp add: mult.commute [of N C])
    show "take (C * N * es) b4 ! x = take (C * N * es) (h s) ! x" using b4(3) b(3) b31 [OF y] e x st by simp
  qed
  then show ?thesis using b(1) dec by (intro exI [of _ ?h1] exI [of _ "?h2(d := b4)"]) simp
qed

text \<open>A tensor of two channels of three 16-bit elements, stored in rows of four bytes.\<close>

definition demo_info :: TensorInfo where
  "demo_info = \<lparr>ti_dtype_encoded = INT16, ti_shape_encoded = [3, 2], ti_layout = ALIGNED, ti_align_unit = 4, ti_transpose = CHANNEL_FIRST_TO_LAST\<rparr>"

definition planes_heap :: heap where
  "planes_heap = (\<lambda>_. replicate 24 9)(0 := [1, 0, 2, 0, 3, 0, 4, 0, 5, 0, 6, 0])"

definition rows_info :: TensorInfo where
  "rows_info = \<lparr>ti_dtype_encoded = UINT8, ti_shape_encoded = [2, 3], ti_layout = ALIGNED, ti_align_unit = 4, ti_transpose = TRANSPOSE_NONE\<rparr>"

definition rows_request :: RequestData where
  "rows_request = \<lparr>rd_taskData = Some \<lparr>tf_npuInputTensorInfos = [rows_info, rows_info], tf_npuOutputTensorInfos = [],
       tf_encodedInputSizes = [8, 8], tf_encodedOutputSizes = [], tf_isArgMax = False\<rparr>,
     rd_inputs = [\<lparr>nt_shape = [2, 3], nt_elemSize = 1, nt_type = DataType.UINT8, nt_is_argmax = False, nt_data = Some 0\<rparr>,
                  \<lparr>nt_shape = [6], nt_elemSize = 1, nt_type = DataType.UINT8, nt_is_argmax = False, nt_data = Some 1\<rparr>],
     rd_outputs = [], rd_encoded_inputs_ptr = Some 2, rd_encoded_input_ptrs = [Some 2, Some 3], rd_encoded_output_ptrs = []\<rparr>"

lemma rows_info_tensor:
  assumes "6 \<le> length (h s)" "8 \<le> length (h d)"
  shows "row_tensor h rows_info 6 8 s d 2 3 4"
proof -
  have "row_shape rows_info 6 = Some (3, 4)" "aligned_width 3 4 = Some 4" by code_simp+
  then show ?thesis using assms by (auto simp: row_tensor_def fits_layout_def)
qed

theorem encode_inputs_rows_witness:
  "\<exists>h'. EncodeInputs False None (Some rows_request) planes_heap = Value (0, Some rows_request, h')
     \<and> h' 2 ! 3 = 0 \<and> h' 2 ! 4 = 0 \<and> h' 2 ! 5 = 3 \<and> h' 0 = planes_heap 0"
proof -
  define td where "td = the (rd_taskData rows_request)"
  have td: "rd_taskData rows_request = Some td" by (simp add: td_def rows_request_def)
  have acc: "tf_npuInputTensorInfos td = [rows_info, rows_info]" "tf_encodedInputSizes td = [8, 8]" by (simp_all add: td_def rows_request_def)
  have sz: "ucast (nt_size (rd_inputs rows_request ! 0)) = (6 :: u32)" "ucast (nt_size (rd_inputs rows_request ! Suc 0)) = (6 :: u32)" by code_simp+
  have r: "row_tensor planes_heap rows_info 6 8 s d 2 3 4" for s d by (rule rows_info_tensor) (simp_all add: planes_heap_def)
  have t: "\<forall>i < length [2, 3 :: nat]. row_tensor planes_heap (tf_npuInputTensorInfos td ! i) (ucast (nt_size (rd_inputs rows_request ! i)))
      (tf_encodedInputSizes td ! i) ([0, 1] ! i) ([2, 3] ! i) 2 3 4"
  proof (intro allI impI)
    fix i assume "i < length [2, 3 :: nat]"
    then consider "i = 0" | "i = 1" by fastforce
    then show "row_tensor planes_heap (tf_npuInputTensorInfos td ! i) (ucast (nt_size (rd_inputs rows_request ! i)))
      (tf_encodedInputSizes td ! i) ([0, 1] ! i) ([2, 3] ! i) 2 3 4" by cases (simp_all add: acc sz r)
  qed
  have hyps: "length [2, 3 :: nat] = length (rd_inputs rows_request)" "length [0, 1 :: nat] = length (rd_inputs rows_request)"
    "rd_inputs rows_request \<noteq> []" "length (rd_inputs rows_request) \<le> length (tf_npuInputTensorInfos td)"
    "length (rd_inputs rows_request) \<le> length (tf_encodedInputSizes td)" "distinct [2, 3 :: nat]" "set [0, 1] \<inter> set [2, 3 :: nat] = {}"
    "rd_encoded_input_ptrs rows_request = map Some [2, 3]" "map nt_data (rd_inputs rows_request) = map Some [0, 1]"
    "length (rd_inputs rows_request) = 1 \<longrightarrow> nt_size (hd (rd_inputs rows_request)) \<noteq> ucast (hd (tf_encodedInputSizes td))"
    by (simp_all add: td_def rows_request_def)
  obtain h' where h': "EncodeInputs False None (Some rows_request) planes_heap = Value (0, Some rows_request, h')"
    "\<forall>b. b \<notin> set [2, 3] \<longrightarrow> h' b = planes_heap b"
    "\<forall>i < length [2, 3 :: nat]. rows_stored (planes_heap ([0, 1] ! i)) (h' ([2, 3] ! i)) 2 (nat 3) (nat 4)"
    using encode_inputs_rows [OF td hyps t, of None] by blast
  then have "rows_stored (planes_heap 0) (h' 2) 2 3 4" by auto
  then have "h' 2 ! (r * 4 + c) = (if c < 3 then planes_heap 0 ! (r * 3 + c) else 0)" if "r < 2" "c < 4" for r c
    using that unfolding rows_stored_def by blast
  from this [of 0 3] this [of 1 0] this [of 1 1] have "h' 2 ! 3 = 0" "h' 2 ! 4 = 0" "h' 2 ! 5 = 3" by (simp_all add: planes_heap_def)
  with h' show ?thesis by auto
qed

theorem skipped_copy_equals_encoding_witness:
  "\<exists>h1. encode_input None planes_heap False (rows_info\<lparr>ti_shape_encoded := [3, 4]\<rparr>) 12 12 0 1 = Value (False, h1)
     \<and> take 12 (h1 1) = take 12 (planes_heap 0)"
proof -
  let ?i = "rows_info\<lparr>ti_shape_encoded := [3, 4]\<rparr>"
  have "row_shape ?i 12 = Some (4, 4)" "aligned_width 4 4 = Some 4" by code_simp+
  then have "row_tensor planes_heap ?i 12 12 0 1 3 4 4" by (auto simp: row_tensor_def fits_layout_def planes_heap_def)
  from skipped_copy_equals_encoding [OF this] show ?thesis by simp
qed

subsection \<open>Where the entry points go wrong\<close>

text \<open>
  A formatted tensor of two groups of channels: a single input of the encoded size is passed on as it is, row by
  row, while \<open>encode_formatted\<close> would store the first group of every row before the second.
\<close>

definition grouped_info :: TensorInfo where
  "grouped_info = \<lparr>ti_dtype_encoded = UINT8, ti_shape_encoded = [2, 4], ti_layout = FORMATTED, ti_align_unit = 2, ti_transpose = TRANSPOSE_NONE\<rparr>"

lemma skipped_copy_not_grouped:
  defines "h \<equiv> (\<lambda>_. replicate 8 0)(0 := [1, 2, 3, 4, 5, 6, 7, 8])"
  shows "encode_input None h True grouped_info 8 8 0 1 = Value (True, h)"
    and "\<exists>h1. encode_input None h False grouped_info 8 8 0 1 = Value (False, h1) \<and> h1 1 = [1, 2, 5, 6, 3, 4, 7, 8]"
proof -
  show "encode_input None h True grouped_info 8 8 0 1 = Value (True, h)"
    by (simp add: encode_input_def Let_def grouped_info_def)
  have "case encode_input None h False grouped_info 8 8 0 1 of Value (b, h1) \<Rightarrow> \<not> b \<and> h1 1 = [1, 2, 5, 6, 3, 4, 7, 8] | _ \<Rightarrow> False"
    unfolding h_def by code_simp
  then show "\<exists>h1. encode_input None h False grouped_info 8 8 0 1 = Value (False, h1) \<and> h1 1 = [1, 2, 5, 6, 3, 4, 7, 8]"
    by (auto split: outcome.splits)
qed

text \<open>
  A formatted tensor with the channels first is grouped before it is transposed: for two channels of two
  pixels the pixels \<open>(1, 3)\<close> and \<open>(2, 4)\<close> become \<open>(1, 0)\<close> and \<open>(3, 4)\<close>.
\<close>

lemma formatted_transpose_scrambles:
  defines "h \<equiv> (\<lambda>_. replicate 8 0)(0 := [1, 2, 3, 4])"
    and "info \<equiv> \<lparr>ti_dtype_encoded = UINT8, ti_shape_encoded = [2, 2], ti_layout = FORMATTED, ti_align_unit = 4, ti_transpose = CHANNEL_FIRST_TO_LAST\<rparr>"
  shows "\<exists>h1. encode_input None h False info 4 8 0 1 = Value (False, h1) \<and> h1 1 = [1, 0, 2, 0, 3, 4, 0, 0]"
proof -
  let ?b = "[1, 2, 0, 0, 3, 4, 0, 0] :: u8 list"
  have "case encode_formatted h \<lparr>b_size = 4, b_data = Some 0\<rparr> \<lparr>b_size = 8, b_data = Some 1\<rparr> 2 4 of
      Returned r out h1 \<Rightarrow> h1 1 = ?b | _ \<Rightarrow> False" unfolding h_def by code_simp
  then obtain h1 where h1: "ignoring_code (encode_formatted h \<lparr>b_size = 4, b_data = Some 0\<rparr> \<lparr>b_size = 8, b_data = Some 1\<rparr> 2 4) = Value h1" "h1 1 = ?b"
    by (auto split: fmt_result.splits)
  have "last_dim 1 info = Some 2" "outer_size info = Some 2" unfolding info_def by code_simp+
  moreover have "swap_loop 2 1 (upper_pairs 2) ?b = Some [1, 0, 2, 0, 3, 4, 0, 0]" by code_simp
  then have "bidirectional_transpose None h1 (Some 1) (Some 1) 2 2 1 = Some (h1(1 := [1, 0, 2, 0, 3, 4, 0, 0]))"
    using h1(2) by (simp add: bidirectional_transpose_def bidirectional_transpose_inplace_def)
  moreover have "ti_layout info = FORMATTED" "ti_transpose info = CHANNEL_FIRST_TO_LAST" "ti_dtype_encoded info = UINT8" "ti_align_unit info = 4"
    by (simp_all add: info_def)
  ultimately show ?thesis using h1(1) by (simp add: encode_input_def Let_def)
qed

text \<open>An input whose size is not a multiple of the row is not encoded at all, and the call still reports success.\<close>

lemma encoding_error_ignored:
  assumes "row_shape info isz = Some (col, unit)" "0 < col" "isz mod word_of_int col \<noteq> 0"
  shows "encode_input accel h False info isz esz s d = Value (False, h)"
  using assms by (simp add: encode_input_row encode_def)

text \<open>With the validation option a request with more outputs than inputs reads past the inputs.\<close>

lemma validation_reads_past_inputs:
  assumes "rd_taskData rd = Some td" "length (rd_inputs rd) < length (rd_outputs rd)"
  shows "EncodeInputs True accel (Some rd) h = Ub_outcome"
proof -
  have "validate_loop is r = Ub_outcome" if "k \<in> set is" "n \<le> k" "length (rd_inputs r) = n" for "is" r k n
    using that by (induction "is" arbitrary: r) auto
  moreover have "\<exists>i \<in> set [0..<length (rd_outputs rd)]. length (rd_inputs rd) \<le> i" using assms(2) by auto
  ultimately have "validate_loop [0..<length (rd_outputs rd)] rd = Ub_outcome" by blast
  then show ?thesis using assms(1) by (simp add: EncodeInputs_def)
qed

end
