(* ===== verification/Ipc_Packet.thy ===== *)
theory Ipc_Packet
  imports Prelude
begin

section \<open>The packets between clients and the service\<close>

text \<open>
  \<^verbatim>\<open>src/lib/dynamic_ipc/protocol/ipc_packet.cpp\<close> and \<^verbatim>\<open>ipc_packet.hpp\<close>: the packet header with its
  validity check, the table of request and response types, the sequence numbers, and the
  variable-length telemetry response with its serialiser and parser.

  The structures are packed and copied byte by byte; the model writes every field in little-endian
  order, which is the byte order of the supported hosts. Signed 32-bit fields are words read with
  \<^const>\<open>sint\<close>. The process id that replaces a pid of 0 is an argument.
\<close>

datatype IPCMessageType =
  MsgAllocateBuffer
| MsgFreeBuffer
| MsgInferenceRequest
| MsgInferenceResponse
| MsgThrottleNotification
| MsgErrorNotification
| MsgDMAReadRequest
| MsgDMAReadResponse
| MsgDMAWriteRequest
| MsgDMAWriteResponse
| MsgTaskInitRequest
| MsgTaskInitResponse
| MsgTaskDeInitRequest
| MsgTaskDeInitResponse
| MsgViewFreeMemoryRequestLegacy
| MsgViewFreeMemoryResponseLegacy
| MsgViewUsedMemoryRequestLegacy
| MsgViewUsedMemoryResponseLegacy
| MsgGetUsageRequestLegacy
| MsgGetUsageResponseLegacy
| MsgGetDeviceTelemetryRequest
| MsgGetDeviceTelemetryResponse
| MsgClientHello
| MsgRecoveryStartNotification
| MsgRecoveryStartAck
| MsgRecoverySuccessNotification
| MsgRecoveryFailNotification
| MsgDMAReadRequestWithFaultInjection

fun type_value :: "IPCMessageType \<Rightarrow> u32" where
  "type_value MsgAllocateBuffer = 101"
| "type_value MsgFreeBuffer = 102"
| "type_value MsgInferenceRequest = 103"
| "type_value MsgInferenceResponse = 104"
| "type_value MsgThrottleNotification = 105"
| "type_value MsgErrorNotification = 106"
| "type_value MsgDMAReadRequest = 107"
| "type_value MsgDMAReadResponse = 108"
| "type_value MsgDMAWriteRequest = 109"
| "type_value MsgDMAWriteResponse = 110"
| "type_value MsgTaskInitRequest = 111"
| "type_value MsgTaskInitResponse = 112"
| "type_value MsgTaskDeInitRequest = 113"
| "type_value MsgTaskDeInitResponse = 114"
| "type_value MsgViewFreeMemoryRequestLegacy = 115"
| "type_value MsgViewFreeMemoryResponseLegacy = 116"
| "type_value MsgViewUsedMemoryRequestLegacy = 117"
| "type_value MsgViewUsedMemoryResponseLegacy = 118"
| "type_value MsgGetUsageRequestLegacy = 119"
| "type_value MsgGetUsageResponseLegacy = 120"
| "type_value MsgGetDeviceTelemetryRequest = 121"
| "type_value MsgGetDeviceTelemetryResponse = 122"
| "type_value MsgClientHello = 123"
| "type_value MsgRecoveryStartNotification = 124"
| "type_value MsgRecoveryStartAck = 125"
| "type_value MsgRecoverySuccessNotification = 126"
| "type_value MsgRecoveryFailNotification = 127"
| "type_value MsgDMAReadRequestWithFaultInjection = 199"

definition all_message_types :: "IPCMessageType list" where
  "all_message_types =
     [MsgAllocateBuffer, MsgFreeBuffer, MsgInferenceRequest,
      MsgInferenceResponse, MsgThrottleNotification, MsgErrorNotification,
      MsgDMAReadRequest, MsgDMAReadResponse, MsgDMAWriteRequest,
      MsgDMAWriteResponse, MsgTaskInitRequest, MsgTaskInitResponse,
      MsgTaskDeInitRequest, MsgTaskDeInitResponse, MsgViewFreeMemoryRequestLegacy,
      MsgViewFreeMemoryResponseLegacy, MsgViewUsedMemoryRequestLegacy, MsgViewUsedMemoryResponseLegacy,
      MsgGetUsageRequestLegacy, MsgGetUsageResponseLegacy, MsgGetDeviceTelemetryRequest,
      MsgGetDeviceTelemetryResponse, MsgClientHello, MsgRecoveryStartNotification,
      MsgRecoveryStartAck, MsgRecoverySuccessNotification, MsgRecoveryFailNotification,
      MsgDMAReadRequestWithFaultInjection]"

fun tryGetIPCResponseMessageType :: "IPCMessageType \<Rightarrow> IPCMessageType option" where
  "tryGetIPCResponseMessageType MsgAllocateBuffer = Some MsgAllocateBuffer"
| "tryGetIPCResponseMessageType MsgFreeBuffer = Some MsgFreeBuffer"
| "tryGetIPCResponseMessageType MsgInferenceRequest = Some MsgInferenceResponse"
| "tryGetIPCResponseMessageType MsgDMAReadRequest = Some MsgDMAReadResponse"
| "tryGetIPCResponseMessageType MsgDMAReadRequestWithFaultInjection = Some MsgDMAReadResponse"
| "tryGetIPCResponseMessageType MsgDMAWriteRequest = Some MsgDMAWriteResponse"
| "tryGetIPCResponseMessageType MsgTaskInitRequest = Some MsgTaskInitResponse"
| "tryGetIPCResponseMessageType MsgTaskDeInitRequest = Some MsgTaskDeInitResponse"
| "tryGetIPCResponseMessageType MsgViewFreeMemoryRequestLegacy = Some MsgViewFreeMemoryResponseLegacy"
| "tryGetIPCResponseMessageType MsgViewUsedMemoryRequestLegacy = Some MsgViewUsedMemoryResponseLegacy"
| "tryGetIPCResponseMessageType MsgGetUsageRequestLegacy = Some MsgGetUsageResponseLegacy"
| "tryGetIPCResponseMessageType MsgGetDeviceTelemetryRequest = Some MsgGetDeviceTelemetryResponse"
| "tryGetIPCResponseMessageType _ = None"

definition isValidIPCMessageType :: "u32 \<Rightarrow> bool" where
  "isValidIPCMessageType v = list_ex (\<lambda>t. type_value t = v) all_message_types"

definition kIPCPacketMagic :: u32 where "kIPCPacketMagic = 0x44584950"
definition kIPCPacketWireVersion :: u16 where "kIPCPacketWireVersion = 1"
definition kIPCMaxMessageSize :: nat where "kIPCMaxMessageSize = 65536"

record IPCPacketHeader =
  ph_magic :: u32
  ph_version :: u16
  ph_flags :: u16
  ph_type :: u32
  ph_messageSize :: u32
  ph_seqId :: u32
  ph_deviceId :: u32
  ph_pid :: u32

record IPCDeviceTelemetryCoreData =
  utilizationPermille :: u32
  temperature :: u32
  clock :: u32
  voltage :: u32

record IPCDeviceTelemetryPayload =
  tl_result :: u32
  usedMemoryBytes :: u64
  freeMemoryBytes :: u64
  cores :: "IPCDeviceTelemetryCoreData list"

datatype errno = EINVAL | EMSGSIZE | EPROTO

subsection \<open>Sequence numbers\<close>

definition normalizeSequenceId :: "u32 \<Rightarrow> u32" where
  "normalizeSequenceId sequenceId = (if sint sequenceId \<le> 0 then 1 else sequenceId)"

text \<open>
  \<open>getNextIPCPacketSequenceId\<close> on the atomic counter. Each atomic operation is one step; \<open>env1\<close> and
  \<open>env2\<close> are what the other threads do to the counter between the steps.
\<close>

definition getNextIPCPacketSequenceId :: "(u32 \<Rightarrow> u32) \<Rightarrow> (u32 \<Rightarrow> u32) \<Rightarrow> u32 \<Rightarrow> u32 \<times> u32" where
  "getNextIPCPacketSequenceId env1 env2 counter =
     (let nextSequence = counter; c1 = counter + 1
      in if 0 < sint nextSequence then (nextSequence, c1)
         else
           let c2 = env1 c1; expected = nextSequence + 1
           in if c2 = expected then (1, 1)
              else let c3 = env2 c2 in (normalizeSequenceId c3, c3 + 1))"

subsection \<open>Headers\<close>

definition isValidIPCPacketHeader :: "IPCPacketHeader \<Rightarrow> bool" where
  "isValidIPCPacketHeader header =
     (if ph_magic header \<noteq> kIPCPacketMagic then False
      else if \<not> isValidIPCMessageType (ph_type header) then False
      else if ph_version header \<noteq> kIPCPacketWireVersion then False
      else if sint (ph_seqId header) < 0 then False
      else True)"

definition isValidIPCPacketHeader_for :: "IPCPacketHeader \<Rightarrow> IPCMessageType \<Rightarrow> nat \<Rightarrow> bool" where
  "isValidIPCPacketHeader_for header expectedType expectedPayloadSize =
     (if \<not> isValidIPCPacketHeader header then False
      else if ph_type header \<noteq> type_value expectedType then False
      else unat (ph_messageSize header) = expectedPayloadSize)"

definition initializeIPCPacketHeader :: "u32 \<Rightarrow> IPCMessageType \<Rightarrow> u32 \<Rightarrow> u32 \<Rightarrow> u32 \<Rightarrow> u16 \<Rightarrow> IPCPacketHeader" where
  "initializeIPCPacketHeader current_pid t messageSize seqId p version =
     \<lparr>ph_magic = kIPCPacketMagic, ph_version = version, ph_flags = 0, ph_type = type_value t,
      ph_messageSize = messageSize, ph_seqId = seqId, ph_deviceId = 0,
      ph_pid = (if p = 0 then current_pid else p)\<rparr>"

subsection \<open>Byte layout\<close>

fun le_bytes :: "nat \<Rightarrow> nat \<Rightarrow> u8 list" where
  "le_bytes 0 n = []"
| "le_bytes (Suc k) n = of_nat (n mod 256) # le_bytes k (n div 256)"

fun le_nat :: "u8 list \<Rightarrow> nat" where
  "le_nat [] = 0"
| "le_nat (b # bs) = unat b + 256 * le_nat bs"

definition put16 :: "u16 \<Rightarrow> u8 list" where "put16 w = le_bytes 2 (unat w)"
definition put32 :: "u32 \<Rightarrow> u8 list" where "put32 w = le_bytes 4 (unat w)"
definition put64 :: "u64 \<Rightarrow> u8 list" where "put64 w = le_bytes 8 (unat w)"

text \<open>Reading a field at an offset.\<close>

definition get16 :: "nat \<Rightarrow> u8 list \<Rightarrow> u16" where "get16 off bs = of_nat (le_nat (take 2 (drop off bs)))"
definition get32 :: "nat \<Rightarrow> u8 list \<Rightarrow> u32" where "get32 off bs = of_nat (le_nat (take 4 (drop off bs)))"
definition get64 :: "nat \<Rightarrow> u8 list \<Rightarrow> u64" where "get64 off bs = of_nat (le_nat (take 8 (drop off bs)))"

definition put_header :: "IPCPacketHeader \<Rightarrow> u8 list" where
  "put_header h = put32 (ph_magic h) @ put16 (ph_version h) @ put16 (ph_flags h) @ put32 (ph_type h)
     @ put32 (ph_messageSize h) @ put32 (ph_seqId h) @ put32 (ph_deviceId h) @ put32 (ph_pid h)"

definition get_header :: "u8 list \<Rightarrow> IPCPacketHeader" where
  "get_header bs =
     \<lparr>ph_magic = get32 0 bs, ph_version = get16 4 bs, ph_flags = get16 6 bs, ph_type = get32 8 bs,
      ph_messageSize = get32 12 bs, ph_seqId = get32 16 bs, ph_deviceId = get32 20 bs, ph_pid = get32 24 bs\<rparr>"

definition sizeof_header :: nat where "sizeof_header = 28"
definition sizeof_telemetry_response :: nat where "sizeof_telemetry_response = 52"

subsection \<open>The telemetry response\<close>

definition getSerializedIPCDeviceTelemetryResponseSize :: "IPCDeviceTelemetryPayload \<Rightarrow> nat" where
  "getSerializedIPCDeviceTelemetryResponseSize telemetry =
     (let coreCount = length (cores telemetry)
      in sizeof_telemetry_response + 4 * coreCount + 4 * coreCount + 4 * coreCount + 4 * coreCount)"

definition serializeIPCDeviceTelemetryResponsePacket ::
  "u32 \<Rightarrow> bool \<Rightarrow> IPCPacketHeader \<Rightarrow> IPCDeviceTelemetryPayload \<Rightarrow> errno + u8 list" where
  "serializeIPCDeviceTelemetryResponsePacket current_pid response_is_null requestHeader telemetry =
     (if response_is_null then Inl EINVAL
      else
        let totalSize = getSerializedIPCDeviceTelemetryResponseSize telemetry
        in if kIPCMaxMessageSize < totalSize then Inl EMSGSIZE
           else
             let header = (initializeIPCPacketHeader current_pid MsgGetDeviceTelemetryResponse
                             (of_nat (totalSize - sizeof_header)) (ph_seqId requestHeader) (ph_pid requestHeader)
                             kIPCPacketWireVersion)\<lparr>ph_deviceId := ph_deviceId requestHeader\<rparr>
             in Inr (put_header header @ put32 (tl_result telemetry) @ put32 (of_nat (length (cores telemetry)))
                  @ put64 (usedMemoryBytes telemetry) @ put64 (freeMemoryBytes telemetry)
                  @ concat (map (\<lambda>c. put32 (utilizationPermille c)) (cores telemetry))
                  @ concat (map (\<lambda>c. put32 (temperature c)) (cores telemetry))
                  @ concat (map (\<lambda>c. put32 (clock c)) (cores telemetry))
                  @ concat (map (\<lambda>c. put32 (voltage c)) (cores telemetry))))"

text \<open>
  The parser: the error, the header if it was written (it is, before the header is validated), and the
  telemetry if it was written.
\<close>

definition deserializeIPCDeviceTelemetryResponsePacket ::
  "u8 list option \<Rightarrow> (errno option \<times> IPCPacketHeader option \<times> IPCDeviceTelemetryPayload option)" where
  "deserializeIPCDeviceTelemetryResponsePacket message =
     (case message of
        None \<Rightarrow> (Some EINVAL, None, None)
      | Some bs \<Rightarrow>
          if length bs < sizeof_telemetry_response then (Some EMSGSIZE, None, None)
          else
            let header = get_header bs
            in if \<not> isValidIPCPacketHeader header then (Some EPROTO, Some header, None)
               else if ph_type header \<noteq> type_value MsgGetDeviceTelemetryResponse then (Some EPROTO, Some header, None)
               else
                 let coreCount = unat (get32 32 bs);
                     expectedSize = sizeof_telemetry_response + 4 * coreCount + 4 * coreCount + 4 * coreCount + 4 * coreCount
                 in if length bs \<noteq> expectedSize then (Some EMSGSIZE, Some header, None)
                    else if unat (ph_messageSize header) \<noteq> expectedSize - sizeof_header then (Some EMSGSIZE, Some header, None)
                    else
                      (None, Some header,
                       Some \<lparr>tl_result = get32 28 bs, usedMemoryBytes = get64 36 bs, freeMemoryBytes = get64 44 bs,
                             cores = map (\<lambda>i. \<lparr>utilizationPermille = get32 (52 + 4 * i) bs,
                                               temperature = get32 (52 + 4 * coreCount + 4 * i) bs,
                                               clock = get32 (52 + 8 * coreCount + 4 * i) bs,
                                               voltage = get32 (52 + 12 * coreCount + 4 * i) bs\<rparr>) [0..<coreCount]\<rparr>))"

subsection \<open>Round trip\<close>

lemma length_le_bytes [simp]: "length (le_bytes k n) = k"
  by (induction k n rule: le_bytes.induct) auto

lemma le_nat_le_bytes: "le_nat (le_bytes k n) = n mod 256 ^ k"
proof (induction k n rule: le_bytes.induct)
  case (2 k n)
  have "unat (of_nat (n mod 256) :: u8) = n mod 256" by (rule unat_of_nat_small) simp
  with 2 show ?case by (simp add: mod_mult2_eq)
qed simp

lemma length_put [simp]: "length (put16 a) = 2" "length (put32 b) = 4" "length (put64 c) = 8"
  by (simp_all add: put16_def put32_def put64_def)

lemma le_nat_put:
  "le_nat (put16 a) = unat a" "le_nat (put32 b) = unat b" "le_nat (put64 c) = unat c"
  using unsigned_less [of a, where ?'a = nat] unsigned_less [of b, where ?'a = nat] unsigned_less [of c, where ?'a = nat]
  by (simp_all add: put16_def put32_def put64_def le_nat_le_bytes)

lemma get_put_at:
  "length xs = off \<Longrightarrow> get16 off (xs @ put16 a @ ys) = a"
  "length xs = off \<Longrightarrow> get32 off (xs @ put32 b @ ys) = b"
  "length xs = off \<Longrightarrow> get64 off (xs @ put64 c @ ys) = c"
  by (simp_all add: get16_def get32_def get64_def le_nat_put)

lemma get_put_head:
  "get16 0 (put16 a @ ys) = a" "get32 0 (put32 b @ ys) = b" "get64 0 (put64 c @ ys) = c"
  by (simp_all add: get16_def get32_def get64_def le_nat_put)

lemma get_skip:
  "length xs \<le> off \<Longrightarrow> get16 off (xs @ ys) = get16 (off - length xs) ys"
  "length xs \<le> off \<Longrightarrow> get32 off (xs @ ys) = get32 (off - length xs) ys"
  "length xs \<le> off \<Longrightarrow> get64 off (xs @ ys) = get64 (off - length xs) ys"
  by (simp_all add: get16_def get32_def get64_def)

lemmas get_layout = get_skip get_put_head

lemma length_put_header [simp]: "length (put_header h) = 28"
  by (simp add: put_header_def)

lemma get_put_header: "get_header (put_header h @ ys) = h"
  by (simp add: get_header_def put_header_def get_layout)

lemma length_concat_put32 [simp]: "length (concat (map (\<lambda>c. put32 (f c)) cs)) = 4 * length cs"
  by (induction cs) auto

lemma get_concat_put32:
  "i < length cs \<Longrightarrow> get32 (4 * i) (concat (map (\<lambda>c. put32 (f c)) cs) @ ys) = f (cs ! i)"
proof (induction cs arbitrary: i)
  case (Cons c cs)
  show ?case
  proof (cases i)
    case (Suc j)
    have "get32 (4 * Suc j) (put32 (f c) @ concat (map (\<lambda>c. put32 (f c)) cs) @ ys)
        = get32 (4 * j) (concat (map (\<lambda>c. put32 (f c)) cs) @ ys)"
      by (subst get_skip) auto
    with Cons Suc show ?thesis by simp
  qed (simp add: get_put_head)
qed simp

text \<open>The four arrays of the telemetry response, at their offsets.\<close>

lemma get_core_arrays:
  fixes cs :: "IPCDeviceTelemetryCoreData list"
  defines "n \<equiv> length cs"
  assumes "length pre = 52" "i < n"
    and "bs = pre @ concat (map (\<lambda>c. put32 (utilizationPermille c)) cs) @ concat (map (\<lambda>c. put32 (temperature c)) cs)
      @ concat (map (\<lambda>c. put32 (clock c)) cs) @ concat (map (\<lambda>c. put32 (voltage c)) cs)"
  shows "get32 (52 + 4 * i) bs = utilizationPermille (cs ! i)" "get32 (52 + 4 * n + 4 * i) bs = temperature (cs ! i)"
    "get32 (52 + 8 * n + 4 * i) bs = clock (cs ! i)" "get32 (52 + 12 * n + 4 * i) bs = voltage (cs ! i)"
proof -
  have e: "get32 (4 * i) (concat (map (\<lambda>c. put32 (voltage c)) cs)) = voltage (cs ! i)"
    using get_concat_put32 [of i cs voltage "[]"] assms(3) by (simp add: n_def)
  show "get32 (52 + 4 * i) bs = utilizationPermille (cs ! i)" "get32 (52 + 4 * n + 4 * i) bs = temperature (cs ! i)"
    "get32 (52 + 8 * n + 4 * i) bs = clock (cs ! i)" "get32 (52 + 12 * n + 4 * i) bs = voltage (cs ! i)"
    using assms(2,3) e by (simp_all add: assms(4) get_skip get_concat_put32 n_def)
qed

lemma valid_telemetry_header:
  "ph_magic h = kIPCPacketMagic \<Longrightarrow> ph_type h = type_value MsgGetDeviceTelemetryResponse \<Longrightarrow>
   ph_version h = kIPCPacketWireVersion \<Longrightarrow> 0 \<le> sint (ph_seqId h) \<Longrightarrow> isValidIPCPacketHeader h"
  by (simp add: isValidIPCPacketHeader_def isValidIPCMessageType_def all_message_types_def)

text \<open>
  Claim C20. Telemetry packets round trip: what the serialiser writes (for a request with a
  non-negative sequence number), the parser accepts, with the header of the response and exactly the
  telemetry that was sent; the packet is 52 bytes plus 16 per core and fits the maximum message size.
\<close>
theorem telemetry_roundtrip:
  assumes "serializeIPCDeviceTelemetryResponsePacket current_pid False req tel = Inr bs" "0 \<le> sint (ph_seqId req)"
  shows "deserializeIPCDeviceTelemetryResponsePacket (Some bs) =
      (None, Some \<lparr>ph_magic = kIPCPacketMagic, ph_version = kIPCPacketWireVersion, ph_flags = 0,
        ph_type = type_value MsgGetDeviceTelemetryResponse, ph_messageSize = of_nat (length bs - 28),
        ph_seqId = ph_seqId req, ph_deviceId = ph_deviceId req,
        ph_pid = (if ph_pid req = 0 then current_pid else ph_pid req)\<rparr>, Some tel)
    \<and> length bs = 52 + 16 * length (cores tel) \<and> length bs \<le> kIPCMaxMessageSize"
proof -
  let ?n = "length (cores tel)"
  define h where "h = \<lparr>ph_magic = kIPCPacketMagic, ph_version = kIPCPacketWireVersion, ph_flags = 0,
        ph_type = type_value MsgGetDeviceTelemetryResponse, ph_messageSize = of_nat (24 + 16 * ?n),
        ph_seqId = ph_seqId req, ph_deviceId = ph_deviceId req,
        ph_pid = (if ph_pid req = 0 then current_pid else ph_pid req)\<rparr>"
  define pre where "pre = put_header h @ put32 (tl_result tel) @ put32 (of_nat ?n) @ put64 (usedMemoryBytes tel) @ put64 (freeMemoryBytes tel)"
  have max: "52 + 16 * ?n \<le> kIPCMaxMessageSize" and bs: "bs = pre
      @ concat (map (\<lambda>c. put32 (utilizationPermille c)) (cores tel)) @ concat (map (\<lambda>c. put32 (temperature c)) (cores tel))
      @ concat (map (\<lambda>c. put32 (clock c)) (cores tel)) @ concat (map (\<lambda>c. put32 (voltage c)) (cores tel))"
    using assms(1)
    by (auto simp: serializeIPCDeviceTelemetryResponsePacket_def getSerializedIPCDeviceTelemetryResponseSize_def
        initializeIPCPacketHeader_def sizeof_header_def sizeof_telemetry_response_def Let_def pre_def h_def split: if_splits)
  have pre: "length pre = 52" by (simp add: pre_def)
  have len: "length bs = 52 + 16 * ?n" by (simp add: bs pre)
  have n: "?n < 4294967296" "24 + 16 * ?n < 4294967296" using max by (auto simp: kIPCMaxMessageSize_def)
  have hd: "get_header bs = h" by (simp add: bs pre_def get_put_header)
  have fields: "get32 28 bs = tl_result tel" "get32 32 bs = of_nat ?n" "get64 36 bs = usedMemoryBytes tel" "get64 44 bs = freeMemoryBytes tel"
    by (simp_all add: bs pre_def get_layout)
  have un: "unat (of_nat ?n :: u32) = ?n" "unat (of_nat (24 + 16 * ?n) :: u32) = 24 + 16 * ?n"
    using n unat_of_nat_small [where ?'a = 32, of ?n] unat_of_nat_small [where ?'a = 32, of "24 + 16 * ?n"] by simp_all
  have valid: "isValidIPCPacketHeader h" using assms(2) by (intro valid_telemetry_header) (simp_all add: h_def)
  have ht: "ph_type h = type_value MsgGetDeviceTelemetryResponse" "unat (ph_messageSize h) = 24 + 16 * ?n"
    using un(2) by (simp_all add: h_def)
  have cs: "map (\<lambda>i. \<lparr>utilizationPermille = get32 (52 + 4 * i) bs, temperature = get32 (52 + 4 * ?n + 4 * i) bs,
      clock = get32 (52 + 8 * ?n + 4 * i) bs, voltage = get32 (52 + 12 * ?n + 4 * i) bs\<rparr>) [0..<?n] = cores tel"
    by (rule nth_equalityI) (simp_all add: get_core_arrays [OF pre _ bs])
  have "deserializeIPCDeviceTelemetryResponsePacket (Some bs) = (None, Some h,
      Some \<lparr>tl_result = tl_result tel, usedMemoryBytes = usedMemoryBytes tel, freeMemoryBytes = freeMemoryBytes tel, cores = cores tel\<rparr>)"
    using len valid ht cs
    by (simp add: deserializeIPCDeviceTelemetryResponsePacket_def Let_def hd fields un(1)
        sizeof_telemetry_response_def sizeof_header_def)
  then show ?thesis using len max by (simp add: h_def)
qed

theorem telemetry_roundtrip_witness:
  "\<exists>bs h. serializeIPCDeviceTelemetryResponsePacket 42 False \<lparr>ph_magic = 0, ph_version = 0, ph_flags = 0, ph_type = 0,
       ph_messageSize = 0, ph_seqId = 7, ph_deviceId = 1, ph_pid = 0\<rparr>
       \<lparr>tl_result = 0, usedMemoryBytes = 4096, freeMemoryBytes = 8192,
        cores = [\<lparr>utilizationPermille = 500, temperature = -5, clock = 1000, voltage = 800\<rparr>]\<rparr> = Inr bs
     \<and> length bs = 68
     \<and> deserializeIPCDeviceTelemetryResponsePacket (Some bs) = (None, Some h,
         Some \<lparr>tl_result = 0, usedMemoryBytes = 4096, freeMemoryBytes = 8192,
          cores = [\<lparr>utilizationPermille = 500, temperature = -5, clock = 1000, voltage = 800\<rparr>]\<rparr>)"
proof -
  let ?h = "\<lparr>ph_magic = 0, ph_version = 0, ph_flags = 0, ph_type = 0,
       ph_messageSize = 0, ph_seqId = 7, ph_deviceId = 1, ph_pid = 0\<rparr>"
  let ?t = "\<lparr>tl_result = 0, usedMemoryBytes = 4096, freeMemoryBytes = 8192,
        cores = [\<lparr>utilizationPermille = 500, temperature = -5, clock = 1000, voltage = 800\<rparr>]\<rparr>"
  obtain bs where b: "serializeIPCDeviceTelemetryResponsePacket 42 False ?h ?t = Inr bs"
    by (simp add: serializeIPCDeviceTelemetryResponsePacket_def getSerializedIPCDeviceTelemetryResponseSize_def
        sizeof_telemetry_response_def kIPCMaxMessageSize_def Let_def)
  have "0 \<le> sint (ph_seqId ?h)" by simp
  from telemetry_roundtrip [OF b this] b show ?thesis by auto
qed

text \<open>
  A sequence number is always positive, whatever the other threads do to the counter; alone,
  the function hands out the counter and increments it. But when the counter passes the largest
  32-bit value, the number 1 is handed out twice in a row: the call that resets the counter sets it
  to 1, the value it returns itself.
\<close>
theorem sequence_id_positive_but_repeats:
  "0 < sint (fst (getNextIPCPacketSequenceId env1 env2 c))
   \<and> (let (a, c1) = getNextIPCPacketSequenceId id id 0x7FFFFFFF;
           (b, c2) = getNextIPCPacketSequenceId id id c1;
           (b', c3) = getNextIPCPacketSequenceId id id c2
       in a = 0x7FFFFFFF \<and> b = 1 \<and> b' = 1)"
proof -
  have "let (a, c1) = getNextIPCPacketSequenceId id id 0x7FFFFFFF;
           (b, c2) = getNextIPCPacketSequenceId id id c1;
           (b', c3) = getNextIPCPacketSequenceId id id c2
       in a = 0x7FFFFFFF \<and> b = 1 \<and> b' = 1" by code_simp
  moreover have "0 < sint (fst (getNextIPCPacketSequenceId env1 env2 c))"
    by (auto simp: getNextIPCPacketSequenceId_def normalizeSequenceId_def Let_def)
  ultimately show ?thesis by blast
qed

end
