(* ===== verification/Circular_Buffer.thy ===== *)
theory Circular_Buffer
  imports Prelude
begin

section \<open>Ring buffers\<close>

text \<open>
  \<^verbatim>\<open>src/lib/circular_buffer.cpp\<close> (the ring buffer of recent measurements, which overwrites its oldest
  entry when it is full) and \<^verbatim>\<open>src/lib/include/dxrt/circular_data_pool.h\<close> (the pool of reusable request
  objects, each with an in-use flag). The mutex makes each operation atomic. The ring buffer refines
  a bounded list, stated as the interface \<open>bounded_log\<close>.
\<close>

record 'a CircularBuffer =
  cb_buf :: "'a list"
  cb_size :: nat
  cb_head :: nat
  cb_tail :: nat
  cb_count :: nat

definition CircularBuffer_new :: "'a \<Rightarrow> nat \<Rightarrow> 'a CircularBuffer" where
  "CircularBuffer_new dflt n = \<lparr>cb_buf = replicate n dflt, cb_size = n, cb_head = 0, cb_tail = 0, cb_count = 0\<rparr>"

definition Push :: "'a \<Rightarrow> 'a CircularBuffer \<Rightarrow> 'a CircularBuffer" where
  "Push item b =
     (let b1 = b\<lparr>cb_buf := (cb_buf b)[cb_head b := item], cb_head := (cb_head b + 1) mod cb_size b\<rparr>
      in if cb_count b1 = cb_size b1 then b1\<lparr>cb_tail := (cb_tail b1 + 1) mod cb_size b1\<rparr>
         else b1\<lparr>cb_count := cb_count b1 + 1\<rparr>)"

text \<open>\<open>Pop\<close> and \<open>Get\<close> throw on an empty buffer: None.\<close>

definition Pop :: "'a CircularBuffer \<Rightarrow> ('a \<times> 'a CircularBuffer) option" where
  "Pop b =
     (if cb_count b = 0 then None
      else Some (cb_buf b ! cb_tail b, b\<lparr>cb_tail := (cb_tail b + 1) mod cb_size b, cb_count := cb_count b - 1\<rparr>))"

definition Get :: "'a CircularBuffer \<Rightarrow> 'a option" where
  "Get b = (if cb_count b = 0 then None else Some (cb_buf b ! ((cb_head b + cb_size b - 1) mod cb_size b)))"

definition IsEmpty :: "'a CircularBuffer \<Rightarrow> bool" where "IsEmpty b \<longleftrightarrow> cb_count b = 0"
definition IsFull :: "'a CircularBuffer \<Rightarrow> bool" where "IsFull b \<longleftrightarrow> cb_count b = cb_size b"
definition buffer_size :: "'a CircularBuffer \<Rightarrow> nat" where "buffer_size b = cb_size b"
definition buffer_count :: "'a CircularBuffer \<Rightarrow> nat" where "buffer_count b = cb_count b"

fun vector_loop :: "nat \<Rightarrow> nat \<Rightarrow> 'a CircularBuffer \<Rightarrow> 'a list" where
  "vector_loop 0 cur b = []"
| "vector_loop (Suc i) cur b = cb_buf b ! cur # vector_loop i ((cur + 1) mod cb_size b) b"

definition ToVector :: "'a CircularBuffer \<Rightarrow> 'a list" where
  "ToVector b = vector_loop (cb_count b) (cb_tail b) b"

subsection \<open>The data pool\<close>

text \<open>The pool as the list of in-use flags; an element is its index.\<close>

record CircularDataPool =
  dp_flags :: "bool list"
  dp_headIndex :: nat

definition CircularDataPool_new :: "nat \<Rightarrow> CircularDataPool" where
  "CircularDataPool_new n = \<lparr>dp_flags = replicate n False, dp_headIndex = 0\<rparr>"

definition GetSize :: "CircularDataPool \<Rightarrow> nat" where "GetSize p = length (dp_flags p)"

fun pick_loop :: "nat \<Rightarrow> CircularDataPool \<Rightarrow> nat option \<times> CircularDataPool" where
  "pick_loop 0 p = (None, p)"
| "pick_loop (Suc k) p =
     (let i = dp_headIndex p;
          p1 = p\<lparr>dp_headIndex := (if i + 1 = length (dp_flags p) then 0 else i + 1)\<rparr>
      in if \<not> dp_flags p ! i then (Some i, p1\<lparr>dp_flags := (dp_flags p)[i := True]\<rparr>)
         else pick_loop k p1)"

definition pick :: "CircularDataPool \<Rightarrow> nat option \<times> CircularDataPool" where
  "pick p = (if dp_flags p = [] then (None, p) else pick_loop (length (dp_flags p)) p)"

definition GetById :: "int \<Rightarrow> CircularDataPool \<Rightarrow> nat option" where
  "GetById i p = (if 0 \<le> i \<and> i < int (length (dp_flags p)) then Some (nat i) else None)"

subsection \<open>The interface of a bounded log\<close>

locale bounded_log =
  fixes ok :: "'b \<Rightarrow> bool" and contents :: "'b \<Rightarrow> 'a list" and capacity :: "'b \<Rightarrow> nat"
    and push :: "'a \<Rightarrow> 'b \<Rightarrow> 'b" and pop :: "'b \<Rightarrow> ('a \<times> 'b) option"
  assumes push_ok: "ok b \<Longrightarrow> ok (push x b)"
    and push_contents: "ok b \<Longrightarrow> contents (push x b)
      = (if length (contents b) = capacity b then tl (contents b) @ [x] else contents b @ [x])"
    and push_capacity: "ok b \<Longrightarrow> capacity (push x b) = capacity b"
    and bounded: "ok b \<Longrightarrow> length (contents b) \<le> capacity b \<and> 0 < capacity b"
    and pop_contents: "ok b \<Longrightarrow> pop b = (case contents b of [] \<Rightarrow> None | x # xs \<Rightarrow> Some (x, snd (the (pop b))))"
    and pop_rest: "ok b \<Longrightarrow> contents b = x # xs \<Longrightarrow> ok (snd (the (pop b))) \<and> contents (snd (the (pop b))) = xs
      \<and> capacity (snd (the (pop b))) = capacity b"
begin

text \<open>After pushing a list, the log holds the most recent entries, as many as fit.\<close>

lemma push_list:
  "ok b \<Longrightarrow> ok (fold push xs b) \<and> capacity (fold push xs b) = capacity b
   \<and> contents (fold push xs b) = drop (length (contents b) + length xs - capacity b) (contents b @ xs)"
proof (induction xs arbitrary: b)
  case Nil
  then show ?case using bounded by simp
next
  case (Cons x xs)
  note b = bounded [OF Cons.prems]
  have ih: "contents (fold push xs (push x b))
      = drop (length (contents (push x b)) + length xs - capacity b) (contents (push x b) @ xs)"
    using Cons.IH [OF push_ok [OF Cons.prems]] push_capacity [OF Cons.prems] by simp
  have "contents (fold push (x # xs) b) = drop (length (contents b) + length (x # xs) - capacity b) (contents b @ x # xs)"
  proof (cases "length (contents b) = capacity b")
    case True
    then have "contents b \<noteq> []" using b by auto
    then obtain y ys where y: "contents b = y # ys" by (cases "contents b") auto
    with True push_contents [OF Cons.prems] have p: "contents (push x b) = ys @ [x]" by simp
    have "length ys + Suc 0 = capacity b" using True y by simp
    then show ?thesis using ih by (simp add: p y True [symmetric])
  next
    case False
    then show ?thesis using ih push_contents [OF Cons.prems] by simp
  qed
  then show ?case using Cons.IH [OF push_ok [OF Cons.prems]] push_capacity [OF Cons.prems] by simp
qed

end

definition cb_ok :: "'a CircularBuffer \<Rightarrow> bool" where
  "cb_ok b \<longleftrightarrow> 0 < cb_size b \<and> length (cb_buf b) = cb_size b \<and> cb_tail b < cb_size b
     \<and> cb_count b \<le> cb_size b \<and> cb_head b = (cb_tail b + cb_count b) mod cb_size b"

lemma vector_loop_nth:
  "vector_loop k cur b = map (\<lambda>i. cb_buf b ! ((cur + i) mod cb_size b)) [0..<k]" if "cur < cb_size b"
  using that
proof (induction k arbitrary: cur)
  case (Suc k)
  have "(cur + 1) mod cb_size b < cb_size b" using Suc.prems by (intro mod_less_divisor) linarith
  from Suc.IH [OF this] have "vector_loop k ((cur + 1) mod cb_size b) b
      = map (\<lambda>i. cb_buf b ! ((cur + Suc i) mod cb_size b)) [0..<k]"
    by (simp add: mod_add_left_eq)
  moreover have "[0..<Suc k] = 0 # map Suc [0..<k]" by (simp add: map_Suc_upt upt_conv_Cons)
  ultimately show ?case using Suc.prems by (simp add: comp_def del: upt_Suc)
qed simp

lemma ToVector_nth: "cb_ok b \<Longrightarrow> ToVector b = map (\<lambda>i. cb_buf b ! ((cb_tail b + i) mod cb_size b)) [0..<cb_count b]"
  unfolding ToVector_def by (rule vector_loop_nth) (simp add: cb_ok_def)

lemma mod_shift_neq: "i < k \<Longrightarrow> k < n \<Longrightarrow> (t + i) mod n \<noteq> (t + k) mod (n::nat)"
proof
  assume a: "i < k" "k < n" "(t + i) mod n = (t + k) mod n"
  then have "n dvd (t + k) - (t + i)" by (metis add_le_mono1 add.commute less_imp_le mod_eq_dvd_iff_nat)
  then have "n dvd k - i" by simp
  with a(1,2) show False by (meson dvd_imp_le diff_le_self le_less_trans not_less zero_less_diff)
qed

lemma Push_not_full:
  assumes "cb_ok b" "cb_count b < cb_size b"
  shows "cb_ok (Push x b) \<and> ToVector (Push x b) = ToVector b @ [x]"
proof -
  let ?b = "Push x b"
  have f: "cb_size ?b = cb_size b" "cb_tail ?b = cb_tail b" "cb_count ?b = Suc (cb_count b)"
    "cb_buf ?b = (cb_buf b)[cb_head b := x]" "cb_head ?b = (cb_head b + 1) mod cb_size b"
    using assms(2) by (simp_all add: Push_def Let_def)
  have h: "cb_head b = (cb_tail b + cb_count b) mod cb_size b" "cb_head b < length (cb_buf b)"
    using assms(1) by (auto simp: cb_ok_def)
  have ok: "cb_ok ?b" using assms f by (auto simp: cb_ok_def mod_add_left_eq mod_Suc_eq)
  have old: "map (\<lambda>i. cb_buf ?b ! ((cb_tail b + i) mod cb_size b)) [0..<cb_count b] = ToVector b"
    unfolding ToVector_nth [OF assms(1)]
    using not_sym [OF mod_shift_neq [OF _ assms(2), of _ "cb_tail b"]] h by (auto simp: f(4))
  have "ToVector ?b = map (\<lambda>i. cb_buf ?b ! ((cb_tail b + i) mod cb_size b)) [0..<Suc (cb_count b)]"
    using ToVector_nth [OF ok] f(1-3) by simp
  also have "\<dots> = ToVector b @ [x]" using old h by (simp add: f(4))
  finally show ?thesis using ok by simp
qed

lemma Push_full:
  assumes "cb_ok b" "cb_count b = cb_size b"
  shows "cb_ok (Push x b) \<and> ToVector (Push x b) = tl (ToVector b) @ [x]"
proof -
  let ?b = "Push x b" and ?n = "cb_size b" and ?t = "cb_tail b"
  obtain k where n: "?n = Suc k" using assms(1) by (cases ?n) (auto simp: cb_ok_def)
  have h: "cb_head b = ?t" using assms by (simp add: cb_ok_def)
  have f: "cb_size ?b = ?n" "cb_tail ?b = (?t + 1) mod ?n" "cb_count ?b = ?n"
    "cb_buf ?b = (cb_buf b)[?t := x]" "cb_head ?b = (?t + 1) mod ?n"
    using assms(2) h by (simp_all add: Push_def Let_def)
  have t: "?t < ?n" "length (cb_buf b) = ?n" using assms(1) by (auto simp: cb_ok_def)
  have ok: "cb_ok ?b" using assms f by (auto simp: cb_ok_def)
  have "ToVector ?b = map (\<lambda>i. cb_buf ?b ! ((?t + Suc i) mod ?n)) [0..<?n]"
    unfolding ToVector_nth [OF ok] f(1-3) by (simp add: mod_add_left_eq)
  also have "\<dots> = map (\<lambda>i. cb_buf ?b ! ((?t + Suc i) mod ?n)) [0..<k] @ [cb_buf ?b ! ((?t + ?n) mod ?n)]"
    unfolding n by simp
  also have "\<dots> = map (\<lambda>i. cb_buf b ! ((?t + Suc i) mod ?n)) [0..<k] @ [x]"
  proof -
    have "?t \<noteq> (?t + Suc i) mod ?n" if "i < k" for i
      using mod_shift_neq [of 0 "Suc i" ?n ?t] that n t(1) by simp
    then show ?thesis using t by (auto simp: f(4))
  qed
  also have "map (\<lambda>i. cb_buf b ! ((?t + Suc i) mod ?n)) [0..<k] = tl (ToVector b)"
    unfolding ToVector_nth [OF assms(1)] assms(2) n
    by (simp add: map_Suc_upt [symmetric] upt_conv_Cons comp_def del: upt_Suc)
  finally show ?thesis using ok by simp
qed

lemma length_ToVector [simp]: "cb_ok b \<Longrightarrow> length (ToVector b) = cb_count b"
  by (simp add: ToVector_nth)

lemma Push_size [simp]: "cb_size (Push x b) = cb_size b"
  by (simp add: Push_def Let_def)

lemma Pop_nonempty:
  assumes "cb_ok b" "0 < cb_count b"
  shows "\<exists>b'. Pop b = Some (hd (ToVector b), b') \<and> cb_ok b' \<and> ToVector b' = tl (ToVector b) \<and> cb_size b' = cb_size b"
proof -
  obtain k where k: "cb_count b = Suc k" using assms(2) by (cases "cb_count b") auto
  let ?b = "b\<lparr>cb_tail := (cb_tail b + 1) mod cb_size b, cb_count := k\<rparr>"
  have ok: "cb_ok ?b" using assms k by (auto simp: cb_ok_def mod_add_left_eq)
  have v: "ToVector b = cb_buf b ! cb_tail b # map (\<lambda>i. cb_buf b ! ((cb_tail b + Suc i) mod cb_size b)) [0..<k]"
    unfolding ToVector_nth [OF assms(1)] k using assms(1)
    by (simp add: map_Suc_upt [symmetric] upt_conv_Cons comp_def cb_ok_def del: upt_Suc)
  have "ToVector ?b = tl (ToVector b)"
    unfolding ToVector_nth [OF ok] v by (simp add: mod_add_left_eq)
  moreover have "Pop b = Some (hd (ToVector b), ?b)" using k by (simp add: Pop_def v)
  ultimately show ?thesis using ok by auto
qed

interpretation ring: bounded_log cb_ok ToVector cb_size Push Pop
proof (unfold_locales, goal_cases)
  case (1 b x) then show ?case using Push_full Push_not_full by (metis cb_ok_def le_neq_implies_less)
next
  case (2 b x) then show ?case using Push_full Push_not_full length_ToVector by (metis cb_ok_def le_neq_implies_less)
next
  case (3 b x) then show ?case by simp
next
  case (4 b) then show ?case by (simp add: cb_ok_def)
next
  case (5 b)
  show ?case
  proof (cases "cb_count b = 0")
    case True then show ?thesis by (simp add: Pop_def ToVector_def)
  next
    case False
    then obtain b' where "Pop b = Some (hd (ToVector b), b')" using Pop_nonempty 5 by blast
    moreover have "ToVector b \<noteq> []" using False 5 by (metis length_ToVector length_0_conv)
    ultimately show ?thesis by (cases "ToVector b") auto
  qed
next
  case (6 b x xs)
  then have "0 < cb_count b" by (metis length_ToVector length_Cons zero_less_Suc)
  then obtain b' where "Pop b = Some (hd (ToVector b), b')" "cb_ok b'" "ToVector b' = tl (ToVector b)" "cb_size b' = cb_size b"
    using Pop_nonempty 6(1) by blast
  with 6(2) show ?case by simp
qed

subsection \<open>The pool hands out free elements only\<close>

definition dp_ok :: "CircularDataPool \<Rightarrow> bool" where
  "dp_ok p \<longleftrightarrow> dp_headIndex p < length (dp_flags p)"

lemma pick_loop_spec:
  assumes "dp_ok p"
  shows "case pick_loop k p of
      (Some i, p') \<Rightarrow> i < length (dp_flags p) \<and> \<not> dp_flags p ! i \<and> dp_flags p' = (dp_flags p)[i := True] \<and> dp_ok p'
    | (None, p') \<Rightarrow> dp_flags p' = dp_flags p \<and> dp_ok p'
        \<and> (\<forall>j < k. dp_flags p ! ((dp_headIndex p + j) mod length (dp_flags p)))"
  using assms
proof (induction k arbitrary: p)
  case (Suc k)
  let ?n = "length (dp_flags p)" and ?i = "dp_headIndex p"
  define p1 where "p1 = p\<lparr>dp_headIndex := (if ?i + 1 = ?n then 0 else ?i + 1)\<rparr>"
  have i: "?i < ?n" using Suc.prems by (simp add: dp_ok_def)
  have f: "dp_flags p1 = dp_flags p" "dp_headIndex p1 = (?i + 1) mod ?n" "dp_ok p1"
    using i by (auto simp: p1_def dp_ok_def mod_Suc)
  show ?case
  proof (cases "dp_flags p ! ?i")
    case False
    then show ?thesis using i f by (auto simp: Let_def p1_def dp_ok_def)
  next
    case True
    then have e: "pick_loop (Suc k) p = pick_loop k p1" by (simp add: Let_def p1_def)
    have all: "dp_flags p ! ((?i + j) mod ?n)" if "\<forall>j < k. dp_flags p ! ((?i + 1 + j) mod ?n)" "j < Suc k" for j
      using that True i by (cases j) auto
    show ?thesis using Suc.IH [OF f(3)] all unfolding e f(1,2)
      by (auto simp: mod_add_left_eq split: prod.splits option.splits)
  qed
qed simp

lemma mod_shift_surj: "i < n \<Longrightarrow> h < n \<Longrightarrow> \<exists>j < n. (h + j) mod n = (i::nat)"
  by (rule exI [of _ "if h \<le> i then i - h else n - h + i"]) auto

lemma pick_spec:
  assumes "dp_ok p"
  shows "case pick p of
      (Some i, p') \<Rightarrow> i < length (dp_flags p) \<and> \<not> dp_flags p ! i \<and> dp_flags p' = (dp_flags p)[i := True] \<and> dp_ok p'
    | (None, p') \<Rightarrow> dp_flags p' = dp_flags p \<and> dp_ok p' \<and> (\<forall>i < length (dp_flags p). dp_flags p ! i)"
proof -
  let ?n = "length (dp_flags p)"
  have h: "dp_headIndex p < ?n" using assms by (simp add: dp_ok_def)
  then have e: "pick p = pick_loop ?n p" by (auto simp: pick_def)
  have "(\<forall>j < ?n. dp_flags p ! ((dp_headIndex p + j) mod ?n)) \<Longrightarrow> \<forall>i < ?n. dp_flags p ! i"
    using mod_shift_surj [OF _ h] by metis
  then show ?thesis using pick_loop_spec [OF assms, of ?n] unfolding e by (auto split: prod.splits option.splits)
qed

subsection \<open>Properties\<close>

text \<open>
  Claim C17. The ring buffer refines a bounded list: starting from an empty buffer of capacity \<open>n\<close> and
  pushing the list \<open>xs\<close>, \<open>ToVector\<close> gives the last \<open>n\<close> elements of \<open>xs\<close> in order, and popping then
  returns the oldest of them and leaves the rest.
\<close>
theorem ring_keeps_latest:
  assumes "0 < n"
  shows "ToVector (fold Push xs (CircularBuffer_new dflt n)) = drop (length xs - n) xs
    \<and> (case Pop (fold Push xs (CircularBuffer_new dflt n)) of
         None \<Rightarrow> xs = []
       | Some (x, b) \<Rightarrow> drop (length xs - n) xs = x # ToVector b)"
proof -
  let ?b = "fold Push xs (CircularBuffer_new dflt n)"
  have ok: "cb_ok (CircularBuffer_new dflt n)" and e: "ToVector (CircularBuffer_new dflt n) = []"
    using assms by (auto simp: CircularBuffer_new_def cb_ok_def ToVector_def)
  from ring.push_list [OF ok, of xs] e
  have b: "cb_ok ?b" "ToVector ?b = drop (length xs - n) xs" by (simp_all add: CircularBuffer_new_def)
  have "case Pop ?b of None \<Rightarrow> xs = [] | Some (x, b) \<Rightarrow> drop (length xs - n) xs = x # ToVector b"
  proof (cases "ToVector ?b")
    case Nil
    with b(2) have "length xs \<le> length xs - n" by simp
    then have "xs = []" using assms by (cases xs) auto
    moreover have "Pop ?b = None" using ring.pop_contents [OF b(1)] unfolding Nil by simp
    ultimately show ?thesis by simp
  next
    case (Cons x ys)
    from ring.pop_contents [OF b(1)] Cons have p: "Pop ?b = Some (x, snd (the (Pop ?b)))" by simp
    from ring.pop_rest [OF b(1) Cons] b(2) Cons show ?thesis by (subst p) simp
  qed
  with b(2) show ?thesis by simp
qed

theorem ring_keeps_latest_witness:
  "ToVector (fold Push [1, 2, 3, 4, 5] (CircularBuffer_new (0::nat) 3)) = [3, 4, 5]"
  using ring_keeps_latest [of 3 "[1, 2, 3, 4, 5]" "0::nat"] by simp

text \<open>
  \<open>pick\<close> of the request pool returns an element that was free and marks it in use, and returns
  nothing only when every element is in use; no element is handed out twice before it is released.
\<close>
theorem pool_picks_free_element:
  assumes "dp_ok p"
  shows "case pick p of
      (Some i, p') \<Rightarrow> GetById (int i) p = Some i \<and> \<not> dp_flags p ! i \<and> dp_flags p' = (dp_flags p)[i := True] \<and> dp_ok p'
    | (None, p') \<Rightarrow> p' = p\<lparr>dp_headIndex := dp_headIndex p'\<rparr> \<and> (\<forall>i < GetSize p. dp_flags p ! i)"
  using pick_spec [OF assms] by (auto simp: GetById_def GetSize_def split: prod.splits option.splits)

subsection \<open>The interface of a pool\<close>

locale flag_pool =
  fixes ok :: "'p \<Rightarrow> bool" and flags :: "'p \<Rightarrow> bool list" and acquire :: "'p \<Rightarrow> nat option \<times> 'p"
  assumes acquire_ok: "ok p \<Longrightarrow> ok (snd (acquire p))"
    and acquire_some: "ok p \<Longrightarrow> fst (acquire p) = Some i \<Longrightarrow>
      i < length (flags p) \<and> \<not> flags p ! i \<and> flags (snd (acquire p)) = (flags p)[i := True]"
    and acquire_none: "ok p \<Longrightarrow> fst (acquire p) = None \<Longrightarrow>
      flags (snd (acquire p)) = flags p \<and> (\<forall>i < length (flags p). flags p ! i)"
begin

lemma acquire_iff_free: "ok p \<Longrightarrow> fst (acquire p) \<noteq> None \<longleftrightarrow> (\<exists>i < length (flags p). \<not> flags p ! i)"
  using acquire_some acquire_none by (metis not_None_eq)

lemma acquire_size: "ok p \<Longrightarrow> length (flags (snd (acquire p))) = length (flags p)"
  using acquire_some acquire_none by (cases "fst (acquire p)") auto

lemma never_twice:
  assumes "ok p" "fst (acquire p) = Some i" "fst (acquire (snd (acquire p))) = Some k"
  shows "k \<noteq> i"
  using acquire_some [OF assms(1,2)] acquire_some [OF acquire_ok [OF assms(1)] assms(3)] by auto

end

interpretation data_pool: flag_pool dp_ok dp_flags pick
proof
  show "dp_ok (snd (pick p))" if "dp_ok p" for p using pick_spec [OF that] by (auto split: prod.splits option.splits)
  show "i < length (dp_flags p) \<and> \<not> dp_flags p ! i \<and> dp_flags (snd (pick p)) = (dp_flags p)[i := True]"
    if "dp_ok p" "fst (pick p) = Some i" for p i using pick_spec [OF that(1)] that(2) by (auto split: prod.splits option.splits)
  show "dp_flags (snd (pick p)) = dp_flags p \<and> (\<forall>i < length (dp_flags p). dp_flags p ! i)"
    if "dp_ok p" "fst (pick p) = None" for p using pick_spec [OF that(1)] that(2) by (auto split: prod.splits option.splits)
qed

end
