(* ===== verification/Inference_Job.thy ===== *)
theory Inference_Job
  imports Task_Graph
begin

section \<open>Inference jobs\<close>

text \<open>
  \<^verbatim>\<open>src/lib/inference_job.cpp\<close>: one run of a model. A job keeps a status per task and the tensors
  produced so far; a finished request marks its task, publishes its outputs and starts every successor
  whose inputs are all there; the last one delivers the outputs. Requests finish on worker threads, so
  the model has both the functions of the source and a step relation \<open>job_step\<close> in which the critical
  sections of concurrent \<open>onRequestComplete\<close> calls interleave: the section that marks the task,
  \<open>checkAndSetTaskReady\<close>, \<open>processReadyTask\<close> and the final \<open>onAllRequestComplete\<close>. Starting a request
  (\<open>RequestResponse::InferenceRequest\<close>) hands it to the device or CPU workers; when and with which
  buffers it finishes is an input of the model. \<open>mem\<close> is the host memory, read and written by \<open>memcpy\<close>.
\<close>

datatype task_status = TASK_IDLE | TASK_READY | TASK_BUSY | TASK_DONE
datatype req_status = REQ_IDLE | REQ_BUSY | REQ_DONE

record Request =
  jr_task :: Task
  jr_inputs :: "Tensor list"
  jr_outputs :: "Tensor list"
  jr_requestorName :: string
  jr_userArg :: u64

text \<open>What the workers report for a finished request.\<close>

record completion =
  cp_outputs :: "Tensor list"
  cp_latency :: int
  cp_queueWaitTime :: int
  cp_inference_time :: u32

record InferenceJob =
  jb_requests :: "Request list"
  jb_tensors :: "(string \<times> Tensor) list"
  jb_taskStatusMap :: "(string \<times> task_status) list"
  jb_headTask :: "string option"
  jb_outputCount :: int
  jb_doneCount :: int
  jb_outputs :: "string list"
  jb_userArg :: u64
  jb_latency :: int
  jb_infTime :: u32
  jb_jobId :: int
  jb_tasks :: "Task list"
  jb_inputTasks :: "string list"
  jb_isMultiHead :: bool
  jb_modelInputNames :: "string list"
  jb_storeResult :: bool
  jb_returnOutputs :: "Tensor list"
  jb_outputPtr :: u64
  jb_use_flag :: bool
  jb_status :: req_status
  jb_occupiedJob :: bool
  jb_batchIndex :: int

subsection \<open>Set-up\<close>

definition Clear :: "InferenceJob \<Rightarrow> InferenceJob" where
  "Clear j = j\<lparr>jb_tensors := [], jb_tasks := [], jb_status := REQ_IDLE, jb_outputCount := 0, jb_doneCount := 0,
     jb_userArg := 0, jb_latency := 0, jb_infTime := 0, jb_outputPtr := 0, jb_storeResult := False,
     jb_inputTasks := [], jb_isMultiHead := False, jb_occupiedJob := False\<rparr>"

definition idle_statuses :: "Task list \<Rightarrow> (string \<times> task_status) list" where
  "idle_statuses tasks = fold (\<lambda>t m. case map_of m (tk_name t) of None \<Rightarrow> m @ [(tk_name t, TASK_IDLE)] | Some s \<Rightarrow> m) tasks []"

definition SetInferenceJob :: "Task list \<Rightarrow> string option \<Rightarrow> string list \<Rightarrow> string list \<Rightarrow> InferenceJob \<Rightarrow> InferenceJob" where
  "SetInferenceJob tasks head lastOutputOrder modelInputNames j =
     (Clear j)\<lparr>jb_headTask := head, jb_doneCount := 0, jb_latency := 0, jb_infTime := 0, jb_tasks := tasks,
       jb_outputs := lastOutputOrder, jb_modelInputNames := modelInputNames,
       jb_outputCount := int (length tasks), jb_taskStatusMap := idle_statuses tasks\<rparr>"

definition SetInferenceJobMultiHead ::
  "Task list \<Rightarrow> string list \<Rightarrow> string list \<Rightarrow> string list \<Rightarrow> InferenceJob \<Rightarrow> InferenceJob" where
  "SetInferenceJobMultiHead tasks inputTasks lastOutputOrder modelInputNames j =
     (Clear j)\<lparr>jb_isMultiHead := True, jb_inputTasks := inputTasks, jb_doneCount := 0, jb_latency := 0, jb_infTime := 0,
       jb_tasks := tasks, jb_outputs := lastOutputOrder, jb_modelInputNames := modelInputNames,
       jb_outputCount := int (length tasks), jb_taskStatusMap := idle_statuses tasks\<rparr>"

subsection \<open>Starting tasks\<close>

definition checkAndSetTaskReady :: "Task \<Rightarrow> InferenceJob \<Rightarrow> bool \<times> InferenceJob" where
  "checkAndSetTaskReady t j =
     (case map_of (jb_taskStatusMap j) (tk_name t) of
        None \<Rightarrow> (False, j)
      | Some s \<Rightarrow>
          if s \<noteq> TASK_IDLE then (False, j)
          else if \<exists>x \<in> set (tk_inputs t). map_of (jb_tensors j) (tn_name x) = None then (False, j)
          else (True, j\<lparr>jb_taskStatusMap := AList.update (tk_name t) TASK_READY (jb_taskStatusMap j)\<rparr>))"

definition fill_input :: "(string \<times> Tensor) list \<Rightarrow> Tensor \<Rightarrow> Tensor" where
  "fill_input tensors x =
     (case map_of tensors (tn_name x) of None \<Rightarrow> x | Some p \<Rightarrow> x\<lparr>tn_data := tn_data p, tn_phyAddr := tn_phyAddr p\<rparr>)"

definition processReadyTask :: "Task \<Rightarrow> InferenceJob \<Rightarrow> Request option \<times> InferenceJob" where
  "processReadyTask t j =
     (if map_of (jb_taskStatusMap j) (tk_name t) \<noteq> Some TASK_READY then (None, j)
      else
        (let inputs = map (fill_input (jb_tensors j)) (tk_inputs t) in
         if \<exists>x \<in> set inputs. tn_data x = 0 then
           (None, j\<lparr>jb_taskStatusMap := AList.update (tk_name t) TASK_IDLE (jb_taskStatusMap j)\<rparr>)
         else
           (let req = \<lparr>jr_task = t, jr_inputs = inputs, jr_outputs = [], jr_requestorName = tk_name t, jr_userArg = jb_userArg j\<rparr>
            in (Some req, j\<lparr>jb_requests := jb_requests j @ [req],
                  jb_taskStatusMap := AList.update (tk_name t) TASK_BUSY (jb_taskStatusMap j)\<rparr>))))"

text \<open>The tensors of a task over one buffer (\<open>Task::inputs(ptr)\<close>).\<close>

definition inputs_at :: "Task \<Rightarrow> u64 \<Rightarrow> Tensor list" where
  "inputs_at t ptr =
     (if ptr = 0 then tk_inputs t
      else map (\<lambda>(x, off). x\<lparr>tn_data := ptr + off, tn_phyAddr := off\<rparr>) (zip (tk_inputs t) (tk_inputOffsets t)))"

definition BuildUserOutputTensorsForTailTask :: "Task \<Rightarrow> u64 \<Rightarrow> string list \<Rightarrow> InferenceEngine \<Rightarrow> Tensor list" where
  "BuildUserOutputTensorsForTailTask t base order ie =
     (if base = 0 then []
      else map (\<lambda>x. x\<lparr>tn_data := base + GetOutputTensorOffset ie (tn_name x)\<rparr>) (filter (\<lambda>x. tn_name x \<in> set order) (tk_outputs t)))"

text \<open>
  A model input that a task other than the head uses becomes a tensor of the job, with the metadata of
  its first use. \<open>map::insert\<close> keeps an entry that is there.
\<close>

definition insert_absent :: "string \<Rightarrow> Tensor \<Rightarrow> (string \<times> Tensor) list \<Rightarrow> (string \<times> Tensor) list" where
  "insert_absent n x m = (case map_of m n of None \<Rightarrow> m @ [(n, x)] | Some y \<Rightarrow> m)"

definition first_use :: "Task list \<Rightarrow> string \<Rightarrow> Tensor option" where
  "first_use tasks n = find (\<lambda>x. tn_name x = n) (concat (map tk_inputs tasks))"

definition add_shared_input :: "string \<Rightarrow> Task list \<Rightarrow> u64 \<Rightarrow> string \<Rightarrow> (string \<times> Tensor) list \<Rightarrow> (string \<times> Tensor) list" where
  "add_shared_input head tasks inputPtr n m =
     (if \<exists>t \<in> set tasks. tk_name t \<noteq> head \<and> n \<in> tn_name ` set (tk_inputs t) then
        (case first_use tasks n of
           None \<Rightarrow> m
         | Some x \<Rightarrow> insert_absent n (x\<lparr>tn_data := inputPtr, tn_phyAddr := 0\<rparr>) m)
      else m)"

definition startJob :: "InferenceEngine \<Rightarrow> u64 \<Rightarrow> u64 \<Rightarrow> u64 \<Rightarrow> InferenceJob \<Rightarrow> int \<times> Request option \<times> InferenceJob" where
  "startJob ie inputPtr userArg outputPtr j =
     (case jb_headTask j of
        None \<Rightarrow> (-1, None, j)
      | Some h \<Rightarrow>
          (case task_of (ie_tasks ie) h of
             None \<Rightarrow> (-1, None, j)
           | Some head \<Rightarrow>
               (let j1 = j\<lparr>jb_status := REQ_BUSY, jb_userArg := userArg, jb_outputPtr := outputPtr,
                      jb_tensors := fold (add_shared_input h (jb_tasks j) inputPtr) (jb_modelInputNames j) (jb_tensors j)\<rparr>;
                    req = \<lparr>jr_task = head, jr_inputs = (if inputPtr = 0 then [] else inputs_at head inputPtr),
                      jr_outputs = (if outputPtr \<noteq> 0 \<and> tk_is_tail head
                                    then BuildUserOutputTensorsForTailTask head outputPtr (jb_outputs j) ie else []),
                      jr_requestorName = [], jr_userArg = userArg\<rparr>
                in (jb_jobId j, Some req, j1\<lparr>jb_requests := jb_requests j1 @ [req]\<rparr>))))"

definition FLOAT_size :: u32 where "FLOAT_size = 4"

definition add_input :: "Task list \<Rightarrow> string \<times> u64 \<Rightarrow> (string \<times> Tensor) list \<Rightarrow> (string \<times> Tensor) list" where
  "add_input tasks = (\<lambda>(n, ptr) m.
     (case first_use tasks n of
        Some x \<Rightarrow> insert_absent n (x\<lparr>tn_data := ptr, tn_phyAddr := 0\<rparr>) m
      | None \<Rightarrow> insert_absent n \<lparr>tn_name = n, tn_shape = [], tn_elemSize = FLOAT_size, tn_data = ptr, tn_phyAddr = 0\<rparr> m))"

text \<open>The part of \<open>startMultiInputJob\<close> before its loop over the tasks.\<close>

definition prepareMultiInput :: "(string \<times> u64) list \<Rightarrow> u64 \<Rightarrow> u64 \<Rightarrow> InferenceJob \<Rightarrow> InferenceJob" where
  "prepareMultiInput inputTensors userArg outputPtr j =
     j\<lparr>jb_status := REQ_BUSY, jb_userArg := userArg, jb_outputPtr := outputPtr,
       jb_tensors := fold (add_input (jb_tasks j)) inputTensors (jb_tensors j)\<rparr>"

text \<open>The loop that starts ready tasks, over successors or over all tasks.\<close>

fun start_ready :: "Task list \<Rightarrow> string list \<Rightarrow> InferenceJob \<Rightarrow> Request list \<times> InferenceJob" where
  "start_ready tasks [] j = ([], j)"
| "start_ready tasks (n # ns) j =
     (case task_of tasks n of
        None \<Rightarrow> start_ready tasks ns j
      | Some t \<Rightarrow>
          (case checkAndSetTaskReady t j of
             (False, j1) \<Rightarrow> start_ready tasks ns j1
           | (True, j1) \<Rightarrow>
               (case processReadyTask t j1 of (r, j2) \<Rightarrow>
                  (case start_ready tasks ns j2 of (rs, j3) \<Rightarrow> ((case r of None \<Rightarrow> [] | Some q \<Rightarrow> [q]) @ rs, j3)))))"

text \<open>\<open>order\<close> is the iteration order of the \<open>unordered_map\<close> of statuses.\<close>

definition startMultiInputJob ::
  "string list \<Rightarrow> (string \<times> u64) list \<Rightarrow> u64 \<Rightarrow> u64 \<Rightarrow> InferenceJob \<Rightarrow> int \<times> Request list \<times> InferenceJob" where
  "startMultiInputJob order inputTensors userArg outputPtr j =
     (case start_ready (jb_tasks j) order (prepareMultiInput inputTensors userArg outputPtr j) of
        (rs, j1) \<Rightarrow> (jb_jobId j1, rs, j1))"

subsection \<open>Outputs\<close>

type_synonym host_mem = "u64 \<Rightarrow> u8"

definition memcpy :: "u64 \<Rightarrow> u64 \<Rightarrow> u64 \<Rightarrow> host_mem \<Rightarrow> host_mem" where
  "memcpy dst src n mem = (\<lambda>a. if a - dst < n then mem (src + (a - dst)) else mem a)"

text \<open>
  \<open>alloc k\<close> is the address of the vector that holds the copy of the \<open>k\<close>-th output when the caller gave
  no buffer.
\<close>

fun return_loop ::
  "InferenceEngine \<Rightarrow> (nat \<Rightarrow> u64) \<Rightarrow> (string \<times> Tensor) list \<Rightarrow> u64 \<Rightarrow> string list \<Rightarrow> nat \<Rightarrow> host_mem
    \<Rightarrow> string list \<times> Tensor list \<times> host_mem" where
  "return_loop ie alloc tensors outputPtr [] k mem = ([], [], mem)"
| "return_loop ie alloc tensors outputPtr (n # ns) k mem =
     (case map_of tensors n of
        None \<Rightarrow> (case return_loop ie alloc tensors outputPtr ns (Suc k) mem of (missing, ret, mem1) \<Rightarrow> (n # missing, ret, mem1))
      | Some x \<Rightarrow>
          (let dest = (if outputPtr = 0 then alloc k else outputPtr + GetOutputTensorOffset ie n);
               mem1 = (if outputPtr = 0 \<or> (tn_data x \<noteq> 0 \<and> dest \<noteq> tn_data x) then memcpy dest (tn_data x) (size_in_bytes x) mem
                       else mem)
           in case return_loop ie alloc tensors outputPtr ns (Suc k) mem1 of
                (missing, ret, mem2) \<Rightarrow> (missing, x\<lparr>tn_data := dest\<rparr> # ret, mem2)))"

definition setReturnOutputs ::
  "InferenceEngine \<Rightarrow> (nat \<Rightarrow> u64) \<Rightarrow> host_mem \<Rightarrow> InferenceJob \<Rightarrow> (engine_error + InferenceJob) \<times> host_mem" where
  "setReturnOutputs ie alloc mem j =
     (case return_loop ie alloc (jb_tensors j) (jb_outputPtr j) (jb_outputs j) 0 mem of
        (missing, ret, mem1) \<Rightarrow>
          (if missing \<noteq> [] then Inl InvalidOperationException else Inr (j\<lparr>jb_returnOutputs := ret\<rparr>), mem1))"

definition ReleaseAllOutputBuffer :: "InferenceJob \<Rightarrow> InferenceJob" where
  "ReleaseAllOutputBuffer j = j\<lparr>jb_requests := [], jb_use_flag := False\<rparr>"

definition setStatus :: "req_status \<Rightarrow> InferenceJob \<Rightarrow> InferenceJob" where
  "setStatus s j = j\<lparr>jb_status := s\<rparr>"

definition SetOccupiedJob :: "bool \<Rightarrow> InferenceJob \<Rightarrow> InferenceJob" where
  "SetOccupiedJob b j = j\<lparr>jb_occupiedJob := b\<rparr>"

definition getOutput :: "InferenceJob \<Rightarrow> Tensor list \<times> InferenceJob" where
  "getOutput j = (jb_returnOutputs j, j\<lparr>jb_returnOutputs := []\<rparr>)"

text \<open>
  The outputs given to the callbacks, and the job after the callbacks, whose exceptions are
  caught. An exception of \<open>setReturnOutputs\<close> leaves the function before anything else happens.
\<close>

definition deliver_outputs ::
  "InferenceEngine \<Rightarrow> (nat \<Rightarrow> u64) \<Rightarrow> host_mem \<Rightarrow> InferenceJob \<Rightarrow> (engine_error + Tensor list \<times> InferenceJob) \<times> host_mem" where
  "deliver_outputs ie alloc mem j =
     (if jb_storeResult j \<or> jb_outputPtr j \<noteq> 0 then
        (case setReturnOutputs ie alloc mem j of
           (Inl e, mem1) \<Rightarrow> (Inl e, mem1)
         | (Inr j1, mem1) \<Rightarrow> (Inr (jb_returnOutputs j1, j1), mem1))
      else (Inr (List.map_filter (map_of (jb_tensors j)) (jb_outputs j), j), mem))"

definition onAllRequestComplete ::
  "InferenceEngine \<Rightarrow> (nat \<Rightarrow> u64) \<Rightarrow> host_mem \<Rightarrow> InferenceJob \<Rightarrow> (engine_error + Tensor list \<times> InferenceJob) \<times> host_mem" where
  "onAllRequestComplete ie alloc mem j =
     (case deliver_outputs ie alloc mem j of
        (Inl e, mem1) \<Rightarrow> (Inl e, mem1)
      | (Inr (outs, j1), mem1) \<Rightarrow>
          (Inr (outs, SetOccupiedJob False (setStatus REQ_DONE (ReleaseAllOutputBuffer j1))), mem1))"

subsection \<open>Completion of a request\<close>

text \<open>The first critical section of \<open>onRequestComplete\<close>; the flag says that this was the last task.\<close>

definition complete_section :: "Task \<Rightarrow> completion \<Rightarrow> InferenceJob \<Rightarrow> engine_error + InferenceJob \<times> bool" where
  "complete_section t c j =
     (let j1 = j\<lparr>jb_tensors := fold (\<lambda>x. AList.update (tn_name x) x) (cp_outputs c) (jb_tensors j)\<rparr> in
      case map_of (jb_taskStatusMap j) (tk_name t) of
        None \<Rightarrow> Inl InvalidOperationException
      | Some s \<Rightarrow>
          (let j2 = j1\<lparr>jb_taskStatusMap := AList.update (tk_name t) TASK_DONE (jb_taskStatusMap j), jb_doneCount := jb_doneCount j + 1,
                 jb_latency := jb_latency j + max 0 (cp_latency c - cp_queueWaitTime c),
                 jb_infTime := (if tk_processor t = NPU then jb_infTime j + cp_inference_time c else jb_infTime j)\<rparr>
           in Inr (j2, jb_doneCount j2 = jb_outputCount j2)))"

text \<open>The whole function, run without interruption: the requests it starts and the outputs it delivers.\<close>

definition onRequestComplete ::
  "InferenceEngine \<Rightarrow> (nat \<Rightarrow> u64) \<Rightarrow> Task \<Rightarrow> completion \<Rightarrow> host_mem \<Rightarrow> InferenceJob
    \<Rightarrow> (engine_error + Request list \<times> Tensor list option \<times> InferenceJob) \<times> host_mem" where
  "onRequestComplete ie alloc t c mem j =
     (case complete_section t c j of
        Inl e \<Rightarrow> (Inl e, mem)
      | Inr (j1, all_request_complete) \<Rightarrow>
          (case start_ready (ie_tasks ie) (tk_nexts t) j1 of
             (rs, j2) \<Rightarrow>
               (if all_request_complete then
                  (case onAllRequestComplete ie alloc mem j2 of
                     (Inl e, mem1) \<Rightarrow> (Inl e, mem1)
                   | (Inr (outs, j3), mem1) \<Rightarrow> (Inr (rs, Some outs, j3), mem1))
                else (Inr (rs, None, j2), mem))))"

subsection \<open>Concurrent completions\<close>

text \<open>
  A thread inside \<open>onRequestComplete\<close>, after its first section, or in the loop of
  \<open>startMultiInputJob\<close>: it still has successors to check, or has just set one of them ready.
\<close>

datatype activity = Successors "string list" bool | Processing string "string list" bool | Finished

record job_sys =
  js_job :: InferenceJob
  js_running :: "Request list"
  js_threads :: "activity list"
  js_delivered :: "Tensor list list"
  js_mem :: host_mem

text \<open>A worker returns the outputs of the task, each in a buffer.\<close>

definition outputs_of :: "Task \<Rightarrow> completion \<Rightarrow> bool" where
  "outputs_of t c \<longleftrightarrow> map tn_name (cp_outputs c) = map tn_name (tk_outputs t) \<and> (\<forall>x \<in> set (cp_outputs c). tn_data x \<noteq> 0)"

inductive job_step :: "InferenceEngine \<Rightarrow> (nat \<Rightarrow> u64) \<Rightarrow> job_sys \<Rightarrow> job_sys \<Rightarrow> bool" for ie alloc where
  complete: "r \<in> set (js_running s) \<Longrightarrow> outputs_of (jr_task r) c \<Longrightarrow>
    complete_section (jr_task r) c (js_job s) = Inr (j, fin) \<Longrightarrow>
    job_step ie alloc s (s\<lparr>js_job := j, js_running := remove1 r (js_running s),
      js_threads := js_threads s @ [Successors (tk_nexts (jr_task r)) fin]\<rparr>)"
| ready: "i < length (js_threads s) \<Longrightarrow> js_threads s ! i = Successors (n # ns) fin \<Longrightarrow>
    task_of (ie_tasks ie) n = Some t \<Longrightarrow> checkAndSetTaskReady t (js_job s) = (True, j) \<Longrightarrow>
    job_step ie alloc s (s\<lparr>js_job := j, js_threads := (js_threads s)[i := Processing n ns fin]\<rparr>)"
| not_ready: "i < length (js_threads s) \<Longrightarrow> js_threads s ! i = Successors (n # ns) fin \<Longrightarrow>
    task_of (ie_tasks ie) n = Some t \<Longrightarrow> checkAndSetTaskReady t (js_job s) = (False, j) \<Longrightarrow>
    job_step ie alloc s (s\<lparr>js_job := j, js_threads := (js_threads s)[i := Successors ns fin]\<rparr>)"
| process: "i < length (js_threads s) \<Longrightarrow> js_threads s ! i = Processing n ns fin \<Longrightarrow>
    task_of (ie_tasks ie) n = Some t \<Longrightarrow> processReadyTask t (js_job s) = (q, j) \<Longrightarrow>
    job_step ie alloc s (s\<lparr>js_job := j, js_running := js_running s @ (case q of None \<Rightarrow> [] | Some r \<Rightarrow> [r]),
      js_threads := (js_threads s)[i := Successors ns fin]\<rparr>)"
| leave: "i < length (js_threads s) \<Longrightarrow> js_threads s ! i = Successors [] False \<Longrightarrow>
    job_step ie alloc s (s\<lparr>js_threads := (js_threads s)[i := Finished]\<rparr>)"
| deliver: "i < length (js_threads s) \<Longrightarrow> js_threads s ! i = Successors [] True \<Longrightarrow>
    onAllRequestComplete ie alloc (js_mem s) (js_job s) = (Inr (outs, j), mem) \<Longrightarrow>
    job_step ie alloc s (s\<lparr>js_job := j, js_threads := (js_threads s)[i := Finished],
      js_delivered := js_delivered s @ [outs], js_mem := mem\<rparr>)"

abbreviation job_steps :: "InferenceEngine \<Rightarrow> (nat \<Rightarrow> u64) \<Rightarrow> job_sys \<Rightarrow> job_sys \<Rightarrow> bool" where
  "job_steps ie alloc \<equiv> (job_step ie alloc)\<^sup>*\<^sup>*"

end
