(* ===== verification/Task_Graph_Correct.thy ===== *)
theory Task_Graph_Correct
  imports Task_Graph
begin

section \<open>Correctness of the task graph\<close>

text \<open>
  Properties of \<^verbatim>\<open>Task_Graph\<close>: the successor and predecessor lists follow the graph information, the
  output tensors lie one behind the other in the output buffer of the caller and fill exactly the size
  the engine reports, and the buffer count is the largest that fits the device.
\<close>

lemma set_add_once [simp]: "set (add_once x xs) = insert x (set xs)"
  by (auto simp: add_once_def)

lemma set_fold_add:
  assumes "\<And>x ns. set (f x ns) = g x \<union> set ns"
  shows "set (fold f xs ns) = (\<Union>x \<in> set xs. g x) \<union> set ns"
  by (induction xs arbitrary: ns) (auto simp: assms)

lemma set_nexts_of [simp]:
  "set (nexts_of names outputs ns) = (\<Union>x \<in> set outputs. set (gt_users x) \<inter> set names) \<union> set ns"
proof -
  have users: "set (fold (\<lambda>u ns. if u \<in> set names then add_once u ns else ns) us ns) = (set us \<inter> set names) \<union> set ns" for us ns
    by (subst set_fold_add [where g = "\<lambda>u. {u} \<inter> set names"]) auto
  show ?thesis unfolding nexts_of_def by (subst set_fold_add [OF users]) simp
qed

lemma set_prevs_of [simp]:
  "set (prevs_of names inputs ps) = (gt_owner ` set inputs \<inter> set names - {[]}) \<union> set ps"
  unfolding prevs_of_def by (subst set_fold_add [where g = "\<lambda>i. {gt_owner i} \<inter> set names - {[]}"]) auto

lemma task_of_Some: "task_of ts n = Some t \<Longrightarrow> t \<in> set ts \<and> tk_name t = n"
  by (auto simp: task_of_def find_Some_iff)

lemma task_of_None: "task_of ts n = None \<longleftrightarrow> n \<notin> tk_name ` set ts"
  by (auto simp: task_of_def find_None_iff)

lemma task_of_name: "distinct (map tk_name ts) \<Longrightarrow> t \<in> set ts \<Longrightarrow> task_of ts (tk_name t) = Some t"
  unfolding task_of_def by (induction ts) auto

lemma map_name_link_chain [simp]: "map tk_name (link_chain ts) = map tk_name ts"
  by (induction ts rule: link_chain.induct) auto

subsection \<open>The layout of the output buffer\<close>

definition reg_bytes :: "(string \<times> TensorDescriptor) list \<Rightarrow> string \<Rightarrow> nat" where
  "reg_bytes reg n = (case map_of reg n of None \<Rightarrow> 0 | Some d \<Rightarrow> unat (td_sizeInBytes d))"

lemma reg_bytes_update [simp]:
  "map_of reg n = Some d \<Longrightarrow> reg_bytes (AList.update n (d\<lparr>td_outputBufferOffset := c\<rparr>) reg) = reg_bytes reg"
  by (auto simp: reg_bytes_def update_conv)

lemma offset_loop_spec:
  assumes "offset_loop ns cur reg offs = (reg', offs', tot)" "distinct ns" "set ns \<subseteq> dom (map_of reg)"
    and "unat cur + sum_list (map (reg_bytes reg) ns) < 2 ^ 64"
  shows "reg_bytes reg' = reg_bytes reg
    \<and> (\<forall>i < length ns. \<exists>off. map_of offs' (ns ! i) = Some off \<and> unat off = unat cur + sum_list (map (reg_bytes reg) (take i ns)))
    \<and> (\<forall>n. n \<notin> set ns \<longrightarrow> map_of offs' n = map_of offs n)"
  using assms
proof (induction ns cur reg offs rule: offset_loop.induct)
  case (2 n ns cur reg offs)
  from "2.prems"(3) obtain d where d: "map_of reg n = Some d" by auto
  let ?reg = "AList.update n (d\<lparr>td_outputBufferOffset := cur\<rparr>) reg" and ?c = "cur + td_sizeInBytes d"
  have bytes: "reg_bytes reg n = unat (td_sizeInBytes d)" by (simp add: reg_bytes_def d)
  have c: "unat ?c = unat cur + reg_bytes reg n"
    using "2.prems"(4) bytes by (intro trans [OF unat_add_no_wrap]) auto
  have dom: "set ns \<subseteq> dom (map_of ?reg)" using "2.prems"(3) by (auto simp: update_conv)
  have IH: "reg_bytes reg' = reg_bytes reg"
    "\<forall>i < length ns. \<exists>off. map_of offs' (ns ! i) = Some off \<and> unat off = unat ?c + sum_list (map (reg_bytes reg) (take i ns))"
    "\<forall>k. k \<notin> set ns \<longrightarrow> map_of offs' k = map_of (AList.update n cur offs) k"
    using "2.IH"(2) [OF d _ _ dom] "2.prems" d c by auto
  have "\<exists>off. map_of offs' ((n # ns) ! i) = Some off \<and> unat off = unat cur + sum_list (map (reg_bytes reg) (take i (n # ns)))"
    if "i < length (n # ns)" for i
  proof (cases i)
    case 0
    with IH(3) "2.prems"(2) show ?thesis by (simp add: update_conv)
  next
    case (Suc k)
    with IH(2) that c show ?thesis by auto
  qed
  with IH(1,3) show ?case by (auto simp: update_conv)
qed auto

text \<open>All outputs of the tasks; when their names differ, each name has one size.\<close>

definition all_outputs :: "Task list \<Rightarrow> Tensor list" where
  "all_outputs ts = concat (map tk_outputs ts)"

definition output_bytes :: "Task list \<Rightarrow> string \<Rightarrow> u64" where
  "output_bytes ts n = (case find (\<lambda>x. tn_name x = n) (all_outputs ts) of None \<Rightarrow> 0 | Some x \<Rightarrow> size_in_bytes x)"

lemma find_append: "find P (xs @ ys) = (case find P xs of None \<Rightarrow> find P ys | Some x \<Rightarrow> Some x)"
  by (induction xs) auto

lemma tryGetOutputTensorSize_eq:
  "\<forall>t \<in> set ts. \<not> tk_is_PPU t \<Longrightarrow> tryGetOutputTensorSize ts n = map_option size_in_bytes (find (\<lambda>x. tn_name x = n) (all_outputs ts))"
  by (induction ts) (auto simp: all_outputs_def find_append split: option.splits)

lemma find_producer_size:
  "\<forall>t \<in> set ts. tk_name t \<noteq> [] \<Longrightarrow> snd (find_producer n ts ([], 0)) = output_bytes ts n"
  by (induction ts) (auto simp: output_bytes_def all_outputs_def find_append split: option.splits)

lemma output_size_tasks_eq:
  "\<forall>t \<in> set ts. \<not> tk_is_PPU t \<Longrightarrow>
   output_size_tasks ts n sz = Inr (fold (\<lambda>x sz. if tn_name x = n then sz + size_in_bytes x else sz) (all_outputs ts) sz)"
  by (induction ts arbitrary: sz) (auto simp: all_outputs_def)

lemma fold_named_size:
  "distinct (map tn_name xs) \<Longrightarrow>
   fold (\<lambda>x sz. if tn_name x = n then sz + size_in_bytes x else sz) xs sz
     = sz + (case find (\<lambda>x. tn_name x = n) xs of None \<Rightarrow> 0 | Some x \<Rightarrow> size_in_bytes x)"
proof (induction xs arbitrary: sz)
  case (Cons x xs)
  have "find (\<lambda>y. tn_name y = n) xs = None" if "tn_name x = n"
    using Cons.prems that by (force simp: find_None_iff image_iff)
  with Cons show ?case by (auto split: option.splits)
qed simp

lemma output_size_loop_eq:
  assumes "\<forall>t \<in> set ts. \<not> tk_is_PPU t" "distinct (map tn_name (all_outputs ts))"
  shows "output_size_loop ts ns sz = sz + sum_list (map (output_bytes ts) ns)"
  using assms by (induction ns arbitrary: sz) (auto simp: output_size_tasks_eq fold_named_size output_bytes_def add.assoc)

lemma unat_sum_list:
  "sum_list (map unat xs) < 2 ^ 64 \<Longrightarrow> unat (sum_list xs :: u64) = sum_list (map unat xs)"
proof (induction xs)
  case (Cons x xs)
  then show ?case by (simp add: unat_add_no_wrap)
qed simp

lemma registry_bytes:
  assumes "n \<in> tn_name ` set (all_outputs ts)" "\<forall>t \<in> set ts. tk_name t \<noteq> []"
  shows "n \<in> dom (map_of (buildTensorRegistry ins outs ts))"
    and "reg_bytes (buildTensorRegistry ins outs ts) n = unat (output_bytes ts n)"
proof -
  have "n \<in> set (all_tensor_names ts)" using assms(1) by (auto simp: all_tensor_names_def all_outputs_def)
  then have *: "map_of (buildTensorRegistry ins outs ts) n = Some (descriptor ins outs ts n)"
    unfolding buildTensorRegistry_def by (simp add: map_of_map_restrict)
  then show "n \<in> dom (map_of (buildTensorRegistry ins outs ts))" by auto
  show "reg_bytes (buildTensorRegistry ins outs ts) n = unat (output_bytes ts n)"
    using * find_producer_size [OF assms(2), of n] by (simp add: reg_bytes_def descriptor_def)
qed

lemma load_graph_engine:
  assumes "load_graph useORT subs gi go ts = Inr ie"
  shows "\<exists>reg. reg = buildTensorRegistry (ie_modelInputOrder ie) (ie_lastOutputOrder ie) (ie_tasks ie)
    \<and> offset_loop (ie_lastOutputOrder ie) 0 reg [] = (ie_tensorRegistry ie, ie_cachedOutputOffsets ie, snd (snd (offset_loop (ie_lastOutputOrder ie) 0 reg [])))"
  using assms by (auto simp: load_graph_def Let_def calculateTensorOffsets_def split: prod.splits sum.splits)

text \<open>
  Claim C11. The caller of an inference finds its outputs where the size queries say: for a loaded model
  without post-processing tasks and dynamic outputs, whose output tensors have different names, tensor \<open>i\<close>
  of the output order starts at the sum of the sizes of the tensors before it, as
  \<open>GetOutputTensorSizes\<close> lists them, and \<open>GetOutputSize\<close> is the sum of all of them, so the
  ranges are disjoint and fill the buffer exactly.
\<close>
theorem output_buffer_layout:
  assumes "load_graph useORT subs gi go ts = Inr ie" "\<not> HasDynamicOutput ie"
    and "\<forall>t \<in> set (ie_tasks ie). \<not> tk_is_PPU t \<and> tk_name t \<noteq> []"
    and "distinct (map tn_name (concat (map tk_outputs (ie_tasks ie))))" "distinct (ie_lastOutputOrder ie)"
    and "set (ie_lastOutputOrder ie) \<subseteq> tn_name ` set (concat (map tk_outputs (ie_tasks ie)))"
    and "sum_list (map unat (GetOutputTensorSizes ie)) < 2 ^ 64"
  shows "length (GetOutputTensorSizes ie) = length (ie_lastOutputOrder ie)
    \<and> (\<forall>i < length (ie_lastOutputOrder ie).
         unat (GetOutputTensorOffset ie (ie_lastOutputOrder ie ! i)) = sum_list (map unat (take i (GetOutputTensorSizes ie))))
    \<and> unat (GetOutputSize ie) = sum_list (map unat (GetOutputTensorSizes ie))"
proof -
  let ?ts = "ie_tasks ie" and ?ns = "ie_lastOutputOrder ie"
  have ts: "\<forall>t \<in> set ?ts. \<not> tk_is_PPU t" "\<forall>t \<in> set ?ts. tk_name t \<noteq> []" using assms(3) by auto
  have size: "tryGetOutputTensorSize ?ts n = Some (output_bytes ?ts n)" if "n \<in> set ?ns" for n
    using assms(6) that
    by (auto simp: tryGetOutputTensorSize_eq [OF ts(1)] output_bytes_def all_outputs_def find_None_iff split: option.splits)
  then have sizes: "GetOutputTensorSizes ie = map (output_bytes ?ts) ?ns"
    unfolding GetOutputTensorSizes_def by (induction ?ns) (auto simp: List.map_filter_def)
  obtain reg tot where reg: "reg = buildTensorRegistry (ie_modelInputOrder ie) ?ns ?ts"
    "offset_loop ?ns 0 reg [] = (ie_tensorRegistry ie, ie_cachedOutputOffsets ie, tot)"
    using load_graph_engine [OF assms(1)] by auto
  have names: "n \<in> tn_name ` set (all_outputs ?ts)" if "n \<in> set ?ns" for n using that assms(6) by (auto simp: all_outputs_def)
  have bytes: "map (reg_bytes reg) xs = map unat (map (output_bytes ?ts) xs)" if "set xs \<subseteq> set ?ns" for xs
    using that names registry_bytes(2) [OF names ts(2)] reg(1) by auto
  have dom: "set ?ns \<subseteq> dom (map_of reg)" using registry_bytes(1) [OF names ts(2)] reg(1) by blast
  have bound: "unat (0::u64) + sum_list (map (reg_bytes reg) ?ns) < 2 ^ 64" unfolding bytes [OF subset_refl] using assms(7) sizes by simp
  have "\<forall>i < length ?ns. \<exists>off. map_of (ie_cachedOutputOffsets ie) (?ns ! i) = Some off
      \<and> unat off = unat (0::u64) + sum_list (map (reg_bytes reg) (take i ?ns))"
    using offset_loop_spec [OF reg(2) assms(5) dom bound] by blast
  then have "unat (GetOutputTensorOffset ie (?ns ! i)) = sum_list (map (reg_bytes reg) (take i ?ns))" if "i < length ?ns" for i
    using that by (fastforce simp: GetOutputTensorOffset_def)
  then have "unat (GetOutputTensorOffset ie (?ns ! i)) = sum_list (map unat (take i (GetOutputTensorSizes ie)))" if "i < length ?ns" for i
    using that unfolding bytes [OF set_take_subset] by (simp add: sizes take_map)
  moreover have "GetOutputSize ie = sum_list (GetOutputTensorSizes ie)"
    using assms(2,4) sizes by (simp add: GetOutputSize_def output_size_loop_eq [OF ts(1)] all_outputs_def)
  ultimately show ?thesis using sizes unat_sum_list [OF assms(7)] by simp
qed

text \<open>A model of two tasks, the first on the NPU with outputs \<open>a\<close> and \<open>b\<close>, the second turning \<open>a\<close> into \<open>c\<close>.\<close>

definition tensor :: "string \<Rightarrow> int list \<Rightarrow> Tensor" where
  "tensor n shape = \<lparr>tn_name = n, tn_shape = shape, tn_elemSize = 4, tn_data = 0, tn_phyAddr = 0\<rparr>"

definition plain_task :: "string \<Rightarrow> Processor \<Rightarrow> Tensor list \<Rightarrow> Tensor list \<Rightarrow> Task" where
  "plain_task n p ins outs =
     \<lparr>tk_name = n, tk_processor = p, tk_inputs = ins, tk_outputs = outs, tk_inputOffsets = replicate (length ins) 0, tk_output_size = 64, tk_NPU_block_size = 4096,
      tk_is_PPU = False, tk_cpuDynamic = False, tk_is_head = False, tk_is_tail = False, tk_next = None,
      tk_prevs = [], tk_nexts = [], tk_tailOffset = 0\<rparr>"

definition two_tasks :: "Task list" where
  "two_tasks =
     [plain_task ''npu_0'' NPU [tensor ''x'' [1, 8]] [tensor ''a'' [2, 3], tensor ''b'' [5]],
      plain_task ''cpu_0'' CPU [tensor ''a'' [2, 3]] [tensor ''c'' [7]]]"

definition two_subgraphs :: "(string \<times> SubGraph) list" where
  "two_subgraphs =
     [(''npu_0'', \<lparr>sg_inputs = [\<lparr>gt_name = ''x'', gt_owner = [], gt_users = [''npu_0'']\<rparr>],
        sg_outputs = [\<lparr>gt_name = ''a'', gt_owner = ''npu_0'', gt_users = [''cpu_0'']\<rparr>,
                      \<lparr>gt_name = ''b'', gt_owner = ''npu_0'', gt_users = []\<rparr>],
        sg_head = True, sg_tail = True\<rparr>),
      (''cpu_0'', \<lparr>sg_inputs = [\<lparr>gt_name = ''a'', gt_owner = ''npu_0'', gt_users = [''cpu_0'']\<rparr>],
        sg_outputs = [\<lparr>gt_name = ''c'', gt_owner = ''cpu_0'', gt_users = []\<rparr>], sg_head = False, sg_tail = True\<rparr>)]"

fun loaded_engine :: "'e + InferenceEngine \<Rightarrow> InferenceEngine" where
  "loaded_engine (Inr ie) = ie"

definition two_engine :: InferenceEngine where
  "two_engine = loaded_engine (load_graph True two_subgraphs [''x''] [''c'', ''b''] two_tasks)"

theorem output_buffer_layout_witness:
  "GetOutputTensorSizes two_engine = [28, 20] \<and> unat (GetOutputSize two_engine) = 48
   \<and> unat (GetOutputTensorOffset two_engine ''b'') = 28"
proof -
  have l: "load_graph True two_subgraphs [''x''] [''c'', ''b''] two_tasks = Inr two_engine" by code_simp
  have f: "\<not> HasDynamicOutput two_engine" "\<forall>t \<in> set (ie_tasks two_engine). \<not> tk_is_PPU t \<and> tk_name t \<noteq> []"
    "distinct (map tn_name (concat (map tk_outputs (ie_tasks two_engine))))" "ie_lastOutputOrder two_engine = [''c'', ''b'']"
    "list_all (\<lambda>n. n \<in> tn_name ` set (concat (map tk_outputs (ie_tasks two_engine)))) [''c'', ''b'']"
    "GetOutputTensorSizes two_engine = [28, 20]" by code_simp+
  from output_buffer_layout [OF l f(1,2,3)] f(4,5,6) show ?thesis by (auto simp: less_Suc_eq dest: spec [of _ "Suc 0"])
qed

subsection \<open>The number of device buffers\<close>

lemma cost_no_wrap:
  fixes fixedCost per :: u64
  assumes "unat fixedCost + unat per * k < 2 ^ 64"
  shows "unat (fixedCost + per * word_of_int (int k)) = unat fixedCost + unat per * k"
proof (cases "per = 0")
  case False
  then have "k \<le> unat per * k" by (simp add: Suc_le_eq unat_gt_0)
  with assms have "k < 2 ^ 64" by linarith
  then have u: "unat (word_of_int (int k) :: u64) = k" using unat_of_nat_small [of k, where 'a = 64] by simp
  have "unat (per * word_of_int (int k)) = unat per * k"
    using assms u by (subst unat_mult_lem [THEN iffD1]) auto
  then show ?thesis using assms by (subst unat_add_no_wrap) auto
qed simp

lemma buffer_count_loop_spec:
  assumes "1 \<le> n" "\<And>m. 1 \<le> m \<Longrightarrow> m \<le> n \<Longrightarrow> (fixedCost + per * word_of_int m \<le> mem) = fits m"
  shows "1 \<le> buffer_count_loop mem fixedCost per n \<and> buffer_count_loop mem fixedCost per n \<le> n
    \<and> (1 < buffer_count_loop mem fixedCost per n \<longrightarrow> fits (buffer_count_loop mem fixedCost per n))
    \<and> (\<forall>m. buffer_count_loop mem fixedCost per n < m \<and> m \<le> n \<longrightarrow> \<not> fits m)"
  using assms
proof (induction mem fixedCost per n rule: buffer_count_loop.induct)
  case (1 mem fixedCost per n)
  show ?case
  proof (cases "1 < n \<and> \<not> fits n")
    case True
    then have step: "buffer_count_loop mem fixedCost per n = buffer_count_loop mem fixedCost per (n - 1)"
      using "1.prems"(2) [of n] by (subst buffer_count_loop.simps) auto
    have "m \<le> n - 1 \<or> m = n" if "m \<le> n" for m :: int using that by linarith
    with True "1.IH" "1.prems" show ?thesis unfolding step by (smt (verit))
  next
    case False
    with "1.prems" have "buffer_count_loop mem fixedCost per n = n" by (subst buffer_count_loop.simps) auto
    with False "1.prems"(1) show ?thesis by auto
  qed
qed

text \<open>
  \<open>calculateMaxBufferCount\<close> returns the largest number of buffers, from 1 to the requested one,
  whose total cost fits the device, and throws exactly when not even one buffer fits, as long as the
  requested total does not wrap in 64 bits.
\<close>
theorem buffer_count_maximal:
  assumes "0 < initial" "unat fixedCost + unat per * nat initial < 2 ^ 64"
  shows "calculateMaxBufferCount mem fixedCost per initial =
    (if unat fixedCost + unat per \<le> unat mem
     then Inr (Max {n. 1 \<le> n \<and> n \<le> initial \<and> unat fixedCost + unat per * nat n \<le> unat mem})
     else Inl InsufficientMemoryException)"
proof -
  let ?fits = "\<lambda>n. unat fixedCost + unat per * nat n \<le> unat mem" and ?r = "buffer_count_loop mem fixedCost per initial"
  have small: "unat fixedCost + unat per * nat m < 2 ^ 64" if "m \<le> initial" for m
    using that assms(2) mult_le_mono2 [of "nat m" "nat initial" "unat per"] by linarith
  have fits: "(fixedCost + per * word_of_int m \<le> mem) = ?fits m" if "1 \<le> m" "m \<le> initial" for m
    using cost_no_wrap [of fixedCost per "nat m"] small [OF that(2)] that(1) by (simp add: word_le_nat_alt)
  from buffer_count_loop_spec [of initial fixedCost per mem ?fits, OF _ fits] assms(1)
  have r: "1 \<le> ?r" "?r \<le> initial" "1 < ?r \<longrightarrow> ?fits ?r" "\<forall>m. ?r < m \<and> m \<le> initial \<longrightarrow> \<not> ?fits m" by auto
  have one: "(fixedCost + per \<le> mem) = ?fits 1" using fits [of 1] assms(1) by simp
  have "Max {n. 1 \<le> n \<and> n \<le> initial \<and> ?fits n} = ?r" if "?fits 1"
  proof (rule Max_eqI)
    show "finite {n. 1 \<le> n \<and> n \<le> initial \<and> ?fits n}" by (rule finite_subset [of _ "{1..initial}"]) auto
    show "?r \<in> {n. 1 \<le> n \<and> n \<le> initial \<and> ?fits n}" using r that by (cases "?r = 1") auto
    show "m \<le> ?r" if "m \<in> {n. 1 \<le> n \<and> n \<le> initial \<and> ?fits n}" for m using that r(4) by force
  qed
  with one show ?thesis by (auto simp: calculateMaxBufferCount_def not_le)
qed

theorem buffer_count_maximal_witness: "calculateMaxBufferCount 1000 100 300 5 = Inr 3"
proof -
  have "Max {n. 1 \<le> n \<and> n \<le> 5 \<and> 100 + 300 * nat n \<le> 1000} = 3"
  proof (rule Max_eqI)
    show "finite {n. 1 \<le> n \<and> n \<le> 5 \<and> 100 + 300 * nat n \<le> 1000}" by (rule finite_subset [of _ "{1..5}"]) auto
  qed auto
  with buffer_count_maximal [of 5 100 300 1000] show ?thesis by simp
qed

end
