(* ===== verification/Inference_Job_Correct.thy ===== *)
theory Inference_Job_Correct
  imports Inference_Job Task_Graph_Correct
begin

section \<open>Every job runs to its end\<close>

text \<open>
  Properties of \<^verbatim>\<open>Inference_Job\<close> for every interleaving of the worker threads: each task runs once, only
  when its inputs are there; the run ends; and it ends with all tasks done and the outputs delivered once,
  for graphs whose tasks are listed in topological order. The invariant is split into the flow of tasks
  through their statuses, the tensors, and the counters that decide who delivers.
\<close>

definition in_names :: "Task \<Rightarrow> string set" where "in_names t = tn_name ` set (tk_inputs t)"
definition out_names :: "Task \<Rightarrow> string set" where "out_names t = tn_name ` set (tk_outputs t)"
definition task_names :: "Task list \<Rightarrow> string set" where "task_names ts = tk_name ` set ts"

text \<open>The graph: different names, and every user of an output is a successor of its producer.\<close>

definition linked :: "Task list \<Rightarrow> bool" where
  "linked ts \<longleftrightarrow> distinct (map tk_name ts) \<and> (\<forall>t \<in> set ts. set (tk_nexts t) \<subseteq> task_names ts)
     \<and> (\<forall>t \<in> set ts. \<forall>u \<in> set ts. out_names t \<inter> in_names u \<noteq> {} \<longrightarrow> tk_name u \<in> set (tk_nexts t))"

text \<open>Each task finds its inputs among \<open>A\<close> and the outputs of earlier tasks, except those started before.\<close>

fun startable :: "string set \<Rightarrow> string set \<Rightarrow> Task list \<Rightarrow> bool" where
  "startable D A [] = True"
| "startable D A (t # ts) = ((tk_name t \<in> D \<or> in_names t \<subseteq> A) \<and> startable D (A \<union> out_names t) ts)"

fun pending :: "activity \<Rightarrow> string list" where
  "pending (Successors ns b) = ns"
| "pending (Processing n ns b) = ns"
| "pending Finished = []"

fun proc :: "activity \<Rightarrow> string option" where
  "proc (Processing n ns b) = Some n"
| "proc a = None"

fun is_last :: "activity \<Rightarrow> bool" where
  "is_last (Successors ns b) = b"
| "is_last (Processing n ns b) = b"
| "is_last Finished = False"

definition waits :: "activity list \<Rightarrow> string \<Rightarrow> bool" where
  "waits th n \<longleftrightarrow> (\<exists>a \<in> set th. n \<in> set (pending a))"

lemma waits_append [simp]: "waits (th @ [a]) n \<longleftrightarrow> waits th n \<or> n \<in> set (pending a)"
  by (auto simp: waits_def)

lemma waits_update:
  assumes "waits th n" "i < length th" "n \<in> set (pending (th ! i)) \<Longrightarrow> n \<in> set (pending a)"
  shows "waits (th[i := a]) n"
proof -
  from assms(1) obtain k where k: "k < length th" "n \<in> set (pending (th ! k))" unfolding waits_def by (metis in_set_conv_nth)
  with assms(2,3) have "n \<in> set (pending (th[i := a] ! k))" by (cases "k = i") auto
  moreover have "th[i := a] ! k \<in> set (th[i := a])" using k(1) by (intro nth_mem) simp
  ultimately show ?thesis unfolding waits_def by blast
qed

lemma pending_update:
  "\<forall>a \<in> set th. set (pending a) \<subseteq> S \<Longrightarrow> set (pending a) \<subseteq> S \<Longrightarrow> \<forall>a \<in> set (th[i := a]). set (pending a) \<subseteq> S"
  using set_update_subset_insert [of th i a] by blast

text \<open>Which thread is about to start a task, and that there is only one.\<close>

definition ready_at :: "activity list \<Rightarrow> string \<Rightarrow> bool" where
  "ready_at th n \<longleftrightarrow> (\<exists>a \<in> set th. proc a = Some n)"

definition one_each :: "activity list \<Rightarrow> bool" where
  "one_each th \<longleftrightarrow> (\<forall>n i k. i < length th \<longrightarrow> k < length th \<longrightarrow> proc (th ! i) = Some n \<longrightarrow> proc (th ! k) = Some n \<longrightarrow> i = k)"

lemma ready_at_append [simp]: "ready_at (th @ [a]) n \<longleftrightarrow> ready_at th n \<or> proc a = Some n"
  by (auto simp: ready_at_def)

lemma ready_at_nth: "ready_at th n \<longleftrightarrow> (\<exists>i < length th. proc (th ! i) = Some n)"
  unfolding ready_at_def by (metis in_set_conv_nth)

lemma one_each_append:
  assumes "proc a = None" "one_each th"
  shows "one_each (th @ [a])"
  unfolding one_each_def
proof (intro allI impI)
  fix n i k assume "i < length (th @ [a])" "k < length (th @ [a])" and *: "proc ((th @ [a]) ! i) = Some n" "proc ((th @ [a]) ! k) = Some n"
  then have "i < length th" "k < length th" using assms(1) by (auto simp: nth_append split: if_splits)
  with * assms(2) show "i = k" by (auto simp: one_each_def nth_append)
qed

lemma ready_at_update:
  assumes "one_each th" "i < length th"
  shows "ready_at (th[i := a]) n \<longleftrightarrow> proc a = Some n \<or> (ready_at th n \<and> proc (th ! i) \<noteq> Some n)"
proof -
  have "ready_at (th[i := a]) n \<longleftrightarrow> proc a = Some n \<or> (\<exists>k < length th. k \<noteq> i \<and> proc (th ! k) = Some n)"
    using assms(2) by (auto simp: ready_at_nth nth_list_update)
  moreover have "(\<exists>k < length th. k \<noteq> i \<and> proc (th ! k) = Some n) \<longleftrightarrow> ready_at th n \<and> proc (th ! i) \<noteq> Some n"
    using assms unfolding one_each_def ready_at_nth by blast
  ultimately show ?thesis by simp
qed

lemma one_each_update:
  assumes "one_each th" "i < length th" "\<And>n. proc a = Some n \<Longrightarrow> \<not> ready_at th n"
  shows "one_each (th[i := a])"
  unfolding one_each_def
proof (intro allI impI)
  fix n k l assume *: "k < length (th[i := a])" "l < length (th[i := a])" "proc (th[i := a] ! k) = Some n" "proc (th[i := a] ! l) = Some n"
  show "k = l"
  proof (rule ccontr)
    assume "k \<noteq> l"
    with * assms(1,2) have "proc a = Some n" "ready_at th n"
      by (auto simp: nth_list_update one_each_def ready_at_nth split: if_splits)
    with assms(3) show False by blast
  qed
qed

subsection \<open>Flow\<close>

definition flow_ok ::
  "Task list \<Rightarrow> (string \<Rightarrow> task_status option) \<Rightarrow> string set \<Rightarrow> string list \<Rightarrow> activity list \<Rightarrow> bool" where
  "flow_ok ts st dm rn th \<longleftrightarrow>
     (\<forall>n. st n = None \<longleftrightarrow> n \<notin> task_names ts) \<and> distinct rn \<and> (\<forall>n. n \<in> set rn \<longleftrightarrow> st n = Some TASK_BUSY)
     \<and> (\<forall>n. st n = Some TASK_READY \<longleftrightarrow> ready_at th n) \<and> one_each th
     \<and> (\<forall>t \<in> set ts. st (tk_name t) = Some TASK_READY \<longrightarrow> in_names t \<subseteq> dm)
     \<and> (\<forall>a \<in> set th. set (pending a) \<subseteq> task_names ts)"

lemma flow_okD:
  assumes "flow_ok ts st dm rn th"
  shows "\<And>n. st n = None \<longleftrightarrow> n \<notin> task_names ts" "distinct rn" "\<And>n. n \<in> set rn \<longleftrightarrow> st n = Some TASK_BUSY"
    and "\<And>n. st n = Some TASK_READY \<longleftrightarrow> ready_at th n" "one_each th"
    and "\<And>t. t \<in> set ts \<Longrightarrow> st (tk_name t) = Some TASK_READY \<Longrightarrow> in_names t \<subseteq> dm"
    and "\<forall>a \<in> set th. set (pending a) \<subseteq> task_names ts"
  using assms unfolding flow_ok_def by blast+

lemma flow_complete:
  assumes "flow_ok ts st dm rn th" "n \<in> set rn" "set ns \<subseteq> task_names ts" "dm \<subseteq> dm'"
  shows "flow_ok ts (st(n \<mapsto> TASK_DONE)) dm' (remove1 n rn) (th @ [Successors ns b])"
proof -
  note D = flow_okD [OF assms(1)]
  have n: "st n = Some TASK_BUSY" "n \<in> task_names ts" "\<not> ready_at th n"
    using assms(2) D(3) [of n] D(1) [of n] D(4) [of n] by auto
  have "in_names t \<subseteq> dm'" if "t \<in> set ts" "ready_at th (tk_name t)" for t
    using that D(4,6) assms(4) by blast
  with D n assms(3) one_each_append [OF _ D(5), of "Successors ns b"] show ?thesis unfolding flow_ok_def by auto
qed

lemma flow_update:
  assumes "flow_ok ts st dm rn th" "i < length th" "set (pending a) \<subseteq> set (pending (th ! i))" "proc (th ! i) = None" "proc a = None"
  shows "flow_ok ts st dm rn (th[i := a])"
proof -
  note D = flow_okD [OF assms(1)]
  have "set (pending a) \<subseteq> task_names ts" using assms(2,3) D(7) nth_mem by blast
  from pending_update [OF D(7) this, of i] one_each_update [OF D(5) assms(2), of a] D(1-4,6) assms(4,5)
  show ?thesis unfolding flow_ok_def by (simp add: ready_at_update [OF D(5) assms(2)])
qed

lemma flow_ready:
  assumes "flow_ok ts st dm rn th" "i < length th" "th ! i = Successors (n # ns) b" "st n = Some TASK_IDLE"
    and "\<And>t. t \<in> set ts \<Longrightarrow> tk_name t = n \<Longrightarrow> in_names t \<subseteq> dm"
  shows "flow_ok ts (st(n \<mapsto> TASK_READY)) dm rn (th[i := Processing n ns b])"
proof -
  note D = flow_okD [OF assms(1)]
  have n: "n \<in> task_names ts" "\<not> ready_at th n" using assms(4) D(1) [of n] D(4) [of n] by auto
  have "set (pending (Processing n ns b)) \<subseteq> task_names ts" using assms(2,3) D(7) nth_mem [of i th] by fastforce
  from pending_update [OF D(7) this, of i] one_each_update [OF D(5) assms(2), of "Processing n ns b"] D(1-4,6) assms(3-5) n
  show ?thesis unfolding flow_ok_def by (auto simp: ready_at_update [OF D(5) assms(2)])
qed

lemma flow_process:
  assumes "flow_ok ts st dm rn th" "i < length th" "th ! i = Processing n ns b"
  shows "flow_ok ts (st(n \<mapsto> TASK_BUSY)) dm (rn @ [n]) (th[i := Successors ns b])"
proof -
  note D = flow_okD [OF assms(1)]
  have "ready_at th n" using assms(2,3) by (auto simp: ready_at_nth)
  then have n: "st n = Some TASK_READY" "n \<in> task_names ts" "n \<notin> set rn" using D(1) [of n] D(3) [of n] D(4) [of n] by auto
  have "set (pending (Successors ns b)) \<subseteq> task_names ts" using assms(2,3) D(7) nth_mem [of i th] by fastforce
  from pending_update [OF D(7) this, of i] one_each_update [OF D(5) assms(2), of "Successors ns b"] D(1-4,6) assms(3) n
  show ?thesis unfolding flow_ok_def by (auto simp: ready_at_update [OF D(5) assms(2)])
qed

subsection \<open>Tensors\<close>

text \<open>
  \<open>A\<close> are the tensors there from the start, \<open>D\<close> the tasks that were started directly. An idle task lacks an
  input or some thread will still look at it, unless it is one of the tasks \<open>X\<close> that nobody looks at.
\<close>

definition tensor_ok :: "string \<Rightarrow> Tensor \<Rightarrow> bool" where
  "tensor_ok n x \<longleftrightarrow> tn_data x \<noteq> 0 \<and> tn_name x = n"

definition data_ok ::
  "Task list \<Rightarrow> string set \<Rightarrow> string set \<Rightarrow> string set \<Rightarrow> (string \<Rightarrow> task_status option) \<Rightarrow> (string \<Rightarrow> Tensor option) \<Rightarrow> activity list \<Rightarrow> bool" where
  "data_ok ts D A X st T th \<longleftrightarrow>
     (\<forall>t \<in> set ts. st (tk_name t) = Some TASK_DONE \<longrightarrow> out_names t \<subseteq> dom T)
     \<and> (\<forall>n x. T n = Some x \<longrightarrow> tensor_ok n x) \<and> A \<subseteq> dom T
     \<and> (\<forall>t \<in> set ts. st (tk_name t) = Some TASK_IDLE \<longrightarrow> tk_name t \<in> X \<or> \<not> in_names t \<subseteq> dom T \<or> waits th (tk_name t))
     \<and> (\<forall>n \<in> D. n \<in> task_names ts \<longrightarrow> st n = Some TASK_DONE)"

lemma data_okD:
  assumes "data_ok ts D A X st T th"
  shows "\<And>t. t \<in> set ts \<Longrightarrow> st (tk_name t) = Some TASK_DONE \<Longrightarrow> out_names t \<subseteq> dom T"
    and "\<And>n x. T n = Some x \<Longrightarrow> tensor_ok n x" "A \<subseteq> dom T"
    and "\<And>t. t \<in> set ts \<Longrightarrow> st (tk_name t) = Some TASK_IDLE \<Longrightarrow> in_names t \<subseteq> dom T \<Longrightarrow> tk_name t \<notin> X \<Longrightarrow> waits th (tk_name t)"
    and "\<And>n. n \<in> D \<Longrightarrow> n \<in> task_names ts \<Longrightarrow> st n = Some TASK_DONE"
  using assms unfolding data_ok_def by blast+

lemma data_complete:
  assumes "data_ok ts D A X st T th" "linked ts" "t \<in> set ts"
    and "dom T' = dom T \<union> out_names t" "\<And>n x. T' n = Some x \<Longrightarrow> tensor_ok n x"
  shows "data_ok ts D A X (st(tk_name t \<mapsto> TASK_DONE)) T' (th @ [Successors (tk_nexts t) b])"
proof -
  note D = data_okD [OF assms(1)]
  have same: "u = t" if "u \<in> set ts" "tk_name u = tk_name t" for u
    using that assms(2,3) by (auto simp: linked_def distinct_map dest: inj_onD)
  have "waits (th @ [Successors (tk_nexts t) b]) (tk_name u)"
    if "u \<in> set ts" "st (tk_name u) = Some TASK_IDLE" "in_names u \<subseteq> dom T'" "tk_name u \<notin> X" for u
  proof (cases "in_names u \<subseteq> dom T")
    case False
    with that(3) assms(4) have "out_names t \<inter> in_names u \<noteq> {}" by blast
    with assms(2,3) that(1) show ?thesis by (auto simp: linked_def)
  qed (use D(4) that in auto)
  moreover have "out_names u \<subseteq> dom T'" if "u \<in> set ts" "(st(tk_name t \<mapsto> TASK_DONE)) (tk_name u) = Some TASK_DONE" for u
    using that same [of u] D(1) [of u] assms(4) by (auto split: if_splits)
  moreover have "A \<subseteq> dom T'" using D(3) assms(4) by auto
  ultimately show ?thesis using D(5) assms(5) unfolding data_ok_def by (auto split: if_splits)
qed

lemma data_update:
  assumes "data_ok ts D A X st T th" "i < length th"
    and "\<And>n. n \<in> set (pending (th ! i)) \<Longrightarrow> n \<in> set (pending a) \<or> st' n \<noteq> Some TASK_IDLE
      \<or> (\<exists>t \<in> set ts. tk_name t = n \<and> \<not> in_names t \<subseteq> dom T)"
    and "linked ts" "\<And>n. st' n = Some TASK_DONE \<longleftrightarrow> st n = Some TASK_DONE" "\<And>n. st' n = Some TASK_IDLE \<Longrightarrow> st n = Some TASK_IDLE"
  shows "data_ok ts D A X st' T (th[i := a])"
proof -
  note D = data_okD [OF assms(1)]
  have "waits (th[i := a]) (tk_name t)" if t: "t \<in> set ts" "st' (tk_name t) = Some TASK_IDLE" "in_names t \<subseteq> dom T" "tk_name t \<notin> X" for t
  proof -
    have same: "u = t" if "u \<in> set ts" "tk_name u = tk_name t" for u
      using that t(1) assms(4) by (auto simp: linked_def distinct_map dest: inj_onD)
    have "waits th (tk_name t)" using D(4) t assms(6) by blast
    then show ?thesis using waits_update [of th "tk_name t" i a] assms(2) assms(3) [of "tk_name t"] t same by blast
  qed
  with D assms(5) show ?thesis unfolding data_ok_def by blast
qed

subsection \<open>Counters\<close>

definition done_names :: "(string \<Rightarrow> task_status option) \<Rightarrow> string set" where
  "done_names st = {n. st n = Some TASK_DONE}"

definition last_at :: "activity list \<Rightarrow> bool" where "last_at th \<longleftrightarrow> (\<exists>a \<in> set th. is_last a)"

definition one_last :: "activity list \<Rightarrow> bool" where
  "one_last th \<longleftrightarrow> (\<forall>i k. i < length th \<longrightarrow> k < length th \<longrightarrow> is_last (th ! i) \<longrightarrow> is_last (th ! k) \<longrightarrow> i = k)"

lemma last_at_append [simp]: "last_at (th @ [a]) \<longleftrightarrow> last_at th \<or> is_last a"
  by (auto simp: last_at_def)

lemma last_at_nth: "last_at th \<longleftrightarrow> (\<exists>i < length th. is_last (th ! i))"
  unfolding last_at_def by (metis in_set_conv_nth)

lemma one_last_append: "one_last th \<Longrightarrow> (is_last a \<Longrightarrow> \<not> last_at th) \<Longrightarrow> one_last (th @ [a])"
  unfolding one_last_def last_at_nth by (auto simp: nth_append split: if_splits)

lemma last_at_update: "i < length th \<Longrightarrow> is_last a = is_last (th ! i) \<Longrightarrow> last_at (th[i := a]) \<longleftrightarrow> last_at th"
  unfolding last_at_nth by (metis length_list_update nth_list_update_eq nth_list_update_neq)

lemma one_last_update: "one_last th \<Longrightarrow> i < length th \<Longrightarrow> (is_last a \<Longrightarrow> is_last (th ! i)) \<Longrightarrow> one_last (th[i := a])"
  unfolding one_last_def by (auto simp: nth_list_update)

lemma last_at_remove: "one_last th \<Longrightarrow> i < length th \<Longrightarrow> is_last (th ! i) \<Longrightarrow> \<not> is_last a \<Longrightarrow> \<not> last_at (th[i := a])"
  unfolding one_last_def last_at_nth by (auto simp: nth_list_update split: if_splits)

text \<open>The last task to finish, and only that one, leads to a delivery.\<close>

definition count_ok ::
  "Task list \<Rightarrow> (string \<Rightarrow> task_status option) \<Rightarrow> activity list \<Rightarrow> InferenceJob \<Rightarrow> Tensor list list \<Rightarrow> bool" where
  "count_ok ts st th j outs \<longleftrightarrow>
     jb_doneCount j = int (card (done_names st)) \<and> jb_outputCount j = int (length ts) \<and> one_last th
     \<and> (done_names st = task_names ts \<longleftrightarrow> last_at th \<or> outs \<noteq> []) \<and> \<not> (last_at th \<and> outs \<noteq> []) \<and> length outs \<le> 1
     \<and> jb_status j = (if outs = [] then REQ_BUSY else REQ_DONE) \<and> (\<forall>ys \<in> set outs. map tn_name ys = jb_outputs j)"

lemma count_complete:
  assumes "count_ok ts st th j outs" "distinct (map tk_name ts)" "n \<in> task_names ts" "st n \<noteq> Some TASK_DONE"
    and "done_names st \<subseteq> task_names ts"
    and "jb_doneCount j' = jb_doneCount j + 1" "jb_outputCount j' = jb_outputCount j" "jb_status j' = jb_status j" "jb_outputs j' = jb_outputs j"
  shows "count_ok ts (st(n \<mapsto> TASK_DONE)) (th @ [Successors ns (jb_doneCount j' = jb_outputCount j')]) j' outs"
proof -
  have fin: "finite (task_names ts)" and card: "card (task_names ts) = length ts"
    using assms(2) by (auto simp: task_names_def distinct_card [symmetric, of "map tk_name ts", simplified])
  have d: "done_names (st(n \<mapsto> TASK_DONE)) = insert n (done_names st)" "n \<notin> done_names st"
    using assms(4) by (auto simp: done_names_def)
  have none: "\<not> last_at th" "outs = []" using assms(1,3) d(2) unfolding count_ok_def by blast+
  have c: "card (insert n (done_names st)) = Suc (card (done_names st))"
    using d(2) finite_subset [OF assms(5) fin] by simp
  have "insert n (done_names st) = task_names ts \<longleftrightarrow> card (insert n (done_names st)) = length ts"
    using card_subset_eq [OF fin, of "insert n (done_names st)"] assms(3,5) card by auto
  with assms none d c show ?thesis unfolding count_ok_def by (auto intro: one_last_append)
qed

lemma count_update:
  assumes "count_ok ts st th j outs" "i < length th" "is_last a = is_last (th ! i)" "done_names st' = done_names st"
    and "jb_doneCount j' = jb_doneCount j" "jb_outputCount j' = jb_outputCount j" "jb_status j' = jb_status j" "jb_outputs j' = jb_outputs j"
  shows "count_ok ts st' (th[i := a]) j' outs"
  using assms one_last_update [of th i a] last_at_update [of i th a] unfolding count_ok_def by auto

lemma count_deliver:
  assumes "count_ok ts st th j outs" "i < length th" "is_last (th ! i)" "\<not> is_last a"
    and "jb_doneCount j' = jb_doneCount j" "jb_outputCount j' = jb_outputCount j" "jb_status j' = REQ_DONE" "jb_outputs j' = jb_outputs j"
    and "map tn_name ys = jb_outputs j"
  shows "count_ok ts st (th[i := a]) j' (outs @ [ys])"
proof -
  have "last_at th" using assms(2,3) by (auto simp: last_at_nth)
  then have "outs = []" "done_names st = task_names ts" using assms(1) unfolding count_ok_def by auto
  with assms one_last_update [of th i a] last_at_remove [of th i a] show ?thesis unfolding count_ok_def by auto
qed

subsection \<open>The functions of the job\<close>

lemma dom_publish: "dom (map_of (fold (\<lambda>x. AList.update (tn_name x) x) xs m)) = dom (map_of m) \<union> tn_name ` set xs"
  by (induction xs arbitrary: m) (auto simp: update_conv')

lemma publish_ok:
  assumes "\<And>n x. map_of m n = Some x \<Longrightarrow> tensor_ok n x" "\<forall>x \<in> set xs. tn_data x \<noteq> 0"
  shows "map_of (fold (\<lambda>x. AList.update (tn_name x) x) xs m) n = Some x \<Longrightarrow> tensor_ok n x"
  using assms
proof (induction xs arbitrary: m)
  case (Cons y ys)
  have "tensor_ok k z" if "map_of (AList.update (tn_name y) y m) k = Some z" for k z
    using that Cons.prems(2,3) by (auto simp: update_conv' tensor_ok_def split: if_splits)
  from Cons.IH [OF _ this] Cons.prems(1,3) show ?case by simp
qed simp

lemma complete_section_effect:
  assumes "complete_section t c j = Inr (j', fin)"
  shows "map_of (jb_taskStatusMap j') = (map_of (jb_taskStatusMap j))(tk_name t \<mapsto> TASK_DONE)"
    "jb_tensors j' = fold (\<lambda>x. AList.update (tn_name x) x) (cp_outputs c) (jb_tensors j)"
    "jb_doneCount j' = jb_doneCount j + 1" "jb_outputCount j' = jb_outputCount j" "jb_status j' = jb_status j"
    "jb_outputs j' = jb_outputs j" "fin = (jb_doneCount j' = jb_outputCount j')"
  using assms by (auto simp: complete_section_def Let_def update_conv split: option.splits)

lemma complete_section_defined:
  "map_of (jb_taskStatusMap j) (tk_name t) \<noteq> None \<Longrightarrow> \<exists>j' fin. complete_section t c j = Inr (j', fin)"
  by (auto simp: complete_section_def Let_def)

lemma check_ready_effect:
  "checkAndSetTaskReady t j = (True, j') \<Longrightarrow> map_of (jb_taskStatusMap j) (tk_name t) = Some TASK_IDLE
     \<and> in_names t \<subseteq> dom (map_of (jb_tensors j))
     \<and> j' = j\<lparr>jb_taskStatusMap := AList.update (tk_name t) TASK_READY (jb_taskStatusMap j)\<rparr>"
  by (auto simp: checkAndSetTaskReady_def in_names_def split: option.splits if_splits)

lemma check_not_ready_effect:
  "checkAndSetTaskReady t j = (False, j') \<Longrightarrow> j' = j \<and>
     (map_of (jb_taskStatusMap j) (tk_name t) \<noteq> Some TASK_IDLE \<or> \<not> in_names t \<subseteq> dom (map_of (jb_tensors j)))"
  by (auto simp: checkAndSetTaskReady_def in_names_def split: option.splits if_splits)

lemma process_effect:
  assumes "map_of (jb_taskStatusMap j) (tk_name t) = Some TASK_READY" "in_names t \<subseteq> dom (map_of (jb_tensors j))"
    and "\<And>n x. map_of (jb_tensors j) n = Some x \<Longrightarrow> tensor_ok n x"
  shows "\<exists>r. processReadyTask t j = (Some r, j\<lparr>jb_requests := jb_requests j @ [r],
      jb_taskStatusMap := AList.update (tk_name t) TASK_BUSY (jb_taskStatusMap j)\<rparr>) \<and> jr_task r = t
    \<and> jr_inputs r = map (fill_input (jb_tensors j)) (tk_inputs t)"
proof -
  have "tn_data (fill_input (jb_tensors j) x) \<noteq> 0" if "x \<in> set (tk_inputs t)" for x
  proof -
    have "tn_name x \<in> dom (map_of (jb_tensors j))" using assms(2) that by (auto simp: in_names_def)
    then show ?thesis using assms(3) by (auto simp: fill_input_def tensor_ok_def)
  qed
  with assms(1) show ?thesis by (auto simp: processReadyTask_def Let_def)
qed

lemma return_loop_names:
  assumes "set ns \<subseteq> dom (map_of tensors)" "\<And>n x. map_of tensors n = Some x \<Longrightarrow> tensor_ok n x"
  shows "\<exists>ret mem'. return_loop ie alloc tensors ptr ns k mem = ([], ret, mem') \<and> map tn_name ret = ns"
  using assms(1)
proof (induction ns arbitrary: k mem)
  case (Cons n ns)
  then obtain x where x: "map_of tensors n = Some x" by auto
  let ?dest = "if ptr = 0 then alloc k else ptr + GetOutputTensorOffset ie n"
  let ?mem = "if ptr = 0 \<or> (tn_data x \<noteq> 0 \<and> ?dest \<noteq> tn_data x) then memcpy ?dest (tn_data x) (size_in_bytes x) mem else mem"
  from Cons obtain ret mem' where "return_loop ie alloc tensors ptr ns (Suc k) ?mem = ([], ret, mem')" "map tn_name ret = ns" by force
  with x assms(2) [OF x] show ?case by (auto simp: Let_def tensor_ok_def)
qed simp

lemma map_filter_names:
  assumes "set ns \<subseteq> dom T" "\<And>n x. T n = Some x \<Longrightarrow> tensor_ok n x"
  shows "map tn_name (List.map_filter T ns) = ns"
  using assms(1) by (induction ns) (auto simp: List.map_filter_simps tensor_ok_def dest: assms(2) split: option.splits)

lemma onAllRequestComplete_effect:
  assumes "set (jb_outputs j) \<subseteq> dom (map_of (jb_tensors j))" "\<And>n x. map_of (jb_tensors j) n = Some x \<Longrightarrow> tensor_ok n x"
  shows "\<exists>outs j' mem'. onAllRequestComplete ie alloc mem j = (Inr (outs, j'), mem') \<and> map tn_name outs = jb_outputs j
    \<and> jb_status j' = REQ_DONE \<and> jb_taskStatusMap j' = jb_taskStatusMap j \<and> jb_tensors j' = jb_tensors j
    \<and> jb_outputs j' = jb_outputs j \<and> jb_doneCount j' = jb_doneCount j \<and> jb_outputCount j' = jb_outputCount j"
proof -
  obtain ret mem' where "return_loop ie alloc (jb_tensors j) (jb_outputPtr j) (jb_outputs j) 0 mem = ([], ret, mem')" "map tn_name ret = jb_outputs j"
    using return_loop_names [OF assms(1,2)] by blast
  with map_filter_names [OF assms(1,2)] show ?thesis
    by (auto simp: onAllRequestComplete_def deliver_outputs_def setReturnOutputs_def SetOccupiedJob_def setStatus_def ReleaseAllOutputBuffer_def)
qed

subsection \<open>The invariant\<close>

definition request_names :: "Request list \<Rightarrow> string list" where
  "request_names rs = map (\<lambda>r. tk_name (jr_task r)) rs"

definition graph_ok :: "InferenceEngine \<Rightarrow> bool" where
  "graph_ok ie \<longleftrightarrow> linked (ie_tasks ie) \<and> set (ie_lastOutputOrder ie) \<subseteq> (\<Union>t \<in> set (ie_tasks ie). out_names t)"

definition job_inv :: "InferenceEngine \<Rightarrow> string set \<Rightarrow> string set \<Rightarrow> string set \<Rightarrow> job_sys \<Rightarrow> bool" where
  "job_inv ie D A X s \<longleftrightarrow>
     (let j = js_job s; st = map_of (jb_taskStatusMap j); T = map_of (jb_tensors j); th = js_threads s in
      flow_ok (ie_tasks ie) st (dom T) (request_names (js_running s)) th \<and> (\<forall>r \<in> set (js_running s). jr_task r \<in> set (ie_tasks ie))
      \<and> data_ok (ie_tasks ie) D A X st T th \<and> count_ok (ie_tasks ie) st th j (js_delivered s) \<and> jb_outputs j = ie_lastOutputOrder ie)"

lemma map_remove1_distinct: "distinct (map f xs) \<Longrightarrow> x \<in> set xs \<Longrightarrow> map f (remove1 x xs) = remove1 (f x) (map f xs)"
  by (induction xs) (auto simp: image_iff)

lemma done_names_subset:
  assumes "flow_ok ts st dm rn th"
  shows "done_names st \<subseteq> task_names ts"
proof
  fix n assume "n \<in> done_names st"
  then have "st n \<noteq> None" by (simp add: done_names_def)
  with flow_okD(1) [OF assms, of n] show "n \<in> task_names ts" by simp
qed

lemma outputs_of_names: "outputs_of t c \<Longrightarrow> tn_name ` set (cp_outputs c) = out_names t"
  unfolding outputs_of_def out_names_def by (metis image_set)

lemma job_invD:
  assumes "job_inv ie D A X s"
  defines "j \<equiv> js_job s" and "th \<equiv> js_threads s"
  shows "flow_ok (ie_tasks ie) (map_of (jb_taskStatusMap j)) (dom (map_of (jb_tensors j))) (request_names (js_running s)) th"
    "\<forall>r \<in> set (js_running s). jr_task r \<in> set (ie_tasks ie)"
    "data_ok (ie_tasks ie) D A X (map_of (jb_taskStatusMap j)) (map_of (jb_tensors j)) th"
    "count_ok (ie_tasks ie) (map_of (jb_taskStatusMap j)) th j (js_delivered s)" "jb_outputs j = ie_lastOutputOrder ie"
  using assms(1) unfolding j_def th_def by (auto simp: job_inv_def Let_def)

text \<open>When the last task is done, every output is there.\<close>

lemma outputs_there:
  assumes "job_inv ie D A X s" "graph_ok ie" "last_at (js_threads s)"
  shows "set (jb_outputs (js_job s)) \<subseteq> dom (map_of (jb_tensors (js_job s)))"
proof -
  note I = job_invD [OF assms(1)]
  have "done_names (map_of (jb_taskStatusMap (js_job s))) = task_names (ie_tasks ie)" using I(4) assms(3) by (auto simp: count_ok_def)
  then have "out_names t \<subseteq> dom (map_of (jb_tensors (js_job s)))" if "t \<in> set (ie_tasks ie)" for t
    using that data_okD(1) [OF I(3) that] by (auto simp: done_names_def task_names_def)
  then show ?thesis using assms(2) I(5) by (force simp: graph_ok_def)
qed

lemma job_inv_complete:
  assumes "job_inv ie D A X s" "graph_ok ie"
    and "r \<in> set (js_running s)" "outputs_of (jr_task r) c" "complete_section (jr_task r) c (js_job s) = Inr (j, fin)"
  shows "job_inv ie D A X (s\<lparr>js_job := j, js_running := remove1 r (js_running s), js_threads := js_threads s @ [Successors (tk_nexts (jr_task r)) fin]\<rparr>)"
proof -
  let ?ts = "ie_tasks ie" and ?j = "js_job s"
  let ?st = "map_of (jb_taskStatusMap ?j)" and ?T = "map_of (jb_tensors ?j)" and ?th = "js_threads s"
  note I = job_invD [OF assms(1)] and P = assms(3-)
  have L: "linked ?ts" using assms(2) by (simp add: graph_ok_def)
  let ?t = "jr_task r"
  note E = complete_section_effect [OF P(3)]
  have t: "?t \<in> set ?ts" "tk_name ?t \<in> set (request_names (js_running s))" using P(1) I(2) by (auto simp: request_names_def)
  have outs: "tn_name ` set (cp_outputs c) = out_names ?t" "\<forall>x \<in> set (cp_outputs c). tn_data x \<noteq> 0"
    using P(2) outputs_of_names by (auto simp: outputs_of_def)
  have rn: "request_names (remove1 r (js_running s)) = remove1 (tk_name ?t) (request_names (js_running s))"
    using flow_okD(2) [OF I(1)] P(1) map_remove1_distinct [of "\<lambda>r. tk_name (jr_task r)"] by (simp add: request_names_def)
  have nx: "set (tk_nexts ?t) \<subseteq> task_names ?ts" using L t(1) by (auto simp: linked_def)
  have n: "tk_name ?t \<in> task_names ?ts" "?st (tk_name ?t) \<noteq> Some TASK_DONE" using t flow_okD(3) [OF I(1)] by (auto simp: task_names_def)
  have dom: "dom (map_of (jb_tensors j)) = dom ?T \<union> out_names ?t" unfolding E(2) dom_publish outs(1) by (rule refl)
  have "data_ok ?ts D A X (?st(tk_name ?t \<mapsto> TASK_DONE)) (map_of (jb_tensors j)) (?th @ [Successors (tk_nexts ?t) fin])"
    by (rule data_complete [OF I(3) L t(1) dom]) (unfold E(2), rule publish_ok [OF data_okD(2) [OF I(3)] outs(2)])
  moreover have "count_ok ?ts (?st(tk_name ?t \<mapsto> TASK_DONE)) (?th @ [Successors (tk_nexts ?t) fin]) j (js_delivered s)"
    unfolding E(7) using L E done_names_subset [OF I(1)] by (intro count_complete [OF I(4) _ n]) (auto simp: linked_def)
  moreover have "flow_ok ?ts (?st(tk_name ?t \<mapsto> TASK_DONE)) (dom (map_of (jb_tensors j))) (request_names (remove1 r (js_running s))) (?th @ [Successors (tk_nexts ?t) fin])"
    unfolding rn using dom by (intro flow_complete [OF I(1) t(2) nx]) blast
  moreover have "\<forall>q \<in> set (remove1 r (js_running s)). jr_task q \<in> set ?ts" using I(2) set_remove1_subset [of r "js_running s"] by blast
  ultimately show ?thesis using I(5) E(1,6) unfolding job_inv_def by (simp add: Let_def)
qed

lemma job_inv_ready:
  assumes "job_inv ie D A X s" "graph_ok ie"
    and "i < length (js_threads s)" "js_threads s ! i = Successors (n # ns) fin" "task_of (ie_tasks ie) n = Some t" "checkAndSetTaskReady t (js_job s) = (True, j)"
  shows "job_inv ie D A X (s\<lparr>js_job := j, js_threads := (js_threads s)[i := Processing n ns fin]\<rparr>)"
proof -
  let ?ts = "ie_tasks ie" and ?j = "js_job s"
  let ?st = "map_of (jb_taskStatusMap ?j)" and ?T = "map_of (jb_tensors ?j)" and ?th = "js_threads s"
  note I = job_invD [OF assms(1)] and P = assms(3-)
  have L: "linked ?ts" using assms(2) by (simp add: graph_ok_def)
  note E = check_ready_effect [OF P(4)]
  have t: "t \<in> set ?ts" "tk_name t = n" using task_of_Some [OF P(3)] by auto
  have same: "u = t" if "u \<in> set ?ts" "tk_name u = n" for u using that t L by (auto simp: linked_def distinct_map dest: inj_onD)
  have idle: "?st n = Some TASK_IDLE" using E t by simp
  have "flow_ok ?ts (?st(n \<mapsto> TASK_READY)) (dom ?T) (request_names (js_running s)) (?th[i := Processing n ns fin])"
    using same E by (intro flow_ready [OF I(1) P(1,2) idle]) auto
  moreover have "data_ok ?ts D A X (?st(n \<mapsto> TASK_READY)) ?T (?th[i := Processing n ns fin])"
    using P(2) idle by (intro data_update [OF I(3) P(1) _ L]) (auto split: if_splits)
  moreover have "count_ok ?ts (?st(n \<mapsto> TASK_READY)) (?th[i := Processing n ns fin]) j (js_delivered s)"
    using P(2) E idle by (intro count_update [OF I(4) P(1)]) (auto simp: done_names_def)
  ultimately show ?thesis using I(2) I(5) E t unfolding job_inv_def by (simp add: Let_def update_conv')
qed

lemma job_inv_not_ready:
  assumes "job_inv ie D A X s" "graph_ok ie"
    and "i < length (js_threads s)" "js_threads s ! i = Successors (n # ns) fin" "task_of (ie_tasks ie) n = Some t" "checkAndSetTaskReady t (js_job s) = (False, j)"
  shows "job_inv ie D A X (s\<lparr>js_job := j, js_threads := (js_threads s)[i := Successors ns fin]\<rparr>)"
proof -
  let ?ts = "ie_tasks ie" and ?j = "js_job s"
  let ?st = "map_of (jb_taskStatusMap ?j)" and ?T = "map_of (jb_tensors ?j)" and ?th = "js_threads s"
  note I = job_invD [OF assms(1)] and P = assms(3-)
  have L: "linked ?ts" using assms(2) by (simp add: graph_ok_def)
  note E = check_not_ready_effect [OF P(4)]
  have t: "t \<in> set ?ts" "tk_name t = n" using task_of_Some [OF P(3)] by auto
  have "flow_ok ?ts ?st (dom ?T) (request_names (js_running s)) (?th[i := Successors ns fin])"
    using P(2) by (intro flow_update [OF I(1) P(1)]) auto
  moreover have "data_ok ?ts D A X ?st ?T (?th[i := Successors ns fin])"
    using P(2) E t by (intro data_update [OF I(3) P(1) _ L]) auto
  moreover have "count_ok ?ts ?st (?th[i := Successors ns fin]) ?j (js_delivered s)"
    using P(2) by (intro count_update [OF I(4) P(1)]) auto
  ultimately show ?thesis using I(2) I(5) E unfolding job_inv_def by (simp add: Let_def)
qed

lemma job_inv_process:
  assumes "job_inv ie D A X s" "graph_ok ie"
    and "i < length (js_threads s)" "js_threads s ! i = Processing n ns fin" "task_of (ie_tasks ie) n = Some t" "processReadyTask t (js_job s) = (q, j)"
  shows "job_inv ie D A X (s\<lparr>js_job := j, js_running := js_running s @ (case q of None \<Rightarrow> [] | Some r \<Rightarrow> [r]), js_threads := (js_threads s)[i := Successors ns fin]\<rparr>)"
proof -
  let ?ts = "ie_tasks ie" and ?j = "js_job s"
  let ?st = "map_of (jb_taskStatusMap ?j)" and ?T = "map_of (jb_tensors ?j)" and ?th = "js_threads s"
  note I = job_invD [OF assms(1)] and P = assms(3-)
  have L: "linked ?ts" using assms(2) by (simp add: graph_ok_def)
  have t: "t \<in> set ?ts" "tk_name t = n" using task_of_Some [OF P(3)] by auto
  have "ready_at ?th n" using P(1,2) by (auto simp: ready_at_nth)
  then have st: "?st n = Some TASK_READY" using flow_okD(4) [OF I(1)] by blast
  then have "in_names t \<subseteq> dom ?T" using flow_okD(6) [OF I(1) t(1)] t(2) by simp
  from process_effect [of ?j t, OF _ this] st t(2) data_okD(2) [OF I(3)] P(4)
  obtain r where r: "q = Some r" "jr_task r = t"
    "j = ?j\<lparr>jb_requests := jb_requests ?j @ [r], jb_taskStatusMap := AList.update n TASK_BUSY (jb_taskStatusMap ?j)\<rparr>" by auto
  have "flow_ok ?ts (?st(n \<mapsto> TASK_BUSY)) (dom ?T) (request_names (js_running s) @ [n]) (?th[i := Successors ns fin])"
    by (rule flow_process [OF I(1) P(1,2)])
  moreover have "data_ok ?ts D A X (?st(n \<mapsto> TASK_BUSY)) ?T (?th[i := Successors ns fin])"
    using P(2) st by (intro data_update [OF I(3) P(1) _ L]) (auto split: if_splits)
  moreover have "count_ok ?ts (?st(n \<mapsto> TASK_BUSY)) (?th[i := Successors ns fin]) j (js_delivered s)"
    using P(2) st r(3) by (intro count_update [OF I(4) P(1)]) (auto simp: done_names_def)
  ultimately show ?thesis using I(2) I(5) r t unfolding job_inv_def by (simp add: Let_def update_conv' request_names_def)
qed

lemma job_inv_leave:
  assumes "job_inv ie D A X s" "graph_ok ie"
    and "i < length (js_threads s)" "js_threads s ! i = Successors [] False"
  shows "job_inv ie D A X (s\<lparr>js_threads := (js_threads s)[i := Finished]\<rparr>)"
proof -
  let ?ts = "ie_tasks ie" and ?j = "js_job s"
  let ?st = "map_of (jb_taskStatusMap ?j)" and ?T = "map_of (jb_tensors ?j)" and ?th = "js_threads s"
  note I = job_invD [OF assms(1)] and P = assms(3-)
  have L: "linked ?ts" using assms(2) by (simp add: graph_ok_def)
  have "flow_ok ?ts ?st (dom ?T) (request_names (js_running s)) (?th[i := Finished])"
    using P(2) by (intro flow_update [OF I(1) P(1)]) auto
  moreover have "data_ok ?ts D A X ?st ?T (?th[i := Finished])" using P(2) by (intro data_update [OF I(3) P(1) _ L]) auto
  moreover have "count_ok ?ts ?st (?th[i := Finished]) ?j (js_delivered s)" using P(2) by (intro count_update [OF I(4) P(1)]) auto
  ultimately show ?thesis using I(2) I(5) unfolding job_inv_def by (simp add: Let_def)
qed

lemma job_inv_deliver:
  assumes "job_inv ie D A X s" "graph_ok ie"
    and "i < length (js_threads s)" "js_threads s ! i = Successors [] True" "onAllRequestComplete ie alloc (js_mem s) (js_job s) = (Inr (outs, j), mem)"
  shows "job_inv ie D A X (s\<lparr>js_job := j, js_threads := (js_threads s)[i := Finished], js_delivered := js_delivered s @ [outs], js_mem := mem\<rparr>)"
proof -
  let ?ts = "ie_tasks ie" and ?j = "js_job s"
  let ?st = "map_of (jb_taskStatusMap ?j)" and ?T = "map_of (jb_tensors ?j)" and ?th = "js_threads s"
  note I = job_invD [OF assms(1)] and P = assms(3-)
  have L: "linked ?ts" using assms(2) by (simp add: graph_ok_def)
  have "last_at ?th" using P(1,2) by (auto simp: last_at_nth)
  from onAllRequestComplete_effect [OF outputs_there [OF assms(1,2) this]] data_okD(2) [OF I(3)] P(3)
  have E: "map tn_name outs = jb_outputs ?j" "jb_status j = REQ_DONE" "jb_taskStatusMap j = jb_taskStatusMap ?j" "jb_tensors j = jb_tensors ?j"
    "jb_outputs j = jb_outputs ?j" "jb_doneCount j = jb_doneCount ?j" "jb_outputCount j = jb_outputCount ?j" by (metis Pair_inject sum.inject(2))+
  have "flow_ok ?ts ?st (dom ?T) (request_names (js_running s)) (?th[i := Finished])"
    using P(2) by (intro flow_update [OF I(1) P(1)]) auto
  moreover have "data_ok ?ts D A X ?st ?T (?th[i := Finished])" using P(2) by (intro data_update [OF I(3) P(1) _ L]) auto
  moreover have "count_ok ?ts ?st (?th[i := Finished]) j (js_delivered s @ [outs])"
    using P(2) E by (intro count_deliver [OF I(4) P(1)]) auto
  ultimately show ?thesis using I(2) I(5) E unfolding job_inv_def by (simp add: Let_def)
qed

lemmas job_inv_rules = job_inv_complete job_inv_ready job_inv_not_ready job_inv_process job_inv_leave job_inv_deliver

lemma job_inv_step: "job_step ie alloc s s' \<Longrightarrow> job_inv ie D A X s \<Longrightarrow> graph_ok ie \<Longrightarrow> job_inv ie D A X s'"
  by (induction rule: job_step.induct) (simp_all only: job_inv_rules)

subsection \<open>Progress and termination\<close>

lemma can_complete:
  assumes "r \<in> set (js_running s)" "map_of (jb_taskStatusMap (js_job s)) (tk_name (jr_task r)) \<noteq> None"
  shows "\<exists>s'. job_step ie alloc s s'"
proof -
  let ?c = "\<lparr>cp_outputs = map (\<lambda>x. x\<lparr>tn_data := 1\<rparr>) (tk_outputs (jr_task r)), cp_latency = 0, cp_queueWaitTime = 0, cp_inference_time = 0\<rparr>"
  obtain j fin where "complete_section (jr_task r) ?c (js_job s) = Inr (j, fin)" using complete_section_defined [OF assms(2)] by blast
  moreover have "outputs_of (jr_task r) ?c" by (simp add: outputs_of_def)
  ultimately show ?thesis using job_step.complete [OF assms(1)] by blast
qed

lemma job_progress:
  assumes "job_inv ie D A X s" "graph_ok ie" "\<nexists>s'. job_step ie alloc s s'"
  shows "js_running s = []" "\<forall>a \<in> set (js_threads s). a = Finished"
proof -
  let ?ts = "ie_tasks ie" and ?j = "js_job s"
  let ?st = "map_of (jb_taskStatusMap ?j)" and ?T = "map_of (jb_tensors ?j)" and ?th = "js_threads s"
  note F = job_invD(1) [OF assms(1)] and Da = job_invD(3) [OF assms(1)]
  show "js_running s = []"
  proof (rule ccontr)
    assume "js_running s \<noteq> []"
    then obtain r where r: "r \<in> set (js_running s)" using last_in_set by blast
    then have "tk_name (jr_task r) \<in> set (request_names (js_running s))" by (auto simp: request_names_def)
    then have "?st (tk_name (jr_task r)) \<noteq> None" using flow_okD(3) [OF F] by auto
    from can_complete [OF r this] assms(3) show False by blast
  qed
  show "\<forall>a \<in> set ?th. a = Finished"
  proof (rule ccontr)
    assume "\<not> ?thesis"
    then obtain i where i: "i < length ?th" "?th ! i \<noteq> Finished" by (metis in_set_conv_nth)
    have task: "\<exists>t. task_of ?ts n = Some t" if "n \<in> task_names ?ts" for n
      using that task_of_None [of ?ts n] by (auto simp: task_names_def)
    show False
    proof (cases "?th ! i")
      case (Successors ns b)
      show False
      proof (cases ns)
        case (Cons n ms)
        have "n \<in> task_names ?ts" using flow_okD(7) [OF F] nth_mem [OF i(1)] Successors Cons by fastforce
        then obtain t where "task_of ?ts n = Some t" using task by blast
        with job_step.ready [of i s n ms b ie t] job_step.not_ready [of i s n ms b ie t] i Successors Cons assms(3) show False
          by (metis (full_types) surj_pair)
      next
        case Nil
        show False
        proof (cases b)
          case True
          have "last_at ?th" using i(1) Successors True by (auto simp: last_at_nth)
          from onAllRequestComplete_effect [OF outputs_there [OF assms(1,2) this] data_okD(2) [OF Da]] obtain outs j' mem'
            where "onAllRequestComplete ie alloc (js_mem s) ?j = (Inr (outs, j'), mem')" by blast
          from job_step.deliver [OF i(1) _ this] Successors Nil True assms(3) show False by auto
        next
          case False
          with job_step.leave [OF i(1)] Successors Nil assms(3) show False by auto
        qed
      qed
    next
      case (Processing n ns b)
      have "ready_at ?th n" using i(1) Processing by (auto simp: ready_at_nth)
      then have "n \<in> task_names ?ts" using flow_okD(1,4) [OF F, of n] by (metis option.distinct(1))
      then obtain t where "task_of ?ts n = Some t" using task by blast
      from job_step.process [OF i(1) Processing this] assms(3) show False by (metis surj_pair)
    qed (use i in auto)
  qed
qed

lemma all_done:
  assumes "startable D A ts" "A \<subseteq> dm"
    and "\<And>t. t \<in> set ts \<Longrightarrow> tk_name t \<in> D \<or> in_names t \<subseteq> dm \<Longrightarrow> out_names t \<subseteq> dm \<and> P t"
  shows "\<forall>t \<in> set ts. P t"
  using assms
proof (induction ts arbitrary: A)
  case (Cons t ts)
  have t: "out_names t \<subseteq> dm \<and> P t" using Cons.prems by (intro Cons.prems(3)) auto
  have "\<forall>u \<in> set ts. P u" using Cons.IH [of "A \<union> out_names t"] Cons.prems t by auto
  with t show ?case by simp
qed simp

lemma job_end:
  assumes "job_inv ie D A {} s" "graph_ok ie" "startable D A (ie_tasks ie)" "\<nexists>s'. job_step ie alloc s s'"
  shows "jb_status (js_job s) = REQ_DONE \<and> (\<forall>t \<in> set (ie_tasks ie). map_of (jb_taskStatusMap (js_job s)) (tk_name t) = Some TASK_DONE)
    \<and> (\<exists>outs. js_delivered s = [outs] \<and> map tn_name outs = ie_lastOutputOrder ie)"
proof -
  let ?ts = "ie_tasks ie" and ?j = "js_job s"
  let ?st = "map_of (jb_taskStatusMap ?j)" and ?T = "map_of (jb_tensors ?j)" and ?th = "js_threads s"
  note F = job_invD(1) [OF assms(1)] and Da = job_invD(3) [OF assms(1)] and C = job_invD(4) [OF assms(1)] and O = job_invD(5) [OF assms(1)]
  note stop = job_progress [OF assms(1,2,4)]
  have quiet: "\<not> waits ?th n" "\<not> ready_at ?th n" "\<not> last_at ?th" for n
    using stop(2) by (auto simp: waits_def ready_at_def last_at_def)
  have two: "?st (tk_name t) \<in> {Some TASK_IDLE, Some TASK_DONE}" if "t \<in> set ?ts" for t
  proof -
    have "?st (tk_name t) \<noteq> None" using that flow_okD(1) [OF F] by (auto simp: task_names_def)
    moreover have "?st (tk_name t) \<noteq> Some TASK_BUSY" using flow_okD(3) [OF F, of "tk_name t"] stop(1) by (simp add: request_names_def)
    moreover have "?st (tk_name t) \<noteq> Some TASK_READY" using flow_okD(4) [OF F, of "tk_name t"] quiet(2) by simp
    ultimately show ?thesis by (cases "the (?st (tk_name t))") auto
  qed
  have "\<forall>t \<in> set ?ts. ?st (tk_name t) = Some TASK_DONE"
  proof (rule all_done [OF assms(3) data_okD(3) [OF Da]])
    fix t assume t: "t \<in> set ?ts" "tk_name t \<in> D \<or> in_names t \<subseteq> dom ?T"
    then have "?st (tk_name t) = Some TASK_DONE"
      using two [OF t(1)] data_okD(4,5) [OF Da] quiet(1) by (auto simp: task_names_def)
    with data_okD(1) [OF Da t(1)] show "out_names t \<subseteq> dom ?T \<and> ?st (tk_name t) = Some TASK_DONE" by simp
  qed
  moreover from this have "done_names ?st = task_names ?ts"
    using done_names_subset [OF F] by (auto simp: done_names_def task_names_def)
  then have "js_delivered s \<noteq> []" "length (js_delivered s) \<le> 1" "jb_status ?j = REQ_DONE" "\<forall>ys \<in> set (js_delivered s). map tn_name ys = jb_outputs ?j"
    using C quiet(3) by (auto simp: count_ok_def)
  ultimately show ?thesis using O by (cases "js_delivered s") auto
qed

fun work :: "activity \<Rightarrow> nat" where
  "work (Successors ns b) = 2 * length ns + 1"
| "work (Processing n ns b) = 2 * length ns + 2"
| "work Finished = 0"

definition fanout :: "Task list \<Rightarrow> nat" where "fanout ts = sum_list (map (length \<circ> tk_nexts) ts)"

definition job_work :: "InferenceEngine \<Rightarrow> job_sys \<Rightarrow> nat" where
  "job_work ie s = (2 * fanout (ie_tasks ie) + 2) * card (task_names (ie_tasks ie) - done_names (map_of (jb_taskStatusMap (js_job s))))
     + sum_list (map work (js_threads s))"

lemma sum_list_update_less:
  "i < length xs \<Longrightarrow> f a < f (xs ! i) \<Longrightarrow> sum_list (map f (xs[i := a])) < (sum_list (map f xs) :: nat)"
proof (induction xs arbitrary: i)
  case (Cons x xs)
  then show ?case by (cases i) auto
qed simp

lemma job_work_step:
  assumes "job_step ie alloc s s'" "job_inv ie D A X s" "graph_ok ie"
  shows "job_work ie s' < job_work ie s"
proof -
  let ?ts = "ie_tasks ie" and ?st = "map_of (jb_taskStatusMap (js_job s))"
  have F: "flow_ok ?ts ?st (dom (map_of (jb_tensors (js_job s)))) (request_names (js_running s)) (js_threads s)"
    and R: "\<forall>r \<in> set (js_running s). jr_task r \<in> set ?ts"
    using assms(2) by (auto simp: job_inv_def Let_def)
  have upd: "?thesis" if "i < length (js_threads s)" "js_threads s' = (js_threads s)[i := a]" "work a < work (js_threads s ! i)"
    "done_names (map_of (jb_taskStatusMap (js_job s'))) = done_names ?st" for i a
    using that sum_list_update_less [of i "js_threads s" work a] by (simp add: job_work_def)
  from assms(1) show ?thesis
  proof cases
    case (complete r c j fin)
    let ?n = "tk_name (jr_task r)"
    have n: "?n \<in> task_names ?ts - done_names ?st"
      using complete(2) R flow_okD(3) [OF F, of ?n] by (auto simp: request_names_def task_names_def done_names_def)
    have st: "task_names ?ts - done_names (map_of (jb_taskStatusMap j)) = (task_names ?ts - done_names ?st) - {?n}"
      unfolding complete_section_effect(1) [OF complete(4)] by (auto simp: done_names_def)
    have "finite (task_names ?ts)" by (simp add: task_names_def)
    then have card: "card (task_names ?ts - done_names ?st) = Suc (card (task_names ?ts - done_names (map_of (jb_taskStatusMap j))))"
      unfolding st using n by (intro card.remove) auto
    have "length (tk_nexts (jr_task r)) \<le> fanout ?ts"
      using complete(2) R unfolding fanout_def by (intro member_le_sum_list) auto
    then show ?thesis unfolding complete(1) by (simp add: job_work_def card)
  next
    case (ready i n ns fin t j)
    note E = check_ready_effect [OF ready(5)]
    have "tk_name t = n" using task_of_Some [OF ready(4)] by simp
    with E have "done_names (map_of (jb_taskStatusMap j)) = done_names ?st" by (auto simp: done_names_def update_conv')
    with ready show ?thesis by (intro upd [of i "Processing n ns fin"]) auto
  next
    case (not_ready i n ns fin t j)
    with check_not_ready_effect [OF not_ready(5)] show ?thesis by (intro upd [of i "Successors ns fin"]) auto
  next
    case (process i n ns fin t q j)
    have "ready_at (js_threads s) n" using process(2,3) by (auto simp: ready_at_nth)
    then have "?st n = Some TASK_READY" using flow_okD(4) [OF F] by blast
    moreover have "tk_name t = n" using task_of_Some [OF process(4)] by simp
    ultimately have "done_names (map_of (jb_taskStatusMap j)) = done_names ?st"
      using process(5) by (auto simp: processReadyTask_def Let_def done_names_def update_conv' split: if_splits)
    with process show ?thesis by (intro upd [of i "Successors ns fin"]) auto
  next
    case (leave i)
    then show ?thesis by (intro upd [of i Finished]) auto
  next
    case (deliver i outs j mem)
    have "jb_taskStatusMap j = jb_taskStatusMap (js_job s)"
      using deliver(4) by (auto simp: onAllRequestComplete_def deliver_outputs_def setReturnOutputs_def SetOccupiedJob_def
          setStatus_def ReleaseAllOutputBuffer_def split: prod.splits sum.splits if_splits)
    with deliver show ?thesis by (intro upd [of i Finished]) auto
  qed
qed

lemma job_inv_steps: "job_steps ie alloc s s' \<Longrightarrow> job_inv ie D A X s \<Longrightarrow> graph_ok ie \<Longrightarrow> job_inv ie D A X s'"
  by (induction rule: rtranclp_induct) (auto intro: job_inv_step)

lemma job_run_bound:
  "(job_step ie alloc ^^ k) s s' \<Longrightarrow> job_inv ie D A X s \<Longrightarrow> graph_ok ie \<Longrightarrow> job_work ie s' + k \<le> job_work ie s \<and> job_inv ie D A X s'"
proof (induction k arbitrary: s')
  case (Suc k)
  then obtain u where u: "(job_step ie alloc ^^ k) s u" "job_step ie alloc u s'" by auto
  with Suc have "job_work ie u + k \<le> job_work ie s" "job_inv ie D A X u" by auto
  with job_work_step [OF u(2)] job_inv_step [OF u(2)] Suc.prems(3) show ?case by fastforce
qed simp

subsection \<open>An uninterrupted call is one of the interleavings\<close>

lemma start_ready_run:
  assumes "i < length (js_threads s)" "js_threads s ! i = Successors ns fin" "set ns \<subseteq> task_names (ie_tasks ie)"
    and "start_ready (ie_tasks ie) ns (js_job s) = (rs, j)"
  shows "job_steps ie alloc s (s\<lparr>js_job := j, js_running := js_running s @ rs, js_threads := (js_threads s)[i := Successors [] fin]\<rparr>)"
  using assms
proof (induction ns arbitrary: s rs j)
  case Nil
  then have "s\<lparr>js_job := j, js_running := js_running s @ rs, js_threads := (js_threads s)[i := Successors [] fin]\<rparr> = s"
    by (cases s) (auto simp: list_update_same_conv)
  then show ?case by simp
next
  case (Cons n ns)
  obtain t where t: "task_of (ie_tasks ie) n = Some t"
    using Cons.prems(3) task_of_None [of "ie_tasks ie" n] by (auto simp: task_names_def)
  obtain ok j1 where c: "checkAndSetTaskReady t (js_job s) = (ok, j1)" by fastforce
  show ?case
  proof (cases ok)
    case False
    let ?s1 = "s\<lparr>js_job := j1, js_threads := (js_threads s)[i := Successors ns fin]\<rparr>"
    have "job_step ie alloc s ?s1" using job_step.not_ready [OF Cons.prems(1,2) t] c False by simp
    moreover have "job_steps ie alloc ?s1 (s\<lparr>js_job := j, js_running := js_running s @ rs, js_threads := (js_threads s)[i := Successors [] fin]\<rparr>)"
      using Cons.IH [of ?s1 rs j] Cons.prems t c False by simp
    ultimately show ?thesis by (rule converse_rtranclp_into_rtranclp)
  next
    case True
    obtain q j2 where p: "processReadyTask t j1 = (q, j2)" by fastforce
    obtain rs' where rs: "start_ready (ie_tasks ie) ns j2 = (rs', j)" "rs = (case q of None \<Rightarrow> [] | Some r \<Rightarrow> [r]) @ rs'"
      using Cons.prems(4) t c True p by (auto split: prod.splits)
    let ?s1 = "s\<lparr>js_job := j1, js_threads := (js_threads s)[i := Processing n ns fin]\<rparr>"
    let ?s2 = "s\<lparr>js_job := j2, js_running := js_running s @ (case q of None \<Rightarrow> [] | Some r \<Rightarrow> [r]), js_threads := (js_threads s)[i := Successors ns fin]\<rparr>"
    have "job_step ie alloc s ?s1" using job_step.ready [OF Cons.prems(1,2) t] c True by simp
    moreover have "job_step ie alloc ?s1 ?s2" using job_step.process [of i ?s1 n ns fin ie t q j2 alloc] Cons.prems(1) t p by simp
    moreover have "job_steps ie alloc ?s2 (s\<lparr>js_job := j, js_running := js_running s @ rs, js_threads := (js_threads s)[i := Successors [] fin]\<rparr>)"
      using Cons.IH [of ?s2 rs' j] Cons.prems(1,3) rs by simp
    ultimately show ?thesis by (meson converse_rtranclp_into_rtranclp)
  qed
qed


subsection \<open>Outputs in the buffer of the caller\<close>

text \<open>The bytes of a range, and the places of the outputs in the buffer at \<open>ptr\<close>.\<close>

definition addresses :: "u64 \<Rightarrow> u64 \<Rightarrow> u64 set" where "addresses a n = {b. b - a < n}"

definition place :: "InferenceEngine \<Rightarrow> u64 \<Rightarrow> string \<Rightarrow> Tensor \<Rightarrow> u64 set" where
  "place ie ptr n x = addresses (ptr + GetOutputTensorOffset ie n) (size_in_bytes x)"

lemma memcpy_inside: "b \<in> addresses dst n \<Longrightarrow> memcpy dst src n mem b = mem (src + (b - dst))"
  by (simp add: memcpy_def addresses_def)

lemma memcpy_outside: "b \<notin> addresses dst n \<Longrightarrow> memcpy dst src n mem b = mem b"
  by (simp add: memcpy_def addresses_def)

lemma addresses_shift: "b \<in> addresses a n \<Longrightarrow> c + (b - a) \<in> addresses c n"
  by (simp add: addresses_def)

lemma return_loop_outside:
  assumes "ptr \<noteq> 0" "\<And>n x. n \<in> set ns \<Longrightarrow> map_of tensors n = Some x \<Longrightarrow> b \<notin> place ie ptr n x"
  shows "snd (snd (return_loop ie alloc tensors ptr ns k mem)) b = mem b"
  using assms(2)
proof (induction ns arbitrary: k mem)
  case (Cons n ns)
  show ?case
  proof (cases "map_of tensors n")
    case (Some x)
    have "b \<notin> place ie ptr n x" using Cons.prems [of n x] Some by simp
    then show ?thesis using Some Cons assms(1) by (auto simp: Let_def split_beta memcpy_outside place_def)
  qed (use Cons in \<open>auto simp: split_beta\<close>)
qed simp

text \<open>
  Claim C16. \<open>setReturnOutputs\<close> with a buffer of the caller: if the places of the outputs in that buffer do not
  overlap, and no tensor that is not already at its place overlaps one of them, then afterwards every output
  is in its place, byte for byte, and nothing outside the places has changed.
\<close>
theorem outputs_in_user_buffer:
  assumes "ptr \<noteq> 0" "distinct ns" "\<forall>n \<in> set ns. \<exists>x. map_of tensors n = Some x \<and> tn_data x \<noteq> 0"
    and "\<forall>n \<in> set ns. \<forall>m \<in> set ns. \<forall>x y. map_of tensors n = Some x \<longrightarrow> map_of tensors m = Some y \<longrightarrow>
      (n \<noteq> m \<longrightarrow> place ie ptr n x \<inter> place ie ptr m y = {})
      \<and> (tn_data x \<noteq> ptr + GetOutputTensorOffset ie n \<longrightarrow> addresses (tn_data x) (size_in_bytes x) \<inter> place ie ptr m y = {})"
    and "return_loop ie alloc tensors ptr ns k mem = (missing, ret, mem')"
  shows "(\<forall>n \<in> set ns. \<forall>x. map_of tensors n = Some x \<longrightarrow>
      (\<forall>b \<in> place ie ptr n x. mem' b = mem (tn_data x + (b - (ptr + GetOutputTensorOffset ie n)))))
    \<and> (\<forall>b. (\<forall>n \<in> set ns. \<forall>x. map_of tensors n = Some x \<longrightarrow> b \<notin> place ie ptr n x) \<longrightarrow> mem' b = mem b)"
proof -
  have "\<forall>n \<in> set ns. \<forall>x. map_of tensors n = Some x \<longrightarrow>
      (\<forall>b \<in> place ie ptr n x. snd (snd (return_loop ie alloc tensors ptr ns k mem)) b = mem (tn_data x + (b - (ptr + GetOutputTensorOffset ie n))))"
    using assms(2-4)
  proof (induction ns arbitrary: k mem)
    case (Cons n ns)
    then obtain x where x: "map_of tensors n = Some x" "tn_data x \<noteq> 0" by auto
    let ?dest = "ptr + GetOutputTensorOffset ie n"
    define mem1 where "mem1 = (if ?dest \<noteq> tn_data x then memcpy ?dest (tn_data x) (size_in_bytes x) mem else mem)"
    have loop: "snd (snd (return_loop ie alloc tensors ptr (n # ns) k mem)) = snd (snd (return_loop ie alloc tensors ptr ns (Suc k) mem1))"
      using x assms(1) by (auto simp: Let_def split_beta mem1_def)
    have disj: "b \<notin> place ie ptr m y" if "m \<in> set ns" "map_of tensors m = Some y" "b \<in> place ie ptr n x" for m y b
      using Cons.prems(1,3) that x(1) by fastforce
    have here: "mem1 b = mem (tn_data x + (b - ?dest))" if "b \<in> place ie ptr n x" for b
      using that by (auto simp: mem1_def place_def memcpy_inside)
    have src: "mem1 (tn_data y + (b - (ptr + GetOutputTensorOffset ie m))) = mem (tn_data y + (b - (ptr + GetOutputTensorOffset ie m)))"
      if m: "m \<in> set ns" "map_of tensors m = Some y" and b: "b \<in> place ie ptr m y" for m y b
    proof (cases "tn_data y = ptr + GetOutputTensorOffset ie m")
      case True
      then have eq: "tn_data y + (b - (ptr + GetOutputTensorOffset ie m)) = b" by simp
      have "b \<notin> place ie ptr n x" using disj [OF m] b by blast
      then show ?thesis unfolding eq by (simp add: mem1_def place_def memcpy_outside)
    next
      case False
      have "tn_data y + (b - (ptr + GetOutputTensorOffset ie m)) \<in> addresses (tn_data y) (size_in_bytes y)"
        using b by (simp add: place_def addresses_shift)
      moreover have "addresses (tn_data y) (size_in_bytes y) \<inter> place ie ptr n x = {}"
        using Cons.prems(3) m x(1) False by simp
      ultimately have "tn_data y + (b - (ptr + GetOutputTensorOffset ie m)) \<notin> place ie ptr n x" by blast
      then show ?thesis by (simp add: mem1_def place_def memcpy_outside)
    qed
    have IH: "\<forall>m \<in> set ns. \<forall>y. map_of tensors m = Some y \<longrightarrow>
        (\<forall>b \<in> place ie ptr m y. snd (snd (return_loop ie alloc tensors ptr ns (Suc k) mem1)) b = mem1 (tn_data y + (b - (ptr + GetOutputTensorOffset ie m))))"
      using Cons.prems by (intro Cons.IH) auto
    have "snd (snd (return_loop ie alloc tensors ptr ns (Suc k) mem1)) b = mem1 b" if "b \<in> place ie ptr n x" for b
      using disj that by (intro return_loop_outside [OF assms(1)]) blast
    with IH src here x(1) show ?case unfolding loop by auto
  qed simp
  with return_loop_outside [OF assms(1), of ns tensors _ ie alloc k mem] assms(5) show ?thesis by auto
qed

lemma addresses_bounds:
  assumes "b \<in> addresses a n" "unat a + unat n \<le> 2 ^ 64"
  shows "unat a \<le> unat b \<and> unat b < unat a + unat n"
proof -
  have d: "unat (b - a) < unat n" using assms(1) by (simp add: addresses_def word_less_nat_alt)
  have "unat (a + (b - a)) = unat a + unat (b - a)" using d assms(2) by (intro unat_add_no_wrap) auto
  with d show ?thesis by simp
qed

lemma addresses_disjoint:
  assumes "unat a + unat n \<le> unat c" "unat c + unat m \<le> 2 ^ 64"
  shows "addresses a n \<inter> addresses c m = {}"
proof -
  have an: "unat a + unat n \<le> 2 ^ 64" using assms by linarith
  have False if "b \<in> addresses a n" "b \<in> addresses c m" for b
    using addresses_bounds [OF that(1) an] addresses_bounds [OF that(2) assms(2)] assms(1) by linarith
  then show ?thesis by blast
qed

text \<open>Output \<open>c\<close> is copied from address 4096, output \<open>b\<close> is already in its place.\<close>

theorem outputs_in_user_buffer_witness:
  "\<exists>missing ret mem'. return_loop two_engine (\<lambda>_. 0) [(''c'', (tensor ''c'' [7])\<lparr>tn_data := 4096\<rparr>), (''b'', (tensor ''b'' [5])\<lparr>tn_data := 65564\<rparr>)]
     65536 [''c'', ''b''] 0 (\<lambda>a. ucast a) = (missing, ret, mem') \<and> mem' 65537 = 1 \<and> mem' 65566 = 30"
proof -
  let ?c = "(tensor ''c'' [7])\<lparr>tn_data := 4096\<rparr>" and ?b = "(tensor ''b'' [5])\<lparr>tn_data := 65564\<rparr>"
  let ?T = "[(''c'', ?c), (''b'', ?b)]"
  have off: "GetOutputTensorOffset two_engine ''c'' = 0" "GetOutputTensorOffset two_engine ''b'' = 28"
    "size_in_bytes ?c = 28" "size_in_bytes ?b = 20" by code_simp+
  obtain missing ret mem' where r: "return_loop two_engine (\<lambda>_. 0) ?T 65536 [''c'', ''b''] 0 (\<lambda>a. ucast a) = (missing, ret, mem')"
    by (metis surj_pair)
  have disj: "place two_engine 65536 ''c'' ?c \<inter> place two_engine 65536 ''b'' ?b = {}"
    "addresses 4096 28 \<inter> place two_engine 65536 ''c'' ?c = {}" "addresses 4096 28 \<inter> place two_engine 65536 ''b'' ?b = {}"
    unfolding place_def off by (intro addresses_disjoint; simp)+
  have "\<forall>b \<in> place two_engine 65536 ''c'' ?c. mem' b = ucast (4096 + (b - 65536))"
    "\<forall>b \<in> place two_engine 65536 ''b'' ?b. mem' b = ucast (65564 + (b - 65564))"
    using outputs_in_user_buffer [OF _ _ _ _ r] disj by (auto simp: off Int_commute)
  moreover have "65537 \<in> place two_engine 65536 ''c'' ?c" "65566 \<in> place two_engine 65536 ''b'' ?b"
    by (simp_all add: place_def addresses_def off)
  ultimately have "mem' 65537 = ucast (4096 + (65537 - 65536 :: u64))" "mem' 65566 = ucast (65564 + (65566 - 65564 :: u64))" by blast+
  then show ?thesis using r by auto
qed

section \<open>Whole runs\<close>

lemma map_of_idle_statuses: "map_of (idle_statuses ts) n = (if n \<in> task_names ts then Some TASK_IDLE else None)"
proof -
  let ?add = "\<lambda>t m. case map_of m (tk_name t) of None \<Rightarrow> m @ [(tk_name t, TASK_IDLE)] | Some s \<Rightarrow> m"
  have "map_of (fold ?add ts m) n = (if n \<in> dom (map_of m) then map_of m n else if n \<in> task_names ts then Some TASK_IDLE else None)" for m
    by (induction ts arbitrary: m) (auto simp: task_names_def map_add_def split: option.splits)
  from this [of "[]"] show ?thesis by (simp add: idle_statuses_def)
qed

lemma first_use_name: "first_use ts n = Some x \<Longrightarrow> tn_name x = n"
  by (auto simp: first_use_def find_Some_iff)

lemma map_of_insert_absent [simp]: "map_of (insert_absent n x m) = (if n \<in> dom (map_of m) then map_of m else (map_of m)(n \<mapsto> x))"
  by (auto simp: insert_absent_def map_add_def fun_eq_iff split: option.splits)

lemma add_inputs:
  assumes "\<forall>(n, p) \<in> set ins. p \<noteq> 0" "\<And>n x. map_of m n = Some x \<Longrightarrow> tensor_ok n x"
  shows "dom (map_of (fold (add_input ts) ins m)) = dom (map_of m) \<union> fst ` set ins"
    and "map_of (fold (add_input ts) ins m) n = Some x \<Longrightarrow> tensor_ok n x"
proof -
  have "dom (map_of (fold (add_input ts) ins m)) = dom (map_of m) \<union> fst ` set ins
    \<and> (map_of (fold (add_input ts) ins m) n = Some x \<longrightarrow> tensor_ok n x)"
    using assms
  proof (induction ins arbitrary: m)
    case (Cons i ins)
    obtain k p where i: "i = (k, p)" by force
    have "tensor_ok n x" if "map_of (add_input ts i m) n = Some x" for n x
      using that Cons.prems i by (auto simp: add_input_def tensor_ok_def dest: first_use_name split: option.splits if_splits)
    from Cons.IH [OF _ this] Cons.prems(1) i show ?case by (auto simp: add_input_def split: option.splits)
  qed simp
  then show "dom (map_of (fold (add_input ts) ins m)) = dom (map_of m) \<union> fst ` set ins"
    and "map_of (fold (add_input ts) ins m) n = Some x \<Longrightarrow> tensor_ok n x" by blast+
qed

text \<open>A job that was set up for the tasks of the engine.\<close>

definition fresh_job :: "InferenceEngine \<Rightarrow> InferenceJob \<Rightarrow> bool" where
  "fresh_job ie j \<longleftrightarrow> (\<exists>j0 head inputTasks. j = SetInferenceJob (ie_tasks ie) head (ie_lastOutputOrder ie) (ie_modelInputOrder ie) j0
     \<or> j = SetInferenceJobMultiHead (ie_tasks ie) inputTasks (ie_lastOutputOrder ie) (ie_modelInputOrder ie) j0)"

lemma fresh_job_fields:
  assumes "fresh_job ie j"
  shows "jb_taskStatusMap j = idle_statuses (ie_tasks ie)" "jb_tensors j = []" "jb_doneCount j = 0"
    "jb_outputCount j = int (length (ie_tasks ie))" "jb_outputs j = ie_lastOutputOrder ie" "jb_tasks j = ie_tasks ie"
    "jb_modelInputNames j = ie_modelInputOrder ie"
  using assms by (auto simp: fresh_job_def SetInferenceJob_def SetInferenceJobMultiHead_def Clear_def)

definition multi_input_sys :: "string list \<Rightarrow> (string \<times> u64) list \<Rightarrow> u64 \<Rightarrow> u64 \<Rightarrow> host_mem \<Rightarrow> InferenceJob \<Rightarrow> job_sys" where
  "multi_input_sys order ins userArg outputPtr mem j =
     \<lparr>js_job = prepareMultiInput ins userArg outputPtr j, js_running = [], js_threads = [Successors order False], js_delivered = [], js_mem = mem\<rparr>"

lemma job_inv_multi_input:
  assumes "fresh_job ie j" "ie_tasks ie \<noteq> []" "set order = task_names (ie_tasks ie)" "\<forall>(n, p) \<in> set ins. p \<noteq> 0"
  shows "job_inv ie {} (fst ` set ins) {} (multi_input_sys order ins userArg outputPtr mem j)"
proof -
  note f = fresh_job_fields [OF assms(1)]
  let ?T = "map_of (fold (add_input (ie_tasks ie)) ins [])" and ?st = "map_of (idle_statuses (ie_tasks ie))" and ?th = "[Successors order False]"
  note T = add_inputs [OF assms(4), of "[]" "ie_tasks ie"]
  have st: "?st n \<noteq> Some TASK_DONE" "?st n \<noteq> Some TASK_BUSY" "?st n \<noteq> Some TASK_READY" for n by (simp_all add: map_of_idle_statuses)
  have "task_names (ie_tasks ie) \<noteq> {}" using assms(2) by (simp add: task_names_def)
  moreover have "done_names ?st = {}" using st by (simp add: done_names_def)
  moreover have "flow_ok (ie_tasks ie) ?st (dom ?T) [] ?th"
    using st assms(3) by (auto simp: flow_ok_def ready_at_def one_each_def map_of_idle_statuses)
  moreover have "data_ok (ie_tasks ie) {} (fst ` set ins) {} ?st ?T ?th"
    using st T assms(3) by (auto simp: data_ok_def waits_def task_names_def)
  ultimately show ?thesis
    by (auto simp: job_inv_def Let_def multi_input_sys_def prepareMultiInput_def f request_names_def count_ok_def one_last_def last_at_def)
qed

lemma job_work_multi_input:
  assumes "fresh_job ie j" "distinct (map tk_name (ie_tasks ie))"
  shows "job_work ie (multi_input_sys order ins userArg outputPtr mem j)
    = (2 * fanout (ie_tasks ie) + 2) * length (ie_tasks ie) + 2 * length order + 1"
proof -
  have "card (task_names (ie_tasks ie)) = length (ie_tasks ie)" using assms(2) distinct_card by (fastforce simp: task_names_def)
  moreover have "done_names (map_of (idle_statuses (ie_tasks ie))) = {}" by (simp add: done_names_def map_of_idle_statuses)
  ultimately show ?thesis
    by (simp add: job_work_def multi_input_sys_def prepareMultiInput_def fresh_job_fields [OF assms(1)])
qed

text \<open>
  A job with several inputs always completes. For a graph in which every user of a tensor is a
  successor of its producer and the tasks are in topological order over the given inputs, whatever the
  order in which worker threads interleave, a run has a bounded number of steps, and as long as no step
  is left to do every task is done, the job is \<open>REQ_DONE\<close>, and the outputs were delivered exactly once,
  in the output order of the model.
\<close>
lemma multi_input_job_completes:
  assumes "graph_ok ie" "ie_tasks ie \<noteq> []" "startable {} (fst ` set ins) (ie_tasks ie)" "\<forall>(n, p) \<in> set ins. p \<noteq> 0"
    and "fresh_job ie j" "set order = task_names (ie_tasks ie)"
    and "(job_step ie alloc ^^ k) (multi_input_sys order ins userArg outputPtr mem j) s"
  shows "k \<le> (2 * fanout (ie_tasks ie) + 2) * length (ie_tasks ie) + 2 * length order + 1
    \<and> ((\<exists>s'. job_step ie alloc s s')
       \<or> (jb_status (js_job s) = REQ_DONE
          \<and> (\<forall>t \<in> set (ie_tasks ie). map_of (jb_taskStatusMap (js_job s)) (tk_name t) = Some TASK_DONE)
          \<and> (\<exists>outs. js_delivered s = [outs] \<and> map tn_name outs = ie_lastOutputOrder ie)))"
proof -
  note inv = job_inv_multi_input [OF assms(5,2,6,4), of userArg outputPtr mem]
  from job_run_bound [OF assms(7) inv assms(1)] have b: "k \<le> job_work ie (multi_input_sys order ins userArg outputPtr mem j)"
    and s: "job_inv ie {} (fst ` set ins) {} s" by auto
  have "distinct (map tk_name (ie_tasks ie))" using assms(1) by (simp add: graph_ok_def linked_def)
  with b job_work_multi_input [OF assms(5)] job_end [OF s assms(1,3)] show ?thesis by metis
qed

definition empty_job :: InferenceJob where
  "empty_job = \<lparr>jb_requests = [], jb_tensors = [], jb_taskStatusMap = [], jb_headTask = None, jb_outputCount = 0, jb_doneCount = 0,
     jb_outputs = [], jb_userArg = 0, jb_latency = 0, jb_infTime = 0, jb_jobId = 0, jb_tasks = [], jb_inputTasks = [],
     jb_isMultiHead = False, jb_modelInputNames = [], jb_storeResult = False, jb_returnOutputs = [], jb_outputPtr = 0,
     jb_use_flag = True, jb_status = REQ_IDLE, jb_occupiedJob = False, jb_batchIndex = -1\<rparr>"

definition two_job :: InferenceJob where
  "two_job = SetInferenceJob (ie_tasks two_engine) (ie_head two_engine) (ie_lastOutputOrder two_engine) (ie_modelInputOrder two_engine) empty_job"

lemma two_engine_graph:
  "ie_tasks two_engine \<noteq> []" "graph_ok two_engine" "startable {} {''x''} (ie_tasks two_engine)"
  "task_names (ie_tasks two_engine) = {''npu_0'', ''cpu_0''}" "fresh_job two_engine two_job"
proof -
  show "ie_tasks two_engine \<noteq> []" by code_simp
  show "graph_ok two_engine" by code_simp
  show "startable {} {''x''} (ie_tasks two_engine)" by code_simp
  show "task_names (ie_tasks two_engine) = {''npu_0'', ''cpu_0''}" by code_simp
  show "fresh_job two_engine two_job" unfolding fresh_job_def two_job_def by blast
qed

text \<open>The graph that \<open>loadModelFromMemory\<close> builds.\<close>

lemma place_tasks_ORT:
  "fst (place_tasks True subs ts h) = map (\<lambda>t. t\<lparr>tk_is_head := sg_head (subgraph_of subs (tk_name t)), tk_is_tail := sg_tail (subgraph_of subs (tk_name t))\<rparr>) ts"
  by (induction ts arbitrary: h) (auto simp: Let_def case_prod_beta)

lemma link_chain_fields:
  "map (\<lambda>t. (tk_name t, tk_inputs t, tk_outputs t, tk_nexts t)) (link_chain ts) = map (\<lambda>t. (tk_name t, tk_inputs t, tk_outputs t, tk_nexts t)) ts"
  by (induction ts rule: link_chain.induct) auto

lemma set_output_order_fields:
  "set_output_order useORT go isPPU ts = Inr (ts', order, n) \<Longrightarrow>
   map (\<lambda>t. (tk_name t, tk_inputs t, tk_outputs t, tk_nexts t)) ts' = map (\<lambda>t. (tk_name t, tk_inputs t, tk_outputs t, tk_nexts t)) ts"
  by (auto simp: set_output_order_def set_tail_offset_def Let_def split: prod.splits option.splits if_splits)

lemma load_graph_tasks:
  assumes "load_graph True subs gi go ts = Inr ie"
  shows "map (\<lambda>t. (tk_name t, tk_inputs t, tk_outputs t, tk_nexts t)) (ie_tasks ie)
    = map (\<lambda>t. (tk_name t, tk_inputs t, tk_outputs t, nexts_of (map tk_name ts) (sg_outputs (subgraph_of subs (tk_name t))) (tk_nexts t))) ts"
proof -
  let ?view = "map (\<lambda>t. (tk_name t, tk_inputs t, tk_outputs t, tk_nexts t))"
  let ?ts1 = "fst (place_tasks True subs ts None)"
  obtain ts3 order n where "set_output_order True go (snd (buildTaskGraph subs ?ts1)) (fst (buildTaskGraph subs ?ts1)) = Inr (ts3, order, n)"
    and ie: "ie_tasks ie = ts3"
    using assms by (auto simp: load_graph_def Let_def calculateTensorOffsets_def split: prod.splits sum.splits)
  then have "?view (ie_tasks ie) = ?view (fst (buildTaskGraph subs ?ts1))" using set_output_order_fields by blast
  also have "\<dots> = map (\<lambda>(n, is, os, ns). (n, is, os, nexts_of (map tk_name ts) (sg_outputs (subgraph_of subs n)) ns)) (?view (link_chain ?ts1))"
    by (simp add: buildTaskGraph_def Let_def place_tasks_ORT comp_def)
  also have "\<dots> = map (\<lambda>(n, is, os, ns). (n, is, os, nexts_of (map tk_name ts) (sg_outputs (subgraph_of subs n)) ns)) (?view ts)"
    unfolding link_chain_fields by (simp add: place_tasks_ORT)
  finally show ?thesis by (simp add: comp_def)
qed

lemma order_consistent_startable: "order_consistent available ts \<Longrightarrow> startable {} (set available) ts"
proof (induction ts arbitrary: available)
  case (Cons t ts)
  from Cons.prems have "order_consistent (map tn_name (tk_outputs t) @ available) ts" "in_names t \<subseteq> set available"
    by (auto simp: task_consistent_def Let_def in_names_def)
  moreover have "set (map tn_name (tk_outputs t) @ available) = set available \<union> out_names t" by (auto simp: out_names_def)
  ultimately show ?case using Cons.IH by (metis startable.simps(2))
qed simp

lemma view_mem:
  assumes "map (\<lambda>t. (tk_name t, tk_inputs t, tk_outputs t, tk_nexts t)) ts' = map (\<lambda>t. (tk_name t, tk_inputs t, tk_outputs t, f t)) ts"
    and "t' \<in> set ts'"
  shows "\<exists>t \<in> set ts. tk_name t' = tk_name t \<and> in_names t' = in_names t \<and> out_names t' = out_names t \<and> tk_nexts t' = f t"
proof -
  have "(tk_name t', tk_inputs t', tk_outputs t', tk_nexts t') \<in> set (map (\<lambda>t. (tk_name t, tk_inputs t, tk_outputs t, tk_nexts t)) ts')"
    using assms(2) by auto
  then have "(tk_name t', tk_inputs t', tk_outputs t', tk_nexts t') \<in> set (map (\<lambda>t. (tk_name t, tk_inputs t, tk_outputs t, f t)) ts)"
    unfolding assms(1) .
  then show ?thesis by (auto simp: in_names_def out_names_def)
qed

lemma load_graph_linked:
  assumes "load_graph True subs gi go ts = Inr ie" "distinct (map tk_name ts)" "\<forall>t \<in> set ts. tk_nexts t = []"
    and "\<forall>t \<in> set ts. \<forall>u \<in> set ts. out_names t \<inter> in_names u \<noteq> {} \<longrightarrow> (\<exists>x \<in> set (sg_outputs (subgraph_of subs (tk_name t))). tk_name u \<in> set (gt_users x))"
  shows "linked (ie_tasks ie)"
proof -
  note view = load_graph_tasks [OF assms(1)]
  have "map fst (map (\<lambda>t. (tk_name t, tk_inputs t, tk_outputs t, tk_nexts t)) (ie_tasks ie)) = map tk_name ts"
    unfolding view by (simp add: comp_def)
  then have names: "map tk_name (ie_tasks ie) = map tk_name ts" by (simp add: comp_def)
  then have tn: "task_names (ie_tasks ie) = tk_name ` set ts" unfolding task_names_def by (metis image_set)
  have "set (tk_nexts t) \<subseteq> task_names (ie_tasks ie)" if "t \<in> set (ie_tasks ie)" for t
    using view_mem [OF view that] assms(3) by (auto simp: tn)
  moreover have "tk_name u \<in> set (tk_nexts t)" if tu: "t \<in> set (ie_tasks ie)" "u \<in> set (ie_tasks ie)" "out_names t \<inter> in_names u \<noteq> {}" for t u
  proof -
    obtain t0 where t0: "t0 \<in> set ts" "out_names t = out_names t0"
      "tk_nexts t = nexts_of (map tk_name ts) (sg_outputs (subgraph_of subs (tk_name t0))) (tk_nexts t0)" using view_mem [OF view tu(1)] by blast
    obtain u0 where u0: "u0 \<in> set ts" "tk_name u = tk_name u0" "in_names u = in_names u0" using view_mem [OF view tu(2)] by blast
    obtain x where "x \<in> set (sg_outputs (subgraph_of subs (tk_name t0)))" "tk_name u0 \<in> set (gt_users x)"
      using assms(4) t0(1) u0(1) tu(3) [unfolded t0(2) u0(3)] by blast
    then show ?thesis using u0(1) unfolding t0(3) u0(2) by auto
  qed
  ultimately show ?thesis using assms(2) names by (simp add: linked_def)
qed

text \<open>
  Claim C2. A loaded model runs to its end. Let the engine load a model whose graph information lists every
  task that reads a tensor among the users of the tensor, whose output names are produced by tasks, and
  that passes \<open>checkInputOutputMistmatch\<close>. For a job started with one non-null buffer per model input,
  whatever the order in which worker threads interleave, a run has a bounded number of steps, and when
  no step is left every task is done, the job is \<open>REQ_DONE\<close>, and the outputs were delivered exactly once, in
  the output order of the model.
\<close>
theorem loaded_model_completes:
  assumes "load_graph True subs gi go ts = Inr ie" "distinct (map tk_name ts)" "\<forall>t \<in> set ts. tk_nexts t = []"
    and "\<forall>t \<in> set ts. \<forall>u \<in> set ts. tn_name ` set (tk_outputs t) \<inter> tn_name ` set (tk_inputs u) \<noteq> {} \<longrightarrow>
      (\<exists>x \<in> set (sg_outputs (subgraph_of subs (tk_name t))). tk_name u \<in> set (gt_users x))"
    and "ie_lastOutputOrder ie \<noteq> []" "set (ie_lastOutputOrder ie) \<subseteq> (\<Union>t \<in> set (ie_tasks ie). tn_name ` set (tk_outputs t))"
    and "checkInputOutputMistmatch ie" "map fst ins = ie_modelInputOrder ie" "\<forall>(n, p) \<in> set ins. p \<noteq> 0"
    and "fresh_job ie j" "set order = tk_name ` set (ie_tasks ie)"
    and "(job_step ie alloc ^^ k) (multi_input_sys order ins userArg outputPtr mem j) s"
  shows "k \<le> (2 * fanout (ie_tasks ie) + 2) * length (ie_tasks ie) + 2 * length order + 1
    \<and> ((\<exists>s'. job_step ie alloc s s')
       \<or> (jb_status (js_job s) = REQ_DONE
          \<and> (\<forall>t \<in> set (ie_tasks ie). map_of (jb_taskStatusMap (js_job s)) (tk_name t) = Some TASK_DONE)
          \<and> (\<exists>outs. js_delivered s = [outs] \<and> map tn_name outs = ie_lastOutputOrder ie)))"
proof (rule multi_input_job_completes [OF _ _ _ assms(9,10) _ assms(12)])
  have "linked (ie_tasks ie)" using load_graph_linked [OF assms(1-3)] assms(4) by (simp add: in_names_def out_names_def)
  then show "graph_ok ie" using assms(6) by (simp add: graph_ok_def out_names_def)
  show "ie_tasks ie \<noteq> []" using assms(5,6) by auto
  show "startable {} (fst ` set ins) (ie_tasks ie)"
    using order_consistent_startable [of "ie_modelInputOrder ie"] assms(7,8) by (metis checkInputOutputMistmatch_def list.set_map)
  show "set order = task_names (ie_tasks ie)" using assms(11) by (simp add: task_names_def)
qed

theorem loaded_model_completes_witness:
  "\<exists>s'. job_step two_engine (\<lambda>_. 4096) (multi_input_sys [''cpu_0'', ''npu_0''] [(''x'', 65536)] 0 0 (\<lambda>_. 0) two_job) s'"
proof -
  let ?s = "multi_input_sys [''cpu_0'', ''npu_0''] [(''x'', 65536)] 0 0 (\<lambda>_. 0) two_job"
  have l: "load_graph True two_subgraphs [''x''] [''c'', ''b''] two_tasks = Inr two_engine" by code_simp
  have f1: "distinct (map tk_name two_tasks)" by code_simp
  have f2: "\<forall>t \<in> set two_tasks. tk_nexts t = []" by code_simp
  have f3: "\<forall>t \<in> set two_tasks. \<forall>u \<in> set two_tasks. tn_name ` set (tk_outputs t) \<inter> tn_name ` set (tk_inputs u) \<noteq> {} \<longrightarrow>
      (\<exists>x \<in> set (sg_outputs (subgraph_of two_subgraphs (tk_name t))). tk_name u \<in> set (gt_users x))" by code_simp
  have f4: "ie_lastOutputOrder two_engine \<noteq> []" by code_simp
  have f5: "set (ie_lastOutputOrder two_engine) \<subseteq> (\<Union>t \<in> set (ie_tasks two_engine). tn_name ` set (tk_outputs t))" by code_simp
  have f6: "checkInputOutputMistmatch two_engine" by code_simp
  have f7: "map fst [(''x'', 65536 :: u64)] = ie_modelInputOrder two_engine" by code_simp
  have f8: "\<forall>(n, p) \<in> set [(''x'', 65536 :: u64)]. p \<noteq> 0" by simp
  have f9: "set [''cpu_0'', ''npu_0''] = tk_name ` set (ie_tasks two_engine)" by code_simp
  have f10: "(job_step two_engine (\<lambda>_. 4096) ^^ 0) ?s ?s" by simp
  have "jb_status (js_job ?s) \<noteq> REQ_DONE" by (simp add: multi_input_sys_def prepareMultiInput_def)
  with loaded_model_completes [OF l f1 f2 f3 f4 f5 f6 f7 f8 two_engine_graph(5) f9 f10] show ?thesis by blast
qed

subsection \<open>Jobs with one input\<close>

text \<open>The model inputs that \<open>startJob\<close> publishes: those that a task other than the head uses.\<close>

definition shared_inputs :: "InferenceEngine \<Rightarrow> string \<Rightarrow> string set" where
  "shared_inputs ie h = {n \<in> set (ie_modelInputOrder ie). \<exists>t \<in> set (ie_tasks ie). tk_name t \<noteq> h \<and> n \<in> in_names t}"

lemma add_shared_inputs:
  assumes "p \<noteq> 0" "\<And>n x. map_of m n = Some x \<Longrightarrow> tensor_ok n x"
  shows "dom (map_of (fold (add_shared_input h ts p) ns m)) = dom (map_of m) \<union> {n \<in> set ns. \<exists>t \<in> set ts. tk_name t \<noteq> h \<and> n \<in> in_names t}"
    and "map_of (fold (add_shared_input h ts p) ns m) n = Some x \<Longrightarrow> tensor_ok n x"
proof -
  have use: "first_use ts k \<noteq> None" if "t \<in> set ts" "k \<in> in_names t" for k t
    using that by (auto simp: first_use_def find_None_iff in_names_def)
  have "dom (map_of (fold (add_shared_input h ts p) ns m)) = dom (map_of m) \<union> {n \<in> set ns. \<exists>t \<in> set ts. tk_name t \<noteq> h \<and> n \<in> in_names t}
    \<and> (map_of (fold (add_shared_input h ts p) ns m) n = Some x \<longrightarrow> tensor_ok n x)"
    using assms(2)
  proof (induction ns arbitrary: m)
    case (Cons k ns)
    have ok: "tensor_ok n x" if "map_of (add_shared_input h ts p k m) n = Some x" for n x
      using that Cons.prems assms(1) by (auto simp: add_shared_input_def tensor_ok_def dest: first_use_name split: option.splits if_splits)
    have "dom (map_of (add_shared_input h ts p k m)) = dom (map_of m) \<union> {n. n = k \<and> (\<exists>t \<in> set ts. tk_name t \<noteq> h \<and> n \<in> in_names t)}"
      using use [of _ k] unfolding add_shared_input_def in_names_def [symmetric] by (auto split: option.splits) blast
    with Cons.IH [OF ok] show ?case by auto
  qed simp
  then show "dom (map_of (fold (add_shared_input h ts p) ns m)) = dom (map_of m) \<union> {n \<in> set ns. \<exists>t \<in> set ts. tk_name t \<noteq> h \<and> n \<in> in_names t}"
    and "map_of (fold (add_shared_input h ts p) ns m) n = Some x \<Longrightarrow> tensor_ok n x" by blast+
qed

definition single_sys :: "Request \<Rightarrow> host_mem \<Rightarrow> InferenceJob \<Rightarrow> job_sys" where
  "single_sys r mem j = \<lparr>js_job = j, js_running = [r], js_threads = [], js_delivered = [], js_mem = mem\<rparr>"

text \<open>After \<open>startJob\<close> only the head runs; the invariant holds once it is done.\<close>

lemma startJob_fields:
  assumes "startJob ie p userArg outputPtr j = (k, Some r, j1)" "fresh_job ie j" "p \<noteq> 0"
  shows "\<exists>h. jb_headTask j = Some h \<and> task_of (ie_tasks ie) h = Some (jr_task r)
    \<and> dom (map_of (jb_tensors j1)) = shared_inputs ie h \<and> (\<forall>n x. map_of (jb_tensors j1) n = Some x \<longrightarrow> tensor_ok n x)
    \<and> jb_taskStatusMap j1 = idle_statuses (ie_tasks ie) \<and> jb_doneCount j1 = 0 \<and> jb_outputCount j1 = int (length (ie_tasks ie))
    \<and> jb_outputs j1 = ie_lastOutputOrder ie \<and> jb_status j1 = REQ_BUSY"
proof -
  note f = fresh_job_fields [OF assms(2)]
  from assms(1) obtain h where "jb_headTask j = Some h" "task_of (ie_tasks ie) h = Some (jr_task r)"
    and j1: "jb_tensors j1 = fold (add_shared_input h (jb_tasks j) p) (jb_modelInputNames j) (jb_tensors j)"
    "jb_taskStatusMap j1 = jb_taskStatusMap j" "jb_doneCount j1 = jb_doneCount j" "jb_outputCount j1 = jb_outputCount j"
    "jb_outputs j1 = jb_outputs j" "jb_status j1 = REQ_BUSY"
    by (auto simp: startJob_def Let_def split: option.splits)
  with f add_shared_inputs [OF assms(3), of "[]" h "ie_tasks ie" "ie_modelInputOrder ie"] show ?thesis
    by (auto simp: shared_inputs_def)
qed

lemma job_inv_after_head:
  assumes "startJob ie p userArg outputPtr j = (k, Some r, j1)" "fresh_job ie j" "p \<noteq> 0" "graph_ok ie"
    and "job_step ie alloc (single_sys r mem j1) s"
    and "\<forall>t \<in> set (ie_tasks ie). tk_name t \<notin> X \<longrightarrow> tk_name t \<noteq> tk_name (jr_task r) \<longrightarrow> \<not> in_names t \<subseteq> shared_inputs ie (tk_name (jr_task r))"
  shows "job_inv ie {tk_name (jr_task r)} (shared_inputs ie (tk_name (jr_task r))) X s"
proof -
  let ?ts = "ie_tasks ie" and ?t = "jr_task r"
  let ?h = "tk_name ?t"
  from startJob_fields [OF assms(1-3)] have t: "?t \<in> set ?ts" and j1: "dom (map_of (jb_tensors j1)) = shared_inputs ie ?h"
    "\<And>n x. map_of (jb_tensors j1) n = Some x \<Longrightarrow> tensor_ok n x" "jb_taskStatusMap j1 = idle_statuses ?ts" "jb_doneCount j1 = 0"
    "jb_outputCount j1 = int (length ?ts)" "jb_outputs j1 = ie_lastOutputOrder ie" "jb_status j1 = REQ_BUSY"
    by (auto dest: task_of_Some)
  from assms(5) obtain c j fin where c: "outputs_of ?t c" "complete_section ?t c j1 = Inr (j, fin)"
    and s: "s = \<lparr>js_job = j, js_running = [], js_threads = [Successors (tk_nexts ?t) fin], js_delivered = [], js_mem = mem\<rparr>"
    by cases (auto simp: single_sys_def)
  note E = complete_section_effect [OF c(2)]
  have L: "linked ?ts" using assms(4) by (simp add: graph_ok_def)
  have same: "u = ?t" if "u \<in> set ?ts" "tk_name u = ?h" for u using that t L by (auto simp: linked_def distinct_map dest: inj_onD)
  let ?st = "map_of (idle_statuses ?ts)" and ?th = "[Successors (tk_nexts ?t) fin]"
  have st: "?st n \<noteq> Some TASK_DONE" "?st n \<noteq> Some TASK_BUSY" "?st n \<noteq> Some TASK_READY" for n by (simp_all add: map_of_idle_statuses)
  have dom: "dom (map_of (jb_tensors j)) = shared_inputs ie ?h \<union> out_names ?t"
    unfolding E(2) dom_publish j1(1) outputs_of_names [OF c(1)] by (rule refl)
  have ok: "tensor_ok n x" if "map_of (jb_tensors j) n = Some x" for n x
    using that publish_ok [OF j1(2), where xs = "cp_outputs c" and n = n and x = x] c(1) by (simp add: E(2) outputs_of_def)
  have h: "?h \<in> task_names ?ts" using t by (simp add: task_names_def)
  have nx: "set (tk_nexts ?t) \<subseteq> task_names ?ts" using L t by (auto simp: linked_def)
  have waits: "waits ?th (tk_name u)" if "u \<in> set ?ts" "tk_name u \<noteq> ?h" "in_names u \<subseteq> dom (map_of (jb_tensors j))" "tk_name u \<notin> X" for u
  proof -
    have "out_names ?t \<inter> in_names u \<noteq> {}" using that assms(6) dom by blast
    then show ?thesis using L t that(1) by (auto simp: linked_def waits_def)
  qed
  have "flow_ok ?ts (?st(?h \<mapsto> TASK_DONE)) (dom (map_of (jb_tensors j))) [] ?th"
    using st h nx by (auto simp: flow_ok_def ready_at_def one_each_def map_of_idle_statuses)
  moreover have "data_ok ?ts {?h} (shared_inputs ie ?h) X (?st(?h \<mapsto> TASK_DONE)) (map_of (jb_tensors j)) ?th"
    unfolding data_ok_def
  proof (intro conjI ballI allI impI)
    show "out_names u \<subseteq> dom (map_of (jb_tensors j))" if "u \<in> set ?ts" "(?st(?h \<mapsto> TASK_DONE)) (tk_name u) = Some TASK_DONE" for u
      using that st same [of u] dom by (cases "tk_name u = ?h") auto
    show "tk_name u \<in> X \<or> \<not> in_names u \<subseteq> dom (map_of (jb_tensors j)) \<or> waits ?th (tk_name u)"
      if "u \<in> set ?ts" "(?st(?h \<mapsto> TASK_DONE)) (tk_name u) = Some TASK_IDLE" for u
      using that waits [of u] by (cases "tk_name u = ?h") auto
  qed (use dom ok in auto)
  moreover have "count_ok ?ts (?st(?h \<mapsto> TASK_DONE)) ([] @ ?th) j []"
    unfolding E(7) using st h L E j1
    by (intro count_complete [of _ _ _ j1]) (auto simp: linked_def count_ok_def done_names_def one_last_def last_at_def task_names_def)
  ultimately show ?thesis using j1 E unfolding s job_inv_def by (simp add: Let_def request_names_def)
qed

lemma job_work_after_head:
  assumes "startJob ie p userArg outputPtr j = (k, Some r, j1)" "fresh_job ie j" "p \<noteq> 0" "graph_ok ie"
    and "job_step ie alloc (single_sys r mem j1) s"
  shows "job_work ie s \<le> (2 * fanout (ie_tasks ie) + 2) * length (ie_tasks ie)"
proof -
  let ?ts = "ie_tasks ie" and ?h = "tk_name (jr_task r)"
  from startJob_fields [OF assms(1-3)] have t: "jr_task r \<in> set ?ts" and st1: "jb_taskStatusMap j1 = idle_statuses ?ts"
    by (auto dest: task_of_Some)
  from assms(5) obtain c j fin where c: "complete_section (jr_task r) c j1 = Inr (j, fin)" "js_job s = j"
    "js_threads s = [Successors (tk_nexts (jr_task r)) fin]" by cases (auto simp: single_sys_def)
  have st: "done_names (map_of (jb_taskStatusMap j)) = {?h}"
    using complete_section_effect(1) [OF c(1)] st1 by (auto simp: done_names_def map_of_idle_statuses split: if_splits)
  have card: "card (task_names ?ts) = length ?ts"
    using assms(4) distinct_card [of "map tk_name ?ts"] by (simp add: graph_ok_def linked_def task_names_def)
  have "length (tk_nexts (jr_task r)) \<le> fanout ?ts" using t unfolding fanout_def by (intro member_le_sum_list) auto
  moreover have "card (task_names ?ts - {?h}) = length ?ts - 1" using t card by (subst card_Diff_singleton) (auto simp: task_names_def)
  moreover obtain m where "length ?ts = Suc m" using t by (cases ?ts) auto
  ultimately show ?thesis unfolding job_work_def c(2,3) st by simp
qed

text \<open>
  Claim C7. A job with one input always completes, if every task but the head has an input that is not a
  model input: whatever the interleaving, a run has a bounded number of steps, and when no step is left
  the job is \<open>REQ_DONE\<close>, every task is done and the outputs were delivered exactly once.
\<close>
theorem single_input_job_completes:
  assumes "graph_ok ie" "fresh_job ie j" "p \<noteq> 0" "startJob ie p userArg outputPtr j = (i, Some r, j1)"
    and "startable {tk_name (jr_task r)} (shared_inputs ie (tk_name (jr_task r))) (ie_tasks ie)"
    and "\<forall>t \<in> set (ie_tasks ie). tk_name t \<noteq> tk_name (jr_task r) \<longrightarrow> \<not> in_names t \<subseteq> shared_inputs ie (tk_name (jr_task r))"
    and "(job_step ie alloc ^^ k) (single_sys r mem j1) s"
  shows "k \<le> (2 * fanout (ie_tasks ie) + 2) * length (ie_tasks ie) + 1
    \<and> ((\<exists>s'. job_step ie alloc s s')
       \<or> (jb_status (js_job s) = REQ_DONE
          \<and> (\<forall>t \<in> set (ie_tasks ie). map_of (jb_taskStatusMap (js_job s)) (tk_name t) = Some TASK_DONE)
          \<and> (\<exists>outs. js_delivered s = [outs] \<and> map tn_name outs = ie_lastOutputOrder ie)))"
proof (cases k)
  case 0
  from startJob_fields [OF assms(4,2,3)] have "map_of (jb_taskStatusMap j1) (tk_name (jr_task r)) \<noteq> None"
    by (auto simp: map_of_idle_statuses task_names_def dest: task_of_Some)
  then have "\<exists>s'. job_step ie alloc (single_sys r mem j1) s'" by (intro can_complete [of r]) (auto simp: single_sys_def)
  with 0 assms(7) show ?thesis by auto
next
  case (Suc l)
  with assms(7) obtain s1 where s1: "job_step ie alloc (single_sys r mem j1) s1" "(job_step ie alloc ^^ l) s1 s"
    by (metis relpowp_Suc_E2)
  from job_inv_after_head [OF assms(4,2,3,1) s1(1), of "{}"] assms(6)
  have inv: "job_inv ie {tk_name (jr_task r)} (shared_inputs ie (tk_name (jr_task r))) {} s1" by blast
  from job_run_bound [OF s1(2) inv assms(1)] job_work_after_head [OF assms(4,2,3,1) s1(1)] Suc
  have "k \<le> (2 * fanout (ie_tasks ie) + 2) * length (ie_tasks ie) + 1"
    and "job_inv ie {tk_name (jr_task r)} (shared_inputs ie (tk_name (jr_task r))) {} s" by auto
  with job_end [OF _ assms(1,5)] show ?thesis by blast
qed

definition two_request :: Request where "two_request = the (fst (snd (startJob two_engine 65536 0 0 two_job)))"

lemma two_start:
  "startJob two_engine 65536 0 0 two_job = (0, Some two_request, snd (snd (startJob two_engine 65536 0 0 two_job)))"
  "tk_name (jr_task two_request) = ''npu_0''" "shared_inputs two_engine ''npu_0'' = {}"
proof -
  have "fst (startJob two_engine 65536 0 0 two_job) = 0" "fst (snd (startJob two_engine 65536 0 0 two_job)) \<noteq> None" by code_simp+
  then show "startJob two_engine 65536 0 0 two_job = (0, Some two_request, snd (snd (startJob two_engine 65536 0 0 two_job)))"
    by (simp add: two_request_def prod_eq_iff)
  show "tk_name (jr_task two_request) = ''npu_0''" by code_simp
  show "shared_inputs two_engine ''npu_0'' = {}" by code_simp
qed

theorem single_input_job_completes_witness:
  "\<exists>s'. job_step two_engine (\<lambda>_. 4096) (single_sys two_request (\<lambda>_. 0) (snd (snd (startJob two_engine 65536 0 0 two_job)))) s'"
proof -
  let ?j1 = "snd (snd (startJob two_engine 65536 0 0 two_job))" and ?h = "tk_name (jr_task two_request)"
  let ?s = "single_sys two_request (\<lambda>_. 0) ?j1"
  have a: "startable {?h} (shared_inputs two_engine ?h) (ie_tasks two_engine)" unfolding two_start by code_simp
  have b: "\<forall>t \<in> set (ie_tasks two_engine). tk_name t \<noteq> ?h \<longrightarrow> \<not> in_names t \<subseteq> shared_inputs two_engine ?h"
    unfolding two_start by code_simp
  have p: "(65536 :: u64) \<noteq> 0" by simp
  have c: "(job_step two_engine (\<lambda>_. 4096) ^^ 0) ?s ?s" by simp
  have "jb_status (js_job ?s) \<noteq> REQ_DONE" by code_simp
  with single_input_job_completes [OF two_engine_graph(2,5) p two_start(1) a b c] show ?thesis by blast
qed

definition two_sys :: job_sys where
  "two_sys = single_sys two_request (\<lambda>_. 0) (snd (snd (startJob two_engine 65536 0 0 two_job)))"

definition two_completion :: completion where
  "two_completion = \<lparr>cp_outputs = [(tensor ''a'' [2, 3])\<lparr>tn_data := 8192\<rparr>, (tensor ''b'' [5])\<lparr>tn_data := 12288\<rparr>],
     cp_latency = 30, cp_queueWaitTime = 10, cp_inference_time = 5\<rparr>"


lemma waits_of_update: "waits (th[i := a]) n \<Longrightarrow> waits th n \<or> n \<in> set (pending a)"
  using set_update_subset_insert [of th i a] by (auto simp: waits_def)

lemma orphan_stays_idle:
  assumes "job_step ie alloc s s'" "job_inv ie D A X s" "\<forall>t \<in> set (ie_tasks ie). n \<notin> set (tk_nexts t)"
    and "map_of (jb_taskStatusMap (js_job s)) n = Some TASK_IDLE" "\<not> waits (js_threads s) n"
  shows "map_of (jb_taskStatusMap (js_job s')) n = Some TASK_IDLE \<and> \<not> waits (js_threads s') n"
proof -
  let ?st = "map_of (jb_taskStatusMap (js_job s))"
  have F: "flow_ok (ie_tasks ie) ?st (dom (map_of (jb_tensors (js_job s)))) (request_names (js_running s)) (js_threads s)"
    and R: "\<forall>r \<in> set (js_running s). jr_task r \<in> set (ie_tasks ie)" using assms(2) by (auto simp: job_inv_def Let_def)
  have not_pending: "n \<notin> set (pending (js_threads s ! i))" if "i < length (js_threads s)" for i
    using assms(5) that nth_mem unfolding waits_def by blast
  from assms(1) show ?thesis
  proof cases
    case (complete r c j fin)
    have "tk_name (jr_task r) \<in> set (request_names (js_running s))" using complete(2) by (auto simp: request_names_def)
    then have "tk_name (jr_task r) \<noteq> n" using flow_okD(3) [OF F, of n] assms(4) by auto
    with complete R assms(3-5) complete_section_effect(1) [OF complete(4)] show ?thesis by auto
  next
    case (ready i m ns fin t j)
    then have "m \<noteq> n" "n \<notin> set ns" using not_pending [OF ready(2)] by auto
    with ready assms(4,5) check_ready_effect [OF ready(5)] task_of_Some [OF ready(4)] show ?thesis
      by (auto simp: update_conv' dest: waits_of_update)
  next
    case (not_ready i m ns fin t j)
    then have "n \<notin> set ns" using not_pending [OF not_ready(2)] by auto
    with not_ready assms(4,5) check_not_ready_effect [OF not_ready(5)] show ?thesis by (auto dest: waits_of_update)
  next
    case (process i m ns fin t q j)
    have "ready_at (js_threads s) m" using process(2,3) by (auto simp: ready_at_nth)
    then have "m \<noteq> n" using flow_okD(4) [OF F, of m] assms(4) by auto
    moreover have "n \<notin> set ns" using not_pending [OF process(2)] process(3) by auto
    ultimately show ?thesis using process assms(4,5) task_of_Some [OF process(4)]
      by (auto simp: processReadyTask_def Let_def update_conv' split: if_splits dest: waits_of_update)
  next
    case (leave i)
    with assms(4,5) show ?thesis by (auto dest: waits_of_update)
  next
    case (deliver i outs j mem)
    have "jb_taskStatusMap j = jb_taskStatusMap (js_job s)"
      using deliver(4) by (auto simp: onAllRequestComplete_def deliver_outputs_def setReturnOutputs_def SetOccupiedJob_def
          setStatus_def ReleaseAllOutputBuffer_def split: prod.splits sum.splits if_splits)
    with deliver assms(4,5) show ?thesis by (auto dest: waits_of_update)
  qed
qed

lemma orphan_blocks:
  assumes "job_inv ie D A X s" "n \<in> task_names (ie_tasks ie)" "map_of (jb_taskStatusMap (js_job s)) n = Some TASK_IDLE"
  shows "jb_status (js_job s) = REQ_BUSY \<and> js_delivered s = []"
proof -
  have C: "count_ok (ie_tasks ie) (map_of (jb_taskStatusMap (js_job s))) (js_threads s) (js_job s) (js_delivered s)"
    using assms(1) by (auto simp: job_inv_def Let_def)
  have "n \<notin> done_names (map_of (jb_taskStatusMap (js_job s)))" using assms(3) by (simp add: done_names_def)
  with assms(2) have "done_names (map_of (jb_taskStatusMap (js_job s))) \<noteq> task_names (ie_tasks ie)" by blast
  with C show ?thesis by (auto simp: count_ok_def)
qed

text \<open>
  \<open>startJob\<close> starts the first head only. Another task that is the successor of no task (a second
  head, which reads nothing but model inputs) is never requested: in every state of every run it is
  idle, no outputs are delivered and the job stays \<open>REQ_BUSY\<close>, so the caller waits forever.
\<close>
theorem second_head_never_started:
  assumes "graph_ok ie" "fresh_job ie j" "p \<noteq> 0" "startJob ie p userArg outputPtr j = (k, Some r, j1)"
    and "u \<in> set (ie_tasks ie)" "tk_name u \<noteq> tk_name (jr_task r)" "\<forall>t \<in> set (ie_tasks ie). tk_name u \<notin> set (tk_nexts t)"
    and "job_steps ie alloc (single_sys r mem j1) s"
  shows "map_of (jb_taskStatusMap (js_job s)) (tk_name u) = Some TASK_IDLE \<and> jb_status (js_job s) = REQ_BUSY \<and> js_delivered s = []"
proof -
  let ?n = "tk_name u" and ?h = "tk_name (jr_task r)"
  have n: "?n \<in> task_names (ie_tasks ie)" using assms(5) by (simp add: task_names_def)
  have start: "map_of (jb_taskStatusMap j1) ?n = Some TASK_IDLE" "jb_status j1 = REQ_BUSY"
    using startJob_fields [OF assms(4,2,3)] n by (auto simp: map_of_idle_statuses)
  from assms(8) show ?thesis
  proof (cases rule: converse_rtranclpE)
    case base
    with start show ?thesis by (auto simp: single_sys_def)
  next
    case (step s1)
    have inv: "job_inv ie {?h} (shared_inputs ie ?h) UNIV s1" using job_inv_after_head [OF assms(4,2,3,1) step(1)] by blast
    from step(1) obtain c j' fin where c: "complete_section (jr_task r) c j1 = Inr (j', fin)" "js_job s1 = j'"
      "js_threads s1 = [Successors (tk_nexts (jr_task r)) fin]" by cases (auto simp: single_sys_def)
    have "jr_task r \<in> set (ie_tasks ie)" using startJob_fields [OF assms(4,2,3)] by (auto dest: task_of_Some)
    then have first: "map_of (jb_taskStatusMap (js_job s1)) ?n = Some TASK_IDLE \<and> \<not> waits (js_threads s1) ?n"
      using c start complete_section_effect(1) [OF c(1)] assms(6,7) by (auto simp: waits_def)
    from step(2) have "job_inv ie {?h} (shared_inputs ie ?h) UNIV s
        \<and> map_of (jb_taskStatusMap (js_job s)) ?n = Some TASK_IDLE \<and> \<not> waits (js_threads s) ?n"
    proof (induction rule: rtranclp_induct)
      case (step y z)
      with orphan_stays_idle [OF step(2) _ assms(7)] job_inv_step [OF step(2) _ assms(1)] show ?case by blast
    qed (use inv first in blast)
    with orphan_blocks n show ?thesis by blast
  qed
qed

text \<open>Two heads that share the model input \<open>x\<close>.\<close>

definition twin_engine :: InferenceEngine where
  "twin_engine = loaded_engine (load_graph True
     [(''n1'', \<lparr>sg_inputs = [\<lparr>gt_name = ''x'', gt_owner = [], gt_users = [''n1'', ''n2'']\<rparr>],
        sg_outputs = [\<lparr>gt_name = ''a'', gt_owner = ''n1'', gt_users = []\<rparr>], sg_head = True, sg_tail = True\<rparr>),
      (''n2'', \<lparr>sg_inputs = [\<lparr>gt_name = ''x'', gt_owner = [], gt_users = [''n1'', ''n2'']\<rparr>],
        sg_outputs = [\<lparr>gt_name = ''b'', gt_owner = ''n2'', gt_users = []\<rparr>], sg_head = True, sg_tail = True\<rparr>)]
     [''x''] [''a'', ''b'']
     [plain_task ''n1'' NPU [tensor ''x'' [8]] [tensor ''a'' [4]], plain_task ''n2'' NPU [tensor ''x'' [8]] [tensor ''b'' [4]]])"

definition twin_job :: InferenceJob where
  "twin_job = SetInferenceJob (ie_tasks twin_engine) (ie_head twin_engine) (ie_lastOutputOrder twin_engine) (ie_modelInputOrder twin_engine) empty_job"

definition twin_request :: Request where "twin_request = the (fst (snd (startJob twin_engine 65536 0 0 twin_job)))"

theorem second_head_never_started_witness:
  "\<forall>s. job_steps twin_engine (\<lambda>_. 4096) (single_sys twin_request (\<lambda>_. 0) (snd (snd (startJob twin_engine 65536 0 0 twin_job)))) s
     \<longrightarrow> jb_status (js_job s) = REQ_BUSY"
proof (intro allI impI)
  let ?j1 = "snd (snd (startJob twin_engine 65536 0 0 twin_job))"
  fix s assume s: "job_steps twin_engine (\<lambda>_. 4096) (single_sys twin_request (\<lambda>_. 0) ?j1) s"
  have "fst (startJob twin_engine 65536 0 0 twin_job) = 0" "fst (snd (startJob twin_engine 65536 0 0 twin_job)) \<noteq> None" by code_simp+
  then have start: "startJob twin_engine 65536 0 0 twin_job = (0, Some twin_request, ?j1)" by (simp add: twin_request_def prod_eq_iff)
  have g: "graph_ok twin_engine" by code_simp
  have f: "fresh_job twin_engine twin_job" unfolding fresh_job_def twin_job_def by blast
  have u: "\<exists>u \<in> set (ie_tasks twin_engine). tk_name u \<noteq> tk_name (jr_task twin_request) \<and> (\<forall>t \<in> set (ie_tasks twin_engine). tk_name u \<notin> set (tk_nexts t))"
    by code_simp
  from u second_head_never_started [OF g f _ start _ _ _ s] show "jb_status (js_job s) = REQ_BUSY" by auto
qed

end
