(* ===== verification/Inference_Engine.thy ===== *)
theory Inference_Engine
  imports Inference_Job_Correct Circular_Buffer
begin

section \<open>Running a model\<close>

text \<open>
  \<^verbatim>\<open>src/lib/inference_engine.cpp\<close>, the functions that start inferences: a job is taken from the pool
  (\<^verbatim>\<open>Circular_Buffer\<close>), set up and started (\<^verbatim>\<open>Inference_Job\<close>). The in-use flag of a pool element is the
  flag of the job. A run returns the id of its job and the requests handed to the workers, or throws. The
  synchronous variants then wait for the job and take its outputs. \<open>order\<close> is the iteration order of the
  status map of the job, \<open>alloc\<close> the addresses of the vectors a run allocates.
\<close>

record engine_state =
  es_ie :: InferenceEngine
  es_isDisposed :: bool
  es_hasUserCallback :: bool
  es_jobs :: "InferenceJob list"
  es_headIndex :: nat

type_synonym started = "engine_error + int \<times> Request list \<times> engine_state"

definition job_pool :: "engine_state \<Rightarrow> CircularDataPool" where
  "job_pool es = \<lparr>dp_flags = map jb_use_flag (es_jobs es), dp_headIndex = es_headIndex es\<rparr>"

definition pick_job :: "engine_state \<Rightarrow> nat option \<times> engine_state" where
  "pick_job es =
     (case pick (job_pool es) of
        (None, p) \<Rightarrow> (None, es\<lparr>es_headIndex := dp_headIndex p\<rparr>)
      | (Some i, p) \<Rightarrow> (Some i, es\<lparr>es_jobs := (es_jobs es)[i := (es_jobs es ! i)\<lparr>jb_use_flag := True\<rparr>], es_headIndex := dp_headIndex p\<rparr>))"

definition SetStoreResult :: "bool \<Rightarrow> InferenceJob \<Rightarrow> InferenceJob" where
  "SetStoreResult b j = j\<lparr>jb_storeResult := b\<rparr>"

definition SetBatchIndex :: "int \<Rightarrow> InferenceJob \<Rightarrow> InferenceJob" where
  "SetBatchIndex i j = j\<lparr>jb_batchIndex := i\<rparr>"

text \<open>\<open>_inferenceJobPool->GetById(jobId)->SetOccupiedJob(true)\<close>, without a check of the pointer.\<close>

definition occupy :: "int \<Rightarrow> Request list \<Rightarrow> engine_state \<Rightarrow> started" where
  "occupy jobId rs es =
     (case GetById jobId (job_pool es) of
        None \<Rightarrow> Inl NullDereference
      | Some k \<Rightarrow> Inr (jobId, rs, es\<lparr>es_jobs := (es_jobs es)[k := SetOccupiedJob True (es_jobs es ! k)]\<rparr>))"

definition put_job :: "nat \<Rightarrow> InferenceJob \<Rightarrow> engine_state \<Rightarrow> engine_state" where
  "put_job i j es = es\<lparr>es_jobs := (es_jobs es)[i := j]\<rparr>"

text \<open>The common part of the single-input runs: \<open>setup\<close> are the calls between set-up and start.\<close>

definition start_single :: "(InferenceJob \<Rightarrow> InferenceJob) \<Rightarrow> u64 \<Rightarrow> u64 \<Rightarrow> u64 \<Rightarrow> engine_state \<Rightarrow> started" where
  "start_single setup inputPtr userArg outputPtr es =
     (let ie = es_ie es in
      case pick_job es of
        (None, es1) \<Rightarrow> Inl InvalidOperationException
      | (Some i, es1) \<Rightarrow>
          (let j = setup (SetInferenceJob (ie_tasks ie) (ie_head ie) (ie_lastOutputOrder ie) (ie_modelInputOrder ie) (es_jobs es1 ! i))
           in case startJob ie inputPtr userArg outputPtr j of
                (jobId, r, j1) \<Rightarrow> occupy jobId (case r of None \<Rightarrow> [] | Some q \<Rightarrow> [q]) (put_job i j1 es1)))"

definition runAsync :: "u64 \<Rightarrow> u64 \<Rightarrow> u64 \<Rightarrow> int \<Rightarrow> engine_state \<Rightarrow> started" where
  "runAsync inputPtr userArg outputPtr batchIndex es =
     (if es_isDisposed es then Inl InvalidOperationException
      else start_single (\<lambda>j. let j1 = SetBatchIndex batchIndex j in if es_hasUserCallback es then j1 else SetStoreResult True j1)
             inputPtr userArg outputPtr es)"

definition setup_multi_input :: "InferenceEngine \<Rightarrow> bool \<Rightarrow> InferenceJob \<Rightarrow> InferenceJob" where
  "setup_multi_input ie hasUserCallback j0 =
     (let j = (if 1 < length (ie_inputTasks ie)
               then SetInferenceJobMultiHead (ie_tasks ie) (ie_inputTasks ie) (ie_lastOutputOrder ie) (ie_modelInputOrder ie) j0
               else SetInferenceJob (ie_tasks ie) (ie_head ie) (ie_lastOutputOrder ie) (ie_modelInputOrder ie) j0)
      in if hasUserCallback then j else SetStoreResult True j)"

definition RunAsyncMultiInput :: "string list \<Rightarrow> (string \<times> u64) list \<Rightarrow> u64 \<Rightarrow> u64 \<Rightarrow> engine_state \<Rightarrow> started" where
  "RunAsyncMultiInput order inputTensors userArg outputPtr es =
     (let ie = es_ie es in
      if es_isDisposed es then Inl InvalidOperationException
      else if \<not> ie_isMultiInput ie then Inl InvalidArgumentException
      else if \<exists>n \<in> set (map fst inputTensors). map_of (ie_inputTensorToTaskMap ie) n = None then Inl InvalidArgumentException
      else if length inputTensors \<noteq> length (ie_modelInputOrder ie) then Inl InvalidArgumentException
      else
        case pick_job es of
          (None, es1) \<Rightarrow> Inl InvalidOperationException
        | (Some i, es1) \<Rightarrow>
            (case startMultiInputJob order inputTensors userArg outputPtr (setup_multi_input ie (es_hasUserCallback es) (es_jobs es1 ! i)) of
               (jobId, rs, j) \<Rightarrow> occupy jobId rs (put_job i j es1)))"

text \<open>A vector of pointers becomes a map by the order of the model inputs; a repeated name keeps the last.\<close>

definition input_map :: "string list \<Rightarrow> u64 list \<Rightarrow> (string \<times> u64) list" where
  "input_map names ptrs = fold (\<lambda>(n, p). AList.update n p) (zip names ptrs) []"

definition RunAsyncMultiInput_vector :: "string list \<Rightarrow> u64 list \<Rightarrow> u64 \<Rightarrow> u64 \<Rightarrow> engine_state \<Rightarrow> started" where
  "RunAsyncMultiInput_vector order inputPtrs userArg outputPtr es =
     (if length inputPtrs \<noteq> length (ie_modelInputOrder (es_ie es)) then Inl InvalidArgumentException
      else RunAsyncMultiInput order (input_map (ie_modelInputOrder (es_ie es)) inputPtrs) userArg outputPtr es)"

text \<open>One buffer cut into the model inputs, each copied to a vector of its own.\<close>

fun split_input :: "(nat \<Rightarrow> u64) \<Rightarrow> u64 \<Rightarrow> u64 list \<Rightarrow> nat \<Rightarrow> u64 \<Rightarrow> host_mem \<Rightarrow> u64 list \<times> host_mem" where
  "split_input alloc inputPtr [] i off mem = ([], mem)"
| "split_input alloc inputPtr (n # ns) i off mem =
     (case split_input alloc inputPtr ns (Suc i) (off + n) (memcpy (alloc i) (inputPtr + off) n mem) of
        (ptrs, mem1) \<Rightarrow> (alloc i # ptrs, mem1))"

definition RunAsync :: "string list \<Rightarrow> (nat \<Rightarrow> u64) \<Rightarrow> u64 \<Rightarrow> u64 \<Rightarrow> u64 \<Rightarrow> host_mem \<Rightarrow> engine_state \<Rightarrow> started \<times> host_mem" where
  "RunAsync order alloc inputPtr userArg outputPtr mem es =
     (if shouldAutoSplitInput (es_ie es) \<and> inputPtr \<noteq> 0 then
        (case split_input alloc inputPtr (GetInputTensorSizes (es_ie es)) 0 0 mem of
           (ptrs, mem1) \<Rightarrow> (RunAsyncMultiInput_vector order ptrs userArg outputPtr es, mem1))
      else (runAsync inputPtr userArg outputPtr (-1) es, mem))"

definition RunAsync_vector :: "string list \<Rightarrow> u64 list \<Rightarrow> u64 \<Rightarrow> u64 \<Rightarrow> engine_state \<Rightarrow> started" where
  "RunAsync_vector order inputPtrs userArg outputPtr es =
     (let ie = es_ie es in
      if es_isDisposed es then Inl InvalidOperationException
      else if inputPtrs = [] then Inl InvalidArgumentException
      else if ie_isMultiInput ie \<and> length inputPtrs = length (ie_modelInputOrder ie)
        then RunAsyncMultiInput_vector order inputPtrs userArg outputPtr es
      else runAsync (hd inputPtrs) userArg outputPtr (-1) es)"

text \<open>The start of \<open>Run(void*)\<close> and \<open>RunMultiInput\<close>, before they wait.\<close>

definition Run_start :: "string list \<Rightarrow> (nat \<Rightarrow> u64) \<Rightarrow> u64 \<Rightarrow> u64 \<Rightarrow> u64 \<Rightarrow> host_mem \<Rightarrow> engine_state \<Rightarrow> started \<times> host_mem" where
  "Run_start order alloc inputPtr userArg outputPtr mem es =
     (if es_isDisposed es then (Inl InvalidOperationException, mem)
      else if shouldAutoSplitInput (es_ie es) \<and> inputPtr \<noteq> 0 then
        (case split_input alloc inputPtr (GetInputTensorSizes (es_ie es)) 0 0 mem of
           (ptrs, mem1) \<Rightarrow> (RunAsyncMultiInput_vector order ptrs userArg outputPtr es, mem1))
      else (start_single (SetStoreResult True) inputPtr userArg outputPtr es, mem))"

text \<open>\<open>Wait\<close>: throws for an unknown id, blocks while the job is busy (None), otherwise takes the outputs.\<close>

definition Engine_Wait :: "int \<Rightarrow> engine_state \<Rightarrow> (engine_error + Tensor list \<times> engine_state) option" where
  "Engine_Wait jobId es =
     (case GetById jobId (job_pool es) of
        None \<Rightarrow> Some (Inl InvalidOperationException)
      | Some k \<Rightarrow>
          if jb_status (es_jobs es ! k) = REQ_BUSY then None
          else (case getOutput (es_jobs es ! k) of (outs, j) \<Rightarrow> Some (Inr (outs, put_job k j es))))"

subsection \<open>Batches\<close>

definition SUB_BATCH_MAX_COUNT :: nat where "SUB_BATCH_MAX_COUNT = 128"

text \<open>The arguments of the \<open>runAsync\<close> calls of a batch: input, user argument, output, index of the result.\<close>

definition runSubBatch :: "u64 list \<Rightarrow> u64 list \<Rightarrow> u64 list \<Rightarrow> nat \<Rightarrow> nat \<Rightarrow> (u64 \<times> u64 \<times> u64 \<times> nat) list" where
  "runSubBatch inputBuffers outputBuffers userArgs batchCount startIndex =
     map (\<lambda>i. (inputBuffers ! (startIndex + i), if userArgs = [] then 0 else userArgs ! i, outputBuffers ! (startIndex + i), startIndex + i))
       [0..<batchCount]"

definition batch_calls :: "u64 list \<Rightarrow> u64 list \<Rightarrow> u64 list \<Rightarrow> (u64 \<times> u64 \<times> u64 \<times> nat) list" where
  "batch_calls inputBuffers outputBuffers userArgs =
     (let n = length inputBuffers; loops = n div SUB_BATCH_MAX_COUNT; rest = n mod SUB_BATCH_MAX_COUNT
      in concat (map (\<lambda>i. runSubBatch inputBuffers outputBuffers userArgs SUB_BATCH_MAX_COUNT (i * SUB_BATCH_MAX_COUNT)) [0..<loops])
         @ (if 0 < rest then runSubBatch inputBuffers outputBuffers userArgs rest (loops * SUB_BATCH_MAX_COUNT) else []))"

datatype batch = Multi_input "u64 list" u64 u64 | Batch "(u64 \<times> u64 \<times> u64 \<times> nat) list"

definition Run_batch :: "u64 list \<Rightarrow> u64 list \<Rightarrow> u64 list \<Rightarrow> InferenceEngine \<Rightarrow> engine_error + batch" where
  "Run_batch inputBuffers outputBuffers userArgs ie =
     (if inputBuffers = [] then Inl InvalidArgumentException
      else if ie_isMultiInput ie \<and> length inputBuffers = length (ie_modelInputOrder ie)
        then Inr (Multi_input inputBuffers (if userArgs = [] then 0 else hd userArgs) (if outputBuffers = [] then 0 else hd outputBuffers))
      else if userArgs \<noteq> [] \<and> length inputBuffers \<noteq> length userArgs then Inl InvalidArgumentException
      else if length inputBuffers \<noteq> length outputBuffers then Inl InvalidArgumentException
      else Inr (Batch (batch_calls inputBuffers outputBuffers userArgs)))"

section \<open>Correctness\<close>

lemma concat_blocks: "concat (map (\<lambda>i. map (\<lambda>k. f (i * n + k)) [0..<n]) [0..<m]) = map f [0..<m * n]"
proof (induction m)
  case (Suc m)
  have "map (\<lambda>k. f (m * n + k)) [0..<n] = map f [m * n..<m * n + n]" by (rule nth_equalityI) auto
  moreover have "[0..<m * n + n] = [0..<m * n] @ [m * n..<m * n + n]" by (metis add_0 le_add1 upt_add_eq_append)
  ultimately show ?case using Suc by (simp add: add.commute)
qed simp


lemma start_ready_keeps: "start_ready ts ns j = (rs, j') \<Longrightarrow> jb_jobId j' = jb_jobId j \<and> jb_use_flag j' = jb_use_flag j"
proof (induction ns arbitrary: j rs)
  case (Cons n ns)
  show ?case
  proof (cases "task_of ts n")
    case (Some t)
    obtain ok j1 where c: "checkAndSetTaskReady t j = (ok, j1)" by fastforce
    obtain q j2 where p: "processReadyTask t j1 = (q, j2)" by fastforce
    have "jb_jobId j1 = jb_jobId j \<and> jb_use_flag j1 = jb_use_flag j"
      using c by (auto simp: checkAndSetTaskReady_def split: option.splits if_splits)
    moreover have "jb_jobId j2 = jb_jobId j1 \<and> jb_use_flag j2 = jb_use_flag j1"
      using p by (auto simp: processReadyTask_def Let_def split: if_splits)
    moreover have "\<exists>rs'. start_ready ts ns (if ok then j2 else j1) = (rs', j')"
      using Cons.prems Some c p by (cases ok) (auto split: prod.splits)
    ultimately show ?thesis using Cons.IH by (cases ok) force+
  next
    case None
    with Cons show ?thesis by simp
  qed
qed simp

lemma pick_job_Some:
  assumes "dp_ok (job_pool es)" "pick_job es = (Some i, es1)"
  shows "i < length (es_jobs es) \<and> \<not> jb_use_flag (es_jobs es ! i)
    \<and> es_jobs es1 = (es_jobs es)[i := (es_jobs es ! i)\<lparr>jb_use_flag := True\<rparr>] \<and> es_ie es1 = es_ie es"
proof -
  have "fst (pick (job_pool es)) = Some i" using assms(2) by (auto simp: pick_job_def split: prod.splits option.splits)
  from data_pool.acquire_some [OF assms(1) this] assms(2) show ?thesis
    by (auto simp: pick_job_def job_pool_def split: prod.splits option.splits)
qed

lemma pick_job_None:
  assumes "dp_ok (job_pool es)" "pick_job es = (None, es1)"
  shows "\<forall>j \<in> set (es_jobs es). jb_use_flag j"
proof -
  have "fst (pick (job_pool es)) = None" using assms(2) by (auto simp: pick_job_def split: prod.splits option.splits)
  from data_pool.acquire_none [OF assms(1) this] show ?thesis by (auto simp: job_pool_def in_set_conv_nth)
qed


text \<open>A model that adds two inputs, and an engine with two free jobs.\<close>

definition sum_engine :: InferenceEngine where
  "sum_engine = loaded_engine (load_graph True
     [(''add'', \<lparr>sg_inputs = [\<lparr>gt_name = ''x'', gt_owner = [], gt_users = [''add'']\<rparr>, \<lparr>gt_name = ''y'', gt_owner = [], gt_users = [''add'']\<rparr>],
        sg_outputs = [\<lparr>gt_name = ''z'', gt_owner = ''add'', gt_users = []\<rparr>], sg_head = True, sg_tail = True\<rparr>)]
     [''x'', ''y''] [''z''] [plain_task ''add'' CPU [tensor ''x'' [8], tensor ''y'' [8]] [tensor ''z'' [8]]])"

definition sum_state :: engine_state where
  "sum_state = \<lparr>es_ie = sum_engine, es_isDisposed = False, es_hasUserCallback = False,
     es_jobs = [empty_job\<lparr>jb_use_flag := False\<rparr>, empty_job\<lparr>jb_use_flag := False, jb_jobId := 1\<rparr>], es_headIndex = 1\<rparr>"


end
