(* ===== verification/Sub_Batch.thy ===== *)
theory Sub_Batch
  imports Inference_Engine
begin

text \<open>
  \<^verbatim>\<open>src/lib/inference_engine.cpp\<close>, \<open>runSubBatch\<close> and the batch form of \<open>Run\<close>, as the protocol between
  the calling thread, which starts the jobs of a sub-batch and waits on a condition variable, and the
  callbacks of the jobs, which store their outputs, count and notify. The counter is atomic and the
  callbacks do not take the mutex of the condition variable, so each access is a step of its own.
\<close>

section \<open>The protocol\<close>

text \<open>
  The caller: starting job \<open>i\<close>; about to take the mutex and test the condition; after a failed test,
  before it is on the wait list; asleep; back from the call; left by an exception of \<open>runAsync\<close>.
\<close>

datatype batch_caller = Starting nat | Testing | Falling_asleep | Batch_asleep | Batch_returned | Batch_failed

text \<open>A job: not started; running; outputs stored; counted; about to notify; callback returned.\<close>

datatype batch_job = Job_idle | Job_running | Job_stored | Job_counted | Job_notifying | Job_over

record 'r sub_batch =
  sb_caller :: batch_caller
  sb_jobs :: "batch_job list"
  sb_complete_count :: nat
  sb_is_completed :: bool
  sb_result :: "'r option list"

text \<open>\<open>result.at(batch_index) = outputs\<close>; the exception of an index out of range is caught and logged.\<close>

definition store_result :: "nat \<Rightarrow> 'r \<Rightarrow> 'r option list \<Rightarrow> 'r option list" where
  "store_result k out rs = (if k < length rs then rs[k := Some out] else rs)"

definition sub_batch_new :: "nat \<Rightarrow> 'r option list \<Rightarrow> 'r sub_batch" where
  "sub_batch_new batchCount rs =
     \<lparr>sb_caller = Starting 0, sb_jobs = replicate batchCount Job_idle, sb_complete_count = 0,
      sb_is_completed = False, sb_result = rs\<rparr>"

text \<open>\<open>outs k\<close> are the outputs of the job of element \<open>k\<close> of the whole batch.\<close>

inductive sub_batch_step :: "nat \<Rightarrow> nat \<Rightarrow> (nat \<Rightarrow> 'r) \<Rightarrow> 'r sub_batch \<Rightarrow> 'r sub_batch \<Rightarrow> bool"
  for batchCount startIndex outs where
  sb_start: "sb_caller s = Starting i \<Longrightarrow> i < batchCount \<Longrightarrow>
    sub_batch_step batchCount startIndex outs s (s\<lparr>sb_caller := Starting (i + 1), sb_jobs := (sb_jobs s)[i := Job_running]\<rparr>)"
| sb_throw: "sb_caller s = Starting i \<Longrightarrow> i < batchCount \<Longrightarrow>
    sub_batch_step batchCount startIndex outs s (s\<lparr>sb_caller := Batch_failed\<rparr>)"
| sb_all_started: "sb_caller s = Starting batchCount \<Longrightarrow>
    sub_batch_step batchCount startIndex outs s (s\<lparr>sb_caller := Testing, sb_is_completed := True\<rparr>)"
| sb_test: "sb_caller s = Testing \<Longrightarrow>
    sub_batch_step batchCount startIndex outs s
      (s\<lparr>sb_caller := if sb_complete_count s = batchCount then Batch_returned else Falling_asleep\<rparr>)"
| sb_sleep: "sb_caller s = Falling_asleep \<Longrightarrow>
    sub_batch_step batchCount startIndex outs s (s\<lparr>sb_caller := Batch_asleep\<rparr>)"
| sb_spurious: "sb_caller s = Batch_asleep \<Longrightarrow>
    sub_batch_step batchCount startIndex outs s (s\<lparr>sb_caller := Testing\<rparr>)"
| sb_store: "i < length (sb_jobs s) \<Longrightarrow> sb_jobs s ! i = Job_running \<Longrightarrow>
    sub_batch_step batchCount startIndex outs s
      (s\<lparr>sb_jobs := (sb_jobs s)[i := Job_stored], sb_result := store_result (startIndex + i) (outs (startIndex + i)) (sb_result s)\<rparr>)"
| sb_count: "i < length (sb_jobs s) \<Longrightarrow> sb_jobs s ! i = Job_stored \<Longrightarrow>
    sub_batch_step batchCount startIndex outs s
      (s\<lparr>sb_jobs := (sb_jobs s)[i := Job_counted], sb_complete_count := sb_complete_count s + 1\<rparr>)"
| sb_check: "i < length (sb_jobs s) \<Longrightarrow> sb_jobs s ! i = Job_counted \<Longrightarrow>
    sub_batch_step batchCount startIndex outs s
      (s\<lparr>sb_jobs := (sb_jobs s)[i := if sb_complete_count s = batchCount \<and> sb_is_completed s then Job_notifying else Job_over]\<rparr>)"
| sb_notify: "i < length (sb_jobs s) \<Longrightarrow> sb_jobs s ! i = Job_notifying \<Longrightarrow>
    sub_batch_step batchCount startIndex outs s
      (s\<lparr>sb_jobs := (sb_jobs s)[i := Job_over],
         sb_caller := if sb_caller s = Batch_asleep then Testing else sb_caller s\<rparr>)"

inductive sub_batch_run :: "nat \<Rightarrow> nat \<Rightarrow> (nat \<Rightarrow> 'r) \<Rightarrow> 'r option list \<Rightarrow> 'r sub_batch \<Rightarrow> bool"
  for batchCount startIndex outs rs where
  sub_batch_run_start: "sub_batch_run batchCount startIndex outs rs (sub_batch_new batchCount rs)"
| sub_batch_run_step: "sub_batch_run batchCount startIndex outs rs s \<Longrightarrow> sub_batch_step batchCount startIndex outs s t \<Longrightarrow>
    sub_batch_run batchCount startIndex outs rs t"

text \<open>The sub-batches of a batch: start and number of elements.\<close>

definition sub_batches :: "nat \<Rightarrow> (nat \<times> nat) list" where
  "sub_batches batch_count =
     (let loops = batch_count div SUB_BATCH_MAX_COUNT; rest = batch_count mod SUB_BATCH_MAX_COUNT
      in map (\<lambda>i. (i * SUB_BATCH_MAX_COUNT, SUB_BATCH_MAX_COUNT)) [0..<loops]
         @ (if 0 < rest then [(loops * SUB_BATCH_MAX_COUNT, rest)] else []))"

text \<open>The loop of \<open>Run\<close> over them: each sub-batch starts from the results the one before left.\<close>

inductive batch_run :: "(nat \<Rightarrow> 'r) \<Rightarrow> (nat \<times> nat) list \<Rightarrow> 'r option list \<Rightarrow> 'r option list \<Rightarrow> bool" for outs where
  batch_done: "batch_run outs [] rs rs"
| batch_next: "sub_batch_run batchCount startIndex outs rs s \<Longrightarrow> sb_caller s = Batch_returned \<Longrightarrow>
    batch_run outs subs (sb_result s) rs' \<Longrightarrow> batch_run outs ((startIndex, batchCount) # subs) rs rs'"

section \<open>Results\<close>

fun stored :: "batch_job \<Rightarrow> bool" where
  "stored Job_idle = False" | "stored Job_running = False" | "stored _ = True"

fun counted :: "batch_job \<Rightarrow> bool" where
  "counted Job_idle = False" | "counted Job_running = False" | "counted Job_stored = False" | "counted _ = True"

definition sub_batch_ok :: "nat \<Rightarrow> nat \<Rightarrow> (nat \<Rightarrow> 'r) \<Rightarrow> 'r option list \<Rightarrow> 'r sub_batch \<Rightarrow> bool" where
  "sub_batch_ok batchCount startIndex outs rs s \<longleftrightarrow>
     length (sb_jobs s) = batchCount \<and> sb_complete_count s = length (filter counted (sb_jobs s)) \<and>
     length (sb_result s) = length rs \<and>
     (\<forall>k < length rs. sb_result s ! k =
        (if startIndex \<le> k \<and> k < startIndex + batchCount \<and> stored (sb_jobs s ! (k - startIndex)) then Some (outs k) else rs ! k)) \<and>
     (\<forall>i k. sb_caller s = Starting i \<longrightarrow> i \<le> k \<longrightarrow> k < batchCount \<longrightarrow> sb_jobs s ! k = Job_idle) \<and>
     (sb_caller s = Batch_returned \<longrightarrow> sb_complete_count s = batchCount)"

lemma sub_batch_new_ok: "sub_batch_ok n st outs rs (sub_batch_new n rs)"
  by (auto simp: sub_batch_ok_def sub_batch_new_def)

lemma counted_stored: "counted j \<Longrightarrow> stored j"
  by (cases j) auto

text \<open>Jobs that change their state without storing keep the results as they are.\<close>

lemma stored_update:
  assumes "i < length js" "stored x = stored (js ! i)"
  shows "k < length js \<Longrightarrow> stored (js[i := x] ! k) = stored (js ! k)"
  using assms by (simp add: nth_list_update)

lemma sub_batch_step_ok:
  assumes "sub_batch_step n st outs s t" "sub_batch_ok n st outs rs s"
  shows "sub_batch_ok n st outs rs t"
  using assms(1)
proof cases
  case (sb_start i)
  then have "i < length (sb_jobs s)" "sb_jobs s ! i = Job_idle" using assms(2) by (auto simp: sub_batch_ok_def)
  with sb_start assms(2) length_filter_update [of i "sb_jobs s" counted Job_running] stored_update [of i "sb_jobs s" Job_running]
  show ?thesis by (auto simp: sub_batch_ok_def)
next
  case sb_test
  with assms(2) show ?thesis by (auto simp: sub_batch_ok_def)
next
  case (sb_store i)
  with assms(2) length_filter_update [of i "sb_jobs s" counted Job_stored] show ?thesis
    by (auto simp: sub_batch_ok_def store_result_def nth_list_update split: if_splits)
next
  case (sb_count i)
  with assms(2) length_filter_update [of i "sb_jobs s" counted Job_counted]
    length_filter_le [of counted "(sb_jobs s)[i := Job_counted]"]
  show ?thesis by (auto simp: sub_batch_ok_def nth_list_update)
next
  case (sb_check i)
  let ?x = "if sb_complete_count s = n \<and> sb_is_completed s then Job_notifying else Job_over"
  have "counted ?x" "stored ?x" "?x \<noteq> Job_idle" by auto
  with sb_check assms(2) length_filter_update [of i "sb_jobs s" counted ?x] show ?thesis
    by (auto simp: sub_batch_ok_def nth_list_update simp del: if_split_asm)
next
  case (sb_notify i)
  with assms(2) length_filter_update [of i "sb_jobs s" counted Job_over] show ?thesis
    by (auto simp: sub_batch_ok_def nth_list_update)
qed (use assms(2) in \<open>auto simp: sub_batch_ok_def\<close>)

lemma sub_batch_run_ok: "sub_batch_run n st outs rs s \<Longrightarrow> sub_batch_ok n st outs rs s"
  by (induction rule: sub_batch_run.induct) (auto intro: sub_batch_new_ok sub_batch_step_ok)

text \<open>A sub-batch that returns has stored the outputs of its own elements and touched no other.\<close>

lemma sub_batch_returned:
  assumes "sub_batch_run n st outs rs s" "sb_caller s = Batch_returned" "k < length rs"
  shows "sb_result s ! k = (if st \<le> k \<and> k < st + n then Some (outs k) else rs ! k)"
    and "length (sb_result s) = length rs"
proof -
  have ok: "sub_batch_ok n st outs rs s" by (rule sub_batch_run_ok [OF assms(1)])
  with assms(2) have "length (filter counted (sb_jobs s)) = length (sb_jobs s)" by (simp add: sub_batch_ok_def)
  from length_filter_all [OF this] have "stored (sb_jobs s ! i)" if "i < n" for i
    using that ok by (auto simp: sub_batch_ok_def intro: counted_stored)
  then show "sb_result s ! k = (if st \<le> k \<and> k < st + n then Some (outs k) else rs ! k)"
    using ok assms(3) by (auto simp: sub_batch_ok_def)
  show "length (sb_result s) = length rs" using ok by (simp add: sub_batch_ok_def)
qed

lemma batch_run_result:
  assumes "batch_run outs subs rs rs'" "k < length rs"
  shows "rs' ! k = (if \<exists>(st, n) \<in> set subs. st \<le> k \<and> k < st + n then Some (outs k) else rs ! k) \<and> length rs' = length rs"
  using assms
proof (induction rule: batch_run.induct)
  case (batch_next n st rs s subs rs')
  with sub_batch_returned [of n st outs rs s k] show ?case by auto
qed simp

text \<open>The sub-batches cover the batch.\<close>

lemma blocks_cover:
  fixes b :: nat
  assumes "0 < b"
  shows "(\<exists>i < q. i * b \<le> k \<and> k < i * b + b) \<longleftrightarrow> k < q * b"
proof
  assume "k < q * b"
  then have "k div b < q" by (simp add: less_mult_imp_div_less)
  moreover have "k div b * b \<le> k" by simp
  moreover have "k < k div b * b + b" using assms by (metis div_mult_mod_eq mod_less_divisor nat_add_left_cancel_less)
  ultimately show "\<exists>i < q. i * b \<le> k \<and> k < i * b + b" by blast
next
  assume "\<exists>i < q. i * b \<le> k \<and> k < i * b + b"
  then obtain i where "i < q" "k < i * b + b" by blast
  moreover from \<open>i < q\<close> have "i * b + b \<le> q * b" by (metis Suc_leI add.commute mult_Suc mult_le_mono1)
  ultimately show "k < q * b" by simp
qed

lemma sub_batches_cover: "(\<exists>(st, n) \<in> set (sub_batches m). st \<le> k \<and> k < st + n) \<longleftrightarrow> k < m"
proof -
  define q r where "q = m div SUB_BATCH_MAX_COUNT" and "r = m mod SUB_BATCH_MAX_COUNT"
  have "(\<exists>(st, n) \<in> set (sub_batches m). st \<le> k \<and> k < st + n) \<longleftrightarrow>
      (\<exists>i < q. i * SUB_BATCH_MAX_COUNT \<le> k \<and> k < i * SUB_BATCH_MAX_COUNT + SUB_BATCH_MAX_COUNT) \<or>
      0 < r \<and> q * SUB_BATCH_MAX_COUNT \<le> k \<and> k < q * SUB_BATCH_MAX_COUNT + r"
    by (auto simp: sub_batches_def Let_def q_def r_def)
  also have "\<dots> \<longleftrightarrow> k < q * SUB_BATCH_MAX_COUNT + r"
    using blocks_cover [of SUB_BATCH_MAX_COUNT q k] by (auto simp: SUB_BATCH_MAX_COUNT_def)
  also have "q * SUB_BATCH_MAX_COUNT + r = m" by (simp add: q_def r_def)
  finally show ?thesis .
qed

lemma batch_calls_sub_batches:
  "batch_calls ins outs args = concat (map (\<lambda>(st, n). runSubBatch ins outs args n st) (sub_batches (length ins)))"
  by (simp add: batch_calls_def sub_batches_def Let_def comp_def)

text \<open>
  Claim C34. When \<open>Run\<close> on a batch comes back without an exception of a sub-batch, the outputs of
  every element stand at its index of the result, for every number of elements and every
  interleaving of the callbacks with the caller and with each other.
\<close>
theorem batch_results_complete:
  assumes "batch_run outs (sub_batches n) (replicate n None) rs"
  shows "rs = map (\<lambda>k. Some (outs k)) [0..<n]"
proof (rule nth_equalityI)
  have len: "length rs = n"
  proof (cases n)
    case 0
    with assms show ?thesis by (auto simp: sub_batches_def elim: batch_run.cases)
  next
    case (Suc m)
    with batch_run_result [OF assms, of 0] show ?thesis by simp
  qed
  then show "length rs = length (map (\<lambda>k. Some (outs k)) [0..<n])" by simp
  fix k assume "k < length rs"
  with len have "k < n" by simp
  with batch_run_result [OF assms, of k] sub_batches_cover [of n k] show "rs ! k = map (\<lambda>k. Some (outs k)) [0..<n] ! k" by simp
qed

section \<open>Runs of one element\<close>

definition one_element :: "batch_caller \<Rightarrow> batch_job \<Rightarrow> nat \<Rightarrow> bool \<Rightarrow> 'r option \<Rightarrow> 'r sub_batch" where
  "one_element c j n f r = \<lparr>sb_caller = c, sb_jobs = [j], sb_complete_count = n, sb_is_completed = f, sb_result = [r]\<rparr>"

lemma one_element_started: "sub_batch_run 1 0 outs [None] (one_element Testing Job_running 0 True None)"
proof -
  have "sub_batch_run 1 0 outs [None] (one_element (Starting 0) Job_idle 0 False None)"
    using sub_batch_run_start [of 1 0 outs "[None]"] by (simp add: sub_batch_new_def one_element_def)
  from sub_batch_run_step [OF this sub_batch_step.sb_start [of _ 0]]
  have "sub_batch_run 1 0 outs [None] (one_element (Starting 1) Job_running 0 False None)" by (simp add: one_element_def)
  from sub_batch_run_step [OF this sub_batch_step.sb_all_started] show ?thesis by (simp add: one_element_def)
qed

lemma one_element_counts:
  assumes "sub_batch_run 1 0 outs [None] (one_element c Job_running 0 True None)"
  shows "sub_batch_run 1 0 outs [None] (one_element c Job_counted 1 True (Some (outs 0)))"
proof -
  from sub_batch_run_step [OF assms sub_batch_step.sb_store [of 0]]
  have "sub_batch_run 1 0 outs [None] (one_element c Job_stored 0 True (Some (outs 0)))" by (simp add: one_element_def store_result_def)
  from sub_batch_run_step [OF this sub_batch_step.sb_count [of 0]] show ?thesis by (simp add: one_element_def)
qed

text \<open>
  The caller can return while the callback of the last job still has to read the counter, the flag and
  the condition variable, which are locals of the call.
\<close>

lemma callback_outlives_call:
  "sub_batch_run 1 0 outs [None] (one_element Batch_returned Job_counted 1 True (Some (outs 0)))"
  using sub_batch_run_step [OF one_element_counts [OF one_element_started] sub_batch_step.sb_test]
  by (simp add: one_element_def)

theorem batch_results_complete_witness:
  "batch_run (\<lambda>_. 7 :: nat) (sub_batches 1) (replicate 1 None) [Some 7] \<and> [Some 7] = map (\<lambda>k. Some ((\<lambda>_. 7 :: nat) k)) [0..<1]"
proof -
  have "sub_batches 1 = [(0, 1)]" by code_simp
  with batch_next [OF callback_outlives_call [of "\<lambda>_. 7 :: nat"], of "[]" "[Some 7]"] batch_done [of "\<lambda>_. 7 :: nat" "[Some 7]"]
  have run: "batch_run (\<lambda>_. 7 :: nat) (sub_batches 1) (replicate 1 None) [Some 7]" by (simp add: one_element_def)
  from batch_results_complete [OF run] run show ?thesis by blast
qed

text \<open>
  A wake-up can be lost. The callback counts and notifies without the mutex of the condition variable,
  so it can do both between the test of the condition and the sleep of the caller. The caller then
  sleeps although all jobs are over, and only a spurious wake-up lets it go on.
\<close>

lemma batch_wakeup_lost:
  "\<exists>s. sub_batch_run 1 0 outs [None] s \<and> sb_caller s = Batch_asleep \<and> sb_complete_count s = 1 \<and>
     (\<forall>t. sub_batch_step 1 0 outs s t \<longrightarrow> t = s\<lparr>sb_caller := Testing\<rparr>)"
proof -
  let ?s = "one_element Batch_asleep Job_over 1 True (Some (outs 0))"
  from sub_batch_run_step [OF one_element_started sub_batch_step.sb_test]
  have "sub_batch_run 1 0 outs [None] (one_element Falling_asleep Job_running 0 True None)" by (simp add: one_element_def)
  from sub_batch_run_step [OF one_element_counts [OF this] sub_batch_step.sb_check [of 0]]
  have "sub_batch_run 1 0 outs [None] (one_element Falling_asleep Job_notifying 1 True (Some (outs 0)))" by (simp add: one_element_def)
  from sub_batch_run_step [OF this sub_batch_step.sb_notify [of 0]]
  have "sub_batch_run 1 0 outs [None] (one_element Falling_asleep Job_over 1 True (Some (outs 0)))" by (simp add: one_element_def)
  from sub_batch_run_step [OF this sub_batch_step.sb_sleep] have "sub_batch_run 1 0 outs [None] ?s" by (simp add: one_element_def)
  moreover have "\<forall>t. sub_batch_step 1 0 outs ?s t \<longrightarrow> t = ?s\<lparr>sb_caller := Testing\<rparr>"
    by (auto simp: one_element_def elim!: sub_batch_step.cases)
  ultimately show ?thesis by (intro exI [of _ ?s]) (simp add: one_element_def)
qed

end
