(* ===== verification/Buffer_Pools.thy ===== *)
theory Buffer_Pools
  imports Prelude Task_Graph Memfd_Service "HOL-Library.Multiset"
begin

section \<open>Buffer pools\<close>

text \<open>
  The pools an inference draws its memory from: \<^verbatim>\<open>src/lib/fixed_size_buffer.cpp\<close> (host buffers of one
  task and one purpose), the buffers of a task in \<^verbatim>\<open>src/lib/task.cpp\<close>, and
  \<^verbatim>\<open>src/lib/npu_memory_cache.cpp\<close> (slices of a block of device memory). Every operation runs under the
  lock of its pool. A wait for a free element is its outcome: it is served, or it fails after the
  timeout (\<open>Buffer_timeout\<close>); the cache waits without a timeout, so there an empty pool is None. An address
  of 0 is \<^verbatim>\<open>nullptr\<close>. The variant is that without \<open>USE_VNPU\<close>.
\<close>

subsection \<open>Buffers of a fixed size\<close>

datatype pool_error = Buffer_timeout | Assertion_failed

record FixedSizeBuffer =
  fb_data :: "u64 list"
  fb_pointers :: "u64 list"
  fb_count :: int
  fb_size :: int

text \<open>\<open>memalign i\<close> is the address of the \<open>i\<close>-th allocation, None if it fails.\<close>

fun allocate_buffers :: "(nat \<Rightarrow> u64 option) \<Rightarrow> nat list \<Rightarrow> u64 list option" where
  "allocate_buffers memalign [] = Some []"
| "allocate_buffers memalign (i # is) =
     (case memalign i of None \<Rightarrow> None | Some p \<Rightarrow> map_option (\<lambda>ps. p # ps) (allocate_buffers memalign is))"

definition FixedSizeBuffer_new :: "(nat \<Rightarrow> u64 option) \<Rightarrow> int \<Rightarrow> int \<Rightarrow> pool_error + FixedSizeBuffer" where
  "FixedSizeBuffer_new memalign sz buffer_count =
     (case allocate_buffers memalign [0..<nat buffer_count] of
        None \<Rightarrow> Inl Assertion_failed
      | Some ps \<Rightarrow> Inr \<lparr>fb_data = ps, fb_pointers = ps, fb_count = buffer_count, fb_size = sz\<rparr>)"

definition getBuffer :: "FixedSizeBuffer \<Rightarrow> pool_error + u64 \<times> FixedSizeBuffer" where
  "getBuffer fb =
     (if fb_data fb = [] \<or> fb_count fb \<le> 0 then Inr (0, fb)
      else if fb_pointers fb = [] then Inl Buffer_timeout
      else Inr (last (fb_pointers fb), fb\<lparr>fb_pointers := butlast (fb_pointers fb)\<rparr>))"

definition releaseBuffer :: "u64 \<Rightarrow> FixedSizeBuffer \<Rightarrow> pool_error + FixedSizeBuffer" where
  "releaseBuffer ptr fb =
     (if ptr = 0 then Inr fb
      else if ptr \<notin> set (fb_data fb) then Inl Assertion_failed
      else if ptr \<in> set (fb_pointers fb) then Inr fb
      else Inr (fb\<lparr>fb_pointers := fb_pointers fb @ [ptr]\<rparr>))"

definition hasBuffer :: "FixedSizeBuffer \<Rightarrow> bool" where
  "hasBuffer fb \<longleftrightarrow> fb_pointers fb \<noteq> []"

subsection \<open>The buffers of a task\<close>

record task_buffers =
  tb_processor :: Processor
  tb_encodedInput :: "FixedSizeBuffer option"
  tb_output :: "FixedSizeBuffer option"
  tb_encodedOutput :: "FixedSizeBuffer option"

record BufferSet =
  bs_encoded_input :: u64
  bs_output :: u64
  bs_encoded_output :: u64

definition get_from :: "FixedSizeBuffer option \<Rightarrow> pool_error + u64 \<times> FixedSizeBuffer option" where
  "get_from p = (case p of None \<Rightarrow> Inr (0, None) | Some fb \<Rightarrow> (case getBuffer fb of Inl e \<Rightarrow> Inl e | Inr (a, fb1) \<Rightarrow> Inr (a, Some fb1)))"

definition release_to :: "u64 \<Rightarrow> FixedSizeBuffer option \<Rightarrow> pool_error + FixedSizeBuffer option" where
  "release_to a p = (case p of None \<Rightarrow> Inr None | Some fb \<Rightarrow> (case releaseBuffer a fb of Inl e \<Rightarrow> Inl e | Inr fb1 \<Rightarrow> Inr (Some fb1)))"

definition GetEncodedInputBuffer :: "task_buffers \<Rightarrow> pool_error + u64 \<times> task_buffers" where
  "GetEncodedInputBuffer tb =
     (if tb_processor tb \<noteq> NPU then Inr (0, tb)
      else case get_from (tb_encodedInput tb) of Inl e \<Rightarrow> Inl e | Inr (a, p) \<Rightarrow> Inr (a, tb\<lparr>tb_encodedInput := p\<rparr>))"

definition GetOutputBuffer :: "task_buffers \<Rightarrow> pool_error + u64 \<times> task_buffers" where
  "GetOutputBuffer tb = (case get_from (tb_output tb) of Inl e \<Rightarrow> Inl e | Inr (a, p) \<Rightarrow> Inr (a, tb\<lparr>tb_output := p\<rparr>))"

definition GetEncodedOutputBuffer :: "task_buffers \<Rightarrow> pool_error + u64 \<times> task_buffers" where
  "GetEncodedOutputBuffer tb =
     (if tb_processor tb \<noteq> NPU then Inr (0, tb)
      else case get_from (tb_encodedOutput tb) of Inl e \<Rightarrow> Inl e | Inr (a, p) \<Rightarrow> Inr (a, tb\<lparr>tb_encodedOutput := p\<rparr>))"

definition ReleaseEncodedInputBuffer :: "u64 \<Rightarrow> task_buffers \<Rightarrow> pool_error + task_buffers" where
  "ReleaseEncodedInputBuffer a tb =
     (if tb_processor tb \<noteq> NPU then Inr tb
      else case release_to a (tb_encodedInput tb) of Inl e \<Rightarrow> Inl e | Inr p \<Rightarrow> Inr (tb\<lparr>tb_encodedInput := p\<rparr>))"

definition ReleaseOutputBuffer :: "u64 \<Rightarrow> task_buffers \<Rightarrow> pool_error + task_buffers" where
  "ReleaseOutputBuffer a tb = (case release_to a (tb_output tb) of Inl e \<Rightarrow> Inl e | Inr p \<Rightarrow> Inr (tb\<lparr>tb_output := p\<rparr>))"

definition ReleaseEncodedOutputBuffer :: "u64 \<Rightarrow> task_buffers \<Rightarrow> pool_error + task_buffers" where
  "ReleaseEncodedOutputBuffer a tb =
     (if tb_processor tb \<noteq> NPU then Inr tb
      else case release_to a (tb_encodedOutput tb) of Inl e \<Rightarrow> Inl e | Inr p \<Rightarrow> Inr (tb\<lparr>tb_encodedOutput := p\<rparr>))"

definition ReleaseAllBuffers :: "BufferSet \<Rightarrow> task_buffers \<Rightarrow> pool_error + task_buffers" where
  "ReleaseAllBuffers bs tb =
     (case (if bs_encoded_output bs \<noteq> 0 then ReleaseEncodedOutputBuffer (bs_encoded_output bs) tb else Inr tb) of
        Inl e \<Rightarrow> Inl e
      | Inr tb1 \<Rightarrow>
          (case (if bs_output bs \<noteq> 0 then ReleaseOutputBuffer (bs_output bs) tb1 else Inr tb1) of
             Inl e \<Rightarrow> Inl e
           | Inr tb2 \<Rightarrow> (if bs_encoded_input bs \<noteq> 0 then ReleaseEncodedInputBuffer (bs_encoded_input bs) tb2 else Inr tb2)))"

text \<open>An exception of a get releases what was taken so far and is thrown on; so is one of the release.\<close>

definition roll_back :: "pool_error \<Rightarrow> BufferSet \<Rightarrow> task_buffers \<Rightarrow> (pool_error + BufferSet) \<times> task_buffers" where
  "roll_back e bs tb = (case ReleaseAllBuffers bs tb of Inl e1 \<Rightarrow> (Inl e1, tb) | Inr tb1 \<Rightarrow> (Inl e, tb1))"

definition AcquireAllBuffers :: "task_buffers \<Rightarrow> (pool_error + BufferSet) \<times> task_buffers" where
  "AcquireAllBuffers tb =
     (let none = \<lparr>bs_encoded_input = 0, bs_output = 0, bs_encoded_output = 0\<rparr> in
      case (if tb_processor tb = NPU then GetEncodedInputBuffer tb else Inr (0, tb)) of
        Inl e \<Rightarrow> roll_back e none tb
      | Inr (ei, tb1) \<Rightarrow>
          (let bs1 = none\<lparr>bs_encoded_input := ei\<rparr> in
           case GetOutputBuffer tb1 of
             Inl e \<Rightarrow> roll_back e bs1 tb1
           | Inr (ou, tb2) \<Rightarrow>
               (let bs2 = bs1\<lparr>bs_output := ou\<rparr> in
                case (if tb_processor tb2 = NPU then GetEncodedOutputBuffer tb2 else Inr (0, tb2)) of
                  Inl e \<Rightarrow> roll_back e bs2 tb2
                | Inr (eo, tb3) \<Rightarrow> (Inr (bs2\<lparr>bs_encoded_output := eo\<rparr>), tb3))))"

subsection \<open>The cache of device memory\<close>

record SharedMemoryView =
  vw_info :: SharedMemoryInfo
  vw_offset :: u64
  vw_size :: u64

definition deviceAddress :: "SharedMemoryView \<Rightarrow> u64" where
  "deviceAddress v = phys_addr (vw_info v) + vw_offset v"

definition view_isValid :: "SharedMemoryView \<Rightarrow> bool" where
  "view_isValid v \<longleftrightarrow> 0 < vw_size v \<and> vw_offset v \<le> si_size (vw_info v) \<and> vw_size v \<le> si_size (vw_info v) - vw_offset v"

record TaskNpuMemoryCacheManager =
  tc_npuMemoryCaches :: "SharedMemoryView list"
  tc_npuMemoryInfo :: SharedMemoryInfo

definition TaskNpuMemoryCacheManager_new :: "int \<Rightarrow> int \<Rightarrow> SharedMemoryInfo \<Rightarrow> TaskNpuMemoryCacheManager" where
  "TaskNpuMemoryCacheManager_new sz cnt info =
     \<lparr>tc_npuMemoryCaches = map (\<lambda>i. \<lparr>vw_info = info, vw_offset = word_of_int (sz * int i), vw_size = word_of_int sz\<rparr>) [0..<nat cnt],
      tc_npuMemoryInfo = info\<rparr>"

definition task_getNpuMemoryCache :: "TaskNpuMemoryCacheManager \<Rightarrow> (SharedMemoryView \<times> TaskNpuMemoryCacheManager) option" where
  "task_getNpuMemoryCache tc =
     (if tc_npuMemoryCaches tc = [] then None
      else Some (last (tc_npuMemoryCaches tc), tc\<lparr>tc_npuMemoryCaches := butlast (tc_npuMemoryCaches tc)\<rparr>))"

definition task_returnNpuMemoryCache :: "SharedMemoryView \<Rightarrow> TaskNpuMemoryCacheManager \<Rightarrow> TaskNpuMemoryCacheManager" where
  "task_returnNpuMemoryCache v tc = tc\<lparr>tc_npuMemoryCaches := tc_npuMemoryCaches tc @ [v]\<rparr>"

text \<open>
  The caches of a device by task. \<open>nc_freed\<close> records the blocks handed back with \<open>DeallocateInfo\<close>; the
  block that \<open>AllocateInfo\<close> returns is the argument \<open>info\<close>.
\<close>

record NpuMemoryCacheManager =
  nc_taskNpuMemoryCaches :: "(int \<times> TaskNpuMemoryCacheManager) list"
  nc_freed :: "SharedMemoryInfo list"

definition registerMemoryCache :: "SharedMemoryInfo \<Rightarrow> int \<Rightarrow> int \<Rightarrow> int \<Rightarrow> NpuMemoryCacheManager \<Rightarrow> bool \<times> NpuMemoryCacheManager" where
  "registerMemoryCache info taskId sz cnt nc =
     (if 0 \<le> si_fd info \<or> 0 \<le> si_block_id info then
        (True, case map_of (nc_taskNpuMemoryCaches nc) taskId of
                 None \<Rightarrow> nc\<lparr>nc_taskNpuMemoryCaches := (taskId, TaskNpuMemoryCacheManager_new sz cnt info) # nc_taskNpuMemoryCaches nc\<rparr>
               | Some tc \<Rightarrow> nc)
      else (False, nc))"

definition unRegisterMemoryCache :: "int \<Rightarrow> NpuMemoryCacheManager \<Rightarrow> NpuMemoryCacheManager" where
  "unRegisterMemoryCache taskId nc =
     (case map_of (nc_taskNpuMemoryCaches nc) taskId of
        None \<Rightarrow> nc
      | Some tc \<Rightarrow> nc\<lparr>nc_taskNpuMemoryCaches := AList.delete taskId (nc_taskNpuMemoryCaches nc),
                      nc_freed := nc_freed nc @ [tc_npuMemoryInfo tc]\<rparr>)"

definition canGetCache :: "int \<Rightarrow> NpuMemoryCacheManager \<Rightarrow> bool" where
  "canGetCache taskId nc \<longleftrightarrow> map_of (nc_taskNpuMemoryCaches nc) taskId \<noteq> None"

datatype cache_get = Empty_slice | Blocked | Slice SharedMemoryView NpuMemoryCacheManager

definition getNpuMemoryCache :: "int \<Rightarrow> NpuMemoryCacheManager \<Rightarrow> cache_get" where
  "getNpuMemoryCache taskId nc =
     (case map_of (nc_taskNpuMemoryCaches nc) taskId of
        None \<Rightarrow> Empty_slice
      | Some tc \<Rightarrow>
          (case task_getNpuMemoryCache tc of
             None \<Rightarrow> Blocked
           | Some (v, tc1) \<Rightarrow> Slice v (nc\<lparr>nc_taskNpuMemoryCaches := AList.update taskId tc1 (nc_taskNpuMemoryCaches nc)\<rparr>)))"

definition getBackingInfo :: "int \<Rightarrow> NpuMemoryCacheManager \<Rightarrow> SharedMemoryInfo option" where
  "getBackingInfo taskId nc = map_option tc_npuMemoryInfo (map_of (nc_taskNpuMemoryCaches nc) taskId)"

definition returnNpuMemoryCache :: "int \<Rightarrow> SharedMemoryView \<Rightarrow> NpuMemoryCacheManager \<Rightarrow> NpuMemoryCacheManager" where
  "returnNpuMemoryCache taskId v nc =
     (case map_of (nc_taskNpuMemoryCaches nc) taskId of
        None \<Rightarrow> nc
      | Some tc \<Rightarrow> nc\<lparr>nc_taskNpuMemoryCaches := AList.update taskId (task_returnNpuMemoryCache v tc) (nc_taskNpuMemoryCaches nc)\<rparr>)"

end
