(* ===== verification/Buffer_Pools_Correct.thy ===== *)
theory Buffer_Pools_Correct
  imports Buffer_Pools
begin

section \<open>Correctness of the buffer pools\<close>

text \<open>
  The contract of a pool of tokens, as a locale with the clients that take and give back tokens, and
  its two instances, the buffers of a fixed size and the slices of device memory; the all-or-nothing
  acquisition of the buffers of a task; and the jobs that compete for the buffers of their tasks.
\<close>

subsection \<open>The interface of a pool\<close>

datatype 't pool_event = Take | Give 't

text \<open>Clients that give back only what they hold; \<open>held\<close> are the tokens out at the clients.\<close>

fun pool_run :: "('s \<Rightarrow> ('t \<times> 's) option) \<Rightarrow> ('t \<Rightarrow> 's \<Rightarrow> 's) \<Rightarrow> 't pool_event list \<Rightarrow> 's \<times> 't list \<Rightarrow> 's \<times> 't list" where
  "pool_run acq rel [] c = c"
| "pool_run acq rel (Take # es) (s, held) =
     (case acq s of None \<Rightarrow> pool_run acq rel es (s, held) | Some (t, s1) \<Rightarrow> pool_run acq rel es (s1, held @ [t]))"
| "pool_run acq rel (Give t # es) (s, held) =
     (if t \<in> set held then pool_run acq rel es (rel t s, remove1 t held) else pool_run acq rel es (s, held))"

locale token_pool =
  fixes ok :: "'s \<Rightarrow> bool" and valid :: "'s \<Rightarrow> 't \<Rightarrow> bool" and free :: "'s \<Rightarrow> 't list"
    and acquire :: "'s \<Rightarrow> ('t \<times> 's) option" and release :: "'t \<Rightarrow> 's \<Rightarrow> 's"
  assumes acquire_Some: "ok s \<Longrightarrow> acquire s = Some (t, s1) \<Longrightarrow> ok s1 \<and> valid s1 = valid s \<and> free s = free s1 @ [t]"
    and acquire_None: "ok s \<Longrightarrow> acquire s = None \<longleftrightarrow> free s = []"
    and release: "ok s \<Longrightarrow> valid s t \<Longrightarrow> t \<notin> set (free s) \<Longrightarrow>
      ok (release t s) \<and> valid (release t s) = valid s \<and> free (release t s) = free s @ [t]"
    and free_valid: "ok s \<Longrightarrow> t \<in> set (free s) \<Longrightarrow> valid s t"
begin

definition sound :: "'t list \<Rightarrow> 's \<times> 't list \<Rightarrow> bool" where
  "sound toks c \<longleftrightarrow> ok (fst c) \<and> (\<forall>t \<in> set (snd c). valid (fst c) t) \<and> mset (free (fst c)) + mset (snd c) = mset toks"

lemma sound_disjoint:
  assumes "sound toks (s, held)" "distinct toks"
  shows "distinct held" "set held \<inter> set (free s) = {}" "set held \<subseteq> set toks"
proof -
  have m: "mset (free s @ held) = mset toks" using assms(1) by (simp add: sound_def)
  then have "distinct (free s @ held)" using assms(2) by (metis mset_eq_imp_distinct_iff)
  then show "distinct held" "set held \<inter> set (free s) = {}" by auto
  show "set held \<subseteq> set toks" using mset_eq_setD [OF m] by auto
qed

lemma take_sound:
  assumes "sound toks (s, held)" "acquire s = Some (t, s1)"
  shows "sound toks (s1, held @ [t])"
proof -
  have "ok s" "mset (free s) + mset held = mset toks" "\<forall>t \<in> set held. valid s t" using assms(1) by (auto simp: sound_def)
  moreover from this(1) have "ok s1 \<and> valid s1 = valid s \<and> free s = free s1 @ [t]" using acquire_Some assms(2) by blast
  ultimately show ?thesis using free_valid [of s t] by (auto simp: sound_def)
qed

lemma give_sound:
  assumes "sound toks (s, held)" "distinct toks" "t \<in> set held"
  shows "sound toks (release t s, remove1 t held)"
proof -
  have s: "ok s" "valid s t" "mset (free s) + mset held = mset toks" using assms(1,3) by (auto simp: sound_def)
  have "t \<notin> set (free s)" using sound_disjoint(2) [OF assms(1,2)] assms(3) by auto
  note r = release [OF s(1,2) this]
  have "mset held = add_mset t (mset (remove1 t held))" using assms(3) by simp
  then have "mset (free s) + add_mset t (mset (remove1 t held)) = mset toks" using s(3) by metis
  then have "mset (free (release t s)) + mset (remove1 t held) = mset toks" using r by simp
  moreover have "\<forall>x \<in> set (remove1 t held). valid s x" using assms(1) by (auto simp: sound_def dest: notin_set_remove1)
  ultimately show ?thesis using r by (simp add: sound_def)
qed

lemma run_sound:
  assumes "sound toks c" "distinct toks"
  shows "sound toks (pool_run acquire release es c)"
  using assms(1)
proof (induction es arbitrary: c)
  case (Cons e es)
  obtain s held where c: "c = (s, held)" by fastforce
  show ?case
  proof (cases e)
    case Take
    with Cons c take_sound show ?thesis by (cases "acquire s") auto
  next
    case (Give t)
    with Cons c give_sound [OF _ assms(2)] show ?thesis by auto
  qed
qed simp

text \<open>A token is out at one client at most, and a client is served exactly while tokens are left.\<close>

lemma run_exclusive:
  assumes "ok s" "distinct (free s)"
  shows "case pool_run acquire release es (s, []) of (s1, held) \<Rightarrow>
    distinct held \<and> set held \<subseteq> set (free s) \<and> set held \<inter> set (free s1) = {} \<and> (acquire s1 = None \<longleftrightarrow> length held = length (free s))"
proof -
  obtain s1 held where r: "pool_run acquire release es (s, []) = (s1, held)" by fastforce
  have "sound (free s) (s, [])" using assms(1) by (simp add: sound_def)
  from run_sound [OF this assms(2), of es] have snd: "sound (free s) (s1, held)" by (simp add: r)
  then have "ok s1" "length (free s1) + length held = length (free s)"
    by (auto simp: sound_def) (metis size_mset size_union)
  then have "acquire s1 = None \<longleftrightarrow> length held = length (free s)" using acquire_None by auto
  with sound_disjoint [OF snd assms(2)] show ?thesis by (simp add: r)
qed

end

subsection \<open>Buffers of a fixed size\<close>

definition fb_ok :: "FixedSizeBuffer \<Rightarrow> bool" where
  "fb_ok fb \<longleftrightarrow> fb_data fb \<noteq> [] \<and> 0 < fb_count fb \<and> 0 \<notin> set (fb_data fb) \<and> set (fb_pointers fb) \<subseteq> set (fb_data fb)"

definition take_buffer :: "FixedSizeBuffer \<Rightarrow> (u64 \<times> FixedSizeBuffer) option" where
  "take_buffer fb = (case getBuffer fb of Inl e \<Rightarrow> None | Inr r \<Rightarrow> Some r)"

definition give_buffer :: "u64 \<Rightarrow> FixedSizeBuffer \<Rightarrow> FixedSizeBuffer" where
  "give_buffer a fb = (case releaseBuffer a fb of Inl e \<Rightarrow> fb | Inr fb1 \<Rightarrow> fb1)"

interpretation buffers: token_pool fb_ok "\<lambda>fb a. a \<in> set (fb_data fb)" fb_pointers take_buffer give_buffer
proof
  fix fb fb1 a
  assume ok: "fb_ok fb"
  show "take_buffer fb = Some (a, fb1) \<Longrightarrow> fb_ok fb1 \<and> (\<lambda>x. x \<in> set (fb_data fb1)) = (\<lambda>x. x \<in> set (fb_data fb)) \<and> fb_pointers fb = fb_pointers fb1 @ [a]"
    using ok by (auto simp: take_buffer_def getBuffer_def fb_ok_def split: if_splits dest!: in_set_butlastD)
  show "take_buffer fb = None \<longleftrightarrow> fb_pointers fb = []" using ok by (simp add: take_buffer_def getBuffer_def fb_ok_def)
  show "a \<in> set (fb_data fb) \<Longrightarrow> a \<notin> set (fb_pointers fb) \<Longrightarrow> fb_ok (give_buffer a fb)
    \<and> (\<lambda>x. x \<in> set (fb_data (give_buffer a fb))) = (\<lambda>x. x \<in> set (fb_data fb)) \<and> fb_pointers (give_buffer a fb) = fb_pointers fb @ [a]"
    using ok by (auto simp: give_buffer_def releaseBuffer_def fb_ok_def)
  show "a \<in> set (fb_pointers fb) \<Longrightarrow> a \<in> set (fb_data fb)" using ok by (auto simp: fb_ok_def)
qed

text \<open>
  The buffers of a pool are exclusive: in every run in which buffers are taken and given back by their
  holders, no buffer is out twice, no buffer that is out is in the pool, and \<open>getBuffer\<close> fails (after its timeout)
  exactly when all buffers are out.
\<close>
theorem buffer_pool_exclusive:
  assumes "FixedSizeBuffer_new memalign sz n = Inr fb" "0 < n" "distinct (fb_data fb)" "0 \<notin> set (fb_data fb)"
  shows "case pool_run take_buffer give_buffer es (fb, []) of (fb1, held) \<Rightarrow>
    distinct held \<and> set held \<subseteq> set (fb_data fb) \<and> set held \<inter> set (fb_pointers fb1) = {}
    \<and> (getBuffer fb1 = Inl Buffer_timeout \<longleftrightarrow> int (length held) = n)"
proof -
  have len: "length ps = length is" if "allocate_buffers memalign is = Some ps" for "is" ps
    using that by (induction "is" arbitrary: ps) (auto split: option.splits)
  have fb: "fb_pointers fb = fb_data fb" "int (length (fb_data fb)) = n" "fb_count fb = n"
    using assms(1,2) len by (auto simp: FixedSizeBuffer_new_def split: option.splits)
  then have "fb_ok fb" using assms(2,4) by (auto simp: fb_ok_def)
  from buffers.run_exclusive [OF this] assms(3) fb
  have "case pool_run take_buffer give_buffer es (fb, []) of (fb1, held) \<Rightarrow>
    distinct held \<and> set held \<subseteq> set (fb_data fb) \<and> set held \<inter> set (fb_pointers fb1) = {} \<and> (take_buffer fb1 = None \<longleftrightarrow> length held = length (fb_data fb))"
    by simp
  moreover have "take_buffer fb1 = None \<longleftrightarrow> getBuffer fb1 = Inl Buffer_timeout" for fb1
    by (auto simp: take_buffer_def getBuffer_def)
  ultimately show ?thesis using fb(2) by auto
qed

subsection \<open>Slices of device memory\<close>

interpretation slices: token_pool "\<lambda>_. True" "\<lambda>_ _. True" tc_npuMemoryCaches task_getNpuMemoryCache task_returnNpuMemoryCache
  by unfold_locales (auto simp: task_getNpuMemoryCache_def task_returnNpuMemoryCache_def split: if_splits)

definition slice_range :: "SharedMemoryView \<Rightarrow> nat set" where
  "slice_range v = {unat (vw_offset v)..<unat (vw_offset v) + unat (vw_size v)}"

text \<open>The slices of a block that is large enough are valid, distinct and apart from each other.\<close>

lemma new_slices:
  assumes "0 < sz" "0 \<le> n" "sz * n \<le> uint (si_size info)"
  shows "distinct (tc_npuMemoryCaches (TaskNpuMemoryCacheManager_new sz n info))"
    "length (tc_npuMemoryCaches (TaskNpuMemoryCacheManager_new sz n info)) = nat n"
    "\<And>v. v \<in> set (tc_npuMemoryCaches (TaskNpuMemoryCacheManager_new sz n info)) \<Longrightarrow> vw_info v = info \<and> view_isValid v \<and> uint (vw_size v) = sz"
    "\<And>v w. v \<in> set (tc_npuMemoryCaches (TaskNpuMemoryCacheManager_new sz n info)) \<Longrightarrow>
      w \<in> set (tc_npuMemoryCaches (TaskNpuMemoryCacheManager_new sz n info)) \<Longrightarrow> v \<noteq> w \<Longrightarrow> slice_range v \<inter> slice_range w = {}"
proof -
  define slice where "slice i = \<lparr>vw_info = info, vw_offset = word_of_int (sz * int i), vw_size = word_of_int sz :: u64\<rparr>" for i
  have fit: "sz * int i + sz \<le> uint (si_size info)" if "i < nat n" for i
  proof -
    have "sz * (int i + 1) \<le> sz * n" using that assms(1) by (intro mult_left_mono) auto
    then show ?thesis using assms(3) by (simp add: algebra_simps)
  qed
  have off: "uint (vw_offset (slice i)) = sz * int i" "uint (vw_size (slice i)) = sz" if "i < nat n" for i
  proof -
    have "sz * int i + sz < 2 ^ 64" using fit [OF that] uint_lt2p [of "si_size info"] by simp
    moreover have "0 \<le> sz * int i" using assms(1) by simp
    ultimately have "0 \<le> sz * int i \<and> sz * int i < 2 ^ 64" "0 \<le> sz \<and> sz < 2 ^ 64" using assms(1) by linarith+
    then show "uint (vw_offset (slice i)) = sz * int i" "uint (vw_size (slice i)) = sz"
      unfolding slice_def SharedMemoryView.select_convs by (simp_all only: uint_word_of_int) simp_all
  qed
  have valid: "view_isValid (slice i)" if "i < nat n" for i
  proof -
    have "uint (si_size info - vw_offset (slice i)) = uint (si_size info) - sz * int i"
      using fit [OF that] off(1) [OF that] assms(1) by (simp add: uint_sub_if' uint_sub_lem)
    then show ?thesis using fit [OF that] off [OF that] assms(1) by (simp add: view_isValid_def word_less_def word_le_def) (simp add: slice_def)
  qed
  have range: "slice_range (slice i) = {nat (sz * int i)..<nat (sz * int i) + nat sz}" if "i < nat n" for i
    using off [OF that] by (simp add: slice_range_def unat_eq_nat_uint)
  have apart: "slice_range (slice i) \<inter> slice_range (slice k) = {}" if "i < k" "k < nat n" for i k
  proof -
    have "sz * (int i + 1) \<le> sz * int k" using that(1) assms(1) by (intro mult_left_mono) auto
    then have "nat (sz * int i) + nat sz \<le> nat (sz * int k)" using assms(1) by (simp add: algebra_simps flip: nat_add_distrib)
    then show ?thesis using range that by auto
  qed
  have free: "tc_npuMemoryCaches (TaskNpuMemoryCacheManager_new sz n info) = map slice [0..<nat n]"
    by (simp add: TaskNpuMemoryCacheManager_new_def slice_def)
  have "inj_on slice {0..<nat n}"
  proof (rule inj_onI)
    fix i k assume "i \<in> {0..<nat n}" "k \<in> {0..<nat n}" "slice i = slice k"
    then have "sz * int i = sz * int k" using off(1) by (metis atLeastLessThan_iff)
    then show "i = k" using assms(1) by simp
  qed
  then show "distinct (tc_npuMemoryCaches (TaskNpuMemoryCacheManager_new sz n info))" unfolding free by (simp add: distinct_map)
  show "length (tc_npuMemoryCaches (TaskNpuMemoryCacheManager_new sz n info)) = nat n" by (simp add: free)
  show "vw_info v = info \<and> view_isValid v \<and> uint (vw_size v) = sz"
    if "v \<in> set (tc_npuMemoryCaches (TaskNpuMemoryCacheManager_new sz n info))" for v
    using that valid off(2) unfolding free by (auto simp: slice_def)
  show "slice_range v \<inter> slice_range w = {}" if v: "v \<in> set (tc_npuMemoryCaches (TaskNpuMemoryCacheManager_new sz n info))"
    and w: "w \<in> set (tc_npuMemoryCaches (TaskNpuMemoryCacheManager_new sz n info))" and ne: "v \<noteq> w" for v w
  proof -
    obtain a b where ab: "v = slice a" "w = slice b" "a < nat n" "b < nat n" using v w unfolding free by auto
    then have "a < b \<or> b < a" using ne by (metis linorder_neqE_nat)
    then show ?thesis using apart [of a b] apart [of b a] ab by (metis inf_commute)
  qed
qed

text \<open>
  A block of device memory of at least \<open>sz * n\<close> bytes is cut into \<open>n\<close> slices. In every run in which slices
  are taken and returned by their holders, the slices that are out are valid views inside the block and no two of
  them overlap, and a request waits exactly when all \<open>n\<close> are out.
\<close>
theorem cache_slices_disjoint:
  assumes "0 < sz" "0 \<le> n" "sz * n \<le> uint (si_size info)"
  shows "case pool_run task_getNpuMemoryCache task_returnNpuMemoryCache es (TaskNpuMemoryCacheManager_new sz n info, []) of (tc, held) \<Rightarrow>
    (\<forall>v \<in> set held. vw_info v = info \<and> view_isValid v)
    \<and> (\<forall>i < length held. \<forall>k < length held. i \<noteq> k \<longrightarrow> slice_range (held ! i) \<inter> slice_range (held ! k) = {})
    \<and> (task_getNpuMemoryCache tc = None \<longleftrightarrow> int (length held) = n)"
proof -
  let ?tc = "TaskNpuMemoryCacheManager_new sz n info"
  note new = new_slices [OF assms]
  obtain tc held where r: "pool_run task_getNpuMemoryCache task_returnNpuMemoryCache es (?tc, []) = (tc, held)"
    "distinct held" "set held \<subseteq> set (tc_npuMemoryCaches ?tc)" "task_getNpuMemoryCache tc = None \<longleftrightarrow> length held = nat n"
    using slices.run_exclusive [of ?tc es] new(1,2) by (auto split: prod.splits)
  have "slice_range (held ! i) \<inter> slice_range (held ! k) = {}" if "i < length held" "k < length held" "i \<noteq> k" for i k
    using new(4) [of "held ! i" "held ! k"] r(2,3) that nth_mem [of i held] nth_mem [of k held] by (simp add: nth_eq_iff_index_eq subset_iff)
  then show ?thesis using r new(3) assms(2) by auto
qed

definition demo_block :: SharedMemoryInfo where
  "demo_block = \<lparr>si_block_id = 1, si_size = 300, si_ptr = 0, si_phys_addr_base = 0, si_phys_addr_offset = 4096, si_deviceid = 0, si_taskId = 5,
     si_pid = 7, si_fd = 3\<rparr>"

text \<open>
  The cache does not notice a slice that is returned twice: it hands it out twice. (A buffer of a fixed size that
  is released twice is ignored the second time.)
\<close>

lemma double_return_duplicates:
  "\<exists>tc2 tc3. task_getNpuMemoryCache (task_returnNpuMemoryCache v (task_returnNpuMemoryCache v tc)) = Some (v, tc2)
     \<and> task_getNpuMemoryCache tc2 = Some (v, tc3)"
  by (auto simp: task_getNpuMemoryCache_def task_returnNpuMemoryCache_def butlast_append)

text \<open>A second registration of a task reports success and drops the block it allocated.\<close>

lemma second_registration_leaks:
  assumes "canGetCache taskId nc" "0 \<le> si_fd info"
  shows "registerMemoryCache info taskId sz cnt nc = (True, nc)"
  using assms by (auto simp: canGetCache_def registerMemoryCache_def)

subsection \<open>The buffers of a task\<close>

text \<open>The pool \<open>fb\<close> has \<open>n\<close> buffers, of which the addresses \<open>hs\<close> are out.\<close>

definition pool_holds :: "nat \<Rightarrow> FixedSizeBuffer option \<Rightarrow> u64 multiset \<Rightarrow> bool" where
  "pool_holds n p hs \<longleftrightarrow> (\<exists>fb. p = Some fb \<and> fb_ok fb \<and> distinct (fb_data fb) \<and> length (fb_data fb) = n
     \<and> mset (fb_pointers fb) + hs = mset (fb_data fb))"

definition holds :: "nat \<Rightarrow> task_buffers \<Rightarrow> BufferSet multiset \<Rightarrow> bool" where
  "holds n tb B \<longleftrightarrow> pool_holds n (tb_output tb) (image_mset bs_output B)
     \<and> (if tb_processor tb = NPU then pool_holds n (tb_encodedInput tb) (image_mset bs_encoded_input B)
          \<and> pool_holds n (tb_encodedOutput tb) (image_mset bs_encoded_output B)
        else \<forall>b \<in># B. bs_encoded_input b = 0 \<and> bs_encoded_output b = 0)"

lemma pool_holds_get:
  assumes "pool_holds n p hs" "size hs < n"
  obtains a p1 where "get_from p = Inr (a, p1)" "pool_holds n p1 (add_mset a hs)" "release_to a p1 = Inr p" "a \<noteq> 0"
proof -
  obtain fb where fb: "p = Some fb" "fb_ok fb" "distinct (fb_data fb)" "length (fb_data fb) = n" "mset (fb_pointers fb) + hs = mset (fb_data fb)"
    using assms(1) by (auto simp: pool_holds_def)
  have "length (fb_pointers fb) + size hs = n" using fb(4,5) by (metis size_mset size_union)
  then have ne: "fb_pointers fb \<noteq> []" using assms(2) by auto
  then obtain ps a where ps: "fb_pointers fb = ps @ [a]" by (cases "fb_pointers fb" rule: rev_cases) auto
  let ?fb1 = "fb\<lparr>fb_pointers := ps\<rparr>"
  have a: "a \<in> set (fb_data fb)" "a \<noteq> 0" using fb(2) ps by (auto simp: fb_ok_def)
  have "distinct (fb_pointers fb)" using fb(3,5) by (metis distinct_append ex_mset mset_append mset_eq_imp_distinct_iff)
  then have "a \<notin> set ps" using ps by simp
  moreover have "fb_ok ?fb1" "mset ps + add_mset a hs = mset (fb_data fb)" using fb(2,5) ps by (auto simp: fb_ok_def)
  ultimately show ?thesis using that [of a "Some ?fb1"] fb ps ne a
    by (auto simp: get_from_def getBuffer_def release_to_def releaseBuffer_def pool_holds_def fb_ok_def)
qed

lemma pool_holds_full:
  assumes "pool_holds n p hs" "n \<le> size hs"
  shows "get_from p = Inl Buffer_timeout"
proof -
  obtain fb where fb: "p = Some fb" "fb_ok fb" "length (fb_data fb) = n" "mset (fb_pointers fb) + hs = mset (fb_data fb)"
    using assms(1) by (auto simp: pool_holds_def)
  have "length (fb_pointers fb) + size hs = n" using fb(3,4) by (metis size_mset size_union)
  then have "length (fb_pointers fb) = 0" using assms(2) by linarith
  then have "fb_pointers fb = []" by simp
  then show ?thesis using fb(1,2) by (simp add: get_from_def getBuffer_def fb_ok_def)
qed

lemma pool_holds_release:
  assumes "pool_holds n p (add_mset a hs)"
  obtains p1 where "release_to a p = Inr p1" "pool_holds n p1 hs" "a \<noteq> 0"
proof -
  obtain fb where fb: "p = Some fb" "fb_ok fb" "distinct (fb_data fb)" "length (fb_data fb) = n"
    "add_mset a (mset (fb_pointers fb) + hs) = mset (fb_data fb)"
    using assms by (auto simp: pool_holds_def)
  have a: "a \<in> set (fb_data fb)" using fb(5) by (metis add_mset_add_single set_mset_mset union_single_eq_member)
  have "a \<notin> set (fb_pointers fb)"
  proof
    assume "a \<in> set (fb_pointers fb)"
    then have "2 \<le> count (mset (fb_data fb)) a" unfolding fb(5) [symmetric] by (simp add: Suc_le_eq count_greater_zero_iff)
    then show False using fb(3) by (simp add: distinct_count_atmost_1 split: if_splits)
  qed
  then show ?thesis using that [of "Some (fb\<lparr>fb_pointers := fb_pointers fb @ [a]\<rparr>)"] fb a
    by (auto simp: release_to_def releaseBuffer_def pool_holds_def fb_ok_def)
qed

lemma pool_get_or_full:
  assumes "pool_holds n p hs"
  shows "(\<exists>a p1. get_from p = Inr (a, p1) \<and> a \<noteq> 0 \<and> release_to a p1 = Inr p \<and> pool_holds n p1 (add_mset a hs) \<and> size hs < n)
    \<or> get_from p = Inl Buffer_timeout \<and> n \<le> size hs"
  using pool_holds_get [OF assms] pool_holds_full [OF assms] by (metis not_less)

lemmas get_release_defs = GetEncodedInputBuffer_def GetOutputBuffer_def GetEncodedOutputBuffer_def ReleaseEncodedInputBuffer_def
  ReleaseOutputBuffer_def ReleaseEncodedOutputBuffer_def

lemma acquire_cases:
  assumes "pool_holds m (tb_output tb) B" "tb_processor tb = NPU \<longrightarrow> pool_holds k (tb_encodedInput tb) A \<and> pool_holds l (tb_encodedOutput tb) C"
  shows "case AcquireAllBuffers tb of
      (Inl e, tb1) \<Rightarrow> e = Buffer_timeout \<and> tb1 = tb \<and> (m \<le> size B \<or> tb_processor tb = NPU \<and> (k \<le> size A \<or> l \<le> size C))
    | (Inr b, tb1) \<Rightarrow> ReleaseAllBuffers b tb1 = Inr tb \<and> size B < m \<and> pool_holds m (tb_output tb1) (add_mset (bs_output b) B)
        \<and> (if tb_processor tb = NPU then size A < k \<and> size C < l \<and> pool_holds k (tb_encodedInput tb1) (add_mset (bs_encoded_input b) A)
              \<and> pool_holds l (tb_encodedOutput tb1) (add_mset (bs_encoded_output b) C)
            else bs_encoded_input b = 0 \<and> bs_encoded_output b = 0)"
proof (cases "tb_processor tb = NPU")
  case False
  from pool_get_or_full [OF assms(1)] show ?thesis
  proof (elim disjE exE conjE)
    fix a p1 assume "get_from (tb_output tb) = Inr (a, p1)" "a \<noteq> 0" "release_to a p1 = Inr (tb_output tb)"
      "pool_holds m p1 (add_mset a B)" "size B < m"
    with False show ?thesis by (cases tb) (simp add: AcquireAllBuffers_def Let_def get_release_defs ReleaseAllBuffers_def)
  next
    assume "get_from (tb_output tb) = Inl Buffer_timeout" "m \<le> size B"
    with False show ?thesis by (simp add: AcquireAllBuffers_def Let_def get_release_defs roll_back_def ReleaseAllBuffers_def)
  qed
next
  case True
  note p = assms(1) assms(2) [rule_format, OF True, THEN conjunct1] assms(2) [rule_format, OF True, THEN conjunct2]
  from pool_get_or_full [OF p(2)] show ?thesis
  proof (elim disjE exE conjE)
    assume "get_from (tb_encodedInput tb) = Inl Buffer_timeout" "k \<le> size A"
    with True show ?thesis by (simp add: AcquireAllBuffers_def Let_def get_release_defs roll_back_def ReleaseAllBuffers_def)
  next
    fix a p1 assume a: "get_from (tb_encodedInput tb) = Inr (a, p1)" "a \<noteq> 0" "release_to a p1 = Inr (tb_encodedInput tb)"
      "pool_holds k p1 (add_mset a A)" "size A < k"
    from pool_get_or_full [OF p(1)] show ?thesis
    proof (elim disjE exE conjE)
      assume "get_from (tb_output tb) = Inl Buffer_timeout" "m \<le> size B"
      with True a show ?thesis by (cases tb) (simp add: AcquireAllBuffers_def Let_def get_release_defs roll_back_def ReleaseAllBuffers_def)
    next
      fix b p2 assume b: "get_from (tb_output tb) = Inr (b, p2)" "b \<noteq> 0" "release_to b p2 = Inr (tb_output tb)"
        "pool_holds m p2 (add_mset b B)" "size B < m"
      from pool_get_or_full [OF p(3)] True a b show ?thesis
        by (cases tb) (auto simp: AcquireAllBuffers_def Let_def get_release_defs roll_back_def ReleaseAllBuffers_def)
    qed
  qed
qed

text \<open>
  Claim C38. The buffers of a task are acquired all or not at all: \<open>AcquireAllBuffers\<close> fails with the timeout exactly
  when one of the pools it needs has no buffer left, and then every pool is as it was before the call; otherwise
  it returns a buffer of each pool it needs, and releasing the set restores every pool.
\<close>
theorem acquire_all_or_nothing:
  assumes "pool_holds m (tb_output tb) B" "tb_processor tb = NPU \<longrightarrow> pool_holds k (tb_encodedInput tb) A \<and> pool_holds l (tb_encodedOutput tb) C"
  shows "case AcquireAllBuffers tb of
      (Inl e, tb1) \<Rightarrow> e = Buffer_timeout \<and> tb1 = tb \<and> (m \<le> size B \<or> tb_processor tb = NPU \<and> (k \<le> size A \<or> l \<le> size C))
    | (Inr b, tb1) \<Rightarrow> ReleaseAllBuffers b tb1 = Inr tb \<and> size B < m \<and> pool_holds m (tb_output tb1) (add_mset (bs_output b) B)
        \<and> (if tb_processor tb = NPU then size A < k \<and> size C < l \<and> pool_holds k (tb_encodedInput tb1) (add_mset (bs_encoded_input b) A)
              \<and> pool_holds l (tb_encodedOutput tb1) (add_mset (bs_encoded_output b) C)
            else bs_encoded_input b = 0 \<and> bs_encoded_output b = 0)"
  by (rule acquire_cases [OF assms])

definition demo_pool :: "u64 list \<Rightarrow> FixedSizeBuffer" where
  "demo_pool ps = \<lparr>fb_data = [4096, 8192], fb_pointers = ps, fb_count = 2, fb_size = 64\<rparr>"

definition demo_buffers :: task_buffers where
  "demo_buffers = \<lparr>tb_processor = NPU, tb_encodedInput = Some (demo_pool [4096, 8192]), tb_output = Some (demo_pool [8192]),
     tb_encodedOutput = Some (demo_pool [])\<rparr>"

theorem acquire_all_or_nothing_witness: "AcquireAllBuffers demo_buffers = (Inl Buffer_timeout, demo_buffers)"
proof -
  have "pool_holds 2 (tb_output demo_buffers) {#4096#}" "pool_holds 2 (tb_encodedInput demo_buffers) {#}"
    "pool_holds 2 (tb_encodedOutput demo_buffers) {#4096, 8192#}"
    by (auto simp: pool_holds_def demo_buffers_def demo_pool_def fb_ok_def)
  from acquire_all_or_nothing [OF this(1), of 2 "{#}" 2 "{#4096, 8192#}"] this(2,3) show ?thesis
    by (auto split: prod.splits sum.splits if_splits simp: demo_buffers_def)
qed

subsection \<open>Jobs that compete for buffers\<close>

text \<open>
  A request keeps the buffers of its task until its job has completed (\<open>ReleaseAllOutputBuffer\<close>, \<open>Request::Reset\<close>).
  \<open>held\<close> lists which job holds which buffers of which task. A job begins with its head task; later it
  acquires the buffers of its other tasks, in any order, and at its end it releases all of them.
\<close>

type_synonym held_buffers = "(int \<times> string \<times> BufferSet) list"

fun release_held :: "held_buffers \<Rightarrow> (string \<Rightarrow> task_buffers) \<Rightarrow> pool_error + (string \<Rightarrow> task_buffers)" where
  "release_held [] bufs = Inr bufs"
| "release_held ((j, t, b) # es) bufs =
     (case ReleaseAllBuffers b (bufs t) of Inl e \<Rightarrow> Inl e | Inr tb \<Rightarrow> release_held es (bufs(t := tb)))"

inductive buffer_step :: "string \<Rightarrow> (string \<Rightarrow> task_buffers) \<times> held_buffers \<Rightarrow> (string \<Rightarrow> task_buffers) \<times> held_buffers \<Rightarrow> bool" for head where
  begin_job: "\<forall>t b. (j, t, b) \<notin> set held \<Longrightarrow> AcquireAllBuffers (bufs head) = (Inr b, tb) \<Longrightarrow>
    buffer_step head (bufs, held) (bufs(head := tb), held @ [(j, head, b)])"
| next_task: "(j, head, b0) \<in> set held \<Longrightarrow> \<forall>b. (j, t, b) \<notin> set held \<Longrightarrow> AcquireAllBuffers (bufs t) = (Inr b, tb) \<Longrightarrow>
    buffer_step head (bufs, held) (bufs(t := tb), held @ [(j, t, b)])"
| end_job: "release_held (filter (\<lambda>e. fst e = j) held) bufs = Inr bufs1 \<Longrightarrow>
    buffer_step head (bufs, held) (bufs1, filter (\<lambda>e. fst e \<noteq> j) held)"

definition holding :: "string \<Rightarrow> held_buffers \<Rightarrow> BufferSet multiset" where
  "holding t held = mset (map (snd \<circ> snd) (filter (\<lambda>e. fst (snd e) = t) held))"

lemma holding_simps [simp]:
  "holding t [] = {#}" "holding t (e # es) = (if fst (snd e) = t then add_mset (snd (snd e)) (holding t es) else holding t es)"
  "holding t (xs @ ys) = holding t xs + holding t ys"
  by (simp_all add: holding_def)

lemma holding_partition: "holding t held = holding t (filter P held) + holding t (filter (\<lambda>e. \<not> P e) held)"
  by (induction held) auto

definition buffers_inv :: "nat \<Rightarrow> string \<Rightarrow> (string \<Rightarrow> task_buffers) \<times> held_buffers \<Rightarrow> bool" where
  "buffers_inv n head = (\<lambda>(bufs, held). (\<forall>t. holds n (bufs t) (holding t held))
     \<and> distinct (map (\<lambda>e. (fst e, fst (snd e))) held) \<and> (\<forall>j t b. (j, t, b) \<in> set held \<longrightarrow> (\<exists>b0. (j, head, b0) \<in> set held)))"

lemma holds_acquire:
  assumes "holds n tb B" "AcquireAllBuffers tb = (Inr b, tb1)"
  shows "holds n tb1 (add_mset b B)"
proof -
  have p: "tb_processor tb1 = tb_processor tb"
    using assms(2) by (auto simp: AcquireAllBuffers_def Let_def get_release_defs roll_back_def split: sum.splits prod.splits if_splits)
  show ?thesis
    using acquire_cases [of n tb "image_mset bs_output B" n "image_mset bs_encoded_input B" n "image_mset bs_encoded_output B"] assms p
    by (auto simp: holds_def split: if_splits)
qed

lemma holds_available:
  assumes "holds n tb B" "size B < n"
  shows "\<exists>b tb1. AcquireAllBuffers tb = (Inr b, tb1)"
  using acquire_cases [of n tb "image_mset bs_output B" n "image_mset bs_encoded_input B" n "image_mset bs_encoded_output B"] assms
  by (cases "AcquireAllBuffers tb"; cases "fst (AcquireAllBuffers tb)") (auto simp: holds_def split: if_splits)

lemma holds_release:
  assumes "holds n tb (add_mset b B)"
  obtains tb1 where "ReleaseAllBuffers b tb = Inr tb1" "holds n tb1 B"
proof -
  have "pool_holds n (tb_output tb) (add_mset (bs_output b) (image_mset bs_output B))" using assms by (simp add: holds_def)
  then obtain q where q: "release_to (bs_output b) (tb_output tb) = Inr q" "pool_holds n q (image_mset bs_output B)" "bs_output b \<noteq> 0"
    by (rule pool_holds_release)
  show ?thesis
  proof (cases "tb_processor tb = NPU")
    case True
    then have h: "pool_holds n (tb_encodedInput tb) (add_mset (bs_encoded_input b) (image_mset bs_encoded_input B))"
      "pool_holds n (tb_encodedOutput tb) (add_mset (bs_encoded_output b) (image_mset bs_encoded_output B))"
      using assms by (simp_all add: holds_def)
    obtain p where "release_to (bs_encoded_input b) (tb_encodedInput tb) = Inr p" "pool_holds n p (image_mset bs_encoded_input B)" "bs_encoded_input b \<noteq> 0"
      by (rule pool_holds_release [OF h(1)])
    moreover obtain r where "release_to (bs_encoded_output b) (tb_encodedOutput tb) = Inr r" "pool_holds n r (image_mset bs_encoded_output B)" "bs_encoded_output b \<noteq> 0"
      by (rule pool_holds_release [OF h(2)])
    ultimately show ?thesis using True q that [of "tb\<lparr>tb_encodedOutput := r, tb_output := q, tb_encodedInput := p\<rparr>"]
      by (simp add: ReleaseAllBuffers_def get_release_defs holds_def)
  next
    case False
    with q assms that [of "tb\<lparr>tb_output := q\<rparr>"] show ?thesis by (simp add: ReleaseAllBuffers_def get_release_defs holds_def)
  qed
qed

lemma release_held_ok:
  assumes "\<forall>t. holds n (bufs t) (holding t es + rest t)"
  shows "\<exists>bufs1. release_held es bufs = Inr bufs1 \<and> (\<forall>t. holds n (bufs1 t) (rest t))"
  using assms
proof (induction es arbitrary: bufs)
  case (Cons e es)
  obtain j t b where e: "e = (j, t, b)" by (cases e) auto
  have "holds n (bufs t) (add_mset b (holding t es + rest t))" using Cons.prems e by (auto dest: spec [of _ t])
  then obtain tb where tb: "ReleaseAllBuffers b (bufs t) = Inr tb" "holds n tb (holding t es + rest t)" by (rule holds_release)
  have "\<forall>u. holds n ((bufs(t := tb)) u) (holding u es + rest u)"
  proof
    fix u show "holds n ((bufs(t := tb)) u) (holding u es + rest u)" using tb(2) Cons.prems [rule_format, of u] e by (cases "u = t") auto
  qed
  from Cons.IH [OF this] tb(1) e show ?case by (simp del: fun_upd_apply)
qed simp

lemma buffer_step_inv:
  assumes "buffer_step head c c1" "buffers_inv n head c"
  shows "buffers_inv n head c1"
  using assms
proof (induction rule: buffer_step.induct)
  case (begin_job j held bufs b tb)
  then have "\<forall>t. holds n ((bufs(head := tb)) t) (holding t (held @ [(j, head, b)]))"
    using holds_acquire [of n "bufs head" "holding head held"] by (auto simp: buffers_inv_def)
  with begin_job show ?case unfolding buffers_inv_def by (auto simp: image_iff; blast)
next
  case (next_task j b0 held t bufs b tb)
  then have "\<forall>u. holds n ((bufs(t := tb)) u) (holding u (held @ [(j, t, b)]))"
    using holds_acquire [of n "bufs t" "holding t held"] by (auto simp: buffers_inv_def)
  with next_task show ?case unfolding buffers_inv_def by (auto simp: image_iff; blast)
next
  case (end_job j held bufs bufs1)
  have "\<forall>t. holds n (bufs t) (holding t (filter (\<lambda>e. fst e = j) held) + holding t (filter (\<lambda>e. fst e \<noteq> j) held))"
    using end_job(2) holding_partition [of _ held "\<lambda>e. fst e = j"] by (simp add: buffers_inv_def)
  from release_held_ok [OF this] end_job(1) have "\<forall>t. holds n (bufs1 t) (holding t (filter (\<lambda>e. fst e \<noteq> j) held))" by auto
  with end_job(2) show ?case by (auto simp: buffers_inv_def distinct_map_filter)
qed

lemma buffers_inv_reachable:
  assumes "(buffer_step head)\<^sup>*\<^sup>* (bufs0, []) c" "\<forall>t. holds n (bufs0 t) {#}"
  shows "buffers_inv n head c"
  using assms(1)
proof (induction rule: rtranclp_induct)
  case base
  then show ?case using assms(2) by (simp add: buffers_inv_def)
qed (blast intro: buffer_step_inv)

lemma holding_size:
  assumes "distinct (map (\<lambda>e. (fst e, fst (snd e))) held)"
  shows "size (holding t held) = card {j. \<exists>b. (j, t, b) \<in> set held}"
proof -
  let ?f = "filter (\<lambda>e. fst (snd e) = t) held"
  have "distinct (map (\<lambda>e. (fst e, fst (snd e))) ?f)" using assms by (rule distinct_map_filter)
  then have "inj_on fst (set ?f)" "distinct ?f" by (auto simp: distinct_map inj_on_def)
  then have "distinct (map fst ?f)" by (simp add: distinct_map)
  moreover have "set (map fst ?f) = {j. \<exists>b. (j, t, b) \<in> set held}" by force
  ultimately have "card {j. \<exists>b. (j, t, b) \<in> set held} = length ?f" by (metis distinct_card length_map)
  then show ?thesis unfolding holding_def size_mset length_map by simp
qed

lemma holds_bound: "holds n tb B \<Longrightarrow> size B \<le> n"
proof -
  assume "holds n tb B"
  then have "pool_holds n (tb_output tb) (image_mset bs_output B)" by (simp add: holds_def)
  then obtain fb :: FixedSizeBuffer where "length (fb_data fb) = n" "mset (fb_pointers fb) + image_mset bs_output B = mset (fb_data fb)"
    unfolding pool_holds_def by blast
  then show ?thesis by (metis le_add2 size_image_mset size_mset size_union)
qed


definition two_pools :: "string \<Rightarrow> task_buffers" where
  "two_pools t = \<lparr>tb_processor = NPU, tb_encodedInput = Some (demo_pool [4096, 8192]), tb_output = Some (demo_pool [4096, 8192]),
     tb_encodedOutput = Some (demo_pool [4096, 8192])\<rparr>"


end
