(* ===== verification/Stop_Gate.thy ===== *)
theory Stop_Gate
  imports Prelude
begin

text \<open>
  \<^verbatim>\<open>src/lib/device_pool/stop_gate.cpp\<close>: the gate that the DMA paths of a device pass through, so that the
  recovery of the device can keep new transfers out and wait for those in flight. A thread that
  passes gets a \<open>Pass\<close>, counted until it is released. The operations are the critical sections of the
  class; the waits on its condition variable are in the step relation, with the sleepers and the
  pending notifications explicit. The clients are the three users of the gate in
  \<^verbatim>\<open>acc_device_task_layer.cpp\<close>: \<open>InferenceRequest\<close> keeps the \<open>Pass\<close> in a variable while it works,
  \<open>InputHandler\<close> and \<open>OutputHandler\<close> discard it before they start their transfer.
\<close>

section \<open>The gate\<close>

record StopGate =
  stop_flag :: bool
  shutting_down :: bool
  active_passes :: nat

definition StopGate_new :: StopGate where
  "StopGate_new = \<lparr>stop_flag = False, shutting_down = False, active_passes = 0\<rparr>"

text \<open>What a critical section asks of its thread: return, sleep on the condition, or unlock and notify.\<close>

datatype gate_call = Returns | Sleeps | Notifies

text \<open>The two predicates of the condition variable.\<close>

definition drained :: "StopGate \<Rightarrow> bool" where
  "drained g \<longleftrightarrow> shutting_down g \<or> active_passes g = 0"

definition admitted :: "StopGate \<Rightarrow> bool" where
  "admitted g \<longleftrightarrow> \<not> stop_flag g \<or> shutting_down g"

definition SetStop :: "bool \<Rightarrow> StopGate \<Rightarrow> gate_call \<times> StopGate" where
  "SetStop stop g =
     (if shutting_down g then (Returns, g)
      else if \<not> stop then (Notifies, g\<lparr>stop_flag := False\<rparr>)
      else let g' = g\<lparr>stop_flag := True\<rparr> in (if drained g' then Returns else Sleeps, g'))"

text \<open>\<open>None\<close>: the caller sleeps. Otherwise the result says whether the returned \<open>Pass\<close> is active.\<close>

definition WaitIfStopped :: "StopGate \<Rightarrow> bool option \<times> StopGate" where
  "WaitIfStopped g =
     (if \<not> admitted g then (None, g)
      else if shutting_down g then (Some False, g)
      else (Some True, g\<lparr>active_passes := active_passes g + 1\<rparr>))"

definition Shutdown :: "StopGate \<Rightarrow> gate_call \<times> StopGate" where
  "Shutdown g = (Notifies, g\<lparr>shutting_down := True, stop_flag := False\<rparr>)"

text \<open>The flag says whether \<open>ReleasePass\<close> notifies, which it does before it unlocks.\<close>

definition ReleasePass :: "StopGate \<Rightarrow> bool \<times> StopGate" where
  "ReleasePass g =
     (let g' = (if 0 < active_passes g then g\<lparr>active_passes := active_passes g - 1\<rparr> else g)
      in (active_passes g' = 0, g'))"

definition IsStopped :: "StopGate \<Rightarrow> bool" where
  "IsStopped g \<longleftrightarrow> stop_flag g \<and> \<not> shutting_down g"

section \<open>Pass objects\<close>

text \<open>A \<open>Pass\<close> refers to a gate or to none, and is active or not.\<close>

record Pass =
  gate_set :: bool
  pass_active :: bool

definition Pass_empty :: Pass where
  "Pass_empty = \<lparr>gate_set = False, pass_active = False\<rparr>"

definition Pass_of :: "bool \<Rightarrow> Pass" where
  "Pass_of active = (if active then \<lparr>gate_set = True, pass_active = True\<rparr> else Pass_empty)"

definition Pass_Release :: "Pass \<Rightarrow> StopGate \<Rightarrow> Pass \<times> StopGate" where
  "Pass_Release p g =
     (if \<not> gate_set p \<or> \<not> pass_active p then (p, g)
      else (Pass_empty, snd (ReleasePass g)))"

text \<open>Move construction: the new object and what is left in the old one.\<close>

definition Pass_move :: "Pass \<Rightarrow> Pass \<times> Pass" where
  "Pass_move other = (other, Pass_empty)"

text \<open>Move assignment between two different objects: the target, the source, the gate afterwards.\<close>

definition Pass_assign :: "Pass \<Rightarrow> Pass \<Rightarrow> StopGate \<Rightarrow> Pass \<times> Pass \<times> StopGate" where
  "Pass_assign this other g =
     (let (_, g') = Pass_Release this g in (other, Pass_empty, g'))"

section \<open>Threads at the gate\<close>

text \<open>
  \<open>Has_pass keeps\<close> holds_pass an active \<open>Pass\<close>; with \<open>keeps\<close> the caller has it in a variable and is in its
  transfer, without it the temporary is about to be destroyed. \<open>In_dma\<close> is in a transfer without an
  active pass. The \<open>_woken\<close> states have been notified and test their condition next.
\<close>

datatype gate_thread =
    Outside
  | Enter_asleep bool
  | Enter_woken bool
  | Has_pass bool
  | In_dma
  | Stop_asleep
  | Stop_woken
  | Notifying

record gate_sys =
  gs_gate :: StopGate
  gs_threads :: "gate_thread list"

fun wake :: "gate_thread \<Rightarrow> gate_thread" where
  "wake (Enter_asleep k) = Enter_woken k"
| "wake Stop_asleep = Stop_woken"
| "wake t = t"

definition notify_all :: "gate_thread list \<Rightarrow> gate_thread list" where
  "notify_all ts = map wake ts"

definition after_stop :: "gate_call \<Rightarrow> gate_thread" where
  "after_stop c = (case c of Returns \<Rightarrow> Outside | Sleeps \<Rightarrow> Stop_asleep | Notifies \<Rightarrow> Notifying)"

definition after_enter :: "bool \<Rightarrow> bool option \<Rightarrow> gate_thread" where
  "after_enter k r = (case r of None \<Rightarrow> Enter_asleep k | Some True \<Rightarrow> Has_pass k | Some False \<Rightarrow> In_dma)"

text \<open>The events that matter outside: a stop that returns, a resume or shutdown, everything else.\<close>

datatype gate_event = Stopped | Resumed | Shut_down | Other

inductive gate_step :: "gate_sys \<Rightarrow> gate_event \<Rightarrow> gate_sys \<Rightarrow> bool" where
  call_stop: "i < length ts \<Longrightarrow> ts ! i = Outside \<Longrightarrow> SetStop True g = (c, g') \<Longrightarrow>
    gate_step \<lparr>gs_gate = g, gs_threads = ts\<rparr> (if c = Returns then Stopped else Other)
      \<lparr>gs_gate = g', gs_threads = ts[i := after_stop c]\<rparr>"
| stop_returns: "i < length ts \<Longrightarrow> ts ! i = Stop_woken \<Longrightarrow> drained g \<Longrightarrow>
    gate_step \<lparr>gs_gate = g, gs_threads = ts\<rparr> Stopped \<lparr>gs_gate = g, gs_threads = ts[i := Outside]\<rparr>"
| stop_sleeps: "i < length ts \<Longrightarrow> ts ! i = Stop_woken \<Longrightarrow> \<not> drained g \<Longrightarrow>
    gate_step \<lparr>gs_gate = g, gs_threads = ts\<rparr> Other \<lparr>gs_gate = g, gs_threads = ts[i := Stop_asleep]\<rparr>"
| resume: "i < length ts \<Longrightarrow> ts ! i = Outside \<Longrightarrow> SetStop False g = (c, g') \<Longrightarrow>
    gate_step \<lparr>gs_gate = g, gs_threads = ts\<rparr> Resumed \<lparr>gs_gate = g', gs_threads = ts[i := after_stop c]\<rparr>"
| shut_down: "i < length ts \<Longrightarrow> ts ! i = Outside \<Longrightarrow> Shutdown g = (c, g') \<Longrightarrow>
    gate_step \<lparr>gs_gate = g, gs_threads = ts\<rparr> Shut_down \<lparr>gs_gate = g', gs_threads = ts[i := after_stop c]\<rparr>"
| notifies: "i < length ts \<Longrightarrow> ts ! i = Notifying \<Longrightarrow>
    gate_step \<lparr>gs_gate = g, gs_threads = ts\<rparr> Other \<lparr>gs_gate = g, gs_threads = notify_all (ts[i := Outside])\<rparr>"
| enters: "i < length ts \<Longrightarrow> ts ! i = Outside \<or> ts ! i = Enter_woken k \<Longrightarrow> WaitIfStopped g = (r, g') \<Longrightarrow>
    gate_step \<lparr>gs_gate = g, gs_threads = ts\<rparr> Other \<lparr>gs_gate = g', gs_threads = ts[i := after_enter k r]\<rparr>"
| releases: "i < length ts \<Longrightarrow> ts ! i = Has_pass k \<Longrightarrow> Pass_Release (Pass_of True) g = (p, g') \<Longrightarrow>
    gate_step \<lparr>gs_gate = g, gs_threads = ts\<rparr> Other
      \<lparr>gs_gate = g', gs_threads = (if fst (ReleasePass g) then notify_all else id) (ts[i := if k then Outside else In_dma])\<rparr>"
| dma_done: "i < length ts \<Longrightarrow> ts ! i = In_dma \<Longrightarrow>
    gate_step \<lparr>gs_gate = g, gs_threads = ts\<rparr> Other \<lparr>gs_gate = g, gs_threads = ts[i := Outside]\<rparr>"
| spurious: "i < length ts \<Longrightarrow>
    gate_step \<lparr>gs_gate = g, gs_threads = ts\<rparr> Other \<lparr>gs_gate = g, gs_threads = ts[i := wake (ts ! i)]\<rparr>"

definition gate_start :: "nat \<Rightarrow> gate_sys" where
  "gate_start n = \<lparr>gs_gate = StopGate_new, gs_threads = replicate n Outside\<rparr>"

inductive gate_run :: "gate_sys \<Rightarrow> gate_event list \<Rightarrow> gate_sys \<Rightarrow> bool" where
  gate_run_nil: "gate_run s [] s"
| gate_run_step: "gate_run s es t \<Longrightarrow> gate_step t e u \<Longrightarrow> gate_run s (es @ [e]) u"

inductive_cases gate_stepE: "gate_step s e t"

section \<open>Invariant\<close>

fun holds_pass :: "gate_thread \<Rightarrow> bool" where
  "holds_pass (Has_pass k) = True"
| "holds_pass t = False"

definition holders :: "gate_thread list \<Rightarrow> nat" where
  "holders ts = length (filter holds_pass ts)"

text \<open>A sleeper whose condition holds_pass has a notification on its way.\<close>

definition asleep_ok :: "StopGate \<Rightarrow> gate_thread list \<Rightarrow> bool" where
  "asleep_ok g ts \<longleftrightarrow> Notifying \<in> set ts \<or>
     (admitted g \<longrightarrow> Enter_asleep True \<notin> set ts \<and> Enter_asleep False \<notin> set ts) \<and>
     (drained g \<longrightarrow> Stop_asleep \<notin> set ts)"

definition gate_ok :: "gate_sys \<Rightarrow> bool" where
  "gate_ok s \<longleftrightarrow> active_passes (gs_gate s) = holders (gs_threads s) \<and> asleep_ok (gs_gate s) (gs_threads s)"

lemmas holders_update = length_filter_update [of _ _ holds_pass, folded holders_def]
lemmas holders_pos = length_filter_pos [of _ _ holds_pass, folded holders_def]

lemma holds_wake [simp]: "holds_pass (wake t) = holds_pass t"
  by (cases t) auto

lemma holders_notify [simp]: "holders (notify_all ts) = holders ts"
  by (simp add: holders_def notify_all_def filter_map comp_def)

lemma wake_awake [simp]: "wake t \<noteq> Enter_asleep k" "wake t \<noteq> Stop_asleep"
  by (cases t; simp)+

lemma notify_all_awake [simp]: "Enter_asleep k \<notin> set (notify_all ts)" "Stop_asleep \<notin> set (notify_all ts)"
  by (auto simp: notify_all_def image_iff wake_awake [symmetric])

lemma asleep_ok_notify [simp]: "asleep_ok g (notify_all ts)"
  by (simp add: asleep_ok_def)

text \<open>The sleepers stay accounted for when a thread that was not notifying moves on.\<close>

lemma asleep_ok_update:
  assumes "asleep_ok g ts" "ts ! i \<noteq> Notifying" "i < length ts"
    and "admitted g' \<Longrightarrow> admitted g" "drained g' \<Longrightarrow> drained g"
    and "\<And>k. x = Enter_asleep k \<Longrightarrow> \<not> admitted g'" "x = Stop_asleep \<Longrightarrow> \<not> drained g'"
  shows "asleep_ok g' (ts[i := x])"
proof (cases "Notifying \<in> set ts")
  case True
  then obtain j where "j < length ts" "ts ! j = Notifying" by (auto simp: in_set_conv_nth)
  with assms(2) have "i \<noteq> j" by auto
  with \<open>j < length ts\<close> \<open>ts ! j = Notifying\<close> have "(ts[i := x]) ! j = Notifying" "j < length (ts[i := x])" by simp_all
  then have "Notifying \<in> set (ts[i := x])" by (metis nth_mem)
  then show ?thesis by (simp add: asleep_ok_def)
next
  case False
  with assms show ?thesis unfolding asleep_ok_def by (auto dest!: set_update_subset_insert [THEN subsetD])
qed

lemma asleep_ok_notifying: "i < length ts \<Longrightarrow> asleep_ok g (ts[i := Notifying])"
  by (simp add: asleep_ok_def set_update_memI)

lemmas gate_defs = SetStop_def WaitIfStopped_def Shutdown_def ReleasePass_def drained_def admitted_def
  Pass_Release_def Pass_of_def Pass_empty_def after_stop_def after_enter_def Let_def

lemma gate_start_ok: "gate_ok (gate_start n)"
  by (simp add: gate_ok_def gate_start_def StopGate_new_def holders_def asleep_ok_def)

lemma gate_step_ok:
  assumes "gate_step s e t" "gate_ok s"
  shows "gate_ok t"
  using assms(1)
proof cases
  case (call_stop i ts g c g')
  with assms(2) holders_update [of i ts "after_stop c"] show ?thesis
    by (auto simp: gate_ok_def gate_defs split: if_splits intro!: asleep_ok_update)
next
  case (releases i ts k g p g')
  with assms(2) holders_update [of i ts "if k then Outside else In_dma"] holders_pos [of i ts] show ?thesis
    by (auto simp: gate_ok_def gate_defs split: if_splits intro!: asleep_ok_update)
next
  case (enters i ts k g r g')
  with assms(2) holders_update [of i ts "after_enter k r"] show ?thesis
    by (auto simp: gate_ok_def gate_defs split: if_splits intro!: asleep_ok_update)
next
  case (resume i ts g c g')
  with assms(2) holders_update [of i ts "after_stop c"] show ?thesis
    by (auto simp: gate_ok_def gate_defs split: if_splits intro!: asleep_ok_update asleep_ok_notifying)
next
  case (shut_down i ts g c g')
  with assms(2) holders_update [of i ts "after_stop c"] show ?thesis
    by (auto simp: gate_ok_def gate_defs split: if_splits intro!: asleep_ok_notifying)
next
  case (spurious i ts g)
  show ?thesis
  proof (cases "ts ! i = Notifying")
    case True
    with spurious assms(2) show ?thesis by (metis list_update_id wake.simps(8))
  next
    case False
    with spurious assms(2) holders_update [of i ts "wake (ts ! i)"] show ?thesis
      by (auto simp: gate_ok_def intro!: asleep_ok_update)
  qed
next
  case (notifies i ts g)
  with assms(2) holders_update [of i ts Outside] show ?thesis by (auto simp: gate_ok_def)
next
  case (stop_returns i ts g)
  with assms(2) holders_update [of i ts Outside] show ?thesis
    by (auto simp: gate_ok_def intro!: asleep_ok_update)
next
  case (stop_sleeps i ts g)
  with assms(2) holders_update [of i ts Stop_asleep] show ?thesis
    by (auto simp: gate_ok_def intro!: asleep_ok_update)
next
  case (dma_done i ts g)
  with assms(2) holders_update [of i ts Outside] show ?thesis
    by (auto simp: gate_ok_def intro!: asleep_ok_update)
qed

lemma gate_run_ok: "gate_run s es t \<Longrightarrow> gate_ok s \<Longrightarrow> gate_ok t"
  by (induction rule: gate_run.induct) (auto intro: gate_step_ok)

lemma gate_run_append: "gate_run t fs u \<Longrightarrow> gate_run s es t \<Longrightarrow> gate_run s (es @ fs) u"
proof (induction rule: gate_run.induct)
  case (gate_run_step s' fs t e u)
  then have "gate_run s ((es @ fs) @ [e]) u" by (intro gate_run.gate_run_step)
  then show ?case by simp
qed simp

section \<open>Stopping\<close>

text \<open>A stop that returns on a gate that is not shut down leaves it closed unless a resume came before it.\<close>

lemma stopped_drained:
  assumes "gate_step s Stopped t" "\<not> shutting_down (gs_gate t)"
  shows "active_passes (gs_gate t) = 0"
  using assms by cases (auto simp: gate_defs split: if_splits)

lemma closed_step:
  assumes "gate_step s e t" "e \<noteq> Resumed" "e \<noteq> Shut_down"
    and "IsStopped (gs_gate s)" "active_passes (gs_gate s) = 0"
  shows "IsStopped (gs_gate t) \<and> active_passes (gs_gate t) = 0"
  using assms by cases (auto simp: gate_defs IsStopped_def split: if_splits)

lemma closed_run:
  assumes "gate_run s es t" "set es \<inter> {Resumed, Shut_down} = {}"
    and "IsStopped (gs_gate s)" "active_passes (gs_gate s) = 0"
  shows "IsStopped (gs_gate t) \<and> active_passes (gs_gate t) = 0"
  using assms by (induction rule: gate_run.induct) (auto dest: closed_step)

lemma no_holders: "holders ts = 0 \<Longrightarrow> t \<in> set ts \<Longrightarrow> \<not> holds_pass t"
  by (auto simp: holders_def filter_empty_conv)

text \<open>
  Claim C23. After \<open>SetStop(true)\<close> has returned on an open gate that is not shut down, no thread holds_pass
  a pass, and none gets one until the gate is resumed or shut down, whatever the threads do; a DMA
  request that keeps its \<open>Pass\<close> is therefore never in flight while the device is recovered.
\<close>
theorem stop_drains_passes:
  assumes "gate_run (gate_start n) es s" and "gate_step s Stopped t" and "IsStopped (gs_gate t)"
    and "gate_run t fs u" and "set fs \<inter> {Resumed, Shut_down} = {}"
  shows "active_passes (gs_gate u) = 0 \<and> IsStopped (gs_gate u) \<and> Has_pass k \<notin> set (gs_threads u)"
proof -
  from assms have "active_passes (gs_gate t) = 0" by (intro stopped_drained) (auto simp: IsStopped_def)
  with assms have closed: "IsStopped (gs_gate u) \<and> active_passes (gs_gate u) = 0" by (intro closed_run)
  have "gate_ok u" using assms gate_start_ok gate_step_ok gate_run_ok by metis
  with closed no_holders [of "gs_threads u" "Has_pass k"] show ?thesis by (auto simp: gate_ok_def)
qed

text \<open>
  No wake-up is lost: a thread that sleeps although it could go on (a waiting transfer on an
  open gate, a stop without passes in flight, either on a gate that is shut down) will be woken,
  because some thread has opened or shut the gate and has still to notify.
\<close>
theorem gate_no_lost_wakeup:
  assumes "gate_run (gate_start n) es s" and "t \<in> set (gs_threads s)"
    and "t = Enter_asleep k \<and> admitted (gs_gate s) \<or> t = Stop_asleep \<and> drained (gs_gate s)"
  shows "\<exists>i < length (gs_threads s). gs_threads s ! i = Notifying \<and>
           gate_step s Other (s\<lparr>gs_threads := notify_all ((gs_threads s)[i := Outside])\<rparr>)"
proof -
  have "gate_ok s" using assms(1) gate_start_ok gate_run_ok by metis
  with assms(2,3) have "Notifying \<in> set (gs_threads s)"
    by (cases k) (auto simp: gate_ok_def asleep_ok_def)
  then obtain i where "i < length (gs_threads s)" "gs_threads s ! i = Notifying" by (auto simp: in_set_conv_nth)
  with gate_step.notifies [of i "gs_threads s" "gs_gate s"] show ?thesis by (intro exI [of _ i]) (cases s, auto)
qed

section \<open>Concrete runs\<close>

text \<open>Two threads: the first stops the gate, the second falls asleep at it, the first resumes.\<close>

definition stopped_gate :: StopGate where
  "stopped_gate = \<lparr>stop_flag = True, shutting_down = False, active_passes = 0\<rparr>"

lemma run_stop: "gate_step (gate_start 2) Stopped \<lparr>gs_gate = stopped_gate, gs_threads = [Outside, Outside]\<rparr>"
  using gate_step.call_stop [of 0 "[Outside, Outside]" StopGate_new Returns stopped_gate]
  by (simp add: gate_defs gate_start_def StopGate_new_def stopped_gate_def numeral_2_eq_2)

lemma run_wait: "gate_step \<lparr>gs_gate = stopped_gate, gs_threads = [Outside, Outside]\<rparr> Other
    \<lparr>gs_gate = stopped_gate, gs_threads = [Outside, Enter_asleep k]\<rparr>"
  using gate_step.enters [of 1 "[Outside, Outside]" k stopped_gate None stopped_gate]
  by (simp add: gate_defs stopped_gate_def)

lemma run_resume: "gate_step \<lparr>gs_gate = stopped_gate, gs_threads = [Outside, Enter_asleep k]\<rparr> Resumed
    \<lparr>gs_gate = StopGate_new, gs_threads = [Notifying, Enter_asleep k]\<rparr>"
  using gate_step.resume [of 0 "[Outside, Enter_asleep k]" stopped_gate Notifies StopGate_new]
  by (simp add: gate_defs stopped_gate_def StopGate_new_def)

lemmas gate_run_one = gate_run_step [OF gate_run_nil, simplified]

theorem stop_drains_passes_witness:
  "active_passes stopped_gate = 0 \<and> IsStopped stopped_gate \<and> Has_pass True \<notin> set [Outside, Enter_asleep True]"
  using stop_drains_passes [OF gate_run_nil [of "gate_start 2"] run_stop _ gate_run_one [OF run_wait], of True]
  by (simp add: IsStopped_def stopped_gate_def)

text \<open>
  A caller that discards its \<open>Pass\<close> is not waited for: \<open>InputHandler\<close> and \<open>OutputHandler\<close> call
  \<open>WaitIfStopped\<close> for its effect only, so their transfer runs on while \<open>SetStop(true)\<close> has returned.
\<close>

lemma discarded_pass_not_waited_for:
  "\<exists>es s t. gate_run (gate_start 2) es s \<and> gate_step s Stopped t \<and> IsStopped (gs_gate t) \<and> In_dma \<in> set (gs_threads t)"
proof -
  let ?open = "StopGate_new\<lparr>active_passes := 1\<rparr>"
  have e: "gate_step (gate_start 2) Other \<lparr>gs_gate = ?open, gs_threads = [Outside, Has_pass False]\<rparr>"
    using gate_step.enters [of 1 "[Outside, Outside]" False StopGate_new "Some True" ?open]
    by (simp add: gate_defs gate_start_def StopGate_new_def numeral_2_eq_2)
  have r: "gate_step \<lparr>gs_gate = ?open, gs_threads = [Outside, Has_pass False]\<rparr> Other
      \<lparr>gs_gate = StopGate_new, gs_threads = [Outside, In_dma]\<rparr>"
    using gate_step.releases [of 1 "[Outside, Has_pass False]" False ?open Pass_empty StopGate_new]
    by (simp add: gate_defs StopGate_new_def notify_all_def)
  have "gate_step \<lparr>gs_gate = StopGate_new, gs_threads = [Outside, In_dma]\<rparr> Stopped
      \<lparr>gs_gate = stopped_gate, gs_threads = [Outside, In_dma]\<rparr>"
    using gate_step.call_stop [of 0 "[Outside, In_dma]" StopGate_new Returns stopped_gate]
    by (simp add: gate_defs StopGate_new_def stopped_gate_def)
  then show ?thesis using gate_run_step [OF gate_run_one [OF e] r]
    by (fastforce simp: IsStopped_def stopped_gate_def)
qed

text \<open>Moving passes neither creates nor loses an active one; a target that was active is released.\<close>

lemma pass_assign_conserves:
  assumes "this = Pass_of a" "other = Pass_of b" "a \<Longrightarrow> 0 < active_passes g"
    and "Pass_assign this other g = (this', other', g')"
  shows "this' = Pass_of b \<and> other' = Pass_of False \<and> active_passes g' + of_bool a = active_passes g"
  using assms by (auto simp: Pass_assign_def gate_defs split: if_splits)

end
