(* ===== verification/Device_Pool.thy ===== *)
theory Device_Pool
  imports Prelude
begin

text \<open>
  \<^verbatim>\<open>src/lib/device_pool/device_pool.cpp\<close> and the load counters of \<^verbatim>\<open>device_task_layer.cpp\<close>: the discovery of
  the devices, the choice of a device for a request, the wait for a free one and the completion
  callbacks that end it. The state keeps the task layers in the order of their creation.
\<close>

section \<open>Devices\<close>

record task_layer =
  tl_id :: int
  tl_load :: int
  tl_fullLoad :: int
  tl_blocked :: bool
  tl_inferenceCnt :: int

record DevicePool =
  po_taskLayers :: "task_layer list"
  po_curDevIdx :: nat

text \<open>
  Exceptions: \<open>DeviceIOException\<close> of a missing or blocked device, the timeout of the wait.
  \<open>Bad_access\<close> is undefined behaviour: a modulus by zero or an index outside a vector.
\<close>

datatype device_error = DeviceIOException | Device_timeout | Bad_access

definition DXRT_NPU_FULL_MAX_LOAD :: int where "DXRT_NPU_FULL_MAX_LOAD = 10"

subsection \<open>Discovery\<close>

text \<open>
  The loop of \<open>InitCores_once\<close>: device files are numbered from 0 without gaps, \<open>files\<close> lists those
  that exist. \<open>forceNumDev\<close> and \<open>forceDevId\<close> come from the environment (0 and -1 when unset). The result
  is the last value of \<open>cnt\<close> and the ids of the cores.
\<close>

lemma later_files:
  assumes "cnt \<in> set files"
  shows "length (filter ((\<le>) (Suc cnt)) files) < length (filter ((\<le>) cnt) files)"
proof -
  have "filter ((\<le>) (Suc cnt)) files = filter ((\<le>) (Suc cnt)) (filter ((\<le>) cnt) files)"
    by (auto intro!: filter_cong)
  also have "length \<dots> < length (filter ((\<le>) cnt) files)" using assms by (intro length_filter_less) auto
  finally show ?thesis .
qed

function init_loop :: "nat list \<Rightarrow> int \<Rightarrow> int \<Rightarrow> nat \<Rightarrow> int list \<Rightarrow> nat \<times> int list" where
  "init_loop files forceNumDev forceDevId cnt cores =
     (if cnt \<in> set files then
        if 0 < forceNumDev \<and> forceNumDev \<le> int cnt then (cnt, cores)
        else if forceDevId \<noteq> -1 \<and> int cnt \<noteq> forceDevId then init_loop files forceNumDev forceDevId (cnt + 1) cores
        else init_loop files forceNumDev forceDevId (cnt + 1) (cores @ [int cnt])
      else (cnt, cores))"
  by pat_completeness auto
termination
  by (relation "measure (\<lambda>(files, _, _, cnt, _). length (filter (\<lambda>f. cnt \<le> f) files))") (auto simp: later_files)

declare init_loop.simps [simp del]

definition InitCores :: "nat list \<Rightarrow> int \<Rightarrow> int \<Rightarrow> device_error + int list" where
  "InitCores files forceNumDev forceDevId =
     (let (cnt, cores) = init_loop files forceNumDev forceDevId 0 [] in
      if cnt = 0 then Inl DeviceIOException else Inr cores)"

text \<open>\<open>acc\<close> tells the accelerator type from the stand-alone one, which takes one request at a time.\<close>

definition new_layer :: "(int \<Rightarrow> bool) \<Rightarrow> int \<Rightarrow> task_layer" where
  "new_layer acc d = \<lparr>tl_id = d, tl_load = 0, tl_fullLoad = (if acc d then DXRT_NPU_FULL_MAX_LOAD else 1),
     tl_blocked = False, tl_inferenceCnt = 0\<rparr>"

definition InitTaskLayers :: "(int \<Rightarrow> bool) \<Rightarrow> int list \<Rightarrow> DevicePool" where
  "InitTaskLayers acc cores = \<lparr>po_taskLayers = map (new_layer acc) cores, po_curDevIdx = 0\<rparr>"

subsection \<open>Choice\<close>

text \<open>Indexing a vector with an \<^verbatim>\<open>int\<close>.\<close>

definition layer_at :: "task_layer list \<Rightarrow> int \<Rightarrow> task_layer option" where
  "layer_at ls d = (if 0 \<le> d \<and> nat d < length ls then Some (ls ! nat d) else None)"

text \<open>The loop of \<open>pickDeviceIndex\<close> over the ids in the order it visits them.\<close>

fun pick_device_loop :: "task_layer list \<Rightarrow> int list \<Rightarrow> nat \<Rightarrow> int \<Rightarrow> int \<Rightarrow> (nat \<times> int) option" where
  "pick_device_loop ls [] block_count load device_index = Some (block_count, device_index)"
| "pick_device_loop ls (d # ds) block_count load device_index =
     (case layer_at ls d of
        None \<Rightarrow> None
      | Some l \<Rightarrow>
          if tl_blocked l then pick_device_loop ls ds (block_count + 1) load device_index
          else if tl_load l < tl_fullLoad l \<and> tl_load l < load then pick_device_loop ls ds block_count (tl_load l) d
          else pick_device_loop ls ds block_count load device_index)"

definition visiting_order :: "nat \<Rightarrow> int list \<Rightarrow> int list" where
  "visiting_order curDevIdx ids =
     (let n = length ids; startIdx = curDevIdx mod n in map (\<lambda>i. ids ! ((i + startIdx) mod n)) [0..<n])"

definition INT_MAX :: int where "INT_MAX = 2147483647"

definition pickDeviceIndex :: "int list \<Rightarrow> DevicePool \<Rightarrow> device_error + int" where
  "pickDeviceIndex device_ids p =
     (if device_ids = [] then Inl Bad_access
      else case pick_device_loop (po_taskLayers p) (visiting_order (po_curDevIdx p) device_ids) 0 INT_MAX (-1) of
        None \<Rightarrow> Inl Bad_access
      | Some (block_count, device_index) \<Rightarrow>
          if length device_ids \<le> block_count then Inl DeviceIOException else Inr device_index)"

definition GetDeviceTaskLayer :: "int \<Rightarrow> DevicePool \<Rightarrow> device_error + task_layer" where
  "GetDeviceTaskLayer deviceId p =
     (if int (length (po_taskLayers p)) \<le> deviceId then Inl DeviceIOException
      else case layer_at (po_taskLayers p) deviceId of None \<Rightarrow> Inl Bad_access | Some l \<Rightarrow> Inr l)"

definition update_layer :: "int \<Rightarrow> (task_layer \<Rightarrow> task_layer) \<Rightarrow> DevicePool \<Rightarrow> DevicePool" where
  "update_layer d f p =
     (case layer_at (po_taskLayers p) d of
        None \<Rightarrow> p
      | Some l \<Rightarrow> p\<lparr>po_taskLayers := (po_taskLayers p)[nat d := f l]\<rparr>)"

definition pick_layer :: "task_layer \<Rightarrow> task_layer" where
  "pick_layer l = l\<lparr>tl_load := tl_load l + 1\<rparr>"

text \<open>
  One evaluation of the predicate of \<open>WaitDevice\<close> and, when it holds, the rest of the function:
  \<open>Inr None\<close> when the caller sleeps.
\<close>

definition WaitDevice :: "int list \<Rightarrow> DevicePool \<Rightarrow> device_error + (int \<times> DevicePool) option" where
  "WaitDevice device_ids p =
     (case pickDeviceIndex device_ids p of
        Inl e \<Rightarrow> Inl e
      | Inr picked \<Rightarrow>
          if 0 \<le> picked then
            Inr (Some (picked, (update_layer picked pick_layer p)\<lparr>po_curDevIdx := (po_curDevIdx p + 1) mod 1000000\<rparr>))
          else Inr None)"

text \<open>The counters of \<open>DeviceTaskLayer::CallBack\<close>; the notification of the pool is a step of its own.\<close>

definition CallBack :: "int \<Rightarrow> DevicePool \<Rightarrow> DevicePool" where
  "CallBack d p = update_layer d (\<lambda>l. l\<lparr>tl_load := tl_load l - 1, tl_inferenceCnt := tl_inferenceCnt l + 1\<rparr>) p"

definition block :: "int \<Rightarrow> DevicePool \<Rightarrow> DevicePool" where
  "block d p = update_layer d (\<lambda>l. l\<lparr>tl_blocked := True\<rparr>) p"

definition unblock :: "int \<Rightarrow> DevicePool \<Rightarrow> DevicePool" where
  "unblock d p = update_layer d (\<lambda>l. l\<lparr>tl_blocked := False\<rparr>) p"

section \<open>Pickers and completions\<close>

text \<open>
  \<open>PickOneDevice\<close> holds a mutex of its own around \<open>WaitDevice\<close>, so there is at most one picker; it tests
  its condition or sleeps. \<open>ps_awaking\<close> counts the callbacks that have lowered a load and have still to
  notify. \<open>ps_inflight\<close> are the devices of the requests picked and not completed; a request whose transfer fails
  in the process without the service blocks its device and returns without a callback (\<open>ps_lost\<close>).
\<close>

datatype picker = Nobody | Testing_device "int list" | Waiting_device "int list"

record pool_sys =
  ps_pool :: DevicePool
  ps_picker :: picker
  ps_inflight :: "int list"
  ps_lost :: "int list"
  ps_awaking :: nat

fun awaken :: "picker \<Rightarrow> picker" where
  "awaken (Waiting_device ids) = Testing_device ids"
| "awaken p = p"

datatype device_event = Picked int | Threw device_error | Recovered int | Device_other

inductive device_step :: "pool_sys \<Rightarrow> device_event \<Rightarrow> pool_sys \<Rightarrow> bool" where
  ps_call: "ps_picker s = Nobody \<Longrightarrow> device_step s Device_other (s\<lparr>ps_picker := Testing_device ids\<rparr>)"
| ps_pick: "ps_picker s = Testing_device ids \<Longrightarrow> WaitDevice ids (ps_pool s) = Inr (Some (d, p)) \<Longrightarrow>
    device_step s (Picked d) (s\<lparr>ps_pool := p, ps_picker := Nobody, ps_inflight := d # ps_inflight s\<rparr>)"
| ps_wait: "ps_picker s = Testing_device ids \<Longrightarrow> WaitDevice ids (ps_pool s) = Inr None \<Longrightarrow>
    device_step s Device_other (s\<lparr>ps_picker := Waiting_device ids\<rparr>)"
| ps_throw: "ps_picker s = Testing_device ids \<Longrightarrow> WaitDevice ids (ps_pool s) = Inl e \<Longrightarrow>
    device_step s (Threw e) (s\<lparr>ps_picker := Nobody\<rparr>)"
| ps_timeout: "ps_picker s = Waiting_device ids \<Longrightarrow> WaitDevice ids (ps_pool s) = Inr None \<Longrightarrow>
    device_step s (Threw Device_timeout) (s\<lparr>ps_picker := Nobody\<rparr>)"
| ps_spurious: "ps_picker s = Waiting_device ids \<Longrightarrow> device_step s Device_other (s\<lparr>ps_picker := Testing_device ids\<rparr>)"
| ps_complete: "d \<in> set (ps_inflight s) \<Longrightarrow>
    device_step s Device_other (s\<lparr>ps_pool := CallBack d (ps_pool s), ps_inflight := remove1 d (ps_inflight s),
      ps_awaking := ps_awaking s + 1\<rparr>)"
| ps_awake: "0 < ps_awaking s \<Longrightarrow>
    device_step s Device_other (s\<lparr>ps_awaking := ps_awaking s - 1, ps_picker := awaken (ps_picker s)\<rparr>)"
| ps_fail: "d \<in> set (ps_inflight s) \<Longrightarrow>
    device_step s Device_other (s\<lparr>ps_pool := block d (ps_pool s), ps_inflight := remove1 d (ps_inflight s),
      ps_lost := d # ps_lost s\<rparr>)"
| ps_recover: "device_step s (Recovered d) (s\<lparr>ps_pool := unblock d (ps_pool s)\<rparr>)"

definition pool_start :: "(int \<Rightarrow> bool) \<Rightarrow> int list \<Rightarrow> pool_sys" where
  "pool_start acc cores = \<lparr>ps_pool = InitTaskLayers acc cores, ps_picker = Nobody, ps_inflight = [], ps_lost = [], ps_awaking = 0\<rparr>"

inductive device_run :: "pool_sys \<Rightarrow> device_event list \<Rightarrow> pool_sys \<Rightarrow> bool" where
  device_run_nil: "device_run s [] s"
| device_run_step: "device_run s es t \<Longrightarrow> device_step t e u \<Longrightarrow> device_run s (es @ [e]) u"

end
