(* ===== verification/Device_Pool_Correct.thy ===== *)
theory Device_Pool_Correct
  imports Device_Pool
begin

text \<open>
  The choice of a device is the least loaded usable one, first in round-robin order; the load
  counters count the requests in flight and stay within the limit of the device for every
  interleaving of pickers, completions, failures and recoveries.
\<close>

section \<open>The choice\<close>

definition usable :: "task_layer list \<Rightarrow> int \<Rightarrow> bool" where
  "usable ls d \<longleftrightarrow> (\<exists>l. layer_at ls d = Some l \<and> \<not> tl_blocked l \<and> tl_load l < tl_fullLoad l)"

definition blocked_at :: "task_layer list \<Rightarrow> int \<Rightarrow> bool" where
  "blocked_at ls d \<longleftrightarrow> (\<exists>l. layer_at ls d = Some l \<and> tl_blocked l)"

definition load_at :: "task_layer list \<Rightarrow> int \<Rightarrow> int" where
  "load_at ls d = (case layer_at ls d of None \<Rightarrow> 0 | Some l \<Rightarrow> tl_load l)"

text \<open>\<open>d\<close> is the first element of \<open>ds\<close> with the least load among the usable ones.\<close>

definition first_least :: "task_layer list \<Rightarrow> int list \<Rightarrow> int \<Rightarrow> bool" where
  "first_least ls ds d \<longleftrightarrow> (\<exists>xs ys. ds = xs @ d # ys \<and> usable ls d \<and>
     (\<forall>e \<in> set xs. usable ls e \<longrightarrow> load_at ls d < load_at ls e) \<and>
     (\<forall>e \<in> set ys. usable ls e \<longrightarrow> load_at ls d \<le> load_at ls e))"

lemma first_least_skip:
  assumes "first_least ls ds d" "usable ls e \<Longrightarrow> load_at ls d < load_at ls e"
  shows "first_least ls (e # ds) d"
proof -
  obtain xs ys where "ds = xs @ d # ys" "usable ls d" "\<forall>e \<in> set xs. usable ls e \<longrightarrow> load_at ls d < load_at ls e"
    "\<forall>e \<in> set ys. usable ls e \<longrightarrow> load_at ls d \<le> load_at ls e" using assms(1) by (auto simp: first_least_def)
  with assms(2) show ?thesis unfolding first_least_def by (intro exI [of _ "e # xs"] exI [of _ ys]) auto
qed

lemma first_least_here:
  assumes "usable ls d" "\<forall>e \<in> set ds. usable ls e \<longrightarrow> load_at ls d \<le> load_at ls e"
  shows "first_least ls (d # ds) d"
  using assms unfolding first_least_def by (intro exI [of _ "[]"] exI [of _ ds]) auto

lemma pick_device_loop_spec:
  assumes "\<forall>d \<in> set ds. layer_at ls d \<noteq> None"
  shows "\<exists>di'. pick_device_loop ls ds bc load di = Some (bc + length (filter (blocked_at ls) ds), di') \<and>
    (if \<exists>d \<in> set ds. usable ls d \<and> load_at ls d < load then first_least ls ds di' \<and> load_at ls di' < load else di' = di)"
  using assms
proof (induction ds arbitrary: bc load di)
  case (Cons d ds)
  then obtain l where l: "layer_at ls d = Some l" by auto
  have ld: "load_at ls d = tl_load l" by (simp add: load_at_def l)
  have us: "usable ls d \<longleftrightarrow> \<not> tl_blocked l \<and> tl_load l < tl_fullLoad l" by (simp add: usable_def l)
  have bl: "blocked_at ls d \<longleftrightarrow> tl_blocked l" by (simp add: blocked_at_def l)
  consider (blocked) "tl_blocked l" | (taken) "\<not> tl_blocked l" "tl_load l < tl_fullLoad l" "tl_load l < load"
    | (skipped) "\<not> tl_blocked l" "\<not> (tl_load l < tl_fullLoad l \<and> tl_load l < load)" by blast
  then show ?case
  proof cases
    case blocked
    from Cons.IH [of "bc + 1" load di] Cons.prems obtain x where
      x: "pick_device_loop ls ds (bc + 1) load di = Some (bc + 1 + length (filter (blocked_at ls) ds), x)"
      "if \<exists>d \<in> set ds. usable ls d \<and> load_at ls d < load then first_least ls ds x \<and> load_at ls x < load else x = di" by auto
    with blocked l us bl show ?thesis by (intro exI [of _ x]) (auto intro: first_least_skip split: if_splits)
  next
    case taken
    from Cons.IH [of bc "tl_load l" d] Cons.prems obtain x where
      x: "pick_device_loop ls ds bc (tl_load l) d = Some (bc + length (filter (blocked_at ls) ds), x)"
      "if \<exists>d \<in> set ds. usable ls d \<and> load_at ls d < tl_load l then first_least ls ds x \<and> load_at ls x < tl_load l else x = d" by auto
    have "first_least ls (d # ds) x \<and> load_at ls x < load"
    proof (cases "\<exists>e \<in> set ds. usable ls e \<and> load_at ls e < tl_load l")
      case True
      with x(2) taken ld show ?thesis by (auto intro: first_least_skip)
    next
      case False
      with x(2) taken ld us show ?thesis by (auto intro!: first_least_here simp: not_less)
    qed
    with x taken l us bl ld show ?thesis by (intro exI [of _ x]) auto
  next
    case skipped
    from Cons.IH [of bc load di] Cons.prems obtain x where
      x: "pick_device_loop ls ds bc load di = Some (bc + length (filter (blocked_at ls) ds), x)"
      "if \<exists>d \<in> set ds. usable ls d \<and> load_at ls d < load then first_least ls ds x \<and> load_at ls x < load else x = di" by auto
    with skipped l us bl ld show ?thesis by (intro exI [of _ x]) (auto intro!: first_least_skip split: if_splits)
  qed
qed simp

lemma visiting_order_rotate: "visiting_order cur ids = rotate (cur mod length ids) ids"
  by (rule nth_equalityI) (auto simp: visiting_order_def Let_def nth_rotate add.commute)

definition pool_ok :: "DevicePool \<Rightarrow> bool" where
  "pool_ok p \<longleftrightarrow> (\<forall>l \<in> set (po_taskLayers p). 0 \<le> tl_load l \<and> tl_load l \<le> tl_fullLoad l \<and> 1 \<le> tl_fullLoad l \<and> tl_fullLoad l \<le> INT_MAX)"

lemma usable_below_max:
  assumes "pool_ok p" "usable (po_taskLayers p) d"
  shows "load_at (po_taskLayers p) d < INT_MAX"
proof -
  obtain l where l: "layer_at (po_taskLayers p) d = Some l" "tl_load l < tl_fullLoad l" using assms(2) by (auto simp: usable_def)
  then have "l \<in> set (po_taskLayers p)" by (auto simp: layer_at_def split: if_splits)
  with l assms(1) show ?thesis by (auto simp: load_at_def pool_ok_def)
qed

lemma pickDeviceIndex_spec:
  assumes "pool_ok p" and "ids \<noteq> []" and "\<forall>d \<in> set ids. layer_at (po_taskLayers p) d \<noteq> None"
  shows "case pickDeviceIndex ids p of
      Inl e \<Rightarrow> e = DeviceIOException \<and> (\<forall>d \<in> set ids. blocked_at (po_taskLayers p) d)
    | Inr r \<Rightarrow> (\<exists>d \<in> set ids. \<not> blocked_at (po_taskLayers p) d) \<and>
        (if \<exists>d \<in> set ids. usable (po_taskLayers p) d
         then first_least (po_taskLayers p) (rotate (po_curDevIdx p mod length ids) ids) r else r = -1)"
proof -
  let ?ls = "po_taskLayers p" and ?ds = "rotate (po_curDevIdx p mod length ids) ids"
  have "\<forall>d \<in> set ?ds. layer_at ?ls d \<noteq> None" using assms(3) by simp
  from pick_device_loop_spec [OF this, of 0 INT_MAX "-1"] obtain r where
    r: "pick_device_loop ?ls ?ds 0 INT_MAX (-1) = Some (length (filter (blocked_at ?ls) ?ds), r)"
    "if \<exists>d \<in> set ids. usable ?ls d \<and> load_at ?ls d < INT_MAX then first_least ?ls ?ds r \<and> load_at ?ls r < INT_MAX else r = -1"
    by auto
  have all: "length ids \<le> length (filter (blocked_at ?ls) ?ds) \<longleftrightarrow> (\<forall>d \<in> set ids. blocked_at ?ls d)"
    by (metis filter_True length_filter_le length_filter_less length_rotate nless_le not_le set_rotate)
  have "pickDeviceIndex ids p = (if \<forall>d \<in> set ids. blocked_at ?ls d then Inl DeviceIOException else Inr r)"
    using assms(2) r(1) all by (simp add: pickDeviceIndex_def visiting_order_rotate)
  with r(2) usable_below_max [OF assms(1)] show ?thesis by (auto split: if_splits)
qed

text \<open>
  Claim C32. On valid device ids \<open>pickDeviceIndex\<close> throws exactly when every device is blocked; it answers
  -1 when those that are not blocked are all at their full load; and otherwise it chooses, of the devices that are
  neither blocked nor full, the one with the least load, the first of them in round-robin order.
\<close>
theorem pick_least_loaded:
  assumes "pool_ok p" and "ids \<noteq> []" and "\<forall>d \<in> set ids. layer_at (po_taskLayers p) d \<noteq> None"
  shows "case pickDeviceIndex ids p of
      Inl e \<Rightarrow> e = DeviceIOException \<and> (\<forall>d \<in> set ids. blocked_at (po_taskLayers p) d)
    | Inr r \<Rightarrow> (\<exists>d \<in> set ids. \<not> blocked_at (po_taskLayers p) d) \<and>
        (if \<exists>d \<in> set ids. usable (po_taskLayers p) d
         then first_least (po_taskLayers p) (rotate (po_curDevIdx p mod length ids) ids) r else r = -1)"
  using assms by (rule pickDeviceIndex_spec)

definition three_layers :: DevicePool where
  "three_layers = \<lparr>po_taskLayers =
     [\<lparr>tl_id = 0, tl_load = 4, tl_fullLoad = 10, tl_blocked = False, tl_inferenceCnt = 0\<rparr>,
      \<lparr>tl_id = 1, tl_load = 0, tl_fullLoad = 10, tl_blocked = True, tl_inferenceCnt = 0\<rparr>,
      \<lparr>tl_id = 2, tl_load = 4, tl_fullLoad = 10, tl_blocked = False, tl_inferenceCnt = 0\<rparr>],
     po_curDevIdx = 5\<rparr>"

theorem pick_least_loaded_witness:
  "pickDeviceIndex [0, 1, 2] three_layers = Inr 2 \<and>
   first_least (po_taskLayers three_layers) [2, 0, 1] 2 \<and> \<not> blocked_at (po_taskLayers three_layers) 0"
proof -
  have r: "pickDeviceIndex [0, 1, 2] three_layers = Inr 2" by code_simp
  have u: "usable (po_taskLayers three_layers) 2" "\<not> blocked_at (po_taskLayers three_layers) 0"
    by (simp_all add: usable_def blocked_at_def three_layers_def layer_at_def)
  have rot: "rotate (po_curDevIdx three_layers mod length [0, 1, 2 :: int]) [0, 1, 2 :: int] = [2, 0, 1]" by code_simp
  have "pool_ok three_layers" by code_simp
  from pick_least_loaded [OF this, of "[0, 1, 2]"] r u show ?thesis
    unfolding rot by (auto simp: three_layers_def layer_at_def)
qed

section \<open>Loads\<close>

lemma layer_at_update:
  "layer_at (po_taskLayers (update_layer d f p)) e =
     (if e = d then map_option f (layer_at (po_taskLayers p) d) else layer_at (po_taskLayers p) e)"
proof (cases "layer_at (po_taskLayers p) d")
  case None
  then show ?thesis by (auto simp: update_layer_def)
next
  case (Some l)
  then have "0 \<le> d" "nat d < length (po_taskLayers p)" "po_taskLayers p ! nat d = l" by (auto simp: layer_at_def split: if_splits)
  moreover have "nat e \<noteq> nat d" if "e \<noteq> d" "0 \<le> e" using that \<open>0 \<le> d\<close> by (simp add: eq_nat_nat_iff)
  ultimately show ?thesis using Some by (auto simp: update_layer_def layer_at_def)
qed

lemma curDevIdx_layers [simp]: "po_taskLayers (p\<lparr>po_curDevIdx := c\<rparr>) = po_taskLayers p"
  by simp

lemma pick_device_loop_valid: "pick_device_loop ls ds bc load di = Some r \<Longrightarrow> d \<in> set ds \<Longrightarrow> layer_at ls d \<noteq> None"
  by (induction ds arbitrary: bc load di) (auto split: option.splits if_splits)

lemma pickDeviceIndex_valid:
  assumes "pickDeviceIndex ids p = Inr r"
  shows "ids \<noteq> []" "\<forall>d \<in> set ids. layer_at (po_taskLayers p) d \<noteq> None"
  using assms pick_device_loop_valid [of "po_taskLayers p" "visiting_order (po_curDevIdx p) ids" 0 INT_MAX "-1"]
  by (auto simp: pickDeviceIndex_def visiting_order_rotate split: if_splits option.splits)

lemma WaitDevice_picks:
  assumes "pool_ok p" "WaitDevice ids p = Inr (Some (d, p'))"
  shows "usable (po_taskLayers p) d" "d \<in> set ids"
    "p' = (update_layer d pick_layer p)\<lparr>po_curDevIdx := (po_curDevIdx p + 1) mod 1000000\<rparr>"
proof -
  from assms(2) have d: "pickDeviceIndex ids p = Inr d" "0 \<le> d"
    "p' = (update_layer d pick_layer p)\<lparr>po_curDevIdx := (po_curDevIdx p + 1) mod 1000000\<rparr>"
    by (auto simp: WaitDevice_def split: sum.splits if_splits)
  then show "p' = (update_layer d pick_layer p)\<lparr>po_curDevIdx := (po_curDevIdx p + 1) mod 1000000\<rparr>" by simp
  from pickDeviceIndex_spec [OF assms(1) pickDeviceIndex_valid [OF d(1)]] d
  have "first_least (po_taskLayers p) (rotate (po_curDevIdx p mod length ids) ids) d" by (auto split: if_splits)
  then have "usable (po_taskLayers p) d" "d \<in> set (rotate (po_curDevIdx p mod length ids) ids)"
    unfolding first_least_def by (blast, metis in_set_conv_decomp)
  then show "usable (po_taskLayers p) d" "d \<in> set ids" by simp_all
qed

text \<open>The counters are exact: requests in flight and those lost to a failed transfer.\<close>

definition layer_ok :: "nat \<Rightarrow> task_layer \<Rightarrow> bool" where
  "layer_ok n l \<longleftrightarrow> tl_load l = int n \<and> tl_load l \<le> tl_fullLoad l \<and> 1 \<le> tl_fullLoad l \<and> tl_fullLoad l \<le> DXRT_NPU_FULL_MAX_LOAD"

definition sys_ok :: "pool_sys \<Rightarrow> bool" where
  "sys_ok s \<longleftrightarrow> (\<forall>d l. layer_at (po_taskLayers (ps_pool s)) d = Some l \<longrightarrow>
      layer_ok (count_list (ps_inflight s) d + count_list (ps_lost s) d) l)"

lemma sys_ok_pool: "sys_ok s \<Longrightarrow> pool_ok (ps_pool s)"
  unfolding sys_ok_def pool_ok_def
proof (intro ballI)
  fix l assume *: "\<forall>d l. layer_at (po_taskLayers (ps_pool s)) d = Some l \<longrightarrow>
      layer_ok (count_list (ps_inflight s) d + count_list (ps_lost s) d) l"
    and "l \<in> set (po_taskLayers (ps_pool s))"
  then obtain i where "i < length (po_taskLayers (ps_pool s))" "po_taskLayers (ps_pool s) ! i = l" by (auto simp: in_set_conv_nth)
  then have "layer_at (po_taskLayers (ps_pool s)) (int i) = Some l" by (simp add: layer_at_def)
  with * show "0 \<le> tl_load l \<and> tl_load l \<le> tl_fullLoad l \<and> 1 \<le> tl_fullLoad l \<and> tl_fullLoad l \<le> INT_MAX" by (fastforce simp: layer_ok_def DXRT_NPU_FULL_MAX_LOAD_def INT_MAX_def)
qed

lemma count_list_member: "d \<in> set xs \<Longrightarrow> 0 < count_list xs d"
  by (metis count_list_0_iff gr0I)

lemma pool_start_ok: "sys_ok (pool_start acc cores)"
  by (auto simp: sys_ok_def pool_start_def InitTaskLayers_def layer_at_def new_layer_def layer_ok_def
      DXRT_NPU_FULL_MAX_LOAD_def INT_MAX_def split: if_splits)

text \<open>A step that changes one layer and the requests on it keeps the counters exact.\<close>

lemma sys_ok_update:
  assumes "sys_ok s" and "po_taskLayers (ps_pool t) = po_taskLayers (update_layer d f (ps_pool s))"
    and "\<And>e. e \<noteq> d \<Longrightarrow> count_list (ps_inflight t) e + count_list (ps_lost t) e = count_list (ps_inflight s) e + count_list (ps_lost s) e"
    and "\<And>l. layer_at (po_taskLayers (ps_pool s)) d = Some l \<Longrightarrow> layer_ok (count_list (ps_inflight s) d + count_list (ps_lost s) d) l \<Longrightarrow>
      layer_ok (count_list (ps_inflight t) d + count_list (ps_lost t) d) (f l)"
  shows "sys_ok t"
  using assms(1,4) unfolding sys_ok_def assms(2) layer_at_update
  by (auto simp: assms(3) split: if_splits)

lemma device_step_ok:
  assumes "device_step s e t" "sys_ok s"
  shows "sys_ok t"
  using assms(1)
proof cases
  case (ps_pick ids d p)
  have "usable (po_taskLayers (ps_pool s)) d"
    and p: "p = (update_layer d pick_layer (ps_pool s))\<lparr>po_curDevIdx := (po_curDevIdx (ps_pool s) + 1) mod 1000000\<rparr>"
    using WaitDevice_picks [OF sys_ok_pool [OF assms(2)] ps_pick(4)] by auto
  then show ?thesis unfolding ps_pick(2) p
    by (intro sys_ok_update [OF assms(2), where d = d and f = pick_layer]) (auto simp: layer_ok_def pick_layer_def usable_def)
next
  case (ps_complete d)
  then show ?thesis using count_list_member [OF ps_complete(3)]
    by (intro sys_ok_update [OF assms(2), where d = d and f = "\<lambda>l. l\<lparr>tl_load := tl_load l - 1, tl_inferenceCnt := tl_inferenceCnt l + 1\<rparr>"])
      (auto simp: layer_ok_def CallBack_def)
next
  case (ps_fail d)
  then show ?thesis using count_list_member [OF ps_fail(3)]
    by (intro sys_ok_update [OF assms(2), where d = d and f = "\<lambda>l. l\<lparr>tl_blocked := True\<rparr>"]) (auto simp: layer_ok_def block_def)
next
  case (ps_recover d)
  then show ?thesis
    by (intro sys_ok_update [OF assms(2), where d = d and f = "\<lambda>l. l\<lparr>tl_blocked := False\<rparr>"]) (auto simp: layer_ok_def unblock_def)
qed (use assms(2) in \<open>auto simp: sys_ok_def\<close>)

lemma device_run_ok: "device_run s es t \<Longrightarrow> sys_ok s \<Longrightarrow> sys_ok t"
  by (induction rule: device_run.induct) (auto intro: device_step_ok)


section \<open>Waiting\<close>

text \<open>The picker sleeps only while no device is usable, or a completion has still to notify it.\<close>

definition picker_ok :: "pool_sys \<Rightarrow> bool" where
  "picker_ok s \<longleftrightarrow> (\<forall>ids. ps_picker s = Waiting_device ids \<longrightarrow>
     0 < ps_awaking s \<or> (\<forall>d \<in> set ids. \<not> usable (po_taskLayers (ps_pool s)) d))"

lemma WaitDevice_sleeps:
  assumes "pool_ok p" "WaitDevice ids p = Inr None" "d \<in> set ids"
  shows "\<not> usable (po_taskLayers p) d"
proof
  assume u: "usable (po_taskLayers p) d"
  from assms(2) obtain r where r: "pickDeviceIndex ids p = Inr r" "r < 0"
    by (auto simp: WaitDevice_def split: sum.splits if_splits)
  from pickDeviceIndex_spec [OF assms(1) pickDeviceIndex_valid [OF r(1)]] r u assms(3)
  have "first_least (po_taskLayers p) (rotate (po_curDevIdx p mod length ids) ids) r" by (auto split: if_splits)
  then show False using r(2) by (auto simp: first_least_def usable_def layer_at_def split: if_splits)
qed

lemma usable_block: "usable (po_taskLayers (block d p)) e \<Longrightarrow> usable (po_taskLayers p) e"
  by (auto simp: usable_def block_def layer_at_update split: if_splits)

lemma picker_step_ok:
  assumes "device_step s e t" "sys_ok s" "picker_ok s" "\<And>d. e \<noteq> Recovered d"
  shows "picker_ok t"
  using assms(1)
proof cases
  case (ps_wait ids)
  with WaitDevice_sleeps [OF sys_ok_pool [OF assms(2)]] show ?thesis by (auto simp: picker_ok_def)
next
  case (ps_fail d)
  with assms(3) usable_block show ?thesis by (fastforce simp: picker_ok_def)
next
  case ps_awake
  then show ?thesis by (cases "ps_picker s") (auto simp: picker_ok_def)
qed (use assms(3,4) in \<open>auto simp: picker_ok_def\<close>)

lemma picker_run_ok:
  assumes "device_run s es t" "sys_ok s" "picker_ok s" "\<forall>d. Recovered d \<notin> set es"
  shows "picker_ok t"
  using assms by (induction rule: device_run.induct) (fastforce intro: picker_step_ok device_run_ok)+

text \<open>
  While no blocked device is put back into service, a picker never sleeps beside a usable
  device: if one of its devices is neither blocked nor full, a completion that will wake it is under way.
\<close>

lemma picker_no_lost_wakeup:
  assumes "device_run (pool_start acc cores) es s" and "\<forall>d. Recovered d \<notin> set es"
    and "ps_picker s = Waiting_device ids" and "d \<in> set ids" and "usable (po_taskLayers (ps_pool s)) d"
  shows "device_step s Device_other (s\<lparr>ps_awaking := ps_awaking s - 1, ps_picker := Testing_device ids\<rparr>) \<and> 0 < ps_awaking s"
proof -
  have "picker_ok (pool_start acc cores)" by (simp add: picker_ok_def pool_start_def)
  with assms have "0 < ps_awaking s" using picker_run_ok [OF assms(1) pool_start_ok _ assms(2)] by (auto simp: picker_ok_def)
  with ps_awake [of s] assms(3) show ?thesis by simp
qed

section \<open>Concrete runs\<close>

text \<open>
  Two devices: 0 takes one request, 1 takes ten. A request is picked for 0, the next picker waits
  for it, the request completes.
\<close>

definition two_devices :: "int \<Rightarrow> bool" where
  "two_devices d \<longleftrightarrow> d = 1"

definition picked0 :: pool_sys where
  "picked0 = \<lparr>ps_pool = \<lparr>po_taskLayers =
       [\<lparr>tl_id = 0, tl_load = 1, tl_fullLoad = 1, tl_blocked = False, tl_inferenceCnt = 0\<rparr>,
        \<lparr>tl_id = 1, tl_load = 0, tl_fullLoad = 10, tl_blocked = False, tl_inferenceCnt = 0\<rparr>], po_curDevIdx = 1\<rparr>,
     ps_picker = Nobody, ps_inflight = [0], ps_lost = [], ps_awaking = 0\<rparr>"

lemmas pool_eval = WaitDevice_def pickDeviceIndex_def visiting_order_def update_layer_def layer_at_def pick_layer_def CallBack_def
  INT_MAX_def DXRT_NPU_FULL_MAX_LOAD_def InitTaskLayers_def new_layer_def two_devices_def pool_start_def picked0_def

lemma run_picked0: "device_run (pool_start two_devices [0, 1]) ([Device_other] @ [Picked 0]) picked0"
proof -
  let ?s = "(pool_start two_devices [0, 1])\<lparr>ps_picker := Testing_device [0]\<rparr>"
  have "device_run (pool_start two_devices [0, 1]) ([] @ [Device_other]) ?s"
    by (intro device_run_step [OF device_run_nil] ps_call) (simp add: pool_start_def)
  moreover have "WaitDevice [0] (ps_pool ?s) = Inr (Some (0, ps_pool picked0))" by (simp add: pool_eval)
  from ps_pick [OF _ this] have "device_step ?s (Picked 0) picked0" by (simp add: picked0_def pool_start_def)
  ultimately show ?thesis using device_run_step [of _ "[Device_other]"] by simp
qed

definition waiting0 :: pool_sys where
  "waiting0 = picked0\<lparr>ps_picker := Waiting_device [0]\<rparr>"

lemma run_waiting0: "device_run (pool_start two_devices [0, 1]) [Device_other, Picked 0, Device_other, Device_other] waiting0"
proof -
  let ?s = "picked0\<lparr>ps_picker := Testing_device [0]\<rparr>"
  have "device_step picked0 Device_other ?s" by (intro ps_call) (simp add: picked0_def)
  note run = device_run_step [OF run_picked0 this]
  have "WaitDevice [0] (ps_pool ?s) = Inr None" by (simp add: pool_eval)
  from ps_wait [OF _ this] have "device_step ?s Device_other waiting0" by (simp add: waiting0_def)
  from device_run_step [OF run this] show ?thesis by simp
qed

definition completed0 :: pool_sys where
  "completed0 = waiting0\<lparr>ps_pool := CallBack 0 (ps_pool waiting0), ps_inflight := [], ps_awaking := 1\<rparr>"

lemma run_completed0:
  "device_run (pool_start two_devices [0, 1]) ([Device_other, Picked 0, Device_other, Device_other] @ [Device_other]) completed0"
  using ps_complete [of 0 waiting0] by (intro device_run_step [OF run_waiting0]) (simp add: completed0_def waiting0_def picked0_def)


text \<open>
  A device that comes back from recovery does not wake the picker: \<open>unblock\<close> has no notification. The
  picker sleeps beside a usable idle device and nothing is under way that would wake it.
\<close>

lemma recovery_does_not_wake:
  "\<exists>s. device_step (waiting0\<lparr>ps_picker := Waiting_device [0, 1], ps_pool := block 1 (ps_pool waiting0)\<rparr>) (Recovered 1) s \<and>
     ps_picker s = Waiting_device [0, 1] \<and> ps_awaking s = 0 \<and> usable (po_taskLayers (ps_pool s)) 1"
  by (intro exI conjI, rule ps_recover)
    (simp_all add: waiting0_def picked0_def block_def unblock_def update_layer_def layer_at_def usable_def)

text \<open>The load of a request whose transfer failed is never given back, also after the recovery of the device.\<close>

lemma lost_load_stays:
  assumes "device_run s es t"
  shows "count_list (ps_lost s) d \<le> count_list (ps_lost t) d"
  using assms
proof (induction rule: device_run.induct)
  case (device_run_step s es t e u)
  from device_run_step(2) have "count_list (ps_lost t) d \<le> count_list (ps_lost u) d" by cases auto
  with device_run_step(3) show ?case by simp
qed simp

text \<open>
  Ten failed transfers close an accelerator for ever: from then on every picker that can only use it
  times out, blocked or not.
\<close>

lemma failed_transfers_exhaust_device:
  assumes "device_run (pool_start acc cores) es s" "10 \<le> count_list (ps_lost s) d" "device_run s fs t"
  shows "\<not> usable (po_taskLayers (ps_pool t)) d"
proof
  assume "usable (po_taskLayers (ps_pool t)) d"
  then obtain l where l: "layer_at (po_taskLayers (ps_pool t)) d = Some l" "tl_load l < tl_fullLoad l" by (auto simp: usable_def)
  have "sys_ok t" using assms device_run_ok pool_start_ok by blast
  with l have "layer_ok (count_list (ps_inflight t) d + count_list (ps_lost t) d) l" by (auto simp: sys_ok_def)
  with l lost_load_stays [OF assms(3), of d] assms(2) show False by (auto simp: layer_ok_def DXRT_NPU_FULL_MAX_LOAD_def)
qed

text \<open>
  With a forced device id the cores keep their numbers as ids but not as positions, and the pool
  indexes its layers by id: the only device is found, and every use of it is out of range. A
  forced id that does not exist leaves the pool empty without an exception.
\<close>

lemma forced_device_out_of_range:
  "InitCores [0, 1, 2] 0 2 = Inr [2] \<and> pickDeviceIndex [2] (InitTaskLayers acc [2]) = Inl Bad_access \<and>
   GetDeviceTaskLayer 2 (InitTaskLayers acc [2]) = Inl DeviceIOException \<and> InitCores [0, 1] 0 7 = Inr []"
  by (simp add: InitCores_def init_loop.simps pickDeviceIndex_def visiting_order_def InitTaskLayers_def layer_at_def GetDeviceTaskLayer_def)

lemma negative_device_id_unchecked: "d < 0 \<Longrightarrow> GetDeviceTaskLayer d p = Inl Bad_access"
  by (simp add: GetDeviceTaskLayer_def layer_at_def)

text \<open>Without forced values the cores are the existing files, numbered by position.\<close>

lemma init_loop_all:
  assumes "set files = {0..<n}" "cnt \<le> n"
  shows "init_loop files 0 (-1) cnt cores = (n, cores @ map int [cnt..<n])"
  using assms(2)
proof (induction "n - cnt" arbitrary: cnt cores)
  case 0
  with assms(1) show ?case by (subst init_loop.simps) auto
next
  case (Suc k)
  then have "cnt < n" by simp
  with Suc assms(1) have "init_loop files 0 (-1) cnt cores = (n, (cores @ [int cnt]) @ map int [cnt + 1..<n])"
    by (subst init_loop.simps) (auto intro: Suc.hyps(1))
  with \<open>cnt < n\<close> show ?case by (simp add: upt_conv_Cons)
qed

lemma InitCores_all:
  assumes "set files = {0..<n}" "0 < n"
  shows "InitCores files 0 (-1) = Inr (map int [0..<n])"
  using init_loop_all [OF assms(1), of 0 "[]"] assms(2) by (simp add: InitCores_def)

end
