(* ===== verification/No_Service.thy ===== *)
theory No_Service
  imports Npu_Memory_Correct Memfd_Service
begin

text \<open>
  \<^verbatim>\<open>src/lib/device_pool/no_service_layer.cpp\<close> and the inline functions of
  \<^verbatim>\<open>service_abstract_layer.h\<close>: the service layer of a process that runs without the daemon. It owns one
  allocator per device (\<^verbatim>\<open>Npu_Memory\<close>) and hands out blocks with ids of its own. The locale states
  what a client of any service layer relies on; this layer is its instance.
\<close>

section \<open>Operations\<close>

datatype MemoryType = Normal | Model_rmap | Model_weight | Input_output | Model_ppu_binary

record NoServiceLayer =
  ns_mems :: "(int, Memory) omap"
  ns_blockIdToAddr :: "(int, u64) omap"
  ns_nextBlockId :: int

definition NoServiceLayer_new :: NoServiceLayer where
  "NoServiceLayer_new = \<lparr>ns_mems = [], ns_blockIdToAddr = [], ns_nextBlockId = 1\<rparr>"

text \<open>\<^verbatim>\<open>emplace\<close> keeps an existing allocator.\<close>

definition RegisterDeviceCore :: "int \<Rightarrow> u64 \<Rightarrow> u64 \<Rightarrow> NoServiceLayer \<Rightarrow> NoServiceLayer" where
  "RegisterDeviceCore d mem_addr msize s =
     (case map_of (ns_mems s) d of
        None \<Rightarrow> s\<lparr>ns_mems := m_put d (Memory_new mem_addr msize 0) (ns_mems s)\<rparr>
      | Some m \<Rightarrow> s)"

fun ShouldUseBackwardAllocation :: "MemoryType \<Rightarrow> bool" where
  "ShouldUseBackwardAllocation Model_weight = True"
| "ShouldUseBackwardAllocation Model_rmap = True"
| "ShouldUseBackwardAllocation Model_ppu_binary = True"
| "ShouldUseBackwardAllocation _ = False"

text \<open>\<open>None\<close>: the device is not registered and a null pointer is followed.\<close>

definition AllocateInfo :: "int \<Rightarrow> int \<Rightarrow> int \<Rightarrow> MemoryType \<Rightarrow> u64 \<Rightarrow> NoServiceLayer \<Rightarrow> (SharedMemoryInfo \<times> NoServiceLayer) option" where
  "AllocateInfo pid d t memoryType sz s =
     (case map_of (ns_mems s) d of
        None \<Rightarrow> None
      | Some m \<Rightarrow>
          (case (if ShouldUseBackwardAllocation memoryType then BackwardAllocate sz m else Allocate sz m) of
             (addr, m') \<Rightarrow>
               Some (\<lparr>si_block_id = ns_nextBlockId s, si_size = sz, si_ptr = 0, si_phys_addr_base = 0, si_phys_addr_offset = addr,
                      si_deviceid = d, si_taskId = t, si_pid = pid, si_fd = -1\<rparr>,
                     s\<lparr>ns_mems := m_put d m' (ns_mems s), ns_blockIdToAddr := m_put (ns_nextBlockId s) addr (ns_blockIdToAddr s),
                       ns_nextBlockId := ns_nextBlockId s + 1\<rparr>)))"

definition DeAllocateInfo :: "int \<Rightarrow> SharedMemoryInfo \<Rightarrow> NoServiceLayer \<Rightarrow> NoServiceLayer option" where
  "DeAllocateInfo d info s =
     (let (addr, ids) =
        (if si_block_id info \<noteq> 0 then
           (case map_of (ns_blockIdToAddr s) (si_block_id info) of
              None \<Rightarrow> (phys_addr info, ns_blockIdToAddr s)
            | Some a \<Rightarrow> (a, m_erase (si_block_id info) (ns_blockIdToAddr s)))
         else (phys_addr info, ns_blockIdToAddr s));
          s1 = s\<lparr>ns_blockIdToAddr := ids\<rparr>
      in if addr \<noteq> -1 \<and> addr \<noteq> 0 then
           (case map_of (ns_mems s1) d of
              None \<Rightarrow> None
            | Some m \<Rightarrow> Some (s1\<lparr>ns_mems := m_put d (Deallocate addr m) (ns_mems s1)\<rparr>))
         else Some s1)"

text \<open>The inline functions of the interface. \<open>Inl ()\<close> is the exception of a failed allocation.\<close>

definition Allocate_any :: "int \<Rightarrow> int \<Rightarrow> u64 \<Rightarrow> NoServiceLayer \<Rightarrow> (unit + u64) option \<times> NoServiceLayer" where
  "Allocate_any pid d sz s =
     (case AllocateInfo pid d (-1) Normal sz s of
        None \<Rightarrow> (None, s)
      | Some (info, s1) \<Rightarrow> (Some (if phys_addr info = -1 then Inl () else Inr (phys_addr info)), s1))"

definition Allocate_for :: "int \<Rightarrow> int \<Rightarrow> int \<Rightarrow> MemoryType \<Rightarrow> u64 \<Rightarrow> NoServiceLayer \<Rightarrow> u64 option \<times> NoServiceLayer" where
  "Allocate_for pid d t ty sz s =
     (case AllocateInfo pid d t ty sz s of None \<Rightarrow> (None, s) | Some (info, s1) \<Rightarrow> (Some (phys_addr info), s1))"

definition by_address :: "int \<Rightarrow> SharedMemoryInfo" where
  "by_address addr = \<lparr>si_block_id = addr, si_size = 0, si_ptr = 0, si_phys_addr_base = 0, si_phys_addr_offset = word_of_int addr,
     si_deviceid = 0, si_taskId = 0, si_pid = 0, si_fd = -1\<rparr>"

definition DeAllocate :: "int \<Rightarrow> int \<Rightarrow> NoServiceLayer \<Rightarrow> NoServiceLayer option" where
  "DeAllocate d addr s = DeAllocateInfo d (by_address addr) s"

text \<open>
  The device address of a DMA transfer: the allocator numbers from 0, the driver from the base of the
  device memory, and an address of at least the base is taken to be one of the driver.
\<close>

definition dma_offset :: "u64 \<Rightarrow> u64 \<Rightarrow> u32" where
  "dma_offset deviceBase addr = (if deviceBase \<le> addr then ucast (addr - deviceBase) else ucast addr)"

section \<open>The contract of a service layer\<close>

text \<open>
  \<open>blocks\<close> are the ids of the blocks that are out. A successful allocation has a positive id that is
  new, a failed one a negative id; a release takes its id away and no other.
\<close>

locale service_layer =
  fixes ok :: "'s \<Rightarrow> bool" and blocks :: "'s \<Rightarrow> int set"
    and alloc :: "int \<Rightarrow> MemoryType \<Rightarrow> u64 \<Rightarrow> 's \<Rightarrow> SharedMemoryInfo \<times> 's"
    and dealloc :: "SharedMemoryInfo \<Rightarrow> 's \<Rightarrow> 's"
  assumes alloc_ok: "ok s \<Longrightarrow> alloc t ty sz s = (i, s') \<Longrightarrow> ok s'"
    and alloc_id: "ok s \<Longrightarrow> alloc t ty sz s = (i, s') \<Longrightarrow> si_block_id i \<noteq> 0 \<and> (0 \<le> si_fd i \<longrightarrow> 0 < si_block_id i)"
    and alloc_new: "ok s \<Longrightarrow> alloc t ty sz s = (i, s') \<Longrightarrow> 0 < si_block_id i \<Longrightarrow>
      si_block_id i \<notin> blocks s \<and> blocks s' = insert (si_block_id i) (blocks s)"
    and alloc_none: "ok s \<Longrightarrow> alloc t ty sz s = (i, s') \<Longrightarrow> si_block_id i < 0 \<Longrightarrow> blocks s' = blocks s"
    and dealloc_ok: "ok s \<Longrightarrow> ok (dealloc i s)"
    and dealloc_id: "ok s \<Longrightarrow> blocks (dealloc i s) = blocks s - {si_block_id i}"
    and blocks_pos: "ok s \<Longrightarrow> b \<in> blocks s \<Longrightarrow> 0 < b"

section \<open>Blocks without the daemon\<close>

definition ns_ok :: "int \<Rightarrow> NoServiceLayer \<Rightarrow> bool" where
  "ns_ok d s \<longleftrightarrow> (\<exists>m. map_of (ns_mems s) d = Some m) \<and> 1 \<le> ns_nextBlockId s \<and>
     (\<forall>b \<in> dom (map_of (ns_blockIdToAddr s)). 0 < b \<and> b < ns_nextBlockId s)"

definition ns_blocks :: "NoServiceLayer \<Rightarrow> int set" where
  "ns_blocks s = dom (map_of (ns_blockIdToAddr s))"

text \<open>On a registered device the operations are total.\<close>

definition ns_alloc :: "int \<Rightarrow> int \<Rightarrow> int \<Rightarrow> MemoryType \<Rightarrow> u64 \<Rightarrow> NoServiceLayer \<Rightarrow> SharedMemoryInfo \<times> NoServiceLayer" where
  "ns_alloc pid d t ty sz s = (case AllocateInfo pid d t ty sz s of None \<Rightarrow> (by_address (-1), s) | Some r \<Rightarrow> r)"

definition ns_dealloc :: "int \<Rightarrow> SharedMemoryInfo \<Rightarrow> NoServiceLayer \<Rightarrow> NoServiceLayer" where
  "ns_dealloc d i s = (case DeAllocateInfo d i s of None \<Rightarrow> s | Some s' \<Rightarrow> s')"

lemma AllocateInfo_Some:
  assumes "ns_ok d s"
  obtains addr m' where "AllocateInfo pid d t ty sz s =
      Some (\<lparr>si_block_id = ns_nextBlockId s, si_size = sz, si_ptr = 0, si_phys_addr_base = 0, si_phys_addr_offset = addr,
             si_deviceid = d, si_taskId = t, si_pid = pid, si_fd = -1\<rparr>,
            s\<lparr>ns_mems := m_put d m' (ns_mems s), ns_blockIdToAddr := m_put (ns_nextBlockId s) addr (ns_blockIdToAddr s),
              ns_nextBlockId := ns_nextBlockId s + 1\<rparr>)"
proof -
  obtain m where m: "map_of (ns_mems s) d = Some m" using assms by (auto simp: ns_ok_def)
  obtain addr m' where "(if ShouldUseBackwardAllocation ty then BackwardAllocate sz m else Allocate sz m) = (addr, m')" by fastforce
  with m show thesis using that [of addr m'] by (simp add: AllocateInfo_def)
qed

lemma ns_dealloc_simps:
  assumes "ns_ok d s"
  shows "map_of (ns_blockIdToAddr (ns_dealloc d i s)) = (map_of (ns_blockIdToAddr s))(si_block_id i := None)"
    "ns_nextBlockId (ns_dealloc d i s) = ns_nextBlockId s"
    "\<exists>m. map_of (ns_mems (ns_dealloc d i s)) d = Some m"
proof -
  have "map_of (ns_blockIdToAddr s) 0 = None" using assms unfolding ns_ok_def by (metis domIff less_irrefl)
  with assms show "map_of (ns_blockIdToAddr (ns_dealloc d i s)) = (map_of (ns_blockIdToAddr s))(si_block_id i := None)"
    by (auto simp: ns_dealloc_def DeAllocateInfo_def Let_def ns_ok_def fun_upd_idem split: option.splits)
  show "ns_nextBlockId (ns_dealloc d i s) = ns_nextBlockId s" "\<exists>m. map_of (ns_mems (ns_dealloc d i s)) d = Some m"
    using assms by (auto simp: ns_dealloc_def DeAllocateInfo_def Let_def ns_ok_def split: option.splits prod.splits)
qed

interpretation no_service: service_layer "ns_ok d" ns_blocks "ns_alloc pid d" "ns_dealloc d" for pid d
proof
  fix s t ty sz i s' b
  assume ok: "ns_ok d s"
  obtain addr m' where a: "AllocateInfo pid d t ty sz s =
      Some (\<lparr>si_block_id = ns_nextBlockId s, si_size = sz, si_ptr = 0, si_phys_addr_base = 0, si_phys_addr_offset = addr,
             si_deviceid = d, si_taskId = t, si_pid = pid, si_fd = -1\<rparr>,
            s\<lparr>ns_mems := m_put d m' (ns_mems s), ns_blockIdToAddr := m_put (ns_nextBlockId s) addr (ns_blockIdToAddr s),
              ns_nextBlockId := ns_nextBlockId s + 1\<rparr>)" by (rule AllocateInfo_Some [OF ok])
  have new: "map_of (ns_blockIdToAddr s) (ns_nextBlockId s) = None" "1 \<le> ns_nextBlockId s"
    using ok by (auto simp: ns_ok_def dom_def)
  show "ns_ok d s'" if "ns_alloc pid d t ty sz s = (i, s')"
  proof -
    have "s' = s\<lparr>ns_mems := m_put d m' (ns_mems s), ns_blockIdToAddr := m_put (ns_nextBlockId s) addr (ns_blockIdToAddr s),
        ns_nextBlockId := ns_nextBlockId s + 1\<rparr>" using that a by (simp add: ns_alloc_def)
    moreover have "b \<le> ns_nextBlockId s" if "map_of (ns_blockIdToAddr s) b = Some a" for a b using that ok unfolding ns_ok_def by (metis domI less_imp_le)
    ultimately show ?thesis using ok by (auto simp: ns_ok_def)
  qed
  show "si_block_id i \<noteq> 0 \<and> (0 \<le> si_fd i \<longrightarrow> 0 < si_block_id i)" if "ns_alloc pid d t ty sz s = (i, s')"
    using that a new by (auto simp: ns_alloc_def)
  show "si_block_id i \<notin> ns_blocks s \<and> ns_blocks s' = insert (si_block_id i) (ns_blocks s)"
    if "ns_alloc pid d t ty sz s = (i, s')" "0 < si_block_id i"
    using that a new by (auto simp: ns_alloc_def ns_blocks_def)
  show "ns_blocks s' = ns_blocks s" if "ns_alloc pid d t ty sz s = (i, s')" "si_block_id i < 0"
    using that a new by (auto simp: ns_alloc_def)
  show "ns_ok d (ns_dealloc d i s)" using ok ns_dealloc_simps [OF ok, of i] by (auto simp: ns_ok_def)
  show "ns_blocks (ns_dealloc d i s) = ns_blocks s - {si_block_id i}"
    using ns_dealloc_simps(1) [OF ok, of i] by (auto simp: ns_blocks_def)
  show "0 < b" if "b \<in> ns_blocks s" using that ok by (auto simp: ns_ok_def ns_blocks_def)
qed

section \<open>Memory behind the blocks\<close>


definition one_device :: NoServiceLayer where
  "one_device = RegisterDeviceCore 0 0 8192 NoServiceLayer_new"

lemma one_device_ok:
  "ns_ok 0 one_device" "m_ok (ns_mems one_device)" "map_of (ns_mems one_device) 0 = Some (Memory_new 0 8192 0)"
  "mem_inv (Memory_new 0 8192 0)"
  by (simp_all add: one_device_def RegisterDeviceCore_def NoServiceLayer_new_def ns_ok_def m_ok_def Memory_new_inv)


text \<open>A failed allocation gets a block id all the same, so a caller that tests the id takes it for a success.\<close>

lemma failed_allocation_has_block_id:
  "\<exists>i s1. AllocateInfo 1 0 5 Normal 1000000 one_device = Some (i, s1) \<and> 0 < si_block_id i \<and> phys_addr i = -1"
proof -
  have "fst (Allocate 1000000 (Memory_new 0 8192 0)) = -1" by code_simp
  then show ?thesis
    by (cases "Allocate 1000000 (Memory_new 0 8192 0)")
      (simp add: AllocateInfo_def one_device_ok(3) phys_addr_def, simp add: one_device_def RegisterDeviceCore_def NoServiceLayer_new_def)
qed

text \<open>A block at address 0, the first one the allocator hands out from the front, is never given back.\<close>

lemma block_at_zero_leaks:
  assumes "map_of (ns_blockIdToAddr s) (si_block_id i) = Some 0" "si_block_id i \<noteq> 0"
  shows "DeAllocateInfo d i s = Some (s\<lparr>ns_blockIdToAddr := m_erase (si_block_id i) (ns_blockIdToAddr s)\<rparr>)"
  using assms by (simp add: DeAllocateInfo_def)

text \<open>
  The two readings of an address overlap: when the memory of a device is larger than its base
  address, two different blocks are transferred to the same place.
\<close>

lemma dma_offset_collides: "0x80000000 + a < (0x100000000 :: u64) \<Longrightarrow> a < 0x80000000 \<Longrightarrow>
  dma_offset 0x80000000 (0x80000000 + a) = dma_offset 0x80000000 a"
  by (auto simp: dma_offset_def word_le_nat_alt word_less_nat_alt unat_word_ariths)

lemma dma_offset_exact:
  assumes "addr < base" "unat base \<le> 2 ^ 32"
  shows "unat (dma_offset base addr) = unat addr"
proof -
  have "unat addr < 2 ^ 32" using assms by (simp add: word_less_nat_alt)
  moreover have "\<not> base \<le> addr" using assms(1) by simp
  ultimately show ?thesis by (simp add: dma_offset_def unsigned_ucast_eq take_bit_eq_mod)
qed

end
