(* ===== verification/Acc_Task_Layer.thy ===== *)
theory Acc_Task_Layer
  imports No_Service Buffer_Pools Task_Info_Store "HOL-Library.Signed_Division"
begin

text \<open>
  The task layer of an accelerator: \<^verbatim>\<open>src/lib/device_pool/acc_device_task_layer.cpp\<close>,
  \<^verbatim>\<open>acc_device_task_layer_register_pcie.cpp\<close> and \<^verbatim>\<open>inference_context.cpp\<close> (the variant without
  USE_VNPU). A task is registered with memory for its model and a cache of slices; a request takes a slice,
  its input and output are parts of it, and the slice goes back after the output is decoded. The
  operations of the service layer are arguments, with its state.
\<close>

section \<open>Registration\<close>

record dxrt_meminfo =
  dm_data :: u64
  dm_base :: u64
  dm_offset :: u32
  dm_size :: u32

record dxrt_model =
  nm_type :: int
  nm_format :: int
  nm_cmds :: u32
  nm_op_mode :: u32
  nm_rmap :: dxrt_meminfo
  nm_weight :: dxrt_meminfo
  nm_last_output_offset :: u32
  nm_last_output_size :: u32
  nm_output_all_offset :: u32
  nm_checkpoints :: "u32 list"

text \<open>The fields of \<open>TaskData\<close> the layer reads; \<open>at_data\<close> are the lengths of the binaries of the task.\<close>

record acc_task =
  at_id :: int
  at_npuModel :: dxrt_model
  at_input_size :: u32
  at_output_size :: u32
  at_encodedInputSize :: u32
  at_outputMemSize :: u32
  at_isPPCPU :: bool
  at_data :: "u64 list"
  at_buffer_count :: int

record ModelMemoryInfos =
  mm_rmap :: SharedMemoryInfo
  mm_weight :: SharedMemoryInfo
  mm_ppu :: SharedMemoryInfo

record OngoingCacheAllocation =
  oc_slice :: SharedMemoryView
  oc_taskId :: int

record driver_request =
  dr_task_id :: u32
  dr_req_id :: u32
  dr_input :: dxrt_meminfo
  dr_output :: dxrt_meminfo
  dr_config :: TaskStaticConfig
  dr_custom_offset :: u32
  dr_proc_id :: u32
  dr_bound :: u32
  dr_prior :: u32
  dr_prior_level :: u32
  dr_bandwidth :: u32
  dr_queue :: u32

record AccDeviceTaskLayer =
  al_npuModel :: "(int \<times> dxrt_model) list"
  al_modelMemoryInfos :: "(int \<times> ModelMemoryInfos) list"
  al_taskStaticConfigs :: "(int \<times> TaskStaticConfig) list"
  al_ppuBinaryOffsets :: "(int \<times> u32) list"
  al_cache :: NpuMemoryCacheManager
  al_ongoingRequests :: "(u32 \<times> driver_request) list"
  al_ongoingInputAllocations :: "(u32 \<times> OngoingCacheAllocation) list"
  al_inputQueue :: "u32 list"

definition no_info :: SharedMemoryInfo where
  "no_info = by_address 0\<lparr>si_fd := 0\<rparr>"

definition no_mem_infos :: ModelMemoryInfos where
  "no_mem_infos = \<lparr>mm_rmap = no_info, mm_weight = no_info, mm_ppu = no_info\<rparr>"

text \<open>\<open>data_align(x, 64)\<close> on unsigned 32 bits, and on \<^verbatim>\<open>int\<close>, where the division truncates.\<close>

definition data_align64 :: "u32 \<Rightarrow> u32" where
  "data_align64 x = 64 * (x div 64) + (if 0 < x mod 64 then 64 else 0)"

definition data_align64_int :: "int \<Rightarrow> int" where
  "data_align64_int x = 64 * (x sdiv 64) + (if 0 < x smod 64 then 64 else 0)"

text \<open>
  What the platform answers: the results of the DMA writes by kind of memory, whether the parameters
  read back are right, whether the daemon is in use and the base address of the device.
\<close>

record acc_env =
  ae_write :: "MemoryType \<Rightarrow> int"
  ae_verified :: bool
  ae_isRunOnService :: bool
  ae_mem_addr :: u64

type_synonym 's allocator = "int \<Rightarrow> MemoryType \<Rightarrow> u64 \<Rightarrow> 's \<Rightarrow> SharedMemoryInfo \<times> 's"
type_synonym 's releaser = "SharedMemoryInfo \<Rightarrow> 's \<Rightarrow> 's"

definition dealloc_if :: "'s releaser \<Rightarrow> SharedMemoryInfo \<Rightarrow> 's \<Rightarrow> 's" where
  "dealloc_if dealloc i s = (if 0 < si_block_id i then dealloc i s else s)"

text \<open>
  The memory of the parameters: weight and rmap, the rmap again when it lies above the weight.
  The flag tells whether the call goes on; the two infos are what the task keeps in either case.
\<close>

definition alloc_params :: "'s allocator \<Rightarrow> 's releaser \<Rightarrow> acc_task \<Rightarrow> 's \<Rightarrow> bool \<times> SharedMemoryInfo \<times> SharedMemoryInfo \<times> 's" where
  "alloc_params alloc dealloc task s =
     (let t = at_id task;
          (w, s1) = alloc t Model_weight (ucast (dm_size (nm_weight (at_npuModel task)))) s;
          (r, s2) = alloc t Model_rmap (ucast (dm_size (nm_rmap (at_npuModel task)))) s1
      in if si_phys_addr_offset w < si_phys_addr_offset r then
           (let (r2, s3) = alloc t Model_rmap (ucast (dm_size (nm_rmap (at_npuModel task)))) s2
            in if si_block_id r2 \<le> 0 then (False, w, r2, dealloc_if dealloc r (dealloc_if dealloc w s3))
               else if si_block_id w \<le> 0 then (False, w, r2, dealloc r2 (dealloc_if dealloc r s3))
               else (True, w, r2, dealloc_if dealloc r s3))
         else if si_block_id r \<le> 0 then (False, w, r, dealloc_if dealloc w s2)
         else if si_block_id w \<le> 0 then (False, w, r, dealloc r s2)
         else (True, w, r, s2))"

definition unregister_cache :: "'s releaser \<Rightarrow> int \<Rightarrow> NpuMemoryCacheManager \<Rightarrow> 's \<Rightarrow> NpuMemoryCacheManager \<times> 's" where
  "unregister_cache dealloc t nc s =
     (case getBackingInfo t nc of None \<Rightarrow> (nc, s) | Some i \<Rightarrow> (unRegisterMemoryCache t nc, dealloc i s))"

text \<open>The lambda \<open>rollbackTaskRegistration\<close>.\<close>

definition rollback :: "'s releaser \<Rightarrow> int \<Rightarrow> ModelMemoryInfos \<Rightarrow> AccDeviceTaskLayer \<Rightarrow> 's \<Rightarrow> AccDeviceTaskLayer \<times> 's" where
  "rollback dealloc t mm al s =
     (let s1 = (if map_of (al_ppuBinaryOffsets al) t \<noteq> None then dealloc_if dealloc (mm_ppu mm) s else s);
          s2 = dealloc_if dealloc (mm_weight mm) s1;
          s3 = dealloc_if dealloc (mm_rmap mm) s2;
          clear = (\<lambda>i. if 0 < si_block_id i then i\<lparr>si_block_id := 0\<rparr> else i);
          (nc, s4) = unregister_cache dealloc t (al_cache al) s3
      in (al\<lparr>al_ppuBinaryOffsets := AList.delete t (al_ppuBinaryOffsets al),
             al_modelMemoryInfos := AList.update t (mm\<lparr>mm_weight := clear (mm_weight mm), mm_rmap := clear (mm_rmap mm)\<rparr>) (al_modelMemoryInfos al),
             al_npuModel := AList.delete t (al_npuModel al), al_cache := nc\<rparr>, s4))"

text \<open>The size of a slice, and the loop that asks for fewer slices each time.\<close>

definition cache_block_size :: "acc_task \<Rightarrow> int" where
  "cache_block_size task =
     (let aligned_input_size = data_align64_int (sint (at_encodedInputSize task));
          m = at_npuModel task;
          output_delta = (if nm_output_all_offset m \<noteq> 0 then uint (nm_output_all_offset m) else aligned_input_size);
          required_output_span = output_delta + uint (nm_last_output_offset m) + uint (nm_last_output_size m)
      in max (aligned_input_size + uint (at_outputMemSize task)) required_output_span)"

fun cache_loop :: "'s allocator \<Rightarrow> int \<Rightarrow> int \<Rightarrow> nat \<Rightarrow> NpuMemoryCacheManager \<Rightarrow> 's \<Rightarrow> nat \<times> NpuMemoryCacheManager \<times> 's" where
  "cache_loop alloc t sz 0 nc s = (0, nc, s)"
| "cache_loop alloc t sz (Suc n) nc s =
     (let (info, s1) = alloc t Input_output (word_of_int (sz * int (Suc n))) s;
          (ok, nc1) = registerMemoryCache info t sz (int (Suc n)) nc
      in if ok then (Suc n, nc1, s1) else cache_loop alloc t sz n nc s1)"

definition model_with_offsets :: "acc_env \<Rightarrow> acc_task \<Rightarrow> SharedMemoryInfo \<Rightarrow> SharedMemoryInfo \<Rightarrow> dxrt_model" where
  "model_with_offsets env task w r =
     (let base = (if ae_isRunOnService env then 0 else ae_mem_addr env); m = at_npuModel task
      in m\<lparr>nm_rmap := (nm_rmap m)\<lparr>dm_base := base, dm_offset := ucast (si_phys_addr_offset r)\<rparr>,
           nm_weight := (nm_weight m)\<lparr>dm_base := base, dm_offset := ucast (si_phys_addr_offset w)\<rparr>\<rparr>)"

definition static_config :: "acc_task \<Rightarrow> dxrt_model \<Rightarrow> u32 \<Rightarrow> TaskStaticConfig" where
  "static_config task m custom =
     \<lparr>cf_model_type = nm_type m, cf_model_format = nm_format m, cf_model_cmds = nm_cmds m, cf_op_mode = nm_op_mode m,
      cf_cmd_offset = dm_offset (nm_rmap m), cf_weight_offset = dm_offset (nm_weight m), cf_custom_offset = custom,
      cf_input_size = at_encodedInputSize task, cf_output_size = nm_last_output_size m,
      cf_last_output_offset = nm_last_output_offset m, cf_output_all_offset = nm_output_all_offset m,
      cf_datas = nm_checkpoints m, cf_memory_base = dm_base (nm_rmap m)\<rparr>"

text \<open>
  The part that writes the PPU binary. \<open>None\<close> is a failed assertion (the process ends); the flag is
  False when the allocation failed.
\<close>

definition register_ppu ::
  "'s allocator \<Rightarrow> acc_env \<Rightarrow> acc_task \<Rightarrow> ModelMemoryInfos \<Rightarrow> AccDeviceTaskLayer \<Rightarrow> 's
     \<Rightarrow> (bool \<times> ModelMemoryInfos \<times> AccDeviceTaskLayer \<times> 's) option" where
  "register_ppu alloc env task mm al s =
     (if at_isPPCPU task \<and> 3 \<le> length (at_data task) \<and> at_data task ! 2 \<noteq> 0 then
        (let (p, s1) = alloc (at_id task) Model_ppu_binary (at_data task ! 2) s
         in if si_block_id p \<le> 0 then Some (False, mm, al, s1)
            else if ae_write env Model_ppu_binary \<noteq> 0 then None
            else Some (True, mm\<lparr>mm_ppu := p\<rparr>,
                   al\<lparr>al_ppuBinaryOffsets := AList.update (at_id task) (ucast (si_phys_addr_offset p)) (al_ppuBinaryOffsets al)\<rparr>, s1))
      else Some (True, mm, al, s))"

definition RegisterTask :: "'s allocator \<Rightarrow> 's releaser \<Rightarrow> acc_env \<Rightarrow> acc_task \<Rightarrow> AccDeviceTaskLayer \<Rightarrow> 's \<Rightarrow> (int \<times> AccDeviceTaskLayer \<times> 's) option" where
  "RegisterTask alloc dealloc env task al s =
     (if at_input_size task = 0 \<or> at_output_size task = 0 then None
      else
        let t = at_id task;
            mm0 = (case map_of (al_modelMemoryInfos al) t of None \<Rightarrow> no_mem_infos | Some mm \<Rightarrow> mm);
            (ok, w, r, s1) = alloc_params alloc dealloc task s;
            mm1 = mm0\<lparr>mm_weight := w, mm_rmap := r\<rparr>;
            al1 = al\<lparr>al_modelMemoryInfos := AList.update t mm1 (al_modelMemoryInfos al)\<rparr>
        in if \<not> ok then Some (-1, al1, s1)
           else
             let m = model_with_offsets env task w r;
                 al2 = al1\<lparr>al_npuModel := AList.update t m (al_npuModel al1)\<rparr>
             in if ae_write env Model_rmap \<noteq> 0 \<or> ae_write env Model_weight \<noteq> 0 then None
                else case register_ppu alloc env task mm1 al2 s1 of
                  None \<Rightarrow> None
                | Some (False, mm2, al3, s2) \<Rightarrow> (case rollback dealloc t mm2 al3 s2 of (al4, s3) \<Rightarrow> Some (-1, al4, s3))
                | Some (True, mm2, al3, s2) \<Rightarrow>
                    if 0 < dm_size (nm_rmap m) \<and> 0 < dm_size (nm_weight m) \<and> \<not> ae_verified env then None
                    else
                      (case cache_loop alloc t (cache_block_size task) (nat (at_buffer_count task)) (al_cache al3) s2 of (n, nc, s3) \<Rightarrow>
                         let al4 = al3\<lparr>al_cache := nc, al_modelMemoryInfos := AList.update t mm2 (al_modelMemoryInfos al3)\<rparr> in
                         if n < 1 then (case rollback dealloc t mm2 al4 s3 of (al5, s4) \<Rightarrow> Some (-1, al5, s4))
                         else
                           let custom = (case map_of (al_ppuBinaryOffsets al4) t of None \<Rightarrow> 0 | Some off \<Rightarrow> off)
                           in Some (0, al4\<lparr>al_taskStaticConfigs := AList.update t (static_config task m custom) (al_taskStaticConfigs al4)\<rparr>, s3)))"

text \<open>\<open>DeAllocate(id, addr)\<close> of the interface goes through an info with the address as block id.\<close>

definition dealloc_at :: "'s releaser \<Rightarrow> int \<Rightarrow> 's \<Rightarrow> 's" where
  "dealloc_at dealloc addr s = dealloc (by_address addr) s"

definition dealloc_id :: "'s releaser \<Rightarrow> SharedMemoryInfo \<Rightarrow> 's \<Rightarrow> 's" where
  "dealloc_id dealloc i s = (if 0 < si_block_id i then dealloc_at dealloc (si_block_id i) s else s)"

definition Release :: "'s releaser \<Rightarrow> int \<Rightarrow> AccDeviceTaskLayer \<Rightarrow> 's \<Rightarrow> AccDeviceTaskLayer \<times> 's" where
  "Release dealloc t al s =
     (let (cmd, weight) = (case map_of (al_taskStaticConfigs al) t of None \<Rightarrow> (0, 0) | Some cf \<Rightarrow> (cf_cmd_offset cf, cf_weight_offset cf));
          al1 = al\<lparr>al_npuModel := AList.delete t (al_npuModel al), al_taskStaticConfigs := AList.delete t (al_taskStaticConfigs al)\<rparr>;
          (nc, s1) = unregister_cache dealloc t (al_cache al1) s;
          s2 = (case map_of (al_modelMemoryInfos al1) t of
                  Some mm \<Rightarrow>
                    (let sr = dealloc_id dealloc (mm_rmap mm) s1; sw = dealloc_id dealloc (mm_weight mm) sr
                     in if 0 < si_size (mm_ppu mm) then dealloc_id dealloc (mm_ppu mm) sw else sw)
                | None \<Rightarrow> dealloc_at dealloc (uint weight) (dealloc_at dealloc (uint cmd) s1));
          s3 = (case map_of (al_ppuBinaryOffsets al1) t of
                  Some off \<Rightarrow> if off \<noteq> 0 \<and> off \<noteq> -1 then dealloc_at dealloc (uint off) s2 else s2
                | None \<Rightarrow> s2)
      in (al1\<lparr>al_cache := nc, al_modelMemoryInfos := AList.delete t (al_modelMemoryInfos al1),
              al_ppuBinaryOffsets := AList.delete t (al_ppuBinaryOffsets al1)\<rparr>, s3))"

section \<open>Requests\<close>

record InferenceSlimRequest =
  sl_req_id :: u32
  sl_task_id :: u32
  sl_input_host_addr :: u64
  sl_output_host_addr :: u64
  sl_input_device_offset :: u64
  sl_bound :: u32
  sl_prior :: u32
  sl_prior_level :: u32
  sl_bandwidth :: u32
  sl_queue :: u32

definition BuildDriverRequest :: "u32 \<Rightarrow> TaskStaticConfig \<Rightarrow> InferenceSlimRequest \<Rightarrow> driver_request" where
  "BuildDriverRequest pid config slim =
     (let aligned_input = data_align64 (cf_input_size config);
          output_delta = (if cf_output_all_offset config \<noteq> 0 then cf_output_all_offset config else aligned_input)
      in \<lparr>dr_task_id = sl_task_id slim, dr_req_id = sl_req_id slim,
          dr_input = \<lparr>dm_data = sl_input_host_addr slim, dm_base = cf_memory_base config,
                      dm_offset = ucast (sl_input_device_offset slim), dm_size = cf_input_size config\<rparr>,
          dr_output = \<lparr>dm_data = sl_output_host_addr slim, dm_base = cf_memory_base config,
                       dm_offset = ucast (sl_input_device_offset slim) + output_delta + cf_last_output_offset config,
                       dm_size = cf_output_size config\<rparr>,
          dr_config = config, dr_custom_offset = cf_custom_offset config, dr_proc_id = pid, dr_bound = sl_bound slim,
          dr_prior = sl_prior slim, dr_prior_level = sl_prior_level slim, dr_bandwidth = sl_bandwidth slim, dr_queue = sl_queue slim\<rparr>)"

record acc_request =
  ar_requestId :: u32
  ar_task :: acc_task
  ar_has_inputs :: bool
  ar_encoded_inputs_ptr :: u64
  ar_encoded_outputs_ptr :: u64
  ar_ioSlice :: "SharedMemoryView option"

text \<open>
  Outcomes of a call that may wait for a slice: it waits; a failed assertion ends the process; it
  returns with the new state.
\<close>

datatype 'r acc_outcome = Waits | Aborts | Returned_acc 'r

definition AllocateFromCache :: "'s allocator \<Rightarrow> u64 \<Rightarrow> int \<Rightarrow> NpuMemoryCacheManager \<Rightarrow> 's
    \<Rightarrow> (SharedMemoryView \<times> NpuMemoryCacheManager \<times> 's) acc_outcome" where
  "AllocateFromCache alloc sz t nc s =
     (if canGetCache t nc then
        (case getNpuMemoryCache t nc of
           Slice v nc1 \<Rightarrow> Returned_acc (v, nc1, s)
         | Blocked \<Rightarrow> Waits
         | Empty_slice \<Rightarrow> Aborts)
      else (case alloc t Input_output sz s of (info, s1) \<Rightarrow>
              Returned_acc (\<lparr>vw_info = info, vw_offset = 0, vw_size = sz\<rparr>, nc, s1)))"

definition Deallocate_npuBuf :: "'s releaser \<Rightarrow> SharedMemoryView \<Rightarrow> int \<Rightarrow> NpuMemoryCacheManager \<Rightarrow> 's \<Rightarrow> NpuMemoryCacheManager \<times> 's" where
  "Deallocate_npuBuf dealloc v t nc s =
     (if canGetCache t nc then (returnNpuMemoryCache t v nc, s) else (nc, dealloc (vw_info v) s))"

definition output_delta :: "TaskStaticConfig \<Rightarrow> u32 \<Rightarrow> u64" where
  "output_delta cfg encodedInputSize =
     (if cf_output_all_offset cfg \<noteq> 0 then ucast (cf_output_all_offset cfg) else ucast (data_align64 encodedInputSize))"

definition cache_slice_bytes :: "TaskStaticConfig \<Rightarrow> acc_task \<Rightarrow> u64" where
  "cache_slice_bytes cfg task =
     (let alignedInputBytes = ucast (data_align64 (at_encodedInputSize task));
          requiredSliceBytes = output_delta cfg (at_encodedInputSize task) + ucast (cf_last_output_offset cfg) + ucast (cf_output_size cfg)
      in max (alignedInputBytes + ucast (at_outputMemSize task)) requiredSliceBytes)"

definition hostPtr :: "SharedMemoryView \<Rightarrow> u64" where
  "hostPtr v = (if si_ptr (vw_info v) = 0 then 0 else si_ptr (vw_info v) + vw_offset v)"

definition PrepareZeroCopyIo :: "acc_env \<Rightarrow> acc_request \<Rightarrow> AccDeviceTaskLayer \<Rightarrow> (acc_request \<times> AccDeviceTaskLayer) acc_outcome" where
  "PrepareZeroCopyIo env req al =
     (let t = at_id (ar_task req) in
      if \<not> ae_isRunOnService env \<or> nm_type (at_npuModel (ar_task req)) \<noteq> 0 \<or> \<not> canGetCache t (al_cache al) then Returned_acc (req, al)
      else case map_of (al_taskStaticConfigs al) t of
        None \<Rightarrow> Returned_acc (req, al)
      | Some cfg \<Rightarrow>
          (case getNpuMemoryCache t (al_cache al) of
             Blocked \<Rightarrow> Waits
           | Empty_slice \<Rightarrow> Returned_acc (req, al)
           | Slice v nc \<Rightarrow>
               if \<not> view_isValid v \<or> hostPtr v = 0 then
                 Returned_acc (req, al\<lparr>al_cache := if view_isValid v then returnNpuMemoryCache t v nc else nc\<rparr>)
               else
                 Returned_acc (req\<lparr>ar_encoded_inputs_ptr := hostPtr v,
                     ar_encoded_outputs_ptr := hostPtr v + (output_delta cfg (cf_input_size cfg) + ucast (cf_last_output_offset cfg)),
                     ar_ioSlice := Some v\<rparr>, al\<lparr>al_cache := nc\<rparr>)))"

definition InferenceRequestACC :: "'s allocator \<Rightarrow> u32 \<Rightarrow> u32 \<Rightarrow> acc_request \<Rightarrow> AccDeviceTaskLayer \<Rightarrow> 's \<Rightarrow> (AccDeviceTaskLayer \<times> 's) acc_outcome" where
  "InferenceRequestACC alloc pid boundOp req al s =
     (let task = ar_task req; t = at_id task; reqId = ar_requestId req in
      case map_of (al_taskStaticConfigs al) t of
        None \<Rightarrow> Aborts
      | Some cfg \<Rightarrow>
          (case (case ar_ioSlice req of
                   Some v \<Rightarrow> Returned_acc (v, al_cache al, s)
                 | None \<Rightarrow> AllocateFromCache alloc (cache_slice_bytes cfg task) t (al_cache al) s) of
             Waits \<Rightarrow> Waits
           | Aborts \<Rightarrow> Aborts
           | Returned_acc (v, nc, s1) \<Rightarrow>
               if \<not> view_isValid v then Aborts
               else
                 let slim = \<lparr>sl_req_id = reqId, sl_task_id = word_of_int t,
                       sl_input_host_addr = (if ar_has_inputs req then ar_encoded_inputs_ptr req else 0),
                       sl_output_host_addr = ar_encoded_outputs_ptr req, sl_input_device_offset = deviceAddress v, sl_bound = boundOp,
                       sl_prior = 0, sl_prior_level = 0, sl_bandwidth = 0, sl_queue = 0\<rparr>;
                     acc0 = BuildDriverRequest pid cfg slim;
                     acc = (if at_isPPCPU task then acc0 else acc0\<lparr>dr_custom_offset := 0\<rparr>)
                 in Returned_acc (al\<lparr>al_cache := nc,
                      al_ongoingRequests := AList.update reqId acc (al_ongoingRequests al),
                      al_ongoingInputAllocations := AList.update reqId \<lparr>oc_slice = v, oc_taskId = t\<rparr> (al_ongoingInputAllocations al),
                      al_inputQueue := al_inputQueue al @ [reqId]\<rparr>, s1)))"

text \<open>The views that \<open>InputHandler\<close> and \<open>OutputHandler\<close> transfer. \<open>None\<close> is the assertion on the missing slice.\<close>

definition input_view :: "u32 \<Rightarrow> AccDeviceTaskLayer \<Rightarrow> SharedMemoryView option" where
  "input_view reqId al =
     (case (map_of (al_ongoingInputAllocations al) reqId, map_of (al_ongoingRequests al) reqId) of
        (Some oc, Some acc) \<Rightarrow> Some \<lparr>vw_info = vw_info (oc_slice oc), vw_offset = vw_offset (oc_slice oc), vw_size = ucast (dm_size (dr_input acc))\<rparr>
      | _ \<Rightarrow> None)"

definition output_view :: "acc_task \<Rightarrow> u32 \<Rightarrow> AccDeviceTaskLayer \<Rightarrow> SharedMemoryView option" where
  "output_view task reqId al =
     (case (map_of (al_ongoingInputAllocations al) reqId, map_of (al_ongoingRequests al) reqId, map_of (al_taskStaticConfigs al) (at_id task)) of
        (Some oc, Some acc, Some cfg) \<Rightarrow>
          Some \<lparr>vw_info = vw_info (oc_slice oc),
                vw_offset = vw_offset (oc_slice oc) + (output_delta cfg (at_encodedInputSize task) + ucast (cf_last_output_offset cfg)),
                vw_size = ucast (dm_size (dr_output acc))\<rparr>
      | _ \<Rightarrow> None)"

text \<open>
  The filtered output of a PPCPU model lies behind the output. The number of boxes the device reports is cut to
  what the output buffer of the task holds; \<open>unit\<close> is the size of one box.
\<close>

definition validated_filter_num :: "u64 \<Rightarrow> acc_task \<Rightarrow> u32 \<Rightarrow> u32" where
  "validated_filter_num unit task num =
     (let expected_max_boxes = scast (at_output_size task) div unit
      in if expected_max_boxes < ucast num then ucast expected_max_boxes else num)"

definition SetMemInfo_PPCPU :: "dxrt_meminfo \<Rightarrow> u64 \<Rightarrow> u64 \<Rightarrow> u64 \<Rightarrow> dxrt_meminfo" where
  "SetMemInfo_PPCPU rmap_output ppu_filter_num unit_size output_ptr =
     \<lparr>dm_data = output_ptr, dm_base = dm_base rmap_output, dm_offset = dm_offset rmap_output + dm_size rmap_output,
      dm_size = ucast (unit_size * ppu_filter_num)\<rparr>"

definition ppcpu_view :: "u64 \<Rightarrow> acc_task \<Rightarrow> u32 \<Rightarrow> u32 \<Rightarrow> AccDeviceTaskLayer \<Rightarrow> SharedMemoryView option" where
  "ppcpu_view unit task num reqId al =
     (case (output_view task reqId al, map_of (al_ongoingRequests al) reqId) of
        (Some ov, Some acc) \<Rightarrow>
          Some (ov\<lparr>vw_offset := vw_offset ov + ucast (dm_size (dr_output acc)),
                   vw_size := ucast (dm_size (SetMemInfo_PPCPU (dr_output acc) (ucast (validated_filter_num unit task num)) unit 0))\<rparr>)
      | _ \<Rightarrow> None)"

text \<open>The channel \<open>InputHandler\<close> puts into a request; \<^verbatim>\<open>%\<close> truncates.\<close>

definition dma_channel :: "int \<Rightarrow> int \<Rightarrow> int" where
  "dma_channel num_dma_ch channel =
     (if 0 < num_dma_ch \<and> (channel < 0 \<or> num_dma_ch \<le> channel) then ((channel smod num_dma_ch) + num_dma_ch) smod num_dma_ch else channel)"

text \<open>What \<open>OutputHandler\<close> does to the tables once the output is read, and the later release.\<close>

definition finish_output :: "u32 \<Rightarrow> AccDeviceTaskLayer \<Rightarrow> AccDeviceTaskLayer" where
  "finish_output reqId al = al\<lparr>al_ongoingRequests := AList.delete reqId (al_ongoingRequests al)\<rparr>"

definition ReleaseInferenceCache :: "'s releaser \<Rightarrow> u32 \<Rightarrow> AccDeviceTaskLayer \<Rightarrow> 's \<Rightarrow> AccDeviceTaskLayer \<times> 's" where
  "ReleaseInferenceCache dealloc reqId al s =
     (case map_of (al_ongoingInputAllocations al) reqId of
        None \<Rightarrow> (al, s)
      | Some oc \<Rightarrow>
          (case Deallocate_npuBuf dealloc (oc_slice oc) (oc_taskId oc) (al_cache al) s of (nc, s1) \<Rightarrow>
             (al\<lparr>al_ongoingInputAllocations := AList.delete reqId (al_ongoingInputAllocations al), al_cache := nc\<rparr>, s1)))"

end
