(* ===== verification/Acc_Task_Layer_Correct.thy ===== *)
theory Acc_Task_Layer_Correct
  imports Acc_Task_Layer Buffer_Pools_Correct
begin

text \<open>
  Registration takes all the blocks of a task or none, for every service layer that keeps its
  contract; a released task gives them back; the parts of a slice that a request transfers lie in it
  and apart from each other.
\<close>

section \<open>Registration and release of blocks\<close>

text \<open>The blocks the layer has on record for a task.\<close>

definition task_blocks :: "int \<Rightarrow> AccDeviceTaskLayer \<Rightarrow> int set" where
  "task_blocks t al =
     (case map_of (al_modelMemoryInfos al) t of
        None \<Rightarrow> {}
      | Some mm \<Rightarrow> {si_block_id (mm_weight mm), si_block_id (mm_rmap mm)}
          \<union> (if map_of (al_ppuBinaryOffsets al) t \<noteq> None then {si_block_id (mm_ppu mm)} else {}))
     \<union> (case getBackingInfo t (al_cache al) of None \<Rightarrow> {} | Some i \<Rightarrow> {si_block_id i})"

definition unregistered :: "int \<Rightarrow> AccDeviceTaskLayer \<Rightarrow> bool" where
  "unregistered t al \<longleftrightarrow> map_of (al_modelMemoryInfos al) t = None \<and> map_of (al_ppuBinaryOffsets al) t = None \<and>
     map_of (nc_taskNpuMemoryCaches (al_cache al)) t = None"

text \<open>What is on record when the parameters are allocated, and the ways a registration ends.\<close>

definition param_infos :: "SharedMemoryInfo \<Rightarrow> SharedMemoryInfo \<Rightarrow> ModelMemoryInfos" where
  "param_infos w r = no_mem_infos\<lparr>mm_weight := w, mm_rmap := r\<rparr>"

definition param_layer :: "acc_env \<Rightarrow> acc_task \<Rightarrow> SharedMemoryInfo \<Rightarrow> SharedMemoryInfo \<Rightarrow> AccDeviceTaskLayer \<Rightarrow> AccDeviceTaskLayer" where
  "param_layer env task w r al =
     al\<lparr>al_modelMemoryInfos := AList.update (at_id task) (param_infos w r) (al_modelMemoryInfos al),
        al_npuModel := AList.update (at_id task) (model_with_offsets env task w r) (al_npuModel al)\<rparr>"

definition cache_layer :: "int \<Rightarrow> ModelMemoryInfos \<Rightarrow> NpuMemoryCacheManager \<Rightarrow> AccDeviceTaskLayer \<Rightarrow> AccDeviceTaskLayer" where
  "cache_layer t mm nc al = al\<lparr>al_cache := nc, al_modelMemoryInfos := AList.update t mm (al_modelMemoryInfos al)\<rparr>"

lemma RegisterTask_cases:
  assumes "RegisterTask alloc dealloc env task al s = Some (ret, al', s')" "map_of (al_modelMemoryInfos al) (at_id task) = None"
  obtains (params) w r where "alloc_params alloc dealloc task s = (False, w, r, s')" "ret = -1"
  | (ppu) w r s1 mm al1 s2 al2 where "alloc_params alloc dealloc task s = (True, w, r, s1)"
      "register_ppu alloc env task (param_infos w r) (param_layer env task w r al) s1 = Some (False, mm, al1, s2)"
      "rollback dealloc (at_id task) mm al1 s2 = (al2, s')" "ret = -1"
  | (no_cache) w r s1 mm al1 s2 nc s3 al2 where "alloc_params alloc dealloc task s = (True, w, r, s1)"
      "register_ppu alloc env task (param_infos w r) (param_layer env task w r al) s1 = Some (True, mm, al1, s2)"
      "cache_loop alloc (at_id task) (cache_block_size task) (nat (at_buffer_count task)) (al_cache al1) s2 = (0, nc, s3)"
      "rollback dealloc (at_id task) mm (cache_layer (at_id task) mm nc al1) s3 = (al2, s')" "ret = -1"
  | (registered) w r s1 mm al1 s2 n nc where "alloc_params alloc dealloc task s = (True, w, r, s1)"
      "register_ppu alloc env task (param_infos w r) (param_layer env task w r al) s1 = Some (True, mm, al1, s2)"
      "cache_loop alloc (at_id task) (cache_block_size task) (nat (at_buffer_count task)) (al_cache al1) s2 = (Suc n, nc, s')" "ret = 0"
      "al_modelMemoryInfos al' = al_modelMemoryInfos (cache_layer (at_id task) mm nc al1)" "al_ppuBinaryOffsets al' = al_ppuBinaryOffsets al1"
      "al_cache al' = nc"
proof -
  obtain go w r s1 where p: "alloc_params alloc dealloc task s = (go, w, r, s1)" by (metis prod.exhaust)
  note R = assms(1) [unfolded RegisterTask_def Let_def p assms(2) prod.case option.case]
  show thesis
  proof (cases go)
    case False
    with R p params show thesis by (auto split: if_splits)
  next
    case True
    let ?q = "register_ppu alloc env task (param_infos w r) (param_layer env task w r al) s1"
    obtain go2 mm al1 s2 where q: "?q = Some (go2, mm, al1, s2)"
      using R True by (cases ?q) (auto simp: param_infos_def param_layer_def split: if_splits)
    obtain n nc s3 where c: "cache_loop alloc (at_id task) (cache_block_size task) (nat (at_buffer_count task)) (al_cache al1) s2 = (n, nc, s3)"
      by (metis prod.exhaust)
    note S = R q p True c [unfolded cache_layer_def param_infos_def param_layer_def]
    show thesis
    proof (cases go2)
      case False
      with S show thesis by (intro ppu [of w r s1 mm al1 s2]) (auto simp: param_infos_def param_layer_def split: if_splits prod.splits)
    next
      case go2: True
      show thesis
      proof (cases n)
        case 0
        with S go2 show thesis by (intro no_cache [of w r s1 mm al1 s2 nc s3]) (auto simp: param_infos_def param_layer_def cache_layer_def split: if_splits prod.splits)
      next
        case (Suc k)
        with S go2 show thesis by (intro registered [of w r s1 mm al1 s2 k nc]) (auto simp: param_infos_def param_layer_def cache_layer_def split: if_splits prod.splits)
      qed
    qed
  qed
qed

context service_layer
begin

text \<open>One allocation, whatever its outcome.\<close>

lemma alloc_blocks:
  assumes "ok s" "alloc t ty sz s = (i, s')"
  shows "ok s'" "si_block_id i \<noteq> 0" "0 < si_block_id i \<Longrightarrow> si_block_id i \<notin> blocks s"
    "blocks s' = (if 0 < si_block_id i then insert (si_block_id i) (blocks s) else blocks s)"
    "0 \<le> si_fd i \<Longrightarrow> 0 < si_block_id i"
  using assms alloc_ok [OF assms] alloc_id [OF assms] alloc_new [OF assms] alloc_none [OF assms] by auto

lemma dealloc_if_blocks:
  assumes "ok s"
  shows "ok (dealloc_if dealloc i s)" "blocks (dealloc_if dealloc i s) = blocks s - {si_block_id i}"
  using assms dealloc_ok dealloc_id blocks_pos by (auto simp: dealloc_if_def)

lemma dealloc_id_blocks:
  assumes "ok s"
  shows "ok (dealloc_id dealloc i s)" "blocks (dealloc_id dealloc i s) = blocks s - {si_block_id i}"
  using assms dealloc_ok local.dealloc_id blocks_pos
  by (auto simp: Acc_Task_Layer.dealloc_id_def dealloc_at_def by_address_def)

lemma alloc_params_blocks:
  assumes "ok s" "alloc_params alloc dealloc task s = (go, w, r, s')"
  shows "ok s'" "\<not> go \<Longrightarrow> blocks s' = blocks s"
    "go \<Longrightarrow> 0 < si_block_id w \<and> 0 < si_block_id r \<and> si_block_id w \<noteq> si_block_id r \<and>
       {si_block_id w, si_block_id r} \<inter> blocks s = {} \<and> blocks s' = {si_block_id w, si_block_id r} \<union> blocks s"
proof -
  let ?t = "at_id task" and ?n = "ucast (dm_size (nm_rmap (at_npuModel task))) :: u64"
  obtain w1 s1 where a1: "alloc ?t Model_weight (ucast (dm_size (nm_weight (at_npuModel task)))) s = (w1, s1)" by fastforce
  obtain r1 s2 where a2: "alloc ?t Model_rmap ?n s1 = (r1, s2)" by fastforce
  obtain r2 s3 where a3: "alloc ?t Model_rmap ?n s2 = (r2, s3)" by fastforce
  note b1 = alloc_blocks [OF assms(1) a1]
  note b2 = alloc_blocks [OF b1(1) a2]
  note b3 = alloc_blocks [OF b2(1) a3]
  note d = dealloc_if_blocks dealloc_ok dealloc_id blocks_pos [OF assms(1)]
  show "ok s'" using assms(2) a1 a2 a3 b1 b2 b3 d by (auto simp: alloc_params_def split: if_splits)
  show "\<not> go \<Longrightarrow> blocks s' = blocks s"
    using assms(2) a1 a2 a3 b1 b2 b3 d by (auto simp: alloc_params_def split: if_splits)
  show "go \<Longrightarrow> 0 < si_block_id w \<and> 0 < si_block_id r \<and> si_block_id w \<noteq> si_block_id r \<and>
       {si_block_id w, si_block_id r} \<inter> blocks s = {} \<and> blocks s' = {si_block_id w, si_block_id r} \<union> blocks s"
    using assms(2) a1 a2 a3 b1 b2 b3 d by (auto simp: alloc_params_def split: if_splits)
qed

text \<open>The cache has a block of its own or nothing happened.\<close>

lemma cache_loop_blocks:
  assumes "ok s" "cache_loop alloc t sz n nc s = (k, nc', s')" "map_of (nc_taskNpuMemoryCaches nc) t = None"
  shows "ok s' \<and> (if k = 0 then nc' = nc \<and> blocks s' = blocks s
    else \<exists>i. getBackingInfo t nc' = Some i \<and> 0 < si_block_id i \<and> si_block_id i \<notin> blocks s \<and>
       blocks s' = insert (si_block_id i) (blocks s))"
  using assms(1,2)
proof (induction n arbitrary: s)
  case (Suc n)
  obtain i s1 where a: "alloc t Input_output (word_of_int (sz * int (Suc n))) s = (i, s1)" by fastforce
  note b = alloc_blocks [OF Suc.prems(1) a]
  show ?case
  proof (cases "0 < si_block_id i")
    case True
    with Suc.prems(2) a b assms(3) show ?thesis by (auto simp: registerMemoryCache_def getBackingInfo_def TaskNpuMemoryCacheManager_new_def)
  next
    case False
    then have "\<not> 0 \<le> si_fd i" "si_block_id i < 0" using b by auto
    with Suc.prems(2) a have "cache_loop alloc t sz n nc s1 = (k, nc', s')" by (simp add: registerMemoryCache_def)
    moreover have "blocks s1 = blocks s" using False b(4) by simp
    ultimately show ?thesis using Suc.IH [OF b(1)] by metis
  qed
qed simp

lemma unregister_cache_blocks:
  assumes "ok s" "unregister_cache dealloc t nc s = (nc', s')"
  shows "ok s'" "blocks s' = blocks s - (case getBackingInfo t nc of None \<Rightarrow> {} | Some i \<Rightarrow> {si_block_id i})"
    "getBackingInfo t nc' = None"
  using assms dealloc_ok dealloc_id
  by (auto simp: unregister_cache_def unRegisterMemoryCache_def getBackingInfo_def delete_conv split: option.splits)

lemma rollback_blocks:
  assumes "ok s" "rollback dealloc t mm al s = (al', s')"
  shows "ok s'" "blocks s' = blocks s - {si_block_id (mm_weight mm), si_block_id (mm_rmap mm)}
    - (if map_of (al_ppuBinaryOffsets al) t \<noteq> None then {si_block_id (mm_ppu mm)} else {})
    - (case getBackingInfo t (al_cache al) of None \<Rightarrow> {} | Some i \<Rightarrow> {si_block_id i})"
proof -
  define s1 where "s1 = (if map_of (al_ppuBinaryOffsets al) t \<noteq> None then dealloc_if dealloc (mm_ppu mm) s else s)"
  define s3 where "s3 = dealloc_if dealloc (mm_rmap mm) (dealloc_if dealloc (mm_weight mm) s1)"
  obtain nc s4 where u: "unregister_cache dealloc t (al_cache al) s3 = (nc, s4)" by fastforce
  have ok: "ok s1" "ok s3" using assms(1) dealloc_if_blocks(1) by (auto simp: s1_def s3_def)
  have b: "blocks s1 = blocks s - (if map_of (al_ppuBinaryOffsets al) t \<noteq> None then {si_block_id (mm_ppu mm)} else {})"
    "blocks s3 = blocks s1 - {si_block_id (mm_weight mm), si_block_id (mm_rmap mm)}"
    using assms(1) ok(1) dealloc_if_blocks by (auto simp: s1_def s3_def)
  have "s' = s4" using assms(2) u by (auto simp: rollback_def Let_def s1_def s3_def)
  with unregister_cache_blocks [OF ok(2) u] b show "ok s'" "blocks s' = blocks s - {si_block_id (mm_weight mm), si_block_id (mm_rmap mm)}
    - (if map_of (al_ppuBinaryOffsets al) t \<noteq> None then {si_block_id (mm_ppu mm)} else {})
    - (case getBackingInfo t (al_cache al) of None \<Rightarrow> {} | Some i \<Rightarrow> {si_block_id i})" by auto
qed

lemma register_ppu_blocks:
  assumes "ok s" "register_ppu alloc env task mm al s = Some (go, mm', al', s')" "map_of (al_ppuBinaryOffsets al) (at_id task) = None"
  shows "ok s'" "al_cache al' = al_cache al" "mm_weight mm' = mm_weight mm" "mm_rmap mm' = mm_rmap mm"
    "\<not> go \<Longrightarrow> blocks s' = blocks s \<and> map_of (al_ppuBinaryOffsets al') (at_id task) = None"
    "go \<Longrightarrow> (if map_of (al_ppuBinaryOffsets al') (at_id task) \<noteq> None
       then si_block_id (mm_ppu mm') \<notin> blocks s \<and> blocks s' = insert (si_block_id (mm_ppu mm')) (blocks s)
       else blocks s' = blocks s)"
proof -
  obtain p s1 where a: "alloc (at_id task) Model_ppu_binary (at_data task ! 2) s = (p, s1)" by fastforce
  note b = alloc_blocks [OF assms(1) a]
  show "ok s'" "al_cache al' = al_cache al" "mm_weight mm' = mm_weight mm" "mm_rmap mm' = mm_rmap mm"
    using assms(1,2) a b(1) by (auto simp: register_ppu_def split: if_splits)
  show "\<not> go \<Longrightarrow> blocks s' = blocks s \<and> map_of (al_ppuBinaryOffsets al') (at_id task) = None"
    using assms(2,3) a b(4) by (auto simp: register_ppu_def split: if_splits)
  assume go: go
  show "if map_of (al_ppuBinaryOffsets al') (at_id task) \<noteq> None
       then si_block_id (mm_ppu mm') \<notin> blocks s \<and> blocks s' = insert (si_block_id (mm_ppu mm')) (blocks s)
       else blocks s' = blocks s"
  proof (cases "at_isPPCPU task \<and> 3 \<le> length (at_data task) \<and> at_data task ! 2 \<noteq> 0")
    case True
    with assms(2) a go have "0 < si_block_id p" "mm' = mm\<lparr>mm_ppu := p\<rparr>" "s' = s1"
      "map_of (al_ppuBinaryOffsets al') (at_id task) \<noteq> None"
      by (auto simp: register_ppu_def update_conv' split: if_splits)
    with b(3,4) show ?thesis by simp
  next
    case False
    with assms(2) have "al' = al" "s' = s" by (auto simp: register_ppu_def)
    with assms(3) show ?thesis by simp
  qed
qed

lemma register_task_blocks:
  assumes "ok s" "unregistered (at_id task) al" "RegisterTask alloc dealloc env task al s = Some (ret, al', s')"
  shows "ok s' \<and> (ret = -1 \<and> blocks s' = blocks s \<or>
    ret = 0 \<and> task_blocks (at_id task) al' \<inter> blocks s = {} \<and> blocks s' = task_blocks (at_id task) al' \<union> blocks s)"
proof -
  have un: "map_of (al_modelMemoryInfos al) (at_id task) = None" "map_of (al_ppuBinaryOffsets (param_layer env task w r al)) (at_id task) = None"
    "map_of (nc_taskNpuMemoryCaches (al_cache (param_layer env task w r al))) (at_id task) = None" for w r
    using assms(2) by (simp_all add: unregistered_def param_layer_def)
  from assms(3) un(1) show ?thesis
  proof (cases rule: RegisterTask_cases)
    case (params w r)
    with alloc_params_blocks [OF assms(1) params(1)] show ?thesis by simp
  next
    case (ppu w r s1 mm al1 s2 al2)
    note p = alloc_params_blocks [OF assms(1) ppu(1)]
    note q = register_ppu_blocks [OF p(1) ppu(2) un(2)]
    have "getBackingInfo (at_id task) (al_cache al1) = None" using q(2) un(3) by (simp add: getBackingInfo_def)
    with rollback_blocks [OF q(1) ppu(3)] p(3) q(3,4,5) ppu(4) show ?thesis by (auto simp: param_infos_def)
  next
    case (no_cache w r s1 mm al1 s2 nc s3 al2)
    note p = alloc_params_blocks [OF assms(1) no_cache(1)]
    note q = register_ppu_blocks [OF p(1) no_cache(2) un(2)]
    have n: "map_of (nc_taskNpuMemoryCaches (al_cache al1)) (at_id task) = None" using q(2) un(3) by simp
    have c: "ok s3" "nc = al_cache al1" "blocks s3 = blocks s2" using cache_loop_blocks [OF q(1) no_cache(3) n] by simp_all
    have "getBackingInfo (at_id task) nc = None" using c(2) n by (simp add: getBackingInfo_def)
    with rollback_blocks [OF c(1) no_cache(4)] c(3) p(3) q(3,4,6) no_cache(5) show ?thesis
      by (auto simp: param_infos_def cache_layer_def split: if_splits)
  next
    case (registered w r s1 mm al1 s2 n nc)
    note p = alloc_params_blocks [OF assms(1) registered(1)]
    note q = register_ppu_blocks [OF p(1) registered(2) un(2)]
    have "map_of (nc_taskNpuMemoryCaches (al_cache al1)) (at_id task) = None" using q(2) un(3) by simp
    from cache_loop_blocks [OF q(1) registered(3) this] p(3) q(3,4,6) registered show ?thesis
      by (auto simp: task_blocks_def param_infos_def cache_layer_def update_conv' split: if_splits)
  qed
qed

lemma release_blocks:
  assumes "ok s" "map_of (al_modelMemoryInfos al) t = Some mm" "map_of (al_ppuBinaryOffsets al) t = None" "si_block_id (mm_ppu mm) \<le> 0"
    and "Release dealloc t al s = (al', s')"
  shows "ok s'" "blocks s' = blocks s - task_blocks t al" "unregistered t al'"
proof -
  obtain nc s1 where u: "unregister_cache dealloc t (al_cache al) s = (nc, s1)" by fastforce
  note ub = unregister_cache_blocks [OF assms(1) u]
  have s': "s' = dealloc_id dealloc (mm_weight mm) (dealloc_id dealloc (mm_rmap mm) s1)"
    using assms(2-5) u by (auto simp: Release_def Let_def Acc_Task_Layer.dealloc_id_def split: option.splits)
  show "ok s'" using s' ub(1) dealloc_id_blocks(1) by simp
  have "blocks s' = blocks s1 - {si_block_id (mm_rmap mm)} - {si_block_id (mm_weight mm)}"
    using s' ub(1) dealloc_id_blocks by simp
  then show "blocks s' = blocks s - task_blocks t al"
    using ub(2) assms(2,3) by (auto simp: task_blocks_def split: option.splits)
  have "al_cache al' = nc" "map_of (al_modelMemoryInfos al') t = None" "map_of (al_ppuBinaryOffsets al') t = None"
    using assms(5) u by (auto simp: Release_def Let_def delete_conv split: prod.splits)
  then show "unregistered t al'" using ub(3) by (simp add: unregistered_def getBackingInfo_def)
qed

text \<open>
  A task with a PPU binary loses one block more: after the PPU block itself, its offset in device
  memory is handed to \<open>DeAllocate\<close>, which takes it for a block id.
\<close>

lemma release_ppu_blocks:
  assumes "ok s" "map_of (al_modelMemoryInfos al) t = Some mm" "map_of (al_ppuBinaryOffsets al) t = Some off" "off \<noteq> 0" "off \<noteq> -1"
    "0 < si_size (mm_ppu mm)" and "Release dealloc t al s = (al', s')"
  shows "blocks s' = blocks s - task_blocks t al - {uint off}"
proof -
  obtain nc s1 where u: "unregister_cache dealloc t (al_cache al) s = (nc, s1)" by fastforce
  note ub = unregister_cache_blocks [OF assms(1) u]
  have s': "s' = dealloc_at dealloc (uint off) (dealloc_id dealloc (mm_ppu mm) (dealloc_id dealloc (mm_weight mm) (dealloc_id dealloc (mm_rmap mm) s1)))"
    using assms(2-7) u by (auto simp: Release_def Let_def split: option.splits)
  have ok: "ok (dealloc_id dealloc (mm_ppu mm) (dealloc_id dealloc (mm_weight mm) (dealloc_id dealloc (mm_rmap mm) s1)))"
    using ub(1) dealloc_id_blocks(1) by simp
  have "blocks s' = blocks s1 - {si_block_id (mm_rmap mm)} - {si_block_id (mm_weight mm)} - {si_block_id (mm_ppu mm)} - {uint off}"
    unfolding s' dealloc_at_def local.dealloc_id [OF ok] using ub(1) dealloc_id_blocks by (simp add: by_address_def)
  then show ?thesis using ub(2) assms(2,3) by (auto simp: task_blocks_def split: option.splits)
qed

end

lemma register_task_plain:
  assumes "unregistered (at_id task) al" "\<not> at_isPPCPU task" "RegisterTask alloc dealloc env task al s = Some (0, al', s')"
  shows "map_of (al_ppuBinaryOffsets al') (at_id task) = None"
    "\<exists>mm. map_of (al_modelMemoryInfos al') (at_id task) = Some mm \<and> si_block_id (mm_ppu mm) = 0"
  using assms by (auto simp: RegisterTask_def Let_def register_ppu_def unregistered_def update_conv' no_mem_infos_def no_info_def by_address_def
      split: if_splits prod.splits)


definition demo_task :: acc_task where
  "demo_task = \<lparr>at_id = 5,
     at_npuModel = \<lparr>nm_type = 0, nm_format = 0, nm_cmds = 1, nm_op_mode = 0,
       nm_rmap = \<lparr>dm_data = 0, dm_base = 0, dm_offset = 0, dm_size = 100\<rparr>, nm_weight = \<lparr>dm_data = 0, dm_base = 0, dm_offset = 0, dm_size = 200\<rparr>,
       nm_last_output_offset = 64, nm_last_output_size = 300, nm_output_all_offset = 0, nm_checkpoints = []\<rparr>,
     at_input_size = 1000, at_output_size = 300, at_encodedInputSize = 1000, at_outputMemSize = 500, at_isPPCPU = False, at_data = [],
     at_buffer_count = 2\<rparr>"

definition demo_env :: acc_env where
  "demo_env = \<lparr>ae_write = (\<lambda>_. 0), ae_verified = True, ae_isRunOnService = False, ae_mem_addr = 0\<rparr>"

definition empty_layer :: AccDeviceTaskLayer where
  "empty_layer = \<lparr>al_npuModel = [], al_modelMemoryInfos = [], al_taskStaticConfigs = [], al_ppuBinaryOffsets = [],
     al_cache = \<lparr>nc_taskNpuMemoryCaches = [], nc_freed = []\<rparr>, al_ongoingRequests = [], al_ongoingInputAllocations = [], al_inputQueue = []\<rparr>"

definition demo_layer :: NoServiceLayer where
  "demo_layer = RegisterDeviceCore 0 0 65536 NoServiceLayer_new"

lemma demo_register: "map_option fst (RegisterTask (ns_alloc 1 0) (ns_dealloc 0) demo_env demo_task empty_layer demo_layer) = Some 0"
  by code_simp


section \<open>The layout of a slice\<close>

lemma align_up: "64 * (x div 64) + (if 0 < x mod 64 then 64 else 0) = 64 * ((x + 63) div (64 :: int))"
proof -
  have s: "(x + 63) div 64 = x div 64 + (x mod 64 + 63) div 64" using div_add1_eq [of x 63 64] by simp
  show ?thesis
  proof (cases "0 < x mod 64")
    case True
    have "(x mod 64 + 63) div 64 = (64 + (x mod 64 - 1)) div 64" by (simp add: algebra_simps)
    also have "\<dots> = 1" using True by (subst div_add_self1) (simp_all add: div_pos_pos_trivial)
    finally show ?thesis using s True by simp
  next
    case False
    then have "x mod 64 = 0" using pos_mod_sign [of 64 x] by linarith
    then show ?thesis using s by simp
  qed
qed

lemma uint_data_align64:
  assumes "uint x \<le> 2 ^ 32 - 64"
  shows "uint (data_align64 x) = 64 * ((uint x + 63) div 64)"
proof -
  have u: "0 \<le> uint x" "uint x < 2 ^ 32" using uint_lt2p [of x] by simp_all
  have "64 * (uint x div 64) + uint x mod 64 = uint x" "0 \<le> uint x mod 64" by simp_all
  with u have "64 * (uint x div 64) < 2 ^ 32" by linarith
  then have d: "uint (64 * (x div 64)) = 64 * (uint x div 64)" using u by (simp add: uint_word_ariths uint_div mod_pos_pos_trivial pos_imp_zdiv_nonneg_iff)
  have m: "0 < x mod 64 \<longleftrightarrow> 0 < uint x mod 64" by (simp add: word_less_def uint_mod)
  have "uint (data_align64 x) = 64 * (uint x div 64) + (if 0 < uint x mod 64 then 64 else 0)"
  proof (cases "0 < uint x mod 64")
    case True
    have "64 * (uint x div 64) + uint x mod 64 = uint x" by simp
    with True assms have "64 * (uint x div 64) + 64 < 2 ^ 32 + 0" by linarith
    with True m d u show ?thesis by (simp add: data_align64_def uint_word_ariths(1) d mod_pos_pos_trivial pos_imp_zdiv_nonneg_iff add_nonneg_nonneg)
  next
    case False
    with m d show ?thesis by (simp add: data_align64_def)
  qed
  then show ?thesis unfolding align_up .
qed

lemma data_align64_int_eq:
  assumes "0 \<le> x"
  shows "data_align64_int x = 64 * ((x + 63) div 64)"
proof -
  have "x sdiv 64 = x div 64 \<and> x smod 64 = x mod 64"
  proof (cases "x = 0")
    case False
    with assms have "sgn x = 1" by simp
    with assms show ?thesis by (simp add: signed_divide_int_def signed_modulo_int_def minus_div_mult_eq_mod)
  qed simp
  then have "data_align64_int x = 64 * (x div 64) + (if 0 < x mod 64 then 64 else 0)" by (simp add: data_align64_int_def)
  then show ?thesis unfolding align_up .
qed

text \<open>
  Sizes for which the 32-bit sums do not wrap. The legacy offset of the outputs, when there is
  one, must leave room for the input.
\<close>

definition sizes_ok :: "acc_task \<Rightarrow> bool" where
  "sizes_ok task \<longleftrightarrow> uint (at_encodedInputSize task) < 2 ^ 31 \<and>
     (nm_output_all_offset (at_npuModel task) \<noteq> 0 \<longrightarrow> at_encodedInputSize task \<le> nm_output_all_offset (at_npuModel task))"

text \<open>Offset and size of the output within a slice, as numbers.\<close>

definition output_start :: "acc_task \<Rightarrow> int" where
  "output_start task =
     (if nm_output_all_offset (at_npuModel task) \<noteq> 0 then uint (nm_output_all_offset (at_npuModel task))
      else 64 * ((uint (at_encodedInputSize task) + 63) div 64)) + uint (nm_last_output_offset (at_npuModel task))"

lemma block_size_covers:
  assumes "sizes_ok task"
  shows "uint (at_encodedInputSize task) \<le> output_start task" "0 \<le> output_start task"
    "output_start task + uint (nm_last_output_size (at_npuModel task)) \<le> cache_block_size task" "cache_block_size task < 2 ^ 34"
proof -
  let ?m = "at_npuModel task" and ?x = "uint (at_encodedInputSize task)"
  have x: "?x < 2 ^ 31" "0 \<le> ?x" using assms by (simp_all add: sizes_ok_def)
  have "- 2147483648 \<le> ?x" using x(2) by linarith
  then have "sint (at_encodedInputSize task) = ?x" using x(1) by (simp add: sint_uint signed_take_bit_int_eq_self)
  then have al: "data_align64_int (sint (at_encodedInputSize task)) = 64 * ((?x + 63) div 64)" using x by (simp add: data_align64_int_eq)
  have "64 * ((?x + 63) div 64) + (?x + 63) mod 64 = ?x + 63" "(?x + 63) mod 64 < 64" "0 \<le> (?x + 63) mod 64" by simp_all
  then have up: "?x \<le> 64 * ((?x + 63) div 64)" "64 * ((?x + 63) div 64) < 4294967296" using x by simp_all
  have b: "uint (nm_output_all_offset ?m) < 2 ^ 32" "uint (nm_last_output_offset ?m) < 2 ^ 32" "uint (nm_last_output_size ?m) < 2 ^ 32"
    "uint (at_outputMemSize task) < 2 ^ 32" using uint_lt2p [where 'a = 32] by simp_all
  have le: "nm_output_all_offset ?m \<noteq> 0 \<longrightarrow> ?x \<le> uint (nm_output_all_offset ?m)" using assms by (simp add: sizes_ok_def word_le_def)
  have nn: "0 \<le> uint (nm_last_output_offset ?m)" "0 \<le> uint (nm_last_output_size ?m)" "0 \<le> uint (nm_output_all_offset ?m)"
    "0 \<le> uint (at_outputMemSize task)" by simp_all
  define d where "d = (if nm_output_all_offset ?m \<noteq> 0 then uint (nm_output_all_offset ?m) else 64 * ((?x + 63) div 64))"
  have d: "?x \<le> d" "d < 4294967296" using up le b by (auto simp: d_def)
  have os: "output_start task = d + uint (nm_last_output_offset ?m)" by (simp add: output_start_def d_def)
  have cb: "cache_block_size task = max (64 * ((?x + 63) div 64) + uint (at_outputMemSize task))
      (d + uint (nm_last_output_offset ?m) + uint (nm_last_output_size ?m))"
    by (simp add: cache_block_size_def al d_def Let_def)
  show "?x \<le> output_start task" "0 \<le> output_start task" using d(1) x(2) nn(1) os by linarith+
  show "output_start task + uint (nm_last_output_size ?m) \<le> cache_block_size task" using os cb by simp
  show "cache_block_size task < 2 ^ 34" using cb d(2) up(2) b by (simp add: max_def)
qed

text \<open>Parts of a valid view stay within it and do not wrap.\<close>

lemma sub_view_range:
  assumes "view_isValid v" "uint off + uint n \<le> uint (vw_size v)"
  shows "slice_range \<lparr>vw_info = i, vw_offset = vw_offset v + off, vw_size = n\<rparr> =
    {unat (vw_offset v) + unat off..<unat (vw_offset v) + unat off + unat n}"
    "{unat (vw_offset v) + unat off..<unat (vw_offset v) + unat off + unat n} \<subseteq> slice_range v"
proof -
  have "vw_offset v \<le> si_size (vw_info v)" "vw_size v \<le> si_size (vw_info v) - vw_offset v" using assms(1) by (auto simp: view_isValid_def)
  then have "uint (vw_offset v) + uint (vw_size v) \<le> uint (si_size (vw_info v))"
    by (simp add: word_le_def uint_sub_lem [THEN iffD1])
  moreover have "uint (si_size (vw_info v)) < 2 ^ 64" "0 \<le> uint n" using uint_lt2p [of "si_size (vw_info v)"] by simp_all
  ultimately have "uint (vw_offset v) + uint off < 2 ^ 64" using assms(2) by linarith
  then have "int (unat (vw_offset v) + unat off) < int (2 ^ 64)" by simp
  then have "unat (vw_offset v) + unat off < 2 ^ 64" by (simp only: of_nat_less_iff)
  then have "unat (vw_offset v + off) = unat (vw_offset v) + unat off" by (simp add: unat_word_ariths(1))
  then show "slice_range \<lparr>vw_info = i, vw_offset = vw_offset v + off, vw_size = n\<rparr> =
    {unat (vw_offset v) + unat off..<unat (vw_offset v) + unat off + unat n}" by (simp add: slice_range_def)
  have "int (unat off) + int (unat n) \<le> int (unat (vw_size v))" using assms(2) by simp
  then have "unat off + unat n \<le> unat (vw_size v)" by linarith
  then show "{unat (vw_offset v) + unat off..<unat (vw_offset v) + unat off + unat n} \<subseteq> slice_range v"
    by (auto simp: slice_range_def)
qed

text \<open>The driver's numbers for the output are those of the view of the slice.\<close>

lemma uint_ucast_64 [simp]: "uint (ucast (x :: u32) :: u64) = uint x"
  by (rule uint_up_ucast) (simp add: is_up)

lemma uint_output_delta:
  assumes "sizes_ok task"
  shows "uint (output_delta (static_config task m' c) (at_encodedInputSize task) + ucast (nm_last_output_offset m')) =
    (if nm_output_all_offset m' \<noteq> 0 then uint (nm_output_all_offset m')
      else 64 * ((uint (at_encodedInputSize task) + 63) div 64)) + uint (nm_last_output_offset m')"
proof -
  have x: "uint (at_encodedInputSize task) \<le> 2 ^ 32 - 64" using assms by (simp add: sizes_ok_def)
  let ?d = "output_delta (static_config task m' c) (at_encodedInputSize task)"
  have d: "uint ?d = (if nm_output_all_offset m' \<noteq> 0 then uint (nm_output_all_offset m')
      else 64 * ((uint (at_encodedInputSize task) + 63) div 64))"
    by (simp add: output_delta_def static_config_def uint_data_align64 [OF x, symmetric])
  have "uint ?d < 2 ^ 32" using uint_lt2p [where 'a = 32] by (simp add: output_delta_def)
  moreover have "uint (nm_last_output_offset m') < 2 ^ 32" using uint_lt2p [of "nm_last_output_offset m'"] by simp
  ultimately have "uint ?d + uint (ucast (nm_last_output_offset m') :: u64) < 2 ^ 64" by simp
  then have "uint (?d + ucast (nm_last_output_offset m')) = uint ?d + uint (ucast (nm_last_output_offset m') :: u64)"
    by (simp add: uint_word_ariths(1))
  with d show ?thesis by simp
qed

lemma ucast_add_32: "(ucast (a + b :: u64) :: u32) = ucast a + ucast b"
proof -
  have "uint (ucast (a + b) :: u32) = uint (ucast a + ucast b :: u32)"
    by (simp add: unsigned_ucast_eq uint_word_ariths(1) take_bit_eq_mod mod_mod_cancel mod_simps)
  then show ?thesis by (simp add: word_uint_eq_iff)
qed

lemma ucast_up_down [simp]: "(ucast (ucast (x :: u32) :: u64) :: u32) = x"
  by (rule ucast_up_ucast_id) (simp add: is_up)

text \<open>What a submitted request leaves in the tables.\<close>

lemma InferenceRequestACC_tables:
  assumes "InferenceRequestACC alloc pid b req al s = Returned_acc (al', s')"
  obtains cfg v acc where "map_of (al_taskStaticConfigs al) (at_id (ar_task req)) = Some cfg" "view_isValid v"
    "map_of (al_ongoingInputAllocations al') (ar_requestId req) = Some \<lparr>oc_slice = v, oc_taskId = at_id (ar_task req)\<rparr>"
    "map_of (al_ongoingRequests al') (ar_requestId req) = Some acc" "al_taskStaticConfigs al' = al_taskStaticConfigs al"
    "dm_size (dr_input acc) = cf_input_size cfg" "dm_size (dr_output acc) = cf_output_size cfg"
    "dm_offset (dr_input acc) = ucast (deviceAddress v)"
    "dm_offset (dr_output acc) = ucast (deviceAddress v) + (if cf_output_all_offset cfg \<noteq> 0 then cf_output_all_offset cfg
       else data_align64 (cf_input_size cfg)) + cf_last_output_offset cfg"
  using assms
  by (auto simp: InferenceRequestACC_def Let_def BuildDriverRequest_def update_conv' split: option.splits acc_outcome.splits prod.splits if_splits)

lemma model_with_offsets_simps [simp]:
  "nm_output_all_offset (model_with_offsets env task w r) = nm_output_all_offset (at_npuModel task)"
  "nm_last_output_offset (model_with_offsets env task w r) = nm_last_output_offset (at_npuModel task)"
  "nm_last_output_size (model_with_offsets env task w r) = nm_last_output_size (at_npuModel task)"
  by (simp_all add: model_with_offsets_def Let_def)

lemma static_config_simps [simp]:
  "cf_input_size (static_config task m c) = at_encodedInputSize task" "cf_output_size (static_config task m c) = nm_last_output_size m"
  "cf_last_output_offset (static_config task m c) = nm_last_output_offset m"
  "cf_output_all_offset (static_config task m c) = nm_output_all_offset m"
  by (simp_all add: static_config_def)

text \<open>
  Claim C40. The two transfers of a request lie in its slice and apart from each other: for a task with
  the configuration that registration stored and a slice of the size of its cache, the input view
  and the output view are parts of the slice that do not overlap, and the offsets the driver gets for them are the
  device addresses of these views, cut to 32 bits.
\<close>
theorem request_views_in_slice:
  assumes "sizes_ok task" and "ar_task req = task"
    and "map_of (al_taskStaticConfigs al) (at_id task) = Some (static_config task (model_with_offsets env task w r) c)"
    and "InferenceRequestACC alloc pid b req al s = Returned_acc (al', s')"
    and "map_of (al_ongoingInputAllocations al') (ar_requestId req) = Some oc"
    and "cache_block_size task \<le> uint (vw_size (oc_slice oc))"
  shows "\<exists>iv ov acc. input_view (ar_requestId req) al' = Some iv \<and> output_view task (ar_requestId req) al' = Some ov \<and>
    slice_range iv \<subseteq> slice_range (oc_slice oc) \<and> slice_range ov \<subseteq> slice_range (oc_slice oc) \<and> slice_range iv \<inter> slice_range ov = {} \<and>
    map_of (al_ongoingRequests al') (ar_requestId req) = Some acc \<and>
    dm_offset (dr_input acc) = ucast (deviceAddress iv) \<and> dm_offset (dr_output acc) = ucast (deviceAddress ov)"
proof -
  let ?cfg = "static_config task (model_with_offsets env task w r) c"
  obtain cfg v acc where t: "map_of (al_taskStaticConfigs al) (at_id (ar_task req)) = Some cfg" "view_isValid v"
    "map_of (al_ongoingInputAllocations al') (ar_requestId req) = Some \<lparr>oc_slice = v, oc_taskId = at_id (ar_task req)\<rparr>"
    "map_of (al_ongoingRequests al') (ar_requestId req) = Some acc" "al_taskStaticConfigs al' = al_taskStaticConfigs al"
    "dm_size (dr_input acc) = cf_input_size cfg" "dm_size (dr_output acc) = cf_output_size cfg"
    "dm_offset (dr_input acc) = ucast (deviceAddress v)"
    "dm_offset (dr_output acc) = ucast (deviceAddress v) + (if cf_output_all_offset cfg \<noteq> 0 then cf_output_all_offset cfg
       else data_align64 (cf_input_size cfg)) + cf_last_output_offset cfg"
    by (rule InferenceRequestACC_tables [OF assms(4)])
  have cfg: "cfg = ?cfg" and oc: "oc_slice oc = v" using t(1,3) assms(2,3,5) by auto
  let ?off = "output_delta ?cfg (at_encodedInputSize task) + ucast (nm_last_output_offset (at_npuModel task))"
  let ?iv = "\<lparr>vw_info = vw_info v, vw_offset = vw_offset v + 0, vw_size = ucast (at_encodedInputSize task)\<rparr>"
  let ?ov = "\<lparr>vw_info = vw_info v, vw_offset = vw_offset v + ?off, vw_size = ucast (nm_last_output_size (at_npuModel task))\<rparr>"
  have views: "input_view (ar_requestId req) al' = Some ?iv" "output_view task (ar_requestId req) al' = Some ?ov"
    using t cfg assms(2,3) by (simp_all add: input_view_def output_view_def)
  have off: "uint ?off = output_start task"
    using uint_output_delta [OF assms(1), of "model_with_offsets env task w r" c] by (simp add: output_start_def)
  note cover = block_size_covers [OF assms(1)]
  have fit: "uint (0 :: u64) + uint (ucast (at_encodedInputSize task) :: u64) \<le> uint (vw_size v)"
    "uint ?off + uint (ucast (nm_last_output_size (at_npuModel task)) :: u64) \<le> uint (vw_size v)"
  proof -
    have "0 \<le> uint (nm_last_output_size (at_npuModel task))" by simp
    with cover(1,3) assms(6) [unfolded oc] have "uint (at_encodedInputSize task) \<le> uint (vw_size v)" by linarith
    then show "uint (0 :: u64) + uint (ucast (at_encodedInputSize task) :: u64) \<le> uint (vw_size v)" by simp
    show "uint ?off + uint (ucast (nm_last_output_size (at_npuModel task)) :: u64) \<le> uint (vw_size v)"
      using cover(3) off assms(6) oc by simp
  qed
  note iv = sub_view_range(1) [OF t(2) fit(1), of "vw_info v"] sub_view_range(2) [OF t(2) fit(1)]
    and ov = sub_view_range(1) [OF t(2) fit(2), of "vw_info v"] sub_view_range(2) [OF t(2) fit(2)]
  have "int (unat (ucast (at_encodedInputSize task) :: u64)) \<le> int (unat ?off)" using cover(1) off by simp
  then have "unat (ucast (at_encodedInputSize task) :: u64) \<le> unat ?off" by (simp only: of_nat_le_iff)
  then have apart: "slice_range ?iv \<inter> slice_range ?ov = {}" unfolding iv(1) ov(1) by auto
  have "ucast (deviceAddress ?ov) = (ucast (deviceAddress v) + (if cf_output_all_offset ?cfg \<noteq> 0 then cf_output_all_offset ?cfg
       else data_align64 (cf_input_size ?cfg)) + cf_last_output_offset ?cfg :: u32)"
    by (simp add: deviceAddress_def output_delta_def ucast_add_32 algebra_simps)
  with views iv ov apart oc t(4,8,9) cfg show ?thesis by (intro exI [of _ ?iv] exI [of _ ?ov] exI [of _ acc]) (simp add: deviceAddress_def)
qed


definition demo_request :: acc_request where
  "demo_request = \<lparr>ar_requestId = 7, ar_task = demo_task, ar_has_inputs = True, ar_encoded_inputs_ptr = 0, ar_encoded_outputs_ptr = 0,
     ar_ioSlice = None\<rparr>"

definition demo_registered :: AccDeviceTaskLayer where
  "demo_registered = empty_layer\<lparr>
     al_taskStaticConfigs := [(5, static_config demo_task (model_with_offsets demo_env demo_task (by_address 4096) (by_address 8192)) 0)],
     al_cache := \<lparr>nc_taskNpuMemoryCaches = [(5, TaskNpuMemoryCacheManager_new (cache_block_size demo_task) 2
       ((by_address 12288)\<lparr>si_size := 4000\<rparr>))], nc_freed = []\<rparr>\<rparr>"

lemma demo_submit:
  "case InferenceRequestACC (ns_alloc 1 0) 1 0 demo_request demo_registered demo_layer of
     Returned_acc (al', s') \<Rightarrow> (case map_of (al_ongoingInputAllocations al') 7 of
       Some oc \<Rightarrow> cache_block_size demo_task \<le> uint (vw_size (oc_slice oc)) | None \<Rightarrow> False) | _ \<Rightarrow> False"
  by code_simp

theorem request_views_in_slice_witness:
  "\<exists>al' s' iv ov. InferenceRequestACC (ns_alloc 1 0) 1 0 demo_request demo_registered demo_layer = Returned_acc (al', s') \<and>
     input_view 7 al' = Some iv \<and> output_view demo_task 7 al' = Some ov \<and> slice_range iv \<inter> slice_range ov = {}"
proof -
  obtain al' s' oc where a: "InferenceRequestACC (ns_alloc 1 0) 1 0 demo_request demo_registered demo_layer = Returned_acc (al', s')"
    "map_of (al_ongoingInputAllocations al') 7 = Some oc" "cache_block_size demo_task \<le> uint (vw_size (oc_slice oc))"
    using demo_submit by (auto split: acc_outcome.splits option.splits)
  have ok: "sizes_ok demo_task" by (simp add: sizes_ok_def demo_task_def)
  have cfg: "map_of (al_taskStaticConfigs demo_registered) (at_id demo_task) =
      Some (static_config demo_task (model_with_offsets demo_env demo_task (by_address 4096) (by_address 8192)) 0)"
    by (simp add: demo_registered_def empty_layer_def demo_task_def)
  have "ar_task demo_request = demo_task" and id: "ar_requestId demo_request = 7" by (simp_all add: demo_request_def)
  from request_views_in_slice [OF ok this(1) cfg a(1) a(2) [folded id] a(3)] a(1) id show ?thesis by auto
qed

text \<open>
  The boxes of a PPCPU model never exceed the output buffer of the task, whatever number the device reports, and
  the channel of a request is always one of the device.
\<close>

lemma ppcpu_output_bounded:
  assumes "uint (at_output_size task) < 2 ^ 31" "0 < unit"
  shows "uint (dm_size (SetMemInfo_PPCPU out (ucast (validated_filter_num unit task num)) unit ptr)) \<le> uint (at_output_size task)"
proof -
  let ?o = "uint (at_output_size task)" and ?n = "validated_filter_num unit task num"
  have o: "0 \<le> ?o" "- 2147483648 \<le> ?o" by (simp, rule order_trans [of _ 0], simp_all)
  then have "sint (at_output_size task) = ?o" using assms(1) by (simp add: sint_uint signed_take_bit_int_eq_self)
  then have "scast (at_output_size task) = (word_of_int ?o :: u64)" by (metis of_int_sint)
  then have m: "uint (scast (at_output_size task) div unit) = ?o div uint unit"
    using assms(1) o(1) by (simp add: uint_div uint_word_of_int mod_pos_pos_trivial)
  have u: "0 < uint unit" using assms(2) by (simp add: word_less_def)
  have "?o div uint unit \<le> ?o" using zdiv_mono2 [of ?o 1 "uint unit"] o(1) u by simp
  then have b: "?o div uint unit < 2 ^ 32" using assms(1) by simp
  have n: "uint ?n \<le> ?o div uint unit"
  proof (cases "scast (at_output_size task) div unit < (ucast num :: u64)")
    case True
    then have "uint ?n = (?o div uint unit) mod 2 ^ 32"
      by (simp add: validated_filter_num_def unsigned_ucast_eq take_bit_eq_mod m)
    then show ?thesis using b o(1) u by (simp add: mod_pos_pos_trivial pos_imp_zdiv_nonneg_iff)
  next
    case False
    then have "?n = num" by (simp add: validated_filter_num_def)
    moreover have "uint (ucast num :: u64) \<le> ?o div uint unit" using False by (simp add: word_less_def m not_less)
    ultimately show ?thesis by simp
  qed
  have "uint unit * uint ?n \<le> uint unit * (?o div uint unit)" using n u by (simp add: mult_left_mono)
  moreover have "uint unit * (?o div uint unit) + ?o mod uint unit = ?o" "0 \<le> ?o mod uint unit" using u by simp_all
  ultimately have p: "uint unit * uint ?n \<le> ?o" by linarith
  have "uint (unit * ucast ?n :: u64) = uint unit * uint ?n"
    using p assms(1) by (simp add: uint_word_ariths mod_pos_pos_trivial)
  then show ?thesis using p assms(1)
    by (simp add: SetMemInfo_PPCPU_def unsigned_ucast_eq take_bit_eq_mod mod_pos_pos_trivial)
qed

lemma dma_channel_range:
  assumes "0 < n"
  shows "0 \<le> dma_channel n ch" "dma_channel n ch < n"
proof -
  have r: "- n < ch smod n" using assms smod_int_range(1) [of n ch] by simp
  then have "(ch smod n + n) smod n = (ch smod n + n) mod n" using assms
    by (simp add: signed_modulo_int_def signed_divide_int_def minus_div_mult_eq_mod)
  then show "0 \<le> dma_channel n ch" "dma_channel n ch < n" using assms by (auto simp: dma_channel_def)
qed

end
