(* ===== verification/Acc_In_Flight.thy ===== *)
theory Acc_In_Flight
  imports Acc_Task_Layer_Correct
begin

text \<open>
  Requests in flight on an accelerator: the interleavings of preparing, submitting, reading and returning as a step
  relation, the invariant that slices are neither lost nor duplicated, and that no two requests share
  device memory.
\<close>

section \<open>Slices in flight\<close>

text \<open>
  The requests of an accelerator, as the worker threads interleave them: a request may get its slice early
  (\<open>PrepareZeroCopyIo\<close>), it is submitted, its output is read, and its slice is returned. The first component holds the
  requests that are prepared and not submitted yet. A request is submitted under an id that no request in flight has
  (the ids come from the pool of requests), for a task that has a cache.
\<close>

inductive acc_step :: "'s allocator \<Rightarrow> 's releaser \<Rightarrow> acc_request list \<times> AccDeviceTaskLayer \<times> 's \<Rightarrow> acc_request list \<times> AccDeviceTaskLayer \<times> 's \<Rightarrow> bool"
  for alloc :: "'s allocator" and dealloc :: "'s releaser" where
  prepare_io: "ar_ioSlice req = None \<Longrightarrow> PrepareZeroCopyIo env req al = Returned_acc (req', al') \<Longrightarrow> acc_step alloc dealloc (rs, al, s) (req' # rs, al', s)"
| submit_request: "req \<in> set rs \<Longrightarrow> map_of (al_ongoingInputAllocations al) (ar_requestId req) = None \<Longrightarrow> canGetCache (at_id (ar_task req)) (al_cache al) \<Longrightarrow>
    InferenceRequestACC alloc pid b req al s = Returned_acc (al', s') \<Longrightarrow> acc_step alloc dealloc (rs, al, s) (remove1 req rs, al', s')"
| read_output: "acc_step alloc dealloc (rs, al, s) (rs, finish_output r al, s)"
| return_slice: "ReleaseInferenceCache dealloc r al s = (al', s') \<Longrightarrow> acc_step alloc dealloc (rs, al, s) (rs, al', s')"

inductive_cases acc_stepE: "acc_step alloc dealloc (rs, al, s) c"

text \<open>The slices of a task that are out, and those of its cache.\<close>

definition prepared_slices :: "int \<Rightarrow> acc_request list \<Rightarrow> SharedMemoryView multiset" where
  "prepared_slices t rs = mset (List.map_filter ar_ioSlice (filter (\<lambda>r. at_id (ar_task r) = t) rs))"

definition ongoing_slices :: "int \<Rightarrow> AccDeviceTaskLayer \<Rightarrow> SharedMemoryView multiset" where
  "ongoing_slices t al = mset (map (oc_slice \<circ> snd) (filter (\<lambda>(r, oc). oc_taskId oc = t) (al_ongoingInputAllocations al)))"

definition cache_slices :: "int \<Rightarrow> NpuMemoryCacheManager \<Rightarrow> SharedMemoryView multiset" where
  "cache_slices t nc = (case map_of (nc_taskNpuMemoryCaches nc) t of None \<Rightarrow> {#} | Some tc \<Rightarrow> mset (tc_npuMemoryCaches tc))"

definition slices_inv :: "(int \<Rightarrow> SharedMemoryView multiset) \<Rightarrow> acc_request list \<times> AccDeviceTaskLayer \<times> 's \<Rightarrow> bool" where
  "slices_inv V c = (case c of (rs, al, s) \<Rightarrow> distinct (map fst (al_ongoingInputAllocations al)) \<and>
     (\<forall>(r, oc) \<in> set (al_ongoingInputAllocations al). canGetCache (oc_taskId oc) (al_cache al)) \<and>
     (\<forall>t. prepared_slices t rs + ongoing_slices t al + cache_slices t (al_cache al) = V t \<and> (\<forall>v \<in># V t. view_isValid v)))"

text \<open>Taking and returning a slice, as seen by any task.\<close>

lemma mset_butlast_last: "xs \<noteq> [] \<Longrightarrow> mset xs = add_mset (last xs) (mset (butlast xs))"
  by (metis append_butlast_last_id mset.simps(1,2) mset_append union_commute add_mset_add_single)

lemma AList_update_new: "k \<notin> fst ` set xs \<Longrightarrow> AList.update k v xs = xs @ [(k, v)]"
  by (induction xs) auto

lemma take_slice:
  assumes "getNpuMemoryCache t' nc = Slice v nc'"
  shows "canGetCache t nc' = canGetCache t nc" "cache_slices t nc = (if t = t' then {#v#} else {#}) + cache_slices t nc'"
  using assms
  by (auto simp: getNpuMemoryCache_def task_getNpuMemoryCache_def canGetCache_def cache_slices_def update_conv'
      mset_butlast_last split: option.splits if_splits)

lemma give_slice:
  "canGetCache t (returnNpuMemoryCache t' v nc) = canGetCache t nc"
  "canGetCache t' nc \<Longrightarrow> cache_slices t (returnNpuMemoryCache t' v nc) = (if t = t' then {#v#} else {#}) + cache_slices t nc"
  by (auto simp: returnNpuMemoryCache_def task_returnNpuMemoryCache_def canGetCache_def cache_slices_def update_conv' split: option.splits)


lemma PrepareZeroCopyIo_cases:
  assumes "PrepareZeroCopyIo env req al = Returned_acc (req', al')" "ar_ioSlice req = None" "\<forall>v \<in># cache_slices (at_id (ar_task req)) (al_cache al). view_isValid v"
  shows "ar_task req' = ar_task req \<and> al_ongoingInputAllocations al' = al_ongoingInputAllocations al \<and>
    (ar_ioSlice req' = None \<and> (\<forall>t. canGetCache t (al_cache al') = canGetCache t (al_cache al) \<and> cache_slices t (al_cache al') = cache_slices t (al_cache al)) \<or>
     (\<exists>v. ar_ioSlice req' = Some v \<and> getNpuMemoryCache (at_id (ar_task req)) (al_cache al) = Slice v (al_cache al')))"
proof (cases "getNpuMemoryCache (at_id (ar_task req)) (al_cache al)")
  case (Slice v nc)
  note t = take_slice [OF Slice]
  have "view_isValid v" using assms(3) t(2) [of "at_id (ar_task req)"] by auto
  moreover have "canGetCache (at_id (ar_task req)) nc" using Slice by (auto simp: getNpuMemoryCache_def canGetCache_def update_conv' split: option.splits)
  ultimately show ?thesis using assms(1,2) Slice t
    by (auto simp: PrepareZeroCopyIo_def Let_def give_slice split: if_splits option.splits)
qed (use assms in \<open>auto simp: PrepareZeroCopyIo_def Let_def split: if_splits option.splits\<close>)

lemma prepared_slices_simps [simp]:
  "prepared_slices t [] = {#}"
  "prepared_slices t (r # rs) = (if at_id (ar_task r) = t then (case ar_ioSlice r of None \<Rightarrow> {#} | Some v \<Rightarrow> {#v#}) else {#}) + prepared_slices t rs"
  by (simp_all add: prepared_slices_def List.map_filter_simps split: option.split)

lemma prepared_slices_remove:
  "r \<in> set rs \<Longrightarrow> prepared_slices t rs = prepared_slices t [r] + prepared_slices t (remove1 r rs)"
  by (induction rs) (auto simp: ac_simps)

lemma InferenceRequestACC_slices:
  assumes "InferenceRequestACC alloc pid b req al s = Returned_acc (al', s')" "canGetCache (at_id (ar_task req)) (al_cache al)"
    "map_of (al_ongoingInputAllocations al) (ar_requestId req) = None"
  shows "\<exists>v. al_ongoingInputAllocations al' = al_ongoingInputAllocations al @ [(ar_requestId req, \<lparr>oc_slice = v, oc_taskId = at_id (ar_task req)\<rparr>)] \<and>
    (if ar_ioSlice req = None then getNpuMemoryCache (at_id (ar_task req)) (al_cache al) = Slice v (al_cache al')
     else ar_ioSlice req = Some v \<and> al_cache al' = al_cache al)"
  using assms
  by (auto simp: InferenceRequestACC_def AllocateFromCache_def Let_def map_of_eq_None_iff AList_update_new split: option.splits acc_outcome.splits prod.splits if_splits cache_get.splits)


text \<open>Each kind of step moves slices between the three places.\<close>

lemma slices_inv_prepare:
  assumes "slices_inv V (rs, al, s)" "PrepareZeroCopyIo env req al = Returned_acc (req', al')" "ar_ioSlice req = None"
  shows "slices_inv V (req' # rs, al', s)"
proof -
  have V: "prepared_slices t rs + ongoing_slices t al + cache_slices t (al_cache al) = V t" "\<forall>v \<in># V t. view_isValid v" for t
    using assms(1) by (auto simp: slices_inv_def)
  have "\<forall>v \<in># cache_slices (at_id (ar_task req)) (al_cache al). view_isValid v" using V(2) [of "at_id (ar_task req)", folded V(1)] by simp
  note p = PrepareZeroCopyIo_cases [OF assms(2,3) this]
  have c: "canGetCache t (al_cache al') = canGetCache t (al_cache al)"
    "prepared_slices t (req' # rs) + ongoing_slices t al' + cache_slices t (al_cache al') = V t" for t
    using p take_slice by (fastforce simp: ongoing_slices_def ac_simps V(1) [of t, symmetric])+
  show ?thesis using assms(1) p c(1) V(2) by (simp add: slices_inv_def c(2) del: prepared_slices_simps)
qed

lemma slices_inv_submit:
  assumes "slices_inv V (rs, al, s)" "req \<in> set rs" "map_of (al_ongoingInputAllocations al) (ar_requestId req) = None"
    "canGetCache (at_id (ar_task req)) (al_cache al)" "InferenceRequestACC alloc pid b req al s = Returned_acc (al', s')"
  shows "slices_inv V (remove1 req rs, al', s')"
proof -
  obtain v where v: "al_ongoingInputAllocations al' = al_ongoingInputAllocations al @ [(ar_requestId req, \<lparr>oc_slice = v, oc_taskId = at_id (ar_task req)\<rparr>)]"
    "if ar_ioSlice req = None then getNpuMemoryCache (at_id (ar_task req)) (al_cache al) = Slice v (al_cache al')
     else ar_ioSlice req = Some v \<and> al_cache al' = al_cache al" using InferenceRequestACC_slices [OF assms(5,4,3)] by blast
  have c: "canGetCache t (al_cache al') = canGetCache t (al_cache al)"
    "prepared_slices t [req] + cache_slices t (al_cache al) = (if at_id (ar_task req) = t then {#v#} else {#}) + cache_slices t (al_cache al')" for t
    using v(2) take_slice by (auto split: if_splits)
  have o: "ongoing_slices t al' = ongoing_slices t al + (if at_id (ar_task req) = t then {#v#} else {#})" for t
    using v(1) by (simp add: ongoing_slices_def)
  have "prepared_slices t (remove1 req rs) + ongoing_slices t al' + cache_slices t (al_cache al') = V t" for t
  proof -
    have "prepared_slices t (remove1 req rs) + ongoing_slices t al' + cache_slices t (al_cache al') =
        prepared_slices t (remove1 req rs) + ongoing_slices t al + (prepared_slices t [req] + cache_slices t (al_cache al))"
      unfolding o c(2) by (simp add: ac_simps)
    also have "\<dots> = prepared_slices t rs + ongoing_slices t al + cache_slices t (al_cache al)"
      unfolding prepared_slices_remove [OF assms(2), of t] by (simp only: ac_simps)
    finally show ?thesis using assms(1) by (simp add: slices_inv_def)
  qed
  then show ?thesis using assms(1,3,4) c(1) v(1) by (auto simp: slices_inv_def map_of_eq_None_iff)
qed

lemma ongoing_delete:
  assumes "distinct (map fst xs)" "map_of xs r = Some oc"
  shows "mset xs = add_mset (r, oc) (mset (AList.delete r xs))"
  using assms
proof (induction xs)
  case (Cons x xs)
  show ?case
  proof (cases "fst x = r")
    case True
    with Cons.prems have "AList.delete r xs = xs" by (auto simp: delete_id)
    with True Cons.prems show ?thesis by (cases x) auto
  qed (use Cons in \<open>cases x; auto\<close>)
qed simp

lemma slices_inv_return:
  assumes "slices_inv V (rs, al, s)" "ReleaseInferenceCache dealloc r al s = (al', s')"
  shows "slices_inv V (rs, al', s')"
proof (cases "map_of (al_ongoingInputAllocations al) r")
  case None
  with assms(1,2) show ?thesis by (auto simp: ReleaseInferenceCache_def slices_inv_def)
next
  case (Some oc)
  have g: "canGetCache (oc_taskId oc) (al_cache al)" using map_of_SomeD [OF Some] assms(1) by (auto simp: slices_inv_def)
  then have al': "al' = al\<lparr>al_ongoingInputAllocations := AList.delete r (al_ongoingInputAllocations al), al_cache := returnNpuMemoryCache (oc_taskId oc) (oc_slice oc) (al_cache al)\<rparr>"
    using assms(2) Some by (simp add: ReleaseInferenceCache_def Deallocate_npuBuf_def)
  have d: "mset (al_ongoingInputAllocations al) = add_mset (r, oc) (mset (AList.delete r (al_ongoingInputAllocations al)))"
    using ongoing_delete [OF _ Some] assms(1) by (auto simp: slices_inv_def)
  have "ongoing_slices t al = (if t = oc_taskId oc then {#oc_slice oc#} else {#}) + ongoing_slices t al'" for t
    unfolding ongoing_slices_def mset_map mset_filter d by (auto simp: al')
  moreover have "prepared_slices t rs + ongoing_slices t al + cache_slices t (al_cache al) = V t" "\<forall>v \<in># V t. view_isValid v" for t
    using assms(1) by (auto simp: slices_inv_def)
  ultimately have "prepared_slices t rs + ongoing_slices t al' + cache_slices t (al_cache al') = V t" for t
    using give_slice(2) [OF g, of t "oc_slice oc"] by (auto simp: al' ac_simps)
  then show ?thesis using assms(1) by (auto simp: slices_inv_def al' give_slice(1) distinct_delete) (auto simp: AList.delete_eq)
qed

lemma slices_inv_step:
  assumes "acc_step alloc dealloc c c'" "slices_inv V c"
  shows "slices_inv V c'"
  using assms
proof (induction rule: acc_step.induct)
  case (read_output rs al s r)
  then show ?case by (simp add: slices_inv_def ongoing_slices_def finish_output_def)
qed (blast intro: slices_inv_prepare slices_inv_submit slices_inv_return)+

lemma slices_inv_run: "(acc_step alloc dealloc)\<^sup>*\<^sup>* c c' \<Longrightarrow> slices_inv V c \<Longrightarrow> slices_inv V c'"
  by (induction rule: rtranclp_induct) (auto intro: slices_inv_step)

text \<open>The slices that requests hold, with their tasks, and the device memory behind a slice.\<close>

definition slices_out :: "acc_request list \<Rightarrow> AccDeviceTaskLayer \<Rightarrow> (int \<times> SharedMemoryView) list" where
  "slices_out rs al = List.map_filter (\<lambda>r. map_option (Pair (at_id (ar_task r))) (ar_ioSlice r)) rs
     @ map (\<lambda>(r, oc). (oc_taskId oc, oc_slice oc)) (al_ongoingInputAllocations al)"

definition device_range :: "SharedMemoryView \<Rightarrow> nat set" where
  "device_range v = {unat (deviceAddress v)..<unat (deviceAddress v) + unat (vw_size v)}"

definition block_range :: "SharedMemoryInfo \<Rightarrow> nat set" where
  "block_range i = {unat (phys_addr i)..<unat (phys_addr i) + unat (si_size i)}"

text \<open>Caches as registration leaves them, on blocks of the device that do not overlap.\<close>

definition caches_fresh :: "AccDeviceTaskLayer \<Rightarrow> bool" where
  "caches_fresh al \<longleftrightarrow> al_ongoingInputAllocations al = [] \<and>
     (\<forall>t tc. map_of (nc_taskNpuMemoryCaches (al_cache al)) t = Some tc \<longrightarrow>
        (\<exists>sz n. tc = TaskNpuMemoryCacheManager_new sz n (tc_npuMemoryInfo tc) \<and> 0 < sz \<and> 0 \<le> n \<and> sz * n \<le> uint (si_size (tc_npuMemoryInfo tc))) \<and>
        unat (phys_addr (tc_npuMemoryInfo tc)) + unat (si_size (tc_npuMemoryInfo tc)) < 2 ^ 64 \<and>
        (\<forall>t' tc'. map_of (nc_taskNpuMemoryCaches (al_cache al)) t' = Some tc' \<longrightarrow> t \<noteq> t' \<longrightarrow>
           block_range (tc_npuMemoryInfo tc) \<inter> block_range (tc_npuMemoryInfo tc') = {}))"

lemma slices_out_mset: "mset (map snd (filter (\<lambda>p. fst p = t) (slices_out rs al))) = prepared_slices t rs + ongoing_slices t al"
proof -
  have "map snd (filter (\<lambda>p. fst p = t) (List.map_filter (\<lambda>r. map_option (Pair (at_id (ar_task r))) (ar_ioSlice r)) rs)) =
      List.map_filter ar_ioSlice (filter (\<lambda>r. at_id (ar_task r) = t) rs)"
    by (induction rs) (auto simp: List.map_filter_simps split: option.split)
  moreover have "map snd (filter (\<lambda>p. fst p = t) (map (\<lambda>(r, oc). (oc_taskId oc, oc_slice oc)) xs)) =
      map (oc_slice \<circ> snd) (filter (\<lambda>(r, oc). oc_taskId oc = t) xs)" for xs :: "(u32 \<times> OngoingCacheAllocation) list"
    by (induction xs) auto
  ultimately show ?thesis by (simp add: slices_out_def prepared_slices_def ongoing_slices_def del: mset_map mset_filter)
qed

lemma distinct_by_key: "\<forall>t. distinct (map snd (filter (\<lambda>p. fst p = t) xs)) \<Longrightarrow> distinct xs"
proof (induction xs)
  case (Cons x xs)
  have "distinct (map snd (filter (\<lambda>p. fst p = t) xs))" for t using Cons.prems [rule_format, of t] by (auto split: if_splits)
  moreover have "x \<notin> set xs" using Cons.prems [rule_format, of "fst x"] by force
  ultimately show ?case using Cons.IH by simp
qed simp

lemma device_range_eq:
  assumes "view_isValid v" "unat (phys_addr (vw_info v)) + unat (si_size (vw_info v)) < 2 ^ 64"
  shows "device_range v = (+) (unat (phys_addr (vw_info v))) ` slice_range v" "device_range v \<subseteq> block_range (vw_info v)"
proof -
  have "vw_offset v \<le> si_size (vw_info v)" "vw_size v \<le> si_size (vw_info v) - vw_offset v" using assms(1) by (auto simp: view_isValid_def)
  then have le: "unat (vw_offset v) + unat (vw_size v) \<le> unat (si_size (vw_info v))"
    by (simp add: word_le_nat_alt unat_sub)
  then have "unat (deviceAddress v) = unat (phys_addr (vw_info v)) + unat (vw_offset v)"
    using assms(2) by (simp add: deviceAddress_def unat_word_ariths(1))
  then show "device_range v = (+) (unat (phys_addr (vw_info v))) ` slice_range v" "device_range v \<subseteq> block_range (vw_info v)"
    using le by (auto simp: device_range_def slice_range_def block_range_def image_add_atLeastLessThan add.assoc)
qed

lemma fresh_slices:
  assumes "caches_fresh al"
  shows "\<exists>xs. distinct xs \<and> cache_slices t (al_cache al) = mset xs"
    "\<And>v. v \<in># cache_slices t (al_cache al) \<Longrightarrow>
      \<exists>tc. map_of (nc_taskNpuMemoryCaches (al_cache al)) t = Some tc \<and> vw_info v = tc_npuMemoryInfo tc \<and> view_isValid v"
    "\<And>v w. v \<in># cache_slices t (al_cache al) \<Longrightarrow> w \<in># cache_slices t (al_cache al) \<Longrightarrow> v \<noteq> w \<Longrightarrow> slice_range v \<inter> slice_range w = {}"
proof (atomize (full), cases "map_of (nc_taskNpuMemoryCaches (al_cache al)) t")
  case (Some tc)
  let ?i = "tc_npuMemoryInfo tc"
  obtain sz n where tc: "tc = TaskNpuMemoryCacheManager_new sz n ?i" and b: "0 < sz" "0 \<le> n" "sz * n \<le> uint (si_size ?i)"
    using assms Some unfolding caches_fresh_def by blast
  note new = new_slices [OF b, folded tc]
  show "(\<exists>xs. distinct xs \<and> cache_slices t (al_cache al) = mset xs) \<and>
    (\<forall>v. v \<in># cache_slices t (al_cache al) \<longrightarrow>
      (\<exists>tc. map_of (nc_taskNpuMemoryCaches (al_cache al)) t = Some tc \<and> vw_info v = tc_npuMemoryInfo tc \<and> view_isValid v)) \<and>
    (\<forall>v w. v \<in># cache_slices t (al_cache al) \<longrightarrow> w \<in># cache_slices t (al_cache al) \<longrightarrow> v \<noteq> w \<longrightarrow> slice_range v \<inter> slice_range w = {})"
    using new Some by (auto simp: cache_slices_def)
qed (simp add: cache_slices_def)

lemma fresh_ranges:
  assumes "caches_fresh al" "v \<in># cache_slices t (al_cache al)" "w \<in># cache_slices t' (al_cache al)" "(t, v) \<noteq> (t', w)"
  shows "device_range v \<inter> device_range w = {}"
proof -
  obtain tc tc' where v: "map_of (nc_taskNpuMemoryCaches (al_cache al)) t = Some tc" "vw_info v = tc_npuMemoryInfo tc" "view_isValid v"
    and w: "map_of (nc_taskNpuMemoryCaches (al_cache al)) t' = Some tc'" "vw_info w = tc_npuMemoryInfo tc'" "view_isValid w"
    using fresh_slices(2) [OF assms(1) assms(2)] fresh_slices(2) [OF assms(1) assms(3)] by blast
  have "unat (phys_addr (vw_info v)) + unat (si_size (vw_info v)) < 2 ^ 64" "unat (phys_addr (vw_info w)) + unat (si_size (vw_info w)) < 2 ^ 64"
    using assms(1) v(1,2) w(1,2) unfolding caches_fresh_def by metis+
  note rv = device_range_eq [OF v(3) this(1)] and rw = device_range_eq [OF w(3) this(2)]
  show ?thesis
  proof (cases "t = t'")
    case True
    with assms(4) fresh_slices(3) [OF assms(1) assms(2), of w] assms(3) have "slice_range v \<inter> slice_range w = {}" by simp
    with rv(1) rw(1) v w True show ?thesis by auto
  next
    case False
    with assms(1) v(1,2) w(1,2) have "block_range (vw_info v) \<inter> block_range (vw_info w) = {}" unfolding caches_fresh_def by metis
    with rv(2) rw(2) show ?thesis by blast
  qed
qed

text \<open>
  Claim C30. However the requests of an accelerator interleave, no two of them that hold a slice (prepared or submitted and
  not yet returned) share a byte of device memory, and no slice is lost: for every task the slices held and
  those in its cache are together those the cache had at registration.
\<close>
theorem in_flight_memory_disjoint:
  assumes "caches_fresh al0" and "(acc_step alloc dealloc)\<^sup>*\<^sup>* ([], al0, s0) (rs, al, s)"
  shows "(\<forall>i < length (slices_out rs al). \<forall>k < length (slices_out rs al). i \<noteq> k \<longrightarrow>
      device_range (snd (slices_out rs al ! i)) \<inter> device_range (snd (slices_out rs al ! k)) = {}) \<and>
    (\<forall>t. mset (map snd (filter (\<lambda>p. fst p = t) (slices_out rs al))) + cache_slices t (al_cache al) = cache_slices t (al_cache al0))"
proof -
  have "slices_inv (\<lambda>t. cache_slices t (al_cache al0)) ([], al0, s0)"
    using assms(1) fresh_slices(2) [OF assms(1)] by (fastforce simp: slices_inv_def caches_fresh_def ongoing_slices_def)
  from slices_inv_run [OF assms(2) this]
  have kept: "mset (map snd (filter (\<lambda>p. fst p = t) (slices_out rs al))) + cache_slices t (al_cache al) = cache_slices t (al_cache al0)" for t
    unfolding slices_out_mset by (simp add: slices_inv_def)
  have "distinct (map snd (filter (\<lambda>p. fst p = t) (slices_out rs al)))" for t
  proof -
    obtain xs where xs: "distinct xs" "cache_slices t (al_cache al0) = mset xs" using fresh_slices(1) [OF assms(1), of t] by blast
    obtain zs where "cache_slices t (al_cache al) = mset zs" using ex_mset by metis
    with kept [of t] xs(2) have "mset (map snd (filter (\<lambda>p. fst p = t) (slices_out rs al)) @ zs) = mset xs" by simp
    from mset_eq_imp_distinct_iff [OF this] xs(1) show ?thesis by simp
  qed
  then have d: "distinct (slices_out rs al)" using distinct_by_key by blast
  have mem: "snd (slices_out rs al ! i) \<in># cache_slices (fst (slices_out rs al ! i)) (al_cache al0)" if "i < length (slices_out rs al)" for i
    unfolding kept [of "fst (slices_out rs al ! i)", symmetric] using nth_mem [OF that] by auto
  have "device_range (snd (slices_out rs al ! i)) \<inter> device_range (snd (slices_out rs al ! k)) = {}"
    if "i < length (slices_out rs al)" "k < length (slices_out rs al)" "i \<noteq> k" for i k
    using fresh_ranges [OF assms(1) mem [OF that(1)] mem [OF that(2)]] d that by (simp add: nth_eq_iff_index_eq)
  with kept show ?thesis by blast
qed

lemma demo_two:
  "case InferenceRequestACC (ns_alloc 1 0) 1 0 demo_request demo_registered demo_layer of
     Returned_acc (al1, s1) \<Rightarrow> (case InferenceRequestACC (ns_alloc 1 0) 1 0 (demo_request\<lparr>ar_requestId := 8\<rparr>) al1 s1 of
          Returned_acc (al2, s2) \<Rightarrow> map_of (al_ongoingInputAllocations al1) 8 = None \<and> canGetCache 5 (al_cache al1) \<and>
            length (al_ongoingInputAllocations al2) = 2 | _ \<Rightarrow> False) | _ \<Rightarrow> False"
  by code_simp

theorem in_flight_memory_disjoint_witness:
  "\<exists>al s. (acc_step (ns_alloc 1 0) (ns_dealloc 0))\<^sup>*\<^sup>* ([], demo_registered, demo_layer) ([], al, s) \<and> length (slices_out [] al) = 2 \<and>
     device_range (snd (slices_out [] al ! 0)) \<inter> device_range (snd (slices_out [] al ! 1)) = {}"
proof -
  let ?step = "acc_step (ns_alloc 1 0) (ns_dealloc 0)" and ?r = "demo_request\<lparr>ar_requestId := 8\<rparr>"
  obtain al1 s1 where a1: "InferenceRequestACC (ns_alloc 1 0) 1 0 demo_request demo_registered demo_layer = Returned_acc (al1, s1)"
    using demo_two by (auto split: acc_outcome.split_asm)
  note two = demo_two [unfolded a1 acc_outcome.case prod.case]
  obtain al2 s2 where a2: "InferenceRequestACC (ns_alloc 1 0) 1 0 ?r al1 s1 = Returned_acc (al2, s2)"
    using two by (cases "InferenceRequestACC (ns_alloc 1 0) 1 0 ?r al1 s1") auto
  note a = a1 two [unfolded a2 acc_outcome.case prod.case, THEN conjunct1]
    two [unfolded a2 acc_outcome.case prod.case, THEN conjunct2, THEN conjunct1] a2
    two [unfolded a2 acc_outcome.case prod.case, THEN conjunct2, THEN conjunct2]
  have p: "?step ([], al, s) ([r], al, s)" if "ar_ioSlice r = None" for r al s
    using that by (intro acc_step.prepare_io [where env = demo_env]) (simp_all add: PrepareZeroCopyIo_def demo_env_def)
  have "?step ([demo_request], demo_registered, demo_layer) (remove1 demo_request [demo_request], al1, s1)"
    using a(1) by (intro acc_step.submit_request) (auto simp: demo_request_def demo_registered_def empty_layer_def demo_task_def canGetCache_def)
  moreover have "?step ([?r], al1, s1) (remove1 ?r [?r], al2, s2)"
    using a(2-4) by (intro acc_step.submit_request) (auto simp: demo_request_def demo_task_def)
  ultimately have run: "?step\<^sup>*\<^sup>* ([], demo_registered, demo_layer) ([], al2, s2)"
    using p [of demo_request demo_registered demo_layer] p [of ?r al1 s1]
    by (auto simp: demo_request_def intro!: converse_rtranclp_into_rtranclp)
  have "cache_block_size demo_task = 1524" by code_simp
  moreover have "\<exists>sz n. TaskNpuMemoryCacheManager_new 1524 2 i = TaskNpuMemoryCacheManager_new sz n i \<and> 0 < sz \<and> 0 \<le> n \<and> sz * n \<le> 4000" for i
    by (rule exI [of _ 1524], rule exI [of _ 2]) simp
  moreover have "tc_npuMemoryInfo (TaskNpuMemoryCacheManager_new sz n i) = i" for sz n i by (simp add: TaskNpuMemoryCacheManager_new_def)
  ultimately have "caches_fresh demo_registered"
    by (auto simp: caches_fresh_def demo_registered_def empty_layer_def phys_addr_def by_address_def)
  from in_flight_memory_disjoint [OF this run] a(5) run show ?thesis
    by (intro exI [of _ al2] exI [of _ s2]) (simp add: slices_out_def List.map_filter_simps)
qed

end
