(* ===== verification/Model_Parser.thy ===== *)
theory Model_Parser
  imports Task_Graph Npu_Encode
begin

text \<open>
  Loading of model files of the versions 7 and 8: \<^verbatim>\<open>src/lib/parsers/v7_model_parser.cpp\<close>, \<^verbatim>\<open>v8_model_parser.cpp\<close>,
  \<^verbatim>\<open>parser_common_util.cpp\<close>, \<^verbatim>\<open>model_parser.cpp\<close>, \<^verbatim>\<open>src/lib/model_parser_factory.cpp\<close> and the conversions of
  \<^verbatim>\<open>include/dxrt/model.h\<close>. A helper that both parsers define in the same way is one definition; what differs has
  the suffix \<open>_V7\<close> or \<open>_V8\<close>. The JSON parser is a third-party library and the argument \<open>parse\<close>; its documents are the
  values of \<open>json\<close>, with the accessors the code uses.
\<close>

section \<open>Documents and outcomes\<close>

datatype json = JNull | JBool bool | JInt int | JDouble rat | JString string | JArray "json list" | JObject "(string \<times> json) list"

datatype load_error = Invalid_model | Model_parsing | Invalid_argument | Out_of_range_error | Length_error | Runtime_error

text \<open>
  A step of the loader throws, ends the process (\<^verbatim>\<open>exit\<close>), or is undefined: a read outside of the file, an accessor on a
  value of the wrong kind (an assertion of the JSON library), a variable that was never set, an overflow.
\<close>

datatype 'a load = Ok 'a | Throws load_error | Exits | Undefined_load

fun load_then :: "'a load \<Rightarrow> ('a \<Rightarrow> 'b load) \<Rightarrow> 'b load" where
  "load_then (Ok x) f = f x"
| "load_then (Throws e) f = Throws e"
| "load_then Exits f = Exits"
| "load_then Undefined_load f = Undefined_load"

fun load_map :: "('a \<Rightarrow> 'b load) \<Rightarrow> 'a list \<Rightarrow> 'b list load" where
  "load_map f [] = Ok []"
| "load_map f (x # xs) = load_then (f x) (\<lambda>y. load_then (load_map f xs) (\<lambda>ys. Ok (y # ys)))"

fun load_fold :: "('a \<Rightarrow> 's \<Rightarrow> 's load) \<Rightarrow> 'a list \<Rightarrow> 's \<Rightarrow> 's load" where
  "load_fold f [] s = Ok s"
| "load_fold f (x # xs) s = load_then (f x s) (load_fold f xs)"

fun members :: "json \<Rightarrow> (string \<times> json) list load" where
  "members (JObject ms) = Ok ms"
| "members _ = Undefined_load"

definition IsInt64 :: "json \<Rightarrow> bool" where
  "IsInt64 v = (case v of JInt i \<Rightarrow> - (2 ^ 63) \<le> i \<and> i < 2 ^ 63 | _ \<Rightarrow> False)"

fun GetInt64 :: "json \<Rightarrow> int load" where
  "GetInt64 (JInt i) = (if - (2 ^ 63) \<le> i \<and> i < 2 ^ 63 then Ok i else Undefined_load)"
| "GetInt64 _ = Undefined_load"

fun GetUint64 :: "json \<Rightarrow> int load" where
  "GetUint64 (JInt i) = (if 0 \<le> i \<and> i < 2 ^ 64 then Ok i else Undefined_load)"
| "GetUint64 _ = Undefined_load"

text \<open>A C string ends at the first zero byte: what \<^verbatim>\<open>c_str()\<close> and \<^verbatim>\<open>GetString()\<close> give.\<close>

definition c_str :: "string \<Rightarrow> string" where
  "c_str s = takeWhile (\<lambda>c. (of_char c :: nat) \<noteq> 0) s"

text \<open>\<open>HasMember(k)\<close> and the test of its kind in one, as the code writes it.\<close>

definition string_at :: "string \<Rightarrow> (string \<times> json) list \<Rightarrow> string option" where
  "string_at k ms = (case map_of ms k of Some (JString s) \<Rightarrow> Some (c_str s) | _ \<Rightarrow> None)"

definition int64_at :: "string \<Rightarrow> (string \<times> json) list \<Rightarrow> int option" where
  "int64_at k ms = (case map_of ms k of Some (JInt i) \<Rightarrow> if - (2 ^ 63) \<le> i \<and> i < 2 ^ 63 then Some i else None | _ \<Rightarrow> None)"

definition int32_at :: "string \<Rightarrow> (string \<times> json) list \<Rightarrow> int option" where
  "int32_at k ms = (case map_of ms k of Some (JInt i) \<Rightarrow> if - (2 ^ 31) \<le> i \<and> i < 2 ^ 31 then Some i else None | _ \<Rightarrow> None)"

definition bool_at :: "string \<Rightarrow> (string \<times> json) list \<Rightarrow> bool option" where
  "bool_at k ms = (case map_of ms k of Some (JBool b) \<Rightarrow> Some b | _ \<Rightarrow> None)"

definition float_at :: "string \<Rightarrow> (string \<times> json) list \<Rightarrow> rat option" where
  "float_at k ms = (case map_of ms k of Some (JDouble r) \<Rightarrow>
     if - 340282346638528859811704183484516925440 \<le> r \<and> r \<le> 340282346638528859811704183484516925440 then Some r else None | _ \<Rightarrow> None)"

definition array_at :: "string \<Rightarrow> (string \<times> json) list \<Rightarrow> json list option" where
  "array_at k ms = (case map_of ms k of Some (JArray vs) \<Rightarrow> Some vs | _ \<Rightarrow> None)"

definition object_at :: "string \<Rightarrow> (string \<times> json) list \<Rightarrow> (string \<times> json) list option" where
  "object_at k ms = (case map_of ms k of Some (JObject xs) \<Rightarrow> Some xs | _ \<Rightarrow> None)"

definition keep :: "'a option \<Rightarrow> 'a \<Rightarrow> 'a" where
  "keep v old = (case v of None \<Rightarrow> old | Some x \<Rightarrow> x)"

section \<open>Common helpers\<close>

text \<open>\<^verbatim>\<open>std::stoll\<close>: white space, a sign, at least one digit; the rest is ignored.\<close>

definition stoll :: "string \<Rightarrow> int load" where
  "stoll s =
     (let t = dropWhile (\<lambda>c. (of_char c :: nat) \<in> {32, 9, 10, 11, 12, 13}) s;
          neg = (t \<noteq> [] \<and> hd t = CHR ''-'');
          u = (if t \<noteq> [] \<and> (hd t = CHR ''-'' \<or> hd t = CHR ''+'') then tl t else t);
          ds = takeWhile (\<lambda>c. 48 \<le> (of_char c :: nat) \<and> (of_char c :: nat) \<le> 57) u;
          n = foldl (\<lambda>a c. 10 * a + (of_char c - 48)) 0 ds;
          v = (if neg then - n else n)
      in if ds = [] then Throws Invalid_argument else if - (2 ^ 63) \<le> v \<and> v < 2 ^ 63 then Ok v else Throws Out_of_range_error)"

fun parseInt64FromValue :: "json \<Rightarrow> int load" where
  "parseInt64FromValue (JInt i) = Ok (if - (2 ^ 63) \<le> i \<and> i < 2 ^ 63 then i else 0)"
| "parseInt64FromValue (JString s) = stoll (c_str s)"
| "parseInt64FromValue _ = Ok 0"

definition parseStringArray :: "json list \<Rightarrow> string list" where
  "parseStringArray vs = List.map_filter (\<lambda>v. case v of JString s \<Rightarrow> Some (c_str s) | _ \<Rightarrow> None) vs"

record Models =
  bm_npu :: string
  bm_name :: string
  bm_str :: string
  bm_buffer :: string
  bm_offset :: int
  bm_size :: int

definition Models_new :: "string \<Rightarrow> string \<Rightarrow> Models" where
  "Models_new npu name = \<lparr>bm_npu = npu, bm_name = name, bm_str = [], bm_buffer = [], bm_offset = 0, bm_size = 0\<rparr>"

record BinaryInfoDatabase =
  bi_cpu_models :: "Models list"
  bi_graph_info :: Models
  bi_rmap :: "Models list"
  bi_weight :: "Models list"
  bi_rmap_info :: "Models list"
  bi_bitmatch_mask :: "Models list"
  bi_ppu :: "Models list"
  bi_dxnnFileFormatVersion :: int
  bi_compilerVersion :: string
  bi_ppuType :: int

definition BinaryInfoDatabase_new :: BinaryInfoDatabase where
  "BinaryInfoDatabase_new =
     \<lparr>bi_cpu_models = [], bi_graph_info = Models_new [] [], bi_rmap = [], bi_weight = [], bi_rmap_info = [], bi_bitmatch_mask = [],
      bi_ppu = [], bi_dxnnFileFormatVersion = 0, bi_compilerVersion = [], bi_ppuType = - 1\<rparr>"

definition parse_offset_size :: "(string \<times> json) list \<Rightarrow> int \<Rightarrow> int \<Rightarrow> (int \<times> int) load" where
  "parse_offset_size ms off0 size0 =
     load_then (case map_of ms ''offset'' of None \<Rightarrow> Ok off0 | Some v \<Rightarrow> parseInt64FromValue v) (\<lambda>off.
     load_then (case map_of ms ''size'' of None \<Rightarrow> Ok size0 | Some v \<Rightarrow> parseInt64FromValue v) (\<lambda>sz. Ok (off, sz)))"

definition parseModelsOffsetSize :: "json \<Rightarrow> Models \<Rightarrow> Models load" where
  "parseModelsOffsetSize obj model =
     load_then (members obj) (\<lambda>ms. load_then (parse_offset_size ms (bm_offset model) (bm_size model)) (\<lambda>(off, sz).
       Ok (model\<lparr>bm_offset := off, bm_size := sz\<rparr>)))"

text \<open>
  Reads of the file. A negative size is a huge unsigned one, for which \<^verbatim>\<open>resize\<close> and the constructor of a string
  throw; a block of no bytes reads nothing.
\<close>

definition read_bytes :: "string \<Rightarrow> int \<Rightarrow> int \<Rightarrow> string load" where
  "read_bytes buffer pos sz =
     (if sz < 0 then Throws Length_error
      else if sz = 0 then Ok []
      else if 0 \<le> pos \<and> pos + sz \<le> int (length buffer) then Ok (take (nat sz) (drop (nat pos) buffer))
      else Undefined_load)"

definition copyBinaryDataToModels :: "string \<Rightarrow> int \<Rightarrow> Models list \<Rightarrow> Models list load" where
  "copyBinaryDataToModels buffer offset models =
     load_map (\<lambda>m. load_then (read_bytes buffer (offset + bm_offset m) (bm_size m)) (\<lambda>b. Ok (m\<lparr>bm_buffer := b\<rparr>))) models"

definition copyStringDataToModels :: "string \<Rightarrow> int \<Rightarrow> Models list \<Rightarrow> Models list load" where
  "copyStringDataToModels buffer offset models =
     load_map (\<lambda>m. load_then (read_bytes buffer (offset + bm_offset m) (bm_size m)) (\<lambda>b. Ok (m\<lparr>bm_str := b\<rparr>))) models"

definition parseCpuModels :: "(string \<times> json) list \<Rightarrow> BinaryInfoDatabase \<Rightarrow> BinaryInfoDatabase load" where
  "parseCpuModels ms param =
     load_fold (\<lambda>(name, v) p. load_then (parseModelsOffsetSize v (Models_new [] (c_str name))) (\<lambda>m. Ok (p\<lparr>bi_cpu_models := bi_cpu_models p @ [m]\<rparr>))) ms param"

section \<open>The header\<close>

text \<open>One of the sections of a compiled task: present when the member is an object.\<close>

definition add_section ::
  "string \<Rightarrow> Models \<Rightarrow> (string \<times> json) list \<Rightarrow> (Models \<Rightarrow> BinaryInfoDatabase \<Rightarrow> BinaryInfoDatabase) \<Rightarrow> BinaryInfoDatabase \<Rightarrow> BinaryInfoDatabase load" where
  "add_section key model ms add param =
     (case object_at key ms of
        None \<Rightarrow> Ok param
      | Some xs \<Rightarrow> load_then (parseModelsOffsetSize (JObject xs) model) (\<lambda>m. Ok (add m param)))"

definition parse_compiled_task :: "Models \<Rightarrow> (string \<times> json) list \<Rightarrow> BinaryInfoDatabase \<Rightarrow> BinaryInfoDatabase load" where
  "parse_compiled_task model ms p =
     load_then (add_section ''rmap'' model ms (\<lambda>m p. p\<lparr>bi_rmap := bi_rmap p @ [m]\<rparr>) p) (\<lambda>p.
     load_then (add_section ''weight'' model ms (\<lambda>m p. p\<lparr>bi_weight := bi_weight p @ [m]\<rparr>) p) (\<lambda>p.
     load_then (add_section ''rmap_info'' model ms (\<lambda>m p. p\<lparr>bi_rmap_info := bi_rmap_info p @ [m]\<rparr>) p) (\<lambda>p.
       add_section ''bitmatch'' model ms (\<lambda>m p. p\<lparr>bi_bitmatch_mask := bi_bitmatch_mask p @ [m]\<rparr>) p)))"

definition parseCompiledDataForNpu_V7 :: "string \<Rightarrow> json \<Rightarrow> BinaryInfoDatabase \<Rightarrow> BinaryInfoDatabase load" where
  "parseCompiledDataForNpu_V7 npuName npuData param =
     load_then (members npuData) (\<lambda>tasks.
       load_fold (\<lambda>(name, v) p. load_then (members v) (\<lambda>ms. parse_compiled_task (Models_new npuName (c_str name)) ms p)) tasks param)"

definition parseCompiledDataForNpu_V8 :: "string \<Rightarrow> json \<Rightarrow> BinaryInfoDatabase \<Rightarrow> BinaryInfoDatabase load" where
  "parseCompiledDataForNpu_V8 npuName npuData param =
     load_then (members npuData) (\<lambda>tasks.
       load_fold (\<lambda>(name, v) p. load_then (members v) (\<lambda>ms.
         let model = Models_new npuName (c_str name) in
         load_then (parse_compiled_task model ms p) (\<lambda>p.
           add_section ''ppu'' model ms (\<lambda>m p. if 0 < bm_size m then p\<lparr>bi_ppu := bi_ppu p @ [m]\<rparr> else p) p))) tasks param)"

text \<open>
  The document of the compile configuration is used without a test for a parse error; what \<open>parse\<close> leaves then is not
  an object.
\<close>

definition compile_config_document ::
  "(string \<Rightarrow> json option) \<Rightarrow> string \<Rightarrow> int \<Rightarrow> (string \<times> json) list \<Rightarrow> (string \<times> json) list load" where
  "compile_config_document parse buffer offset cc =
     load_then (parse_offset_size cc 0 0) (\<lambda>(off, sz).
     load_then (read_bytes buffer (off + offset) sz) (\<lambda>text.
       case parse (c_str text) of None \<Rightarrow> Undefined_load | Some doc \<Rightarrow> members doc))"

definition compile_config_V7 :: "(string \<times> json) list \<Rightarrow> BinaryInfoDatabase \<Rightarrow> BinaryInfoDatabase" where
  "compile_config_V7 ms param = param\<lparr>bi_compilerVersion := keep (string_at ''compile_version'' ms) (bi_compilerVersion param)\<rparr>"

definition compile_config_V8 :: "(string \<times> json) list \<Rightarrow> BinaryInfoDatabase \<Rightarrow> BinaryInfoDatabase" where
  "compile_config_V8 ms param =
     (let p = compile_config_V7 ms param in
      case object_at ''ppu'' ms of None \<Rightarrow> p | Some ppuObj \<Rightarrow> p\<lparr>bi_ppuType := keep (int32_at ''type'' ppuObj) (bi_ppuType p)\<rparr>)"

text \<open>
  \<open>parseDataSection\<close> in the variant with \<^verbatim>\<open>USE_ORT\<close>; \<open>config\<close> and \<open>compiled\<close> are the parts in which the versions differ.
\<close>

definition parseDataSection ::
  "((string \<times> json) list \<Rightarrow> BinaryInfoDatabase \<Rightarrow> BinaryInfoDatabase) \<Rightarrow> (string \<Rightarrow> json \<Rightarrow> BinaryInfoDatabase \<Rightarrow> BinaryInfoDatabase load)
     \<Rightarrow> (string \<Rightarrow> json option) \<Rightarrow> (string \<times> json) list \<Rightarrow> string \<Rightarrow> int \<Rightarrow> BinaryInfoDatabase \<Rightarrow> BinaryInfoDatabase load" where
  "parseDataSection config compiled parse ms buffer offset param =
     load_then (case object_at ''cpu_models'' ms of None \<Rightarrow> Ok param | Some xs \<Rightarrow> parseCpuModels xs param) (\<lambda>p.
     load_then (case object_at ''compile_config'' ms of None \<Rightarrow> Ok p
                | Some xs \<Rightarrow> load_then (compile_config_document parse buffer offset xs) (\<lambda>doc. Ok (config doc p))) (\<lambda>p.
     load_then (case object_at ''graph_info'' ms of None \<Rightarrow> Ok p
                | Some xs \<Rightarrow> load_then (parseModelsOffsetSize (JObject xs) (bi_graph_info p)) (\<lambda>m. Ok (p\<lparr>bi_graph_info := m\<rparr>))) (\<lambda>p.
     case object_at ''compiled_data'' ms of None \<Rightarrow> Ok p
     | Some xs \<Rightarrow> load_fold (\<lambda>(name, v). compiled (c_str name) v) xs p)))"

definition parseDataSection_V7 where
  "parseDataSection_V7 = parseDataSection compile_config_V7 parseCompiledDataForNpu_V7"

definition parseDataSection_V8 where
  "parseDataSection_V8 = parseDataSection compile_config_V8 parseCompiledDataForNpu_V8"

text \<open>
  The version, four bytes that are \<^verbatim>\<open>char\<close>: a byte above 127 is negative, and its sign fills the upper bits of
  the word it is merged into.
\<close>

definition signed_char :: "char \<Rightarrow> u32" where
  "signed_char c = scast (of_char c :: u8)"

definition file_version :: "string \<Rightarrow> int" where
  "file_version buffer =
     sint (or (or (or (signed_char (buffer ! 4)) (push_bit 8 (signed_char (buffer ! 5)))) (push_bit 16 (signed_char (buffer ! 6))))
       (push_bit 24 (signed_char (buffer ! 7))))"

definition GetFileFormatVersion :: "string \<Rightarrow> int load" where
  "GetFileFormatVersion buffer =
     (if length buffer < 8 then Throws Model_parsing
      else if take 4 buffer \<noteq> ''DXNN'' then Throws Invalid_model
      else Ok (file_version buffer))"

text \<open>
  The copies of the sections out of the file that both versions make; version 8 adds that of the binaries of the post-processing
  unit.
\<close>

definition copy_sections :: "string \<Rightarrow> int \<Rightarrow> BinaryInfoDatabase \<Rightarrow> BinaryInfoDatabase load" where
  "copy_sections buffer offset p =
     load_then (copyBinaryDataToModels buffer offset (bi_cpu_models p)) (\<lambda>cpu.
     load_then (read_bytes buffer (offset + bm_offset (bi_graph_info p)) (bm_size (bi_graph_info p))) (\<lambda>graph.
     load_then (copyBinaryDataToModels buffer offset (bi_rmap p)) (\<lambda>rmap.
     load_then (copyBinaryDataToModels buffer offset (bi_weight p)) (\<lambda>weight.
     load_then (copyStringDataToModels buffer offset (bi_rmap_info p)) (\<lambda>rmap_info.
     load_then (copyBinaryDataToModels buffer offset (bi_bitmatch_mask p)) (\<lambda>mask.
       Ok (p\<lparr>bi_cpu_models := cpu, bi_graph_info := (bi_graph_info p)\<lparr>bm_str := graph\<rparr>, bi_rmap := rmap, bi_weight := weight,
             bi_rmap_info := rmap_info, bi_bitmatch_mask := mask\<rparr>)))))))"

definition load_header ::
  "int \<Rightarrow> ((string \<Rightarrow> json option) \<Rightarrow> (string \<times> json) list \<Rightarrow> string \<Rightarrow> int \<Rightarrow> BinaryInfoDatabase \<Rightarrow> BinaryInfoDatabase load)
     \<Rightarrow> (string \<Rightarrow> json option) \<Rightarrow> string \<Rightarrow> BinaryInfoDatabase \<Rightarrow> BinaryInfoDatabase load" where
  "load_header supported section parse buffer param =
     load_then (read_bytes buffer 0 8) (\<lambda>sign.
     if take 4 sign \<noteq> ''DXNN'' then Throws Invalid_model
     else
       let version = file_version buffer; p0 = param\<lparr>bi_dxnnFileFormatVersion := version\<rparr> in
       if version < 6 \<or> 8 < version then Throws Model_parsing
       else if version \<noteq> supported then Throws Model_parsing
       else
         load_then (read_bytes buffer 8 (8192 - 8)) (\<lambda>headerInfo.
         case parse (c_str headerInfo) of
           None \<Rightarrow> Throws Model_parsing
         | Some doc \<Rightarrow> load_then (members doc) (\<lambda>ms. case object_at ''data'' ms of None \<Rightarrow> Ok p0 | Some xs \<Rightarrow> section parse xs buffer 8192 p0)))"

definition loadBinaryInfo_V7 :: "(string \<Rightarrow> json option) \<Rightarrow> string \<Rightarrow> BinaryInfoDatabase \<Rightarrow> BinaryInfoDatabase load" where
  "loadBinaryInfo_V7 parse buffer param = load_then (load_header 7 parseDataSection_V7 parse buffer param) (copy_sections buffer 8192)"

definition loadBinaryInfo_V8 :: "(string \<Rightarrow> json option) \<Rightarrow> string \<Rightarrow> BinaryInfoDatabase \<Rightarrow> BinaryInfoDatabase load" where
  "loadBinaryInfo_V8 parse buffer param =
     load_then (load_header 8 parseDataSection_V8 parse buffer param) (\<lambda>p.
     load_then (copy_sections buffer 8192 p) (\<lambda>p.
     load_then (copyBinaryDataToModels buffer 8192 (bi_ppu p)) (\<lambda>ppu. Ok (p\<lparr>bi_ppu := ppu\<rparr>))))"

section \<open>The graph\<close>

record named_subgraph = SubGraph +
  sg_name :: string
  sg_device :: string

record GraphInfoDatabase =
  gi_use_offloading :: bool
  gi_topoSort_order :: "string list"
  gi_inputs :: "string list"
  gi_outputs :: "string list"
  gi_subgraphs :: "named_subgraph list"

definition GraphInfoDatabase_new :: GraphInfoDatabase where
  "GraphInfoDatabase_new = \<lparr>gi_use_offloading = False, gi_topoSort_order = [], gi_inputs = [], gi_outputs = [], gi_subgraphs = []\<rparr>"

definition parseGraphInfoTensor :: "json \<Rightarrow> graph_tensor load" where
  "parseGraphInfoTensor obj =
     load_then (members obj) (\<lambda>ms. Ok
       \<lparr>gt_name = keep (string_at ''name'' ms) [], gt_owner = keep (string_at ''owner'' ms) [],
        gt_users = (case array_at ''users'' ms of None \<Rightarrow> [] | Some vs \<Rightarrow> parseStringArray vs)\<rparr>)"

definition parseTensorArray :: "json list \<Rightarrow> graph_tensor list load" where
  "parseTensorArray vs = load_map parseGraphInfoTensor vs"

definition tensors_at :: "string \<Rightarrow> (string \<times> json) list \<Rightarrow> graph_tensor list load" where
  "tensors_at k ms = (case array_at k ms of None \<Rightarrow> Ok [] | Some vs \<Rightarrow> parseTensorArray vs)"

definition parseSubGraph :: "json \<Rightarrow> named_subgraph load" where
  "parseSubGraph obj =
     load_then (members obj) (\<lambda>ms.
     load_then (tensors_at ''inputs'' ms) (\<lambda>ins.
     load_then (tensors_at ''outputs'' ms) (\<lambda>outs. Ok
       \<lparr>sg_inputs = ins, sg_outputs = outs, sg_head = keep (bool_at ''head'' ms) False, sg_tail = keep (bool_at ''tail'' ms) False,
        sg_name = keep (string_at ''name'' ms) [], sg_device = keep (string_at ''device'' ms) []\<rparr>)))"

text \<open>
  The names counted by \<open>buildTensorUsageMaps\<close>: one entry of a list for every increment. The second list has the names of the users of a
  tensor, which are names of tasks.
\<close>

definition buildTensorUsageMaps :: "named_subgraph list \<Rightarrow> string list \<times> string list" where
  "buildTensorUsageMaps sgs =
     (concat (map (\<lambda>sg. map gt_name (sg_outputs sg)) sgs), concat (map (\<lambda>sg. concat (map gt_users (sg_outputs sg))) sgs))"

definition shouldBeHead :: "named_subgraph \<Rightarrow> string list \<Rightarrow> string list \<Rightarrow> bool" where
  "shouldBeHead sg modelInputs producerCount =
     (if sg_head sg then False
      else list_ex (\<lambda>t. gt_name t \<in> set modelInputs) (sg_inputs sg) \<or>
           list_all (\<lambda>t. gt_owner t = [] \<and> \<not> 0 < count_list producerCount (gt_name t)) (sg_inputs sg))"

definition shouldBeTail :: "named_subgraph \<Rightarrow> string list \<Rightarrow> string list \<Rightarrow> bool" where
  "shouldBeTail sg modelOutputs consumerCount =
     (if sg_tail sg then False
      else list_ex (\<lambda>t. gt_name t \<in> set modelOutputs) (sg_outputs sg) \<or>
           list_all (\<lambda>t. \<not> 0 < count_list consumerCount (gt_name t) \<and> gt_users t = []) (sg_outputs sg))"

definition infer_flags :: "GraphInfoDatabase \<Rightarrow> string list \<Rightarrow> string list \<Rightarrow> named_subgraph \<Rightarrow> named_subgraph" where
  "infer_flags param producerCount consumerCount sg =
     (let sg1 = (if shouldBeHead sg (gi_inputs param) producerCount then sg\<lparr>sg_head := True\<rparr> else sg)
      in if shouldBeTail sg1 (gi_outputs param) consumerCount then sg1\<lparr>sg_tail := True\<rparr> else sg1)"

definition inferHeadTailFlags :: "GraphInfoDatabase \<Rightarrow> GraphInfoDatabase" where
  "inferHeadTailFlags param =
     (let (producerCount, consumerCount) = buildTensorUsageMaps (gi_subgraphs param)
      in param\<lparr>gi_subgraphs := map (infer_flags param producerCount consumerCount) (gi_subgraphs param)\<rparr>)"

text \<open>The return value: \<open>- 1\<close> when the text is no document.\<close>

definition loadGraphInfo_V8 :: "(string \<Rightarrow> json option) \<Rightarrow> BinaryInfoDatabase \<Rightarrow> GraphInfoDatabase \<Rightarrow> (int \<times> GraphInfoDatabase) load" where
  "loadGraphInfo_V8 parse binary param =
     (case parse (c_str (bm_str (bi_graph_info binary))) of
        None \<Rightarrow> Ok (- 1, param)
      | Some doc \<Rightarrow>
          load_then (members doc) (\<lambda>ms.
          let strings = (\<lambda>k old. case array_at k ms of None \<Rightarrow> old | Some vs \<Rightarrow> parseStringArray vs) in
          load_then (case array_at ''graphs'' ms of None \<Rightarrow> Ok (gi_subgraphs param) | Some vs \<Rightarrow> load_map parseSubGraph vs) (\<lambda>sgs.
          Ok (0, param\<lparr>gi_use_offloading := keep (bool_at ''offloading'' ms) (gi_use_offloading param),
                       gi_inputs := strings ''inputs'' (gi_inputs param), gi_outputs := strings ''outputs'' (gi_outputs param),
                       gi_topoSort_order := strings ''toposort_order'' (gi_topoSort_order param), gi_subgraphs := sgs\<rparr>))))"

definition loadGraphInfo_V7 :: "(string \<Rightarrow> json option) \<Rightarrow> BinaryInfoDatabase \<Rightarrow> GraphInfoDatabase \<Rightarrow> (int \<times> GraphInfoDatabase) load" where
  "loadGraphInfo_V7 parse binary param =
     load_then (loadGraphInfo_V8 parse binary param) (\<lambda>(r, g). Ok (r, if r = 0 then inferHeadTailFlags g else g))"

section \<open>The register map information\<close>

datatype rmap_MemoryType = MEMORYTYPE_NONE | DRAM | ARGMAX | PPU

record rmap_memory =
  mm_name :: string
  mm_offset :: int
  mm_size :: int
  mm_type :: rmap_MemoryType

record ModelMemory =
  mo_model_memory_size :: int
  mo_rmap :: rmap_memory
  mo_weight :: rmap_memory
  mo_input :: rmap_memory
  mo_output :: rmap_memory
  mo_temp :: rmap_memory

text \<open>
  \<open>rt_dtype\<close> and \<open>rt_dtype_encoded\<close> have no initial value in the source. The scale and the bias are those of the document, before
  they become a \<^verbatim>\<open>float\<close>.
\<close>

record rmap_tensor =
  rt_name :: string
  rt_dtype :: "DataType option"
  rt_shape :: "int list"
  rt_name_encoded :: string
  rt_dtype_encoded :: "DataType option"
  rt_shape_encoded :: "int list"
  rt_layout :: Layout
  rt_align_unit :: int
  rt_transpose :: Transpose
  rt_scale :: rat
  rt_bias :: rat
  rt_use_quantization :: bool
  rt_memory :: rmap_memory
  rt_elem_size :: int

record Counts =
  ct_layer :: int
  ct_cmd :: int
  ct_op_mode :: u32
  ct_checkpoints :: "u32 list"

record RegisterInfoDatabase =
  ri_version_npu :: string
  ri_version_rmap :: string
  ri_version_rmap_info :: string
  ri_version_opt_level :: string
  ri_name :: string
  ri_mode :: string
  ri_npu_mac :: int
  ri_size :: int
  ri_counts :: Counts
  ri_inputs :: "rmap_tensor list"
  ri_outputs :: "rmap_tensor list"
  ri_model_memory :: ModelMemory
  ri_ppu_type :: int

definition rmap_memory_new :: rmap_memory where
  "rmap_memory_new = \<lparr>mm_name = [], mm_offset = 0, mm_size = 0, mm_type = MEMORYTYPE_NONE\<rparr>"

definition ModelMemory_new :: ModelMemory where
  "ModelMemory_new = \<lparr>mo_model_memory_size = 0, mo_rmap = rmap_memory_new, mo_weight = rmap_memory_new, mo_input = rmap_memory_new,
     mo_output = rmap_memory_new, mo_temp = rmap_memory_new\<rparr>"

definition rmap_tensor_new :: rmap_tensor where
  "rmap_tensor_new =
     \<lparr>rt_name = [], rt_dtype = None, rt_shape = [], rt_name_encoded = [], rt_dtype_encoded = None, rt_shape_encoded = [],
      rt_layout = LAYOUT_NONE, rt_align_unit = 0, rt_transpose = TRANSPOSE_NONE, rt_scale = 0, rt_bias = 0,
      rt_use_quantization = False, rt_memory = rmap_memory_new, rt_elem_size = 0\<rparr>"

definition RegisterInfoDatabase_new :: RegisterInfoDatabase where
  "RegisterInfoDatabase_new =
     \<lparr>ri_version_npu = [], ri_version_rmap = [], ri_version_rmap_info = [], ri_version_opt_level = [], ri_name = [], ri_mode = [],
      ri_npu_mac = 0, ri_size = - 1, ri_counts = \<lparr>ct_layer = 0, ct_cmd = 0, ct_op_mode = 0, ct_checkpoints = [0, 0, 0]\<rparr>,
      ri_inputs = [], ri_outputs = [], ri_model_memory = ModelMemory_new, ri_ppu_type = - 1\<rparr>"

definition ToUpperCopy :: "string \<Rightarrow> string" where
  "ToUpperCopy s = map (\<lambda>c. if 97 \<le> (of_char c :: nat) \<and> (of_char c :: nat) \<le> 122 then char_of (of_char c - 32 :: nat) else c) s"

definition lookup_name :: "(string \<times> 'a) list \<Rightarrow> 'a \<Rightarrow> string \<Rightarrow> 'a" where
  "lookup_name table none str = keep (map_of table (ToUpperCopy str)) none"

definition GetDataTypeNum :: "string \<Rightarrow> DataType" where
  "GetDataTypeNum = lookup_name
     [(''TYPE_NONE'', NONE_TYPE), (''UINT8'', DataType.UINT8), (''UINT16'', DataType.UINT16), (''UINT32'', DataType.UINT32),
      (''UINT64'', DataType.UINT64), (''INT8'', DataType.INT8), (''INT16'', DataType.INT16), (''INT32'', DataType.INT32),
      (''INT64'', DataType.INT64), (''FLOAT32'', FLOAT)] NONE_TYPE"

definition GetMemoryTypeNum :: "string \<Rightarrow> rmap_MemoryType" where
  "GetMemoryTypeNum = lookup_name
     [(''MEMORYTYPE_NONE'', MEMORYTYPE_NONE), (''DRAM'', DRAM), (''ARGMAX'', ARGMAX), (''PPU'', PPU)] MEMORYTYPE_NONE"

definition GetLayoutNum :: "string \<Rightarrow> Layout" where
  "GetLayoutNum = lookup_name
     [(''LAYOUT_NONE'', LAYOUT_NONE), (''PRE_FORMATTER'', PRE_FORMATTER), (''PRE_IM2COL'', PRE_IM2COL), (''FORMATTED'', FORMATTED),
      (''ALIGNED'', ALIGNED), (''PPU_YOLO'', PPU_YOLO), (''PPU_FD'', PPU_FD), (''PPU_POSE'', PPU_POSE)] LAYOUT_NONE"

definition GetTransposeNum :: "string \<Rightarrow> Transpose" where
  "GetTransposeNum = lookup_name
     [(''TRANSPOSE_NONE'', TRANSPOSE_NONE), (''CHANNEL_FIRST_TO_LAST'', CHANNEL_FIRST_TO_LAST),
      (''CHANNEL_LAST_TO_FIRST'', CHANNEL_LAST_TO_FIRST)] TRANSPOSE_NONE"

fun getElementSize :: "DataType \<Rightarrow> int" where
  "getElementSize DataType.UINT8 = 1"
| "getElementSize DataType.INT8 = 1"
| "getElementSize NONE_TYPE = 1"
| "getElementSize DataType.UINT16 = 2"
| "getElementSize DataType.INT16 = 2"
| "getElementSize DataType.UINT32 = 4"
| "getElementSize DataType.INT32 = 4"
| "getElementSize FLOAT = 4"
| "getElementSize DataType.UINT64 = 8"
| "getElementSize DataType.INT64 = 8"
| "getElementSize _ = 1"

definition GetAlign :: "u64 \<Rightarrow> u64" where
  "GetAlign sz =
     (let unit = (if sz < 64 then 16 else 64); remainder = sz mod unit in if remainder \<noteq> 0 then sz + (unit - remainder) else sz)"

definition GetAlign_unit :: "u64 \<Rightarrow> int \<Rightarrow> u64" where
  "GetAlign_unit sz align =
     (if align \<le> 0 then GetAlign sz
      else let remainder = sz mod word_of_int align in if remainder \<noteq> 0 then sz + (word_of_int align - remainder) else sz)"

definition int64_ok :: "int \<Rightarrow> bool" where
  "int64_ok x \<longleftrightarrow> - (2 ^ 63) \<le> x \<and> x < 2 ^ 63"

definition int64_result :: "int \<Rightarrow> int load" where
  "int64_result x = (if int64_ok x then Ok x else Undefined_load)"

definition shape_V7 :: "json list \<Rightarrow> int list load" where
  "shape_V7 vs = load_map GetInt64 vs"

definition shape_V8 :: "json list \<Rightarrow> int list load" where
  "shape_V8 vs = load_map GetInt64 (filter IsInt64 vs)"

definition parse_tensor_memory :: "(string \<times> json) list \<Rightarrow> rmap_memory" where
  "parse_tensor_memory ms =
     \<lparr>mm_name = keep (string_at ''name'' ms) [], mm_offset = keep (int64_at ''offset'' ms) 0, mm_size = keep (int64_at ''size'' ms) 0,
      mm_type = (case string_at ''type'' ms of None \<Rightarrow> MEMORYTYPE_NONE | Some s \<Rightarrow> GetMemoryTypeNum s)\<rparr>"

definition parse_dtype :: "(string \<times> json) list \<Rightarrow> rmap_tensor \<Rightarrow> rmap_tensor load" where
  "parse_dtype ms t =
     (case string_at ''dtype'' ms of
        None \<Rightarrow> Ok t
      | Some s \<Rightarrow>
          (case GetDataSize_Datatype (GetDataTypeNum s) of
             Value n \<Rightarrow> Ok (t\<lparr>rt_dtype := Some (GetDataTypeNum s), rt_elem_size := int n\<rparr>)
           | Process_exit \<Rightarrow> Exits
           | Ub_outcome \<Rightarrow> Undefined_load))"

definition parse_quantization :: "(string \<times> json) list \<Rightarrow> rmap_tensor \<Rightarrow> rmap_tensor" where
  "parse_quantization ms t =
     (case float_at ''scale'' ms of
        None \<Rightarrow> t
      | Some sc \<Rightarrow>
          (case float_at ''bias'' ms of
             Some b \<Rightarrow> t\<lparr>rt_scale := sc, rt_bias := b, rt_use_quantization := True\<rparr>
           | None \<Rightarrow> t\<lparr>rt_scale := sc, rt_use_quantization := False\<rparr>))"

definition tensor_fields :: "(string \<times> json) list \<Rightarrow> int list \<Rightarrow> int list \<Rightarrow> rmap_tensor \<Rightarrow> rmap_tensor" where
  "tensor_fields ms sh she t =
     (let t1 = t\<lparr>rt_shape := rt_shape t @ sh,
                 rt_name_encoded := keep (string_at ''name_encoded'' ms) (rt_name_encoded t),
                 rt_dtype_encoded := keep (map_option (\<lambda>s. Some (GetDataTypeNum s)) (string_at ''dtype_encoded'' ms)) (rt_dtype_encoded t),
                 rt_shape_encoded := rt_shape_encoded t @ she,
                 rt_layout := keep (map_option GetLayoutNum (string_at ''layout'' ms)) (rt_layout t),
                 rt_align_unit := keep (int32_at ''align_unit'' ms) (rt_align_unit t),
                 rt_transpose := keep (map_option GetTransposeNum (string_at ''transpose'' ms)) (rt_transpose t)\<rparr>;
          t2 = parse_quantization ms t1
      in case object_at ''memory'' ms of None \<Rightarrow> t2 | Some mem \<Rightarrow> t2\<lparr>rt_memory := parse_tensor_memory mem\<rparr>)"

definition parseTensorInfoFields :: "(json list \<Rightarrow> int list load) \<Rightarrow> json \<Rightarrow> rmap_tensor \<Rightarrow> rmap_tensor load" where
  "parseTensorInfoFields shape obj t0 =
     load_then (members obj) (\<lambda>ms.
     load_then (parse_dtype ms (t0\<lparr>rt_name := keep (string_at ''name'' ms) (rt_name t0)\<rparr>)) (\<lambda>t.
     load_then (case array_at ''shape'' ms of None \<Rightarrow> Ok [] | Some vs \<Rightarrow> shape vs) (\<lambda>sh.
     load_then (case array_at ''shape_encoded'' ms of None \<Rightarrow> Ok [] | Some vs \<Rightarrow> shape vs) (\<lambda>she.
       Ok (tensor_fields ms sh she t)))))"

definition processPpuOutput :: "rmap_tensor \<Rightarrow> rmap_tensor load" where
  "processPpuOutput t =
     (case rt_layout t of
        PPU_YOLO \<Rightarrow> Ok (t\<lparr>rt_name := ''BBOX'', rt_shape := [1, - 1], rt_dtype := Some BBOX\<rparr>)
      | PPU_FD \<Rightarrow> Ok (t\<lparr>rt_name := ''FACE'', rt_shape := [1, - 1], rt_dtype := Some FACE\<rparr>)
      | PPU_POSE \<Rightarrow> Ok (t\<lparr>rt_name := ''POSE'', rt_shape := [1, - 1], rt_dtype := Some POSE\<rparr>)
      | _ \<Rightarrow> Throws Model_parsing)"

fun initialised :: "'a option \<Rightarrow> 'a load" where
  "initialised (Some x) = Ok x"
| "initialised None = Undefined_load"

definition check_size :: "rmap_tensor \<Rightarrow> int \<Rightarrow> rmap_tensor load" where
  "check_size t product =
     load_then (initialised (rt_dtype_encoded t)) (\<lambda>ty.
     load_then (int64_result (product * getElementSize ty)) (\<lambda>bytes.
       if bytes \<noteq> mm_size (rt_memory t) then Throws Model_parsing else Ok t))"

definition validateArgmaxOutputShape :: "(string \<times> json) list \<Rightarrow> rmap_tensor \<Rightarrow> rmap_tensor load" where
  "validateArgmaxOutputShape ms t =
     (case array_at ''shape_encoded'' ms of
        None \<Rightarrow> Ok t
      | Some [] \<Rightarrow> Undefined_load
      | Some (v # vs) \<Rightarrow> load_then (GetInt64 v) (check_size t))"

definition aligned_dim :: "int \<Rightarrow> int \<Rightarrow> int" where
  "aligned_dim align value = sint (GetAlign_unit (word_of_int value) align)"

fun shape_product :: "int \<Rightarrow> json list \<Rightarrow> int \<Rightarrow> int load" where
  "shape_product align [] product = Ok product"
| "shape_product align (v # vs) product =
     load_then (GetInt64 v) (\<lambda>value.
     load_then (int64_result (product * (if vs = [] then aligned_dim align value else value))) (shape_product align vs))"

definition validateDefaultOutputShape :: "(string \<times> json) list \<Rightarrow> rmap_tensor \<Rightarrow> rmap_tensor load" where
  "validateDefaultOutputShape ms t =
     (case array_at ''shape_encoded'' ms of
        None \<Rightarrow> Ok t
      | Some vs \<Rightarrow> load_then (shape_product (rt_align_unit t) vs 1) (check_size t))"

definition processOutputTensor :: "json \<Rightarrow> rmap_tensor \<Rightarrow> rmap_tensor load" where
  "processOutputTensor obj t =
     load_then (members obj) (\<lambda>ms.
     case mm_type (rt_memory t) of
       PPU \<Rightarrow> processPpuOutput t
     | ARGMAX \<Rightarrow> validateArgmaxOutputShape ms t
     | _ \<Rightarrow> validateDefaultOutputShape ms t)"

definition parseCheckpoints :: "json list \<Rightarrow> Counts \<Rightarrow> Counts load" where
  "parseCheckpoints vs counts =
     load_then (load_map GetUint64 (take 3 vs)) (\<lambda>ns.
       Ok (counts\<lparr>ct_op_mode := 1, ct_checkpoints := map word_of_int ns @ drop (length ns) (ct_checkpoints counts)\<rparr>))"

definition parse_counts :: "(string \<times> json) list \<Rightarrow> Counts \<Rightarrow> Counts load" where
  "parse_counts ms counts =
     (let c = counts\<lparr>ct_layer := keep (int64_at ''layer'' ms) (ct_layer counts), ct_cmd := keep (int64_at ''cmd'' ms) (ct_cmd counts)\<rparr>
      in case array_at ''checkpoints'' ms of None \<Rightarrow> Ok (c\<lparr>ct_op_mode := 0\<rparr>) | Some vs \<Rightarrow> parseCheckpoints vs c)"

text \<open>
  \<open>assignMemoryToModelMemory\<close>. The size of a buffer is multiplied as an unsigned number, which wraps; the other sizes are added
  as signed ones.
\<close>

definition assignMemoryToModelMemory :: "int \<Rightarrow> rmap_memory \<Rightarrow> ModelMemory \<Rightarrow> ModelMemory load" where
  "assignMemoryToModelMemory taskBufferCount memory mo =
     (let plain = int64_result (mo_model_memory_size mo + mm_size memory);
          buffers = Ok (sint (word_of_int (mo_model_memory_size mo) + word_of_int (mm_size memory) * word_of_int taskBufferCount :: u64))
      in
      if mm_name memory = ''RMAP'' then load_then plain (\<lambda>n. Ok (mo\<lparr>mo_rmap := memory, mo_model_memory_size := n\<rparr>))
      else if mm_name memory = ''WEIGHT'' then load_then plain (\<lambda>n. Ok (mo\<lparr>mo_weight := memory, mo_model_memory_size := n\<rparr>))
      else if mm_name memory = ''INPUT'' then load_then buffers (\<lambda>n. Ok (mo\<lparr>mo_input := memory, mo_model_memory_size := n\<rparr>))
      else if mm_name memory = ''OUTPUT'' then load_then buffers (\<lambda>n. Ok (mo\<lparr>mo_output := memory, mo_model_memory_size := n\<rparr>))
      else if mm_name memory = ''TEMP'' then load_then plain (\<lambda>n. Ok (mo\<lparr>mo_temp := memory, mo_model_memory_size := n\<rparr>))
      else Ok mo)"

text \<open>\<open>parseMemoryObject\<close> logs an offset that is not zero and else does what \<open>parse_tensor_memory\<close> does.\<close>

definition parseMemoryObject :: "(string \<times> json) list \<Rightarrow> rmap_memory" where
  "parseMemoryObject ms = parse_tensor_memory ms"

definition parse_memory_array :: "int \<Rightarrow> json list \<Rightarrow> ModelMemory \<Rightarrow> ModelMemory load" where
  "parse_memory_array taskBufferCount vs mo =
     load_fold (\<lambda>v mo. load_then (members v) (\<lambda>ms.
       if string_at ''name'' ms = None then Ok mo else assignMemoryToModelMemory taskBufferCount (parseMemoryObject ms) mo)) vs mo"

definition parse_offset_memory :: "(string \<times> json) list \<Rightarrow> rmap_memory" where
  "parse_offset_memory ms = rmap_memory_new\<lparr>mm_offset := keep (int64_at ''offset'' ms) 0, mm_size := keep (int64_at ''size'' ms) 0\<rparr>"

definition parseModelMemoryObject :: "(string \<times> json) list \<Rightarrow> ModelMemory \<Rightarrow> ModelMemory" where
  "parseModelMemoryObject ms mo =
     (let field = (\<lambda>k old. keep (map_option parse_offset_memory (object_at k ms)) old)
      in mo\<lparr>mo_input := field ''input'' (mo_input mo), mo_output := field ''output'' (mo_output mo),
            mo_rmap := field ''rmap'' (mo_rmap mo), mo_weight := field ''weight'' (mo_weight mo)\<rparr>)"

definition model_memory_V7 :: "int \<Rightarrow> (string \<times> json) list \<Rightarrow> ModelMemory \<Rightarrow> ModelMemory load" where
  "model_memory_V7 taskBufferCount ms mo =
     (case array_at ''memory'' ms of None \<Rightarrow> Ok mo | Some vs \<Rightarrow> parse_memory_array taskBufferCount vs mo)"

definition model_memory_V8 :: "int \<Rightarrow> (string \<times> json) list \<Rightarrow> ModelMemory \<Rightarrow> ModelMemory load" where
  "model_memory_V8 taskBufferCount ms mo =
     (case object_at ''model_memory'' ms of
        Some xs \<Rightarrow> Ok (parseModelMemoryObject xs mo)
      | None \<Rightarrow> model_memory_V7 taskBufferCount ms mo)"

definition parse_version :: "(string \<times> json) list \<Rightarrow> RegisterInfoDatabase \<Rightarrow> RegisterInfoDatabase" where
  "parse_version ms r =
     r\<lparr>ri_version_npu := keep (string_at ''npu'' ms) (ri_version_npu r), ri_version_rmap := keep (string_at ''rmap'' ms) (ri_version_rmap r),
       ri_version_rmap_info := keep (string_at ''rmapInfo'' ms) (ri_version_rmap_info r),
       ri_version_opt_level := keep (string_at ''opt_level'' ms) (ri_version_opt_level r)\<rparr>"

definition parse_output :: "(json list \<Rightarrow> int list load) \<Rightarrow> json \<Rightarrow> rmap_tensor load" where
  "parse_output shape v = load_then (parseTensorInfoFields shape v rmap_tensor_new) (processOutputTensor v)"

definition rmap_fields :: "(string \<times> json) list \<Rightarrow> RegisterInfoDatabase \<Rightarrow> RegisterInfoDatabase" where
  "rmap_fields ms reg =
     (let r1 = (case object_at ''version'' ms of None \<Rightarrow> reg | Some xs \<Rightarrow> parse_version xs reg)
      in r1\<lparr>ri_name := keep (string_at ''name'' ms) (ri_name r1), ri_mode := keep (string_at ''mode'' ms) (ri_mode r1),
            ri_npu_mac := keep (case object_at ''npu'' ms of None \<Rightarrow> None | Some xs \<Rightarrow> int64_at ''mac'' xs) (ri_npu_mac r1),
            ri_size := keep (int64_at ''size'' ms) 0\<rparr>)"

text \<open>\<open>parseSingleRmapInfo\<close>: the second result is the compile type, the mode of the last document that has one.\<close>

definition parseSingleRmapInfo ::
  "(json list \<Rightarrow> int list load) \<Rightarrow> ((string \<times> json) list \<Rightarrow> ModelMemory \<Rightarrow> ModelMemory load) \<Rightarrow> (string \<times> json) list \<Rightarrow> RegisterInfoDatabase
     \<Rightarrow> string \<Rightarrow> (RegisterInfoDatabase \<times> string) load" where
  "parseSingleRmapInfo shape memory ms reg ctype =
     (let r = rmap_fields ms reg in
      load_then (case object_at ''counts'' ms of None \<Rightarrow> Ok (ri_counts r) | Some xs \<Rightarrow> parse_counts xs (ri_counts r)) (\<lambda>counts.
      load_then (memory ms (ri_model_memory r)) (\<lambda>mo.
      load_then (case array_at ''inputs'' ms of None \<Rightarrow> Ok (ri_inputs r)
                 | Some vs \<Rightarrow> load_map (\<lambda>v. parseTensorInfoFields shape v rmap_tensor_new) vs) (\<lambda>ins.
      load_then (case array_at ''outputs'' ms of None \<Rightarrow> Ok (ri_outputs r) | Some vs \<Rightarrow> load_map (parse_output shape) vs) (\<lambda>outs.
      Ok (r\<lparr>ri_counts := counts, ri_model_memory := mo, ri_inputs := ins, ri_outputs := outs\<rparr>, keep (string_at ''mode'' ms) ctype))))))"

definition parseSingleRmapInfo_V7 ::
  "int \<Rightarrow> (string \<times> json) list \<Rightarrow> RegisterInfoDatabase \<Rightarrow> string \<Rightarrow> (RegisterInfoDatabase \<times> string) load" where
  "parseSingleRmapInfo_V7 taskBufferCount = parseSingleRmapInfo shape_V7 (model_memory_V7 taskBufferCount)"

definition parseSingleRmapInfo_V8 ::
  "int \<Rightarrow> int \<Rightarrow> (string \<times> json) list \<Rightarrow> RegisterInfoDatabase \<Rightarrow> string \<Rightarrow> (RegisterInfoDatabase \<times> string) load" where
  "parseSingleRmapInfo_V8 taskBufferCount ppuType ms reg ctype =
     load_then (parseSingleRmapInfo shape_V8 (model_memory_V8 taskBufferCount) ms reg ctype) (\<lambda>(r, c). Ok (r\<lparr>ri_ppu_type := ppuType\<rparr>, c))"

definition to_lower :: "string \<Rightarrow> string" where
  "to_lower s = map (\<lambda>c. if 65 \<le> (of_char c :: nat) \<and> (of_char c :: nat) \<le> 90 then char_of (of_char c + 32 :: nat) else c) s"

text \<open>The loop of \<open>loadRmapInfo\<close> over the texts, with the information parsed so far.\<close>

definition rmap_step ::
  "(string \<Rightarrow> json option) \<Rightarrow> ((string \<times> json) list \<Rightarrow> RegisterInfoDatabase \<Rightarrow> string \<Rightarrow> (RegisterInfoDatabase \<times> string) load)
     \<Rightarrow> Models \<Rightarrow> RegisterInfoDatabase list \<times> string \<Rightarrow> (RegisterInfoDatabase list \<times> string) load" where
  "rmap_step parse single m s =
     (case parse (c_str (bm_str m)) of
        None \<Rightarrow> Throws Model_parsing
      | Some doc \<Rightarrow>
          load_then (members doc) (\<lambda>ms.
          load_then (single ms RegisterInfoDatabase_new (snd s)) (\<lambda>(r, c). Ok (fst s @ [r], c))))"

definition loadRmapInfo ::
  "(string \<Rightarrow> json option) \<Rightarrow> ((string \<times> json) list \<Rightarrow> RegisterInfoDatabase \<Rightarrow> string \<Rightarrow> (RegisterInfoDatabase \<times> string) load)
     \<Rightarrow> BinaryInfoDatabase \<Rightarrow> RegisterInfoDatabase list \<Rightarrow> (RegisterInfoDatabase list \<times> string) load" where
  "loadRmapInfo parse single binary param =
     load_then (load_fold (rmap_step parse single) (bi_rmap_info binary) (param, [])) (\<lambda>(rs, c). Ok (rs, to_lower c))"

definition loadRmapInfo_V7 where
  "loadRmapInfo_V7 parse taskBufferCount binary = loadRmapInfo parse (parseSingleRmapInfo_V7 taskBufferCount) binary"

definition loadRmapInfo_V8 where
  "loadRmapInfo_V8 parse taskBufferCount binary =
     loadRmapInfo parse (parseSingleRmapInfo_V8 taskBufferCount (bi_ppuType binary)) binary"

section \<open>Models\<close>

record ModelDataBase =
  md_graph :: GraphInfoDatabase
  md_binary :: BinaryInfoDatabase
  md_rmap :: "RegisterInfoDatabase list"

definition ModelDataBase_new :: ModelDataBase where
  "ModelDataBase_new = \<lparr>md_graph = GraphInfoDatabase_new, md_binary = BinaryInfoDatabase_new, md_rmap = []\<rparr>"

text \<open>\<open>ParseModel\<close> of the versions without a preprocessing step; it ignores the return value of \<open>loadGraphInfo\<close>.\<close>

definition ParseModel ::
  "(string \<Rightarrow> BinaryInfoDatabase \<Rightarrow> BinaryInfoDatabase load) \<Rightarrow> (BinaryInfoDatabase \<Rightarrow> GraphInfoDatabase \<Rightarrow> (int \<times> GraphInfoDatabase) load)
     \<Rightarrow> (BinaryInfoDatabase \<Rightarrow> RegisterInfoDatabase list \<Rightarrow> (RegisterInfoDatabase list \<times> string) load)
     \<Rightarrow> string \<Rightarrow> ModelDataBase \<Rightarrow> (ModelDataBase \<times> string) load" where
  "ParseModel binary_info graph_info rmap_info buffer db =
     load_then (binary_info buffer (md_binary db)) (\<lambda>b.
     load_then (graph_info b (md_graph db)) (\<lambda>(r, g).
     load_then (rmap_info b (md_rmap db)) (\<lambda>(rs, c). Ok (\<lparr>md_graph = g, md_binary = b, md_rmap = rs\<rparr>, c))))"

definition ParseModel_V7 :: "(string \<Rightarrow> json option) \<Rightarrow> int \<Rightarrow> string \<Rightarrow> ModelDataBase \<Rightarrow> (ModelDataBase \<times> string) load" where
  "ParseModel_V7 parse taskBufferCount =
     ParseModel (loadBinaryInfo_V7 parse) (loadGraphInfo_V7 parse) (loadRmapInfo_V7 parse taskBufferCount)"

definition ParseModel_V8 :: "(string \<Rightarrow> json option) \<Rightarrow> int \<Rightarrow> string \<Rightarrow> ModelDataBase \<Rightarrow> (ModelDataBase \<times> string) load" where
  "ParseModel_V8 parse taskBufferCount =
     ParseModel (loadBinaryInfo_V8 parse) (loadGraphInfo_V8 parse) (loadRmapInfo_V8 parse taskBufferCount)"

text \<open>The factory and \<open>LoadModelParam\<close> of a buffer. The parser of version 6 is the argument \<open>v6\<close>.\<close>

definition CreateParser ::
  "(string \<Rightarrow> ModelDataBase \<Rightarrow> (ModelDataBase \<times> string) load) \<Rightarrow> (string \<Rightarrow> json option) \<Rightarrow> int \<Rightarrow> int
     \<Rightarrow> (string \<Rightarrow> ModelDataBase \<Rightarrow> (ModelDataBase \<times> string) load) load" where
  "CreateParser v6 parse taskBufferCount version =
     (if version = 6 then Ok v6
      else if version = 7 then Ok (ParseModel_V7 parse taskBufferCount)
      else if version = 8 then Ok (ParseModel_V8 parse taskBufferCount)
      else Throws Invalid_model)"

definition LoadModelParam ::
  "(string \<Rightarrow> ModelDataBase \<Rightarrow> (ModelDataBase \<times> string) load) \<Rightarrow> (string \<Rightarrow> json option) \<Rightarrow> int \<Rightarrow> string \<Rightarrow> ModelDataBase
     \<Rightarrow> (ModelDataBase \<times> string) load" where
  "LoadModelParam v6 parse taskBufferCount buffer db =
     load_then (GetFileFormatVersion buffer) (\<lambda>version.
     load_then (CreateParser v6 parse taskBufferCount version) (\<lambda>parser. parser buffer db))"

end
