(* ===== verification/Task_Import.thy ===== *)
theory Task_Import
  imports Model_Parser Acc_Task_Layer
begin

text \<open>
  The parameters of an NPU task, made from a loaded model: \<open>TaskData::set_from_npu\<close> of \<^verbatim>\<open>src/lib/task_data.cpp\<close>, the size of
  the output of the post-processing unit (\<^verbatim>\<open>src/lib/ppu_binary_parser.cpp\<close>) and the part of
  \<open>loadModelFromMemory\<close> that collects the binaries of a task. The outcomes are those of the loader.
\<close>

section \<open>The post-processing unit\<close>

record PpuOutputSizeInfo =
  pp_max_box_count :: u32
  pp_box_data_size :: u32
  pp_total_output_size :: u32

fun GetPpuBoxDataSize :: "DataType \<Rightarrow> u32" where
  "GetPpuBoxDataSize BBOX = 32"
| "GetPpuBoxDataSize FACE = 64"
| "GetPpuBoxDataSize POSE = 256"
| "GetPpuBoxDataSize _ = 0"

text \<open>
  The binary has a header of 4 bytes, the second of which is the number of tensors, and 16 bytes for each tensor, with the width
  and the height of its grid in the bytes 13 and 14. \<open>None\<close> is a read outside of the binary.
\<close>

definition byte_at :: "u8 list \<Rightarrow> nat \<Rightarrow> u8 option" where
  "byte_at bs i = (if i < length bs then Some (bs ! i) else None)"

fun count_boxes :: "u8 list \<Rightarrow> nat list \<Rightarrow> u32 \<Rightarrow> u32 option" where
  "count_boxes bs [] n = Some n"
| "count_boxes bs (i # is) n =
     (case (byte_at bs (4 + 16 * i + 13), byte_at bs (4 + 16 * i + 14)) of
        (Some w, Some h) \<Rightarrow> count_boxes bs is (n + ucast w * ucast h)
      | _ \<Rightarrow> None)"

definition no_ppu_size :: PpuOutputSizeInfo where
  "no_ppu_size = \<lparr>pp_max_box_count = 0, pp_box_data_size = 0, pp_total_output_size = 0\<rparr>"

definition CalculatePpuOutputSize :: "u8 list \<Rightarrow> DataType \<Rightarrow> PpuOutputSizeInfo option" where
  "CalculatePpuOutputSize bs ty =
     (if length bs < 4 then Some no_ppu_size
      else
        let tensor_num = unat (bs ! 1) in
        if tensor_num = 0 then Some no_ppu_size
        else if length bs < 4 + tensor_num * 16 then Some no_ppu_size
        else case count_boxes bs [0..<tensor_num] 0 of
          None \<Rightarrow> None
        | Some n \<Rightarrow>
            let box = GetPpuBoxDataSize ty in
            if box = 0 then Some no_ppu_size
            else Some \<lparr>pp_max_box_count = n, pp_box_data_size = box, pp_total_output_size = n * box\<rparr>)"

section \<open>Parameters of a task\<close>

record npu_model = dxrt_model +
  nm_npu_id :: int
  nm_input_all_offset :: u32
  nm_input_all_size :: u32
  nm_output_all_size :: u32

record npu_task =
  ta_id :: int
  ta_info :: RegisterInfoDatabase
  ta_bufferCount :: int
  ta_npuModel :: npu_model
  ta_memUsage :: u64
  ta_inputSize :: u32
  ta_outputSize :: u32
  ta_outputMemSize :: u32
  ta_inputOffsets :: "u64 list"
  ta_outputOffsets :: "u64 list"
  ta_encodedInputOffsets :: "u64 list"
  ta_encodedOutputOffsets :: "u64 list"
  ta_encodedInputSize :: u32
  ta_encodedOutputSize :: u32
  ta_encodedInputSizes :: "u32 list"
  ta_encodedOutputSizes :: "u32 list"
  ta_inputTensors :: "Tensor list"
  ta_outputTensors :: "Tensor list"
  ta_isArgMax :: bool
  ta_isPPU :: bool
  ta_isPPCPU :: bool

text \<open>The number of a layout, less one for the firmware.\<close>

fun layout_num :: "Layout \<Rightarrow> int" where
  "layout_num LAYOUT_NONE = 0"
| "layout_num PRE_FORMATTER = 1"
| "layout_num PRE_IM2COL = 2"
| "layout_num FORMATTED = 3"
| "layout_num ALIGNED = 4"
| "layout_num PPU_YOLO = 5"
| "layout_num PPU_FD = 6"
| "layout_num PPU_POSE = 7"

definition LayoutToLegacyFormat :: "Layout \<Rightarrow> int" where
  "LayoutToLegacyFormat l = (if 0 < layout_num l then layout_num l - 1 else 0)"

definition LayoutFromPpuType :: "int \<Rightarrow> Layout" where
  "LayoutFromPpuType t = (if t = 0 \<or> t = 1 then PPU_YOLO else if t = 3 then PPU_FD else if t = 2 then PPU_POSE else LAYOUT_NONE)"

fun size_of :: "nat outcome \<Rightarrow> int load" where
  "size_of (Value n) = Ok (int n)"
| "size_of Process_exit = Exits"
| "size_of Ub_outcome = Undefined_load"

definition new_tensor :: "string \<Rightarrow> int list \<Rightarrow> DataType \<Rightarrow> Tensor load" where
  "new_tensor name shape ty =
     load_then (size_of (GetDataSize_Datatype ty)) (\<lambda>n. Ok
       \<lparr>tn_name = name, tn_shape = shape, tn_elemSize = word_of_int n, tn_data = 0, tn_phyAddr = 0\<rparr>)"

text \<open>The loops over the tensors: offsets of the tensors as they are given by the user, and sums of the encoded sizes.\<close>

definition original_size :: "rmap_tensor \<Rightarrow> u64" where
  "original_size t = fold (\<lambda>d n. n * word_of_int d) (rt_shape t) 1 * word_of_int (rt_elem_size t)"

fun running_offsets :: "rmap_tensor list \<Rightarrow> u64 \<Rightarrow> u64 list" where
  "running_offsets [] off = []"
| "running_offsets (t # ts) off = off # running_offsets ts (off + original_size t)"

definition sum_sizes :: "rmap_tensor list \<Rightarrow> u32 load" where
  "sum_sizes ts = load_fold (\<lambda>t n. load_then (int64_result (uint n + mm_size (rt_memory t))) (\<lambda>x. Ok (word_of_int x))) ts 0"

text \<open>
  The bounds of the outputs. The branch for tensors in memory repeats the two updates, which changes nothing; the
  bounds of an output of another kind are taken too.
\<close>

definition INT64_MAX :: int where
  "INT64_MAX = 2 ^ 63 - 1"

definition bounds_step :: "rmap_tensor \<Rightarrow> int \<times> int \<Rightarrow> (int \<times> int) load" where
  "bounds_step t b =
     (let off = mm_offset (rt_memory t) in
      load_then (int64_result (off + mm_size (rt_memory t))) (\<lambda>end.
        Ok (if off < fst b then off else fst b, if snd b < end then end else snd b)))"

definition raw_output_offset :: "RegisterInfoDatabase \<Rightarrow> rmap_tensor \<Rightarrow> u64" where
  "raw_output_offset info t =
     (case mm_type (rt_memory t) of
        ARGMAX \<Rightarrow> word_of_int (mm_size (mo_output (ri_model_memory info)))
      | PPU \<Rightarrow> 0
      | _ \<Rightarrow> word_of_int (mm_offset (rt_memory t)))"

definition output_bounds :: "rmap_tensor list \<Rightarrow> (int \<times> int) load" where
  "output_bounds ts =
     load_then (load_fold bounds_step ts (INT64_MAX, 0)) (\<lambda>b.
     let lower = (if ts = [] \<or> fst b = INT64_MAX then 0 else fst b) in
     if lower < 0 \<or> snd b < lower then Throws Invalid_argument else Ok (lower, snd b))"

definition normalise_offset :: "int \<Rightarrow> u64 \<Rightarrow> u64 load" where
  "normalise_offset lower off = (if off < word_of_int lower then Throws Invalid_argument else Ok (off - word_of_int lower))"

text \<open>\<open>calculate_total_size\<close>; the product of the dimensions is signed, the sum is not.\<close>

definition element_count :: "int list \<Rightarrow> int load" where
  "element_count shape = load_fold (\<lambda>d n. int64_result (n * d)) shape 1"

fun total_size :: "DataType list \<Rightarrow> int list list \<Rightarrow> u32 load" where
  "total_size (ty # tys) (sh # shs) =
     load_then (element_count sh) (\<lambda>n.
     load_then (size_of (GetDataSize_Datatype ty)) (\<lambda>e.
     load_then (total_size tys shs) (\<lambda>rest. Ok (word_of_int n * word_of_int e + rest))))"
| "total_size _ _ = Ok 0"

definition calculate_total_size :: "DataType list \<Rightarrow> int list list \<Rightarrow> u32 load" where
  "calculate_total_size tys shs = (if length tys \<noteq> length shs then Throws Runtime_error else total_size tys shs)"

definition data_types :: "rmap_tensor list \<Rightarrow> DataType list load" where
  "data_types ts = (if ts = [] then Ok [NONE_TYPE] else load_map (\<lambda>t. initialised (rt_dtype t)) ts)"

definition import_tensors :: "rmap_tensor list \<Rightarrow> DataType list \<Rightarrow> Tensor list load" where
  "import_tensors ts tys = load_map (\<lambda>(t, ty). new_tensor (rt_name t) (rt_shape t) ty) (zip ts tys)"

section \<open>The kinds of models\<close>

text \<open>A model with a binary of the post-processing unit. The type and the name of the output follow the type of the unit.\<close>

definition ppu_datatype :: "Layout \<Rightarrow> (DataType \<times> string) option" where
  "ppu_datatype l = (case l of PPU_YOLO \<Rightarrow> Some (BBOX, ''BBOX'') | PPU_FD \<Rightarrow> Some (FACE, ''FACE'') | PPU_POSE \<Rightarrow> Some (POSE, ''POSE'') | _ \<Rightarrow> None)"

definition ppcpu_output_size :: "u8 list list \<Rightarrow> DataType \<Rightarrow> u32 \<Rightarrow> (u32 \<times> u32) load" where
  "ppcpu_output_size data ty encoded =
     (if 2 < length data \<and> data ! 2 \<noteq> [] then
        (case CalculatePpuOutputSize (data ! 2) ty of
           None \<Rightarrow> Undefined_load
         | Some info \<Rightarrow> Ok (if 0 < pp_total_output_size info then (pp_total_output_size info, pp_total_output_size info) else (encoded, encoded)))
      else Ok (encoded, encoded))"

definition import_ppcpu :: "u8 list list \<Rightarrow> npu_task \<Rightarrow> npu_task load" where
  "import_ppcpu data ta =
     (case ri_outputs (ta_info ta) of
        [] \<Rightarrow> Undefined_load
      | out # outs \<Rightarrow>
          let l = LayoutFromPpuType (ri_ppu_type (ta_info ta));
              m = (ta_npuModel ta)\<lparr>nm_type := 3, nm_format := LayoutToLegacyFormat (if l \<noteq> LAYOUT_NONE then l else rt_layout out)\<rparr>
          in
          load_then (case ppu_datatype l of Some r \<Rightarrow> Ok r | None \<Rightarrow> load_then (initialised (rt_dtype out)) (\<lambda>ty. Ok (ty, ''NONE''))) (\<lambda>(ty, name).
          load_then (ppcpu_output_size data ty (ta_encodedOutputSize ta)) (\<lambda>(ppuOutputSize, encoded).
          load_then (size_of (GetDataSize_Datatype ty)) (\<lambda>unit.
          load_then (new_tensor name [uint (ppuOutputSize div word_of_int unit)] ty) (\<lambda>tensor.
            Ok (ta\<lparr>ta_npuModel := m\<lparr>nm_output_all_size := nm_output_all_size m + data_align64 ppuOutputSize\<rparr>,
                   ta_isPPCPU := True, ta_isPPU := True, ta_encodedOutputSize := encoded, ta_outputSize := ppuOutputSize,
                   ta_outputTensors := [tensor]\<rparr>))))))"

definition PPU_OUTPUT_SIZE :: u32 where
  "PPU_OUTPUT_SIZE = 128 * 1024"

definition import_ppu :: "rmap_tensor \<Rightarrow> npu_task \<Rightarrow> npu_task load" where
  "import_ppu out ta =
     load_then (initialised (rt_dtype out)) (\<lambda>ty.
     load_then (new_tensor (rt_name out) (rt_shape out) ty) (\<lambda>tensor.
     let m = ta_npuModel ta in
     Ok (ta\<lparr>ta_npuModel := m\<lparr>nm_type := 2, nm_format := LayoutToLegacyFormat (rt_layout out), nm_last_output_offset := nm_output_all_size m,
              nm_last_output_size := PPU_OUTPUT_SIZE, nm_output_all_size := nm_output_all_size m + PPU_OUTPUT_SIZE\<rparr>,
            ta_outputTensors := [tensor], ta_outputSize := PPU_OUTPUT_SIZE, ta_encodedOutputSize := PPU_OUTPUT_SIZE, ta_isPPU := True\<rparr>)))"

definition import_kind :: "npu_task \<Rightarrow> npu_task load" where
  "import_kind ta =
     (let outs = ri_outputs (ta_info ta); m = ta_npuModel ta in
      if list_all (\<lambda>t. mm_type (rt_memory t) = ARGMAX) outs then
        Ok (ta\<lparr>ta_npuModel := m\<lparr>nm_type := (if outs = [] then nm_type m else 1), nm_last_output_size := 2\<rparr>,
               ta_isArgMax := True, ta_outputSize := 2, ta_encodedOutputSize := 2\<rparr>)
      else if mm_type (rt_memory (hd outs)) = PPU then import_ppu (hd outs) ta
      else Ok (ta\<lparr>ta_npuModel := m\<lparr>nm_type := 0\<rparr>\<rparr>))"

section \<open>Import\<close>

definition no_meminfo :: "u32 \<Rightarrow> dxrt_meminfo" where
  "no_meminfo sz = \<lparr>dm_data = 0, dm_base = 0, dm_offset = 0, dm_size = sz\<rparr>"

text \<open>The descriptor of the model. The addresses of the binaries in the host are left out of it.\<close>

definition import_model :: "RegisterInfoDatabase \<Rightarrow> u8 list list \<Rightarrow> int \<Rightarrow> int \<Rightarrow> int \<Rightarrow> npu_model" where
  "import_model info data last_offset lower upper =
     (let mo = ri_model_memory info; counts = ri_counts info in
      \<lparr>nm_type = 0, nm_format = 0, nm_cmds = word_of_int (ct_cmd counts), nm_op_mode = ct_op_mode counts,
       nm_rmap = no_meminfo (of_nat (length (data ! 0))), nm_weight = no_meminfo (of_nat (length (data ! 1))),
       nm_last_output_offset = word_of_int last_offset, nm_last_output_size = word_of_int (upper - lower),
       nm_output_all_offset = word_of_int (mm_offset (mo_output mo)), nm_checkpoints = ct_checkpoints counts,
       nm_npu_id = (if ri_version_npu info = ''M1_8K'' then 1 else 0),
       nm_input_all_offset = word_of_int (mm_offset (mo_input mo)), nm_input_all_size = word_of_int (mm_size (mo_input mo)),
       nm_output_all_size = word_of_int (mm_size (mo_output mo))\<rparr>)"

definition memory_usage :: "u8 list list \<Rightarrow> npu_task \<Rightarrow> npu_task" where
  "memory_usage data ta =
     (let outputMemSize = nm_output_all_size (ta_npuModel ta); buffers = (word_of_int (ta_bufferCount ta) :: u64) in
      ta\<lparr>ta_outputMemSize := outputMemSize,
         ta_memUsage := of_nat (length (data ! 0)) + of_nat (length (data ! 1)) + ucast (data_align64 (ta_encodedInputSize ta)) * buffers
           + ucast outputMemSize * buffers\<rparr>)"

definition set_from_npu :: "int \<Rightarrow> RegisterInfoDatabase \<Rightarrow> int \<Rightarrow> u8 list list \<Rightarrow> bool \<Rightarrow> npu_task load" where
  "set_from_npu tid info bufferCount data hasPpuBinary =
     (let ins = ri_inputs info; outs = ri_outputs info in
      load_then (sum_sizes ins) (\<lambda>encIn.
      load_then (sum_sizes outs) (\<lambda>encOut.
      load_then (output_bounds outs) (\<lambda>(lower, upper).
      load_then (load_map (normalise_offset lower) (map (raw_output_offset info) outs)) (\<lambda>offsets.
      if outs \<noteq> [] \<and> \<not> list_ex (\<lambda>t. mm_type (rt_memory t) = PPU) outs \<and> encOut = 0 then Throws Invalid_argument
      else
      load_then (data_types ins) (\<lambda>inTypes.
      load_then (data_types outs) (\<lambda>outTypes.
      load_then (calculate_total_size inTypes (map rt_shape ins)) (\<lambda>inSize.
      load_then (calculate_total_size outTypes (map rt_shape outs)) (\<lambda>outSize.
      load_then (import_tensors ins inTypes) (\<lambda>inTensors.
      load_then (import_tensors outs outTypes) (\<lambda>outTensors.
      if length data < 2 then Undefined_load
      else
      load_then (int64_result (mm_offset (mo_output (ri_model_memory info)) + lower)) (\<lambda>last_offset.
      if last_offset < 0 \<or> 2 ^ 32 - 1 < last_offset then Throws Invalid_argument
      else
      load_then ((if hasPpuBinary then import_ppcpu data else import_kind)
        \<lparr>ta_id = tid, ta_info = info, ta_bufferCount = bufferCount, ta_npuModel = import_model info data last_offset lower upper, ta_memUsage = 0,
         ta_inputSize = inSize, ta_outputSize = outSize, ta_outputMemSize = 0, ta_inputOffsets = running_offsets ins 0,
         ta_outputOffsets = running_offsets outs 0, ta_encodedInputOffsets = map (\<lambda>t. word_of_int (mm_offset (rt_memory t))) ins,
         ta_encodedOutputOffsets = offsets, ta_encodedInputSize = encIn, ta_encodedOutputSize = encOut,
         ta_encodedInputSizes = map (\<lambda>t. word_of_int (mm_size (rt_memory t))) ins,
         ta_encodedOutputSizes = map (\<lambda>t. word_of_int (mm_size (rt_memory t))) outs, ta_inputTensors = inTensors,
         ta_outputTensors = outTensors, ta_isArgMax = False, ta_isPPU = False, ta_isPPCPU = False\<rparr>) (\<lambda>ta.
      Ok (memory_usage data ta))))))))))))))"

text \<open>The tensors of a request at the address of its buffer, and the bytes a request takes of the device.\<close>

definition place_tensors :: "Tensor list \<Rightarrow> u64 list \<Rightarrow> u64 \<Rightarrow> u64 \<Rightarrow> Tensor list" where
  "place_tensors ts offsets ptr phyAddr =
     (if ptr = 0 then ts
      else map (\<lambda>(t, off). t\<lparr>tn_data := ptr + off, tn_phyAddr := phyAddr + off\<rparr>) (zip ts offsets))"

definition task_inputs :: "npu_task \<Rightarrow> u64 \<Rightarrow> u64 \<Rightarrow> Tensor list" where
  "task_inputs ta = place_tensors (ta_inputTensors ta) (ta_inputOffsets ta)"

definition task_outputs :: "npu_task \<Rightarrow> u64 \<Rightarrow> u64 \<Rightarrow> Tensor list" where
  "task_outputs ta = place_tensors (ta_outputTensors ta) (ta_outputOffsets ta)"

definition NPU_block_size :: "npu_task \<Rightarrow> int" where
  "NPU_block_size ta = uint (nm_input_all_size (ta_npuModel ta)) + uint (nm_output_all_size (ta_npuModel ta))"

text \<open>The part of a task that the device task layer reads.\<close>

definition acc_task_of :: "u8 list list \<Rightarrow> npu_task \<Rightarrow> acc_task" where
  "acc_task_of data ta =
     \<lparr>at_id = ta_id ta, at_npuModel = dxrt_model.truncate (ta_npuModel ta), at_input_size = ta_inputSize ta, at_output_size = ta_outputSize ta,
      at_encodedInputSize = ta_encodedInputSize ta, at_outputMemSize = ta_outputMemSize ta, at_isPPCPU = ta_isPPCPU ta,
      at_data = map (\<lambda>d. of_nat (length d)) data, at_buffer_count = ta_bufferCount ta\<rparr>"

section \<open>Binaries of a task\<close>

definition bytes_of :: "string \<Rightarrow> u8 list" where
  "bytes_of s = map of_char s"

text \<open>
  What \<open>loadModelFromMemory\<close> hands to the constructor of the task with index \<open>j\<close>. An index outside of a vector is undefined.
\<close>

definition has_ppu_binary :: "BinaryInfoDatabase \<Rightarrow> nat \<Rightarrow> bool" where
  "has_ppu_binary b j \<longleftrightarrow> bi_dxnnFileFormatVersion b = 8 \<and> j < length (bi_ppu b) \<and> 0 < bm_size (bi_ppu b ! j)"

definition task_binaries :: "BinaryInfoDatabase \<Rightarrow> nat \<Rightarrow> u8 list list load" where
  "task_binaries b j =
     (if \<not> j < length (bi_rmap b) then Undefined_load
      else if bm_buffer (bi_rmap b ! j) = [] then Throws Invalid_model
      else if \<not> j < length (bi_weight b) then Undefined_load
      else Ok ([bytes_of (bm_buffer (bi_rmap b ! j)), bytes_of (bm_buffer (bi_weight b ! j))] @
               (if has_ppu_binary b j then [bytes_of (bm_buffer (bi_ppu b ! j))] else [])))"

text \<open>The compiler version, compared with the oldest one that is supported: \<^verbatim>\<open>src/lib/model.cpp\<close>. There must be three numbers.\<close>

function split_dots :: "string \<Rightarrow> string list" where
  "split_dots s =
     (if s = [] then []
      else takeWhile (\<lambda>c. c \<noteq> CHR ''.'') s # split_dots (tl (dropWhile (\<lambda>c. c \<noteq> CHR ''.'') s)))"
  by auto
termination
proof (relation "measure length")
  fix s :: string
  assume s: "s \<noteq> []"
  have "length (dropWhile (\<lambda>c. c \<noteq> CHR ''.'') s) \<le> length s" by (rule length_dropWhile_le)
  with s show "(tl (dropWhile (\<lambda>c. c \<noteq> CHR ''.'') s), s) \<in> measure length" by (cases s) auto
qed simp

definition stoi :: "string \<Rightarrow> int load" where
  "stoi s = load_then (stoll s) (\<lambda>v. if - (2 ^ 31) \<le> v \<and> v < 2 ^ 31 then Ok v else Throws Out_of_range_error)"

definition convertVersion :: "string \<Rightarrow> (int \<times> int \<times> int) load" where
  "convertVersion vers =
     (case split_dots vers of
        a # b # c # rest \<Rightarrow> load_then (stoi a) (\<lambda>x. load_then (stoi b) (\<lambda>y. load_then (stoi c) (\<lambda>z. Ok (x, y, z))))
      | _ \<Rightarrow> Undefined_load)"

definition isSupporterModelVersion :: "string \<Rightarrow> bool load" where
  "isSupporterModelVersion vers =
     load_then (convertVersion ''1.18.1'') (\<lambda>(a, b, c).
     load_then (convertVersion vers) (\<lambda>(x, y, z). Ok (a < x \<or> a = x \<and> (b < y \<or> b = y \<and> c \<le> z))))"

text \<open>The constructor of an NPU task, up to the registration with the devices.\<close>

definition import_task :: "ModelDataBase \<Rightarrow> int \<Rightarrow> int \<Rightarrow> nat \<Rightarrow> npu_task load" where
  "import_task db tid bufferCount j =
     (if \<not> j < length (md_rmap db) then Undefined_load
      else
      load_then (isSupporterModelVersion (bi_compilerVersion (md_binary db))) (\<lambda>supported.
      if \<not> supported then Throws Invalid_model
      else
      load_then (task_binaries (md_binary db) j) (\<lambda>data.
      if length data \<notin> {2, 3, 4, 5} then Throws Invalid_model
      else set_from_npu tid (md_rmap db ! j) bufferCount data (has_ppu_binary (md_binary db) j))))"

end
