(* ===== verification/Model_Parser_Correct.thy ===== *)
theory Model_Parser_Correct
  imports Model_Parser
begin

text \<open>
  Proofs about the loader of \<^verbatim>\<open>Model_Parser\<close>: the sections of a loaded model are the bytes of the file that its header names, the
  information about tensors is well typed and its sizes agree, and a graph whose tasks can be ordered has
  a head and a tail. The last section has what the loader accepts or reads and should not.
\<close>

section \<open>The monad\<close>

lemma load_then_Ok [simp]: "load_then m f = Ok y \<longleftrightarrow> (\<exists>x. m = Ok x \<and> f x = Ok y)"
  by (cases m) auto

lemma load_map_Ok:
  "load_map f xs = Ok ys \<longleftrightarrow> list_all2 (\<lambda>x y. f x = Ok y) xs ys"
proof (induction xs arbitrary: ys)
  case (Cons x xs)
  then show ?case by (cases ys) auto
qed auto

lemma load_map_each:
  assumes "load_map f xs = Ok ys" "y \<in> set ys"
  obtains x where "x \<in> set xs" "f x = Ok y"
  using assms by (fastforce simp: load_map_Ok list_all2_conv_all_nth in_set_conv_nth)

lemma load_fold_keeps:
  "load_fold f xs s = Ok s' \<Longrightarrow> (\<And>x s s'. f x s = Ok s' \<Longrightarrow> g s' = g s) \<Longrightarrow> g s' = g s"
  by (induction xs arbitrary: s) auto

lemma load_fold_invariant:
  assumes "load_fold f xs s = Ok s'" "P s" "\<And>x s s'. P s \<Longrightarrow> f x s = Ok s' \<Longrightarrow> P s'"
  shows "P s'"
  using assms(1,2) by (induction xs arbitrary: s) (auto intro: assms(3))

section \<open>Sections of the file\<close>

text \<open>A section that lies in the file, and its bytes.\<close>

definition in_file :: "string \<Rightarrow> Models \<Rightarrow> bool" where
  "in_file buffer m \<longleftrightarrow> 0 \<le> bm_size m \<and>
     (bm_size m = 0 \<or> 0 \<le> 8192 + bm_offset m \<and> 8192 + bm_offset m + bm_size m \<le> int (length buffer))"

definition section_bytes :: "string \<Rightarrow> Models \<Rightarrow> string" where
  "section_bytes buffer m = take (nat (bm_size m)) (drop (nat (8192 + bm_offset m)) buffer)"

definition binary_sections :: "BinaryInfoDatabase \<Rightarrow> Models list" where
  "binary_sections b = bi_cpu_models b @ bi_rmap b @ bi_weight b @ bi_bitmatch_mask b @ bi_ppu b"

definition text_sections :: "BinaryInfoDatabase \<Rightarrow> Models list" where
  "text_sections b = bi_graph_info b # bi_rmap_info b"

lemma read_section: "read_bytes buffer (8192 + bm_offset m) (bm_size m) = Ok x \<longleftrightarrow> in_file buffer m \<and> x = section_bytes buffer m"
  by (auto simp: read_bytes_def in_file_def section_bytes_def)

lemma copyBinaryDataToModels_Ok:
  "copyBinaryDataToModels buffer 8192 ms = Ok ms' \<longleftrightarrow>
     list_all (in_file buffer) ms \<and> ms' = map (\<lambda>m. m\<lparr>bm_buffer := section_bytes buffer m\<rparr>) ms"
  unfolding copyBinaryDataToModels_def
  by (induction ms arbitrary: ms') (auto simp: read_section)

lemma copyStringDataToModels_Ok:
  "copyStringDataToModels buffer 8192 ms = Ok ms' \<longleftrightarrow>
     list_all (in_file buffer) ms \<and> ms' = map (\<lambda>m. m\<lparr>bm_str := section_bytes buffer m\<rparr>) ms"
  unfolding copyStringDataToModels_def
  by (induction ms arbitrary: ms') (auto simp: read_section)

text \<open>A loaded section: in the file, with the bytes it names.\<close>

definition binary_loaded :: "string \<Rightarrow> Models \<Rightarrow> bool" where
  "binary_loaded buffer m \<longleftrightarrow> in_file buffer m \<and> bm_buffer m = section_bytes buffer m"

definition text_loaded :: "string \<Rightarrow> Models \<Rightarrow> bool" where
  "text_loaded buffer m \<longleftrightarrow> in_file buffer m \<and> bm_str m = section_bytes buffer m"

lemma loaded_update [simp]:
  "in_file buffer (m\<lparr>bm_buffer := x\<rparr>) = in_file buffer m" "in_file buffer (m\<lparr>bm_str := x\<rparr>) = in_file buffer m"
  "section_bytes buffer (m\<lparr>bm_buffer := x\<rparr>) = section_bytes buffer m" "section_bytes buffer (m\<lparr>bm_str := x\<rparr>) = section_bytes buffer m"
  by (simp_all add: in_file_def section_bytes_def)

lemma copy_sections_loaded:
  assumes "copy_sections buffer 8192 p = Ok q"
  shows "list_all (binary_loaded buffer) (bi_cpu_models q @ bi_rmap q @ bi_weight q @ bi_bitmatch_mask q)"
    "list_all (text_loaded buffer) (text_sections q)" "bi_ppu q = bi_ppu p" "bi_dxnnFileFormatVersion q = bi_dxnnFileFormatVersion p"
  using assms
  by (auto simp: copy_sections_def copyBinaryDataToModels_Ok copyStringDataToModels_Ok read_section text_sections_def
      binary_loaded_def text_loaded_def list_all_iff)

lemma load_header_Ok:
  assumes "load_header v sec parse buffer param = Ok p"
  shows "8192 \<le> length buffer" "take 4 buffer = ''DXNN''" "file_version buffer = v"
    "p = param\<lparr>bi_dxnnFileFormatVersion := v\<rparr> \<or> (\<exists>ms. sec parse ms buffer 8192 (param\<lparr>bi_dxnnFileFormatVersion := v\<rparr>) = Ok p)"
proof -
  from assms show "8192 \<le> length buffer" by (auto simp: load_header_def Let_def read_bytes_def split: if_splits)
  from assms show "take 4 buffer = ''DXNN''" by (auto simp: load_header_def Let_def read_bytes_def split: if_splits)
  from assms show "file_version buffer = v" by (auto simp: load_header_def Let_def split: if_splits)
  from assms show "p = param\<lparr>bi_dxnnFileFormatVersion := v\<rparr> \<or> (\<exists>ms. sec parse ms buffer 8192 (param\<lparr>bi_dxnnFileFormatVersion := v\<rparr>) = Ok p)"
    by (auto simp: load_header_def Let_def split: if_splits option.splits)
qed

text \<open>The header of version 7 declares no binary of the post-processing unit.\<close>

lemma add_section_ppu:
  "add_section k m ms add p = Ok p' \<Longrightarrow> (\<And>m p. bi_ppu (add m p) = bi_ppu p) \<Longrightarrow> bi_ppu p' = bi_ppu p"
  by (auto simp: add_section_def split: option.splits)

lemma parse_compiled_task_ppu: "parse_compiled_task m ms p = Ok p' \<Longrightarrow> bi_ppu p' = bi_ppu p"
  unfolding parse_compiled_task_def by (auto dest!: add_section_ppu)

lemma parseCompiledData_V7_ppu: "parseCompiledDataForNpu_V7 npu v p = Ok p' \<Longrightarrow> bi_ppu p' = bi_ppu p"
  unfolding parseCompiledDataForNpu_V7_def load_then_Ok
  by (elim exE conjE load_fold_keeps [where g = bi_ppu]) (auto split: prod.splits dest: parse_compiled_task_ppu)

lemma parseCpuModels_ppu: "parseCpuModels ms p = Ok p' \<Longrightarrow> bi_ppu p' = bi_ppu p"
  unfolding parseCpuModels_def by (elim load_fold_keeps [where g = bi_ppu]) (auto split: prod.splits)

lemma parseDataSection_V7_ppu:
  assumes "parseDataSection_V7 parse ms buffer offset p = Ok p'"
  shows "bi_ppu p' = bi_ppu p"
proof -
  have f: "load_fold (\<lambda>(name, v). parseCompiledDataForNpu_V7 (c_str name) v) xs q = Ok p' \<Longrightarrow> bi_ppu p' = bi_ppu q" for xs q
    by (elim load_fold_keeps [where g = bi_ppu]) (auto split: prod.splits dest: parseCompiledData_V7_ppu)
  show ?thesis using assms
    by (auto simp: parseDataSection_V7_def parseDataSection_def compile_config_V7_def split: option.splits dest!: f parseCpuModels_ppu)
qed

lemma loadBinaryInfo_V7_Ok:
  assumes "loadBinaryInfo_V7 parse buffer param = Ok q" "bi_ppu param = []"
  shows "8192 \<le> length buffer" "list_all (binary_loaded buffer) (binary_sections q)" "list_all (text_loaded buffer) (text_sections q)"
proof -
  obtain p where p: "load_header 7 parseDataSection_V7 parse buffer param = Ok p" "copy_sections buffer 8192 p = Ok q"
    using assms(1) by (auto simp: loadBinaryInfo_V7_def)
  have "bi_ppu p = []" using load_header_Ok(4) [OF p(1)] assms(2) by (auto dest: parseDataSection_V7_ppu)
  with copy_sections_loaded [OF p(2)] load_header_Ok(1) [OF p(1)] show "8192 \<le> length buffer"
    "list_all (binary_loaded buffer) (binary_sections q)" "list_all (text_loaded buffer) (text_sections q)"
    by (auto simp: binary_sections_def)
qed

lemma loadBinaryInfo_V8_Ok:
  assumes "loadBinaryInfo_V8 parse buffer param = Ok q"
  shows "8192 \<le> length buffer" "list_all (binary_loaded buffer) (binary_sections q)" "list_all (text_loaded buffer) (text_sections q)"
proof -
  obtain p p1 where p: "load_header 8 parseDataSection_V8 parse buffer param = Ok p" "copy_sections buffer 8192 p = Ok p1"
      "list_all (in_file buffer) (bi_ppu p1)" "q = p1\<lparr>bi_ppu := map (\<lambda>m. m\<lparr>bm_buffer := section_bytes buffer m\<rparr>) (bi_ppu p1)\<rparr>"
    using assms by (auto simp: loadBinaryInfo_V8_def copyBinaryDataToModels_Ok)
  from copy_sections_loaded [OF p(2)] load_header_Ok(1) [OF p(1)] p(3,4) show "8192 \<le> length buffer"
    "list_all (binary_loaded buffer) (binary_sections q)" "list_all (text_loaded buffer) (text_sections q)"
    by (auto simp: binary_sections_def text_sections_def list_all_iff binary_loaded_def)
qed

lemma LoadModelParam_cases:
  assumes "LoadModelParam v6 parse n buffer db = Ok r" "file_version buffer \<noteq> 6"
  obtains (V7) "file_version buffer = 7" "ParseModel_V7 parse n buffer db = Ok r"
  | (V8) "file_version buffer = 8" "ParseModel_V8 parse n buffer db = Ok r"
  using assms by (auto simp: LoadModelParam_def GetFileFormatVersion_def CreateParser_def split: if_splits)


section \<open>Tensors\<close>

text \<open>What the values of a loaded tensor satisfy.\<close>

definition memory_typed :: "rmap_memory \<Rightarrow> bool" where
  "memory_typed m \<longleftrightarrow> int64_ok (mm_offset m) \<and> int64_ok (mm_size m)"

definition tensor_typed :: "rmap_tensor \<Rightarrow> bool" where
  "tensor_typed t \<longleftrightarrow> memory_typed (rt_memory t) \<and> list_all int64_ok (rt_shape t) \<and> list_all int64_ok (rt_shape_encoded t) \<and>
     - (2 ^ 31) \<le> rt_align_unit t \<and> rt_align_unit t < 2 ^ 31 \<and>
     (mm_type (rt_memory t) \<noteq> PPU \<longrightarrow>
        (case rt_dtype t of None \<Rightarrow> rt_elem_size t = 0 | Some ty \<Rightarrow> GetDataSize_Datatype ty = Value (nat (rt_elem_size t))))"

fun aligned_product :: "int \<Rightarrow> int list \<Rightarrow> int" where
  "aligned_product al [] = 1"
| "aligned_product al [x] = aligned_dim al x"
| "aligned_product al (x # xs) = x * aligned_product al xs"

text \<open>
  An output of the post-processing unit has the name, the type and the shape of its layout; the memory of any other output
  has the size of its encoded shape.
\<close>

definition output_typed :: "rmap_tensor \<Rightarrow> bool" where
  "output_typed t \<longleftrightarrow>
     (case mm_type (rt_memory t) of
        PPU \<Rightarrow> rt_shape t = [1, - 1] \<and>
          (rt_layout t, rt_name t, rt_dtype t) \<in> {(PPU_YOLO, ''BBOX'', Some BBOX), (PPU_FD, ''FACE'', Some FACE), (PPU_POSE, ''POSE'', Some POSE)}
      | ARGMAX \<Rightarrow> (case rt_shape_encoded t of [] \<Rightarrow> True
          | x # xs \<Rightarrow> \<exists>ty. rt_dtype_encoded t = Some ty \<and> mm_size (rt_memory t) = x * getElementSize ty)
      | _ \<Rightarrow> rt_shape_encoded t = [] \<or>
          (\<exists>ty. rt_dtype_encoded t = Some ty \<and> mm_size (rt_memory t) = aligned_product (rt_align_unit t) (rt_shape_encoded t) * getElementSize ty))"

lemma GetInt64_ok: "GetInt64 v = Ok x \<Longrightarrow> int64_ok x"
  by (cases v) (auto simp: int64_ok_def split: if_splits)

lemma int64_at_ok [simp]: "int64_ok d \<Longrightarrow> int64_ok (keep (int64_at k ms) d)"
  by (auto simp: int64_at_def keep_def int64_ok_def split: option.splits json.splits)

lemma int64_ok_const [simp]: "int64_ok 0" "int64_ok 1" "int64_ok (- 1)"
  by (simp_all add: int64_ok_def)

lemma parse_tensor_memory_typed: "memory_typed (parse_tensor_memory ms)"
  by (simp add: memory_typed_def parse_tensor_memory_def)

lemma parse_dtype_new:
  assumes "parse_dtype ms (rmap_tensor_new\<lparr>rt_name := n\<rparr>) = Ok u"
  shows "case rt_dtype u of None \<Rightarrow> rt_elem_size u = 0 | Some ty \<Rightarrow> GetDataSize_Datatype ty = Value (nat (rt_elem_size u))"
    "rt_shape u = []" "rt_shape_encoded u = []" "rt_align_unit u = 0" "rt_memory u = rmap_memory_new"
  using assms by (auto simp: parse_dtype_def rmap_tensor_new_def split: option.splits outcome.splits)

lemma quantization_frame [simp]:
  "rt_shape (parse_quantization ms u) = rt_shape u" "rt_shape_encoded (parse_quantization ms u) = rt_shape_encoded u"
  "rt_align_unit (parse_quantization ms u) = rt_align_unit u" "rt_memory (parse_quantization ms u) = rt_memory u"
  "rt_dtype (parse_quantization ms u) = rt_dtype u" "rt_elem_size (parse_quantization ms u) = rt_elem_size u"
  by (auto simp: parse_quantization_def split: option.splits)

lemma int32_at_range: "- (2 ^ 31) \<le> keep (int32_at k ms) 0 \<and> keep (int32_at k ms) 0 < 2 ^ 31"
  by (auto simp: int32_at_def keep_def split: option.splits json.splits)

lemma tensor_fields_typed:
  assumes "parse_dtype ms (rmap_tensor_new\<lparr>rt_name := n\<rparr>) = Ok u" "list_all int64_ok sh" "list_all int64_ok she"
  shows "tensor_typed (tensor_fields ms sh she u)"
proof -
  have "memory_typed rmap_memory_new" by (simp add: memory_typed_def rmap_memory_new_def)
  with parse_dtype_new [OF assms(1)] int32_at_range [of "''align_unit''" ms] assms(2,3) show ?thesis
    by (auto simp: tensor_typed_def tensor_fields_def Let_def parse_tensor_memory_typed split: option.split)
qed

lemma tensor_fields_shape: "rt_shape_encoded (tensor_fields ms sh she u) = rt_shape_encoded u @ she"
  by (auto simp: tensor_fields_def Let_def split: option.split)

lemma check_size_Ok:
  "check_size u p = Ok t \<Longrightarrow> t = u \<and> (\<exists>ty. rt_dtype_encoded u = Some ty \<and> mm_size (rt_memory u) = p * getElementSize ty)"
  by (cases "rt_dtype_encoded u") (auto simp: check_size_def int64_result_def split: if_splits)

lemma shape_product_Ok:
  "shape_product al vs p = Ok q \<Longrightarrow> \<exists>xs. load_map GetInt64 vs = Ok xs \<and> q = p * aligned_product al xs"
proof (induction vs arbitrary: p)
  case (Cons v vs)
  then obtain x where x: "GetInt64 v = Ok x" "shape_product al vs (p * (if vs = [] then aligned_dim al x else x)) = Ok q"
    by (auto simp: int64_result_def split: if_splits)
  from Cons.IH [OF x(2)] obtain xs where xs: "load_map GetInt64 vs = Ok xs" "q = p * (if vs = [] then aligned_dim al x else x) * aligned_product al xs"
    by blast
  show ?case
  proof (cases vs)
    case Nil
    with x(1) xs show ?thesis by auto
  next
    case (Cons w ws)
    with xs(1) obtain y ys where "xs = y # ys" by auto
    with Cons x(1) xs show ?thesis by auto
  qed
qed simp

text \<open>
  The parsers of both versions read shapes with functions of their own. What the rest relies on: the numbers are 64-bit integers,
  an array of such numbers is read as it is, and its first number stays first.
\<close>

locale shape_reader =
  fixes shape :: "json list \<Rightarrow> int list load"
  assumes int64: "shape vs = Ok xs \<Longrightarrow> list_all int64_ok xs"
    and numbers: "load_map GetInt64 vs = Ok xs \<Longrightarrow> shape vs = Ok xs"
    and first: "shape (v # vs) = Ok xs \<Longrightarrow> GetInt64 v = Ok x \<Longrightarrow> \<exists>ys. xs = x # ys"
begin

lemma fields_parts:
  assumes "parseTensorInfoFields shape v rmap_tensor_new = Ok t"
  obtains ms u sh she where "v = JObject ms" "parse_dtype ms (rmap_tensor_new\<lparr>rt_name := keep (string_at ''name'' ms) []\<rparr>) = Ok u"
    "list_all int64_ok sh" "case array_at ''shape_encoded'' ms of None \<Rightarrow> she = [] | Some vs \<Rightarrow> shape vs = Ok she" "t = tensor_fields ms sh she u"
proof -
  obtain ms where v: "v = JObject ms" using assms by (cases v) (auto simp: parseTensorInfoFields_def)
  have sh: "list_all int64_ok xs" if "(case array_at k ms of None \<Rightarrow> Ok [] | Some vs \<Rightarrow> shape vs) = Ok xs" for k xs
    using that by (auto split: option.splits dest: int64)
  have n: "rt_name rmap_tensor_new = []" by (simp add: rmap_tensor_new_def)
  obtain u sh she where u: "parse_dtype ms (rmap_tensor_new\<lparr>rt_name := keep (string_at ''name'' ms) []\<rparr>) = Ok u"
      "(case array_at ''shape'' ms of None \<Rightarrow> Ok [] | Some vs \<Rightarrow> shape vs) = Ok sh"
      "(case array_at ''shape_encoded'' ms of None \<Rightarrow> Ok [] | Some vs \<Rightarrow> shape vs) = Ok she" "t = tensor_fields ms sh she u"
    using assms unfolding parseTensorInfoFields_def v members.simps load_then_Ok load.inject n by blast
  have "case array_at ''shape_encoded'' ms of None \<Rightarrow> she = [] | Some vs \<Rightarrow> shape vs = Ok she" using u(3) by (auto split: option.splits)
  with v u sh [OF u(2)] show ?thesis by (intro that)
qed

lemma fields_typed:
  assumes "parseTensorInfoFields shape v rmap_tensor_new = Ok t"
  shows "tensor_typed t"
  using assms
proof (rule fields_parts)
  fix ms u sh she
  assume u: "parse_dtype ms (rmap_tensor_new\<lparr>rt_name := keep (string_at ''name'' ms) []\<rparr>) = Ok u" "list_all int64_ok sh"
    "case array_at ''shape_encoded'' ms of None \<Rightarrow> she = [] | Some vs \<Rightarrow> shape vs = Ok she" "t = tensor_fields ms sh she u"
  have "list_all int64_ok she" using u(3) by (auto split: option.splits dest: int64)
  then show ?thesis unfolding u(4) by (rule tensor_fields_typed [OF u(1,2)])
qed

lemma fields_shape_encoded:
  assumes "parseTensorInfoFields shape (JObject ms) rmap_tensor_new = Ok t"
  shows "case array_at ''shape_encoded'' ms of None \<Rightarrow> rt_shape_encoded t = [] | Some vs \<Rightarrow> shape vs = Ok (rt_shape_encoded t)"
  using assms by (rule fields_parts) (auto simp: tensor_fields_shape split: option.splits dest!: parse_dtype_new(3))

lemma default_output_typed:
  assumes "validateDefaultOutputShape ms u = Ok t" "tensor_typed u" "mm_type (rt_memory u) \<in> {MEMORYTYPE_NONE, DRAM}"
    "case array_at ''shape_encoded'' ms of None \<Rightarrow> rt_shape_encoded u = [] | Some vs \<Rightarrow> shape vs = Ok (rt_shape_encoded u)"
  shows "tensor_typed t \<and> output_typed t"
proof (cases "array_at ''shape_encoded'' ms")
  case None
  with assms show ?thesis by (auto simp: validateDefaultOutputShape_def output_typed_def)
next
  case (Some vs)
  then obtain p where p: "shape_product (rt_align_unit u) vs 1 = Ok p" "check_size u p = Ok t"
    using assms(1) by (auto simp: validateDefaultOutputShape_def)
  from shape_product_Ok [OF p(1)] obtain xs where xs: "load_map GetInt64 vs = Ok xs" "p = aligned_product (rt_align_unit u) xs" by auto
  have "rt_shape_encoded u = xs" using assms(4) Some numbers [OF xs(1)] by simp
  with check_size_Ok [OF p(2)] xs(2) assms(2,3) show ?thesis by (auto simp: output_typed_def)
qed

lemma output_all_typed:
  assumes "parse_output shape v = Ok t"
  shows "tensor_typed t" "output_typed t"
proof -
  obtain ms u where v: "v = JObject ms" and u: "parseTensorInfoFields shape (JObject ms) rmap_tensor_new = Ok u" "processOutputTensor (JObject ms) u = Ok t"
    using assms by (cases v) (auto simp: parse_output_def parseTensorInfoFields_def)
  note ty = fields_typed [OF u(1)] and enc = fields_shape_encoded [OF u(1)]
  have "tensor_typed t \<and> output_typed t"
  proof (cases "mm_type (rt_memory u)")
    case PPU
    with u(2) have "processPpuOutput u = Ok t" by (simp add: processOutputTensor_def)
    with PPU ty show ?thesis by (auto simp: processPpuOutput_def tensor_typed_def output_typed_def split: Layout.splits)
  next
    case ARGMAX
    with u(2) have val: "validateArgmaxOutputShape ms u = Ok t" by (simp add: processOutputTensor_def)
    show ?thesis
    proof (cases "array_at ''shape_encoded'' ms")
      case None
      with val enc ty ARGMAX show ?thesis by (auto simp: validateArgmaxOutputShape_def output_typed_def)
    next
      case (Some vs)
      then obtain w ws x where w: "vs = w # ws" "GetInt64 w = Ok x" "check_size u x = Ok t"
        using val by (auto simp: validateArgmaxOutputShape_def split: list.splits)
      then obtain ys where "rt_shape_encoded u = x # ys" using Some enc first by fastforce
      with check_size_Ok [OF w(3)] ty ARGMAX show ?thesis by (auto simp: output_typed_def)
    qed
  qed (use u(2) ty enc default_output_typed [of ms u t] in \<open>simp_all add: processOutputTensor_def\<close>)
  then show "tensor_typed t" "output_typed t" by simp_all
qed

end

interpretation v7_shape: shape_reader shape_V7
proof
  show "shape_V7 vs = Ok xs \<Longrightarrow> list_all int64_ok xs" for vs xs
    by (auto simp: shape_V7_def list_all_iff dest: GetInt64_ok elim: load_map_each)
  show "load_map GetInt64 vs = Ok xs \<Longrightarrow> shape_V7 vs = Ok xs" for vs xs by (simp add: shape_V7_def)
  show "shape_V7 (v # vs) = Ok xs \<Longrightarrow> GetInt64 v = Ok x \<Longrightarrow> \<exists>ys. xs = x # ys" for v vs xs x by (auto simp: shape_V7_def)
qed

lemma GetInt64_IsInt64: "GetInt64 v = Ok x \<Longrightarrow> IsInt64 v"
  by (cases v) (auto simp: IsInt64_def split: if_splits)

interpretation v8_shape: shape_reader shape_V8
proof
  show "shape_V8 vs = Ok xs \<Longrightarrow> list_all int64_ok xs" for vs xs
    by (auto simp: shape_V8_def list_all_iff dest: GetInt64_ok elim: load_map_each)
  show "load_map GetInt64 vs = Ok xs \<Longrightarrow> shape_V8 vs = Ok xs" for vs xs
    by (induction vs arbitrary: xs) (auto simp: shape_V8_def dest: GetInt64_IsInt64)
  show "shape_V8 (v # vs) = Ok xs \<Longrightarrow> GetInt64 v = Ok x \<Longrightarrow> \<exists>ys. xs = x # ys" for v vs xs x
    using GetInt64_IsInt64 [of v x] by (auto simp: shape_V8_def)
qed

section \<open>Register map information\<close>

definition model_memory_typed :: "ModelMemory \<Rightarrow> bool" where
  "model_memory_typed mo \<longleftrightarrow> memory_typed (mo_rmap mo) \<and> memory_typed (mo_weight mo) \<and> memory_typed (mo_input mo) \<and>
     memory_typed (mo_output mo) \<and> memory_typed (mo_temp mo)"

definition register_typed :: "RegisterInfoDatabase \<Rightarrow> bool" where
  "register_typed r \<longleftrightarrow> length (ct_checkpoints (ri_counts r)) = 3 \<and> int64_ok (ri_size r) \<and> model_memory_typed (ri_model_memory r) \<and>
     list_all tensor_typed (ri_inputs r) \<and> list_all (\<lambda>t. tensor_typed t \<and> output_typed t) (ri_outputs r)"

lemma RegisterInfoDatabase_new_typed: "register_typed RegisterInfoDatabase_new"
  by (simp add: register_typed_def RegisterInfoDatabase_new_def model_memory_typed_def ModelMemory_new_def memory_typed_def rmap_memory_new_def)

lemma length_load_map: "load_map f xs = Ok ys \<Longrightarrow> length ys = length xs"
  by (auto simp: load_map_Ok dest: list_all2_lengthD)

lemma parse_counts_checkpoints:
  assumes "parse_counts ms c = Ok c'" "length (ct_checkpoints c) = 3"
  shows "length (ct_checkpoints c') = 3"
  using assms by (auto simp: parse_counts_def Let_def parseCheckpoints_def split: option.splits dest: length_load_map)

lemma assignMemory_typed:
  assumes "assignMemoryToModelMemory n m mo = Ok mo'" "memory_typed m" "model_memory_typed mo"
  shows "model_memory_typed mo'"
  using assms by (auto simp: assignMemoryToModelMemory_def Let_def model_memory_typed_def split: if_splits)

lemma model_memory_V7_typed:
  assumes "model_memory_V7 n ms mo = Ok mo'" "model_memory_typed mo"
  shows "model_memory_typed mo'"
proof (cases "array_at ''memory'' ms")
  case None
  with assms show ?thesis by (simp add: model_memory_V7_def)
next
  case (Some vs)
  with assms have "parse_memory_array n vs mo = Ok mo'" by (simp add: model_memory_V7_def)
  then show ?thesis unfolding parse_memory_array_def
    by (rule load_fold_invariant [where P = model_memory_typed])
      (auto simp: assms(2) parseMemoryObject_def parse_tensor_memory_typed split: if_splits elim: assignMemory_typed)
qed

lemma model_memory_V8_typed:
  assumes "model_memory_V8 n ms mo = Ok mo'" "model_memory_typed mo"
  shows "model_memory_typed mo'"
proof -
  have off: "memory_typed (parse_offset_memory xs)" for xs by (simp add: memory_typed_def parse_offset_memory_def)
  show ?thesis
  proof (cases "object_at ''model_memory'' ms")
    case None
    with assms show ?thesis by (auto simp: model_memory_V8_def intro: model_memory_V7_typed)
  next
    case (Some xs)
    with assms off show ?thesis
      by (auto simp: model_memory_V8_def parseModelMemoryObject_def Let_def model_memory_typed_def keep_def split: option.splits)
  qed
qed

lemma rmap_fields_frame:
  "ri_counts (rmap_fields ms reg) = ri_counts reg" "ri_model_memory (rmap_fields ms reg) = ri_model_memory reg"
  "ri_inputs (rmap_fields ms reg) = ri_inputs reg" "ri_outputs (rmap_fields ms reg) = ri_outputs reg"
  "ri_size (rmap_fields ms reg) = keep (int64_at ''size'' ms) 0"
  by (auto simp: rmap_fields_def Let_def parse_version_def split: option.splits)

context shape_reader
begin

lemma single_typed:
  assumes "parseSingleRmapInfo shape memory ms reg ctype = Ok (r, c)" "register_typed reg"
    and mem: "\<And>mo mo'. memory ms mo = Ok mo' \<Longrightarrow> model_memory_typed mo \<Longrightarrow> model_memory_typed mo'"
  shows "register_typed r"
proof -
  note [simp] = rmap_fields_frame
  have reg: "length (ct_checkpoints (ri_counts reg)) = 3" "model_memory_typed (ri_model_memory reg)" "list_all tensor_typed (ri_inputs reg)"
    "list_all (\<lambda>t. tensor_typed t \<and> output_typed t) (ri_outputs reg)" using assms(2) by (simp_all add: register_typed_def)
  obtain counts mo ins outs where
      p: "(case object_at ''counts'' ms of None \<Rightarrow> Ok (ri_counts reg) | Some xs \<Rightarrow> parse_counts xs (ri_counts reg)) = Ok counts"
        "memory ms (ri_model_memory reg) = Ok mo"
        "(case array_at ''inputs'' ms of None \<Rightarrow> Ok (ri_inputs reg) | Some vs \<Rightarrow> load_map (\<lambda>v. parseTensorInfoFields shape v rmap_tensor_new) vs) = Ok ins"
        "(case array_at ''outputs'' ms of None \<Rightarrow> Ok (ri_outputs reg) | Some vs \<Rightarrow> load_map (parse_output shape) vs) = Ok outs"
    and r: "r = (rmap_fields ms reg)\<lparr>ri_counts := counts, ri_model_memory := mo, ri_inputs := ins, ri_outputs := outs\<rparr>"
    using assms(1) unfolding parseSingleRmapInfo_def Let_def load_then_Ok load.inject prod.inject rmap_fields_frame by blast
  have "length (ct_checkpoints counts) = 3" using p(1) reg(1) by (auto split: option.splits dest: parse_counts_checkpoints)
  moreover have "model_memory_typed mo" using mem [OF p(2) reg(2)] .
  moreover have "list_all tensor_typed ins"
    using p(3) reg(3) by (auto simp: list_all_iff split: option.splits elim: load_map_each dest: fields_typed)
  moreover have "list_all (\<lambda>t. tensor_typed t \<and> output_typed t) outs"
    using p(4) reg(4) by (auto simp: list_all_iff split: option.splits elim!: load_map_each dest: output_all_typed)
  ultimately show ?thesis by (simp add: register_typed_def r)
qed

end

lemma rmap_step_typed:
  assumes "rmap_step parse single m s = Ok s'" "list_all register_typed (fst s)"
    and "\<And>ms ctype r c. single ms RegisterInfoDatabase_new ctype = Ok (r, c) \<Longrightarrow> register_typed r"
  shows "list_all register_typed (fst s')"
  using assms by (auto simp: rmap_step_def split: option.splits)

lemma loadRmapInfo_typed:
  assumes "loadRmapInfo parse single b [] = Ok (rs, c)"
    and "\<And>ms ctype r c. single ms RegisterInfoDatabase_new ctype = Ok (r, c) \<Longrightarrow> register_typed r"
  shows "list_all register_typed rs" "length rs = length (bi_rmap_info b)"
proof -
  obtain c' where f: "load_fold (rmap_step parse single) (bi_rmap_info b) ([], []) = Ok (rs, c')"
    using assms(1) by (auto simp: loadRmapInfo_def)
  from f have "list_all register_typed (fst (rs, c'))"
    by (rule load_fold_invariant [where P = "\<lambda>s. list_all register_typed (fst s)"]) (auto intro: rmap_step_typed assms(2))
  then show "list_all register_typed rs" by simp
  have "load_fold (rmap_step parse single) ms s = Ok s' \<Longrightarrow> length (fst s') = length (fst s) + length ms" for ms s s'
    by (induction ms arbitrary: s) (fastforce simp: rmap_step_def split: option.splits)+
  from this [OF f] show "length rs = length (bi_rmap_info b)" by simp
qed

lemma loadRmapInfo_V7_typed:
  "loadRmapInfo_V7 parse n b [] = Ok (rs, c) \<Longrightarrow> list_all register_typed rs \<and> length rs = length (bi_rmap_info b)"
  unfolding loadRmapInfo_V7_def
  by (auto simp: parseSingleRmapInfo_V7_def elim!: loadRmapInfo_typed v7_shape.single_typed intro: RegisterInfoDatabase_new_typed model_memory_V7_typed)

lemma loadRmapInfo_V8_typed:
  "loadRmapInfo_V8 parse n b [] = Ok (rs, c) \<Longrightarrow> list_all register_typed rs \<and> length rs = length (bi_rmap_info b)"
proof -
  have "register_typed (r\<lparr>ri_ppu_type := x\<rparr>)" if "register_typed r" for r x using that by (simp add: register_typed_def)
  then have "parseSingleRmapInfo_V8 n x ms RegisterInfoDatabase_new ctype = Ok (r, c) \<Longrightarrow> register_typed r" for x ms ctype r c
    by (fastforce simp: parseSingleRmapInfo_V8_def intro: v8_shape.single_typed RegisterInfoDatabase_new_typed model_memory_V8_typed)
  then show "loadRmapInfo_V8 parse n b [] = Ok (rs, c) \<Longrightarrow> list_all register_typed rs \<and> length rs = length (bi_rmap_info b)"
    unfolding loadRmapInfo_V8_def by (blast dest: loadRmapInfo_typed)
qed

section \<open>Sizes of outputs\<close>

lemma round_up_uint:
  fixes w u :: u64
  assumes "uint w < 2 ^ 63" "0 < uint u" "uint u \<le> 2 ^ 31"
  shows "uint w \<le> uint (if w mod u \<noteq> 0 then w + (u - w mod u) else w)"
proof -
  have "uint w mod uint u < uint u" using assms(2) by simp
  moreover have "uint (u - w mod u) = (uint u - uint w mod uint u) mod 2 ^ 64" by (simp add: uint_word_ariths uint_mod)
  moreover have "0 \<le> uint w mod uint u" using assms(2) by simp
  ultimately have d: "0 \<le> uint (u - w mod u) \<and> uint (u - w mod u) \<le> 2 ^ 31" using assms(3) by simp
  have "uint (w + (u - w mod u)) = (uint w + uint (u - w mod u)) mod 2 ^ 64" by (simp add: uint_word_ariths)
  also have "\<dots> = uint w + uint (u - w mod u)" using d assms(1) by (intro mod_pos_pos_trivial) auto
  finally show ?thesis using d by simp
qed

lemma aligned_dim_ge:
  assumes "0 \<le> v" "int64_ok v" "al < 2 ^ 31"
  shows "v \<le> aligned_dim al v \<or> aligned_dim al v < 0"
proof -
  let ?w = "word_of_int v :: u64"
  have w: "uint ?w = v" using assms(1,2) by (simp add: int64_ok_def uint_word_of_int)
  have "uint ?w \<le> uint (GetAlign_unit ?w al)"
  proof (cases "al \<le> 0")
    case True
    with round_up_uint [of ?w 16] round_up_uint [of ?w 64] w assms(2) show ?thesis
      by (auto simp: GetAlign_unit_def GetAlign_def Let_def int64_ok_def)
  next
    case False
    then have "uint (word_of_int al :: u64) = al" using assms(3) by (simp add: uint_word_of_int)
    with round_up_uint [of ?w "word_of_int al"] w assms(2,3) False show ?thesis
      by (auto simp: GetAlign_unit_def Let_def int64_ok_def)
  qed
  moreover have "sint x = uint x \<or> sint x < 0" for x :: u64
    using uint_lt2p [of x] by (simp add: sint_uint signed_take_bit_eq_take_bit_minus take_bit_eq_mod)
  ultimately show ?thesis unfolding aligned_dim_def using w by (metis)
qed

lemma aligned_product_ge:
  assumes "list_all (\<lambda>x. 0 \<le> x \<and> int64_ok x) xs" "al < 2 ^ 31" "xs \<noteq> []"
  shows "prod_list xs \<le> aligned_product al xs \<or> aligned_product al xs < 0"
  using assms
proof (induction al xs rule: aligned_product.induct)
  case (2 al x)
  with aligned_dim_ge [of x al] show ?case by simp
next
  case (3 al x y xs)
  then have "prod_list (y # xs) \<le> aligned_product al (y # xs) \<or> aligned_product al (y # xs) < 0" "0 \<le> x" by auto
  then show ?case
  proof (elim disjE)
    assume "prod_list (y # xs) \<le> aligned_product al (y # xs)"
    with \<open>0 \<le> x\<close> show ?thesis by (simp add: mult_left_mono)
  next
    assume "aligned_product al (y # xs) < 0"
    with \<open>0 \<le> x\<close> show ?thesis by (cases "x = 0") (auto simp: mult_pos_neg)
  qed
qed simp

lemma output_fits:
  assumes "tensor_typed t" "output_typed t" "mm_type (rt_memory t) \<in> {MEMORYTYPE_NONE, DRAM}" "rt_shape_encoded t \<noteq> []"
    "list_all (\<lambda>x. 0 \<le> x) (rt_shape_encoded t)" "0 \<le> mm_size (rt_memory t)"
  shows "\<exists>ty. rt_dtype_encoded t = Some ty \<and> prod_list (rt_shape_encoded t) * getElementSize ty \<le> mm_size (rt_memory t)"
proof -
  obtain ty where ty: "rt_dtype_encoded t = Some ty" "mm_size (rt_memory t) = aligned_product (rt_align_unit t) (rt_shape_encoded t) * getElementSize ty"
    using assms(2-4) by (auto simp: output_typed_def)
  have pos: "0 < getElementSize ty" by (cases ty) auto
  have "list_all (\<lambda>x. 0 \<le> x \<and> int64_ok x) (rt_shape_encoded t)" "rt_align_unit t < 2 ^ 31"
    using assms(1,5) by (auto simp: tensor_typed_def list_all_iff)
  from aligned_product_ge [OF this assms(4)] show ?thesis using ty assms(6) pos by (auto simp: zero_le_mult_iff)
qed

lemma loaded_rmap_typed:
  assumes "LoadModelParam v6 parse n buffer ModelDataBase_new = Ok (db, ctype)" "file_version buffer \<noteq> 6"
  shows "list_all register_typed (md_rmap db)" "length (md_rmap db) = length (bi_rmap_info (md_binary db))"
proof -
  have "list_all register_typed (md_rmap db) \<and> length (md_rmap db) = length (bi_rmap_info (md_binary db))"
    using assms
  proof (cases rule: LoadModelParam_cases)
    case V7
    then show ?thesis by (auto simp: ParseModel_V7_def ParseModel_def ModelDataBase_new_def dest: loadRmapInfo_V7_typed)
  next
    case V8
    then show ?thesis by (auto simp: ParseModel_V8_def ParseModel_def ModelDataBase_new_def dest: loadRmapInfo_V8_typed)
  qed
  then show "list_all register_typed (md_rmap db)" "length (md_rmap db) = length (bi_rmap_info (md_binary db))" by simp_all
qed

text \<open>
  Claim C25. The register map information of a loaded model of version 7 or 8 is well typed: there is one for every section of
  the file that declares one, with three checkpoints, 64-bit sizes, offsets and dimensions, and an element size that is
  the size of the type of the tensor; an output of the post-processing unit has the name, type and shape of
  its layout; the memory of an argmax output has the size of its first dimension, and that of any other output the size of its encoded
  shape with the last dimension aligned. So an output with no negative dimension fits into its memory.
\<close>
theorem loaded_tensors_typed:
  assumes "LoadModelParam v6 parse n buffer ModelDataBase_new = Ok (db, ctype)" "file_version buffer \<noteq> 6"
  shows "length (md_rmap db) = length (bi_rmap_info (md_binary db)) \<and>
    (\<forall>r \<in> set (md_rmap db). register_typed r) \<and>
    (\<forall>r \<in> set (md_rmap db). \<forall>t \<in> set (ri_outputs r).
       mm_type (rt_memory t) \<in> {MEMORYTYPE_NONE, DRAM} \<longrightarrow> rt_shape_encoded t \<noteq> [] \<longrightarrow> list_all (\<lambda>x. 0 \<le> x) (rt_shape_encoded t) \<longrightarrow>
       0 \<le> mm_size (rt_memory t) \<longrightarrow> (\<exists>ty. rt_dtype_encoded t = Some ty \<and> prod_list (rt_shape_encoded t) * getElementSize ty \<le> mm_size (rt_memory t)))"
proof (intro conjI)
  show "length (md_rmap db) = length (bi_rmap_info (md_binary db))" by (rule loaded_rmap_typed(2) [OF assms])
  show t: "\<forall>r \<in> set (md_rmap db). register_typed r" using loaded_rmap_typed(1) [OF assms] by (simp add: list_all_iff)
  from t have "tensor_typed t \<and> output_typed t" if "r \<in> set (md_rmap db)" "t \<in> set (ri_outputs r)" for r t
    using that by (auto simp: register_typed_def list_all_iff)
  then show "\<forall>r \<in> set (md_rmap db). \<forall>t \<in> set (ri_outputs r).
       mm_type (rt_memory t) \<in> {MEMORYTYPE_NONE, DRAM} \<longrightarrow> rt_shape_encoded t \<noteq> [] \<longrightarrow> list_all (\<lambda>x. 0 \<le> x) (rt_shape_encoded t) \<longrightarrow>
       0 \<le> mm_size (rt_memory t) \<longrightarrow> (\<exists>ty. rt_dtype_encoded t = Some ty \<and> prod_list (rt_shape_encoded t) * getElementSize ty \<le> mm_size (rt_memory t))"
    using output_fits by blast
qed

section \<open>Heads and tails\<close>

text \<open>
  A graph whose subgraphs can be ranked so that every produced input comes from a lower one and every user of an output is a
  higher one gets at least one head and one tail from \<open>inferHeadTailFlags\<close>, whatever flags the file has.
\<close>

lemma shouldBeTail_head [simp]: "shouldBeTail (sg\<lparr>sg_head := b\<rparr>) outs c = shouldBeTail sg outs c"
  by (simp add: shouldBeTail_def)

lemma infer_flags_head [simp]: "sg_head (infer_flags g p c sg) \<longleftrightarrow> sg_head sg \<or> shouldBeHead sg (gi_inputs g) p"
  by (simp add: infer_flags_def Let_def)

lemma infer_flags_tail [simp]: "sg_tail (infer_flags g p c sg) \<longleftrightarrow> sg_tail sg \<or> shouldBeTail sg (gi_outputs g) c"
  by (simp add: infer_flags_def Let_def)

lemma inferred_subgraphs:
  "gi_subgraphs (inferHeadTailFlags g) =
     map (infer_flags g (fst (buildTensorUsageMaps (gi_subgraphs g))) (snd (buildTensorUsageMaps (gi_subgraphs g)))) (gi_subgraphs g)"
  by (simp add: inferHeadTailFlags_def case_prod_beta)

lemma inferred_head:
  assumes "sg \<in> set (gi_subgraphs g)"
    and "\<And>sg t. sg \<in> set (gi_subgraphs g) \<Longrightarrow> t \<in> set (sg_inputs sg) \<Longrightarrow> gt_owner t \<noteq> [] \<or> gt_name t \<in> set (fst (buildTensorUsageMaps (gi_subgraphs g)))
        \<Longrightarrow> \<exists>sg' \<in> set (gi_subgraphs g). rank sg' < (rank sg :: nat)"
  shows "\<exists>sg' \<in> set (gi_subgraphs (inferHeadTailFlags g)). sg_head sg'"
proof -
  obtain m where m: "m \<in> set (gi_subgraphs g)" "\<And>sg'. sg' \<in> set (gi_subgraphs g) \<Longrightarrow> \<not> rank sg' < rank m"
    using ex_has_least_nat [of "\<lambda>s. s \<in> set (gi_subgraphs g)" sg rank] assms(1) by (auto simp: not_less)
  have "gt_owner t = [] \<and> gt_name t \<notin> set (fst (buildTensorUsageMaps (gi_subgraphs g)))" if "t \<in> set (sg_inputs m)" for t
    using assms(2) [OF m(1) that] m(2) by blast
  then have "sg_head m \<or> shouldBeHead m (gi_inputs g) (fst (buildTensorUsageMaps (gi_subgraphs g)))"
    by (auto simp: shouldBeHead_def list_all_iff count_list_0_iff)
  then show ?thesis using m(1) by (auto simp: inferred_subgraphs)
qed

lemma inferred_tail:
  assumes "sg \<in> set (gi_subgraphs g)"
    and "\<And>sg t. sg \<in> set (gi_subgraphs g) \<Longrightarrow> t \<in> set (sg_outputs sg) \<Longrightarrow> gt_users t \<noteq> [] \<or> gt_name t \<in> set (snd (buildTensorUsageMaps (gi_subgraphs g)))
        \<Longrightarrow> \<exists>sg' \<in> set (gi_subgraphs g). (rank sg :: nat) < rank sg'"
  shows "\<exists>sg' \<in> set (gi_subgraphs (inferHeadTailFlags g)). sg_tail sg'"
proof -
  obtain m where m: "m \<in> set (gi_subgraphs g)" "\<And>sg'. sg' \<in> set (gi_subgraphs g) \<Longrightarrow> \<not> rank m < rank sg'"
    using ex_has_greatest_nat [of "\<lambda>s. s \<in> set (gi_subgraphs g)" sg rank "Suc (Max (rank ` set (gi_subgraphs g)))"] assms(1)
    by (auto simp: not_less less_Suc_eq_le)
  have "gt_users t = [] \<and> gt_name t \<notin> set (snd (buildTensorUsageMaps (gi_subgraphs g)))" if "t \<in> set (sg_outputs m)" for t
    using assms(2) [OF m(1) that] m(2) by blast
  then have "sg_tail m \<or> shouldBeTail m (gi_outputs g) (snd (buildTensorUsageMaps (gi_subgraphs g)))"
    by (auto simp: shouldBeTail_def list_all_iff count_list_0_iff)
  then show ?thesis using m(1) by (auto simp: inferred_subgraphs)
qed

text \<open>
  The users counted for the tails are tasks, and they are looked up by the name of a tensor: the last task of a model whose
  output tensor has the name of some task is not found to be a tail.
\<close>

definition named_like_a_task :: GraphInfoDatabase where
  "named_like_a_task =
     (let t = (\<lambda>n us. \<lparr>gt_name = n, gt_owner = [], gt_users = us\<rparr>);
          sg = (\<lambda>n ins outs. \<lparr>sg_inputs = ins, sg_outputs = outs, sg_head = False, sg_tail = False, sg_name = n, sg_device = []\<rparr>)
      in GraphInfoDatabase_new\<lparr>gi_subgraphs := [sg ''npu'' [] [t ''a'' [''cpu'']], sg ''cpu'' [t ''a'' []] [t ''cpu'' []]]\<rparr>)"

lemma tail_missed: "map sg_tail (gi_subgraphs (inferHeadTailFlags named_like_a_task)) = [False, False]"
  by code_simp

section \<open>What the loader accepts or reads\<close>

lemma short_header_throws: "length buffer < 8 \<Longrightarrow> LoadModelParam v6 parse n buffer db = Throws Model_parsing"
  by (simp add: LoadModelParam_def GetFileFormatVersion_def)

lemma bad_magic_throws: "8 \<le> length buffer \<Longrightarrow> take 4 buffer \<noteq> ''DXNN'' \<Longrightarrow> LoadModelParam v6 parse n buffer db = Throws Invalid_model"
  by (simp add: LoadModelParam_def GetFileFormatVersion_def)

lemma bad_version_throws:
  assumes "8 \<le> length buffer" "take 4 buffer = ''DXNN''" "file_version buffer \<notin> {6, 7, 8}"
  shows "LoadModelParam v6 parse n buffer db = Throws Invalid_model"
  using assms by (simp add: LoadModelParam_def GetFileFormatVersion_def CreateParser_def)

text \<open>The length of the file is not compared with that of the header: a shorter file is read beyond its end.\<close>

lemma short_file_read_beyond:
  assumes "8 \<le> length buffer" "length buffer < 8192" "take 4 buffer = ''DXNN''" "file_version buffer \<in> {7, 8}"
  shows "LoadModelParam v6 parse n buffer db = Undefined_load"
proof -
  have h: "load_header v sec parse buffer p = Undefined_load" if "file_version buffer = v" "v \<in> {7, 8}" for v sec p
    using assms(1-3) that by (auto simp: load_header_def read_bytes_def Let_def min_def)
  show ?thesis using assms
    by (auto simp: LoadModelParam_def GetFileFormatVersion_def CreateParser_def ParseModel_V7_def ParseModel_V8_def ParseModel_def
        loadBinaryInfo_V7_def loadBinaryInfo_V8_def h)
qed

text \<open>Nor are the offset and size of a section.\<close>

lemma section_read_beyond:
  assumes "0 < bm_size m" "int (length buffer) < 8192 + bm_offset m + bm_size m"
  shows "copyBinaryDataToModels buffer 8192 (m # ms) = Undefined_load"
  using assms by (simp add: copyBinaryDataToModels_def read_bytes_def)

text \<open>A graph that is no document is ignored: the model is loaded with no tasks.\<close>

lemma bad_graph_ignored:
  assumes "parse (c_str (bm_str (bi_graph_info b))) = None"
  shows "loadGraphInfo_V7 parse b g = Ok (- 1, g)" "loadGraphInfo_V8 parse b g = Ok (- 1, g)"
  using assms by (simp_all add: loadGraphInfo_V7_def loadGraphInfo_V8_def)

text \<open>A type name that is not known ends the process.\<close>

lemma unknown_type_exits: "GetDataTypeNum s = NONE_TYPE \<Longrightarrow> string_at ''dtype'' ms = Some s \<Longrightarrow> parse_dtype ms t = Exits"
  by (simp add: parse_dtype_def)

lemma unknown_type: "GetDataTypeNum ''FLOAT16'' = NONE_TYPE"
  by code_simp

text \<open>A byte of the version above 127 sets the bits above it: the version 128 is read as a negative one.\<close>

lemma version_sign_extended: "file_version (''DXNN'' @ [CHR 0x80, CHR 0x00, CHR 0x00, CHR 0x00]) = - 128"
  by code_simp

section \<open>A small model\<close>

definition demo_head :: string where
  "demo_head = ''DXNN'' @ [CHR 0x07, CHR 0x00, CHR 0x00, CHR 0x00] @ ''H'' @ replicate 8183 (CHR 0x00)"

definition demo_file :: "string \<Rightarrow> string" where
  "demo_file d = demo_head @ d"

definition demo_section :: "int \<Rightarrow> int \<Rightarrow> json" where
  "demo_section off sz = JObject [(''offset'', JInt off), (''size'', JInt sz)]"

definition demo_data :: "(string \<times> json) list" where
  "demo_data =
     [(''compile_config'', demo_section 5 1), (''graph_info'', demo_section 0 1),
      (''compiled_data'', JObject [(''M1'', JObject [(''npu_0'', JObject [(''rmap'', demo_section 2 1), (''weight'', demo_section 3 2), (''rmap_info'', demo_section 1 1)])])])]"

definition demo_parse :: "string \<Rightarrow> json option" where
  "demo_parse s = map_of
     [(''H'', JObject [(''data'', JObject demo_data)]),
      (''C'', JObject [(''compile_version'', JString ''2.0.0'')]),
      (''G'', JObject [(''graphs'', JArray [JObject [(''name'', JString ''npu_0''), (''outputs'', JArray [JObject [(''name'', JString ''y'')]])]])]),
      (''R'', JObject [(''mode'', JString ''Release''),
         (''memory'', JArray [JObject [(''name'', JString ''OUTPUT''), (''size'', JInt 32)]]),
         (''inputs'', JArray [JObject [(''name'', JString ''x''), (''dtype'', JString ''uint8''), (''shape'', JArray [JInt 10])]]),
         (''outputs'', JArray [JObject [(''name'', JString ''y''), (''dtype'', JString ''float32''), (''dtype_encoded'', JString ''INT8''),
            (''shape_encoded'', JArray [JInt 2, JInt 10]), (''align_unit'', JInt 16),
            (''memory'', JObject [(''size'', JInt 32), (''type'', JString ''DRAM'')])]])])] s"

definition demo_model :: Models where
  "demo_model = Models_new ''M1'' ''npu_0''"

definition demo_binary :: BinaryInfoDatabase where
  "demo_binary = BinaryInfoDatabase_new\<lparr>bi_dxnnFileFormatVersion := 7, bi_compilerVersion := ''2.0.0'',
     bi_graph_info := (Models_new [] [])\<lparr>bm_size := 1\<rparr>, bi_rmap := [demo_model\<lparr>bm_offset := 2, bm_size := 1\<rparr>],
     bi_weight := [demo_model\<lparr>bm_offset := 3, bm_size := 2\<rparr>], bi_rmap_info := [demo_model\<lparr>bm_offset := 1, bm_size := 1\<rparr>]\<rparr>"

definition demo_loaded :: BinaryInfoDatabase where
  "demo_loaded = demo_binary\<lparr>bi_graph_info := (Models_new [] [])\<lparr>bm_size := 1, bm_str := ''G''\<rparr>,
     bi_rmap := [demo_model\<lparr>bm_offset := 2, bm_size := 1, bm_buffer := ''a''\<rparr>],
     bi_weight := [demo_model\<lparr>bm_offset := 3, bm_size := 2, bm_buffer := ''bc''\<rparr>],
     bi_rmap_info := [demo_model\<lparr>bm_offset := 1, bm_size := 1, bm_str := ''R''\<rparr>]\<rparr>"

lemma length_demo_head [simp]: "length demo_head = 8192"
  by (simp add: demo_head_def)

lemma length_demo_file [simp]: "length (demo_file d) = 8192 + length d"
  by (simp add: demo_file_def)

lemma demo_section_bytes: "0 \<le> bm_offset m \<Longrightarrow> section_bytes (demo_file d) m = take (nat (bm_size m)) (drop (nat (bm_offset m)) d)"
  by (simp add: section_bytes_def demo_file_def nat_add_distrib)

lemma demo_version: "take 4 (demo_file d) = ''DXNN''" "file_version (demo_file d) = 7"
  by (simp_all add: demo_file_def demo_head_def file_version_def signed_char_def)

lemma demo_header_text: "read_bytes (demo_file d) 8 8184 = Ok (CHR ''H'' # replicate 8183 (CHR 0x00))"
proof -
  have "drop 8 demo_head = CHR ''H'' # replicate 8183 (CHR 0x00)" by (simp add: demo_head_def)
  then show ?thesis by (simp add: read_bytes_def demo_file_def)
qed

lemma demo_compile_config:
  "compile_config_document demo_parse (demo_file ''GRabcC'') 8192 [(''offset'', JInt 5), (''size'', JInt 1)] = Ok [(''compile_version'', JString ''2.0.0'')]"
proof -
  have "read_bytes (demo_file ''GRabcC'') 8197 1 = Ok ''C''" by (simp add: read_bytes_def demo_file_def)
  then show ?thesis by (simp add: compile_config_document_def parse_offset_size_def c_str_def demo_parse_def)
qed

lemma demo_data_section:
  "parseDataSection_V7 demo_parse demo_data (demo_file ''GRabcC'') 8192 (BinaryInfoDatabase_new\<lparr>bi_dxnnFileFormatVersion := 7\<rparr>) = Ok demo_binary"
  by (simp add: parseDataSection_V7_def parseDataSection_def demo_data_def demo_section_def object_at_def demo_compile_config compile_config_V7_def
      keep_def string_at_def c_str_def parseModelsOffsetSize_def parse_offset_size_def parseCompiledDataForNpu_V7_def parse_compiled_task_def
      add_section_def Models_new_def BinaryInfoDatabase_new_def demo_binary_def demo_model_def)

lemma demo_header: "load_header 7 parseDataSection_V7 demo_parse (demo_file ''GRabcC'') BinaryInfoDatabase_new = Ok demo_binary"
proof -
  let ?d = "''GRabcC''"
  have "read_bytes (demo_file ?d) 0 8 = Ok (take 8 (demo_file ?d))" by (simp add: read_bytes_def)
  moreover have "demo_parse (c_str (CHR ''H'' # replicate 8183 (CHR 0x00))) = Some (JObject [(''data'', JObject demo_data)])"
    by (simp add: c_str_def demo_parse_def)
  moreover have "take 4 (take 8 (demo_file ?d)) = ''DXNN''" using demo_version(1) [of ?d] by (simp add: min_def)
  ultimately show ?thesis
    using demo_data_section by (simp only: load_header_def) (simp add: demo_version demo_header_text object_at_def)
qed

lemma demo_copied: "copy_sections (demo_file ''GRabcC'') 8192 demo_binary = Ok demo_loaded"
  unfolding copy_sections_def load_then_Ok copyBinaryDataToModels_Ok copyStringDataToModels_Ok read_section
  by (simp add: demo_loaded_def demo_binary_def demo_model_def Models_new_def BinaryInfoDatabase_new_def in_file_def demo_section_bytes numeral_nat)

lemma demo_info_parsed:
  "case loadGraphInfo_V7 demo_parse demo_loaded GraphInfoDatabase_new of Ok (r, g) \<Rightarrow> r = 0 \<and> map sg_head (gi_subgraphs g) = [True] | _ \<Rightarrow> False"
  "case loadRmapInfo_V7 demo_parse 6 demo_loaded [] of Ok (rs, c) \<Rightarrow> map (map rt_shape_encoded \<circ> ri_outputs) rs = [[[2, 10]]] \<and> c = ''release'' | _ \<Rightarrow> False"
  by code_simp+

lemma demo_loads:
  obtains db where "LoadModelParam v6 demo_parse 6 (demo_file ''GRabcC'') ModelDataBase_new = Ok (db, ''release'')"
    "md_binary db = demo_loaded" "loadRmapInfo_V7 demo_parse 6 demo_loaded [] = Ok (md_rmap db, ''release'')"
    "map (map rt_shape_encoded \<circ> ri_outputs) (md_rmap db) = [[[2, 10]]]"
proof -
  obtain r g rs where "loadGraphInfo_V7 demo_parse demo_loaded GraphInfoDatabase_new = Ok (r, g)"
      "loadRmapInfo_V7 demo_parse 6 demo_loaded [] = Ok (rs, ''release'')" "map (map rt_shape_encoded \<circ> ri_outputs) rs = [[[2, 10]]]"
    using demo_info_parsed by (auto split: load.splits)
  then show ?thesis
    by (intro that [of "\<lparr>md_graph = g, md_binary = demo_loaded, md_rmap = rs\<rparr>"])
      (simp_all add: LoadModelParam_def GetFileFormatVersion_def demo_version CreateParser_def ParseModel_V7_def ParseModel_def
        loadBinaryInfo_V7_def ModelDataBase_new_def demo_header demo_copied)
qed


theorem loaded_tensors_typed_witness:
  "\<exists>db. LoadModelParam (\<lambda>b d. Exits) demo_parse 6 (demo_file ''GRabcC'') ModelDataBase_new = Ok (db, ''release'') \<and>
     map (map rt_shape_encoded \<circ> ri_outputs) (md_rmap db) = [[[2, 10]]] \<and> (\<forall>r \<in> set (md_rmap db). register_typed r)"
proof (rule demo_loads)
  fix db
  assume db: "LoadModelParam (\<lambda>b d. Exits) demo_parse 6 (demo_file ''GRabcC'') ModelDataBase_new = Ok (db, ''release'')"
    "map (map rt_shape_encoded \<circ> ri_outputs) (md_rmap db) = [[[2, 10]]]"
  have v: "file_version (demo_file ''GRabcC'') \<noteq> 6" by (simp add: demo_version)
  show ?thesis by (intro exI [of _ db] conjI db loaded_tensors_typed [OF db(1) v, THEN conjunct2, THEN conjunct1])
qed

end
