(* ===== verification/Task_Import_Correct.thy ===== *)
theory Task_Import_Correct
  imports Task_Import Model_Parser_Correct Acc_Task_Layer_Correct
begin

text \<open>
  Proofs about \<^verbatim>\<open>Task_Import\<close>: the outputs of an imported task lie in the part of the output memory that is transferred, where the
  compiler put them; the size computed from a binary of the post-processing unit is exact. The last section has the
  cases in which an import goes wrong.
\<close>

section \<open>Bounds of the outputs\<close>

abbreviation out_offset :: "rmap_tensor \<Rightarrow> int" where
  "out_offset t \<equiv> mm_offset (rt_memory t)"

abbreviation out_size :: "rmap_tensor \<Rightarrow> int" where
  "out_size t \<equiv> mm_size (rt_memory t)"

lemma bounds_step_Ok:
  "bounds_step t b = Ok b1 \<Longrightarrow> b1 = (if out_offset t < fst b then out_offset t else fst b,
     if snd b < out_offset t + out_size t then out_offset t + out_size t else snd b)"
  by (auto simp: bounds_step_def Let_def int64_result_def split: if_splits)

lemma bounds_fold:
  assumes "load_fold bounds_step ts b = Ok b'"
  shows "fst b' \<le> fst b" "snd b \<le> snd b'" "\<forall>t \<in> set ts. fst b' \<le> out_offset t \<and> out_offset t + out_size t \<le> snd b'"
    "fst b' = fst b \<or> (\<exists>t \<in> set ts. fst b' = out_offset t)" "snd b' = snd b \<or> (\<exists>t \<in> set ts. snd b' = out_offset t + out_size t)"
proof -
  have "fst b' \<le> fst b \<and> snd b \<le> snd b' \<and> (\<forall>t \<in> set ts. fst b' \<le> out_offset t \<and> out_offset t + out_size t \<le> snd b') \<and>
    (fst b' = fst b \<or> (\<exists>t \<in> set ts. fst b' = out_offset t)) \<and> (snd b' = snd b \<or> (\<exists>t \<in> set ts. snd b' = out_offset t + out_size t))"
    using assms
  proof (induction ts arbitrary: b)
    case (Cons t ts)
    let ?b1 = "(if out_offset t < fst b then out_offset t else fst b, if snd b < out_offset t + out_size t then out_offset t + out_size t else snd b)"
    from Cons.prems have "load_fold bounds_step ts ?b1 = Ok b'" by (auto dest!: bounds_step_Ok)
    from Cons.IH [OF this] show ?case by (auto split: if_splits)
  qed simp
  then show "fst b' \<le> fst b" "snd b \<le> snd b'" "\<forall>t \<in> set ts. fst b' \<le> out_offset t \<and> out_offset t + out_size t \<le> snd b'"
    "fst b' = fst b \<or> (\<exists>t \<in> set ts. fst b' = out_offset t)" "snd b' = snd b \<or> (\<exists>t \<in> set ts. snd b' = out_offset t + out_size t)"
    by blast+
qed

lemma output_bounds_Ok:
  assumes "output_bounds ts = Ok (lower, upper)" "ts \<noteq> []" "list_all (\<lambda>t. int64_ok (out_offset t)) ts"
  shows "0 \<le> lower" "lower \<le> upper" "\<forall>t \<in> set ts. lower \<le> out_offset t \<and> out_offset t + out_size t \<le> upper"
    "upper = 0 \<or> (\<exists>t \<in> set ts. upper = out_offset t + out_size t)"
proof -
  obtain b where b: "load_fold bounds_step ts (INT64_MAX, 0) = Ok b" "lower = (if fst b = INT64_MAX then 0 else fst b)" "snd b = upper"
      "0 \<le> lower" "lower \<le> upper"
    using assms(1,2) by (auto simp: output_bounds_def Let_def split: if_splits)
  note f = bounds_fold [OF b(1)]
  show "0 \<le> lower" "lower \<le> upper" by (fact b)+
  have "lower \<le> fst b" using b(2) by (auto simp: INT64_MAX_def)
  then show "\<forall>t \<in> set ts. lower \<le> out_offset t \<and> out_offset t + out_size t \<le> upper" using f(3) b(3) by fastforce
  show "upper = 0 \<or> (\<exists>t \<in> set ts. upper = out_offset t + out_size t)" using f(5) b(3) by auto
qed

lemma uint_of_int_small: "0 \<le> x \<Longrightarrow> x < 2 ^ LENGTH('a) \<Longrightarrow> uint (word_of_int x :: 'a::len word) = x"
  by (simp add: uint_word_of_int)

lemma load_map_nth: "load_map f xs = Ok ys \<Longrightarrow> i < length xs \<Longrightarrow> length ys = length xs \<and> f (xs ! i) = Ok (ys ! i)"
  by (simp add: load_map_Ok list_all2_conv_all_nth)

text \<open>What a successful import of a task without a binary of the post-processing unit consists of.\<close>

lemma set_from_npu_Ok:
  assumes "set_from_npu tid info n data False = Ok ta"
  obtains lower upper offsets last_offset ta0 where
    "output_bounds (ri_outputs info) = Ok (lower, upper)"
    "load_map (normalise_offset lower) (map (raw_output_offset info) (ri_outputs info)) = Ok offsets"
    "ri_inputs info \<noteq> []" "ri_outputs info \<noteq> []"
    "last_offset = mm_offset (mo_output (ri_model_memory info)) + lower" "0 \<le> last_offset" "last_offset < 2 ^ 32"
    "ta_info ta0 = info" "ta_encodedOutputOffsets ta0 = offsets" "ta_npuModel ta0 = import_model info data last_offset lower upper"
    "import_kind ta0 = Ok (ta\<lparr>ta_outputMemSize := 0, ta_memUsage := 0\<rparr>)"
proof -
  have ne: "ts \<noteq> []" if "data_types ts = Ok tys" "calculate_total_size tys (map rt_shape ts) = Ok x" for ts tys x
    using that by (auto simp: data_types_def calculate_total_size_def split: if_splits)
  obtain encIn encOut lower upper offsets inTypes outTypes inSize outSize inTensors outTensors last_offset ta1 where
    s: "output_bounds (ri_outputs info) = Ok (lower, upper)"
      "load_map (normalise_offset lower) (map (raw_output_offset info) (ri_outputs info)) = Ok offsets"
      "data_types (ri_inputs info) = Ok inTypes" "data_types (ri_outputs info) = Ok outTypes"
      "calculate_total_size inTypes (map rt_shape (ri_inputs info)) = Ok inSize"
      "calculate_total_size outTypes (map rt_shape (ri_outputs info)) = Ok outSize"
      "int64_result (mm_offset (mo_output (ri_model_memory info)) + lower) = Ok last_offset" "0 \<le> last_offset" "last_offset < 2 ^ 32"
    and k: "import_kind \<lparr>ta_id = tid, ta_info = info, ta_bufferCount = n, ta_npuModel = import_model info data last_offset lower upper, ta_memUsage = 0,
         ta_inputSize = inSize, ta_outputSize = outSize, ta_outputMemSize = 0, ta_inputOffsets = running_offsets (ri_inputs info) 0,
         ta_outputOffsets = running_offsets (ri_outputs info) 0, ta_encodedInputOffsets = map (\<lambda>t. word_of_int (mm_offset (rt_memory t))) (ri_inputs info),
         ta_encodedOutputOffsets = offsets, ta_encodedInputSize = encIn, ta_encodedOutputSize = encOut,
         ta_encodedInputSizes = map (\<lambda>t. word_of_int (mm_size (rt_memory t))) (ri_inputs info),
         ta_encodedOutputSizes = map (\<lambda>t. word_of_int (mm_size (rt_memory t))) (ri_outputs info), ta_inputTensors = inTensors,
         ta_outputTensors = outTensors, ta_isArgMax = False, ta_isPPU = False, ta_isPPCPU = False\<rparr> = Ok ta1" "ta = memory_usage data ta1"
    using assms by (auto simp: set_from_npu_def Let_def split: if_splits)
  have "ta_outputMemSize ta1 = 0 \<and> ta_memUsage ta1 = 0"
    using k(1) by (auto simp: import_kind_def import_ppu_def Let_def split: if_splits)
  then have "ta1 = ta\<lparr>ta_outputMemSize := 0, ta_memUsage := 0\<rparr>" using k(2) by (simp add: memory_usage_def Let_def)
  then show ?thesis using s k(1) ne [OF s(3,5)] ne [OF s(4,6)]
    by (intro that [of lower upper offsets last_offset]) (auto simp: int64_result_def split: if_splits)
qed

text \<open>The place of the outputs in the transfer, for a task imported from well-typed information.\<close>

lemma imported_outputs_in_transfer:
  assumes "set_from_npu tid info n data False = Ok ta" and "register_typed info"
    and "\<forall>t \<in> set (ri_outputs info). mm_type (rt_memory t) \<in> {MEMORYTYPE_NONE, DRAM} \<and> 0 \<le> out_size t \<and>
      out_offset t + out_size t \<le> mm_size (mo_output (ri_model_memory info))"
    and "mm_offset (mo_output (ri_model_memory info)) = 0" and "mm_size (mo_output (ri_model_memory info)) < 2 ^ 32"
  shows "nm_type (ta_npuModel ta) = 0"
    "uint (nm_last_output_offset (ta_npuModel ta)) + uint (nm_last_output_size (ta_npuModel ta)) \<le> uint (nm_output_all_size (ta_npuModel ta))"
    "length (ta_encodedOutputOffsets ta) = length (ri_outputs info)"
    "\<forall>i < length (ri_outputs info).
       uint (ta_encodedOutputOffsets ta ! i) + out_size (ri_outputs info ! i) \<le> uint (nm_last_output_size (ta_npuModel ta)) \<and>
       uint (nm_last_output_offset (ta_npuModel ta)) + uint (ta_encodedOutputOffsets ta ! i) = out_offset (ri_outputs info ! i)"
proof -
  let ?outs = "ri_outputs info"
  obtain lower upper offsets last_offset ta0 where b: "output_bounds ?outs = Ok (lower, upper)"
      "load_map (normalise_offset lower) (map (raw_output_offset info) ?outs) = Ok offsets" "?outs \<noteq> []"
      "last_offset = mm_offset (mo_output (ri_model_memory info)) + lower"
      "ta_info ta0 = info" "ta_encodedOutputOffsets ta0 = offsets" "ta_npuModel ta0 = import_model info data last_offset lower upper"
      "import_kind ta0 = Ok (ta\<lparr>ta_outputMemSize := 0, ta_memUsage := 0\<rparr>)"
    by (rule set_from_npu_Ok [OF assms(1)]) blast
  have ty64: "list_all (\<lambda>t. int64_ok (out_offset t)) ?outs"
    using assms(2) by (auto simp: register_typed_def tensor_typed_def memory_typed_def list_all_iff)
  note ob = output_bounds_Ok [OF b(1,3) ty64]
  have up: "upper \<le> mm_size (mo_output (ri_model_memory info))"
  proof -
    obtain t where "t \<in> set ?outs" using b(3) by (meson ex_in_conv set_empty)
    then have "0 \<le> mm_size (mo_output (ri_model_memory info))" using ob(1,3) assms(3) by fastforce
    then show ?thesis using ob(4) assms(3) by auto
  qed
  have kind: "ta\<lparr>ta_outputMemSize := 0, ta_memUsage := 0\<rparr> = ta0\<lparr>ta_npuModel := (ta_npuModel ta0)\<lparr>nm_type := 0\<rparr>\<rparr>"
  proof -
    have "hd ?outs \<in> set ?outs" using b(3) by simp
    then have "mm_type (rt_memory (hd ?outs)) \<in> {MEMORYTYPE_NONE, DRAM}" using assms(3) by blast
    moreover from this \<open>hd ?outs \<in> set ?outs\<close> have "\<not> list_all (\<lambda>t. mm_type (rt_memory t) = ARGMAX) ?outs" by (force simp: list_all_iff)
    ultimately show ?thesis using b(5,8) by (auto simp: import_kind_def Let_def)
  qed
  have m: "ta_npuModel ta = (ta_npuModel ta0)\<lparr>nm_type := 0\<rparr>" "ta_encodedOutputOffsets ta = offsets"
    using arg_cong [OF kind, of ta_npuModel] arg_cong [OF kind, of ta_encodedOutputOffsets] b(6) by simp_all
  have w: "uint (word_of_int lower :: u32) = lower" "uint (word_of_int (upper - lower) :: u32) = upper - lower"
    "uint (word_of_int (mm_size (mo_output (ri_model_memory info))) :: u32) = mm_size (mo_output (ri_model_memory info))"
    by (rule uint_of_int_small; use ob(1,2) up assms(5) in simp)+
  have lm: "nm_last_output_offset (ta_npuModel ta) = word_of_int lower" "nm_last_output_size (ta_npuModel ta) = word_of_int (upper - lower)"
    "nm_output_all_size (ta_npuModel ta) = word_of_int (mm_size (mo_output (ri_model_memory info)))" "nm_type (ta_npuModel ta) = 0"
    by (simp_all add: m b(4,7) import_model_def Let_def assms(4))
  show "nm_type (ta_npuModel ta) = 0" by (fact lm)
  show "uint (nm_last_output_offset (ta_npuModel ta)) + uint (nm_last_output_size (ta_npuModel ta)) \<le> uint (nm_output_all_size (ta_npuModel ta))"
    using w up by (simp add: lm)
  show "length (ta_encodedOutputOffsets ta) = length ?outs" using length_load_map [OF b(2)] m(2) by simp
  have off: "uint (offsets ! i) = out_offset (?outs ! i) - lower" if "i < length ?outs" for i
  proof -
    let ?t = "?outs ! i"
    have t: "?t \<in> set ?outs" using that by simp
    have "out_offset ?t < 2 ^ 64" "0 \<le> out_offset ?t" "lower \<le> out_offset ?t" using ob(1,3) t up assms(3,5) by fastforce+
    then have u: "uint (word_of_int (out_offset ?t) :: u64) = out_offset ?t" "uint (word_of_int lower :: u64) = lower"
      using ob(1) by (simp_all add: uint_word_of_int)
    have "raw_output_offset info ?t = word_of_int (out_offset ?t)" using assms(3) t by (auto simp: raw_output_offset_def)
    then have "offsets ! i = word_of_int (out_offset ?t) - word_of_int lower"
      using load_map_nth [OF b(2), of i] that by (auto simp: normalise_offset_def split: if_splits)
    then show ?thesis using u \<open>lower \<le> out_offset ?t\<close> uint_sub_lem [of "word_of_int lower :: u64" "word_of_int (out_offset ?t)"] by (simp only: u)
  qed
  show "\<forall>i < length ?outs. uint (ta_encodedOutputOffsets ta ! i) + out_size (?outs ! i) \<le> uint (nm_last_output_size (ta_npuModel ta)) \<and>
       uint (nm_last_output_offset (ta_npuModel ta)) + uint (ta_encodedOutputOffsets ta ! i) = out_offset (?outs ! i)"
    using off ob(3) w by (auto simp: lm m(2))
qed

text \<open>A task with two outputs, behind 64 bytes of the output memory that are not transferred.\<close>

definition demo_io :: "string \<Rightarrow> int \<Rightarrow> int \<Rightarrow> rmap_tensor" where
  "demo_io name off sz = rmap_tensor_new\<lparr>rt_name := name, rt_dtype := Some DataType.UINT8, rt_elem_size := 1, rt_shape := [sz],
     rt_memory := \<lparr>mm_name = [], mm_offset = off, mm_size = sz, mm_type = DRAM\<rparr>\<rparr>"

definition demo_reg_info :: RegisterInfoDatabase where
  "demo_reg_info = RegisterInfoDatabase_new\<lparr>ri_size := 0, ri_inputs := [demo_io ''x'' 0 10], ri_outputs := [demo_io ''y'' 64 32, demo_io ''z'' 128 8],
     ri_model_memory := ModelMemory_new\<lparr>mo_output := rmap_memory_new\<lparr>mm_size := 192\<rparr>\<rparr>\<rparr>"

lemma demo_import:
  "case set_from_npu 3 demo_reg_info 6 [[1], [2]] False of
     Ok ta \<Rightarrow> ta_encodedOutputOffsets ta = [0, 64] \<and> nm_last_output_offset (ta_npuModel ta) = 64 \<and> nm_last_output_size (ta_npuModel ta) = 72 | _ \<Rightarrow> False"
  by code_simp

section \<open>Size of the output of the post-processing unit\<close>

definition grid_boxes :: "u8 list \<Rightarrow> nat \<Rightarrow> nat" where
  "grid_boxes bs i = unat (bs ! (4 + 16 * i + 13)) * unat (bs ! (4 + 16 * i + 14))"

lemma count_boxes_Some:
  "\<forall>i \<in> set is. 4 + 16 * i + 14 < length bs \<Longrightarrow> count_boxes bs is (of_nat n) = Some (of_nat (n + (\<Sum>i \<leftarrow> is. grid_boxes bs i)))"
proof (induction "is" arbitrary: n)
  case (Cons i "is")
  have "ucast (bs ! (4 + 16 * i + 13)) * ucast (bs ! (4 + 16 * i + 14)) = (of_nat (grid_boxes bs i) :: u32)"
    by (simp add: grid_boxes_def)
  with Cons.IH [of "n + grid_boxes bs i"] Cons.prems show ?case by (simp add: byte_at_def add.assoc)
qed simp

lemma grid_boxes_le: "grid_boxes bs i \<le> 255 * 255"
proof -
  have "unat (w :: u8) \<le> 255" for w using unsigned_less [of w, where ?'a = nat] by simp
  then show ?thesis unfolding grid_boxes_def by (intro mult_le_mono)
qed

text \<open>The binary is never read outside of its bounds, and the size does not wrap: it is the number of all boxes times the size of one.\<close>

lemma ppu_never_outside: "CalculatePpuOutputSize bs ty \<noteq> None"
proof -
  have "count_boxes bs [0..<unat (bs ! 1)] 0 \<noteq> None" if "4 + unat (bs ! 1) * 16 \<le> length bs"
    using count_boxes_Some [of "[0..<unat (bs ! 1)]" bs 0] that by auto
  then show ?thesis by (auto simp: CalculatePpuOutputSize_def Let_def split: option.splits)
qed

lemma ppu_size_exact:
  assumes "4 \<le> length bs" "0 < unat (bs ! 1)" "4 + unat (bs ! 1) * 16 \<le> length bs" "ty \<in> {BBOX, FACE, POSE}"
  shows "\<exists>info. CalculatePpuOutputSize bs ty = Some info \<and> unat (pp_max_box_count info) = (\<Sum>i \<leftarrow> [0..<unat (bs ! 1)]. grid_boxes bs i) \<and>
    unat (pp_total_output_size info) = (\<Sum>i \<leftarrow> [0..<unat (bs ! 1)]. grid_boxes bs i) * unat (GetPpuBoxDataSize ty)"
proof -
  let ?k = "unat (bs ! 1)" and ?b = "unat (GetPpuBoxDataSize ty)"
  let ?n = "\<Sum>i \<leftarrow> [0..<?k]. grid_boxes bs i"
  have k: "?k \<le> 255" using unsigned_less [of "bs ! 1", where ?'a = nat] by simp
  have "?n \<le> length [0..<?k] * (255 * 255)"
    by (rule order_trans [OF sum_list_mono [of _ _ "\<lambda>_. 255 * 255"]]) (simp_all add: grid_boxes_le [simplified] sum_list_triv)
  then have n: "?n \<le> 255 * (255 * 255)" using mult_le_mono1 [OF k, of "255 * 255"] by simp
  have b: "?b \<le> 256" "0 < ?b" using assms(4) by auto
  have nb: "?n * ?b \<le> 255 * (255 * 255) * 256" by (rule mult_le_mono [OF n b(1)])
  have c: "count_boxes bs [0..<?k] 0 = Some (of_nat ?n)" using count_boxes_Some [of "[0..<?k]" bs 0] assms(3) by simp
  have z: "GetPpuBoxDataSize ty \<noteq> 0" using assms(4) by auto
  have w: "of_nat ?n * GetPpuBoxDataSize ty = (of_nat (?n * ?b) :: u32)" by simp
  have "unat (of_nat ?n :: u32) = ?n" by (rule unat_of_nat_small) (use n in simp)
  moreover have "unat (of_nat (?n * ?b) :: u32) = ?n * ?b" by (rule unat_of_nat_small) (use nb in simp)
  ultimately show ?thesis using assms(1-3) c z unfolding CalculatePpuOutputSize_def Let_def w [symmetric] by simp
qed

section \<open>Imports that go wrong\<close>

text \<open>
  The types of a task without inputs are one type, its shapes none: the sizes differ and the import fails, whatever the rest
  of the model is.
\<close>

lemma no_inputs_rejected: "ri_inputs info = [] \<Longrightarrow> set_from_npu tid info n data False \<noteq> Ok ta"
  by (auto elim!: set_from_npu_Ok)

text \<open>The bounds of an output of the post-processing unit are taken, and its offset is 0: any other place in memory is rejected.\<close>

lemma ppu_offset_rejected:
  assumes "sum_sizes (ri_inputs info) = Ok e" "ri_outputs info = [t]" "mm_type (rt_memory t) = PPU" "mm_size (rt_memory t) = 0"
    "0 < out_offset t" "out_offset t < 2 ^ 63 - 1"
  shows "set_from_npu tid info n data ppu = Throws Invalid_argument"
proof -
  have r: "int64_result (out_offset t) = Ok (out_offset t)" using assms(5,6) by (simp add: int64_result_def int64_ok_def)
  then have b: "output_bounds [t] = Ok (out_offset t, out_offset t)"
    using assms(4-6) by (simp add: output_bounds_def bounds_step_def Let_def INT64_MAX_def)
  have s: "sum_sizes [t] = Ok 0" using assms(4) by (simp add: sum_sizes_def int64_result_def)
  have "(0 :: u64) < word_of_int (out_offset t)" using assms(5,6) by (simp add: word_less_def uint_word_of_int)
  then have "load_map (normalise_offset (out_offset t)) (map (raw_output_offset info) [t]) = Throws Invalid_argument"
    using assms(3) by (simp add: normalise_offset_def raw_output_offset_def)
  then show ?thesis unfolding set_from_npu_def Let_def assms(2) by (simp add: assms(1) b s)
qed

text \<open>
  The parser of version 8 keeps only the binaries of the post-processing unit that are there, and a task takes its binary by the
  index of its register map: after a task without one, each task gets the binary of a later one.
\<close>

definition two_npu_tasks :: json where
  "two_npu_tasks =
     (let sec = JObject [(''offset'', JInt 0), (''size'', JInt 1)]
      in JObject [(''npu_0'', JObject [(''rmap'', sec), (''weight'', sec)]), (''npu_1'', JObject [(''rmap'', sec), (''weight'', sec), (''ppu'', sec)])])"

lemma ppu_of_other_task:
  "case parseCompiledDataForNpu_V8 ''M1'' two_npu_tasks (BinaryInfoDatabase_new\<lparr>bi_dxnnFileFormatVersion := 8\<rparr>) of
     Ok b \<Rightarrow> map bm_name (bi_rmap b) = [''npu_0'', ''npu_1''] \<and> map bm_name (bi_ppu b) = [''npu_1''] \<and> has_ppu_binary b 0 \<and> \<not> has_ppu_binary b 1
   | _ \<Rightarrow> False"
  by code_simp

text \<open>
  A file without a compiler version, which the loader accepts, or with one of fewer than three numbers, is read outside of the
  vector of its parts.
\<close>

lemma no_compiler_version: "isSupporterModelVersion [] = Undefined_load" "isSupporterModelVersion ''2.0'' = Undefined_load"
  by code_simp+

lemma compiler_versions: "isSupporterModelVersion ''1.18.1'' = Ok True" "isSupporterModelVersion ''1.9.30'' = Ok False" "isSupporterModelVersion ''2.0.0-rc1'' = Ok True"
  by code_simp+

section \<open>From the file to the task\<close>

lemma import_task_Ok:
  assumes "import_task db tid n j = Ok ta"
  obtains data where "j < length (md_rmap db)" "set_from_npu tid (md_rmap db ! j) n data (has_ppu_binary (md_binary db) j) = Ok ta"
  using assms by (auto simp: import_task_def split: if_splits)


text \<open>The small model has one task, with one output of 32 bytes at the start of its output memory.\<close>

lemma demo_task_import:
  "case loadRmapInfo_V7 demo_parse 6 demo_loaded [] of
     Ok (rs, c) \<Rightarrow> (case import_task \<lparr>md_graph = g, md_binary = demo_loaded, md_rmap = rs\<rparr> 1 6 0 of Ok ta \<Rightarrow> nm_last_output_size (ta_npuModel ta) = 32 | _ \<Rightarrow> False) \<and>
       map (\<lambda>t. (out_offset t, out_size t, mm_type (rt_memory t))) (ri_outputs (rs ! 0)) = [(0, 32, DRAM)] \<and>
       mm_offset (mo_output (ri_model_memory (rs ! 0))) = 0 \<and> mm_size (mo_output (ri_model_memory (rs ! 0))) = 32
   | _ \<Rightarrow> False"
  by code_simp


end
