(* ===== verification/Monitor_Shm.thy ===== *)
theory Monitor_Shm
  imports Prelude "HOL-Library.Sublist"
begin

text \<open>
  Device status in shared memory: \<^verbatim>\<open>src/lib/device_shm/shared_memory_writer.cpp\<close> and
  \<^verbatim>\<open>shared_memory_reader.cpp\<close>. A writer publishes the state of the devices under a sequence counter, which
  is odd while it writes; a reader copies and tries again when the counter was odd or has changed. The
  theory gives the operations of the writer as the stores they make, those of the reader as the
  loads they make, and shows that a read that succeeds is atomic under every interleaving.
\<close>

section \<open>The writer\<close>

record MonitorDeviceData =
  md_device_id :: u32
  md_spec :: "u32 list"
  md_dev_info :: "u32 list"
  md_voltage :: "u32 list"
  md_clock :: "u32 list"
  md_temperature :: "u32 list"
  md_status_rest :: "u32 list"
  md_utilization :: "u64 list"
  md_memory_total :: u64
  md_memory_used :: u64
  md_memory_free :: u64
  md_is_active :: bool
  md_inference_count :: u32

record MonitorSharedMemory =
  sm_sequence :: u64
  sm_magic :: u32
  sm_version :: u32
  sm_writer_pid :: u32
  sm_update_count :: u64
  sm_last_update_timestamp :: u64
  sm_device_count :: u32
  sm_devices :: "MonitorDeviceData list"

definition MAX_MONITOR_DEVICES :: nat where
  "MAX_MONITOR_DEVICES = 32"

definition MonitorDeviceData_new :: "nat \<Rightarrow> nat \<Rightarrow> nat \<Rightarrow> MonitorDeviceData" where
  "MonitorDeviceData_new spec_words info_words rest_words =
     \<lparr>md_device_id = 0, md_spec = replicate spec_words 0, md_dev_info = replicate info_words 0,
      md_voltage = replicate 4 0, md_clock = replicate 4 0, md_temperature = replicate 4 0, md_status_rest = replicate rest_words 0,
      md_utilization = replicate 3 0, md_memory_total = 0, md_memory_used = 0, md_memory_free = 0, md_is_active = False,
      md_inference_count = 0\<rparr>"

definition MonitorSharedMemory_new :: "MonitorDeviceData \<Rightarrow> MonitorSharedMemory" where
  "MonitorSharedMemory_new dev =
     \<lparr>sm_sequence = 0, sm_magic = 0x44585254, sm_version = 2, sm_writer_pid = 0, sm_update_count = 0, sm_last_update_timestamp = 0,
      sm_device_count = 0, sm_devices = replicate MAX_MONITOR_DEVICES dev\<rparr>"

text \<open>What \<open>Initialize\<close> does to the memory it has mapped; \<open>alive\<close> is the answer of \<^verbatim>\<open>kill\<close> for the recorded writer.\<close>

definition Initialize_shm :: "MonitorDeviceData \<Rightarrow> (u32 \<Rightarrow> bool) \<Rightarrow> u32 \<Rightarrow> MonitorSharedMemory \<Rightarrow> MonitorSharedMemory" where
  "Initialize_shm dev alive pid m =
     (let m1 = (if sm_magic m \<noteq> 0x44585254 \<or> sm_version m \<noteq> 2 then MonitorSharedMemory_new dev
                else if sm_writer_pid m \<noteq> 0 \<and> \<not> alive (sm_writer_pid m) then MonitorSharedMemory_new dev else m)
      in m1\<lparr>sm_writer_pid := pid\<rparr>)"

type_synonym store = "MonitorSharedMemory \<Rightarrow> MonitorSharedMemory"

definition set_device :: "nat \<Rightarrow> (MonitorDeviceData \<Rightarrow> MonitorDeviceData) \<Rightarrow> store" where
  "set_device i f m = m\<lparr>sm_devices := (sm_devices m)[i := f (sm_devices m ! i)]\<rparr>"

definition find_device :: "u32 \<Rightarrow> MonitorSharedMemory \<Rightarrow> nat option" where
  "find_device d m = List.find (\<lambda>i. md_device_id (sm_devices m ! i) = d) [0..<unat (sm_device_count m)]"

text \<open>\<open>GetDeviceData\<close>: the entry of a device and the stores that add a new one. \<open>None\<close>: no space.\<close>

definition GetDeviceData :: "u32 \<Rightarrow> MonitorSharedMemory \<Rightarrow> (nat \<times> store list) option" where
  "GetDeviceData d m =
     (case find_device d m of
        Some i \<Rightarrow> Some (i, [])
      | None \<Rightarrow>
          if unat (sm_device_count m) < MAX_MONITOR_DEVICES then
            (let i = unat (sm_device_count m)
             in Some (i, [set_device i (\<lambda>x. x\<lparr>md_device_id := d\<rparr>), set_device i (\<lambda>x. x\<lparr>md_is_active := True\<rparr>),
                          \<lambda>m. m\<lparr>sm_device_count := sm_device_count m + 1\<rparr>]))
          else None)"

definition BeginWrite :: store where
  "BeginWrite m = m\<lparr>sm_sequence := sm_sequence m + 1\<rparr>"

definition EndWrite :: store where
  "EndWrite m = m\<lparr>sm_sequence := sm_sequence m + 1\<rparr>"

definition UpdateTimestamp :: "u64 \<Rightarrow> store list" where
  "UpdateTimestamp now = [\<lambda>m. m\<lparr>sm_last_update_timestamp := now\<rparr>, \<lambda>m. m\<lparr>sm_update_count := sm_update_count m + 1\<rparr>]"

text \<open>The frame of an update: the entry, the counter, the stores to the entry, the timestamp, the counter.\<close>

definition update_device :: "u64 \<Rightarrow> u32 \<Rightarrow> (MonitorDeviceData \<Rightarrow> MonitorDeviceData) list \<Rightarrow> MonitorSharedMemory \<Rightarrow> store list" where
  "update_device now d body m =
     (case GetDeviceData d m of
        None \<Rightarrow> []
      | Some (i, add) \<Rightarrow> add @ [BeginWrite] @ (map (set_device i) body @ UpdateTimestamp now) @ [EndWrite])"

text \<open>Arrays and structures are copied word by word.\<close>

definition copy_words :: "(nat \<Rightarrow> 'w \<Rightarrow> 'd \<Rightarrow> 'd) \<Rightarrow> 'w list \<Rightarrow> ('d \<Rightarrow> 'd) list" where
  "copy_words put ws = map (\<lambda>k. put k (ws ! k)) [0..<length ws]"

definition put_utilization :: "nat \<Rightarrow> u64 \<Rightarrow> MonitorDeviceData \<Rightarrow> MonitorDeviceData" where
  "put_utilization k w x = x\<lparr>md_utilization := (md_utilization x)[k := w]\<rparr>"

definition put_spec :: "nat \<Rightarrow> u32 \<Rightarrow> MonitorDeviceData \<Rightarrow> MonitorDeviceData" where
  "put_spec k w x = x\<lparr>md_spec := (md_spec x)[k := w]\<rparr>"

definition put_dev_info :: "nat \<Rightarrow> u32 \<Rightarrow> MonitorDeviceData \<Rightarrow> MonitorDeviceData" where
  "put_dev_info k w x = x\<lparr>md_dev_info := (md_dev_info x)[k := w]\<rparr>"

definition put_voltage :: "nat \<Rightarrow> u32 \<Rightarrow> MonitorDeviceData \<Rightarrow> MonitorDeviceData" where
  "put_voltage k w x = x\<lparr>md_voltage := (md_voltage x)[k := w]\<rparr>"

definition put_clock :: "nat \<Rightarrow> u32 \<Rightarrow> MonitorDeviceData \<Rightarrow> MonitorDeviceData" where
  "put_clock k w x = x\<lparr>md_clock := (md_clock x)[k := w]\<rparr>"

definition put_temperature :: "nat \<Rightarrow> u32 \<Rightarrow> MonitorDeviceData \<Rightarrow> MonitorDeviceData" where
  "put_temperature k w x = x\<lparr>md_temperature := (md_temperature x)[k := w]\<rparr>"

definition put_status_rest :: "nat \<Rightarrow> u32 \<Rightarrow> MonitorDeviceData \<Rightarrow> MonitorDeviceData" where
  "put_status_rest k w x = x\<lparr>md_status_rest := (md_status_rest x)[k := w]\<rparr>"

definition UpdateDeviceUtilization :: "u64 \<Rightarrow> u32 \<Rightarrow> u64 list \<Rightarrow> MonitorSharedMemory \<Rightarrow> store list" where
  "UpdateDeviceUtilization now d utilization = update_device now d (copy_words put_utilization utilization)"

definition UpdateDeviceMemory :: "u64 \<Rightarrow> u32 \<Rightarrow> u64 \<Rightarrow> u64 \<Rightarrow> u64 \<Rightarrow> MonitorSharedMemory \<Rightarrow> store list" where
  "UpdateDeviceMemory now d tot used free =
     update_device now d [\<lambda>x. x\<lparr>md_memory_total := tot\<rparr>, \<lambda>x. x\<lparr>md_memory_used := used\<rparr>, \<lambda>x. x\<lparr>md_memory_free := free\<rparr>]"

definition UpdateDeviceSpec :: "u64 \<Rightarrow> u32 \<Rightarrow> u32 list \<Rightarrow> u32 list \<Rightarrow> MonitorSharedMemory \<Rightarrow> store list" where
  "UpdateDeviceSpec now d spec devInfo = update_device now d (copy_words put_spec spec @ copy_words put_dev_info devInfo)"

definition UpdateDeviceFullStatus :: "u64 \<Rightarrow> u32 \<Rightarrow> u32 list \<Rightarrow> u32 list \<Rightarrow> u32 list \<Rightarrow> u32 list \<Rightarrow> MonitorSharedMemory \<Rightarrow> store list" where
  "UpdateDeviceFullStatus now d voltage clock temperature rest =
     update_device now d (copy_words put_voltage voltage @ copy_words put_clock clock @ copy_words put_temperature temperature
       @ copy_words put_status_rest rest)"

definition UpdateDeviceCoreStats :: "u64 \<Rightarrow> u32 \<Rightarrow> u32 list \<Rightarrow> u32 list \<Rightarrow> u32 list \<Rightarrow> MonitorSharedMemory \<Rightarrow> store list" where
  "UpdateDeviceCoreStats now d voltage clock temperature =
     update_device now d (copy_words put_voltage voltage @ copy_words put_clock clock @ copy_words put_temperature temperature
       @ [put_voltage 3 0, put_clock 3 0, put_temperature 3 0])"

definition SetDeviceActive :: "u64 \<Rightarrow> u32 \<Rightarrow> bool \<Rightarrow> MonitorSharedMemory \<Rightarrow> store list" where
  "SetDeviceActive now d active = update_device now d [\<lambda>x. x\<lparr>md_is_active := active\<rparr>]"

definition IncrementInferenceCount :: "u64 \<Rightarrow> u32 \<Rightarrow> MonitorSharedMemory \<Rightarrow> store list" where
  "IncrementInferenceCount now d = update_device now d [\<lambda>x. x\<lparr>md_inference_count := md_inference_count x + 1\<rparr>]"

text \<open>The stores of \<open>Cleanup\<close>; structures are reset word by word.\<close>

definition cleanup_device :: "MonitorDeviceData \<Rightarrow> (MonitorDeviceData \<Rightarrow> MonitorDeviceData) list" where
  "cleanup_device x =
     [\<lambda>x. x\<lparr>md_is_active := False\<rparr>] @ copy_words put_utilization [0, 0, 0] @
     [\<lambda>x. x\<lparr>md_memory_used := 0\<rparr>, \<lambda>x. x\<lparr>md_memory_free := md_memory_total x\<rparr>] @
     copy_words put_spec (replicate (length (md_spec x)) 0) @ copy_words put_dev_info (replicate (length (md_dev_info x)) 0) @
     copy_words put_voltage (replicate (length (md_voltage x)) 0) @ copy_words put_clock (replicate (length (md_clock x)) 0) @
     copy_words put_temperature (replicate (length (md_temperature x)) 0) @
     copy_words put_status_rest (replicate (length (md_status_rest x)) 0)"

definition Cleanup :: "u64 \<Rightarrow> MonitorSharedMemory \<Rightarrow> store list" where
  "Cleanup now m =
     [BeginWrite] @ (concat (map (\<lambda>i. map (set_device i) (cleanup_device (sm_devices m ! i))) [0..<unat (sm_device_count m)]) @
       [\<lambda>m. m\<lparr>sm_writer_pid := 0\<rparr>, \<lambda>m. m\<lparr>sm_last_update_timestamp := now\<rparr>]) @ [EndWrite]"

datatype monitor_op =
  Op_Utilization u64 u32 "u64 list"
| Op_Memory u64 u32 u64 u64 u64
| Op_Spec u64 u32 "u32 list" "u32 list"
| Op_FullStatus u64 u32 "u32 list" "u32 list" "u32 list" "u32 list"
| Op_CoreStats u64 u32 "u32 list" "u32 list" "u32 list"
| Op_Active u64 u32 bool
| Op_Inference u64 u32
| Op_Cleanup u64

fun op_stores :: "monitor_op \<Rightarrow> MonitorSharedMemory \<Rightarrow> store list" where
  "op_stores (Op_Utilization now d us) = UpdateDeviceUtilization now d us"
| "op_stores (Op_Memory now d t u f) = UpdateDeviceMemory now d t u f"
| "op_stores (Op_Spec now d s i) = UpdateDeviceSpec now d s i"
| "op_stores (Op_FullStatus now d v c t r) = UpdateDeviceFullStatus now d v c t r"
| "op_stores (Op_CoreStats now d v c t) = UpdateDeviceCoreStats now d v c t"
| "op_stores (Op_Active now d b) = SetDeviceActive now d b"
| "op_stores (Op_Inference now d) = IncrementInferenceCount now d"
| "op_stores (Op_Cleanup now) = Cleanup now"

fun op_device :: "monitor_op \<Rightarrow> u32 option" where
  "op_device (Op_Utilization now d us) = Some d"
| "op_device (Op_Memory now d t u f) = Some d"
| "op_device (Op_Spec now d s i) = Some d"
| "op_device (Op_FullStatus now d v c t r) = Some d"
| "op_device (Op_CoreStats now d v c t) = Some d"
| "op_device (Op_Active now d b) = Some d"
| "op_device (Op_Inference now d) = Some d"
| "op_device (Op_Cleanup now) = None"

text \<open>Stores one after the other, and an operation that runs alone.\<close>

definition do_stores :: "('m \<Rightarrow> 'm) list \<Rightarrow> 'm \<Rightarrow> 'm" where
  "do_stores fs m = fold (\<lambda>f. f) fs m"

definition run_op :: "('op \<Rightarrow> 'm \<Rightarrow> ('m \<Rightarrow> 'm) list) \<Rightarrow> 'op \<Rightarrow> 'm \<Rightarrow> 'm" where
  "run_op stores op m = do_stores (stores op m) m"

section \<open>The reader\<close>

text \<open>A program that loads cells one at a time and goes on with their values.\<close>

datatype ('m, 'v, 'r) loads = Ret 'r | Load "'m \<Rightarrow> 'v" "'v \<Rightarrow> ('m, 'v, 'r) loads"

primrec run_loads :: "('m, 'v, 'r) loads \<Rightarrow> 'm \<Rightarrow> 'r" where
  "run_loads (Ret x) m = x"
| "run_loads (Load f k) m = run_loads (k (f m)) m"

primrec then_loads :: "('m, 'v, 'q) loads \<Rightarrow> ('q \<Rightarrow> ('m, 'v, 'r) loads) \<Rightarrow> ('m, 'v, 'r) loads" where
  "then_loads (Ret x) g = g x"
| "then_loads (Load f k) g = Load f (\<lambda>v. then_loads (k v) g)"

lemma run_then_loads [simp]: "run_loads (then_loads p g) m = run_loads (g (run_loads p m)) m"
  by (induction p) auto

datatype monitor_cell = C32 u32 | C64 u64 | CFlag bool | CWords "u32 list" | CUtil "u64 list"

fun c32 :: "monitor_cell \<Rightarrow> u32" where
  "c32 (C32 x) = x" | "c32 _ = 0"

type_synonym 'r monitor_loads = "(MonitorSharedMemory, monitor_cell, 'r) loads"

text \<open>
  The copy of an entry is an assignment of structures, whose loads the language does not order: it is
  the argument \<open>copy\<close>. The loop of \<open>ReadDeviceData\<close> loads the number of devices in every turn.
\<close>

primrec scan_devices :: "(nat \<Rightarrow> MonitorDeviceData monitor_loads) \<Rightarrow> u32 \<Rightarrow> nat \<Rightarrow> nat \<Rightarrow> MonitorDeviceData option monitor_loads" where
  "scan_devices copy d 0 i = Ret None"
| "scan_devices copy d (Suc n) i =
     Load (\<lambda>m. C32 (sm_device_count m)) (\<lambda>c. if i < unat (c32 c) then
       Load (\<lambda>m. C32 (md_device_id (sm_devices m ! i))) (\<lambda>v. if c32 v = d then then_loads (copy i) (\<lambda>x. Ret (Some x)) else scan_devices copy d n (Suc i))
     else Ret None)"

definition ReadDeviceData_loads :: "(nat \<Rightarrow> MonitorDeviceData monitor_loads) \<Rightarrow> u32 \<Rightarrow> MonitorDeviceData option monitor_loads" where
  "ReadDeviceData_loads copy d = scan_devices copy d (Suc MAX_MONITOR_DEVICES) 0"

primrec copy_devices :: "(nat \<Rightarrow> MonitorDeviceData monitor_loads) \<Rightarrow> nat \<Rightarrow> nat \<Rightarrow> MonitorDeviceData list monitor_loads" where
  "copy_devices copy 0 i = Ret []"
| "copy_devices copy (Suc n) i = then_loads (copy i) (\<lambda>x. then_loads (copy_devices copy n (Suc i)) (\<lambda>xs. Ret (x # xs)))"

definition GetAllDevices_loads :: "(nat \<Rightarrow> MonitorDeviceData monitor_loads) \<Rightarrow> u32 \<Rightarrow> MonitorDeviceData list monitor_loads" where
  "GetAllDevices_loads copy maxCount =
     Load (\<lambda>m. C32 (sm_device_count m)) (\<lambda>c. copy_devices copy (unat (if maxCount < c32 c then maxCount else c32 c)) 0)"

definition MAX_SEQLOCK_RETRIES :: nat where
  "MAX_SEQLOCK_RETRIES = 1000"

text \<open>
  The loop around the copy. \<open>Start retries\<close>: about to load the counter; \<open>Copy seq1 p\<close>: the loads \<open>p\<close> are left
  before the counter is loaded again; \<open>Gave_up\<close>: too many turns with an odd counter.
\<close>

datatype ('m, 'v, 'r) reader = Start nat | Copy u64 "('m, 'v, 'r) loads" | Gave_up | Read 'r

fun reader_step :: "('m \<Rightarrow> u64) \<Rightarrow> ('m, 'v, 'r) loads \<Rightarrow> 'm \<Rightarrow> ('m, 'v, 'r) reader \<Rightarrow> ('m, 'v, 'r) reader" where
  "reader_step seq p m (Start retries) =
     (if bit (seq m) 0 then (if MAX_SEQLOCK_RETRIES < retries + 1 then Gave_up else Start (retries + 1)) else Copy (seq m) p)"
| "reader_step seq p m (Copy seq1 (Load f k)) = Copy seq1 (k (f m))"
| "reader_step seq p m (Copy seq1 (Ret x)) = (if seq m = seq1 then Read x else Start 0)"
| "reader_step seq p m Gave_up = Gave_up"
| "reader_step seq p m (Read x) = Read x"

text \<open>
  The loop of \<open>GetDeviceCount\<close> is of its own: its \<^verbatim>\<open>continue\<close> goes to the test \<^verbatim>\<open>seq1 != seq2\<close> at the end of the loop,
  with \<open>seq2\<close> of an earlier turn. \<open>Count_start retries seq2 count\<close>: about to load the counter; \<open>Count_load seq1\<close>: about to load the
  number of devices; \<open>Count_check seq1 count\<close>: about to load the counter again.
\<close>

datatype count_reader = Count_start nat u64 u32 | Count_load u64 | Count_check u64 u32 | Count_return u32

fun GetDeviceCount_step :: "MonitorSharedMemory \<Rightarrow> count_reader \<Rightarrow> count_reader" where
  "GetDeviceCount_step m (Count_start retries seq2 cnt) =
     (if bit (sm_sequence m) 0 then
        (if MAX_SEQLOCK_RETRIES < retries + 1 then Count_return 0
         else if sm_sequence m \<noteq> seq2 then Count_start (retries + 1) seq2 cnt else Count_return cnt)
      else Count_load (sm_sequence m))"
| "GetDeviceCount_step m (Count_load seq1) = Count_check seq1 (sm_device_count m)"
| "GetDeviceCount_step m (Count_check seq1 cnt) =
     (if seq1 \<noteq> sm_sequence m then Count_start 0 (sm_sequence m) cnt else Count_return cnt)"
| "GetDeviceCount_step m (Count_return cnt) = Count_return cnt"

section \<open>Interleavings\<close>

text \<open>
  One writer and one reader. \<open>mo_todo\<close> are the stores left of the operation of the writer, \<open>mo_done\<close> the operations
  that are complete.
\<close>

record ('op, 'm, 'v, 'r) monitor =
  mo_shm :: 'm
  mo_op :: "'op option"
  mo_todo :: "('m \<Rightarrow> 'm) list"
  mo_done :: "'op list"
  mo_reader :: "('m, 'v, 'r) reader"

inductive monitor_step ::
  "('m \<Rightarrow> u64) \<Rightarrow> ('op \<Rightarrow> 'm \<Rightarrow> ('m \<Rightarrow> 'm) list) \<Rightarrow> ('op \<Rightarrow> 'm \<Rightarrow> bool) \<Rightarrow> ('m, 'v, 'r) loads
     \<Rightarrow> ('op, 'm, 'v, 'r) monitor \<Rightarrow> ('op, 'm, 'v, 'r) monitor \<Rightarrow> bool"
  for seq :: "'m \<Rightarrow> u64" and stores :: "'op \<Rightarrow> 'm \<Rightarrow> ('m \<Rightarrow> 'm) list" and ok :: "'op \<Rightarrow> 'm \<Rightarrow> bool" and p :: "('m, 'v, 'r) loads" where
  call: "mo_op c = None \<Longrightarrow> ok op (mo_shm c) \<Longrightarrow> monitor_step seq stores ok p c (c\<lparr>mo_op := Some op, mo_todo := stores op (mo_shm c)\<rparr>)"
| store: "mo_todo c = f # fs \<Longrightarrow> monitor_step seq stores ok p c (c\<lparr>mo_shm := f (mo_shm c), mo_todo := fs\<rparr>)"
| return: "mo_op c = Some op \<Longrightarrow> mo_todo c = [] \<Longrightarrow> monitor_step seq stores ok p c (c\<lparr>mo_op := None, mo_done := mo_done c @ [op]\<rparr>)"
| reader: "monitor_step seq stores ok p c (c\<lparr>mo_reader := reader_step seq p (mo_shm c) (mo_reader c)\<rparr>)"

definition monitor_start :: "'m \<Rightarrow> ('op, 'm, 'v, 'r) monitor" where
  "monitor_start m = \<lparr>mo_shm = m, mo_op = None, mo_todo = [], mo_done = [], mo_reader = Start 0\<rparr>"

section \<open>Reads are atomic\<close>

text \<open>
  What the loop of the reader needs of a writer: an operation that may be called starts with a store that increments the
  counter, ends with one, and leaves the counter alone in between. The laws hold for stores of any memory.
\<close>

locale seqlock =
  fixes seq :: "'m \<Rightarrow> u64" and stores :: "'op \<Rightarrow> 'm \<Rightarrow> ('m \<Rightarrow> 'm) list" and ok :: "'op \<Rightarrow> 'm \<Rightarrow> bool"
  assumes bracketed: "ok op m \<Longrightarrow> \<exists>b body e. stores op m = b # body @ [e] \<and> (\<forall>x. seq (b x) = seq x + 1) \<and>
      (\<forall>x. seq (e x) = seq x + 1) \<and> (\<forall>f \<in> set body. \<forall>x. seq (f x) = seq x)"
begin

definition after :: "'m \<Rightarrow> 'op list \<Rightarrow> 'm" where
  "after m ops = fold (run_op stores) ops m"

lemma after_simps [simp]: "after m [] = m" "after m (ops @ [op]) = do_stores (stores op (after m ops)) (after m ops)"
  by (simp_all add: after_def run_op_def)

text \<open>The counter within an operation: even outside, odd inside.\<close>

lemma seq_body: "\<forall>f \<in> set fs. \<forall>x. seq (f x) = seq x \<Longrightarrow> seq (do_stores fs m) = seq m"
  by (induction fs arbitrary: m) (auto simp: do_stores_def)

lemma seq_within:
  assumes "ok op m" "stores op m = pre @ todo"
  shows "seq (do_stores pre m) = seq m + (if pre = [] then 0 else if todo = [] then 2 else 1)"
proof -
  obtain b body e where st: "stores op m = b # body @ [e]" and s: "\<forall>x. seq (b x) = seq x + 1" "\<forall>x. seq (e x) = seq x + 1"
      "\<forall>f \<in> set body. \<forall>x. seq (f x) = seq x" using bracketed [OF assms(1)] by blast
  show ?thesis
  proof (cases pre)
    case Nil
    then show ?thesis by (simp add: do_stores_def)
  next
    case (Cons f fs)
    then have f: "f = b" "fs @ todo = body @ [e]" using assms(2) st by auto
    show ?thesis
    proof (cases todo rule: rev_cases)
      case Nil
      then have "fs = body @ [e]" using f(2) by simp
      with Cons f(1) Nil s seq_body [OF s(3)] show ?thesis by (simp add: do_stores_def)
    next
      case (snoc ys y)
      then have "set fs \<subseteq> set body" using f(2) by (metis append_assoc butlast_snoc set_append sup_ge1)
      then have "seq (do_stores fs (b m)) = seq (b m)" using s(3) by (intro seq_body) auto
      with Cons f(1) snoc s(1) show ?thesis by (simp add: do_stores_def)
    qed
  qed
qed

text \<open>The operations whose stores are all made.\<close>

definition fin :: "('op, 'm, 'v, 'r) monitor \<Rightarrow> 'op list" where
  "fin c = mo_done c @ (case mo_op c of Some op \<Rightarrow> if mo_todo c = [] then [op] else [] | None \<Rightarrow> [])"

text \<open>
  The invariant: the memory is that after the complete operations and a part of the current one; a
  reader that copies has seen the counter of some number of complete operations, and as long as the
  counter stays what it is, the rest of its loads gives what all of them would give now.
\<close>

definition writer_inv :: "'m \<Rightarrow> ('op, 'm, 'v, 'r) monitor \<Rightarrow> bool" where
  "writer_inv m0 c \<longleftrightarrow> seq (after m0 (mo_done c)) = seq m0 + of_nat (2 * length (mo_done c)) \<and>
     (case mo_op c of
        None \<Rightarrow> mo_todo c = [] \<and> mo_shm c = after m0 (mo_done c)
      | Some op \<Rightarrow> ok op (after m0 (mo_done c)) \<and>
          (\<exists>pre. stores op (after m0 (mo_done c)) = pre @ mo_todo c \<and> mo_shm c = do_stores pre (after m0 (mo_done c))))"

definition reader_inv :: "('m, 'v, 'r) loads \<Rightarrow> 'm \<Rightarrow> ('op, 'm, 'v, 'r) monitor \<Rightarrow> bool" where
  "reader_inv p m0 c \<longleftrightarrow>
     (case mo_reader c of
        Copy seq1 q \<Rightarrow> \<exists>n \<le> length (fin c). seq1 = seq m0 + of_nat (2 * n) \<and>
          (n = length (fin c) \<and> seq (mo_shm c) = seq1 \<longrightarrow> run_loads q (mo_shm c) = run_loads p (mo_shm c))
      | Read x \<Rightarrow> \<exists>ops. prefix ops (fin c) \<and> x = run_loads p (after m0 ops)
      | _ \<Rightarrow> True)"

text \<open>The counter tells how many operations are complete and whether one is under way.\<close>

lemma writer_seq:
  assumes "writer_inv m0 c"
  shows "mo_shm c = after m0 (fin c) \<and> seq (mo_shm c) = seq m0 + of_nat (2 * length (fin c)) \<or>
    seq (mo_shm c) = seq m0 + of_nat (2 * length (fin c)) + 1"
proof (cases "mo_op c")
  case None
  with assms show ?thesis by (simp add: writer_inv_def fin_def)
next
  case (Some op)
  with assms obtain pre where p: "ok op (after m0 (mo_done c))" "stores op (after m0 (mo_done c)) = pre @ mo_todo c"
    "mo_shm c = do_stores pre (after m0 (mo_done c))" by (auto simp: writer_inv_def)
  have s: "seq (after m0 (mo_done c)) = seq m0 + of_nat (2 * length (mo_done c))" using assms by (simp add: writer_inv_def)
  note w = seq_within [OF p(1,2)]
  show ?thesis
  proof (cases "mo_todo c = []")
    case True
    moreover have "pre \<noteq> []" using p(1,2) True bracketed by fastforce
    ultimately show ?thesis using w s Some p by (auto simp: fin_def algebra_simps)
  next
    case False
    with w s Some p show ?thesis by (cases "pre = []") (auto simp: fin_def do_stores_def)
  qed
qed

lemma writer_start: "writer_inv m0 (monitor_start m0)"
  by (simp add: writer_inv_def monitor_start_def)

lemma writer_step:
  assumes "monitor_step seq stores ok p c c'" "writer_inv m0 c"
  shows "writer_inv m0 c'" "prefix (fin c) (fin c')"
    "length (fin c') = length (fin c) \<Longrightarrow> mo_shm c' = mo_shm c \<or> seq (mo_shm c') = seq m0 + of_nat (2 * length (fin c')) + 1"
proof -
  have "writer_inv m0 c' \<and> prefix (fin c) (fin c') \<and>
    (length (fin c') = length (fin c) \<longrightarrow> mo_shm c' = mo_shm c \<or> seq (mo_shm c') = seq m0 + of_nat (2 * length (fin c')) + 1)"
    using assms
  proof (cases rule: monitor_step.cases)
    case (call op)
    with assms(2) bracketed [of op "mo_shm c"] show ?thesis by (auto simp: writer_inv_def fin_def do_stores_def)
  next
    case (store f fs)
    then obtain op pre where o: "mo_op c = Some op" "ok op (after m0 (mo_done c))" "stores op (after m0 (mo_done c)) = pre @ f # fs"
      "mo_shm c = do_stores pre (after m0 (mo_done c))" using assms(2) by (auto simp: writer_inv_def split: option.splits)
    then have sh: "mo_shm c' = do_stores (pre @ [f]) (after m0 (mo_done c))" "stores op (after m0 (mo_done c)) = (pre @ [f]) @ fs"
      using store by (simp_all add: do_stores_def)
    have w: "writer_inv m0 c'" using assms(2) store o sh by (auto simp: writer_inv_def intro!: exI [of _ "pre @ [f]"])
    have "seq (mo_shm c') = seq m0 + of_nat (2 * length (mo_done c)) + (if fs = [] then 2 else 1)"
      using seq_within [OF o(2) sh(2)] sh(1) assms(2) by (simp add: writer_inv_def)
    with w store o(1) show ?thesis by (auto simp: fin_def)
  next
    case (return op)
    with assms(2) obtain pre where "ok op (after m0 (mo_done c))" "stores op (after m0 (mo_done c)) = pre"
      "mo_shm c = do_stores pre (after m0 (mo_done c))" by (auto simp: writer_inv_def)
    moreover from this have "seq (mo_shm c) = seq m0 + of_nat (2 * length (mo_done c)) + 2"
      using seq_within [of op "after m0 (mo_done c)" pre "[]"] assms(2) bracketed by (fastforce simp: writer_inv_def)
    ultimately show ?thesis using return by (auto simp: writer_inv_def fin_def algebra_simps)
  next
    case reader
    with assms(2) show ?thesis by (cases "mo_op c") (simp_all add: writer_inv_def fin_def)
  qed
  then show "writer_inv m0 c'" "prefix (fin c) (fin c')"
    "length (fin c') = length (fin c) \<Longrightarrow> mo_shm c' = mo_shm c \<or> seq (mo_shm c') = seq m0 + of_nat (2 * length (fin c')) + 1" by auto
qed

lemma count_no_wrap:
  assumes "n \<le> k" "k < 2 ^ 63" "(s :: u64) + of_nat (2 * n) = s + of_nat (2 * k) + of_nat d" "d \<le> 1"
  shows "n = k \<and> d = 0"
proof -
  have "of_nat (2 * n) = (of_nat (2 * k + d) :: u64)" using assms(3) by (simp add: algebra_simps)
  moreover have "unat (of_nat (2 * n) :: u64) = 2 * n" by (rule unat_of_nat_small) (use assms(1,2) in simp)
  moreover have "unat (of_nat (2 * k + d) :: u64) = 2 * k + d" by (rule unat_of_nat_small) (use assms(2,4) in simp)
  ultimately have "2 * n = 2 * k + d" by metis
  with assms(1,4) show ?thesis by presburger
qed

lemma reader_step_inv:
  assumes "writer_inv m0 c" "reader_inv p m0 c" "even (seq m0)" "length (fin c) < 2 ^ 63"
  shows "reader_inv p m0 (c\<lparr>mo_reader := reader_step seq p (mo_shm c) (mo_reader c)\<rparr>)"
proof -
  have fin: "fin (c\<lparr>mo_reader := r\<rparr>) = fin c" for r by (cases "mo_op c") (simp_all add: fin_def)
  note w = writer_seq [OF assms(1)]
  show ?thesis
  proof (cases "mo_reader c")
    case (Start k)
    have "\<not> odd (seq (mo_shm c)) \<Longrightarrow> seq (mo_shm c) = seq m0 + of_nat (2 * length (fin c))"
      using w assms(3) by auto
    with Start show ?thesis by (auto simp: reader_inv_def fin bit_0)
  next
    case (Copy seq1 q)
    with assms(2) obtain n where n: "n \<le> length (fin c)" "seq1 = seq m0 + of_nat (2 * n)"
      "n = length (fin c) \<and> seq (mo_shm c) = seq1 \<longrightarrow> run_loads q (mo_shm c) = run_loads p (mo_shm c)" by (auto simp: reader_inv_def)
    show ?thesis
    proof (cases q)
      case (Load f k)
      with Copy n show ?thesis by (auto simp: reader_inv_def fin)
    next
      case (Ret x)
      have "n = length (fin c) \<and> mo_shm c = after m0 (fin c)" if "seq (mo_shm c) = seq1"
        using w that n(2) count_no_wrap [OF n(1) assms(4), of "seq m0" 0] count_no_wrap [OF n(1) assms(4), of "seq m0" 1] by auto
      with Copy Ret n show ?thesis by (auto simp: reader_inv_def fin)
    qed
  next
    case Gave_up
    then show ?thesis by (simp add: reader_inv_def)
  next
    case (Read x)
    with assms(2) show ?thesis by (simp add: reader_inv_def fin)
  qed
qed

lemma reader_inv_writer:
  assumes "reader_inv p m0 c" "mo_reader c' = mo_reader c" "prefix (fin c) (fin c')"
    "length (fin c') = length (fin c) \<Longrightarrow> mo_shm c' = mo_shm c \<or> seq (mo_shm c') = seq m0 + of_nat (2 * length (fin c')) + 1"
  shows "reader_inv p m0 c'"
proof (cases "mo_reader c")
  case (Copy seq1 q)
  with assms(1) obtain n where n: "n \<le> length (fin c)" "seq1 = seq m0 + of_nat (2 * n)"
    "n = length (fin c) \<and> seq (mo_shm c) = seq1 \<longrightarrow> run_loads q (mo_shm c) = run_loads p (mo_shm c)" by (auto simp: reader_inv_def)
  have le: "length (fin c) \<le> length (fin c')" using assms(3) by (rule prefix_length_le)
  have "run_loads q (mo_shm c') = run_loads p (mo_shm c')" if "n = length (fin c')" "seq (mo_shm c') = seq1"
    using that n le assms(4) by auto
  then have "\<exists>n \<le> length (fin c'). seq1 = seq m0 + of_nat (2 * n) \<and>
      (n = length (fin c') \<and> seq (mo_shm c') = seq1 \<longrightarrow> run_loads q (mo_shm c') = run_loads p (mo_shm c'))"
    using n(1,2) le by (intro exI [of _ n]) simp
  with Copy assms(2) show ?thesis by (simp add: reader_inv_def)
next
  case (Read x)
  with assms(1-3) show ?thesis by (auto simp: reader_inv_def intro: prefix_order.trans)
qed (use assms(2) in \<open>simp_all add: reader_inv_def\<close>)

theorem read_atomic:
  assumes "(monitor_step seq stores ok p)\<^sup>*\<^sup>* (monitor_start m0) c" "even (seq m0)" "length (fin c) < 2 ^ 63" "mo_reader c = Read x"
  shows "\<exists>ops. prefix ops (fin c) \<and> x = run_loads p (after m0 ops)"
proof -
  have "writer_inv m0 c \<and> (length (fin c) < 2 ^ 63 \<longrightarrow> reader_inv p m0 c)"
    using assms(1)
  proof (induction rule: rtranclp_induct)
    case base
    show ?case by (simp add: writer_start) (simp add: reader_inv_def monitor_start_def)
  next
    case (step c c')
    note w = writer_step [OF step.hyps(2), of m0]
    have "length (fin c) \<le> length (fin c')" using w(2) step.IH by (blast intro: prefix_length_le)
    moreover have "reader_inv p m0 c'" if "reader_inv p m0 c" "length (fin c) < 2 ^ 63"
      using step.hyps(2)
    proof (cases rule: monitor_step.cases)
      case reader
      then show ?thesis using reader_step_inv [OF _ that(1) assms(2) that(2)] step.IH by simp
    qed (use w step.IH reader_inv_writer [OF that(1)] in auto)
    ultimately show ?case using w(1) step.IH by auto
  qed
  with assms(3,4) show ?thesis by (simp add: reader_inv_def)
qed

text \<open>An operation that is not disturbed completes, and so does a read: at once when the counter is even.\<close>

lemma stores_complete:
  "mo_todo c = fs \<Longrightarrow> (monitor_step seq stores ok p)\<^sup>*\<^sup>* c (c\<lparr>mo_shm := do_stores fs (mo_shm c), mo_todo := []\<rparr>)"
proof (induction fs arbitrary: c)
  case (Cons f fs)
  have "monitor_step seq stores ok p c (c\<lparr>mo_shm := f (mo_shm c), mo_todo := fs\<rparr>)" using Cons.prems by (rule monitor_step.store)
  with Cons.IH [of "c\<lparr>mo_shm := f (mo_shm c), mo_todo := fs\<rparr>"] show ?case
    by (auto simp: do_stores_def intro: converse_rtranclp_into_rtranclp)
next
  case Nil
  then show ?case by (cases c) (simp add: do_stores_def)
qed

lemma op_completes:
  assumes "mo_op c = None" "ok op (mo_shm c)"
  shows "(monitor_step seq stores ok p)\<^sup>*\<^sup>* c (c\<lparr>mo_shm := run_op stores op (mo_shm c), mo_todo := [], mo_op := None, mo_done := mo_done c @ [op]\<rparr>)"
proof -
  let ?c1 = "c\<lparr>mo_op := Some op, mo_todo := stores op (mo_shm c)\<rparr>"
  let ?c2 = "?c1\<lparr>mo_shm := do_stores (stores op (mo_shm c)) (mo_shm c), mo_todo := []\<rparr>"
  have "monitor_step seq stores ok p c ?c1" using assms by (rule monitor_step.call)
  also have "(monitor_step seq stores ok p)\<^sup>*\<^sup>* ?c1 ?c2" using stores_complete [of ?c1 "stores op (mo_shm c)"] by simp
  also have "monitor_step seq stores ok p ?c2 (?c2\<lparr>mo_op := None, mo_done := mo_done ?c2 @ [op]\<rparr>)" by (rule monitor_step.return) simp_all
  finally show ?thesis using assms(1) by (simp add: run_op_def)
qed

lemma copy_completes:
  "mo_reader c = Copy (seq (mo_shm c)) q \<Longrightarrow> (monitor_step seq stores ok p)\<^sup>*\<^sup>* c (c\<lparr>mo_reader := Read (run_loads q (mo_shm c))\<rparr>)"
proof (induction q arbitrary: c)
  case (Ret x)
  then show ?case using monitor_step.reader [of seq stores ok p c] by auto
next
  case (Load f k)
  let ?c1 = "c\<lparr>mo_reader := Copy (seq (mo_shm c)) (k (f (mo_shm c)))\<rparr>"
  have "monitor_step seq stores ok p c ?c1" using Load.prems monitor_step.reader [of seq stores ok p c] by simp
  with Load.IH [OF rangeI, of ?c1 "f (mo_shm c)"] show ?case by (auto intro: converse_rtranclp_into_rtranclp)
qed

lemma read_completes:
  assumes "mo_reader c = Start k" "even (seq (mo_shm c))"
  shows "(monitor_step seq stores ok p)\<^sup>*\<^sup>* c (c\<lparr>mo_reader := Read (run_loads p (mo_shm c))\<rparr>)"
proof -
  have "monitor_step seq stores ok p c (c\<lparr>mo_reader := Copy (seq (mo_shm c)) p\<rparr>)"
    using assms monitor_step.reader [of seq stores ok p c] by (simp add: bit_0)
  with copy_completes [of "c\<lparr>mo_reader := Copy (seq (mo_shm c)) p\<rparr>" p] show ?thesis
    by (auto intro: converse_rtranclp_into_rtranclp)
qed

text \<open>A writer that died within an operation: the reader gives up after a bounded number of turns.\<close>

lemma reader_gives_up:
  assumes "odd (seq m)"
  shows "(reader_step seq p m ^^ Suc MAX_SEQLOCK_RETRIES) (Start 0) = Gave_up"
proof -
  have "(reader_step seq p m ^^ k) (Start 0) = Start k" if "k \<le> MAX_SEQLOCK_RETRIES" for k
    using that by (induction k) (auto simp: assms bit_0)
  then show ?thesis by (simp add: assms bit_0)
qed

end

section \<open>The monitor\<close>

definition op_registered :: "monitor_op \<Rightarrow> MonitorSharedMemory \<Rightarrow> bool" where
  "op_registered op m = (case op_device op of None \<Rightarrow> True | Some d \<Rightarrow> find_device d m \<noteq> None)"

lemma set_device_simps [simp]: "sm_sequence (set_device i f m) = sm_sequence m" "sm_device_count (set_device i f m) = sm_device_count m"
  by (simp_all add: set_device_def)

lemma bracket_simps [simp]: "sm_sequence (BeginWrite m) = sm_sequence m + 1" "sm_sequence (EndWrite m) = sm_sequence m + 1"
  "sm_device_count (BeginWrite m) = sm_device_count m" "sm_device_count (EndWrite m) = sm_device_count m"
  by (simp_all add: BeginWrite_def EndWrite_def)

lemmas monitor_ops = UpdateDeviceUtilization_def UpdateDeviceMemory_def UpdateDeviceSpec_def UpdateDeviceFullStatus_def
  UpdateDeviceCoreStats_def SetDeviceActive_def IncrementInferenceCount_def

text \<open>Every operation is an update of one device, or the cleanup.\<close>

lemma op_stores_cases:
  obtains (update) now d body where "op_device op = Some d" "op_stores op m = update_device now d body m"
  | (cleanup) now where "op_device op = None" "op_stores op m = Cleanup now m"
  by (cases op) (auto simp: monitor_ops)

lemma update_device_registered:
  assumes "find_device d m = Some i"
  shows "update_device now d body m = BeginWrite # (map (set_device i) body @ UpdateTimestamp now) @ [EndWrite]"
  using assms by (simp add: update_device_def GetDeviceData_def)

interpretation monitor: seqlock sm_sequence op_stores op_registered
proof
  fix op m
  assume reg: "op_registered op m"
  have "\<exists>body. op_stores op m = BeginWrite # body @ [EndWrite] \<and> (\<forall>f \<in> set body. \<forall>x. sm_sequence (f x) = sm_sequence x)"
  proof (cases rule: op_stores_cases [of op m])
    case (update now d body)
    then obtain i where "find_device d m = Some i" using reg by (auto simp: op_registered_def)
    from update_device_registered [OF this] update show ?thesis by (fastforce simp: UpdateTimestamp_def)
  next
    case (cleanup now)
    then show ?thesis by (fastforce simp: Cleanup_def)
  qed
  then show "\<exists>b body e. op_stores op m = b # body @ [e] \<and> (\<forall>x. sm_sequence (b x) = sm_sequence x + 1) \<and>
      (\<forall>x. sm_sequence (e x) = sm_sequence x + 1) \<and> (\<forall>f \<in> set body. \<forall>x. sm_sequence (f x) = sm_sequence x)"
    by (metis bracket_simps(1,2))
qed

text \<open>The table never overflows, also when devices are added.\<close>

lemma do_stores_count: "\<forall>f \<in> set fs. \<forall>x. sm_device_count (f x) = sm_device_count x \<Longrightarrow> sm_device_count (do_stores fs m) = sm_device_count m"
  by (induction fs arbitrary: m) (auto simp: do_stores_def)

lemma do_stores_append [simp]: "do_stores (fs @ gs) m = do_stores gs (do_stores fs m)"
  by (simp add: do_stores_def)

lemma run_op_count:
  assumes "unat (sm_device_count m) \<le> MAX_MONITOR_DEVICES"
  shows "unat (sm_device_count (run_op op_stores op m)) \<le> MAX_MONITOR_DEVICES"
proof (cases rule: op_stores_cases [of op m])
  case (update now d body)
  show ?thesis
  proof (cases "GetDeviceData d m")
    case None
    with update assms show ?thesis by (simp add: run_op_def update_device_def do_stores_def)
  next
    case (Some r)
    then obtain i add where r: "GetDeviceData d m = Some (i, add)" by (cases r) simp
    have "unat (sm_device_count (do_stores add m)) \<le> MAX_MONITOR_DEVICES"
    proof (cases "find_device d m")
      case None
      with r have lt: "unat (sm_device_count m) < MAX_MONITOR_DEVICES" by (simp add: GetDeviceData_def split: if_splits)
      then have "unat (sm_device_count m + 1) = unat (sm_device_count m) + 1"
        by (simp add: MAX_MONITOR_DEVICES_def unat_word_ariths)
      with None r lt show ?thesis by (auto simp: GetDeviceData_def do_stores_def Let_def)
    next
      case (Some k)
      with r assms show ?thesis by (auto simp: GetDeviceData_def do_stores_def)
    qed
    moreover have "op_stores op m = add @ (BeginWrite # (map (set_device i) body @ UpdateTimestamp now) @ [EndWrite])"
      using update r by (simp add: update_device_def)
    moreover have "sm_device_count (do_stores (BeginWrite # (map (set_device i) body @ UpdateTimestamp now) @ [EndWrite]) x) = sm_device_count x" for x
      by (rule do_stores_count) (auto simp: UpdateTimestamp_def)
    ultimately show ?thesis by (simp only: run_op_def do_stores_append)
  qed
next
  case (cleanup now)
  have "sm_device_count (do_stores (Cleanup now m) m) = sm_device_count m" by (rule do_stores_count) (auto simp: Cleanup_def)
  with cleanup assms show ?thesis by (simp add: run_op_def)
qed

lemma after_count:
  "unat (sm_device_count m) \<le> MAX_MONITOR_DEVICES \<Longrightarrow> unat (sm_device_count (fold (run_op op_stores) ops m)) \<le> MAX_MONITOR_DEVICES"
  by (induction ops arbitrary: m) (auto intro: run_op_count)

text \<open>What the loads of the reader mean when nothing else runs.\<close>

lemma run_scan:
  assumes copy: "\<And>i. run_loads (copy i) m = sm_devices m ! i" and "unat (sm_device_count m) < n + i"
  shows "run_loads (scan_devices copy d n i) m =
    map_option ((!) (sm_devices m)) (List.find (\<lambda>i. md_device_id (sm_devices m ! i) = d) [i..<unat (sm_device_count m)])"
  using assms(2)
  by (induction n arbitrary: i) (auto simp: copy upt_conv_Cons)

lemma run_ReadDeviceData:
  assumes "\<And>i. run_loads (copy i) m = sm_devices m ! i" "unat (sm_device_count m) \<le> MAX_MONITOR_DEVICES"
  shows "run_loads (ReadDeviceData_loads copy d) m = map_option ((!) (sm_devices m)) (find_device d m)"
  unfolding ReadDeviceData_loads_def find_device_def using assms(2) by (intro run_scan assms(1)) simp

text \<open>
  Claim C27. \<open>ReadDeviceData\<close> is atomic: however the loads of the reader and the stores of the writer interleave, and
  in whatever order the copy of an entry loads its words, a read that succeeds returns the entry of the device, or that there is
  none, as it is after some number of complete operations of the writer. The writer updates devices that
  are in the table, the counter starts even, and fewer than \<open>2\<^sup>6\<^sup>3\<close> operations are made.
\<close>
theorem monitor_reads_atomic:
  assumes "(monitor_step sm_sequence op_stores op_registered (ReadDeviceData_loads copy d))\<^sup>*\<^sup>* (monitor_start m0) c"
    and "even (sm_sequence m0)" and "unat (sm_device_count m0) \<le> MAX_MONITOR_DEVICES"
    and "\<And>i m. run_loads (copy i) m = sm_devices m ! i"
    and "length (mo_done c) + 1 < 2 ^ 63" and "mo_reader c = Read x"
  shows "\<exists>ops m. prefix ops (mo_done c @ (case mo_op c of None \<Rightarrow> [] | Some op \<Rightarrow> [op])) \<and> m = fold (run_op op_stores) ops m0 \<and>
    x = map_option ((!) (sm_devices m)) (find_device d m)"
proof -
  have "length (monitor.fin c) < 2 ^ 63" using assms(5) by (auto simp: monitor.fin_def split: option.split)
  from monitor.read_atomic [OF assms(1,2) this assms(6)] obtain ops where
    ops: "prefix ops (monitor.fin c)" "x = run_loads (ReadDeviceData_loads copy d) (fold (run_op op_stores) ops m0)"
    by (auto simp: monitor.after_def)
  have "prefix (monitor.fin c) (mo_done c @ (case mo_op c of None \<Rightarrow> [] | Some op \<Rightarrow> [op]))"
    by (auto simp: monitor.fin_def split: option.split)
  with ops(1) have "prefix ops (mo_done c @ (case mo_op c of None \<Rightarrow> [] | Some op \<Rightarrow> [op]))" by (rule prefix_order.trans)
  moreover have "x = map_option ((!) (sm_devices (fold (run_op op_stores) ops m0))) (find_device d (fold (run_op op_stores) ops m0))"
    unfolding ops(2) by (rule run_ReadDeviceData [OF assms(4) after_count [OF assms(3)]])
  ultimately show ?thesis by blast
qed

text \<open>A copy of an entry field by field, and a table with one device.\<close>

definition copy_fields :: "nat \<Rightarrow> MonitorDeviceData monitor_loads" where
  "copy_fields i =
     Load (\<lambda>m. CWords [md_device_id (sm_devices m ! i)]) (\<lambda>a.
     Load (\<lambda>m. CWords (md_spec (sm_devices m ! i))) (\<lambda>b.
     Load (\<lambda>m. CWords (md_dev_info (sm_devices m ! i))) (\<lambda>c.
     Load (\<lambda>m. CWords (md_voltage (sm_devices m ! i))) (\<lambda>d.
     Load (\<lambda>m. CWords (md_clock (sm_devices m ! i))) (\<lambda>e.
     Load (\<lambda>m. CWords (md_temperature (sm_devices m ! i))) (\<lambda>f.
     Load (\<lambda>m. CWords (md_status_rest (sm_devices m ! i))) (\<lambda>g.
     Load (\<lambda>m. CUtil (md_utilization (sm_devices m ! i))) (\<lambda>h.
     Load (\<lambda>m. C64 (md_memory_total (sm_devices m ! i))) (\<lambda>j.
     Load (\<lambda>m. C64 (md_memory_used (sm_devices m ! i))) (\<lambda>k.
     Load (\<lambda>m. C64 (md_memory_free (sm_devices m ! i))) (\<lambda>l.
     Load (\<lambda>m. CFlag (md_is_active (sm_devices m ! i))) (\<lambda>n.
     Load (\<lambda>m. C32 (md_inference_count (sm_devices m ! i))) (\<lambda>q.
       case (a, b, c, d, e, f, g, h, j, k, l, n, q) of
         (CWords [a'], CWords b', CWords c', CWords d', CWords e', CWords f', CWords g', CUtil h', C64 j', C64 k', C64 l', CFlag n', C32 q') \<Rightarrow>
           Ret \<lparr>md_device_id = a', md_spec = b', md_dev_info = c', md_voltage = d', md_clock = e', md_temperature = f',
                md_status_rest = g', md_utilization = h', md_memory_total = j', md_memory_used = k', md_memory_free = l',
                md_is_active = n', md_inference_count = q'\<rparr>
       | _ \<Rightarrow> Ret (MonitorDeviceData_new 0 0 0))))))))))))))"

lemma run_copy_fields: "run_loads (copy_fields i) m = sm_devices m ! i"
  by (simp add: copy_fields_def)

definition demo_shm :: MonitorSharedMemory where
  "demo_shm = (MonitorSharedMemory_new (MonitorDeviceData_new 2 1 1))\<lparr>sm_device_count := 1\<rparr>"

theorem monitor_reads_atomic_witness:
  "\<exists>c x. (monitor_step sm_sequence op_stores op_registered (ReadDeviceData_loads copy_fields 0))\<^sup>*\<^sup>* (monitor_start demo_shm) c \<and>
     mo_done c = [Op_Memory 1 0 30 10 20] \<and> mo_reader c = Read x \<and>
     (\<exists>ops m. prefix ops [Op_Memory 1 0 30 10 20] \<and> m = fold (run_op op_stores) ops demo_shm \<and> x = map_option ((!) (sm_devices m)) (find_device 0 m))"
proof -
  let ?p = "ReadDeviceData_loads copy_fields 0" and ?op = "Op_Memory 1 0 30 10 20"
  let ?c1 = "(monitor_start demo_shm :: (monitor_op, MonitorSharedMemory, monitor_cell, MonitorDeviceData option) monitor)\<lparr>mo_shm := run_op op_stores ?op demo_shm, mo_todo := [], mo_op := None, mo_done := [?op]\<rparr>"
  let ?c2 = "?c1\<lparr>mo_reader := Read (run_loads ?p (mo_shm ?c1))\<rparr>"
  have ev: "even (sm_sequence demo_shm)" "unat (sm_device_count demo_shm) \<le> MAX_MONITOR_DEVICES"
    by (simp_all add: demo_shm_def MonitorSharedMemory_new_def MAX_MONITOR_DEVICES_def)
  have reg: "op_registered ?op demo_shm" by code_simp
  have seq: "sm_sequence (run_op op_stores ?op demo_shm) = 2" by code_simp
  have r1: "(monitor_step sm_sequence op_stores op_registered ?p)\<^sup>*\<^sup>* (monitor_start demo_shm) ?c1"
    using monitor.op_completes [of "monitor_start demo_shm" ?op ?p] reg by (simp add: monitor_start_def)
  have r2: "(monitor_step sm_sequence op_stores op_registered ?p)\<^sup>*\<^sup>* ?c1 ?c2"
    by (rule monitor.read_completes [of _ 0]) (simp_all add: monitor_start_def seq)
  from r1 r2 have run: "(monitor_step sm_sequence op_stores op_registered ?p)\<^sup>*\<^sup>* (monitor_start demo_shm) ?c2" by (rule rtranclp_trans)
  have "\<exists>ops m. prefix ops (mo_done ?c2 @ (case mo_op ?c2 of None \<Rightarrow> [] | Some op \<Rightarrow> [op])) \<and> m = fold (run_op op_stores) ops demo_shm \<and>
      run_loads ?p (mo_shm ?c1) = map_option ((!) (sm_devices m)) (find_device 0 m)"
    by (rule monitor_reads_atomic [OF run ev run_copy_fields]) simp_all
  with run show ?thesis by (intro exI [of _ ?c2] exI [of _ "run_loads ?p (mo_shm ?c1)"]) simp
qed

text \<open>
  Two threads of one process may write (the usage monitor of \<open>NoServiceLayer\<close> and a request that counts an inference), and
  nothing orders them. When the second begins within an operation of the first, the counter is even and a reader
  accepts an entry in the middle of an update.
\<close>

definition total_and_free :: "(u64 \<times> u64) monitor_loads" where
  "total_and_free =
     Load (\<lambda>m. C64 (md_memory_total (sm_devices m ! 0))) (\<lambda>a. Load (\<lambda>m. C64 (md_memory_free (sm_devices m ! 0))) (\<lambda>b.
       case (a, b) of (C64 t, C64 f) \<Rightarrow> Ret (t, f) | _ \<Rightarrow> Ret (0, 0)))"

lemma two_writers_torn_read:
  "let first = op_stores (Op_Memory 1 0 30 10 20) demo_shm; second = op_stores (Op_Inference 1 0) demo_shm;
       m = do_stores (take 2 first @ take 1 second) demo_shm
   in (case (reader_step sm_sequence total_and_free m ^^ 4) (Start 0) of Read x \<Rightarrow> x = (30, 0) | _ \<Rightarrow> False) \<and>
      run_loads total_and_free demo_shm = (0, 0) \<and> run_loads total_and_free (do_stores first demo_shm) = (30, 20)"
  by code_simp

text \<open>
  A writer that takes over a memory with an odd counter (its last writer died within an operation and the
  recorded process id is in use again) writes under an even one from then on.
\<close>

lemma odd_counter_inverted:
  assumes "odd (sm_sequence m)" "sm_magic m = 0x44585254" "sm_version m = 2" "alive (sm_writer_pid m)"
  shows "even (sm_sequence (BeginWrite (Initialize_shm dev alive pid m)))"
  using assms by (simp add: Initialize_shm_def)

text \<open>A new device is visible before its first update begins: the three stores that add it change no counter.\<close>

lemma new_device_unprotected:
  assumes "find_device d m = None" "unat (sm_device_count m) < MAX_MONITOR_DEVICES"
  shows "\<exists>i add. GetDeviceData d m = Some (i, add) \<and> length add = 3 \<and> (\<forall>f \<in> set add. \<forall>x. sm_sequence (f x) = sm_sequence x)"
  using assms by (auto simp: GetDeviceData_def Let_def)

text \<open>
  A count loaded before a writer begins is returned while it writes: the odd counter is seen twice, and the test at the end
  of the loop takes that for a stable one.
\<close>

lemma count_accepted_within_update:
  "let m' = BeginWrite demo_shm; r = GetDeviceCount_step demo_shm (GetDeviceCount_step demo_shm (Count_start 0 0 0))
   in GetDeviceCount_step m' (GetDeviceCount_step m' r) = Count_return 1 \<and> bit (sm_sequence m') 0"
  by code_simp

text \<open>With no writer it returns the number of devices, and 0 when the last writer died within an operation.\<close>

lemma GetDeviceCount_quiet:
  "\<not> bit (sm_sequence m) 0 \<Longrightarrow> (GetDeviceCount_step m ^^ 3) (Count_start 0 0 0) = Count_return (sm_device_count m)"
  by (simp add: eval_nat_numeral)

lemma GetDeviceCount_dead_writer:
  assumes "bit (sm_sequence m) 0"
  shows "(GetDeviceCount_step m ^^ Suc MAX_SEQLOCK_RETRIES) (Count_start 0 0 0) = Count_return 0"
proof -
  have nz: "sm_sequence m \<noteq> 0" using assms by auto
  have "(GetDeviceCount_step m ^^ k) (Count_start 0 0 0) = Count_start k 0 0" if "k \<le> MAX_SEQLOCK_RETRIES" for k
    using that by (induction k) (auto simp: assms nz)
  then show ?thesis by (simp add: assms)
qed

end
