(* ===== verification/User_Events.thy ===== *)
theory User_Events
  imports Prelude "HOL-Library.List_Lexorder" "HOL-Library.Char_ord"
begin

text \<open>
  User events of the profiler: \<^verbatim>\<open>src/lib/user_event_store.cpp\<close>. A ring keeps the last events, and per name an accumulator keeps
  the number, minimum, maximum, mean and the sum of squared deviations of the durations, updated one at a time. The theory shows that the
  ring holds the last finished events in their order and that the statistics are those of the whole list of durations. Numbers that are
  \<^verbatim>\<open>double\<close> in the code are rational here, without rounding; the clock is an argument, in nanoseconds.
\<close>

section \<open>Statistics\<close>

record StatsAccumulator =
  sa_count :: nat
  sa_min_us :: rat
  sa_max_us :: rat
  sa_mean :: rat
  sa_M2 :: rat

definition DBL_MAX :: rat where
  "DBL_MAX = 2 ^ 1024 - 2 ^ 971"

definition StatsAccumulator_new :: StatsAccumulator where
  "StatsAccumulator_new = \<lparr>sa_count = 0, sa_min_us = DBL_MAX, sa_max_us = 0, sa_mean = 0, sa_M2 = 0\<rparr>"

definition Update :: "rat \<Rightarrow> StatsAccumulator \<Rightarrow> StatsAccumulator" where
  "Update us a =
     (if us \<le> 0 then a
      else
        let n = sa_count a + 1; delta = us - sa_mean a; m = sa_mean a + delta / of_nat n
        in \<lparr>sa_count = n, sa_min_us = (if us < sa_min_us a then us else sa_min_us a),
            sa_max_us = (if sa_max_us a < us then us else sa_max_us a), sa_mean = m, sa_M2 = sa_M2 a + delta * (us - m)\<rparr>)"

definition Valid_stats :: "StatsAccumulator \<Rightarrow> bool" where
  "Valid_stats a \<longleftrightarrow> 0 < sa_count a"

definition Variance :: "StatsAccumulator \<Rightarrow> rat" where
  "Variance a = (if 1 < sa_count a then sa_M2 a / of_nat (sa_count a - 1) else 0)"

section \<open>The store\<close>

record TimePoint =
  tp_start :: int
  tp_end :: int

definition TimePoint_new :: TimePoint where
  "TimePoint_new = \<lparr>tp_start = 0, tp_end = 0\<rparr>"

record UserEvent =
  ue_name :: string
  ue_tp :: TimePoint

definition UserEvent_new :: UserEvent where
  "UserEvent_new = \<lparr>ue_name = [], ue_tp = TimePoint_new\<rparr>"

record UserEventStore =
  us_events :: "UserEvent list"
  us_currentIdx :: nat
  us_count :: nat
  us_enabled :: bool
  us_pendingStarts :: "(string, int) omap"
  us_stats :: "(string, StatsAccumulator) omap"

definition UserEventStore_new :: "nat \<Rightarrow> UserEventStore" where
  "UserEventStore_new buffer_size =
     \<lparr>us_events = replicate buffer_size UserEvent_new, us_currentIdx = 0, us_count = 0, us_enabled = False, us_pendingStarts = [], us_stats = []\<rparr>"

definition SetEnabled :: "bool \<Rightarrow> UserEventStore \<Rightarrow> UserEventStore" where
  "SetEnabled e st = st\<lparr>us_enabled := e\<rparr>"

definition Start_event :: "int \<Rightarrow> string \<Rightarrow> UserEventStore \<Rightarrow> UserEventStore" where
  "Start_event now name st = (if us_enabled st then st\<lparr>us_pendingStarts := m_put name now (us_pendingStarts st)\<rparr> else st)"

definition duration_us :: "TimePoint \<Rightarrow> rat" where
  "duration_us tp = of_int (tp_end tp - tp_start tp) / 1000"

definition stats_of :: "string \<Rightarrow> (string, StatsAccumulator) omap \<Rightarrow> StatsAccumulator" where
  "stats_of name stats = (case map_of stats name of None \<Rightarrow> StatsAccumulator_new | Some a \<Rightarrow> a)"

definition record_event :: "UserEvent \<Rightarrow> UserEventStore \<Rightarrow> UserEventStore" where
  "record_event e st =
     st\<lparr>us_events := (us_events st)[us_currentIdx st := e],
        us_currentIdx := (us_currentIdx st + 1) mod length (us_events st),
        us_count := (if us_count st < length (us_events st) then us_count st + 1 else us_count st),
        us_stats := m_put (ue_name e) (Update (duration_us (ue_tp e)) (stats_of (ue_name e) (us_stats st))) (us_stats st)\<rparr>"

definition End_event :: "int \<Rightarrow> string \<Rightarrow> UserEventStore \<Rightarrow> UserEventStore" where
  "End_event now name st =
     (if \<not> us_enabled st then st
      else case map_of (us_pendingStarts st) name of
        None \<Rightarrow> st
      | Some start \<Rightarrow> record_event \<lparr>ue_name = name, ue_tp = \<lparr>tp_start = start, tp_end = now\<rparr>\<rparr>
          (st\<lparr>us_pendingStarts := m_erase name (us_pendingStarts st)\<rparr>))"

definition Clear_events :: "UserEventStore \<Rightarrow> UserEventStore" where
  "Clear_events st = st\<lparr>us_events := replicate (length (us_events st)) UserEvent_new, us_currentIdx := 0, us_count := 0,
     us_pendingStarts := [], us_stats := []\<rparr>"

definition GetEvents :: "UserEventStore \<Rightarrow> UserEvent list" where
  "GetEvents st =
     (let n = length (us_events st) in
      if us_count st < n then map ((!) (us_events st)) [0..<us_count st]
      else map (\<lambda>i. us_events st ! ((us_currentIdx st + i) mod n)) [0..<n])"

datatype event_call = Call_start int string | Call_end int string | Call_clear | Call_enable bool

fun run_call :: "event_call \<Rightarrow> UserEventStore \<Rightarrow> UserEventStore" where
  "run_call (Call_start now n) = Start_event now n"
| "run_call (Call_end now n) = End_event now n"
| "run_call Call_clear = Clear_events"
| "run_call (Call_enable e) = SetEnabled e"

lemmas event_code = SetEnabled_def Start_event_def End_event_def record_event_def duration_us_def stats_of_def Update_def
  StatsAccumulator_new_def UserEventStore_new_def UserEvent_new_def TimePoint_new_def Let_def

section \<open>What the store promises\<close>

text \<open>The plain log: whether the store is on, the starts without an end, and all finished events since the last \<open>Clear\<close>.\<close>

record event_log =
  lg_enabled :: bool
  lg_pending :: "string \<Rightarrow> int option"
  lg_events :: "UserEvent list"

fun log_call :: "event_call \<Rightarrow> event_log \<Rightarrow> event_log" where
  "log_call (Call_start now n) l = (if lg_enabled l then l\<lparr>lg_pending := (lg_pending l)(n \<mapsto> now)\<rparr> else l)"
| "log_call (Call_end now n) l =
     (if \<not> lg_enabled l then l
      else case lg_pending l n of
        None \<Rightarrow> l
      | Some s \<Rightarrow> l\<lparr>lg_pending := (lg_pending l)(n := None), lg_events := lg_events l @ [\<lparr>ue_name = n, ue_tp = \<lparr>tp_start = s, tp_end = now\<rparr>\<rparr>]\<rparr>)"
| "log_call Call_clear l = l\<lparr>lg_pending := Map.empty, lg_events := []\<rparr>"
| "log_call (Call_enable e) l = l\<lparr>lg_enabled := e\<rparr>"

definition log_new :: event_log where
  "log_new = \<lparr>lg_enabled = False, lg_pending = Map.empty, lg_events = []\<rparr>"

text \<open>The durations of a name, less those that are not positive, and the statistics of a list.\<close>

definition durations :: "string \<Rightarrow> UserEvent list \<Rightarrow> rat list" where
  "durations n es = filter (\<lambda>d. 0 < d) (map (duration_us \<circ> ue_tp) (filter (\<lambda>e. ue_name e = n) es))"

definition list_mean :: "rat list \<Rightarrow> rat" where
  "list_mean xs = sum_list xs / of_nat (length xs)"

definition list_deviation :: "rat list \<Rightarrow> rat" where
  "list_deviation xs = (\<Sum>x \<leftarrow> xs. (x - list_mean xs) ^ 2)"

definition stats_exact :: "rat list \<Rightarrow> StatsAccumulator \<Rightarrow> bool" where
  "stats_exact xs a \<longleftrightarrow> sa_count a = length xs \<and> sa_min_us a = fold min xs DBL_MAX \<and> sa_max_us a = fold max xs 0 \<and>
     sa_mean a = (if xs = [] then 0 else list_mean xs) \<and> sa_M2 a = (if xs = [] then 0 else list_deviation xs)"

section \<open>The statistics are exact\<close>

lemma deviation_from:
  fixes m :: rat
  shows "(\<Sum>x \<leftarrow> xs. (x - m) ^ 2) = (\<Sum>x \<leftarrow> xs. x ^ 2) - 2 * m * sum_list xs + of_nat (length xs) * m ^ 2"
  by (induction xs) (auto simp: power2_eq_square algebra_simps)

lemma deviation_squares:
  assumes "xs \<noteq> []"
  shows "list_deviation xs = (\<Sum>x \<leftarrow> xs. x ^ 2) - of_nat (length xs) * list_mean xs ^ 2"
proof -
  have s: "sum_list xs = of_nat (length xs) * list_mean xs" using assms by (simp add: list_mean_def)
  show ?thesis unfolding list_deviation_def deviation_from s by (simp add: power2_eq_square)
qed

lemma mean_snoc: "list_mean (xs @ [x]) = list_mean xs + (x - list_mean xs) / (of_nat (length xs) + 1)" if "xs \<noteq> []"
proof -
  have "sum_list xs = of_nat (length xs) * list_mean xs" using that by (simp add: list_mean_def)
  moreover have "of_nat (length xs) + 1 \<noteq> (0 :: rat)" by (metis of_nat_1 of_nat_add of_nat_eq_0_iff add_is_0 zero_neq_one)
  ultimately show ?thesis by (simp add: list_mean_def [of "xs @ [x]"] field_simps)
qed

lemma deviation_snoc:
  assumes "xs \<noteq> []"
  shows "list_deviation (xs @ [x]) = list_deviation xs + (x - list_mean xs) * (x - list_mean (xs @ [x]))"
proof -
  let ?n = "of_nat (length xs) :: rat" and ?m = "list_mean xs"
  have n: "?n + 1 \<noteq> 0" by (metis of_nat_1 of_nat_add of_nat_eq_0_iff add_is_0 zero_neq_one)
  define q where "q = (x - ?m) / (?n + 1)"
  have q: "x - ?m = q * (?n + 1)" using n by (simp add: q_def)
  have m: "list_mean (xs @ [x]) = ?m + q" using mean_snoc [OF assms] by (simp add: q_def)
  have "list_deviation (xs @ [x]) = (\<Sum>y \<leftarrow> xs. y ^ 2) + x ^ 2 - (?n + 1) * (?m + q) ^ 2"
    by (simp add: deviation_squares m algebra_simps)
  moreover have "x ^ 2 - (?n + 1) * (?m + q) ^ 2 = q * (?n + 1) * (q * (?n + 1) - q) - ?n * ?m ^ 2"
  proof -
    have "x = ?m + q * (?n + 1)" using q by simp
    then show ?thesis by (simp add: power2_eq_square algebra_simps)
  qed
  moreover have "x - list_mean (xs @ [x]) = q * (?n + 1) - q" using q m by (simp add: algebra_simps)
  ultimately show ?thesis using q by (simp add: deviation_squares [OF assms])
qed

lemma Update_exact:
  assumes "stats_exact xs a" "0 < x"
  shows "stats_exact (xs @ [x]) (Update x a)"
proof (cases "xs = []")
  case True
  with assms show ?thesis by (simp add: stats_exact_def Update_def Let_def list_mean_def list_deviation_def min_def max_def)
next
  case False
  with assms show ?thesis
    by (auto simp: stats_exact_def Update_def Let_def mean_snoc deviation_snoc add.commute min_def max_def)
qed

lemma Update_skips: "\<not> 0 < x \<Longrightarrow> Update x a = a"
  by (simp add: Update_def)

lemma new_exact: "stats_exact [] StatsAccumulator_new"
  by (simp add: stats_exact_def StatsAccumulator_new_def)

text \<open>The value reported as the variance is the sample variance.\<close>

lemma variance_exact:
  assumes "stats_exact xs a" "2 \<le> length xs"
  shows "Variance a = list_deviation xs / of_nat (length xs - 1)"
  using assms by (auto simp: stats_exact_def Variance_def)

section \<open>The ring\<close>

text \<open>The ring after the events of a log: it has the last of them, the oldest at the position that is written next.\<close>

definition ring_holds :: "UserEvent list \<Rightarrow> UserEventStore \<Rightarrow> bool" where
  "ring_holds es st \<longleftrightarrow>
     (let n = length (us_events st) in
      0 < n \<and> us_count st = min (length es) n \<and> us_currentIdx st = length es mod n \<and>
      (\<forall>k < length es. length es \<le> k + n \<longrightarrow> us_events st ! (k mod n) = es ! k))"

lemma ring_record:
  assumes "ring_holds es st"
  shows "ring_holds (es @ [e]) (record_event e st)"
proof -
  let ?n = "length (us_events st)"
  have r: "0 < ?n" "us_count st = min (length es) ?n" "us_currentIdx st = length es mod ?n"
    "\<And>k. k < length es \<Longrightarrow> length es \<le> k + ?n \<Longrightarrow> us_events st ! (k mod ?n) = es ! k" using assms by (auto simp: ring_holds_def Let_def)
  have "(us_events st)[length es mod ?n := e] ! (k mod ?n) = (es @ [e]) ! k"
    if k: "k < length es + 1" "length es + 1 \<le> k + ?n" for k
  proof (cases "k = length es")
    case False
    then have "k < length es" using k(1) by simp
    moreover have "k mod ?n \<noteq> length es mod ?n"
    proof
      assume "k mod ?n = length es mod ?n"
      then have "?n dvd length es - k" using mod_eq_dvd_iff_nat [of k "length es" ?n] \<open>k < length es\<close> by simp
      with \<open>k < length es\<close> k(2) show False by (auto dest: dvd_imp_le)
    qed
    ultimately show ?thesis using r(4) k(2) by (simp add: nth_append)
  qed (use r(1) in simp)
  then show ?thesis using r(1-3) by (auto simp: ring_holds_def record_event_def Let_def mod_Suc_eq min_def)
qed

lemma ring_GetEvents:
  assumes "ring_holds es st"
  shows "GetEvents st = drop (length es - length (us_events st)) es"
proof -
  let ?n = "length (us_events st)"
  have r: "0 < ?n" "us_count st = min (length es) ?n" "us_currentIdx st = length es mod ?n"
    "\<And>k. k < length es \<Longrightarrow> length es \<le> k + ?n \<Longrightarrow> us_events st ! (k mod ?n) = es ! k" using assms by (auto simp: ring_holds_def Let_def)
  show ?thesis
  proof (cases "length es < ?n")
    case True
    then have "us_events st ! k = es ! k" if "k < length es" for k using r(4) [OF that] that by simp
    with True r(2) show ?thesis by (auto simp: GetEvents_def Let_def intro: nth_equalityI)
  next
    case False
    have "us_events st ! ((us_currentIdx st + i) mod ?n) = es ! (length es - ?n + i)" if "i < ?n" for i
    proof -
      have "(length es + i) mod ?n = (length es - ?n + i) mod ?n"
        using False by (metis Nat.add_diff_assoc2 le_add_diff_inverse2 mod_add_self2 not_less add.assoc add.commute)
      with r(4) [of "length es - ?n + i"] that False show ?thesis by (simp add: r(3) mod_add_left_eq)
    qed
    with False r(1,2) show ?thesis by (auto simp: GetEvents_def Let_def intro: nth_equalityI)
  qed
qed

section \<open>Refinement\<close>

definition event_store_ok :: "nat \<Rightarrow> event_log \<Rightarrow> UserEventStore \<Rightarrow> bool" where
  "event_store_ok n l st \<longleftrightarrow> length (us_events st) = n \<and> us_enabled st = lg_enabled l \<and> map_of (us_pendingStarts st) = lg_pending l \<and>
     ring_holds (lg_events l) st \<and> (\<forall>name. stats_exact (durations name (lg_events l)) (stats_of name (us_stats st)))"

lemma store_new: "0 < n \<Longrightarrow> event_store_ok n log_new (UserEventStore_new n)"
  by (auto simp: event_store_ok_def log_new_def UserEventStore_new_def ring_holds_def Let_def durations_def stats_of_def new_exact)

lemma stats_of_update: "stats_of name (m_put k a stats) = (if name = k then a else stats_of name stats)"
  by (simp add: stats_of_def)

lemma durations_snoc:
  "durations name (es @ [e]) = (if ue_name e = name \<and> 0 < duration_us (ue_tp e) then durations name es @ [duration_us (ue_tp e)] else durations name es)"
  by (simp add: durations_def)

lemma store_record:
  assumes "event_store_ok n l st"
  shows "event_store_ok n (l\<lparr>lg_events := lg_events l @ [e]\<rparr>) (record_event e st)"
proof -
  have "stats_exact (durations name (lg_events l @ [e])) (stats_of name (us_stats (record_event e st)))" for name
    using assms Update_exact Update_skips
    by (cases "0 < duration_us (ue_tp e)") (auto simp: event_store_ok_def durations_snoc record_event_def stats_of_update)
  moreover have "ring_holds (lg_events l @ [e]) (record_event e st)" using assms by (simp add: event_store_ok_def ring_record)
  ultimately show ?thesis using assms by (simp add: event_store_ok_def record_event_def)
qed

lemma ring_holds_frame [simp]:
  "ring_holds es (st\<lparr>us_pendingStarts := p\<rparr>) = ring_holds es st" "ring_holds es (st\<lparr>us_enabled := b\<rparr>) = ring_holds es st"
  by (simp_all add: ring_holds_def)

lemma store_call:
  assumes "event_store_ok n l st"
  shows "event_store_ok n (log_call c l) (run_call c st)"
proof (cases c)
  case (Call_start now name)
  with assms show ?thesis by (auto simp: event_store_ok_def Start_event_def)
next
  case (Call_end now name)
  have p: "map_of (us_pendingStarts st) name = lg_pending l name" "us_enabled st = lg_enabled l" using assms by (simp_all add: event_store_ok_def)
  show ?thesis
  proof (cases "lg_enabled l \<and> lg_pending l name \<noteq> None")
    case True
    then obtain s where s: "lg_pending l name = Some s" by auto
    have "event_store_ok n (l\<lparr>lg_pending := (lg_pending l)(name := None)\<rparr>) (st\<lparr>us_pendingStarts := m_erase name (us_pendingStarts st)\<rparr>)"
      using assms by (simp add: event_store_ok_def)
    from store_record [OF this] True s p Call_end show ?thesis by (simp add: End_event_def)
  qed (use assms p Call_end in \<open>auto simp: End_event_def\<close>)
next
  case Call_clear
  with assms show ?thesis
    by (auto simp: event_store_ok_def Clear_events_def ring_holds_def Let_def durations_def stats_of_def new_exact)
next
  case (Call_enable e)
  with assms show ?thesis by (auto simp: event_store_ok_def SetEnabled_def)
qed

lemma store_calls: "event_store_ok n l st \<Longrightarrow> event_store_ok n (fold log_call cs l) (fold run_call cs st)"
  by (induction cs arbitrary: l st) (auto intro: store_call)



end
