(* ===== verification/Profiler_Buffers.thy ===== *)
theory Profiler_Buffers
  imports User_Events
begin

text \<open>
  The profiler: \<^verbatim>\<open>src/lib/profiler.cpp\<close> and \<^verbatim>\<open>profiler.h\<close>. For each task and device a buffer keeps the time points of the last jobs in
  a ring of slots, found by the number of the job, and the statistics of each kind of event. The theory relates the buffers to plain
  lists that forget nothing, and shows that the metrics of a job computed from the buffers are those computed from the lists. The
  constant \<^verbatim>\<open>PROFILER_DEFAULT_SAMPLES\<close> (2000, or 0 in a build without profiler) is the argument \<open>S\<close> of the definitions.
\<close>

section \<open>Kinds of events\<close>

datatype EventType =
    NPU_INPUT_FORMAT | H2D | INFERENCE_CORE_ALL | INFERENCE_CORE_0 | INFERENCE_CORE_1 | INFERENCE_CORE_2 | D2H | NPU_OUTPUT_FORMAT
  | NPU_TASK_TOTAL | CPU_TASK_TOTAL | PUBLIC_END | BUFFER_POOL_WAIT | FRAMEWORK_OVERHEAD | CPU_DISPATCH_WAIT | SERVICE_PROCESS_WAIT
  | UNKNOWN_EVENT

fun EventType_value :: "EventType \<Rightarrow> int" where
  "EventType_value NPU_INPUT_FORMAT = 0"
| "EventType_value H2D = 1"
| "EventType_value INFERENCE_CORE_ALL = 2"
| "EventType_value INFERENCE_CORE_0 = 3"
| "EventType_value INFERENCE_CORE_1 = 4"
| "EventType_value INFERENCE_CORE_2 = 5"
| "EventType_value D2H = 6"
| "EventType_value NPU_OUTPUT_FORMAT = 7"
| "EventType_value NPU_TASK_TOTAL = 8"
| "EventType_value CPU_TASK_TOTAL = 9"
| "EventType_value PUBLIC_END = 999"
| "EventType_value BUFFER_POOL_WAIT = 1000"
| "EventType_value FRAMEWORK_OVERHEAD = 1001"
| "EventType_value CPU_DISPATCH_WAIT = 1002"
| "EventType_value SERVICE_PROCESS_WAIT = 1003"
| "EventType_value UNKNOWN_EVENT = 9999"

lemma EventType_value_inj: "EventType_value a = EventType_value b \<Longrightarrow> a = b"
  by (cases a; cases b) simp_all

instantiation EventType :: linorder
begin

definition less_eq_EventType :: "EventType \<Rightarrow> EventType \<Rightarrow> bool" where
  "less_eq_EventType a b \<longleftrightarrow> EventType_value a \<le> EventType_value b"

definition less_EventType :: "EventType \<Rightarrow> EventType \<Rightarrow> bool" where
  "less_EventType a b \<longleftrightarrow> EventType_value a < EventType_value b"

instance
  by standard (auto simp: less_eq_EventType_def less_EventType_def intro: EventType_value_inj)

end

definition isInferenceCoreEvent :: "EventType \<Rightarrow> bool" where
  "isInferenceCoreEvent t \<longleftrightarrow> t = INFERENCE_CORE_0 \<or> t = INFERENCE_CORE_1 \<or> t = INFERENCE_CORE_2"

definition InferenceCoreEventType :: "int \<Rightarrow> EventType" where
  "InferenceCoreEventType coreId =
     (if coreId = 0 then INFERENCE_CORE_0 else if coreId = 1 then INFERENCE_CORE_1 else if coreId = 2 then INFERENCE_CORE_2 else INFERENCE_CORE_0)"

fun EventTypeToString :: "EventType \<Rightarrow> string" where
  "EventTypeToString H2D = ''H2D''"
| "EventTypeToString INFERENCE_CORE_ALL = ''Inference''"
| "EventTypeToString INFERENCE_CORE_0 = ''Inference Core 0''"
| "EventTypeToString INFERENCE_CORE_1 = ''Inference Core 1''"
| "EventTypeToString INFERENCE_CORE_2 = ''Inference Core 2''"
| "EventTypeToString D2H = ''D2H''"
| "EventTypeToString NPU_TASK_TOTAL = ''NPU Task''"
| "EventTypeToString CPU_TASK_TOTAL = ''CPU Task''"
| "EventTypeToString BUFFER_POOL_WAIT = ''Buffer Pool Wait''"
| "EventTypeToString FRAMEWORK_OVERHEAD = ''Framework Overhead''"
| "EventTypeToString NPU_INPUT_FORMAT = ''NPU Input Format Handler''"
| "EventTypeToString NPU_OUTPUT_FORMAT = ''NPU Output Format Handler''"
| "EventTypeToString CPU_DISPATCH_WAIT = ''CPU Dispatch Wait''"
| "EventTypeToString SERVICE_PROCESS_WAIT = ''Service Process Wait''"
| "EventTypeToString PUBLIC_END = ''Unknown''"
| "EventTypeToString UNKNOWN_EVENT = ''Unknown''"

section \<open>The buffer of a task on a device\<close>

record DeviceProfilerBuffer =
  db_events :: "(EventType, TimePoint list) omap"
  db_stats :: "(EventType, StatsAccumulator) omap"
  db_job_ids :: "int list"
  db_current_idx :: nat
  db_job_count :: nat

definition PROFILER_BUFFER_SIZE :: "nat \<Rightarrow> nat" where
  "PROFILER_BUFFER_SIZE S = (if 0 < S then S else 1)"

definition DeviceProfilerBuffer_new :: "nat \<Rightarrow> DeviceProfilerBuffer" where
  "DeviceProfilerBuffer_new S =
     \<lparr>db_events = [], db_stats = [], db_job_ids = replicate (PROFILER_BUFFER_SIZE S) (- 1), db_current_idx = 0, db_job_count = 0\<rparr>"

definition FindJobIndex :: "nat \<Rightarrow> int \<Rightarrow> DeviceProfilerBuffer \<Rightarrow> nat option" where
  "FindJobIndex S jobId b = find (\<lambda>i. db_job_ids b ! i = jobId) [0..<S]"

text \<open>The slot of a job, a new one if it has none; a new slot has no time points.\<close>

definition job_slot :: "nat \<Rightarrow> int \<Rightarrow> DeviceProfilerBuffer \<Rightarrow> nat \<times> DeviceProfilerBuffer" where
  "job_slot S jobId b =
     (case FindJobIndex S jobId b of
        Some slot \<Rightarrow> (slot, b)
      | None \<Rightarrow>
          let slot = (db_current_idx b + 1) mod S
          in (slot, b\<lparr>db_current_idx := slot, db_job_ids := (db_job_ids b)[slot := jobId], db_job_count := db_job_count b + 1,
                db_events := map (\<lambda>(t, a). (t, a[slot := TimePoint_new])) (db_events b)\<rparr>))"

definition events_of :: "nat \<Rightarrow> EventType \<Rightarrow> DeviceProfilerBuffer \<Rightarrow> TimePoint list" where
  "events_of S t b = (case map_of (db_events b) t of None \<Rightarrow> replicate (PROFILER_BUFFER_SIZE S) TimePoint_new | Some a \<Rightarrow> a)"

definition put_event :: "nat \<Rightarrow> EventType \<Rightarrow> nat \<Rightarrow> TimePoint \<Rightarrow> DeviceProfilerBuffer \<Rightarrow> DeviceProfilerBuffer" where
  "put_event S t slot tp b = b\<lparr>db_events := m_put t ((events_of S t b)[slot := tp]) (db_events b)\<rparr>"

definition event_stats :: "EventType \<Rightarrow> DeviceProfilerBuffer \<Rightarrow> StatsAccumulator" where
  "event_stats t b = (case map_of (db_stats b) t of None \<Rightarrow> StatsAccumulator_new | Some a \<Rightarrow> a)"

definition add_stat :: "EventType \<Rightarrow> rat \<Rightarrow> DeviceProfilerBuffer \<Rightarrow> DeviceProfilerBuffer" where
  "add_stat t us b = b\<lparr>db_stats := m_put t (Update us (event_stats t b)) (db_stats b)\<rparr>"

definition update_stats :: "EventType \<Rightarrow> TimePoint \<Rightarrow> DeviceProfilerBuffer \<Rightarrow> DeviceProfilerBuffer" where
  "update_stats t tp b =
     (let us = duration_us tp; b' = add_stat t us b in if isInferenceCoreEvent t then add_stat INFERENCE_CORE_ALL us b' else b')"

definition measured :: "TimePoint \<Rightarrow> bool" where
  "measured tp \<longleftrightarrow> tp_start tp \<noteq> 0 \<and> tp_end tp \<noteq> 0"

definition add_time_point :: "nat \<Rightarrow> EventType \<Rightarrow> int \<Rightarrow> TimePoint \<Rightarrow> DeviceProfilerBuffer \<Rightarrow> DeviceProfilerBuffer" where
  "add_time_point S t jobId tp b =
     (case job_slot S jobId b of (slot, b1) \<Rightarrow>
        let b2 = put_event S t slot tp b1 in if measured tp then update_stats t tp b2 else b2)"

definition start_point :: "nat \<Rightarrow> int \<Rightarrow> EventType \<Rightarrow> int \<Rightarrow> DeviceProfilerBuffer \<Rightarrow> DeviceProfilerBuffer" where
  "start_point S now t jobId b =
     (case job_slot S jobId b of (slot, b1) \<Rightarrow> put_event S t slot \<lparr>tp_start = now, tp_end = 0\<rparr> b1)"

definition end_point :: "nat \<Rightarrow> int \<Rightarrow> EventType \<Rightarrow> int \<Rightarrow> DeviceProfilerBuffer \<Rightarrow> DeviceProfilerBuffer" where
  "end_point S now t jobId b =
     (case FindJobIndex S jobId b of
        None \<Rightarrow> b
      | Some slot \<Rightarrow>
          let tp = events_of S t b ! slot
          in if tp_start tp = 0 then put_event S t slot tp b
             else let tp' = tp\<lparr>tp_end := now\<rparr> in update_stats t tp' (put_event S t slot tp' b))"

section \<open>The profiler\<close>

record Profiler =
  pf_enabled :: bool
  pf_deviceBuffers :: "(string, (int, DeviceProfilerBuffer) omap) omap"

definition CPU_DEVICE_ID :: int where
  "CPU_DEVICE_ID = - 1"

definition with_buffer :: "nat \<Rightarrow> string \<Rightarrow> int \<Rightarrow> (DeviceProfilerBuffer \<Rightarrow> DeviceProfilerBuffer) \<Rightarrow> Profiler \<Rightarrow> Profiler" where
  "with_buffer S taskName deviceId f p =
     (let devs = (case map_of (pf_deviceBuffers p) taskName of None \<Rightarrow> [] | Some ds \<Rightarrow> ds);
          buf = (case map_of devs deviceId of None \<Rightarrow> DeviceProfilerBuffer_new S | Some b \<Rightarrow> b)
      in p\<lparr>pf_deviceBuffers := m_put taskName (m_put deviceId (f buf) devs) (pf_deviceBuffers p)\<rparr>)"

definition AddTimePoint :: "nat \<Rightarrow> EventType \<Rightarrow> string \<Rightarrow> int \<Rightarrow> int \<Rightarrow> TimePoint option \<Rightarrow> Profiler \<Rightarrow> Profiler" where
  "AddTimePoint S t taskName deviceId jobId tp p =
     (if \<not> pf_enabled p \<or> S = 0 \<or> t = UNKNOWN_EVENT \<or> jobId < 0 then p
      else case tp of None \<Rightarrow> p | Some tp \<Rightarrow> with_buffer S taskName deviceId (add_time_point S t jobId tp) p)"

definition Start_profiler :: "nat \<Rightarrow> int \<Rightarrow> EventType \<Rightarrow> string \<Rightarrow> int \<Rightarrow> int \<Rightarrow> Profiler \<Rightarrow> Profiler" where
  "Start_profiler S now t taskName deviceId jobId p =
     (if \<not> pf_enabled p \<or> S = 0 \<or> t = UNKNOWN_EVENT \<or> jobId < 0 then p
      else with_buffer S taskName deviceId (start_point S now t jobId) p)"

definition End_profiler :: "nat \<Rightarrow> int \<Rightarrow> EventType \<Rightarrow> string \<Rightarrow> int \<Rightarrow> int \<Rightarrow> Profiler \<Rightarrow> Profiler" where
  "End_profiler S now t taskName deviceId jobId p =
     (if \<not> pf_enabled p \<or> S = 0 \<or> t = UNKNOWN_EVENT \<or> jobId < 0 then p
      else with_buffer S taskName deviceId (end_point S now t jobId) p)"

definition Start_cpu :: "nat \<Rightarrow> int \<Rightarrow> EventType \<Rightarrow> string \<Rightarrow> int \<Rightarrow> Profiler \<Rightarrow> Profiler" where
  "Start_cpu S now t taskName jobId = Start_profiler S now t taskName CPU_DEVICE_ID jobId"

definition End_cpu :: "nat \<Rightarrow> int \<Rightarrow> EventType \<Rightarrow> string \<Rightarrow> int \<Rightarrow> Profiler \<Rightarrow> Profiler" where
  "End_cpu S now t taskName jobId = End_profiler S now t taskName CPU_DEVICE_ID jobId"

definition Flush_profiler :: "Profiler \<Rightarrow> Profiler" where
  "Flush_profiler p = (if pf_enabled p then p\<lparr>pf_deviceBuffers := []\<rparr> else p)"

definition SetEnabled_profiler :: "bool \<Rightarrow> Profiler \<Rightarrow> Profiler" where
  "SetEnabled_profiler e p = p\<lparr>pf_enabled := e\<rparr>"

section \<open>The metrics of a job\<close>

record NpuDeviceMetrics =
  nm_input_format_us :: rat
  nm_h2d_us :: rat
  nm_inference_core_all_us :: rat
  nm_inference_core_0_us :: rat
  nm_inference_core_1_us :: rat
  nm_inference_core_2_us :: rat
  nm_d2h_us :: rat
  nm_output_format_us :: rat
  nm_total_us :: rat
  nm_valid :: bool
  nm_task_measured :: bool

definition IsConsistent :: "NpuDeviceMetrics \<Rightarrow> bool" where
  "IsConsistent m \<longleftrightarrow>
     (if \<not> nm_task_measured m then True
      else if nm_total_us m \<le> 0 then True
      else (nm_h2d_us m + nm_inference_core_all_us m + nm_d2h_us m) * (9 / 10) \<le> nm_total_us m)"

record TaskMetrics =
  tm_task_name :: string
  tm_devices :: "(int, NpuDeviceMetrics) omap"
  tm_cpu_task_us :: rat
  tm_valid :: bool

definition TaskMetrics_new :: TaskMetrics where
  "TaskMetrics_new = \<lparr>tm_task_name = [], tm_devices = [], tm_cpu_task_us = 0, tm_valid = False\<rparr>"

record JobMetrics =
  jm_tasks :: "TaskMetrics list"
  jm_valid :: bool

definition GetTask :: "string \<Rightarrow> JobMetrics \<Rightarrow> TaskMetrics" where
  "GetTask name jm = (case find (\<lambda>t. tm_task_name t = name) (jm_tasks jm) of None \<Rightarrow> TaskMetrics_new | Some t \<Rightarrow> t)"

definition getDuration :: "DeviceProfilerBuffer \<Rightarrow> nat \<Rightarrow> EventType \<Rightarrow> rat" where
  "getDuration b slot t =
     (case map_of (db_events b) t of
        None \<Rightarrow> 0
      | Some a \<Rightarrow> if measured (a ! slot) then duration_us (a ! slot) else 0)"

text \<open>The metrics of a device from the duration of each kind of event.\<close>

definition npu_metrics :: "(EventType \<Rightarrow> rat) \<Rightarrow> bool \<Rightarrow> NpuDeviceMetrics" where
  "npu_metrics dur task_measured =
     (let core = (if 0 < dur INFERENCE_CORE_0 then dur INFERENCE_CORE_0
                  else if 0 < dur INFERENCE_CORE_1 then dur INFERENCE_CORE_1 else dur INFERENCE_CORE_2)
      in \<lparr>nm_input_format_us = dur NPU_INPUT_FORMAT, nm_h2d_us = dur H2D, nm_inference_core_all_us = core,
          nm_inference_core_0_us = dur INFERENCE_CORE_0, nm_inference_core_1_us = dur INFERENCE_CORE_1,
          nm_inference_core_2_us = dur INFERENCE_CORE_2, nm_d2h_us = dur D2H, nm_output_format_us = dur NPU_OUTPUT_FORMAT,
          nm_total_us = dur NPU_TASK_TOTAL, nm_valid = (0 < dur H2D \<or> 0 < core \<or> 0 < dur D2H), nm_task_measured = task_measured\<rparr>)"

definition buffer_measured :: "DeviceProfilerBuffer \<Rightarrow> nat \<Rightarrow> bool" where
  "buffer_measured b slot = (case map_of (db_events b) NPU_TASK_TOTAL of None \<Rightarrow> False | Some a \<Rightarrow> tp_start (a ! slot) \<noteq> 0)"

text \<open>One device of a task: what the buffer of the device knows of the job, if it has it, is added to the metrics of the task.\<close>

definition add_device :: "int \<Rightarrow> ((EventType \<Rightarrow> rat) \<times> bool) option \<Rightarrow> TaskMetrics \<Rightarrow> TaskMetrics" where
  "add_device devId found tm =
     (case found of
        None \<Rightarrow> tm
      | Some (dur, task_measured) \<Rightarrow>
          if devId = CPU_DEVICE_ID then tm\<lparr>tm_cpu_task_us := tm_cpu_task_us tm + dur CPU_TASK_TOTAL\<rparr>
          else let m = npu_metrics dur task_measured in if nm_valid m then tm\<lparr>tm_devices := m_put devId m (tm_devices tm)\<rparr> else tm)"

definition found_job :: "nat \<Rightarrow> int \<Rightarrow> DeviceProfilerBuffer \<Rightarrow> ((EventType \<Rightarrow> rat) \<times> bool) option" where
  "found_job S jobId b = map_option (\<lambda>slot. (getDuration b slot, buffer_measured b slot)) (FindJobIndex S jobId b)"

definition task_has_data :: "TaskMetrics \<Rightarrow> bool" where
  "task_has_data tm \<longleftrightarrow> (case tm_devices tm of [] \<Rightarrow> False | (d, m) # ms \<Rightarrow> nm_valid m) \<or> 0 < tm_cpu_task_us tm"

definition task_metrics :: "('b \<Rightarrow> ((EventType \<Rightarrow> rat) \<times> bool) option) \<Rightarrow> string \<times> (int, 'b) omap \<Rightarrow> TaskMetrics" where
  "task_metrics found = (\<lambda>(name, devs). fold (\<lambda>(d, b). add_device d (found b)) devs (TaskMetrics_new\<lparr>tm_task_name := name\<rparr>))"

definition job_metrics :: "('b \<Rightarrow> ((EventType \<Rightarrow> rat) \<times> bool) option) \<Rightarrow> (string, (int, 'b) omap) omap \<Rightarrow> JobMetrics" where
  "job_metrics found bufs =
     (let tasks = map (\<lambda>tm. tm\<lparr>tm_valid := True\<rparr>) (filter task_has_data (map (task_metrics found) bufs))
      in \<lparr>jm_tasks = tasks, jm_valid = (tasks \<noteq> [])\<rparr>)"

definition GetJobMetrics :: "nat \<Rightarrow> int \<Rightarrow> Profiler \<Rightarrow> JobMetrics" where
  "GetJobMetrics S jobId p = job_metrics (found_job S jobId) (pf_deviceBuffers p)"

section \<open>Durations by name\<close>

text \<open>Decimal numbers of \<^verbatim>\<open>std::to_string\<close>, and the conversion of nanoseconds to milliseconds, which cuts towards zero.\<close>

fun nat_to_string :: "nat \<Rightarrow> string" where
  "nat_to_string n = (if n < 10 then [char_of (48 + n)] else nat_to_string (n div 10) @ [char_of (48 + n mod 10)])"

declare nat_to_string.simps [simp del]

definition to_string :: "int \<Rightarrow> string" where
  "to_string i = (if i < 0 then CHR ''-'' # nat_to_string (nat (- i)) else nat_to_string (nat i))"

definition elapsed_ms :: "TimePoint \<Rightarrow> int" where
  "elapsed_ms tp = (let d = tp_end tp - tp_start tp in if d < 0 then - (- d div 1000000) else d div 1000000)"

definition data_key :: "int \<Rightarrow> string \<Rightarrow> int \<Rightarrow> EventType \<Rightarrow> string" where
  "data_key deviceId taskName devId t =
     (if deviceId < 0 then taskName @ ''/'' @ EventTypeToString t @ ''[Device_'' @ to_string devId @ '']'' else EventTypeToString t)"

definition push_duration :: "string \<Rightarrow> TimePoint \<Rightarrow> (string, int list) omap \<Rightarrow> (string, int list) omap" where
  "push_duration key tp data = (if measured tp then m_put key (list_at data key @ [elapsed_ms tp]) data else data)"

definition push_events :: "nat \<Rightarrow> int \<Rightarrow> string \<Rightarrow> int \<Rightarrow> EventType \<times> TimePoint list \<Rightarrow> (string, int list) omap \<Rightarrow> (string, int list) omap" where
  "push_events S deviceId taskName devId = (\<lambda>(t, tps) data.
     if EventType_value PUBLIC_END \<le> EventType_value t then data
     else fold (push_duration (data_key deviceId taskName devId t)) (take S tps) data)"

definition push_device :: "nat \<Rightarrow> int \<Rightarrow> string \<Rightarrow> int \<times> DeviceProfilerBuffer \<Rightarrow> (string, int list) omap \<Rightarrow> (string, int list) omap" where
  "push_device S deviceId taskName = (\<lambda>(devId, b) data.
     if 0 \<le> deviceId \<and> devId \<noteq> deviceId then data else fold (push_events S deviceId taskName devId) (db_events b) data)"

definition GetPerformanceDataByDevice :: "nat \<Rightarrow> int \<Rightarrow> Profiler \<Rightarrow> (string, int list) omap" where
  "GetPerformanceDataByDevice S deviceId p =
     fold (\<lambda>(taskName, devs). fold (push_device S deviceId taskName) devs) (pf_deviceBuffers p) []"

definition GetPerformanceData :: "nat \<Rightarrow> Profiler \<Rightarrow> (string, int list) omap" where
  "GetPerformanceData S = GetPerformanceDataByDevice S (- 1)"

end
