(* ===== verification/Profiler_Correct.thy ===== *)
theory Profiler_Correct
  imports Profiler_Buffers
begin

text \<open>
  The buffers of the profiler against plain lists. \<open>job_log\<close> keeps every job that a task had on a device, in the order of the first
  event, with the time points since then, and every duration. The buffers refine the logs, so that the metrics of a job and the statistics
  are those of the logs.
\<close>

section \<open>Logs\<close>

record job_log =
  jl_jobs :: "(int \<times> (EventType \<Rightarrow> TimePoint)) list"
  jl_durations :: "EventType \<Rightarrow> rat list"

definition job_log_new :: job_log where
  "job_log_new = \<lparr>jl_jobs = [], jl_durations = (\<lambda>t. [])\<rparr>"

text \<open>A job is known while it is one of the last \<open>S\<close> jobs.\<close>

definition recent_job :: "nat \<Rightarrow> int \<Rightarrow> job_log \<Rightarrow> nat option" where
  "recent_job S jobId l = find (\<lambda>k. fst (jl_jobs l ! k) = jobId) [length (jl_jobs l) - S..<length (jl_jobs l)]"

definition log_slot :: "nat \<Rightarrow> int \<Rightarrow> job_log \<Rightarrow> nat \<times> job_log" where
  "log_slot S jobId l =
     (case recent_job S jobId l of
        Some k \<Rightarrow> (k, l)
      | None \<Rightarrow> (length (jl_jobs l), l\<lparr>jl_jobs := jl_jobs l @ [(jobId, \<lambda>t. TimePoint_new)]\<rparr>))"

definition log_put :: "EventType \<Rightarrow> nat \<Rightarrow> TimePoint \<Rightarrow> job_log \<Rightarrow> job_log" where
  "log_put t k tp l = l\<lparr>jl_jobs := (jl_jobs l)[k := (fst (jl_jobs l ! k), (snd (jl_jobs l ! k))(t := tp))]\<rparr>"

definition log_duration :: "EventType \<Rightarrow> TimePoint \<Rightarrow> job_log \<Rightarrow> job_log" where
  "log_duration t tp l = l\<lparr>jl_durations := (\<lambda>u.
     if 0 < duration_us tp \<and> (u = t \<or> isInferenceCoreEvent t \<and> u = INFERENCE_CORE_ALL) then jl_durations l u @ [duration_us tp] else jl_durations l u)\<rparr>"

definition log_time_point :: "nat \<Rightarrow> EventType \<Rightarrow> int \<Rightarrow> TimePoint \<Rightarrow> job_log \<Rightarrow> job_log" where
  "log_time_point S t jobId tp l =
     (case log_slot S jobId l of (k, l') \<Rightarrow> if measured tp then log_duration t tp (log_put t k tp l') else log_put t k tp l')"

definition log_start :: "nat \<Rightarrow> int \<Rightarrow> EventType \<Rightarrow> int \<Rightarrow> job_log \<Rightarrow> job_log" where
  "log_start S now t jobId l = (case log_slot S jobId l of (k, l') \<Rightarrow> log_put t k \<lparr>tp_start = now, tp_end = 0\<rparr> l')"

definition log_end :: "nat \<Rightarrow> int \<Rightarrow> EventType \<Rightarrow> int \<Rightarrow> job_log \<Rightarrow> job_log" where
  "log_end S now t jobId l =
     (case recent_job S jobId l of
        None \<Rightarrow> l
      | Some k \<Rightarrow>
          let tp = snd (jl_jobs l ! k) t
          in if tp_start tp = 0 then l else log_duration t (tp\<lparr>tp_end := now\<rparr>) (log_put t k (tp\<lparr>tp_end := now\<rparr>) l))"

section \<open>A buffer refines a log\<close>

definition event_at :: "DeviceProfilerBuffer \<Rightarrow> EventType \<Rightarrow> nat \<Rightarrow> TimePoint" where
  "event_at b t i = (case map_of (db_events b) t of None \<Rightarrow> TimePoint_new | Some a \<Rightarrow> a ! i)"

text \<open>The statistics: a core event of all cores together is also counted, so the two entries are updated one after the other.\<close>

definition stats_ok :: "(EventType \<Rightarrow> rat list) \<Rightarrow> DeviceProfilerBuffer \<Rightarrow> bool" where
  "stats_ok ds b \<longleftrightarrow> (\<forall>t. stats_exact (ds t) (event_stats t b))"

text \<open>The ring: the job at position \<open>k\<close> of the log has the slot \<open>(k + 1) mod S\<close> while it is one of the last \<open>S\<close>.\<close>

definition job_slots_ok :: "nat \<Rightarrow> (int \<times> (EventType \<Rightarrow> TimePoint)) list \<Rightarrow> DeviceProfilerBuffer \<Rightarrow> bool" where
  "job_slots_ok S js b \<longleftrightarrow>
     length (db_job_ids b) = S \<and> (\<forall>t a. map_of (db_events b) t = Some a \<longrightarrow> length a = S) \<and>
     db_current_idx b = length js mod S \<and> db_job_count b = length js \<and> (\<forall>j \<in> set js. 0 \<le> fst j) \<and>
     (\<forall>k < length js. length js \<le> k + S \<longrightarrow>
        db_job_ids b ! (Suc k mod S) = fst (js ! k) \<and> (\<forall>t. event_at b t (Suc k mod S) = snd (js ! k) t)) \<and>
     (\<forall>k. length js \<le> k \<and> k < S \<longrightarrow> db_job_ids b ! (Suc k mod S) = - 1)"

definition window_distinct :: "nat \<Rightarrow> (int \<times> (EventType \<Rightarrow> TimePoint)) list \<Rightarrow> bool" where
  "window_distinct S js \<longleftrightarrow> (\<forall>i k. i < k \<and> k < length js \<and> length js \<le> i + S \<longrightarrow> fst (js ! i) \<noteq> fst (js ! k))"

definition buffer_ok :: "nat \<Rightarrow> job_log \<Rightarrow> DeviceProfilerBuffer \<Rightarrow> bool" where
  "buffer_ok S l b \<longleftrightarrow> job_slots_ok S (jl_jobs l) b \<and> window_distinct S (jl_jobs l) \<and> stats_ok (jl_durations l) b"

lemma buffer_new: "0 < S \<Longrightarrow> buffer_ok S job_log_new (DeviceProfilerBuffer_new S)"
  by (auto simp: buffer_ok_def job_slots_ok_def window_distinct_def stats_ok_def job_log_new_def DeviceProfilerBuffer_new_def PROFILER_BUFFER_SIZE_def
      event_stats_def new_exact)

text \<open>Positions whose distance is less than the size of the ring have different slots.\<close>

lemma slot_eq_iff:
  assumes "i < k + S" "k < i + S"
  shows "Suc i mod S = Suc k mod S \<longleftrightarrow> i = k"
proof
  assume e: "Suc i mod S = Suc k mod S"
  then have "S dvd (max i k - min i k)" using mod_eq_dvd_iff_nat [of "Suc (min i k)" "Suc (max i k)" S] by (auto simp: min_def max_def)
  then show "i = k" using assms by (auto simp: min_def max_def dest!: dvd_imp_le split: if_splits)
qed simp

lemma slot_position:
  assumes "i < S"
  obtains k where "Suc k mod S = i" "n \<le> k + S" "k < n \<or> k < S \<and> n \<le> k"
proof -
  define c where "c = (if i = 0 then S - 1 else i - 1)"
  have c: "c < S" "Suc c mod S = i" using assms by (auto simp: c_def)
  show thesis
  proof (cases "n < S")
    case True
    with c show thesis by (intro that [of c]) auto
  next
    case False
    define m where "m = (n - Suc c) div S"
    have "n - Suc c = m * S + (n - Suc c) mod S" by (simp add: m_def)
    moreover have "(n - Suc c) mod S < S" using assms by simp
    ultimately have "c + m * S < n" "n \<le> c + m * S + S" using c(1) False by linarith+
    moreover have "Suc (c + m * S) mod S = i" using c(2) by (metis add_Suc mod_mult_self1 mult.commute)
    ultimately show thesis by (intro that [of "c + m * S"]) auto
  qed
qed

lemma window_distinctD:
  "window_distinct S js \<Longrightarrow> i \<noteq> k \<Longrightarrow> i < length js \<Longrightarrow> k < length js \<Longrightarrow> length js \<le> i + S \<Longrightarrow> length js \<le> k + S \<Longrightarrow>
   fst (js ! i) \<noteq> fst (js ! k)"
  unfolding window_distinct_def by (metis nat_neq_iff)

lemma FindJobIndex_ok:
  assumes "buffer_ok S l b" "0 \<le> j" "0 < S"
  shows "FindJobIndex S j b = map_option (\<lambda>k. Suc k mod S) (recent_job S j l)"
proof (cases "recent_job S j l")
  case None
  have "db_job_ids b ! i \<noteq> j" if i: "i < S" for i
  proof -
    obtain k where k: "Suc k mod S = i" "length (jl_jobs l) \<le> k + S" "k < length (jl_jobs l) \<or> k < S \<and> length (jl_jobs l) \<le> k"
      using slot_position [OF i] by metis
    with None assms show ?thesis by (fastforce simp: recent_job_def find_None_iff buffer_ok_def job_slots_ok_def)
  qed
  then show ?thesis using None by (auto simp: FindJobIndex_def find_None_iff)
next
  case (Some k)
  then have k: "k < length (jl_jobs l)" "length (jl_jobs l) \<le> k + S" "fst (jl_jobs l ! k) = j"
    by (auto simp: recent_job_def find_Some_iff)
  then have s: "db_job_ids b ! (Suc k mod S) = j" using assms by (auto simp: buffer_ok_def job_slots_ok_def)
  have "db_job_ids b ! i \<noteq> j" if i: "i < S" "i \<noteq> Suc k mod S" for i
  proof -
    obtain q where q: "Suc q mod S = i" "length (jl_jobs l) \<le> q + S" "q < length (jl_jobs l) \<or> q < S \<and> length (jl_jobs l) \<le> q"
      using slot_position [OF i(1)] by metis
    then have "q \<noteq> k" using i(2) by auto
    with q k assms show ?thesis
      using window_distinctD [of S "jl_jobs l" q k] by (cases "q < length (jl_jobs l)") (auto simp: buffer_ok_def job_slots_ok_def)
  qed
  moreover have lt: "Suc k mod S < S" "\<And>i. i < Suc k mod S \<Longrightarrow> i < S" using assms(3) by (auto intro: less_trans)
  ultimately have "find (\<lambda>i. db_job_ids b ! i = j) [0..<S] = Some (Suc k mod S)"
    using s by (auto simp: find_Some_iff intro!: exI [of _ "Suc k mod S"])
  then show ?thesis using Some by (simp add: FindJobIndex_def)
qed

section \<open>Every operation of a buffer keeps the relation\<close>

lemma event_at_clear:
  assumes "\<forall>t a. map_of (db_events b) t = Some a \<longrightarrow> length a = S" "i < S" "i' < S"
  shows "event_at (b\<lparr>db_current_idx := c, db_job_ids := ids, db_job_count := n, db_events := map (\<lambda>(t, a). (t, a[i := TimePoint_new])) (db_events b)\<rparr>) t i' =
    (if i' = i then TimePoint_new else event_at b t i')"
  using assms by (auto simp: event_at_def map_of_map split: option.splits)

lemma slots_new:
  assumes "job_slots_ok S js b" "0 \<le> j" "0 < S"
  shows "job_slots_ok S (js @ [(j, \<lambda>t. TimePoint_new)])
    (b\<lparr>db_current_idx := Suc (length js) mod S, db_job_ids := (db_job_ids b)[Suc (length js) mod S := j], db_job_count := db_job_count b + 1,
       db_events := map (\<lambda>(t, a). (t, a[Suc (length js) mod S := TimePoint_new])) (db_events b)\<rparr>)" (is "job_slots_ok S ?js ?b")
proof -
  have r: "length (db_job_ids b) = S" "\<forall>t a. map_of (db_events b) t = Some a \<longrightarrow> length a = S" "\<forall>p \<in> set js. 0 \<le> fst p" "db_job_count b = length js"
    and used: "\<And>k. k < length js \<Longrightarrow> length js \<le> k + S \<Longrightarrow> db_job_ids b ! (Suc k mod S) = fst (js ! k) \<and> (\<forall>t. event_at b t (Suc k mod S) = snd (js ! k) t)"
    and free: "\<And>k. length js \<le> k \<Longrightarrow> k < S \<Longrightarrow> db_job_ids b ! (Suc k mod S) = - 1"
    using assms(1) by (auto simp: job_slots_ok_def)
  have lt: "k mod S < S" for k using assms(3) by simp
  have "db_job_ids ?b ! (Suc k mod S) = fst (?js ! k) \<and> (\<forall>t. event_at ?b t (Suc k mod S) = snd (?js ! k) t)"
    if "k < length ?js" "length ?js \<le> k + S" for k
    using used [of k] that r(1) lt slot_eq_iff [of k "length js" S] by (auto simp: event_at_clear [OF r(2)] nth_append nth_list_update less_Suc_eq)
  moreover have "db_job_ids ?b ! (Suc k mod S) = - 1" if "length ?js \<le> k" "k < S" for k
    using free [of k] that r(1) lt slot_eq_iff [of k "length js" S] by (auto simp: nth_list_update)
  ultimately show ?thesis using r assms(2) by (auto simp: job_slots_ok_def map_of_map)
qed

lemma slot_ok:
  assumes "buffer_ok S l b" "0 \<le> j" "0 < S" "log_slot S j l = (k, l')" "job_slot S j b = (slot, b')"
  shows "slot = Suc k mod S \<and> buffer_ok S l' b' \<and> k < length (jl_jobs l') \<and> length (jl_jobs l') \<le> k + S"
proof (cases "recent_job S j l")
  case None
  have n: "fst (jl_jobs l ! i) \<noteq> j" if "i < length (jl_jobs l)" "length (jl_jobs l) \<le> i + S" for i
    using None that by (auto simp: recent_job_def find_None_iff)
  have "window_distinct S (jl_jobs l @ [(j, \<lambda>t. TimePoint_new)])"
    using assms(1) n by (auto simp: buffer_ok_def window_distinct_def nth_append)
  moreover have "job_slots_ok S (jl_jobs l) b" "db_current_idx b = length (jl_jobs l) mod S" using assms(1) by (auto simp: buffer_ok_def job_slots_ok_def)
  moreover note slots_new [OF this(1) assms(2,3)]
  ultimately show ?thesis using assms None FindJobIndex_ok [OF assms(1-3)]
    by (auto simp: log_slot_def job_slot_def Let_def mod_Suc_eq buffer_ok_def stats_ok_def event_stats_def)
next
  case (Some i)
  then have "i < length (jl_jobs l)" "length (jl_jobs l) \<le> i + S" by (auto simp: recent_job_def find_Some_iff)
  with assms Some FindJobIndex_ok [OF assms(1-3)] show ?thesis by (auto simp: log_slot_def job_slot_def)
qed

lemma event_at_put:
  assumes "\<forall>t a. map_of (db_events b) t = Some a \<longrightarrow> length a = S" "i < S" "i' < S"
  shows "event_at (put_event S t i tp b) u i' = (if u = t \<and> i' = i then tp else event_at b u i')"
  using assms by (auto simp: event_at_def put_event_def events_of_def PROFILER_BUFFER_SIZE_def split: option.splits)

lemma put_ok:
  assumes "buffer_ok S l b" "k < length (jl_jobs l)" "length (jl_jobs l) \<le> k + S" "0 < S"
  shows "buffer_ok S (log_put t k tp l) (put_event S t (Suc k mod S) tp b)"
proof -
  have r: "\<forall>t a. map_of (db_events b) t = Some a \<longrightarrow> length a = S"
    and used: "\<And>k. k < length (jl_jobs l) \<Longrightarrow> length (jl_jobs l) \<le> k + S \<Longrightarrow>
      db_job_ids b ! (Suc k mod S) = fst (jl_jobs l ! k) \<and> (\<forall>t. event_at b t (Suc k mod S) = snd (jl_jobs l ! k) t)"
    using assms(1) by (auto simp: buffer_ok_def job_slots_ok_def)
  have lt: "k mod S < S" for k using assms(4) by simp
  let ?l = "log_put t k tp l" and ?b = "put_event S t (Suc k mod S) tp b"
  have f: "fst (jl_jobs ?l ! i) = fst (jl_jobs l ! i)" for i using assms(2) by (cases "i = k") (auto simp: log_put_def)
  have "event_at ?b u (Suc i mod S) = snd (jl_jobs ?l ! i) u" if "i < length (jl_jobs l)" "length (jl_jobs l) \<le> i + S" for i u
    using used [OF that] that assms(2,3) slot_eq_iff [of i k S] by (auto simp: event_at_put [OF r lt lt] log_put_def nth_list_update)
  moreover have "\<forall>u a. map_of (db_events ?b) u = Some a \<longrightarrow> length a = S"
    using r assms(4) by (auto simp: put_event_def events_of_def PROFILER_BUFFER_SIZE_def split: option.splits if_splits)
  moreover have "\<forall>j \<in> set (jl_jobs ?l). 0 \<le> fst j" using assms(1,2) by (auto simp: log_put_def buffer_ok_def job_slots_ok_def dest!: set_update_subset_insert [THEN subsetD])
  moreover have "length (jl_jobs ?l) = length (jl_jobs l)" "jl_durations ?l = jl_durations l" by (simp_all add: log_put_def)
  moreover have "db_job_ids ?b = db_job_ids b" "db_current_idx ?b = db_current_idx b" "db_job_count ?b = db_job_count b" "event_stats u ?b = event_stats u b" for u
    by (simp_all add: put_event_def event_stats_def)
  ultimately show ?thesis using assms(1) f by (simp add: buffer_ok_def job_slots_ok_def window_distinct_def stats_ok_def)
qed

lemma event_stats_add: "event_stats u (add_stat t us b) = (if u = t then Update us (event_stats t b) else event_stats u b)"
  by (simp add: event_stats_def add_stat_def)

lemma slots_add_stat [simp]: "job_slots_ok S js (add_stat t us b) = job_slots_ok S js b"
  by (simp add: job_slots_ok_def add_stat_def event_at_def)

lemma stats_update_ok:
  assumes "buffer_ok S l b"
  shows "buffer_ok S (log_duration t tp l) (update_stats t tp b)"
  using assms by (auto simp: buffer_ok_def stats_ok_def log_duration_def update_stats_def Let_def event_stats_add isInferenceCoreEvent_def
      Update_exact Update_skips)

lemma add_time_point_ok:
  assumes "buffer_ok S l b" "0 \<le> j" "0 < S"
  shows "buffer_ok S (log_time_point S t j tp l) (add_time_point S t j tp b)"
proof -
  obtain k l' slot b' where e: "log_slot S j l = (k, l')" "job_slot S j b = (slot, b')" by (metis surj_pair)
  with slot_ok [OF assms e] assms(3) show ?thesis by (simp add: log_time_point_def add_time_point_def Let_def put_ok stats_update_ok)
qed

lemma start_point_ok:
  assumes "buffer_ok S l b" "0 \<le> j" "0 < S"
  shows "buffer_ok S (log_start S now t j l) (start_point S now t j b)"
proof -
  obtain k l' slot b' where e: "log_slot S j l = (k, l')" "job_slot S j b = (slot, b')" by (metis surj_pair)
  with slot_ok [OF assms e] assms(3) show ?thesis by (simp add: log_start_def start_point_def put_ok)
qed

lemma end_point_ok:
  assumes "buffer_ok S l b" "0 \<le> j" "0 < S"
  shows "buffer_ok S (log_end S now t j l) (end_point S now t j b)"
proof (cases "recent_job S j l")
  case None
  with assms FindJobIndex_ok [OF assms] show ?thesis by (simp add: log_end_def end_point_def)
next
  case (Some k)
  then have k: "k < length (jl_jobs l)" "length (jl_jobs l) \<le> k + S" by (auto simp: recent_job_def find_Some_iff)
  then have "event_at b t (Suc k mod S) = snd (jl_jobs l ! k) t" using assms(1) by (auto simp: buffer_ok_def job_slots_ok_def)
  then have e: "events_of S t b ! (Suc k mod S) = snd (jl_jobs l ! k) t"
    using assms(3) by (auto simp: event_at_def events_of_def PROFILER_BUFFER_SIZE_def split: option.splits)
  have "log_put t k (snd (jl_jobs l ! k) t) l = l" by (simp add: log_put_def)
  with put_ok [OF assms(1) k assms(3), of t "snd (jl_jobs l ! k) t"] have "buffer_ok S l (put_event S t (Suc k mod S) (snd (jl_jobs l ! k) t) b)" by simp
  with Some FindJobIndex_ok [OF assms] e show ?thesis
    by (simp add: log_end_def end_point_def Let_def put_ok [OF assms(1) k assms(3)] stats_update_ok)
qed

section \<open>The profiler\<close>

record profiler_log =
  pl_enabled :: bool
  pl_logs :: "(string, (int, job_log) omap) omap"

definition with_log :: "string \<Rightarrow> int \<Rightarrow> (job_log \<Rightarrow> job_log) \<Rightarrow> profiler_log \<Rightarrow> profiler_log" where
  "with_log taskName deviceId f p =
     (let devs = (case map_of (pl_logs p) taskName of None \<Rightarrow> [] | Some ds \<Rightarrow> ds);
          l = (case map_of devs deviceId of None \<Rightarrow> job_log_new | Some l \<Rightarrow> l)
      in p\<lparr>pl_logs := m_put taskName (m_put deviceId (f l) devs) (pl_logs p)\<rparr>)"

datatype profiler_call =
    Add_call EventType string int int "TimePoint option"
  | Start_call int EventType string int int
  | End_call int EventType string int int
  | Flush_call
  | Enable_call bool

fun run_profiler :: "nat \<Rightarrow> profiler_call \<Rightarrow> Profiler \<Rightarrow> Profiler" where
  "run_profiler S (Add_call t task d j tp) p = AddTimePoint S t task d j tp p"
| "run_profiler S (Start_call now t task d j) p = Start_profiler S now t task d j p"
| "run_profiler S (End_call now t task d j) p = End_profiler S now t task d j p"
| "run_profiler S Flush_call p = Flush_profiler p"
| "run_profiler S (Enable_call e) p = SetEnabled_profiler e p"

definition log_guard :: "EventType \<Rightarrow> int \<Rightarrow> profiler_log \<Rightarrow> bool" where
  "log_guard t j p \<longleftrightarrow> pl_enabled p \<and> t \<noteq> UNKNOWN_EVENT \<and> 0 \<le> j"

fun log_profiler :: "nat \<Rightarrow> profiler_call \<Rightarrow> profiler_log \<Rightarrow> profiler_log" where
  "log_profiler S (Add_call t task d j (Some tp)) p = (if log_guard t j p then with_log task d (log_time_point S t j tp) p else p)"
| "log_profiler S (Add_call t task d j None) p = p"
| "log_profiler S (Start_call now t task d j) p = (if log_guard t j p then with_log task d (log_start S now t j) p else p)"
| "log_profiler S (End_call now t task d j) p = (if log_guard t j p then with_log task d (log_end S now t j) p else p)"
| "log_profiler S Flush_call p = (if pl_enabled p then p\<lparr>pl_logs := []\<rparr> else p)"
| "log_profiler S (Enable_call e) p = p\<lparr>pl_enabled := e\<rparr>"

text \<open>Two maps with the same keys and related values.\<close>

definition omap_rel :: "('a \<Rightarrow> 'b \<Rightarrow> bool) \<Rightarrow> ('k, 'a) omap \<Rightarrow> ('k, 'b) omap \<Rightarrow> bool" where
  "omap_rel R = list_all2 (\<lambda>p q. fst p = fst q \<and> R (snd p) (snd q))"

lemma omap_rel_Nil [simp]: "omap_rel R [] []"
  by (simp add: omap_rel_def)

lemma omap_rel_lookup: "omap_rel R m n \<Longrightarrow> rel_option R (map_of m k) (map_of n k)"
  unfolding omap_rel_def by (induction rule: list_all2_induct) auto

lemma omap_rel_put: "omap_rel R m n \<Longrightarrow> R v w \<Longrightarrow> omap_rel R (m_put k v m) (m_put k w n)"
  unfolding omap_rel_def by (induction rule: list_all2_induct) auto

definition profiler_ok :: "nat \<Rightarrow> profiler_log \<Rightarrow> Profiler \<Rightarrow> bool" where
  "profiler_ok S L p \<longleftrightarrow> pl_enabled L = pf_enabled p \<and> omap_rel (omap_rel (buffer_ok S)) (pl_logs L) (pf_deviceBuffers p)"

lemma with_ok:
  assumes "profiler_ok S L p" "0 < S" "\<And>l b. buffer_ok S l b \<Longrightarrow> buffer_ok S (f l) (g b)"
  shows "profiler_ok S (with_log task d f L) (with_buffer S task d g p)"
proof -
  let ?ls = "case map_of (pl_logs L) task of None \<Rightarrow> [] | Some ds \<Rightarrow> ds" and ?bs = "case map_of (pf_deviceBuffers p) task of None \<Rightarrow> [] | Some ds \<Rightarrow> ds"
  have r: "omap_rel (omap_rel (buffer_ok S)) (pl_logs L) (pf_deviceBuffers p)" using assms(1) by (simp add: profiler_ok_def)
  have ds: "omap_rel (buffer_ok S) ?ls ?bs" using omap_rel_lookup [OF r, of task] by (auto split: option.splits)
  have "buffer_ok S (case map_of ?ls d of None \<Rightarrow> job_log_new | Some l \<Rightarrow> l) (case map_of ?bs d of None \<Rightarrow> DeviceProfilerBuffer_new S | Some b \<Rightarrow> b)"
    using omap_rel_lookup [OF ds, of d] buffer_new [OF assms(2)] by (auto split: option.splits)
  with assms(1,3) r ds show ?thesis by (simp add: profiler_ok_def with_log_def with_buffer_def Let_def omap_rel_put)
qed

lemma run_profiler_ok:
  assumes "profiler_ok S L p" "0 < S"
  shows "profiler_ok S (log_profiler S c L) (run_profiler S c p)"
proof -
  have e: "pl_enabled L = pf_enabled p" using assms(1) by (simp add: profiler_ok_def)
  show ?thesis
  proof (cases c)
    case (Add_call t task d j tp)
    with assms e show ?thesis
      by (cases tp) (auto simp: AddTimePoint_def log_guard_def intro!: with_ok add_time_point_ok)
  next
    case (Start_call now t task d j)
    with assms e show ?thesis by (auto simp: Start_profiler_def log_guard_def intro!: with_ok start_point_ok)
  next
    case (End_call now t task d j)
    with assms e show ?thesis by (auto simp: End_profiler_def log_guard_def intro!: with_ok end_point_ok)
  qed (use assms e in \<open>auto simp: Flush_profiler_def SetEnabled_profiler_def profiler_ok_def\<close>)
qed

lemma run_calls_ok: "profiler_ok S L p \<Longrightarrow> 0 < S \<Longrightarrow> profiler_ok S (fold (log_profiler S) cs L) (fold (run_profiler S) cs p)"
  by (induction cs arbitrary: L p) (auto intro: run_profiler_ok)

section \<open>Metrics and statistics\<close>

definition found_log :: "nat \<Rightarrow> int \<Rightarrow> job_log \<Rightarrow> ((EventType \<Rightarrow> rat) \<times> bool) option" where
  "found_log S jobId l =
     map_option (\<lambda>k. (\<lambda>t. if measured (snd (jl_jobs l ! k) t) then duration_us (snd (jl_jobs l ! k) t) else 0, tp_start (snd (jl_jobs l ! k) NPU_TASK_TOTAL) \<noteq> 0))
       (recent_job S jobId l)"

definition log_metrics :: "nat \<Rightarrow> int \<Rightarrow> profiler_log \<Rightarrow> JobMetrics" where
  "log_metrics S jobId L = job_metrics (found_log S jobId) (pl_logs L)"

lemma getDuration_event: "getDuration b i t = (if measured (event_at b t i) then duration_us (event_at b t i) else 0)"
  by (auto simp: getDuration_def event_at_def measured_def TimePoint_new_def split: option.splits)

lemma measured_event: "buffer_measured b i \<longleftrightarrow> tp_start (event_at b NPU_TASK_TOTAL i) \<noteq> 0"
  by (auto simp: buffer_measured_def event_at_def TimePoint_new_def split: option.splits)

lemma found_ok:
  assumes "buffer_ok S l b" "0 \<le> j" "0 < S"
  shows "found_job S j b = found_log S j l"
proof (cases "recent_job S j l")
  case (Some k)
  then have "k < length (jl_jobs l)" "length (jl_jobs l) \<le> k + S" by (auto simp: recent_job_def find_Some_iff)
  then have "event_at b t (Suc k mod S) = snd (jl_jobs l ! k) t" for t using assms(1) by (auto simp: buffer_ok_def job_slots_ok_def)
  with Some FindJobIndex_ok [OF assms] show ?thesis by (simp add: found_job_def found_log_def getDuration_event measured_event fun_eq_iff)
qed (use FindJobIndex_ok [OF assms] in \<open>simp add: found_job_def found_log_def\<close>)

lemma task_metrics_cong:
  assumes "omap_rel R ls bs" "\<And>l b. R l b \<Longrightarrow> f l = g b"
  shows "task_metrics f (name, ls) = task_metrics g (name, bs)"
proof -
  have "fold (\<lambda>(d, b). add_device d (f b)) ls tm = fold (\<lambda>(d, b). add_device d (g b)) bs tm" for tm
    using assms(1) unfolding omap_rel_def by (induction arbitrary: tm rule: list_all2_induct) (auto simp: assms(2) split_def)
  then show ?thesis by (simp add: task_metrics_def)
qed

lemma job_metrics_cong:
  assumes "omap_rel (omap_rel R) L B" "\<And>l b. R l b \<Longrightarrow> f l = g b"
  shows "job_metrics f L = job_metrics g B"
proof -
  have "map (task_metrics f) L = map (task_metrics g) B"
    using assms(1) unfolding omap_rel_def [of "omap_rel R"]
    by (induction rule: list_all2_induct) (auto simp: task_metrics_cong [OF _ assms(2)])
  then show ?thesis by (simp add: job_metrics_def)
qed

definition Profiler_new :: "bool \<Rightarrow> Profiler" where
  "Profiler_new enabled = \<lparr>pf_enabled = enabled, pf_deviceBuffers = []\<rparr>"

definition profiler_log_new :: "bool \<Rightarrow> profiler_log" where
  "profiler_log_new enabled = \<lparr>pl_enabled = enabled, pl_logs = []\<rparr>"

lemma profiler_new_ok: "profiler_ok S (profiler_log_new e) (Profiler_new e)"
  by (simp add: profiler_ok_def profiler_log_new_def Profiler_new_def)

text \<open>The statistics of a buffer, which are never cleared with a slot, are those of all durations.\<close>

lemma profiler_stats_exact:
  assumes "0 < S" "map_of (pf_deviceBuffers (fold (run_profiler S) cs (Profiler_new e))) task = Some bs" "map_of bs d = Some b"
  obtains ls l where "map_of (pl_logs (fold (log_profiler S) cs (profiler_log_new e))) task = Some ls" "map_of ls d = Some l"
    "\<And>t. stats_exact (jl_durations l t) (event_stats t b)"
proof -
  have "profiler_ok S (fold (log_profiler S) cs (profiler_log_new e)) (fold (run_profiler S) cs (Profiler_new e))"
    using assms(1) by (intro run_calls_ok profiler_new_ok)
  then have r: "omap_rel (omap_rel (buffer_ok S)) (pl_logs (fold (log_profiler S) cs (profiler_log_new e))) (pf_deviceBuffers (fold (run_profiler S) cs (Profiler_new e)))"
    by (simp add: profiler_ok_def)
  from omap_rel_lookup [OF r, of task] assms(2)
  obtain ls where ls: "map_of (pl_logs (fold (log_profiler S) cs (profiler_log_new e))) task = Some ls" "omap_rel (buffer_ok S) ls bs"
    by (auto simp: option_rel_Some2)
  from omap_rel_lookup [OF ls(2), of d] assms(3) obtain l where "map_of ls d = Some l" "buffer_ok S l b" by (auto simp: option_rel_Some2)
  with ls(1) that show thesis by (auto simp: buffer_ok_def stats_ok_def)
qed

text \<open>The durations of one device do not depend on the others.\<close>

lemma fold_push_filter:
  "0 \<le> d \<Longrightarrow> fold (push_device S d name) (filter (\<lambda>(e, b). e = d) ds) data = fold (push_device S d name) ds data"
  by (induction ds arbitrary: data) (auto simp: push_device_def)

lemma performance_of_device:
  assumes "0 \<le> d"
  shows "GetPerformanceDataByDevice S d (p\<lparr>pf_deviceBuffers := map (\<lambda>(name, ds). (name, filter (\<lambda>(e, b). e = d) ds)) (pf_deviceBuffers p)\<rparr>) =
    GetPerformanceDataByDevice S d p"
proof -
  have "fold (\<lambda>(name, ds). fold (push_device S d name) ds) (map (\<lambda>(name, ds). (name, filter (\<lambda>(e, b). e = d) ds)) bufs) data =
      fold (\<lambda>(name, ds). fold (push_device S d name) ds) bufs data" for bufs data
    by (induction bufs arbitrary: data) (auto simp: fold_push_filter [OF assms])
  then show ?thesis by (simp add: GetPerformanceDataByDevice_def)
qed

text \<open>
  The number of a job is a place of the pool of 1024 jobs of an engine (\<^verbatim>\<open>INFERENCE_JOB_MAX_COUNT\<close>), fewer than the 2000 slots: the
  second job with a number finds the slot of the first, with its time points. If the first ran on core 0 and the second runs on core 1, the
  time reported for the second is that of the first.
\<close>

lemmas profiler_code = AddTimePoint_def with_buffer_def add_time_point_def job_slot_def FindJobIndex_def put_event_def events_of_def update_stats_def
  add_stat_def event_stats_def measured_def duration_us_def isInferenceCoreEvent_def DeviceProfilerBuffer_new_def PROFILER_BUFFER_SIZE_def
  TimePoint_new_def Profiler_new_def Let_def Update_def StatsAccumulator_new_def less_EventType_def

lemmas metrics_code = GetJobMetrics_def job_metrics_def task_metrics_def add_device_def found_job_def task_has_data_def TaskMetrics_new_def
  npu_metrics_def getDuration_def buffer_measured_def CPU_DEVICE_ID_def GetTask_def

definition recycled_calls :: "profiler_call list" where
  "recycled_calls =
     [Add_call INFERENCE_CORE_0 ''npu'' 0 5 (Some \<lparr>tp_start = 1000, tp_end = 3000\<rparr>),
      Add_call INFERENCE_CORE_1 ''npu'' 0 5 (Some \<lparr>tp_start = 10000, tp_end = 20000\<rparr>)]"

lemma recycled_buffers:
  "map (\<lambda>(n, ds). (n, map (\<lambda>(d, b). (d, db_events b, db_job_ids b)) ds)) (pf_deviceBuffers (fold (run_profiler 2) recycled_calls (Profiler_new True))) =
   [(''npu'', [(0, [(INFERENCE_CORE_0, [TimePoint_new, \<lparr>tp_start = 1000, tp_end = 3000\<rparr>]),
                    (INFERENCE_CORE_1, [TimePoint_new, \<lparr>tp_start = 10000, tp_end = 20000\<rparr>])], [- 1, 5])])]"
  by (simp add: recycled_calls_def profiler_code numeral_2_eq_2)

lemma recycled_job_reports_old_core:
  "map (\<lambda>tm. map (\<lambda>(d, m). (d, nm_inference_core_all_us m)) (tm_devices tm)) (jm_tasks (GetJobMetrics 2 5 (fold (run_profiler 2) recycled_calls (Profiler_new True)))) = [[(0, 2)]]"
  by (simp add: recycled_calls_def profiler_code metrics_code numeral_2_eq_2)

text \<open>
  Claim C28. Whatever time points, starts, ends, flushes and switches the tasks of any devices give the profiler, the metrics that it
  computes for a job from its rings of slots are those computed from lists of all jobs in which nothing is overwritten and a job is known
  while it is one of the last \<open>S\<close> of its task and device: an event is never put down to another job, and no time point of a known job is lost.
\<close>
theorem profiler_metrics_exact:
  assumes "0 < S" "0 \<le> j"
  shows "GetJobMetrics S j (fold (run_profiler S) cs (Profiler_new e)) = log_metrics S j (fold (log_profiler S) cs (profiler_log_new e))"
proof -
  have "profiler_ok S (fold (log_profiler S) cs (profiler_log_new e)) (fold (run_profiler S) cs (Profiler_new e))"
    using assms(1) by (intro run_calls_ok profiler_new_ok)
  then show ?thesis unfolding GetJobMetrics_def log_metrics_def
    by (intro job_metrics_cong [where R = "buffer_ok S", symmetric]) (simp_all add: profiler_ok_def found_ok [OF _ assms(2,1)])
qed

definition sample_calls :: "profiler_call list" where
  "sample_calls =
     [Start_call 1000 H2D ''npu'' 0 5, Start_call 2000 H2D ''npu'' 0 6, End_call 3000 H2D ''npu'' 0 5, Start_call 4000 H2D ''npu'' 0 7,
      End_call 6000 H2D ''npu'' 0 7]"

theorem profiler_metrics_exact_witness:
  "(0 :: nat) < 2 \<and> (0 :: int) \<le> 7 \<and>
   map (\<lambda>tm. (tm_task_name tm, map (\<lambda>(d, m). (d, nm_h2d_us m)) (tm_devices tm))) (jm_tasks (GetJobMetrics 2 7 (fold (run_profiler 2) sample_calls (Profiler_new True)))) =
     [(''npu'', [(0, 2)])] \<and>
   GetJobMetrics 2 7 (fold (run_profiler 2) sample_calls (Profiler_new True)) = log_metrics 2 7 (fold (log_profiler 2) sample_calls (profiler_log_new True))"
proof (intro conjI)
  show "map (\<lambda>tm. (tm_task_name tm, map (\<lambda>(d, m). (d, nm_h2d_us m)) (tm_devices tm)))
      (jm_tasks (GetJobMetrics 2 7 (fold (run_profiler 2) sample_calls (Profiler_new True)))) = [(''npu'', [(0, 2)])]"
    by (simp add: sample_calls_def profiler_code metrics_code Start_profiler_def End_profiler_def start_point_def end_point_def numeral_2_eq_2)
  show "GetJobMetrics 2 7 (fold (run_profiler 2) sample_calls (Profiler_new True)) = log_metrics 2 7 (fold (log_profiler 2) sample_calls (profiler_log_new True))"
    by (rule profiler_metrics_exact) simp_all
qed simp_all

end
