(* ===== verification/Timers.thy ===== *)
theory Timers
  imports User_Events Circular_Buffer
begin

text \<open>
  The timers: \<^verbatim>\<open>src/lib/inference_timer.cpp\<close> (the last thirty latencies and inference times of a task or an engine, and the statistics of
  all of them) and \<^verbatim>\<open>src/lib/usage_timer.cpp\<close> (the share of an interval in which an NPU core was busy). Numbers that are \<^verbatim>\<open>double\<close> in
  the code are rational here. The rings are those of \<^verbatim>\<open>Circular_Buffer\<close>.
\<close>

section \<open>The inference timer\<close>

text \<open>Number, mean and sum of squared deviations of one series.\<close>

record series =
  sr_mean :: rat
  sr_M2 :: rat
  sr_N :: nat

record InferenceTimer =
  it_latency :: "int CircularBuffer"
  it_infTime :: "u32 CircularBuffer"
  it_latencyStat :: series
  it_inferenceTimeStat :: series

definition InferenceTimer_new :: InferenceTimer where
  "InferenceTimer_new = \<lparr>it_latency = CircularBuffer_new 0 30, it_infTime = CircularBuffer_new 0 30,
     it_latencyStat = \<lparr>sr_mean = 0, sr_M2 = 0, sr_N = 0\<rparr>, it_inferenceTimeStat = \<lparr>sr_mean = 0, sr_M2 = 0, sr_N = 0\<rparr>\<rparr>"

definition PushLatency :: "int \<Rightarrow> InferenceTimer \<Rightarrow> InferenceTimer" where
  "PushLatency x t = t\<lparr>it_latency := Push x (it_latency t)\<rparr>"

definition PushInferenceTime :: "u32 \<Rightarrow> InferenceTimer \<Rightarrow> InferenceTimer" where
  "PushInferenceTime x t = t\<lparr>it_infTime := Push x (it_infTime t)\<rparr>"

definition latency :: "InferenceTimer \<Rightarrow> int option" where
  "latency t = (if IsEmpty (it_latency t) then Some 0 else Get (it_latency t))"

definition inference_time :: "InferenceTimer \<Rightarrow> u32 option" where
  "inference_time t = (if IsEmpty (it_infTime t) then Some 0 else Get (it_infTime t))"

definition GetLatencyVector :: "InferenceTimer \<Rightarrow> int list" where
  "GetLatencyVector t = (if IsEmpty (it_latency t) then [] else ToVector (it_latency t))"

definition GetNpuInferenceTimeVector :: "InferenceTimer \<Rightarrow> u32 list" where
  "GetNpuInferenceTimeVector t = (if IsEmpty (it_infTime t) then [] else ToVector (it_infTime t))"

definition update_series :: "rat \<Rightarrow> series \<Rightarrow> series" where
  "update_series x s =
     (let n = sr_N s + 1; delta = x - sr_mean s; mean = sr_mean s + delta / of_nat n; delta2 = x - mean
      in \<lparr>sr_mean = mean, sr_M2 = sr_M2 s + delta * delta2, sr_N = n\<rparr>)"

definition UpdateLatencyStatistics :: "int \<Rightarrow> InferenceTimer \<Rightarrow> InferenceTimer" where
  "UpdateLatencyStatistics x t = t\<lparr>it_latencyStat := update_series (of_int x) (it_latencyStat t)\<rparr>"

definition UpdateInferenceTimeStatistics :: "u32 \<Rightarrow> InferenceTimer \<Rightarrow> InferenceTimer" where
  "UpdateInferenceTimeStatistics x t = t\<lparr>it_inferenceTimeStat := update_series (of_nat (unat x)) (it_inferenceTimeStat t)\<rparr>"

text \<open>The mean, and the variance under the root of the standard deviation.\<close>

definition series_mean :: "series \<Rightarrow> rat" where
  "series_mean s = (if 0 < sr_N s then sr_mean s else 0)"

definition series_variance :: "series \<Rightarrow> rat" where
  "series_variance s = (if 1 < sr_N s then sr_M2 s / of_nat (sr_N s - 1) else 0)"

definition GetLatencyMean :: "InferenceTimer \<Rightarrow> rat" where "GetLatencyMean t = series_mean (it_latencyStat t)"
definition GetLatencyVariance :: "InferenceTimer \<Rightarrow> rat" where "GetLatencyVariance t = series_variance (it_latencyStat t)"
definition GetLatencyCnt :: "InferenceTimer \<Rightarrow> nat" where "GetLatencyCnt t = sr_N (it_latencyStat t)"
definition GetNpuInferenceTimeMean :: "InferenceTimer \<Rightarrow> rat" where "GetNpuInferenceTimeMean t = series_mean (it_inferenceTimeStat t)"
definition GetNpuInferenceTimeVariance :: "InferenceTimer \<Rightarrow> rat" where "GetNpuInferenceTimeVariance t = series_variance (it_inferenceTimeStat t)"
definition GetNpuInferenceTimeCnt :: "InferenceTimer \<Rightarrow> nat" where "GetNpuInferenceTimeCnt t = sr_N (it_inferenceTimeStat t)"

section \<open>The usage timer\<close>

text \<open>The clock is in microseconds; a quotient by zero is not a finite number, None.\<close>

record UsageTimer =
  ut_prevTickTime :: int
  ut_usage :: "rat option"
  ut_usageDuration :: rat
  ut_usageCount :: nat
  ut_prevUsage :: nat

definition UsageTimer_new :: "int \<Rightarrow> UsageTimer" where
  "UsageTimer_new now = \<lparr>ut_prevTickTime = now, ut_usage = Some 0, ut_usageDuration = 0, ut_usageCount = 0, ut_prevUsage = 0\<rparr>"

definition onTick :: "int \<Rightarrow> UsageTimer \<Rightarrow> UsageTimer" where
  "onTick now t =
     (let interval = now - ut_prevTickTime t
      in \<lparr>ut_prevTickTime = now, ut_usage = (if interval = 0 then None else Some (ut_usageDuration t / of_int interval)), ut_usageDuration = 0,
          ut_usageCount = 0, ut_prevUsage = ut_usageCount t\<rparr>)"

definition add_usage :: "rat \<Rightarrow> UsageTimer \<Rightarrow> UsageTimer" where
  "add_usage x t = t\<lparr>ut_usageDuration := x + ut_usageDuration t, ut_usageCount := ut_usageCount t + 1\<rparr>"

definition getUsage :: "UsageTimer \<Rightarrow> rat option" where
  "getUsage t = ut_usage t"

section \<open>What the timers report\<close>

definition series_exact :: "rat list \<Rightarrow> series \<Rightarrow> bool" where
  "series_exact xs s \<longleftrightarrow> sr_N s = length xs \<and> sr_mean s = (if xs = [] then 0 else list_mean xs) \<and> sr_M2 s = (if xs = [] then 0 else list_deviation xs)"

lemma update_series_exact: "series_exact xs s \<Longrightarrow> series_exact (xs @ [x]) (update_series x s)"
proof (cases "xs = []")
  case True
  then show "series_exact xs s \<Longrightarrow> ?thesis" by (simp add: series_exact_def update_series_def Let_def list_mean_def list_deviation_def)
next
  case False
  then show "series_exact xs s \<Longrightarrow> ?thesis" by (simp add: series_exact_def update_series_def Let_def mean_snoc deviation_snoc add.commute)
qed

lemma series_values:
  assumes "series_exact xs s"
  shows "series_mean s = (if xs = [] then 0 else list_mean xs)" "series_variance s = (if length xs < 2 then 0 else list_deviation xs / of_nat (length xs - 1))"
  using assms by (auto simp: series_exact_def series_mean_def series_variance_def)

text \<open>A finished job pushes its latency and its inference time and updates both statistics.\<close>

definition finish_job :: "int \<times> u32 \<Rightarrow> InferenceTimer \<Rightarrow> InferenceTimer" where
  "finish_job = (\<lambda>(l, i) t. PushInferenceTime i (PushLatency l (UpdateInferenceTimeStatistics i (UpdateLatencyStatistics l t))))"

lemma finish_fields:
  "it_latency (fold finish_job js t) = fold Push (map fst js) (it_latency t)"
  "it_infTime (fold finish_job js t) = fold Push (map snd js) (it_infTime t)"
  "it_latencyStat (fold finish_job js t) = fold update_series (map (of_int \<circ> fst) js) (it_latencyStat t)"
  "it_inferenceTimeStat (fold finish_job js t) = fold update_series (map (of_nat \<circ> unat \<circ> snd) js) (it_inferenceTimeStat t)"
  by (induction js arbitrary: t)
    (auto simp: finish_job_def PushInferenceTime_def PushLatency_def UpdateInferenceTimeStatistics_def UpdateLatencyStatistics_def)

lemma series_fold: "series_exact xs s \<Longrightarrow> series_exact (xs @ ys) (fold update_series ys s)"
proof (induction ys arbitrary: xs s)
  case (Cons y ys)
  from Cons.IH [OF update_series_exact [OF Cons.prems]] show ?case by simp
qed simp

lemma ring_last:
  assumes "0 < n"
  shows "cb_ok (fold Push xs (CircularBuffer_new d n))" "ToVector (fold Push xs (CircularBuffer_new d n)) = drop (length xs - n) xs"
proof -
  have "cb_ok (CircularBuffer_new d n)" "ToVector (CircularBuffer_new d n) = []" "cb_size (CircularBuffer_new d n) = n"
    using assms by (auto simp: CircularBuffer_new_def cb_ok_def ToVector_def)
  then show "cb_ok (fold Push xs (CircularBuffer_new d n))" "ToVector (fold Push xs (CircularBuffer_new d n)) = drop (length xs - n) xs"
    using ring.push_list [of "CircularBuffer_new d n" xs] by auto
qed

lemma vector_or_empty: "cb_ok b \<Longrightarrow> (if IsEmpty b then [] else ToVector b) = ToVector b"
  by (metis IsEmpty_def length_0_conv length_ToVector)

lemma vectors:
  "cb_ok (it_latency t) \<Longrightarrow> GetLatencyVector t = ToVector (it_latency t)" "cb_ok (it_infTime t) \<Longrightarrow> GetNpuInferenceTimeVector t = ToVector (it_infTime t)"
  unfolding GetLatencyVector_def GetNpuInferenceTimeVector_def by (rule vector_or_empty, assumption)+

text \<open>After the jobs of a list the vectors are their last thirty measurements, and the statistics are those of all of them.\<close>

lemma timer_reports:
  fixes js :: "(int \<times> u32) list"
  defines "t \<equiv> fold finish_job js InferenceTimer_new" and "xs \<equiv> map (of_int \<circ> fst) js" and "ys \<equiv> map (of_nat \<circ> unat \<circ> snd) js"
  shows "GetLatencyVector t = drop (length js - 30) (map fst js)"
    and "GetNpuInferenceTimeVector t = drop (length js - 30) (map snd js)"
    and "GetLatencyCnt t = length js" and "GetNpuInferenceTimeCnt t = length js"
    and "GetLatencyMean t = (if js = [] then 0 else list_mean xs)"
    and "GetLatencyVariance t = (if length js < 2 then 0 else list_deviation xs / of_nat (length js - 1))"
    and "GetNpuInferenceTimeMean t = (if js = [] then 0 else list_mean ys)"
    and "GetNpuInferenceTimeVariance t = (if length js < 2 then 0 else list_deviation ys / of_nat (length js - 1))"
proof -
  have "it_latency t = fold Push (map fst js) (CircularBuffer_new 0 30)" "it_infTime t = fold Push (map snd js) (CircularBuffer_new 0 30)"
    by (simp_all add: t_def finish_fields InferenceTimer_new_def)
  then show "GetLatencyVector t = drop (length js - 30) (map fst js)" "GetNpuInferenceTimeVector t = drop (length js - 30) (map snd js)"
    using ring_last [of 30 "map fst js" 0] ring_last [of 30 "map snd js" 0] by (simp_all add: vectors)
  have "series_exact [] \<lparr>sr_mean = 0, sr_M2 = 0, sr_N = 0\<rparr>" by (simp add: series_exact_def)
  note s = series_fold [OF this, simplified]
  have e: "series_exact xs (it_latencyStat t)" "series_exact ys (it_inferenceTimeStat t)"
    using s by (simp_all add: t_def xs_def ys_def finish_fields InferenceTimer_new_def)
  show "GetLatencyCnt t = length js" "GetNpuInferenceTimeCnt t = length js"
    using e by (simp_all add: GetLatencyCnt_def GetNpuInferenceTimeCnt_def series_exact_def xs_def ys_def)
  show "GetLatencyMean t = (if js = [] then 0 else list_mean xs)" "GetNpuInferenceTimeMean t = (if js = [] then 0 else list_mean ys)"
    using series_values(1) [OF e(1)] series_values(1) [OF e(2)] by (simp_all add: GetLatencyMean_def GetNpuInferenceTimeMean_def xs_def ys_def)
  show "GetLatencyVariance t = (if length js < 2 then 0 else list_deviation xs / of_nat (length js - 1))"
    "GetNpuInferenceTimeVariance t = (if length js < 2 then 0 else list_deviation ys / of_nat (length js - 1))"
    using series_values(2) [OF e(1)] series_values(2) [OF e(2)] by (simp_all add: GetLatencyVariance_def GetNpuInferenceTimeVariance_def xs_def ys_def)
qed

text \<open>The usage after a tick is the sum of what was added since the tick before, as a share of the time between them.\<close>

lemma add_usage_fold:
  "ut_usageDuration (fold add_usage xs t) = ut_usageDuration t + sum_list xs" "ut_usageCount (fold add_usage xs t) = ut_usageCount t + length xs"
  "ut_prevTickTime (fold add_usage xs t) = ut_prevTickTime t"
  by (induction xs arbitrary: t) (auto simp: add_usage_def)

lemma usage_of_interval:
  assumes "a < b"
  shows "getUsage (onTick b (fold add_usage xs (onTick a t))) = Some (sum_list xs / of_int (b - a))"
  using assms by (simp add: getUsage_def onTick_def [of b] Let_def add_usage_fold) (simp add: onTick_def Let_def)

end
