(* ===== verification/Spec2Isabelle.thy ===== *)
theory Spec2Isabelle
  imports Dxrt_Service_Correct Npu_Encode_Correct Ipc_Packet Circular_Buffer Sub_Batch Buffer_Pools_Correct Stop_Gate Device_Pool_Correct
    Acc_In_Flight Task_Import_Correct Monitor_Shm Profiler_Correct Timers
begin

text \<open>
  \<^bold>\<open>DX-RT, the runtime of the DEEPX NPU.\<close>
  A client process loads a compiled model with \<open>InferenceEngine\<close> and starts inferences on it; a
  daemon (\<^verbatim>\<open>dxrtd\<close>, \<^verbatim>\<open>src/lib/dxrt_service\<close>) owns the devices and shares them among processes.
  A model is a graph of tasks. An inference becomes an \<open>InferenceJob\<close>, which sends one request per
  task as soon as the tensors the task reads exist; a request takes its buffers from the pools of its
  task, is encoded into the layout of the NPU, goes to a device, where the scheduler of the service
  orders the requests of all processes, and comes back as a response that is decoded and completes a
  task of the job. Client and daemon talk in packets with a fixed header; memory of the
  device is handed out by the service, per task and per process, and taken back when a task or a
  process ends.

  \<^bold>\<open>Theories and sources.\<close> Each component has a theory with its state and operations and, where the
  proofs are long, a second one named \<^verbatim>\<open>_Correct\<close>. Operations keep the names of the C++ functions.

  \<^item> \<^verbatim>\<open>Prelude\<close>: the word types, \<^verbatim>\<open>std::map\<close> as a strictly sorted association list, the lemma
    collections the proofs share.
  \<^item> \<^verbatim>\<open>Npu_Memory\<close>, \<^verbatim>\<open>Npu_Memory_Correct\<close> (\<^verbatim>\<open>src/lib/memory.cpp\<close>): the best-fit allocator of a device
    as a record of the address map, the used bytes and the rover. The blocks tile the memory, an
    allocation returns the least fitting free block, fails only when no block fits even after
    compaction, and a release restores the pool.
  \<^item> \<^verbatim>\<open>Memory_Service\<close> (\<^verbatim>\<open>memory_service.cpp\<close>): ownership of blocks by task and process over one
    allocator per device; isolation of owners, exactness of the releases.
  \<^item> \<^verbatim>\<open>Scheduler\<close>, \<^verbatim>\<open>Scheduler_Correct\<close> (\<^verbatim>\<open>schedule_service.cpp\<close>): the FIFO, round-robin and
    shortest-job queues behind one locale \<open>request_queue\<close>, the loads and the map of running requests;
    the loads count exactly the requests in flight, work is never left waiting beside a free
    device, every completion is delivered.
  \<^item> \<^verbatim>\<open>Bound_Manager\<close>, \<^verbatim>\<open>Task_Info_Store\<close>, \<^verbatim>\<open>Memfd_Service\<close> (\<^verbatim>\<open>bound_manager.cpp\<close>,
    \<^verbatim>\<open>process_task_info_store.hpp\<close>, \<^verbatim>\<open>memfd_service.cpp\<close>): core assignments of a device, the
    registry of the tasks of each process, shared memory blocks.
  \<^item> \<^verbatim>\<open>Dxrt_Service\<close>, \<^verbatim>\<open>Dxrt_Service_Correct\<close> and this theory (\<^verbatim>\<open>dxrt_service_v2.cpp\<close>): the handlers of
    the daemon over one state composed of the parts above. An invariant ties the parts together;
    the properties below follow the memory of a task through requests, disconnects and drains.
  \<^item> \<^verbatim>\<open>Ipc_Packet\<close> (\<^verbatim>\<open>ipc_packet.cpp\<close>), \<^verbatim>\<open>Circular_Buffer\<close> (\<^verbatim>\<open>circular_buffer.cpp\<close>,
    \<^verbatim>\<open>circular_data_pool.h\<close>): packets at the byte level and their round trip, the ring buffer and the
    pool of reusable objects (locale \<open>flag_pool\<close>).
  \<^item> \<^verbatim>\<open>Npu_Format\<close>, \<^verbatim>\<open>Npu_Encode\<close> with their \<^verbatim>\<open>_Correct\<close> theories (\<^verbatim>\<open>npu_format_handler.cpp\<close>): the
    layout conversions byte by byte and the entry points that choose among them per tensor.
  \<^item> \<^verbatim>\<open>Task_Graph\<close>, \<^verbatim>\<open>Task_Graph_Correct\<close> (\<^verbatim>\<open>inference_engine.cpp\<close>, the graph part of the model
    loading): heads, tails, successors, layout of the output buffer.
  \<^item> \<^verbatim>\<open>Inference_Job\<close>, \<^verbatim>\<open>Inference_Job_Correct\<close> (\<^verbatim>\<open>inference_job.cpp\<close>): a job as a step relation over
    the critical sections of its worker threads; every task runs once and a job of a well-formed
    model completes under every interleaving.
  \<^item> \<^verbatim>\<open>Inference_Engine\<close> (\<^verbatim>\<open>inference_engine.cpp\<close>, the run functions): checks, set-up of jobs, the batch
    loop, \<open>Wait\<close>.
  \<^item> \<^verbatim>\<open>Buffer_Pools\<close>, \<^verbatim>\<open>Buffer_Pools_Correct\<close> (\<^verbatim>\<open>fixed_size_buffer.cpp\<close>, \<^verbatim>\<open>task.cpp\<close>,
    \<^verbatim>\<open>npu_memory_cache.cpp\<close>): the pools a request draws from, with the locale \<open>token_pool\<close> and its two
    interpretations; acquisition is all or nothing and jobs cannot block each other for ever.
  \<^item> \<^verbatim>\<open>Sub_Batch\<close> (\<^verbatim>\<open>inference_engine.cpp\<close>, the batch callbacks): waiting for the elements of a batch; a
    batch that returns has every result, whatever the order of the callbacks.
  \<^item> \<^verbatim>\<open>Device_Pool\<close>, \<^verbatim>\<open>Device_Pool_Correct\<close>, \<^verbatim>\<open>Stop_Gate\<close> (\<^verbatim>\<open>src/lib/device_pool\<close>): the choice of the least
    loaded device and the exactness of the loads; the gate that stops new requests and waits for those in flight.
  \<^item> \<^verbatim>\<open>No_Service\<close>, \<^verbatim>\<open>Acc_Task_Layer\<close>, \<^verbatim>\<open>Acc_Task_Layer_Correct\<close>, \<^verbatim>\<open>Acc_In_Flight\<close>
    (\<^verbatim>\<open>no_service_layer.cpp\<close>, \<^verbatim>\<open>acc_device_task_layer_register_pcie.cpp\<close>): memory without the daemon, the registration of a task
    with its roll-back on every failure, the slices and transfers of a request; requests in flight never share memory of the device.
  \<^item> \<^verbatim>\<open>Model_Parser\<close>, \<^verbatim>\<open>Model_Parser_Correct\<close> (\<^verbatim>\<open>src/lib/parsers\<close>, \<^verbatim>\<open>model_parser_factory.cpp\<close>, \<^verbatim>\<open>model.h\<close>): model files of the
    versions 7 and 8, over the documents of the JSON library, with the locale \<open>shape_reader\<close> for the part in which the versions read
    tensors differently. A loaded section is the bytes of the file its header names, and what is known of a tensor is well typed.
  \<^item> \<^verbatim>\<open>Task_Import\<close>, \<^verbatim>\<open>Task_Import_Correct\<close> (\<^verbatim>\<open>task_data.cpp\<close>, \<^verbatim>\<open>ppu_binary_parser.cpp\<close>): the parameters of an NPU task from a loaded
    model; from the file to the transfer, outputs stay where the compiler put them.
  \<^item> \<^verbatim>\<open>Monitor_Shm\<close> (\<^verbatim>\<open>src/lib/device_shm\<close>): the state of the devices in shared memory under a sequence counter, as stores of a writer and
    loads of a reader; with the locale \<open>seqlock\<close>, a read that succeeds is atomic under every interleaving.
  \<^item> \<^verbatim>\<open>User_Events\<close>, \<^verbatim>\<open>Profiler_Buffers\<close>, \<^verbatim>\<open>Profiler_Correct\<close>, \<^verbatim>\<open>Timers\<close> (\<^verbatim>\<open>user_event_store.cpp\<close>, \<^verbatim>\<open>profiler.cpp\<close>, \<^verbatim>\<open>inference_timer.cpp\<close>,
    \<^verbatim>\<open>usage_timer.cpp\<close>): the rings of time points and the statistics that are updated one value at a time, with \<^verbatim>\<open>double\<close> as rational
    number. They are those of plain lists of all events, jobs and durations. \<^verbatim>\<open>PROFILER_DEFAULT_SAMPLES\<close> is an argument.

  \<^bold>\<open>Conventions.\<close> Addresses, sizes and identifiers are words of the width the code uses, so sums wrap
  as they do there; counters that the code never lets near their limit are \<open>int\<close> or \<open>nat\<close>. A failing
  operation returns \<open>None\<close> or an error value, and an operation with undefined behaviour in C++ (an
  index out of range, a null pointer) is an explicit outcome (such as \<open>Invalid_access\<close> of the service). Answers of the driver, of the system calls
  and of the clock are arguments of the definitions. A mutex-protected operation is one step; where code
  leaves its lock in the middle, the parts are separate steps of an inductive relation.
  Loops are structural recursions or have a termination proof with a measure; no function of the
  model takes fuel. The concrete bounds are those of the sources (alignment, number of cores, cache
  and batch sizes).

  \<^bold>\<open>Not modelled.\<close> Driver calls, sockets and system calls, the scheduling of threads, time, and memory orders weaker than
  sequential consistency; the JSON library and ONNX Runtime, which the sources only call (the documents of the first are a datatype, its
  parser an argument); the parser of version 6, which rewrites documents with that library and prints them again before it
  parses them; the standard and virtual-NPU variants of the device task layer, which follow the protocol of the modelled one over other
  driver calls; the IPP and NEON variants of the transposes, which are a parameter; printed tables, logging, configuration files and data dumps; the
  C, C# and Python bindings; command line tools. Of the service, telemetry and fault injection; of the engine, device validation runs and \<open>Dispose\<close>.

  \<^bold>\<open>Plan.\<close> What would come next: the parser of version 6 over a model of the document edits it makes, and the registry of the IPC handlers.
\<close>

section \<open>Properties of the composed service\<close>

text \<open>
  A small run used by the witnesses: a service with two devices of one megabyte; process 7
  registers task 5 on device \<open>d\<close>, allocates 8 KB of model memory for it and submits one request.
\<close>

definition req0 :: request_acc where
  "req0 = \<lparr>rq_req_id = 1, rq_task_id = 5, rq_proc_id = 7, rq_dma_ch = 0\<rparr>"

definition resp0 :: response where
  "resp0 = \<lparr>rs_req_id = 1, rs_inf_time = 10, rs_status = 0, rs_proc_id = 7\<rparr>"

fun result_of :: "'r handled \<Rightarrow> 'r option" where
  "result_of (Handled r S) = Some r"
| "result_of h = None"

fun state_of :: "'r handled \<Rightarrow> DxrtServiceV2" where
  "state_of (Handled r S) = S"

definition boot :: DxrtServiceV2 where
  "boot = state_of (DxrtServiceV2_new (fifo_new 2) [(0, 1048576, False), (0, 1048576, False)] 4096 1)"

definition one_task :: "int \<Rightarrow> DxrtServiceV2" where
  "one_task d = state_of (HandleTaskInit idle_env 7 d 5 0 4096 no_config boot)"

definition loaded :: "int \<Rightarrow> DxrtServiceV2" where
  "loaded d = state_of (HandleAllocate idle_env 7 d 5 8192 True (one_task d))"

definition busy :: "int \<Rightarrow> DxrtServiceV2" where
  "busy d = state_of (HandleInferenceRequest idle_env 7 d req0 (loaded d))"

definition gone :: "int \<Rightarrow> DxrtServiceV2" where
  "gone d = state_of (HandleProcessDeInit idle_env 7 d (busy d))"

definition blocks :: "int \<Rightarrow> slot \<Rightarrow> DxrtServiceV2 \<Rightarrow> u64 list" where
  "blocks d sl S = (case GetMemoryService d S of None \<Rightarrow> [] | Some mem \<Rightarrow> slot_addrs mem sl)"

lemma result_of_Some: "result_of h = Some r \<Longrightarrow> h = Handled r (state_of h)"
  by (cases h) auto

lemma reachable_boot: "svc_reachable boot"
proof -
  have "result_of (DxrtServiceV2_new (fifo_new 2) [(0, 1048576, False), (0, 1048576, False)] 4096 1) = Some ()" by code_simp
  from result_of_Some [OF this]
  have "DxrtServiceV2_new (fifo_new 2) [(0, 1048576, False), (0, 1048576, False)] 4096 1 = Handled () boot" by (simp add: boot_def)
  moreover have "fifo_new 2 = fifo_new (length [(0::u64, 1048576::u64, False), (0, 1048576, False)])" by (simp add: numeral_2_eq_2)
  ultimately show ?thesis by (intro svc_reachable.start) (auto simp: less_Suc_eq)
qed

lemma run_results:
  assumes "d = 0 \<or> d = 1"
  shows "HandleTaskInit idle_env 7 d 5 0 4096 no_config boot = Handled 0 (one_task d)"
    "\<exists>info. HandleAllocate idle_env 7 d 5 8192 True (one_task d) = Handled info (loaded d)"
    "HandleInferenceRequest idle_env 7 d req0 (loaded d) = Handled 0 (busy d)"
    "HandleProcessDeInit idle_env 7 d (busy d) = Handled 0 (gone d)"
proof -
  have "result_of (HandleTaskInit idle_env 7 d 5 0 4096 no_config boot) = Some 0" using assms by (elim disjE; hypsubst; code_simp)
  then show "HandleTaskInit idle_env 7 d 5 0 4096 no_config boot = Handled 0 (one_task d)"
    by (simp add: one_task_def result_of_Some)
  have "result_of (HandleAllocate idle_env 7 d 5 8192 True (one_task d)) \<noteq> None" using assms by (elim disjE; hypsubst; code_simp)
  then obtain info where "result_of (HandleAllocate idle_env 7 d 5 8192 True (one_task d)) = Some info" by (rule not_None_eq [THEN iffD1, THEN exE])
  from result_of_Some [OF this]
  show "\<exists>info. HandleAllocate idle_env 7 d 5 8192 True (one_task d) = Handled info (loaded d)"
    by (intro exI [of _ info]) (simp add: loaded_def)
  have "result_of (HandleInferenceRequest idle_env 7 d req0 (loaded d)) = Some 0" using assms by (elim disjE; hypsubst; code_simp)
  then show "HandleInferenceRequest idle_env 7 d req0 (loaded d) = Handled 0 (busy d)"
    by (simp add: busy_def result_of_Some)
  have "result_of (HandleProcessDeInit idle_env 7 d (busy d)) = Some 0" using assms by (elim disjE; hypsubst; code_simp)
  then show "HandleProcessDeInit idle_env 7 d (busy d) = Handled 0 (gone d)"
    by (simp add: gone_def result_of_Some)
qed

lemma run_reachable:
  assumes "d = 0 \<or> d = 1"
  shows "svc_reachable (one_task d)" "svc_reachable (loaded d)" "svc_reachable (busy d)" "svc_reachable (gone d)"
proof -
  note r = run_results [OF assms]
  have b: "bound_of 0 \<noteq> None" by code_simp
  show 1: "svc_reachable (one_task d)"
    by (rule svc_reachable.step [OF reachable_boot svc_step.task_init [OF b r(1)]])
  obtain info where "HandleAllocate idle_env 7 d 5 8192 True (one_task d) = Handled info (loaded d)" using r(2) by blast
  then show 2: "svc_reachable (loaded d)"
    by (intro svc_reachable.step [OF 1 svc_step.allocate]) auto
  show 3: "svc_reachable (busy d)"
    by (rule svc_reachable.step [OF 2 svc_step.inference [OF r(3)]])
  show "svc_reachable (gone d)"
    by (rule svc_reachable.step [OF 3 svc_step.process_deinit [OF r(4)]])
qed









text \<open>
  A disconnect releases only blocks of registered tasks of that process: any other block, in
  particular a block of another process, keeps its owner on every device. Blocks the process
  allocated without a task (task id -1) and blocks of a task it has deregistered before are also
  kept, although no request can name them any more.
\<close>
theorem disconnect_releases_only_registered_tasks:
  assumes "svc_reachable S" "onClientDisconnected env p S = Handled () S'" "GetMemoryService d S = Some mem"
    and "\<forall>t. sl = Task p t \<longrightarrow> \<not> hasTask p d t (sv_taskInfoStore S)"
  shows "\<exists>mem'. GetMemoryService d S' = Some mem' \<and> (\<forall>a. (sl, a) \<in> owned mem' \<longleftrightarrow> (sl, a) \<in> owned mem)"
proof -
  obtain S1 where S1: "deinit_devices env p (map int [0..<length (sv_devices S)]) S = Handled () S1"
    "S' = S1\<lparr>sv_pidSet := remove1 p (sv_pidSet S1)\<rparr>"
    using assms(2) unfolding onClientDisconnected_def
    by (cases "deinit_devices env p (map int [0..<length (sv_devices S)]) S") auto
  have "GetMemoryService d S' = GetMemoryService d S1" by (simp add: S1(2) GetMemoryService_def)
  with deinit_devices_keeps [OF svc_reachable_inv [OF assms(1)] S1(1) assms(3), of sl] assms(4) show ?thesis by auto
qed

definition legacy :: DxrtServiceV2 where
  "legacy = state_of (HandleAllocate idle_env 7 0 (-1) 8192 False boot)"

text \<open>
  With more than one device the deferral fails: the clean-up of device 0 cancels the requests
  of the process on every device and queues their tasks for release on device 0, so that the clean-up
  of device 1 no longer sees a running request. In the run of process 7, whose only request is in
  flight on device 1, the disconnect releases the model memory of its task at once, and the next
  client gets the same block while the request is still in flight.
\<close>
theorem disconnect_frees_memory_in_flight:
  "svc_reachable (busy 1) \<and> blocks 1 (Task 7 5) (busy 1) = [1040384]
   \<and> (\<exists>S' S'' info. onClientDisconnected idle_env 7 (busy 1) = Handled () S'
        \<and> in_flight 1 (sc_log (sv_scheduler S')) = 1 \<and> blocks 1 (Task 7 5) S' = []
        \<and> map_of (sv_pendingTaskFree S') (7, 5) = Some 0
        \<and> HandleAllocate idle_env 8 1 9 8192 True S' = Handled info S'' \<and> blocks 1 (Task 8 9) S'' = [1040384]
        \<and> in_flight 1 (sc_log (sv_scheduler S'')) = 1)"
proof -
  let ?S = "state_of (onClientDisconnected idle_env 7 (busy 1))"
  let ?T = "state_of (HandleAllocate idle_env 8 1 9 8192 True ?S)"
  have f: "result_of (onClientDisconnected idle_env 7 (busy 1)) = Some ()" "in_flight 1 (sc_log (sv_scheduler ?S)) = 1"
    "blocks 1 (Task 7 5) ?S = []" "map_of (sv_pendingTaskFree ?S) (7, 5) = Some 0"
    "result_of (HandleAllocate idle_env 8 1 9 8192 True ?S) \<noteq> None" "blocks 1 (Task 8 9) ?T = [1040384]"
    "in_flight 1 (sc_log (sv_scheduler ?T)) = 1" "blocks 1 (Task 7 5) (busy 1) = [1040384]" by code_simp+
  from f(5) obtain info where "result_of (HandleAllocate idle_env 8 1 9 8192 True ?S) = Some info" by auto
  from result_of_Some [OF this] result_of_Some [OF f(1)] f run_reachable(3) [of 1] show ?thesis by blast
qed



end
